(* ===== verification/Prelude.thy ===== *)
theory Prelude
  imports Main "HOL-Library.Word" "HOL-Library.AList" "HOL-Library.Sublist"
begin

text \<open>
  Shared vocabulary of the development: the machine integers and byte strings of the Rust
  sources, the outcome type in which errors and panics are values, the checked, saturating
  and wrapping arithmetic of the Rust core library on unsigned words, big-endian integer
  encodings, checked slicing, and the generic lemmas on lists and association lists that the
  component theories rest on.

  Integers keep their width: \<open>u8\<close>, \<open>u16\<close>, \<open>u32\<close>, \<open>u64\<close> are words, and \<open>+\<close>, \<open>-\<close>, \<open>*\<close>
  on them wrap around.  That is what the shipped binaries do, since the release profile of
  the workspace's Cargo.toml leaves overflow checks off.  A \<open>usize\<close> that counts bytes or
  elements held in memory is a \<open>nat\<close>.
\<close>

unbundle bit_operations_syntax

section \<open>Types\<close>

type_synonym u8 = "8 word"
type_synonym u16 = "16 word"
type_synonym u32 = "32 word"
type_synonym u64 = "64 word"
type_synonym b256 = "256 word"
type_synonym address = "160 word"
type_synonym bytes = "u8 list"

named_theorems codec_simps \<open>length and slicing facts of the byte encodings\<close>
named_theorems keeps_origin \<open>operations that leave the L1 origin of a stage alone\<close>

section \<open>Outcomes\<close>

text \<open>
  A Rust function of type \<open>Result<T, E>\<close> returns \<open>Ok\<close> or \<open>Err\<close>; indexing out of range,
  \<open>expect\<close> on \<open>None\<close> and \<open>panic!\<close> end in \<open>Panic\<close>.
\<close>

datatype ('e, 'a) outcome = Ok (ok_value: 'a) | Err (err_value: 'e) | Panic

definition obind :: "('e, 'a) outcome \<Rightarrow> ('a \<Rightarrow> ('e, 'b) outcome) \<Rightarrow> ('e, 'b) outcome" where
  "obind m f = (case m of Ok x \<Rightarrow> f x | Err e \<Rightarrow> Err e | Panic \<Rightarrow> Panic)"

definition map_err :: "('e \<Rightarrow> 'f) \<Rightarrow> ('e, 'a) outcome \<Rightarrow> ('f, 'a) outcome" where
  "map_err g m = (case m of Ok x \<Rightarrow> Ok x | Err e \<Rightarrow> Err (g e) | Panic \<Rightarrow> Panic)"

definition ok_or :: "'e \<Rightarrow> 'a option \<Rightarrow> ('e, 'a) outcome" where
  "ok_or e x = (case x of Some y \<Rightarrow> Ok y | None \<Rightarrow> Err e)"

lemma obind_simps [simp]:
  "obind (Ok x) f = f x" "obind (Err e) f = Err e" "obind Panic f = Panic"
  by (simp_all add: obind_def)

lemma map_err_simps [simp]:
  "map_err g (Ok x) = Ok x" "map_err g (Err e) = Err (g e)" "map_err g Panic = Panic"
  by (simp_all add: map_err_def)

lemma ok_or_simps [simp]: "ok_or e (Some x) = Ok x" "ok_or e None = Err e"
  by (simp_all add: ok_or_def)

lemma obind_eq_Ok: "obind m f = Ok y \<longleftrightarrow> (\<exists>x. m = Ok x \<and> f x = Ok y)"
  by (cases m) auto

lemma obind_eq_Panic: "obind m f = Panic \<longleftrightarrow> m = Panic \<or> (\<exists>x. m = Ok x \<and> f x = Panic)"
  by (cases m) auto

section \<open>Arithmetic of the Rust core library\<close>

definition checked_add :: "'a::len word \<Rightarrow> 'a word \<Rightarrow> 'a word option" where
  "checked_add a b = (if unat a + unat b < 2 ^ LENGTH('a) then Some (a + b) else None)"

definition checked_sub :: "'a::len word \<Rightarrow> 'a word \<Rightarrow> 'a word option" where
  "checked_sub a b = (if b \<le> a then Some (a - b) else None)"

definition saturating_add :: "'a::len word \<Rightarrow> 'a word \<Rightarrow> 'a word" where
  "saturating_add a b = (if unat a + unat b < 2 ^ LENGTH('a) then a + b else -1)"

definition saturating_sub :: "'a::len word \<Rightarrow> 'a word \<Rightarrow> 'a word" where
  "saturating_sub a b = (if b \<le> a then a - b else 0)"

definition saturating_mul :: "'a::len word \<Rightarrow> 'a word \<Rightarrow> 'a word" where
  "saturating_mul a b = (if unat a * unat b < 2 ^ LENGTH('a) then a * b else -1)"

text \<open>\<open>div_ceil\<close> rounds the quotient up; the sources call it with a non-zero divisor only.\<close>

definition div_ceil :: "'a::len word \<Rightarrow> 'a word \<Rightarrow> 'a word" where
  "div_ceil a b = (if a mod b = 0 then a div b else a div b + 1)"

lemma unat_less_pow: "unat (w :: 'a::len word) < 2 ^ LENGTH('a)"
  by (rule unsigned_less)

lemma unat_of_nat_small: "n < 2 ^ LENGTH('a) \<Longrightarrow> unat (word_of_nat n :: 'a::len word) = n"
  by (simp add: unat_of_nat)

lemma unat_max_word: "unat (-1 :: 'a::len word) = 2 ^ LENGTH('a) - 1"
  by (simp add: unsigned_minus_1_eq_mask mask_eq_exp_minus_1)

lemma unat_saturating_add:
  "unat (saturating_add a b :: 'a::len word) = min (unat a + unat b) (2 ^ LENGTH('a) - 1)"
  by (auto simp: saturating_add_def unat_max_word unat_add_lem [THEN iffD1] min_def)

lemma unat_saturating_mul:
  "unat (saturating_mul a b :: 'a::len word) = min (unat a * unat b) (2 ^ LENGTH('a) - 1)"
proof (cases "unat a * unat b < 2 ^ LENGTH('a)")
  case True
  then show ?thesis
    by (simp add: saturating_mul_def unat_mult_lem [THEN iffD1])
next
  case False
  then have "2 ^ LENGTH('a) - 1 \<le> unat a * unat b" by linarith
  with False show ?thesis
    by (simp add: saturating_mul_def unat_max_word min.absorb2)
qed

lemma unat_saturating_sub: "unat (saturating_sub a b) = unat a - unat b"
  by (auto simp: saturating_sub_def unat_sub word_le_nat_alt)

lemma checked_add_Some_iff:
  "checked_add a b = Some c \<longleftrightarrow> unat a + unat b < 2 ^ LENGTH('a) \<and> c = a + b"
  for a b c :: "'a::len word"
  by (auto simp: checked_add_def)

lemma obind_cong [fundef_cong]:
  "m = m' \<Longrightarrow> (\<And>x. m' = Ok x \<Longrightarrow> f x = g x) \<Longrightarrow> obind m f = obind m' g"
  by (cases m') auto

section \<open>Slices and indexing\<close>

text \<open>\<open>xs[a..b]\<close> and \<open>xs[i]\<close> panic out of range.\<close>

definition slice :: "'a list \<Rightarrow> nat \<Rightarrow> nat \<Rightarrow> ('e, 'a list) outcome" where
  "slice xs a b = (if a \<le> b \<and> b \<le> length xs then Ok (take (b - a) (drop a xs)) else Panic)"

definition index :: "'a list \<Rightarrow> nat \<Rightarrow> ('e, 'a) outcome" where
  "index xs i = (if i < length xs then Ok (xs ! i) else Panic)"

lemma slice_Ok [simp]: "a \<le> b \<Longrightarrow> b \<le> length xs \<Longrightarrow> slice xs a b = Ok (take (b - a) (drop a xs))"
  by (simp add: slice_def)

lemma index_Ok [simp]: "i < length xs \<Longrightarrow> index xs i = Ok (xs ! i)"
  by (simp add: index_def)

section \<open>Big-endian integers\<close>

primrec nat_to_be :: "nat \<Rightarrow> nat \<Rightarrow> bytes" where
  "nat_to_be 0 n = []"
| "nat_to_be (Suc k) n = nat_to_be k (n div 256) @ [word_of_nat n]"

definition nat_from_be :: "bytes \<Rightarrow> nat" where
  "nat_from_be bs = foldl (\<lambda>acc b. acc * 256 + unat b) 0 bs"

definition u16_to_be_bytes :: "u16 \<Rightarrow> bytes" where
  "u16_to_be_bytes w = nat_to_be 2 (unat w)"

definition u32_to_be_bytes :: "u32 \<Rightarrow> bytes" where
  "u32_to_be_bytes w = nat_to_be 4 (unat w)"

definition u64_to_be_bytes :: "u64 \<Rightarrow> bytes" where
  "u64_to_be_bytes w = nat_to_be 8 (unat w)"

definition u16_from_be_bytes :: "bytes \<Rightarrow> u16" where
  "u16_from_be_bytes bs = word_of_nat (nat_from_be bs)"

definition u32_from_be_bytes :: "bytes \<Rightarrow> u32" where
  "u32_from_be_bytes bs = word_of_nat (nat_from_be bs)"

definition u64_from_be_bytes :: "bytes \<Rightarrow> u64" where
  "u64_from_be_bytes bs = word_of_nat (nat_from_be bs)"

lemma nat_from_be_Nil [simp]: "nat_from_be [] = 0"
  by (simp add: nat_from_be_def)

lemma nat_from_be_snoc [simp]: "nat_from_be (bs @ [b]) = nat_from_be bs * 256 + unat b"
  by (simp add: nat_from_be_def)

lemma length_nat_to_be [simp, codec_simps]: "length (nat_to_be k n) = k"
  by (induction k arbitrary: n) simp_all

lemma u8_nat_less [simp]: "unat (b :: u8) < 256"
  using unat_less_pow [of b] by simp

lemma nat_from_be_less: "nat_from_be bs < 256 ^ length bs"
proof (induction bs rule: rev_induct)
  case (snoc b bs)
  then have "nat_from_be bs * 256 + unat b < 256 ^ length bs * 256"
    using u8_nat_less [of b] by linarith
  then show ?case by simp
qed simp

lemma unat_u8_of_nat [simp]: "unat (word_of_nat n :: u8) = n mod 256"
  by (simp add: unat_of_nat)

lemma nat_from_to_be: "nat_from_be (nat_to_be k n) = n mod 256 ^ k"
proof (induction k arbitrary: n)
  case (Suc k)
  have "n div 256 mod 256 ^ k * 256 + n mod 256 = n mod (256 * 256 ^ k)"
    by (simp add: mod_mult2_eq)
  then show ?case by (simp add: Suc.IH)
qed simp

lemma nat_to_from_be: "nat_to_be (length bs) (nat_from_be bs) = bs"
proof (induction bs rule: rev_induct)
  case (snoc b bs)
  have b: "(nat_from_be bs * 256 + unat b) div 256 = nat_from_be bs"
    using u8_nat_less [of b] by simp
  have "word_of_nat (nat_from_be bs * 256 + unat b) = b"
    by (simp only: word_unat_eq_iff unat_u8_of_nat) simp
  then show ?case by (simp add: b snoc.IH del: of_nat_add of_nat_mult)
qed simp

lemma nat_to_be_append: "nat_to_be (a + b) n = nat_to_be a (n div 256 ^ b) @ nat_to_be b n"
  by (induction b arbitrary: n) (simp_all add: div_mult2_eq)

lemma length_u16_to_be [simp, codec_simps]: "length (u16_to_be_bytes w) = 2"
  by (simp add: u16_to_be_bytes_def)

lemma length_u32_to_be [simp, codec_simps]: "length (u32_to_be_bytes w) = 4"
  by (simp add: u32_to_be_bytes_def)

lemma length_u64_to_be [simp, codec_simps]: "length (u64_to_be_bytes w) = 8"
  by (simp add: u64_to_be_bytes_def)

lemma u16_from_to_be [simp]: "u16_from_be_bytes (u16_to_be_bytes w) = w"
  using unat_less_pow [of w] by (simp add: u16_from_be_bytes_def u16_to_be_bytes_def nat_from_to_be)

lemma u32_from_to_be [simp]: "u32_from_be_bytes (u32_to_be_bytes w) = w"
  using unat_less_pow [of w] by (simp add: u32_from_be_bytes_def u32_to_be_bytes_def nat_from_to_be)

lemma u64_from_to_be [simp]: "u64_from_be_bytes (u64_to_be_bytes w) = w"
  using unat_less_pow [of w] by (simp add: u64_from_be_bytes_def u64_to_be_bytes_def nat_from_to_be)

lemma u16_to_from_be: "length bs = 2 \<Longrightarrow> u16_to_be_bytes (u16_from_be_bytes bs) = bs"
  using nat_from_be_less [of bs] nat_to_from_be [of bs]
  by (simp add: u16_from_be_bytes_def u16_to_be_bytes_def unat_of_nat_small)

lemma unat_u32_from_be: "length bs = 4 \<Longrightarrow> unat (u32_from_be_bytes bs) = nat_from_be bs"
  using nat_from_be_less [of bs] by (simp add: u32_from_be_bytes_def unat_of_nat_small)

lemma u32_to_from_be: "length bs = 4 \<Longrightarrow> u32_to_be_bytes (u32_from_be_bytes bs) = bs"
  using nat_to_from_be [of bs] by (simp add: u32_to_be_bytes_def unat_u32_from_be)

end
