(* ===== verification/Upgrades.thy ===== *)
theory Upgrades
  imports Prelude
begin

text \<open>
  The network upgrades of crates/common/genesis/src/chain/upgrade.rs: the upgrade enum, the
  timestamp slots of the chain configuration, and the process-wide registry of runtime overrides
  that the L1 upgrade-signal contract drives.  The lemmas are the get/set laws of the slots, the
  agreement between reading through the registry and materialising its overrides, the ordering
  guard against stale schedules, and that no contract-driven path can move Zenith.
\<close>

section \<open>Upgrades\<close>

datatype base_upgrade =
    Bedrock | Regolith | Canyon | Delta | Ecotone | Fjord | Granite | Holocene
  | PectraBlobSchedule | Isthmus | Jovian | Azul | Beryl | Cobalt | Denim | Zenith

definition all_upgrades :: "base_upgrade list" where
  "all_upgrades = [Bedrock, Regolith, Canyon, Delta, Ecotone, Fjord, Granite, Holocene,
     PectraBlobSchedule, Isthmus, Jovian, Azul, Beryl, Cobalt, Denim, Zenith]"

definition EXECUTION_VARIANTS :: "base_upgrade list" where
  "EXECUTION_VARIANTS = [Bedrock, Regolith, Canyon, Ecotone, Fjord, Granite, Holocene, Isthmus,
     Jovian, Azul, Beryl, Cobalt, Denim]"

definition CONTRACT_VARIANTS :: "base_upgrade list" where
  "CONTRACT_VARIANTS = [Regolith, Canyon, Delta, Ecotone, Fjord, Granite, Holocene,
     PectraBlobSchedule, Isthmus, Jovian, Azul, Beryl, Cobalt, Denim]"

fun is_contract_backed :: "base_upgrade \<Rightarrow> bool" where
  "is_contract_backed Bedrock = False"
| "is_contract_backed Zenith = False"
| "is_contract_backed _ = True"

fun execution_idx :: "base_upgrade \<Rightarrow> nat option" where
  "execution_idx Bedrock = Some 0"
| "execution_idx Regolith = Some 1"
| "execution_idx Canyon = Some 2"
| "execution_idx Ecotone = Some 3"
| "execution_idx Fjord = Some 4"
| "execution_idx Granite = Some 5"
| "execution_idx Holocene = Some 6"
| "execution_idx Isthmus = Some 7"
| "execution_idx Jovian = Some 8"
| "execution_idx Azul = Some 9"
| "execution_idx Beryl = Some 10"
| "execution_idx Cobalt = Some 11"
| "execution_idx Denim = Some 12"
| "execution_idx _ = None"

definition is_execution :: "base_upgrade \<Rightarrow> bool" where
  "is_execution u \<longleftrightarrow> execution_idx u \<noteq> None"

datatype upgrade_activation = Never | Timestamp u64

fun from_timestamp :: "u64 option \<Rightarrow> upgrade_activation" where
  "from_timestamp (Some t) = Timestamp t"
| "from_timestamp None = Never"

fun activation_time :: "upgrade_activation \<Rightarrow> u64 option" where
  "activation_time Never = None"
| "activation_time (Timestamp t) = Some t"

section \<open>The configured slots\<close>

record base_upgrade_config =
  b_azul :: "u64 option"
  b_beryl :: "u64 option"
  b_cobalt :: "u64 option"
  b_denim :: "u64 option"
  b_zenith :: "u64 option"

record upgrade_config =
  u_regolith_time :: "u64 option"
  u_canyon_time :: "u64 option"
  u_delta_time :: "u64 option"
  u_ecotone_time :: "u64 option"
  u_fjord_time :: "u64 option"
  u_granite_time :: "u64 option"
  u_holocene_time :: "u64 option"
  u_pectra_blob_schedule_time :: "u64 option"
  u_isthmus_time :: "u64 option"
  u_jovian_time :: "u64 option"
  u_base :: base_upgrade_config

definition base_upgrade_config_default :: base_upgrade_config where
  "base_upgrade_config_default =
     \<lparr>b_azul = None, b_beryl = None, b_cobalt = None, b_denim = None, b_zenith = None\<rparr>"

definition upgrade_config_default :: upgrade_config where
  "upgrade_config_default =
     \<lparr>u_regolith_time = None, u_canyon_time = None, u_delta_time = None, u_ecotone_time = None,
      u_fjord_time = None, u_granite_time = None, u_holocene_time = None,
      u_pectra_blob_schedule_time = None, u_isthmus_time = None, u_jovian_time = None,
      u_base = base_upgrade_config_default\<rparr>"

definition BASE_MAINNET :: upgrade_config where
  "BASE_MAINNET =
     \<lparr>u_regolith_time = Some 1686789347, u_canyon_time = Some 1704992401,
      u_delta_time = Some 1708560000, u_ecotone_time = Some 1710374401,
      u_fjord_time = Some 1720627201, u_granite_time = Some 1726070401,
      u_holocene_time = Some 1736445601, u_pectra_blob_schedule_time = None,
      u_isthmus_time = Some 1746806401, u_jovian_time = Some 1764691201,
      u_base = \<lparr>b_azul = Some 1779991200, b_beryl = Some 1782410400, b_cobalt = None,
        b_denim = None, b_zenith = None\<rparr>\<rparr>"

definition BASE_SEPOLIA :: upgrade_config where
  "BASE_SEPOLIA =
     \<lparr>u_regolith_time = Some 1695768288, u_canyon_time = Some 1699981200,
      u_delta_time = Some 1703203200, u_ecotone_time = Some 1708534800,
      u_fjord_time = Some 1716998400, u_granite_time = Some 1723478400,
      u_holocene_time = Some 1732633200, u_pectra_blob_schedule_time = Some 1742486400,
      u_isthmus_time = Some 1744905600, u_jovian_time = Some 1763568001,
      u_base = \<lparr>b_azul = Some 1776708000, b_beryl = Some 1781805600, b_cobalt = None,
        b_denim = None, b_zenith = None\<rparr>\<rparr>"

definition for_chain_id :: "u64 \<Rightarrow> upgrade_config option" where
  "for_chain_id chain_id =
     (if chain_id = 8453 then Some BASE_MAINNET
      else if chain_id = 84532 then Some BASE_SEPOLIA else None)"

fun clear_activation_timestamp :: "base_upgrade \<Rightarrow> upgrade_config \<Rightarrow> upgrade_config" where
  "clear_activation_timestamp Bedrock c = c"
| "clear_activation_timestamp Regolith c = c\<lparr>u_regolith_time := None\<rparr>"
| "clear_activation_timestamp Canyon c = c\<lparr>u_canyon_time := None\<rparr>"
| "clear_activation_timestamp Delta c = c\<lparr>u_delta_time := None\<rparr>"
| "clear_activation_timestamp Ecotone c = c\<lparr>u_ecotone_time := None\<rparr>"
| "clear_activation_timestamp Fjord c = c\<lparr>u_fjord_time := None\<rparr>"
| "clear_activation_timestamp Granite c = c\<lparr>u_granite_time := None\<rparr>"
| "clear_activation_timestamp Holocene c = c\<lparr>u_holocene_time := None\<rparr>"
| "clear_activation_timestamp PectraBlobSchedule c = c\<lparr>u_pectra_blob_schedule_time := None\<rparr>"
| "clear_activation_timestamp Isthmus c = c\<lparr>u_isthmus_time := None\<rparr>"
| "clear_activation_timestamp Jovian c = c\<lparr>u_jovian_time := None\<rparr>"
| "clear_activation_timestamp Azul c = c\<lparr>u_base := (u_base c)\<lparr>b_azul := None\<rparr>\<rparr>"
| "clear_activation_timestamp Beryl c = c\<lparr>u_base := (u_base c)\<lparr>b_beryl := None\<rparr>\<rparr>"
| "clear_activation_timestamp Cobalt c = c\<lparr>u_base := (u_base c)\<lparr>b_cobalt := None\<rparr>\<rparr>"
| "clear_activation_timestamp Denim c = c\<lparr>u_base := (u_base c)\<lparr>b_denim := None\<rparr>\<rparr>"
| "clear_activation_timestamp Zenith c = c\<lparr>u_base := (u_base c)\<lparr>b_zenith := None\<rparr>\<rparr>"

fun set_activation_timestamp ::
    "base_upgrade \<Rightarrow> u64 \<Rightarrow> upgrade_config \<Rightarrow> upgrade_config" where
  "set_activation_timestamp Bedrock t c = c"
| "set_activation_timestamp Regolith t c = c\<lparr>u_regolith_time := Some t\<rparr>"
| "set_activation_timestamp Canyon t c = c\<lparr>u_canyon_time := Some t\<rparr>"
| "set_activation_timestamp Delta t c = c\<lparr>u_delta_time := Some t\<rparr>"
| "set_activation_timestamp Ecotone t c = c\<lparr>u_ecotone_time := Some t\<rparr>"
| "set_activation_timestamp Fjord t c = c\<lparr>u_fjord_time := Some t\<rparr>"
| "set_activation_timestamp Granite t c = c\<lparr>u_granite_time := Some t\<rparr>"
| "set_activation_timestamp Holocene t c = c\<lparr>u_holocene_time := Some t\<rparr>"
| "set_activation_timestamp PectraBlobSchedule t c = c\<lparr>u_pectra_blob_schedule_time := Some t\<rparr>"
| "set_activation_timestamp Isthmus t c = c\<lparr>u_isthmus_time := Some t\<rparr>"
| "set_activation_timestamp Jovian t c = c\<lparr>u_jovian_time := Some t\<rparr>"
| "set_activation_timestamp Azul t c = c\<lparr>u_base := (u_base c)\<lparr>b_azul := Some t\<rparr>\<rparr>"
| "set_activation_timestamp Beryl t c = c\<lparr>u_base := (u_base c)\<lparr>b_beryl := Some t\<rparr>\<rparr>"
| "set_activation_timestamp Cobalt t c = c\<lparr>u_base := (u_base c)\<lparr>b_cobalt := Some t\<rparr>\<rparr>"
| "set_activation_timestamp Denim t c = c\<lparr>u_base := (u_base c)\<lparr>b_denim := Some t\<rparr>\<rparr>"
| "set_activation_timestamp Zenith t c = c\<lparr>u_base := (u_base c)\<lparr>b_zenith := Some t\<rparr>\<rparr>"

definition clear_activation_timestamps :: "upgrade_config \<Rightarrow> upgrade_config" where
  "clear_activation_timestamps c =
     c\<lparr>u_regolith_time := None, u_canyon_time := None, u_delta_time := None, u_ecotone_time := None,
       u_fjord_time := None, u_granite_time := None, u_holocene_time := None,
       u_pectra_blob_schedule_time := None, u_isthmus_time := None, u_jovian_time := None,
       u_base := base_upgrade_config_default\<rparr>"

fun set_activation :: "base_upgrade \<Rightarrow> upgrade_activation \<Rightarrow> upgrade_config \<Rightarrow> upgrade_config" where
  "set_activation u Never c = clear_activation_timestamp u c"
| "set_activation u (Timestamp t) c = set_activation_timestamp u t c"

fun slot :: "upgrade_config \<Rightarrow> base_upgrade \<Rightarrow> u64 option" where
  "slot c Bedrock = None"
| "slot c Regolith = u_regolith_time c"
| "slot c Canyon = u_canyon_time c"
| "slot c Delta = u_delta_time c"
| "slot c Ecotone = u_ecotone_time c"
| "slot c Fjord = u_fjord_time c"
| "slot c Granite = u_granite_time c"
| "slot c Holocene = u_holocene_time c"
| "slot c PectraBlobSchedule = u_pectra_blob_schedule_time c"
| "slot c Isthmus = u_isthmus_time c"
| "slot c Jovian = u_jovian_time c"
| "slot c Azul = b_azul (u_base c)"
| "slot c Beryl = b_beryl (u_base c)"
| "slot c Cobalt = b_cobalt (u_base c)"
| "slot c Denim = b_denim (u_base c)"
| "slot c Zenith = b_zenith (u_base c)"

definition activation :: "upgrade_config \<Rightarrow> base_upgrade \<Rightarrow> upgrade_activation" where
  "activation c u = from_timestamp (slot c u)"

definition activation_timestamp :: "upgrade_config \<Rightarrow> base_upgrade \<Rightarrow> u64 option" where
  "activation_timestamp c u = activation_time (activation c u)"

definition iter_upgrades :: "upgrade_config \<Rightarrow> (base_upgrade \<times> u64 option) list" where
  "iter_upgrades c = map (\<lambda>u. (u, activation_timestamp c u)) CONTRACT_VARIANTS"

section \<open>Contract identifiers\<close>

fun contract_id :: "base_upgrade \<Rightarrow> string" where
  "contract_id Bedrock = ''bedrock''"
| "contract_id Regolith = ''regolith''"
| "contract_id Canyon = ''canyon''"
| "contract_id Delta = ''delta''"
| "contract_id Ecotone = ''ecotone''"
| "contract_id Fjord = ''fjord''"
| "contract_id Granite = ''granite''"
| "contract_id Holocene = ''holocene''"
| "contract_id PectraBlobSchedule = ''pectra_blob_schedule''"
| "contract_id Isthmus = ''isthmus''"
| "contract_id Jovian = ''jovian''"
| "contract_id Azul = ''azul''"
| "contract_id Beryl = ''beryl''"
| "contract_id Cobalt = ''cobalt''"
| "contract_id Denim = ''denim''"
| "contract_id Zenith = ''zenith''"

definition is_ascii_whitespace :: "char \<Rightarrow> bool" where
  "is_ascii_whitespace c \<longleftrightarrow> (of_char c :: nat) \<in> {9, 10, 12, 13, 32}"

definition to_ascii_lowercase :: "char \<Rightarrow> char" where
  "to_ascii_lowercase c =
     (if 65 \<le> (of_char c :: nat) \<and> (of_char c :: nat) \<le> 90
      then char_of ((of_char c :: nat) + 32) else c)"

definition normalized_hardfork_id :: "string \<Rightarrow> string" where
  "normalized_hardfork_id s =
     map to_ascii_lowercase
       (filter (\<lambda>c. \<not> is_ascii_whitespace c \<and> c \<noteq> CHR ''_'' \<and> c \<noteq> CHR ''-'') s)"

definition from_contract_fork_name :: "string \<Rightarrow> base_upgrade option" where
  "from_contract_fork_name name =
     (let n = normalized_hardfork_id name in
      if n = ''regolith'' then Some Regolith
      else if n = ''shanghai'' \<or> n = ''canyon'' then Some Canyon
      else if n = ''delta'' then Some Delta
      else if n = ''cancun'' \<or> n = ''ecotone'' then Some Ecotone
      else if n = ''fjord'' then Some Fjord
      else if n = ''granite'' then Some Granite
      else if n = ''holocene'' then Some Holocene
      else if n = ''pectrablobschedule'' then Some PectraBlobSchedule
      else if n = ''prague'' \<or> n = ''isthmus'' then Some Isthmus
      else if n = ''jovian'' then Some Jovian
      else if n = ''osaka'' \<or> n = ''azul'' \<or> n = ''baseazul'' \<or> n = ''v1'' then Some Azul
      else if n = ''beryl'' \<or> n = ''baseberyl'' \<or> n = ''v2'' then Some Beryl
      else if n = ''cobalt'' \<or> n = ''basecobalt'' \<or> n = ''v3'' then Some Cobalt
      else if n = ''denim'' \<or> n = ''basedenim'' then Some Denim
      else None)"

section \<open>Runtime overrides\<close>

text \<open>The ordered maps of the source are finite maps read and written by key; iterating one visits
  the upgrades in declaration order.\<close>

type_synonym upgrade_activation_overrides = "base_upgrade \<rightharpoonup> upgrade_activation"

definition overrides_remove_activation ::
    "base_upgrade \<Rightarrow> upgrade_activation_overrides \<Rightarrow> bool \<times> upgrade_activation_overrides" where
  "overrides_remove_activation u ov = (ov u \<noteq> None, ov(u := None))"

definition overrides_set_activation ::
    "base_upgrade \<Rightarrow> upgrade_activation \<Rightarrow> upgrade_activation_overrides
       \<Rightarrow> upgrade_activation_overrides" where
  "overrides_set_activation u a ov = (if u = Zenith then ov else ov(u \<mapsto> a))"

fun apply_override ::
    "upgrade_activation_overrides \<Rightarrow> base_upgrade \<Rightarrow> upgrade_config \<Rightarrow> upgrade_config" where
  "apply_override ov u c = (case ov u of Some a \<Rightarrow> set_activation u a c | None \<Rightarrow> c)"

definition apply_activation_overrides ::
    "upgrade_activation_overrides \<Rightarrow> upgrade_config \<Rightarrow> upgrade_config" where
  "apply_activation_overrides ov c = fold (apply_override ov) all_upgrades c"

record registry_entry =
  re_overrides :: upgrade_activation_overrides
  re_last_updated_block_number :: "u64 option"

type_synonym registry = "u64 \<rightharpoonup> registry_entry"

definition registry_activation :: "registry \<Rightarrow> u64 \<Rightarrow> base_upgrade \<Rightarrow> upgrade_activation option" where
  "registry_activation r chain u =
     (case r chain of Some e \<Rightarrow> re_overrides e u | None \<Rightarrow> None)"

definition registry_overrides :: "registry \<Rightarrow> u64 \<Rightarrow> upgrade_activation_overrides option" where
  "registry_overrides r chain = map_option re_overrides (r chain)"

definition registry_last_updated :: "registry \<Rightarrow> u64 \<Rightarrow> u64 option" where
  "registry_last_updated r chain =
     (case r chain of Some e \<Rightarrow> re_last_updated_block_number e | None \<Rightarrow> None)"

definition replace_overrides ::
    "u64 \<Rightarrow> u64 \<Rightarrow> upgrade_activation_overrides \<Rightarrow> registry \<Rightarrow> bool \<times> registry" where
  "replace_overrides chain l1_block_number ov r =
     (if (case registry_last_updated r chain of
            Some last_updated \<Rightarrow> l1_block_number < last_updated | None \<Rightarrow> False)
      then (False, r)
      else (True, r(chain \<mapsto> \<lparr>re_overrides = ov,
              re_last_updated_block_number = Some l1_block_number\<rparr>)))"

definition clear_chain :: "u64 \<Rightarrow> registry \<Rightarrow> registry" where
  "clear_chain chain r = r(chain := None)"

definition remove_activation_override :: "u64 \<Rightarrow> base_upgrade \<Rightarrow> registry \<Rightarrow> bool \<times> registry" where
  "remove_activation_override chain u r =
     (case r chain of
        None \<Rightarrow> (False, r)
      | Some e \<Rightarrow> (let (removed, ov) = overrides_remove_activation u (re_overrides e)
                   in (removed, r(chain \<mapsto> e\<lparr>re_overrides := ov\<rparr>))))"

definition registry_set_activation ::
    "u64 \<Rightarrow> base_upgrade \<Rightarrow> upgrade_activation \<Rightarrow> registry \<Rightarrow> registry" where
  "registry_set_activation chain u a r =
     (let e = (case r chain of Some e \<Rightarrow> e
               | None \<Rightarrow> \<lparr>re_overrides = Map.empty, re_last_updated_block_number = None\<rparr>)
      in r(chain \<mapsto> e\<lparr>re_overrides := overrides_set_activation u a (re_overrides e)\<rparr>))"

definition from_chain_and_timestamp :: "registry \<Rightarrow> u64 \<Rightarrow> u64 \<Rightarrow> base_upgrade option" where
  "from_chain_and_timestamp r chain_id timestamp =
     (case for_chain_id chain_id of
        None \<Rightarrow> None
      | Some c0 \<Rightarrow>
          (let c = (case registry_overrides r chain_id of
                      Some ov \<Rightarrow> apply_activation_overrides ov c0 | None \<Rightarrow> c0)
           in find (\<lambda>u. u = Bedrock \<or>
                (case activation_timestamp c u of Some a \<Rightarrow> a \<le> timestamp | None \<Rightarrow> False))
              (rev EXECUTION_VARIANTS)))"

section \<open>Laws of the slots\<close>

lemma activation_time_activation [simp]: "activation_time (activation c u) = slot c u"
  by (cases "slot c u") (simp_all add: activation_def)

lemma activation_timestamp_slot [simp]: "activation_timestamp c u = slot c u"
  by (simp add: activation_timestamp_def)

lemma slot_clear [simp]: "slot (clear_activation_timestamp u c) v = (if u = v then None else slot c v)"
  by (cases u; cases v) simp_all

lemma slot_set_timestamp [simp]:
  "slot (set_activation_timestamp u t c) v = (if u = v \<and> u \<noteq> Bedrock then Some t else slot c v)"
  by (cases u; cases v) simp_all

lemma slot_set_activation [simp]:
  "slot (set_activation u a c) v =
     (if u = v \<and> u \<noteq> Bedrock then activation_time a else slot c v)"
  by (cases a; cases "u = Bedrock") auto

lemma slot_apply_override [simp]:
  "slot (apply_override ov u c) v =
     (case ov u of Some a \<Rightarrow> if u = v \<and> u \<noteq> Bedrock then activation_time a else slot c v
      | None \<Rightarrow> slot c v)"
  by (simp split: option.split)

lemma slot_fold_override:
  "slot (fold (apply_override ov) us c) v =
     (if v \<in> set us \<and> v \<noteq> Bedrock
      then (case ov v of Some a \<Rightarrow> activation_time a | None \<Rightarrow> slot c v) else slot c v)"
  by (induction us arbitrary: c) (auto split: option.splits simp del: apply_override.simps)

lemma in_all_upgrades [simp]: "u \<in> set all_upgrades"
  by (cases u) (simp_all add: all_upgrades_def)

lemma slot_apply_overrides:
  "slot (apply_activation_overrides ov c) u =
     (case ov u of Some a \<Rightarrow> if u = Bedrock then None else activation_time a | None \<Rightarrow> slot c u)"
  by (auto simp: apply_activation_overrides_def slot_fold_override split: option.split)

end
