(* ===== verification/System_Config.thy ===== *)
theory System_Config
  imports Prelude
begin

text \<open>
  The L1 system configuration of crates/common/genesis/src/system and .../updates: decoding of the
  \<open>ConfigUpdate\<close> event logs, one update type per parameter, and their application to the
  \<open>SystemConfig\<close>.  The strict ABI decoders of the sol-types package are the fields of an
  \<open>abi_codec\<close> argument; \<open>abi_words\<close> is the contract the package documents for them.  The lemmas
  show that no log makes the decoder panic, that each log is applied on its own, and what a
  decoded update may and may not change.
\<close>

section \<open>Configuration and errors\<close>

type_synonym u256 = "256 word"

record system_config =
  sc_batcher_address :: address
  sc_overhead :: u256
  sc_scalar :: u256
  sc_gas_limit :: u64
  sc_base_fee_scalar :: "u64 option"
  sc_blob_base_fee_scalar :: "u64 option"
  sc_eip1559_denominator :: "u32 option"
  sc_eip1559_elasticity :: "u32 option"
  sc_operator_fee_scalar :: "u32 option"
  sc_operator_fee_constant :: "u64 option"
  sc_min_base_fee :: "u64 option"
  sc_da_footprint_gas_scalar :: "u16 option"

datatype log_processing_error =
    InvalidTopicLen nat
  | InvalidTopic
  | UnsupportedVersion b256
  | UpdateTypeDecodingError
  | InvalidSystemConfigUpdateType u64

datatype batcher_update_error =
    BU_InvalidDataLen nat
  | BU_PointerDecodingError
  | BU_InvalidDataPointer u64
  | BU_LengthDecodingError
  | BU_InvalidDataLength u64
  | BU_BatcherAddressDecodingError

datatype unsafe_block_signer_update_error =
    US_InvalidDataLen nat
  | US_PointerDecodingError
  | US_InvalidDataPointer u64
  | US_LengthDecodingError
  | US_InvalidDataLength u64
  | US_UnsafeBlockSignerAddressDecodingError

datatype gas_config_update_error =
    GC_InvalidDataLen nat
  | GC_PointerDecodingError
  | GC_InvalidDataPointer u64
  | GC_LengthDecodingError
  | GC_InvalidDataLength u64
  | GC_OverheadDecodingError
  | GC_ScalarDecodingError

datatype min_base_fee_update_error =
    MB_InvalidDataLen nat
  | MB_PointerDecodingError
  | MB_InvalidDataPointer u64
  | MB_LengthDecodingError
  | MB_InvalidDataLength u64
  | MB_MinBaseFeeDecodingError

datatype da_footprint_gas_scalar_update_error =
    DF_InvalidDataLen nat
  | DF_PointerDecodingError
  | DF_InvalidDataPointer u64
  | DF_LengthDecodingError
  | DF_InvalidDataLength u64
  | DF_DaFootprintGasScalarDecodingError

datatype gas_limit_update_error =
    GL_InvalidDataLen nat
  | GL_PointerDecodingError
  | GL_InvalidDataPointer u64
  | GL_LengthDecodingError
  | GL_InvalidDataLength u64
  | GL_GasLimitDecodingError

datatype eip1559_update_error =
    EI_InvalidDataLen nat
  | EI_PointerDecodingError
  | EI_InvalidDataPointer u64
  | EI_LengthDecodingError
  | EI_InvalidDataLength u64
  | EI_EIP1559DecodingError

datatype operator_fee_update_error =
    OF_InvalidDataLen nat
  | OF_PointerDecodingError
  | OF_InvalidDataPointer u64
  | OF_LengthDecodingError
  | OF_InvalidDataLength u64
  | OF_ScalarDecodingError
  | OF_ConstantDecodingError

datatype system_config_update_error =
    LogProcessing log_processing_error
  | BatcherErr batcher_update_error
  | GasConfigErr gas_config_update_error
  | GasLimitErr gas_limit_update_error
  | Eip1559Err eip1559_update_error
  | OperatorFeeErr operator_fee_update_error
  | UnsafeBlockSignerErr unsafe_block_signer_update_error
  | MinBaseFeeErr min_base_fee_update_error
  | DaFootprintGasScalarErr da_footprint_gas_scalar_update_error

datatype validation_error =
    InvalidDataLen nat nat
  | PointerDecodingError
  | InvalidDataPointer u64
  | LengthDecodingError
  | InvalidDataLength u64

datatype system_config_update_kind =
    KBatcher | KGasConfig | KGasLimit | KUnsafeBlockSigner | KEip1559 | KOperatorFee
  | KMinBaseFee | KDaFootprintGasScalar

definition update_kind_of_u64 :: "u64 \<Rightarrow> system_config_update_kind option" where
  "update_kind_of_u64 ty =
     (if ty = 0 then Some KBatcher else if ty = 1 then Some KGasConfig
      else if ty = 2 then Some KGasLimit else if ty = 3 then Some KUnsafeBlockSigner
      else if ty = 4 then Some KEip1559 else if ty = 5 then Some KOperatorFee
      else if ty = 6 then Some KMinBaseFee else if ty = 7 then Some KDaFootprintGasScalar
      else None)"

section \<open>Logs and receipts\<close>

record evm_log =
  log_address :: address
  log_topics :: "b256 list"
  log_data :: bytes

datatype receipt_status = Eip658 bool | PostState b256

record receipt =
  rc_status :: receipt_status
  rc_logs :: "evm_log list"

record abi_codec =
  abi_u16 :: "bytes \<Rightarrow> u16 option"
  abi_u64 :: "bytes \<Rightarrow> u64 option"
  abi_u256 :: "bytes \<Rightarrow> u256 option"
  abi_address :: "bytes \<Rightarrow> address option"

definition CONFIG_UPDATE_TOPIC :: b256 where
  "CONFIG_UPDATE_TOPIC = 0x1d2b0bda21d56b8bd12d4f94ebacffdfb35f5e226f84b461103bb8beab6353be"

definition EVENT_VERSION_0 :: b256 where
  "EVENT_VERSION_0 = 0"

section \<open>The common layout check\<close>

definition STANDARD_UPDATE_DATA_LEN :: nat where "STANDARD_UPDATE_DATA_LEN = 96"
definition EXPECTED_POINTER :: u64 where "EXPECTED_POINTER = 32"
definition EXPECTED_DATA_LENGTH :: u64 where "EXPECTED_DATA_LENGTH = 32"

definition validate_update :: "abi_codec \<Rightarrow> bytes \<Rightarrow> (validation_error, bytes) outcome" where
  "validate_update A data =
     (if length data \<noteq> STANDARD_UPDATE_DATA_LEN
      then Err (InvalidDataLen STANDARD_UPDATE_DATA_LEN (length data))
      else obind (slice data 0 32) (\<lambda>p.
           obind (ok_or PointerDecodingError (abi_u64 A p)) (\<lambda>pointer.
           if pointer \<noteq> EXPECTED_POINTER then Err (InvalidDataPointer pointer)
           else obind (slice data 32 64) (\<lambda>l.
                obind (ok_or LengthDecodingError (abi_u64 A l)) (\<lambda>len.
                if len \<noteq> EXPECTED_DATA_LENGTH then Err (InvalidDataLength len)
                else Ok data)))))"

definition payload :: "bytes \<Rightarrow> ('e, bytes) outcome" where
  "payload data = slice data 64 (length data)"

section \<open>The update types\<close>

datatype system_config_update =
    Batcher (batcher_address: address)
  | GasConfig (gc_scalar: "u256 option") (gc_overhead: "u256 option")
  | GasLimit (gas_limit: u64)
  | UnsafeBlockSigner (unsafe_block_signer: address)
  | Eip1559 (eip1559_denominator: u32) (eip1559_elasticity: u32)
  | OperatorFee (operator_fee_scalar: u32) (operator_fee_constant: u64)
  | MinBaseFee (min_base_fee: u64)
  | DaFootprintGasScalar (da_footprint_gas_scalar: u16)

fun bu_of_validation :: "validation_error \<Rightarrow> batcher_update_error" where
  "bu_of_validation (InvalidDataLen _ actual) = BU_InvalidDataLen actual"
| "bu_of_validation PointerDecodingError = BU_PointerDecodingError"
| "bu_of_validation (InvalidDataPointer pointer) = BU_InvalidDataPointer pointer"
| "bu_of_validation LengthDecodingError = BU_LengthDecodingError"
| "bu_of_validation (InvalidDataLength len) = BU_InvalidDataLength len"

fun us_of_validation :: "validation_error \<Rightarrow> unsafe_block_signer_update_error" where
  "us_of_validation (InvalidDataLen _ actual) = US_InvalidDataLen actual"
| "us_of_validation PointerDecodingError = US_PointerDecodingError"
| "us_of_validation (InvalidDataPointer pointer) = US_InvalidDataPointer pointer"
| "us_of_validation LengthDecodingError = US_LengthDecodingError"
| "us_of_validation (InvalidDataLength len) = US_InvalidDataLength len"

fun ei_of_validation :: "validation_error \<Rightarrow> eip1559_update_error" where
  "ei_of_validation (InvalidDataLen _ actual) = EI_InvalidDataLen actual"
| "ei_of_validation PointerDecodingError = EI_PointerDecodingError"
| "ei_of_validation (InvalidDataPointer pointer) = EI_InvalidDataPointer pointer"
| "ei_of_validation LengthDecodingError = EI_LengthDecodingError"
| "ei_of_validation (InvalidDataLength len) = EI_InvalidDataLength len"

fun of_of_validation :: "validation_error \<Rightarrow> operator_fee_update_error" where
  "of_of_validation (InvalidDataLen _ actual) = OF_InvalidDataLen actual"
| "of_of_validation PointerDecodingError = OF_PointerDecodingError"
| "of_of_validation (InvalidDataPointer pointer) = OF_InvalidDataPointer pointer"
| "of_of_validation LengthDecodingError = OF_LengthDecodingError"
| "of_of_validation (InvalidDataLength len) = OF_InvalidDataLength len"

definition batcher_update ::
    "abi_codec \<Rightarrow> bytes \<Rightarrow> (batcher_update_error, system_config_update) outcome" where
  "batcher_update A data =
     obind (map_err bu_of_validation (validate_update A data)) (\<lambda>validated.
     obind (payload validated) (\<lambda>w.
     obind (ok_or BU_BatcherAddressDecodingError (abi_address A w)) (\<lambda>a. Ok (Batcher a))))"

definition check_ecotone_l1_system_config_scalar :: "u256 \<Rightarrow> bool" where
  "check_ecotone_l1_system_config_scalar scalar =
     (let bs = nat_to_be 32 (unat scalar); version_byte = bs ! 0 in
      if version_byte = 0 then take 27 (drop 1 bs) = replicate 27 0
      else if version_byte = 1 then take 23 (drop 1 bs) = replicate 23 0
      else False)"

definition gas_config_update ::
    "abi_codec \<Rightarrow> bool \<Rightarrow> bytes \<Rightarrow> (gas_config_update_error, system_config_update) outcome" where
  "gas_config_update A ecotone_active data =
     (if length data \<noteq> 128 then Err (GC_InvalidDataLen (length data))
      else obind (slice data 0 32) (\<lambda>p.
           obind (ok_or GC_PointerDecodingError (abi_u64 A p)) (\<lambda>pointer.
           if pointer \<noteq> 32 then Err (GC_InvalidDataPointer pointer)
           else obind (slice data 32 64) (\<lambda>l.
                obind (ok_or GC_LengthDecodingError (abi_u64 A l)) (\<lambda>len.
                if len \<noteq> 64 then Err (GC_InvalidDataLength len)
                else obind (slice data 64 96) (\<lambda>ow.
                     obind (ok_or GC_OverheadDecodingError (abi_u256 A ow)) (\<lambda>overhead.
                     obind (slice data 96 (length data)) (\<lambda>sw.
                     obind (ok_or GC_ScalarDecodingError (abi_u256 A sw)) (\<lambda>scalar.
                     if ecotone_active \<and> \<not> check_ecotone_l1_system_config_scalar scalar
                     then Ok (GasConfig None None)
                     else Ok (GasConfig (Some scalar)
                            (Some (if ecotone_active then 0 else overhead))))))))))))"

definition gas_limit_update ::
    "abi_codec \<Rightarrow> bytes \<Rightarrow> (gas_limit_update_error, system_config_update) outcome" where
  "gas_limit_update A data =
     (if length data \<noteq> 96 then Err (GL_InvalidDataLen (length data))
      else obind (slice data 0 32) (\<lambda>p.
           obind (ok_or GL_PointerDecodingError (abi_u64 A p)) (\<lambda>pointer.
           if pointer \<noteq> 32 then Err (GL_InvalidDataPointer pointer)
           else obind (slice data 32 64) (\<lambda>l.
                obind (ok_or GL_LengthDecodingError (abi_u64 A l)) (\<lambda>len.
                if len \<noteq> 32 then Err (GL_InvalidDataLength len)
                else obind (slice data 64 (length data)) (\<lambda>w.
                     obind (ok_or GL_GasLimitDecodingError (abi_u256 A w)) (\<lambda>gas_limit.
                     if gas_limit > 0xFFFFFFFFFFFFFFFF then Err GL_GasLimitDecodingError
                     else Ok (GasLimit (ucast gas_limit)))))))))"

definition unsafe_block_signer_update ::
    "abi_codec \<Rightarrow> bytes \<Rightarrow> (unsafe_block_signer_update_error, system_config_update) outcome" where
  "unsafe_block_signer_update A data =
     obind (map_err us_of_validation (validate_update A data)) (\<lambda>validated.
     obind (payload validated) (\<lambda>w.
     obind (ok_or US_UnsafeBlockSignerAddressDecodingError (abi_address A w)) (\<lambda>a.
     Ok (UnsafeBlockSigner a))))"

definition eip1559_update ::
    "abi_codec \<Rightarrow> bytes \<Rightarrow> (eip1559_update_error, system_config_update) outcome" where
  "eip1559_update A data =
     obind (map_err ei_of_validation (validate_update A data)) (\<lambda>validated.
     obind (payload validated) (\<lambda>w.
     obind (ok_or EI_EIP1559DecodingError (abi_u64 A w)) (\<lambda>eip1559_params.
     Ok (Eip1559 (ucast (drop_bit 32 eip1559_params)) (ucast eip1559_params)))))"

definition operator_fee_update ::
    "abi_codec \<Rightarrow> bytes \<Rightarrow> (operator_fee_update_error, system_config_update) outcome" where
  "operator_fee_update A data =
     obind (map_err of_of_validation (validate_update A data)) (\<lambda>validated.
     obind (payload validated) (\<lambda>pl.
     obind (slice pl 20 24) (\<lambda>s.
     obind (slice pl 24 32) (\<lambda>c.
     Ok (OperatorFee (u32_from_be_bytes s) (u64_from_be_bytes c))))))"

definition min_base_fee_update ::
    "abi_codec \<Rightarrow> bytes \<Rightarrow> (min_base_fee_update_error, system_config_update) outcome" where
  "min_base_fee_update A data =
     (if length data \<noteq> 96 then Err (MB_InvalidDataLen (length data))
      else obind (slice data 0 32) (\<lambda>p.
           obind (ok_or MB_PointerDecodingError (abi_u64 A p)) (\<lambda>pointer.
           if pointer \<noteq> 32 then Err (MB_InvalidDataPointer pointer)
           else obind (slice data 32 64) (\<lambda>l.
                obind (ok_or MB_LengthDecodingError (abi_u64 A l)) (\<lambda>len.
                if len \<noteq> 32 then Err (MB_InvalidDataLength len)
                else obind (slice data 64 96) (\<lambda>w.
                     obind (ok_or MB_MinBaseFeeDecodingError (abi_u64 A w)) (\<lambda>min_base_fee.
                     Ok (MinBaseFee min_base_fee))))))))"

definition da_footprint_gas_scalar_update ::
    "abi_codec \<Rightarrow> bytes \<Rightarrow>
       (da_footprint_gas_scalar_update_error, system_config_update) outcome" where
  "da_footprint_gas_scalar_update A data =
     (if length data \<noteq> 96 then Err (DF_InvalidDataLen (length data))
      else obind (slice data 0 32) (\<lambda>p.
           obind (ok_or DF_PointerDecodingError (abi_u64 A p)) (\<lambda>pointer.
           if pointer \<noteq> 32 then Err (DF_InvalidDataPointer pointer)
           else obind (slice data 32 64) (\<lambda>l.
                obind (ok_or DF_LengthDecodingError (abi_u64 A l)) (\<lambda>len.
                if len \<noteq> 32 then Err (DF_InvalidDataLength len)
                else obind (slice data 64 96) (\<lambda>w.
                     obind (ok_or DF_DaFootprintGasScalarDecodingError (abi_u16 A w)) (\<lambda>s.
                     Ok (DaFootprintGasScalar s))))))))"

section \<open>Applying an update\<close>

definition DEFAULT_DA_FOOTPRINT_GAS_SCALAR :: u16 where
  "DEFAULT_DA_FOOTPRINT_GAS_SCALAR = 400"

definition batcher_apply :: "address \<Rightarrow> system_config \<Rightarrow> system_config" where
  [simp]: "batcher_apply a c = c\<lparr>sc_batcher_address := a\<rparr>"

definition gas_config_apply :: "u256 option \<Rightarrow> u256 option \<Rightarrow> system_config \<Rightarrow> system_config" where
  [simp]: "gas_config_apply scalar overhead c =
     (let c1 = (case scalar of Some s \<Rightarrow> c\<lparr>sc_scalar := s\<rparr> | None \<Rightarrow> c) in
      case overhead of Some v \<Rightarrow> c1\<lparr>sc_overhead := v\<rparr> | None \<Rightarrow> c1)"

definition gas_limit_apply :: "u64 \<Rightarrow> system_config \<Rightarrow> system_config" where
  [simp]: "gas_limit_apply g c = c\<lparr>sc_gas_limit := g\<rparr>"

definition eip1559_apply :: "u32 \<Rightarrow> u32 \<Rightarrow> system_config \<Rightarrow> system_config" where
  [simp]: "eip1559_apply d e c =
     c\<lparr>sc_eip1559_denominator := Some d, sc_eip1559_elasticity := Some e\<rparr>"

definition operator_fee_apply :: "u32 \<Rightarrow> u64 \<Rightarrow> system_config \<Rightarrow> system_config" where
  [simp]: "operator_fee_apply s k c =
     c\<lparr>sc_operator_fee_scalar := Some s, sc_operator_fee_constant := Some k\<rparr>"

definition min_base_fee_apply :: "u64 \<Rightarrow> system_config \<Rightarrow> system_config" where
  [simp]: "min_base_fee_apply m c = c\<lparr>sc_min_base_fee := Some m\<rparr>"

definition da_footprint_apply :: "u16 \<Rightarrow> system_config \<Rightarrow> system_config" where
  [simp]: "da_footprint_apply s c =
     c\<lparr>sc_da_footprint_gas_scalar :=
         Some (if s = 0 then DEFAULT_DA_FOOTPRINT_GAS_SCALAR else s)\<rparr>"

fun apply_update :: "system_config_update \<Rightarrow> system_config \<Rightarrow> system_config" where
  "apply_update (Batcher a) c = batcher_apply a c"
| "apply_update (GasConfig s ov) c = gas_config_apply s ov c"
| "apply_update (GasLimit g) c = gas_limit_apply g c"
| "apply_update (UnsafeBlockSigner a) c = c"
| "apply_update (Eip1559 d e) c = eip1559_apply d e c"
| "apply_update (OperatorFee s k) c = operator_fee_apply s k c"
| "apply_update (MinBaseFee m) c = min_base_fee_apply m c"
| "apply_update (DaFootprintGasScalar s) c = da_footprint_apply s c"

fun update_kind :: "system_config_update \<Rightarrow> system_config_update_kind" where
  "update_kind (Batcher a) = KBatcher"
| "update_kind (GasConfig s ov) = KGasConfig"
| "update_kind (GasLimit g) = KGasLimit"
| "update_kind (UnsafeBlockSigner a) = KUnsafeBlockSigner"
| "update_kind (Eip1559 d e) = KEip1559"
| "update_kind (OperatorFee s k) = KOperatorFee"
| "update_kind (MinBaseFee m) = KMinBaseFee"
| "update_kind (DaFootprintGasScalar s) = KDaFootprintGasScalar"

section \<open>Processing a log\<close>

definition validate_topic :: "evm_log \<Rightarrow> (log_processing_error, unit) outcome" where
  "validate_topic lg =
     (if length (log_topics lg) < 3 then Err (InvalidTopicLen (length (log_topics lg)))
      else obind (index (log_topics lg) 0) (\<lambda>t.
           if t \<noteq> CONFIG_UPDATE_TOPIC then Err InvalidTopic else Ok ()))"

definition validate_version :: "evm_log \<Rightarrow> (log_processing_error, unit) outcome" where
  "validate_version lg =
     obind (index (log_topics lg) 1) (\<lambda>version.
     if version \<noteq> EVENT_VERSION_0 then Err (UnsupportedVersion version) else Ok ())"

text \<open>The last eight bytes of a 32-byte topic, read as a big-endian integer, are its low 64 bits.\<close>

definition update_type :: "evm_log \<Rightarrow> (system_config_update_error, system_config_update_kind) outcome" where
  "update_type lg =
     (if length (log_topics lg) < 3
      then Err (LogProcessing (InvalidTopicLen (length (log_topics lg))))
      else obind (index (log_topics lg) 2) (\<lambda>topic.
           let ty = ucast topic in
           ok_or (LogProcessing (InvalidSystemConfigUpdateType ty)) (update_kind_of_u64 ty)))"

definition build_update ::
    "abi_codec \<Rightarrow> bool \<Rightarrow> evm_log \<Rightarrow> (system_config_update_error, system_config_update) outcome" where
  "build_update A ecotone_active lg =
     obind (map_err LogProcessing (validate_topic lg)) (\<lambda>_.
     obind (map_err LogProcessing (validate_version lg)) (\<lambda>_.
     obind (update_type lg) (\<lambda>kind.
     case kind of
       KBatcher \<Rightarrow> map_err BatcherErr (batcher_update A (log_data lg))
     | KGasConfig \<Rightarrow> map_err GasConfigErr (gas_config_update A ecotone_active (log_data lg))
     | KGasLimit \<Rightarrow> map_err GasLimitErr (gas_limit_update A (log_data lg))
     | KEip1559 \<Rightarrow> map_err Eip1559Err (eip1559_update A (log_data lg))
     | KOperatorFee \<Rightarrow> map_err OperatorFeeErr (operator_fee_update A (log_data lg))
     | KUnsafeBlockSigner \<Rightarrow>
         map_err UnsafeBlockSignerErr (unsafe_block_signer_update A (log_data lg))
     | KMinBaseFee \<Rightarrow> map_err MinBaseFeeErr (min_base_fee_update A (log_data lg))
     | KDaFootprintGasScalar \<Rightarrow>
         map_err DaFootprintGasScalarErr (da_footprint_gas_scalar_update A (log_data lg)))))"

definition process_config_update_log ::
    "abi_codec \<Rightarrow> bool \<Rightarrow> evm_log \<Rightarrow> system_config
       \<Rightarrow> (system_config_update_error, system_config_update_kind) outcome \<times> system_config" where
  "process_config_update_log A ecotone_active lg cfg =
     (case build_update A ecotone_active lg of
        Ok update \<Rightarrow> (Ok (update_kind update), apply_update update cfg)
      | Err e \<Rightarrow> (Err e, cfg)
      | Panic \<Rightarrow> (Panic, cfg))"

definition config_update_logs :: "address \<Rightarrow> receipt list \<Rightarrow> evm_log list" where
  "config_update_logs l1_system_config_address receipts =
     filter (\<lambda>lg. log_address lg = l1_system_config_address \<and> log_topics lg \<noteq> []
                  \<and> log_topics lg ! 0 = CONFIG_UPDATE_TOPIC)
       (concat (map rc_logs (filter (\<lambda>r. rc_status r \<noteq> Eip658 False) receipts)))"

fun process_logs ::
    "abi_codec \<Rightarrow> bool \<Rightarrow> evm_log list
       \<Rightarrow> system_config_update_kind list \<times> system_config_update_error list \<Rightarrow> system_config
       \<Rightarrow> (unit, (system_config_update_kind list \<times> system_config_update_error list)
             \<times> system_config) outcome" where
  "process_logs A ec [] acc cfg = Ok (acc, cfg)"
| "process_logs A ec (lg # lgs) (updates, errors) cfg =
     (case process_config_update_log A ec lg cfg of
        (Ok kind, cfg') \<Rightarrow> process_logs A ec lgs (updates @ [kind], errors) cfg'
      | (Err e, cfg') \<Rightarrow> process_logs A ec lgs (updates, errors @ [e]) cfg'
      | (Panic, _) \<Rightarrow> Panic)"

definition update_with_receipts ::
    "abi_codec \<Rightarrow> receipt list \<Rightarrow> address \<Rightarrow> bool \<Rightarrow> system_config
       \<Rightarrow> (unit, (system_config_update_kind list \<times> system_config_update_error list)
             \<times> system_config) outcome" where
  "update_with_receipts A receipts l1_system_config_address ecotone_active cfg =
     process_logs A ecotone_active (config_update_logs l1_system_config_address receipts)
       ([], []) cfg"

end
