(* ===== verification/Blocks.thy ===== *)
theory Blocks
  imports Prelude
begin

text \<open>
  Block references of crates/consensus/protocol/src/block.rs, shared by every stage of the
  derivation pipeline.
\<close>

section \<open>Block references\<close>

record block_num_hash =
  nh_number :: u64
  nh_hash :: b256

record block_info =
  bi_hash :: b256
  bi_number :: u64
  bi_parent_hash :: b256
  bi_timestamp :: u64

record l2_block_info =
  l2_block :: block_info
  l2_l1_origin :: block_num_hash
  l2_seq_num :: u64

definition block_info_default :: block_info where
  "block_info_default = \<lparr>bi_hash = 0, bi_number = 0, bi_parent_hash = 0, bi_timestamp = 0\<rparr>"

definition block_id :: "block_info \<Rightarrow> block_num_hash" where
  "block_id b = \<lparr>nh_number = bi_number b, nh_hash = bi_hash b\<rparr>"

definition is_parent_of :: "block_info \<Rightarrow> block_info \<Rightarrow> bool" where
  "is_parent_of p b \<longleftrightarrow> bi_number p + 1 = bi_number b \<and> bi_hash p = bi_parent_hash b"

end
