(* ===== verification/Rollup_Config.thy ===== *)
theory Rollup_Config
  imports Upgrades System_Config Blocks
begin

text \<open>
  The rollup configuration of crates/common/genesis/src/rollup.rs: fork activation read through
  the runtime registry, the fork-dependent limits, and the block-number-to-timestamp schedule with
  its switch to 200ms blocks at Cobalt.  The process-wide registry is the field \<open>rc_registry\<close> of
  the record, because every accessor of the source consults it.
\<close>

section \<open>The configuration\<close>

record chain_genesis =
  g_l1 :: block_num_hash
  g_l2 :: block_num_hash
  g_l2_time :: u64
  g_system_config :: "system_config option"

record fee_config =
  fc_eip1559_elasticity :: u64
  fc_eip1559_denominator :: u64
  fc_eip1559_denominator_canyon :: u64

record rollup_config =
  rc_genesis :: chain_genesis
  rc_block_time :: u64
  rc_max_sequencer_drift :: u64
  rc_seq_window_size :: u64
  rc_channel_timeout :: u64
  rc_granite_channel_timeout :: u64
  rc_l1_chain_id :: u64
  rc_l2_chain_id :: u64
  rc_upgrades :: upgrade_config
  rc_batch_inbox_address :: address
  rc_deposit_contract_address :: address
  rc_l1_system_config_address :: address
  rc_protocol_versions_address :: address
  rc_blobs_enabled_l1_timestamp :: "u64 option"
  rc_chain_op_config :: fee_config
  rc_registry :: registry

definition FEE_BASE_MAINNET :: fee_config where
  "FEE_BASE_MAINNET = \<lparr>fc_eip1559_elasticity = 6, fc_eip1559_denominator = 50,
                       fc_eip1559_denominator_canyon = 250\<rparr>"

definition MAX_RLP_BYTES_PER_CHANNEL_BEDROCK :: u64 where
  "MAX_RLP_BYTES_PER_CHANNEL_BEDROCK = 10000000"

definition MAX_RLP_BYTES_PER_CHANNEL_FJORD :: u64 where
  "MAX_RLP_BYTES_PER_CHANNEL_FJORD = 100000000"

definition FJORD_MAX_SEQUENCER_DRIFT :: u64 where
  "FJORD_MAX_SEQUENCER_DRIFT = 1800"

definition GRANITE_CHANNEL_TIMEOUT :: u64 where
  "GRANITE_CHANNEL_TIMEOUT = 50"

definition NATIVE_SUBSECOND_BLOCK_INTERVAL_MILLIS :: u64 where
  "NATIVE_SUBSECOND_BLOCK_INTERVAL_MILLIS = 200"

definition chain_genesis_default :: chain_genesis where
  "chain_genesis_default =
     \<lparr>g_l1 = \<lparr>nh_number = 0, nh_hash = 0\<rparr>, g_l2 = \<lparr>nh_number = 0, nh_hash = 0\<rparr>, g_l2_time = 0,
      g_system_config = None\<rparr>"

definition rollup_config_default :: rollup_config where
  "rollup_config_default =
     \<lparr>rc_genesis = chain_genesis_default, rc_block_time = 0, rc_max_sequencer_drift = 0,
      rc_seq_window_size = 0, rc_channel_timeout = 0,
      rc_granite_channel_timeout = GRANITE_CHANNEL_TIMEOUT, rc_l1_chain_id = 0,
      rc_l2_chain_id = 0, rc_upgrades = upgrade_config_default, rc_batch_inbox_address = 0,
      rc_deposit_contract_address = 0, rc_l1_system_config_address = 0,
      rc_protocol_versions_address = 0, rc_blobs_enabled_l1_timestamp = None,
      rc_chain_op_config = FEE_BASE_MAINNET, rc_registry = Map.empty\<rparr>"

section \<open>Fork activation\<close>

definition upgrade_activation_of :: "rollup_config \<Rightarrow> base_upgrade \<Rightarrow> upgrade_activation" where
  "upgrade_activation_of c u =
     (case registry_activation (rc_registry c) (rc_l2_chain_id c) u of
        Some a \<Rightarrow> a
      | None \<Rightarrow> activation (rc_upgrades c) u)"

definition upgrade_activation_timestamp :: "rollup_config \<Rightarrow> base_upgrade \<Rightarrow> u64 option" where
  "upgrade_activation_timestamp c u = activation_time (upgrade_activation_of c u)"

definition apply_runtime_upgrade_overrides :: "rollup_config \<Rightarrow> rollup_config" where
  "apply_runtime_upgrade_overrides c =
     (case registry_overrides (rc_registry c) (rc_l2_chain_id c) of
        Some ov \<Rightarrow> c\<lparr>rc_upgrades := apply_activation_overrides ov (rc_upgrades c)\<rparr>
      | None \<Rightarrow> c)"

definition with_runtime_upgrade_overrides :: "rollup_config \<Rightarrow> rollup_config" where
  "with_runtime_upgrade_overrides c = apply_runtime_upgrade_overrides c"

fun apply_upgrade_activation ::
    "base_upgrade \<Rightarrow> upgrade_activation \<Rightarrow> rollup_config \<Rightarrow> rollup_config" where
  "apply_upgrade_activation u (Timestamp t) c =
     c\<lparr>rc_upgrades := set_activation_timestamp u t (rc_upgrades c)\<rparr>"
| "apply_upgrade_activation u Never c =
     c\<lparr>rc_upgrades := clear_activation_timestamp u (rc_upgrades c)\<rparr>"

definition apply_activation ::
    "base_upgrade \<Rightarrow> upgrade_activation \<Rightarrow> rollup_config \<Rightarrow> bool \<times> rollup_config" where
  "apply_activation u a c =
     (if u = Zenith then (False, c) else (True, apply_upgrade_activation u a c))"

definition active_at :: "u64 option \<Rightarrow> u64 \<Rightarrow> bool" where
  "active_at a timestamp = (case a of Some t \<Rightarrow> t \<le> timestamp | None \<Rightarrow> False)"

definition is_jovian_active :: "rollup_config \<Rightarrow> u64 \<Rightarrow> bool" where
  "is_jovian_active c t = active_at (upgrade_activation_timestamp c Jovian) t"

definition is_isthmus_active :: "rollup_config \<Rightarrow> u64 \<Rightarrow> bool" where
  "is_isthmus_active c t =
     (active_at (upgrade_activation_timestamp c Isthmus) t \<or> is_jovian_active c t)"

definition is_holocene_active :: "rollup_config \<Rightarrow> u64 \<Rightarrow> bool" where
  "is_holocene_active c t =
     (active_at (upgrade_activation_timestamp c Holocene) t \<or> is_isthmus_active c t)"

definition is_granite_active :: "rollup_config \<Rightarrow> u64 \<Rightarrow> bool" where
  "is_granite_active c t =
     (active_at (upgrade_activation_timestamp c Granite) t \<or> is_holocene_active c t)"

definition is_fjord_active :: "rollup_config \<Rightarrow> u64 \<Rightarrow> bool" where
  "is_fjord_active c t =
     (active_at (upgrade_activation_timestamp c Fjord) t \<or> is_granite_active c t)"

definition is_ecotone_active :: "rollup_config \<Rightarrow> u64 \<Rightarrow> bool" where
  "is_ecotone_active c t =
     (active_at (upgrade_activation_timestamp c Ecotone) t \<or> is_fjord_active c t)"

definition is_delta_active :: "rollup_config \<Rightarrow> u64 \<Rightarrow> bool" where
  "is_delta_active c t =
     (active_at (upgrade_activation_timestamp c Delta) t \<or> is_ecotone_active c t)"

definition is_canyon_active :: "rollup_config \<Rightarrow> u64 \<Rightarrow> bool" where
  "is_canyon_active c t =
     (active_at (upgrade_activation_timestamp c Canyon) t \<or> is_delta_active c t)"

definition is_regolith_active :: "rollup_config \<Rightarrow> u64 \<Rightarrow> bool" where
  "is_regolith_active c t =
     (active_at (upgrade_activation_timestamp c Regolith) t \<or> is_canyon_active c t)"

definition is_pectra_blob_schedule_active :: "rollup_config \<Rightarrow> u64 \<Rightarrow> bool" where
  "is_pectra_blob_schedule_active c t =
     active_at (upgrade_activation_timestamp c PectraBlobSchedule) t"

definition is_base_azul_active :: "rollup_config \<Rightarrow> u64 \<Rightarrow> bool" where
  "is_base_azul_active c t = active_at (upgrade_activation_timestamp c Azul) t"

definition is_beryl_active :: "rollup_config \<Rightarrow> u64 \<Rightarrow> bool" where
  "is_beryl_active c t = active_at (upgrade_activation_timestamp c Beryl) t"

definition is_cobalt_active :: "rollup_config \<Rightarrow> u64 \<Rightarrow> bool" where
  "is_cobalt_active c t = active_at (upgrade_activation_timestamp c Cobalt) t"

definition is_denim_active :: "rollup_config \<Rightarrow> u64 \<Rightarrow> bool" where
  "is_denim_active c t = active_at (upgrade_activation_timestamp c Denim) t"

definition is_zenith_active :: "rollup_config \<Rightarrow> u64 \<Rightarrow> bool" where
  "is_zenith_active c t = active_at (upgrade_activation_timestamp c Zenith) t"

definition max_sequencer_drift :: "rollup_config \<Rightarrow> u64 \<Rightarrow> u64" where
  "max_sequencer_drift c t =
     (if is_fjord_active c t then FJORD_MAX_SEQUENCER_DRIFT else rc_max_sequencer_drift c)"

definition max_rlp_bytes_per_channel :: "rollup_config \<Rightarrow> u64 \<Rightarrow> u64" where
  "max_rlp_bytes_per_channel c t =
     (if is_fjord_active c t then MAX_RLP_BYTES_PER_CHANNEL_FJORD
      else MAX_RLP_BYTES_PER_CHANNEL_BEDROCK)"

definition channel_timeout :: "rollup_config \<Rightarrow> u64 \<Rightarrow> u64" where
  "channel_timeout c t =
     (if is_granite_active c t then rc_granite_channel_timeout c else rc_channel_timeout c)"

section \<open>The timestamp schedule\<close>

text \<open>A configured Cobalt or Zenith with a zero block time panics; both computations divide by the
  block time.  The panic is the value \<open>None\<close>.\<close>

definition activation_block_number ::
    "rollup_config \<Rightarrow> base_upgrade \<Rightarrow> u64 option option" where
  "activation_block_number c u =
     (case upgrade_activation_timestamp c u of
        None \<Rightarrow> Some None
      | Some ts \<Rightarrow>
          (if rc_block_time c = 0 then None
           else Some (Some (div_ceil (saturating_sub ts (g_l2_time (rc_genesis c))) (rc_block_time c)))))"

definition cobalt_activation_block_number :: "rollup_config \<Rightarrow> u64 option option" where
  "cobalt_activation_block_number c = activation_block_number c Cobalt"

definition zenith_activation_block_number :: "rollup_config \<Rightarrow> u64 option option" where
  "zenith_activation_block_number c = activation_block_number c Zenith"

definition l2_block_timestamp_millis :: "rollup_config \<Rightarrow> u64 \<Rightarrow> u64 option" where
  "l2_block_timestamp_millis c block_number =
     (let blocks_since_genesis = saturating_sub block_number (nh_number (g_l2 (rc_genesis c)));
          legacy_seconds = saturating_add (g_l2_time (rc_genesis c))
            (saturating_mul blocks_since_genesis (rc_block_time c));
          legacy_millis = saturating_mul legacy_seconds 1000
      in Option.bind (cobalt_activation_block_number c) (\<lambda>a.
         case a of
           None \<Rightarrow> Some legacy_millis
         | Some cobalt_activation_block \<Rightarrow>
             (if blocks_since_genesis < cobalt_activation_block then Some legacy_millis
              else
                let cobalt_activation_seconds = saturating_add (g_l2_time (rc_genesis c))
                      (saturating_mul cobalt_activation_block (rc_block_time c));
                    cobalt_activation_full_millis = saturating_mul cobalt_activation_seconds 1000
                in Some (saturating_add cobalt_activation_full_millis
                     (saturating_mul (saturating_sub blocks_since_genesis cobalt_activation_block)
                        NATIVE_SUBSECOND_BLOCK_INTERVAL_MILLIS)))))"

definition l2_block_timestamp :: "rollup_config \<Rightarrow> u64 \<Rightarrow> u64 option" where
  "l2_block_timestamp c block_number =
     Option.bind (l2_block_timestamp_millis c block_number) (\<lambda>ms. Some (ms div 1000))"

definition l2_block_timestamp_parts :: "rollup_config \<Rightarrow> u64 \<Rightarrow> (u64 \<times> u16) option" where
  "l2_block_timestamp_parts c block_number =
     Option.bind (l2_block_timestamp_millis c block_number) (\<lambda>full_millis.
     Some (full_millis div 1000, ucast (full_millis mod 1000)))"

definition block_number_lower_bound_from_timestamp :: "rollup_config \<Rightarrow> u64 \<Rightarrow> u64 option" where
  "block_number_lower_bound_from_timestamp c timestamp =
     (if rc_block_time c = 0 then None
      else Some (saturating_sub timestamp (g_l2_time (rc_genesis c)) div rc_block_time c))"

definition or_panic :: "'a option \<Rightarrow> ('e, 'a) outcome" where
  "or_panic x = (case x of Some y \<Rightarrow> Ok y | None \<Rightarrow> Panic)"

lemma or_panic_simps [simp]: "or_panic (Some y) = Ok y" "or_panic None = Panic"
  by (simp_all add: or_panic_def)

section \<open>EIP-1559 parameters of the system configuration\<close>

definition eip_1559_params :: "system_config \<Rightarrow> rollup_config \<Rightarrow> u64 \<Rightarrow> u64 \<Rightarrow> bytes option" where
  "eip_1559_params sc c parent_timestamp next_timestamp =
     (let is_holocene = is_holocene_active c next_timestamp in
      if is_holocene \<and> \<not> is_holocene_active c parent_timestamp then Some (replicate 8 0)
      else if is_holocene
      then Some (u32_to_be_bytes (case sc_eip1559_denominator sc of Some d \<Rightarrow> d | None \<Rightarrow> 0)
               @ u32_to_be_bytes (case sc_eip1559_elasticity sc of Some e \<Rightarrow> e | None \<Rightarrow> 0))
      else None)"

end
