(* ===== verification/System_Config_Laws.thy ===== *)
theory System_Config_Laws
  imports System_Config
begin

text \<open>
  What the system-config decoder guarantees: it never panics, applies the well-formed logs of a
  block in order and skips the others one by one, and after Ecotone only installs scalars of a
  known version.  \<open>abi_words\<close> is the documented contract of the strict ABI word decoders.
\<close>

section \<open>The ABI word decoders\<close>

definition abi_word :: "nat \<Rightarrow> bytes \<Rightarrow> 'a::len word option" where
  "abi_word bits w = (if length w = 32 \<and> nat_from_be w < 2 ^ bits
                      then Some (word_of_nat (nat_from_be w)) else None)"

definition abi_ref :: abi_codec where
  "abi_ref = \<lparr>abi_u16 = abi_word 16, abi_u64 = abi_word 64, abi_u256 = abi_word 256,
              abi_address = abi_word 160\<rparr>"

definition u256_word :: "nat \<Rightarrow> bytes" where
  "u256_word n = nat_to_be 32 n"

lemma length_u256_word [simp]: "length (u256_word n) = 32"
  by (simp add: u256_word_def)

locale abi_words =
  fixes A :: abi_codec
  assumes u16_law: "abi_u16 A (u256_word n) = (if n mod 2 ^ 256 < 2 ^ 16 then Some (word_of_nat n) else None)"
    and u64_law: "abi_u64 A (u256_word n) = (if n mod 2 ^ 256 < 2 ^ 64 then Some (word_of_nat n) else None)"
    and u256_law: "abi_u256 A (u256_word n) = Some (word_of_nat n)"
    and address_law: "abi_address A (u256_word n) = (if n mod 2 ^ 256 < 2 ^ 160 then Some (word_of_nat n) else None)"
begin

lemma validate_words:
  "validate_update A (u256_word 32 @ u256_word 32 @ u256_word n) =
     Ok (u256_word 32 @ u256_word 32 @ u256_word n)"
  by (simp add: validate_update_def u64_law STANDARD_UPDATE_DATA_LEN_def
      EXPECTED_POINTER_def EXPECTED_DATA_LENGTH_def)

end

lemma word_of_nat_mod: "word_of_nat (n mod 2 ^ 256) = (word_of_nat n :: 'a::len word)"
  if "LENGTH('a) \<le> 256"
proof (unfold word_unat_eq_iff)
  have "(2::nat) ^ LENGTH('a) dvd 2 ^ 256"
    using that by (rule le_imp_power_dvd)
  then show "unat (word_of_nat (n mod 2 ^ 256) :: 'a word) = unat (word_of_nat n :: 'a word)"
    by (simp only: unat_of_nat mod_mod_cancel)
qed

lemma abi_word_u256_word:
  "abi_word bits (u256_word n) =
     (if n mod 2 ^ 256 < 2 ^ bits then Some (word_of_nat n :: 'a::len word) else None)"
  if "LENGTH('a) \<le> 256"
  using word_of_nat_mod [OF that, of n]
  by (simp add: abi_word_def u256_word_def nat_from_to_be)

interpretation ref: abi_words abi_ref
  by unfold_locales (simp_all add: abi_ref_def abi_word_u256_word)

section \<open>No panic\<close>

lemma index_eq_Panic [simp]: "index xs i = Panic \<longleftrightarrow> length xs \<le> i"
  by (simp add: index_def)

lemma ok_or_no_panic [simp]: "ok_or e x \<noteq> Panic"
  by (cases x) simp_all

lemma validate_no_panic: "validate_update A data \<noteq> Panic"
  by (auto simp: validate_update_def obind_eq_Panic STANDARD_UPDATE_DATA_LEN_def)

lemma validate_length: "validate_update A data = Ok v \<Longrightarrow> v = data \<and> length data = 96"
  by (auto simp: validate_update_def obind_eq_Ok STANDARD_UPDATE_DATA_LEN_def split: if_splits)

lemma map_err_eq_Panic [simp]: "map_err g m = Panic \<longleftrightarrow> m = Panic"
  by (cases m) simp_all

lemma map_err_eq_Ok [simp]: "map_err g m = Ok x \<longleftrightarrow> m = Ok x"
  by (cases m) simp_all

lemmas update_defs =
  batcher_update_def gas_config_update_def gas_limit_update_def unsafe_block_signer_update_def
  eip1559_update_def operator_fee_update_def min_base_fee_update_def
  da_footprint_gas_scalar_update_def

lemma update_no_panic:
  "batcher_update A data \<noteq> Panic" "gas_config_update A ec data \<noteq> Panic"
  "gas_limit_update A data \<noteq> Panic" "unsafe_block_signer_update A data \<noteq> Panic"
  "eip1559_update A data \<noteq> Panic" "operator_fee_update A data \<noteq> Panic"
  "min_base_fee_update A data \<noteq> Panic" "da_footprint_gas_scalar_update A data \<noteq> Panic"
  by (auto simp: update_defs obind_eq_Panic payload_def validate_no_panic dest!: validate_length
      split: if_splits)

lemma build_update_no_panic: "build_update A ec lg \<noteq> Panic"
proof -
  have "validate_topic lg \<noteq> Panic"
    by (auto simp: validate_topic_def obind_eq_Panic split: if_splits)
  moreover have "validate_version lg \<noteq> Panic" if "validate_topic lg = Ok ()"
    using that by (auto simp: validate_topic_def validate_version_def obind_eq_Panic split: if_splits)
  moreover have "update_type lg \<noteq> Panic"
    by (auto simp: update_type_def obind_eq_Panic Let_def)
  ultimately show ?thesis
    by (auto simp: build_update_def obind_eq_Panic update_no_panic
        split: system_config_update_kind.splits)
qed

section \<open>Applying the logs of a block\<close>

definition applied_updates :: "abi_codec \<Rightarrow> bool \<Rightarrow> evm_log list \<Rightarrow> system_config_update list" where
  "applied_updates A ec lgs =
     List.map_filter (\<lambda>lg. case build_update A ec lg of Ok u \<Rightarrow> Some u | _ \<Rightarrow> None) lgs"

definition rejected_updates :: "abi_codec \<Rightarrow> bool \<Rightarrow> evm_log list \<Rightarrow> system_config_update_error list" where
  "rejected_updates A ec lgs =
     List.map_filter (\<lambda>lg. case build_update A ec lg of Err e \<Rightarrow> Some e | _ \<Rightarrow> None) lgs"

lemma process_logs_exact:
  "process_logs A ec lgs (ks, es) cfg =
     Ok ((ks @ map update_kind (applied_updates A ec lgs), es @ rejected_updates A ec lgs),
         fold apply_update (applied_updates A ec lgs) cfg)"
  by (induction lgs arbitrary: ks es cfg)
     (auto simp: applied_updates_def rejected_updates_def map_filter_simps
        process_config_update_log_def build_update_no_panic split: outcome.split)

section \<open>What an update can change\<close>

definition ecotone_config :: "system_config \<Rightarrow> bool" where
  "ecotone_config c \<longleftrightarrow> check_ecotone_l1_system_config_scalar (sc_scalar c) \<and> sc_overhead c = 0"

definition da_scalar_ok :: "system_config \<Rightarrow> bool" where
  "da_scalar_ok c \<longleftrightarrow> sc_da_footprint_gas_scalar c \<noteq> Some 0"

fun ecotone_update :: "system_config_update \<Rightarrow> bool" where
  "ecotone_update (GasConfig (Some s) ov) \<longleftrightarrow>
     check_ecotone_l1_system_config_scalar s \<and> ov = Some 0"
| "ecotone_update (GasConfig None ov) \<longleftrightarrow> ov = None"
| "ecotone_update _ \<longleftrightarrow> True"

lemma gas_config_update_ecotone: "gas_config_update A True data = Ok u \<Longrightarrow> ecotone_update u"
  by (auto simp: gas_config_update_def obind_eq_Ok split: if_splits)

lemma other_updates_ecotone:
  "batcher_update A data = Ok u \<Longrightarrow> ecotone_update u"
  "gas_limit_update A data = Ok u \<Longrightarrow> ecotone_update u"
  "unsafe_block_signer_update A data = Ok u \<Longrightarrow> ecotone_update u"
  "eip1559_update A data = Ok u \<Longrightarrow> ecotone_update u"
  "operator_fee_update A data = Ok u \<Longrightarrow> ecotone_update u"
  "min_base_fee_update A data = Ok u \<Longrightarrow> ecotone_update u"
  "da_footprint_gas_scalar_update A data = Ok u \<Longrightarrow> ecotone_update u"
  by (auto simp: update_defs obind_eq_Ok split: if_splits)

lemma build_update_ecotone:
  assumes "build_update A True lg = Ok u"
  shows "ecotone_update u"
proof -
  obtain kind where "update_type lg = Ok kind"
    using assms by (auto simp: build_update_def obind_eq_Ok)
  with assms show ?thesis
    by (cases kind)
       (auto simp: build_update_def obind_eq_Ok intro: gas_config_update_ecotone other_updates_ecotone)
qed

lemma applied_updates_ecotone: "\<forall>u \<in> set (applied_updates A True lgs). ecotone_update u"
  by (auto simp: applied_updates_def map_filter_def dest: build_update_ecotone split: outcome.splits)

lemma apply_update_ecotone:
  "ecotone_update u \<Longrightarrow> ecotone_config c \<Longrightarrow> ecotone_config (apply_update u c)"
  by (cases u rule: ecotone_update.cases) (auto simp: ecotone_config_def Let_def split: option.split)

lemma apply_update_da: "da_scalar_ok c \<Longrightarrow> da_scalar_ok (apply_update u c)"
  by (cases u) (auto simp: da_scalar_ok_def Let_def DEFAULT_DA_FOOTPRINT_GAS_SCALAR_def
      split: option.split)

lemma apply_update_frame:
  "sc_base_fee_scalar (apply_update u c) = sc_base_fee_scalar c"
  "sc_blob_base_fee_scalar (apply_update u c) = sc_blob_base_fee_scalar c"
  by (cases u; auto simp: Let_def split: option.split)+

lemma fold_ecotone:
  "\<forall>u \<in> set us. ecotone_update u \<Longrightarrow> ecotone_config c \<Longrightarrow> ecotone_config (fold apply_update us c)"
  by (induction us arbitrary: c) (simp_all add: apply_update_ecotone)

lemma fold_da: "da_scalar_ok c \<Longrightarrow> da_scalar_ok (fold apply_update us c)"
  by (induction us arbitrary: c) (simp_all add: apply_update_da)

lemma fold_frame:
  "sc_base_fee_scalar (fold apply_update us c) = sc_base_fee_scalar c
    \<and> sc_blob_base_fee_scalar (fold apply_update us c) = sc_blob_base_fee_scalar c"
  by (induction us arbitrary: c) (simp_all add: apply_update_frame)

section \<open>A sample block\<close>

definition config_log :: "address \<Rightarrow> nat \<Rightarrow> nat \<Rightarrow> evm_log" where
  "config_log addr kind param =
     \<lparr>log_address = addr, log_topics = [CONFIG_UPDATE_TOPIC, 0, word_of_nat kind],
      log_data = u256_word 32 @ u256_word 32 @ u256_word param\<rparr>"

definition sample_config :: system_config where
  "sample_config =
     \<lparr>sc_batcher_address = 1, sc_overhead = 0, sc_scalar = 0, sc_gas_limit = 30000000,
      sc_base_fee_scalar = None, sc_blob_base_fee_scalar = None, sc_eip1559_denominator = None,
      sc_eip1559_elasticity = None, sc_operator_fee_scalar = None,
      sc_operator_fee_constant = None, sc_min_base_fee = None,
      sc_da_footprint_gas_scalar = None\<rparr>"

lemma build_eip1559:
  assumes "abi_words A" "p < 2 ^ 64"
  shows "build_update A ec (config_log addr 4 p) =
    Ok (Eip1559 (ucast (drop_bit 32 (word_of_nat p :: u64))) (ucast (word_of_nat p :: u64)))"
proof -
  have "p mod 2 ^ 256 < 2 ^ 64"
    using assms(2) by simp
  then show ?thesis
    by (simp add: build_update_def config_log_def validate_topic_def validate_version_def
      update_type_def EVENT_VERSION_0_def update_kind_of_u64_def eip1559_update_def payload_def
      abi_words.validate_words [OF assms(1)] abi_words.u64_law [OF assms(1)])
qed

lemma sample_run:
  "update_with_receipts abi_ref [\<lparr>rc_status = Eip658 True, rc_logs = [config_log 7 4 0x0000000800000002]\<rparr>]
     7 True sample_config =
   Ok (([KEip1559], []),
       sample_config\<lparr>sc_eip1559_denominator := Some 8, sc_eip1559_elasticity := Some 2\<rparr>)"
proof -
  have "build_update abi_ref True (config_log 7 4 0x0000000800000002) = Ok (Eip1559 8 2)"
    by (subst build_eip1559 [OF ref.abi_words_axioms]) simp_all
  moreover have "config_update_logs 7
      [\<lparr>rc_status = Eip658 True, rc_logs = [config_log 7 4 0x0000000800000002]\<rparr>]
      = [config_log 7 4 0x0000000800000002]"
    by (simp add: config_update_logs_def config_log_def)
  ultimately show ?thesis
    by (simp add: update_with_receipts_def process_config_update_log_def)
qed

lemma sample_config_ecotone: "ecotone_config sample_config" "da_scalar_ok sample_config"
  by code_simp+

section \<open>Properties\<close>

text \<open>C35. Processing the receipts of an L1 block never panics, reports exactly the kinds of the
  well-formed config logs and the errors of the malformed ones, and the new configuration is the
  well-formed updates applied in log order: one bad log never hides or blocks another.\<close>

theorem update_with_receipts_exact:
  "update_with_receipts A receipts addr ec cfg =
     (let lgs = config_update_logs addr receipts; us = applied_updates A ec lgs
      in Ok ((map update_kind us, rejected_updates A ec lgs), fold apply_update us cfg))"
  by (simp add: update_with_receipts_def process_logs_exact Let_def)

text \<open>C28. Once Ecotone is active, whatever logs a block carries, a configuration whose scalar has a
  known version and whose overhead is zero keeps both, a non-zero DA footprint scalar is never
  replaced by zero, and the two fee scalars that derivation does not own are untouched.\<close>

theorem update_with_receipts_ecotone:
  assumes "update_with_receipts A receipts addr True cfg = Ok (r, cfg')"
    and "ecotone_config cfg" and "da_scalar_ok cfg"
  shows "ecotone_config cfg' \<and> da_scalar_ok cfg'
    \<and> sc_base_fee_scalar cfg' = sc_base_fee_scalar cfg
    \<and> sc_blob_base_fee_scalar cfg' = sc_blob_base_fee_scalar cfg"
proof -
  define us where "us = applied_updates A True (config_update_logs addr receipts)"
  have cfg': "cfg' = fold apply_update us cfg"
    using assms(1) by (simp add: update_with_receipts_def process_logs_exact us_def)
  have "ecotone_config cfg'"
    unfolding cfg' us_def by (rule fold_ecotone [OF applied_updates_ecotone assms(2)])
  moreover have "da_scalar_ok cfg'"
    unfolding cfg' by (rule fold_da [OF assms(3)])
  moreover have "sc_base_fee_scalar cfg' = sc_base_fee_scalar cfg
      \<and> sc_blob_base_fee_scalar cfg' = sc_blob_base_fee_scalar cfg"
    unfolding cfg' by (rule fold_frame)
  ultimately show ?thesis by blast
qed

theorem update_with_receipts_ecotone_witness:
  "ecotone_config (sample_config\<lparr>sc_eip1559_denominator := Some 8, sc_eip1559_elasticity := Some 2\<rparr>)"
  using update_with_receipts_ecotone [OF sample_run sample_config_ecotone] by simp

end
