(* ===== verification/Config_Laws.thy ===== *)
theory Config_Laws
  imports Rollup_Config System_Config_Laws "HOL-Library.Multiset"
begin

text \<open>
  Laws of the upgrade registry and the rollup configuration: agreement of the two ways of reading
  an activation, convergence of concurrent schedule refreshes, the fork ladder, and the timestamp
  schedule as a refinement of its unbounded description.
\<close>

section \<open>Reading activations\<close>

lemma upgrade_activation_timestamp_eq:
  "upgrade_activation_timestamp c u =
     (case registry_activation (rc_registry c) (rc_l2_chain_id c) u of
        Some a \<Rightarrow> activation_time a | None \<Rightarrow> slot (rc_upgrades c) u)"
  by (simp add: upgrade_activation_timestamp_def upgrade_activation_of_def split: option.split)

lemma slot_apply_upgrade_activation:
  "slot (rc_upgrades (apply_upgrade_activation u a c)) v =
     (if u = v \<and> u \<noteq> Bedrock then activation_time a else slot (rc_upgrades c) v)"
  by (cases a) auto

text \<open>Reading an activation through the registry and reading it from the configuration with the
  overrides materialised give the same timestamp for every timestamp-activated upgrade.\<close>

lemma materialised_overrides_agree:
  assumes "u \<noteq> Bedrock"
  shows "activation_timestamp (rc_upgrades (with_runtime_upgrade_overrides c)) u
    = upgrade_activation_timestamp c u"
  using assms
  by (simp add: with_runtime_upgrade_overrides_def apply_runtime_upgrade_overrides_def
      upgrade_activation_timestamp_eq registry_overrides_def registry_activation_def
      slot_apply_overrides split: option.split)

definition overridden_config :: rollup_config where
  "overridden_config = rollup_config_default\<lparr>rc_l2_chain_id := 8453, rc_upgrades := BASE_MAINNET,
     rc_registry := registry_set_activation 8453 Cobalt (Timestamp 1790000000) Map.empty\<rparr>"

section \<open>The registry\<close>

definition refresh :: "u64 \<Rightarrow> u64 \<times> upgrade_activation_overrides \<Rightarrow> registry \<Rightarrow> registry" where
  "refresh chain s r = snd (replace_overrides chain (fst s) (snd s) r)"

lemma refresh_commute:
  "fst s \<noteq> fst s' \<Longrightarrow> refresh chain s (refresh chain s' r) = refresh chain s' (refresh chain s r)"
  by (auto simp: refresh_def replace_overrides_def registry_last_updated_def
      split: option.splits if_splits)

lemma refresh_watermark:
  "registry_last_updated (refresh chain s r) chain =
     Some (case registry_last_updated r chain of Some w \<Rightarrow> max w (fst s) | None \<Rightarrow> fst s)"
  by (auto simp: refresh_def replace_overrides_def registry_last_updated_def max_def
      split: option.splits)

text \<open>Schedule refreshes converge: for a set of L1 schedules read at distinct L1 blocks, the
  registry ends in the same state whatever order the refreshes are applied in.\<close>

lemma refreshes_converge:
  assumes "distinct (map fst ss)" and "mset ss' = mset ss"
  shows "fold (refresh chain) ss' r = fold (refresh chain) ss r"
proof -
  have "refresh chain x \<circ> refresh chain y = refresh chain y \<circ> refresh chain x"
    if "x \<in> set ss" "y \<in> set ss" for x y
  proof (cases "x = y")
    case False
    then have "fst x \<noteq> fst y"
      using assms(1) that by (auto simp: distinct_map inj_on_def)
    then show ?thesis
      by (simp add: fun_eq_iff refresh_commute)
  qed simp
  then show ?thesis
    using assms(2) by (metis fold_multiset_equiv)
qed

datatype override_op = SetActivation base_upgrade upgrade_activation | RemoveActivation base_upgrade

fun run_override :: "override_op \<Rightarrow> upgrade_activation_overrides \<Rightarrow> upgrade_activation_overrides" where
  "run_override (SetActivation u a) ov = overrides_set_activation u a ov"
| "run_override (RemoveActivation u) ov = snd (overrides_remove_activation u ov)"

lemma run_overrides_zenith: "ov Zenith = None \<Longrightarrow> fold run_override ops ov Zenith = None"
proof (induction ops arbitrary: ov)
  case (Cons op ops)
  have "run_override op ov Zenith = None"
    using Cons.prems
    by (cases op) (auto simp: overrides_set_activation_def overrides_remove_activation_def)
  then show ?case
    using Cons.IH by simp
qed simp

text \<open>The genesis-only Zenith gate cannot be moved by the L1 upgrade signal: neither any sequence
  of override edits, once materialised, nor a direct activation changes the Zenith timestamp.\<close>

lemma zenith_is_genesis_only:
  "slot (apply_activation_overrides (fold run_override ops Map.empty) cfg) Zenith = slot cfg Zenith
   \<and> slot (rc_upgrades (snd (apply_activation u a c))) Zenith = slot (rc_upgrades c) Zenith
   \<and> from_contract_fork_name name \<noteq> Some Zenith"
proof (intro conjI)
  show "slot (apply_activation_overrides (fold run_override ops Map.empty) cfg) Zenith
      = slot cfg Zenith"
    by (simp add: slot_apply_overrides run_overrides_zenith del: slot.simps)
  show "slot (rc_upgrades (snd (apply_activation u a c))) Zenith = slot (rc_upgrades c) Zenith"
    by (simp add: apply_activation_def slot_apply_upgrade_activation del: slot.simps)
  show "from_contract_fork_name name \<noteq> Some Zenith"
    by (simp add: from_contract_fork_name_def Let_def)
qed

lemma lowercase_idem: "to_ascii_lowercase (to_ascii_lowercase c) = to_ascii_lowercase c"
  by (simp add: to_ascii_lowercase_def)

lemma lowercase_kept:
  "\<not> is_ascii_whitespace (to_ascii_lowercase c) \<and> to_ascii_lowercase c \<noteq> CHR ''_''
      \<and> to_ascii_lowercase c \<noteq> CHR ''-''
   \<longleftrightarrow> \<not> is_ascii_whitespace c \<and> c \<noteq> CHR ''_'' \<and> c \<noteq> CHR ''-''"
proof (cases "65 \<le> (of_char c :: nat) \<and> (of_char c :: nat) \<le> 90")
  case True
  have "c \<noteq> CHR ''_'' \<and> c \<noteq> CHR ''-''"
    using True by auto
  moreover have "(of_char (to_ascii_lowercase c) :: nat) = of_char c + 32"
    using True by (simp add: to_ascii_lowercase_def)
  moreover from this have "to_ascii_lowercase c \<noteq> CHR ''_'' \<and> to_ascii_lowercase c \<noteq> CHR ''-''"
    using True by auto
  ultimately show ?thesis
    using True by (auto simp: is_ascii_whitespace_def)
next
  case False
  then have "to_ascii_lowercase c = c"
    unfolding to_ascii_lowercase_def by (rule if_not_P)
  then show ?thesis by simp
qed

text \<open>Contract identifiers resolve back to their upgrade: exactly the contract-backed upgrades do,
  and resolution ignores case, blanks, underscores and dashes.\<close>

lemma contract_id_resolves:
  "from_contract_fork_name (contract_id u) = (if is_contract_backed u then Some u else None)
   \<and> from_contract_fork_name (normalized_hardfork_id name) = from_contract_fork_name name"
proof
  show "from_contract_fork_name (contract_id u) = (if is_contract_backed u then Some u else None)"
    by (cases u) (simp_all add: from_contract_fork_name_def normalized_hardfork_id_def
        is_ascii_whitespace_def to_ascii_lowercase_def)
next
  have "normalized_hardfork_id (normalized_hardfork_id name) = normalized_hardfork_id name"
    by (simp add: normalized_hardfork_id_def filter_map o_def lowercase_idem lowercase_kept)
  then show "from_contract_fork_name (normalized_hardfork_id name) = from_contract_fork_name name"
    by (simp add: from_contract_fork_name_def)
qed

section \<open>The active upgrade\<close>

lemma find_later:
  assumes "find P xs = Some x" and "\<And>y. P y \<Longrightarrow> Q y" and "sorted_wrt (\<lambda>a b. k b \<le> k a) xs"
  shows "\<exists>y. find Q xs = Some y \<and> (k x :: nat) \<le> k y"
  using assms(1,3)
proof (induction xs)
  case (Cons z zs)
  show ?case
  proof (cases "Q z")
    case True
    then show ?thesis
      using Cons.prems by (auto simp: find_Some_iff split: if_splits)
  next
    case False
    then show ?thesis
      using Cons assms(2) [of z] by (auto split: if_splits)
  qed
qed simp

text \<open>For a chain with a built-in schedule the active execution upgrade always exists and never
  goes back: a later timestamp yields the same or a later rung of the execution ladder, under any
  runtime overrides.\<close>

lemma active_upgrade_monotone:
  assumes "for_chain_id chain \<noteq> None" and "t \<le> t'"
  shows "\<exists>u u'. from_chain_and_timestamp r chain t = Some u
    \<and> from_chain_and_timestamp r chain t' = Some u'
    \<and> the (execution_idx u) \<le> the (execution_idx u')"
proof -
  obtain c0 where c0: "for_chain_id chain = Some c0"
    using assms(1) by blast
  define c where "c = (case registry_overrides r chain of
    Some ov \<Rightarrow> apply_activation_overrides ov c0 | None \<Rightarrow> c0)"
  define P where "P t u \<longleftrightarrow> u = Bedrock \<or>
    (case activation_timestamp c u of Some a \<Rightarrow> a \<le> t | None \<Rightarrow> False)" for t u
  have run: "from_chain_and_timestamp r chain t = find (P t) (rev EXECUTION_VARIANTS)" for t
    by (simp add: from_chain_and_timestamp_def c0 c_def P_def [abs_def])
  have "Bedrock \<in> set (rev EXECUTION_VARIANTS)" "P t Bedrock"
    by (simp_all add: EXECUTION_VARIANTS_def P_def)
  then obtain u where u: "find (P t) (rev EXECUTION_VARIANTS) = Some u"
    by (metis find_None_iff not_None_eq)
  have mono: "P t y \<Longrightarrow> P t' y" for y
    using assms(2) by (auto simp: P_def split: option.splits)
  have "sorted_wrt (\<lambda>a b. the (execution_idx b) \<le> the (execution_idx a))
      (rev EXECUTION_VARIANTS)"
    by (simp add: EXECUTION_VARIANTS_def)
  from find_later [OF u mono this] show ?thesis
    using u by (simp add: run)
qed

section \<open>The fork ladder\<close>

lemmas fork_defs = is_regolith_active_def is_canyon_active_def is_delta_active_def
  is_ecotone_active_def is_fjord_active_def is_granite_active_def is_holocene_active_def
  is_isthmus_active_def is_jovian_active_def

lemma active_at_mono: "active_at a t \<Longrightarrow> t \<le> t' \<Longrightarrow> active_at a t'"
  by (auto simp: active_at_def split: option.splits)

lemma fork_mono:
  assumes "t \<le> t'"
  shows "is_holocene_active c t \<Longrightarrow> is_holocene_active c t'"
    and "is_fjord_active c t \<Longrightarrow> is_fjord_active c t'"
    and "is_granite_active c t \<Longrightarrow> is_granite_active c t'"
    and "is_cobalt_active c t \<Longrightarrow> is_cobalt_active c t'"
  using assms by (auto simp: fork_defs is_cobalt_active_def intro: active_at_mono)

text \<open>The fork ladder is downward closed even for a configuration that leaves earlier forks
  unset: an active fork makes every earlier fork of the ladder active, and a fork once active stays
  active.\<close>

lemma fork_ladder:
  "(is_jovian_active c t \<longrightarrow> is_isthmus_active c t)
   \<and> (is_isthmus_active c t \<longrightarrow> is_holocene_active c t)
   \<and> (is_holocene_active c t \<longrightarrow> is_granite_active c t)
   \<and> (is_granite_active c t \<longrightarrow> is_fjord_active c t)
   \<and> (is_fjord_active c t \<longrightarrow> is_ecotone_active c t)
   \<and> (is_ecotone_active c t \<longrightarrow> is_delta_active c t)
   \<and> (is_delta_active c t \<longrightarrow> is_canyon_active c t)
   \<and> (is_canyon_active c t \<longrightarrow> is_regolith_active c t)
   \<and> (\<forall>t'. t \<le> t' \<longrightarrow> is_regolith_active c t \<longrightarrow> is_regolith_active c t')"
  by (auto simp: fork_defs intro: active_at_mono)

definition holocene_only_config :: rollup_config where
  "holocene_only_config = rollup_config_default\<lparr>rc_block_time := 2,
     rc_upgrades := upgrade_config_default\<lparr>u_holocene_time := Some 100\<rparr>\<rparr>"

lemma holocene_only_active: "is_holocene_active holocene_only_config 100"
  by (simp add: fork_defs active_at_def upgrade_activation_timestamp_eq holocene_only_config_def
      rollup_config_default_def upgrade_config_default_def registry_activation_def)

section \<open>EIP-1559 parameters\<close>

lemma nat_to_be_mod: "nat_to_be k (n mod 256 ^ k) = nat_to_be k n"
  using nat_to_from_be [of "nat_to_be k n"] by (simp add: nat_from_to_be)

lemma u32_parts_of_u64:
  "u32_to_be_bytes (ucast (drop_bit 32 p)) @ u32_to_be_bytes (ucast p) = u64_to_be_bytes (p :: u64)"
proof -
  have "unat p div 2 ^ 32 < 2 ^ 32"
    using unat_less_pow [of p] by (simp add: less_mult_imp_div_less)
  then have "unat (ucast (drop_bit 32 p) :: u32) = unat p div 256 ^ 4"
    by (simp add: unsigned_ucast_eq drop_bit_eq_div take_bit_eq_mod unat_div_distrib)
  moreover have "unat (ucast p :: u32) = unat p mod 256 ^ 4"
    by (simp add: unsigned_ucast_eq take_bit_eq_mod)
  ultimately show ?thesis
    using nat_to_be_append [of 4 4 "unat p"] nat_to_be_mod [of 4 "unat p"]
    by (simp add: u32_to_be_bytes_def u64_to_be_bytes_def)
qed

text \<open>The EIP-1559 parameters survive the trip from the L1 event to the payload attributes: after a
  well-formed EIP-1559 log the eight bytes handed to the execution layer, at any block past the
  first Holocene one, are the eight bytes the contract packed.\<close>

lemma eip1559_log_roundtrip:
  assumes "abi_words A"
    and "is_holocene_active c parent_ts" and "parent_ts \<le> next_ts"
  shows "\<exists>r cfg'. update_with_receipts A
      [\<lparr>rc_status = Eip658 True, rc_logs = [config_log addr 4 (unat (p :: u64))]\<rparr>] addr ec cfg
        = Ok (r, cfg')
    \<and> eip_1559_params cfg' c parent_ts next_ts = Some (u64_to_be_bytes p)"
proof -
  have "unat p < 2 ^ 64"
    using unat_less_pow [of p] by simp
  note build = build_eip1559 [OF assms(1) this, of ec addr]
  have "config_update_logs addr
      [\<lparr>rc_status = Eip658 True, rc_logs = [config_log addr 4 (unat p)]\<rparr>]
      = [config_log addr 4 (unat p)]"
    by (simp add: config_update_logs_def config_log_def)
  moreover have "is_holocene_active c next_ts"
    using assms(2,3) by (metis fork_mono(1))
  ultimately show ?thesis
    using assms(2)
    by (simp add: update_with_receipts_def process_config_update_log_def build eip_1559_params_def
        u32_parts_of_u64 Let_def)
qed

section \<open>The timestamp schedule\<close>

text \<open>The schedule on unbounded numbers: whole legacy blocks up to block \<open>a\<close>, 200ms blocks from
  there on.  \<open>schedule_switch\<close> is block \<open>a\<close> itself, counted from genesis.\<close>

definition schedule_millis :: "nat \<Rightarrow> nat \<Rightarrow> nat option \<Rightarrow> nat \<Rightarrow> nat" where
  "schedule_millis l2_time block_time switch k =
     (case switch of
        None \<Rightarrow> (l2_time + k * block_time) * 1000
      | Some a \<Rightarrow> if k < a then (l2_time + k * block_time) * 1000
                  else (l2_time + a * block_time) * 1000 + (k - a) * 200)"

definition schedule_switch :: "rollup_config \<Rightarrow> nat option" where
  "schedule_switch c =
     map_option (\<lambda>ts. (unat ts - unat (g_l2_time (rc_genesis c)) + unat (rc_block_time c) - 1)
                         div unat (rc_block_time c))
       (upgrade_activation_timestamp c Cobalt)"

definition schedule_ok :: "rollup_config \<Rightarrow> bool" where
  "schedule_ok c \<longleftrightarrow> rc_block_time c \<noteq> 0 \<or> upgrade_activation_timestamp c Cobalt = None"

definition blocks_since_genesis :: "rollup_config \<Rightarrow> u64 \<Rightarrow> nat" where
  "blocks_since_genesis c n = unat n - unat (nh_number (g_l2 (rc_genesis c)))"

lemma nat_ceil_div:
  assumes "(b::nat) > 0"
  shows "(a + b - 1) div b = (if a mod b = 0 then a div b else a div b + 1)"
proof -
  have split: "a + b - 1 = (a mod b + b - 1) + a div b * b"
    using assms by simp
  have "(a mod b + b - 1 + a div b * b) div b = a div b + (a mod b + b - 1) div b"
    using assms by (intro div_mult_self1) simp
  then have "(a + b - 1) div b = a div b + (a mod b + b - 1) div b"
    unfolding split .
  moreover have "(a mod b + b - 1) div b = (if a mod b = 0 then 0 else 1)"
  proof (cases "a mod b")
    case (Suc r)
    then have "a mod b + b - 1 = r + 1 * b" "r < b"
      using mod_less_divisor [OF assms, of a] by simp_all
    then have "(a mod b + b - 1) div b = 1"
      by (metis add.commute assms div_less div_mult_self3 add_0 less_not_refl)
    with Suc show ?thesis by simp
  qed (use assms in simp)
  ultimately show ?thesis by simp
qed

lemma unat_div_ceil:
  assumes "b \<noteq> (0 :: 'a::len word)"
  shows "unat (div_ceil a b) = (unat a + unat b - 1) div unat b"
proof -
  have pos: "unat b > 0"
    using assms by (simp add: unat_gt_0)
  show ?thesis
  proof (cases "a mod b = 0")
    case True
    then have "unat a mod unat b = 0"
      by (metis unat_0 unat_mod_distrib)
    with True show ?thesis
      unfolding div_ceil_def nat_ceil_div [OF pos] by (simp add: unat_div_distrib)
  next
    case False
    then have ne: "unat a mod unat b \<noteq> 0"
      by (metis unat_0 unat_mod_distrib word_unat_eq_iff)
    have "unat a div unat b + 1 \<le> unat a"
    proof -
      have "unat b \<noteq> 1" using ne by auto
      then have "2 \<le> unat b" using pos by linarith
      then have "unat a div unat b \<le> unat a div 2" by (simp add: div_le_mono2)
      moreover have "unat a \<noteq> 0" using ne by (metis mod_0)
      ultimately show ?thesis by linarith
    qed
    then have "unat a div unat b + 1 < 2 ^ LENGTH('a)"
      using unat_less_pow by (rule le_less_trans)
    then have "unat (a div b + 1) = unat a div unat b + 1"
      by (simp add: unat_div_distrib unat_word_ariths)
    with False ne show ?thesis
      unfolding div_ceil_def nat_ceil_div [OF pos] by simp
  qed
qed

lemma cobalt_block:
  assumes "schedule_ok c"
  shows "cobalt_activation_block_number c = Some None
      \<and> schedule_switch c = None
    \<or> (\<exists>a. cobalt_activation_block_number c = Some (Some a)
      \<and> schedule_switch c = Some (unat a))"
proof (cases "upgrade_activation_timestamp c Cobalt")
  case None
  then show ?thesis
    by (simp add: cobalt_activation_block_number_def activation_block_number_def schedule_switch_def)
next
  case (Some ts)
  with assms have "rc_block_time c \<noteq> 0"
    by (simp add: schedule_ok_def)
  with Some show ?thesis
    using unat_div_ceil [of "rc_block_time c" "saturating_sub ts (g_l2_time (rc_genesis c))"]
    by (simp add: cobalt_activation_block_number_def activation_block_number_def
        schedule_switch_def unat_saturating_sub)
qed

lemma unat_legacy_millis:
  "unat (saturating_mul (saturating_add t (saturating_mul k bt)) 1000 :: u64) =
     min ((unat t + unat k * unat bt) * 1000) (2 ^ 64 - 1)"
  unfolding unat_saturating_mul unat_saturating_add by (simp add: min_def)

lemma unat_cobalt_millis:
  "unat (saturating_add (saturating_mul (saturating_add t (saturating_mul a bt)) 1000)
           (saturating_mul (saturating_sub k a) 200) :: u64) =
     min ((unat t + unat a * unat bt) * 1000 + (unat k - unat a) * 200) (2 ^ 64 - 1)"
  unfolding unat_saturating_add [of "saturating_mul _ 1000"] unat_legacy_millis
    unat_saturating_mul [of "saturating_sub _ _"] unat_saturating_sub
  by (simp add: min_def)

definition spec_millis :: "rollup_config \<Rightarrow> u64 \<Rightarrow> nat" where
  "spec_millis c n = min (schedule_millis (unat (g_l2_time (rc_genesis c)))
     (unat (rc_block_time c)) (schedule_switch c) (blocks_since_genesis c n)) (2 ^ 64 - 1)"

lemma timestamp_millis_ok:
  assumes "schedule_ok c"
  shows "\<exists>ms. l2_block_timestamp_millis c n = Some ms
    \<and> unat ms = spec_millis c n"
proof -
  note defs = l2_block_timestamp_millis_def spec_millis_def schedule_millis_def Let_def
    NATIVE_SUBSECOND_BLOCK_INTERVAL_MILLIS_def
  define k where "k = saturating_sub n (nh_number (g_l2 (rc_genesis c)))"
  have k: "unat k = blocks_since_genesis c n"
    by (simp add: k_def blocks_since_genesis_def unat_saturating_sub)
  consider "cobalt_activation_block_number c = Some None"
      "schedule_switch c = None"
    | a where "cobalt_activation_block_number c = Some (Some a)"
      "schedule_switch c = Some (unat a)"
    using cobalt_block [OF assms] by auto
  then show ?thesis
  proof cases
    case 1
    then show ?thesis
      by (simp add: defs unat_legacy_millis flip: k_def k)
  next
    case (2 a)
    then show ?thesis
      by (cases "k < a")
         (simp_all add: defs unat_legacy_millis unat_cobalt_millis word_less_nat_alt flip: k_def k)
  qed
qed

text \<open>C36. The timestamp computation is the unbounded schedule cut off at the largest 64-bit value: for
  a configuration with a block time, no input panics and no intermediate step wraps.\<close>

theorem l2_block_timestamp_millis_refines:
  assumes "schedule_ok c"
  shows "\<exists>ms. l2_block_timestamp_millis c n = Some ms
    \<and> unat ms = min (schedule_millis (unat (g_l2_time (rc_genesis c))) (unat (rc_block_time c))
        (schedule_switch c) (blocks_since_genesis c n)) (2 ^ 64 - 1)"
  using timestamp_millis_ok [OF assms, of n] unfolding spec_millis_def by blast

definition cobalt_config :: rollup_config where
  "cobalt_config = rollup_config_default\<lparr>rc_block_time := 2,
     rc_genesis := chain_genesis_default\<lparr>g_l2_time := 1000\<rparr>,
     rc_upgrades := upgrade_config_default\<lparr>u_base := base_upgrade_config_default\<lparr>b_cobalt := Some 1019\<rparr>\<rparr>\<rparr>"

lemma cobalt_config_activation:
  "upgrade_activation_timestamp cobalt_config Cobalt = Some 1019"
  by (simp add: upgrade_activation_timestamp_eq cobalt_config_def rollup_config_default_def
      registry_activation_def)

lemma cobalt_config_simps:
  "rc_block_time cobalt_config = 2" "g_l2_time (rc_genesis cobalt_config) = 1000"
  "nh_number (g_l2 (rc_genesis cobalt_config)) = 0"
  by (simp_all add: cobalt_config_def chain_genesis_default_def)

lemma cobalt_config_ok: "schedule_ok cobalt_config"
  by (simp add: schedule_ok_def cobalt_config_simps)

theorem l2_block_timestamp_millis_refines_witness:
  "\<exists>ms. l2_block_timestamp_millis cobalt_config 12 = Some ms \<and> unat ms = 1020400"
  using l2_block_timestamp_millis_refines [OF cobalt_config_ok, of 12]
  by (simp add: schedule_millis_def schedule_switch_def cobalt_config_activation
      blocks_since_genesis_def cobalt_config_simps)

lemma schedule_mono: "k \<le> k' \<Longrightarrow> schedule_millis t bt sw k \<le> schedule_millis t bt sw k'"
proof (cases sw)
  case (Some a)
  assume le: "k \<le> k'"
  have mono: "(t + i * bt) * 1000 \<le> (t + j * bt) * 1000" if "i \<le> j" for i j
    using that by simp
  show ?thesis
    using Some le mono [of k k'] mono [of k a]
    by (auto simp: schedule_millis_def intro: order_trans trans_le_add1)
qed (simp add: schedule_millis_def)

lemma spec_millis_mono: "m \<le> n \<Longrightarrow> spec_millis c m \<le> spec_millis c n"
proof -
  assume "m \<le> n"
  then have "blocks_since_genesis c m \<le> blocks_since_genesis c n"
    by (simp add: blocks_since_genesis_def word_le_nat_alt diff_le_mono)
  from schedule_mono [OF this] show ?thesis
    unfolding spec_millis_def by (simp add: min.coboundedI1)
qed

lemma timestamp_ok:
  assumes "schedule_ok c"
  shows "\<exists>ts. l2_block_timestamp c n = Some ts
    \<and> unat ts = spec_millis c n div 1000"
  using timestamp_millis_ok [OF assms, of n]
  by (auto simp: l2_block_timestamp_def unat_div_distrib)

text \<open>Block timestamps never decrease with the block number, across the switch to sub-second
  blocks and at the saturation point.\<close>

lemma l2_block_timestamp_monotone:
  assumes "schedule_ok c" and "m \<le> n"
  shows "\<exists>s t. l2_block_timestamp c m = Some s \<and> l2_block_timestamp c n = Some t \<and> s \<le> t"
  using timestamp_ok [OF assms(1), of m] timestamp_ok [OF assms(1), of n]
    spec_millis_mono [OF assms(2), of c]
  by (auto simp: word_le_nat_alt div_le_mono)

lemma less_ceil_div: "(b::nat) > 0 \<Longrightarrow> k < (x + b - 1) div b \<longleftrightarrow> k * b < x"
  using less_eq_div_iff_mult_less_eq [of b "Suc k" "x + b - 1"] by auto

text \<open>Gating by timestamp and gating by block number agree: the timestamp assigned to a block is at
  or past the Cobalt activation time exactly when the block is at or past the activation block, so
  the cadence switch and the fork rules start at the same block.\<close>

lemma cobalt_gates_agree:
  assumes "rc_block_time c \<noteq> 0" and "upgrade_activation_timestamp c Cobalt = Some ct"
    and "unat ct * 1000 < 2 ^ 64"
  shows "\<exists>ts a. l2_block_timestamp c n = Some ts \<and> cobalt_activation_block_number c = Some (Some a)
    \<and> (is_cobalt_active c ts \<longleftrightarrow> unat a \<le> blocks_since_genesis c n)"
proof -
  have ok: "schedule_ok c"
    using assms(1) by (simp add: schedule_ok_def)
  define t where "t = unat (g_l2_time (rc_genesis c))"
  define bt where "bt = unat (rc_block_time c)"
  define k where "k = blocks_since_genesis c n"
  have bt: "bt > 0"
    using assms(1) by (simp add: bt_def unat_gt_0)
  obtain ts where ts: "l2_block_timestamp c n = Some ts" "unat ts = spec_millis c n div 1000"
    using timestamp_ok [OF ok, of n] by blast
  obtain a where a: "cobalt_activation_block_number c = Some (Some a)"
      "schedule_switch c = Some (unat a)"
    using cobalt_block [OF ok] assms(2) by (auto simp: schedule_switch_def)
  have a_eq: "unat a = (unat ct - t + bt - 1) div bt"
    using a(2) assms(2) by (simp add: schedule_switch_def t_def bt_def)
  have before: "unat ts < unat ct" if "k < unat a"
  proof -
    have "t + k * bt < unat ct"
      using that less_ceil_div [OF bt, of k "unat ct - t"] by (simp add: a_eq)
    moreover have "spec_millis c n div 1000 \<le> t + k * bt"
      using that a(2) by (simp add: spec_millis_def schedule_millis_def t_def bt_def k_def)
    ultimately show ?thesis using ts(2) by linarith
  qed
  have after: "unat ct \<le> unat ts" if "unat a \<le> k"
  proof -
    have "unat ct \<le> t + unat a * bt"
      using less_ceil_div [OF bt, of "unat a" "unat ct - t"] by (simp add: a_eq)
    then have "unat ct * 1000 \<le> spec_millis c n"
      using that a(2) assms(3)
      by (simp add: spec_millis_def schedule_millis_def t_def bt_def k_def)
    then show ?thesis
      using ts(2) by (simp add: less_eq_div_iff_mult_less_eq)
  qed
  have "is_cobalt_active c ts \<longleftrightarrow> unat ct \<le> unat ts"
    using assms(2) by (simp add: is_cobalt_active_def active_at_def word_le_nat_alt)
  then have "is_cobalt_active c ts \<longleftrightarrow> unat a \<le> k"
    using before after by (meson leD leI)
  then show ?thesis
    using ts(1) a(1) by (simp add: k_def)
qed

end
