(* ===== verification/Pipeline.thy ===== *)
theory Pipeline
  imports Rollup_Config
begin

text \<open>
  What the stages of the derivation pipeline share (crates/consensus/derive/src): the error
  classes of errors/, the stage traits of traits/stages.rs as a record of operations on the state
  of the stage, and the contract \<open>pipeline_stage\<close> that a stage relies on and provides.  A stage is
  generic in its predecessor: its operations take the record of the predecessor's operations, and
  awaiting the predecessor is running the operation on the predecessor's state.
\<close>

section \<open>Errors\<close>

datatype base_time_update_error = InvalidTimestampMillisPart u16

datatype builder_error =
    BlockMismatch block_num_hash block_num_hash
  | BlockMismatchEpochReset block_num_hash block_num_hash b256
  | BuilderSystemConfigUpdate
  | BrokenTimeInvariant block_num_hash u64 block_num_hash u64
  | AttributesUnavailable
  | BaseTimeUpdate base_time_update_error
  | Custom string

datatype span_decoding_error =
    RelativeTimestamp | L1OriginNumber | ParentCheck | L1OriginCheck | BlockCount | BlockTxCounts
  | TxNonces | TypeSignatureLenMismatch | InvalidTransactionType | InvalidTransactionData
  | InvalidAuthData | InvalidTransactionSignature

datatype span_batch_error =
    TooBigSpanBatchSize | BitfieldTooLong | EmptySpanBatch | L1OriginBeforeSafeHead
  | MissingL1Origin | Decoding span_decoding_error

datatype deposit_decode_error =
    UnexpectedTopicsLen nat
  | InvalidEventSelector b256 b256
  | IncompleteOpaqueData nat
  | UnalignedData nat
  | FromDecode b256
  | ToDecode b256
  | InvalidOpaqueDataOffset bytes
  | InvalidOpaqueDataLength nat nat
  | InvalidOpaqueDataPadding bytes
  | OpaqueContentOverflow bytes
  | OpaqueDataOverflow u64 nat
  | OpaqueDataPaddingOverflow
  | PaddedOpaqueDataOverflow nat u64
  | InvalidDepositVersion b256
  | UnexpectedOpaqueDataLen nat
  | MintDecode bytes
  | GasDecode bytes

datatype pipeline_encoding_error =
    EmptyBuffer
  | DepositDecodeErr deposit_decode_error
  | AlloyRlpErr string
  | SpanBatchErr span_batch_error

datatype pipeline_error =
    Eof | NotEnoughData | ChannelProviderEmpty | ChannelAlreadyBuilt | ChannelNotFound
  | ChannelReaderEmpty | BatchQueueEmpty | MissingOrigin | MissingL1Data | InvalidBatchType
  | InvalidBatchValidity
  | SystemConfigUpdate system_config_update_error
  | AttributesBuilder builder_error
  | BadEncoding pipeline_encoding_error
  | EndOfSource
  | Provider string

datatype block_ref = ByHash b256 | ByNumber u64

datatype reset_error =
    BadParentHash b256 b256
  | BadTimestamp u64 u64
  | L1OriginMismatch u64 u64
  | ReorgDetected b256 b256
  | ResetAttributesBuilder builder_error
  | HoloceneActivation
  | NextL1BlockHashMismatch b256 b256
  | BlobsUnavailable u64
  | BlobsUnderFill nat nat
  | BlobsOverFill nat nat
  | BlockNotFound block_ref

datatype pipeline_error_kind =
    Temporary pipeline_error
  | Critical pipeline_error
  | Reset reset_error

definition crit :: "pipeline_error \<Rightarrow> pipeline_error_kind" where
  "crit e = Critical e"

definition temp :: "pipeline_error \<Rightarrow> pipeline_error_kind" where
  "temp e = Temporary e"

lemma kind_simps [simp]: "crit e = Critical e" "temp e = Temporary e"
  by (simp_all add: crit_def temp_def)

section \<open>Actions on a stage\<close>

type_synonym 'a presult = "(pipeline_error_kind, 'a) outcome"
type_synonym ('s, 'a) action = "'s \<Rightarrow> 'a presult \<times> 's"

definition areturn :: "'a presult \<Rightarrow> ('s, 'a) action" where
  "areturn r s = (r, s)"

definition abind :: "('s, 'a) action \<Rightarrow> ('a \<Rightarrow> ('s, 'b) action) \<Rightarrow> ('s, 'b) action" where
  "abind m f s = (case m s of
       (Ok x, s') \<Rightarrow> f x s'
     | (Err e, s') \<Rightarrow> (Err e, s')
     | (Panic, s') \<Rightarrow> (Panic, s'))"

definition on_prev :: "('s \<Rightarrow> 'p) \<Rightarrow> (('p \<Rightarrow> 'p) \<Rightarrow> 's \<Rightarrow> 's) \<Rightarrow> ('p, 'a) action \<Rightarrow> ('s, 'a) action" where
  "on_prev get upd act s = (let (r, p) = act (get s) in (r, upd (\<lambda>_. p) s))"

lemma fst_on_prev [simp]: "fst (on_prev get upd act s) = fst (act (get s))"
  by (simp add: on_prev_def split: prod.split)

lemma snd_on_prev [simp]: "snd (on_prev get upd act s) = upd (\<lambda>_. snd (act (get s))) s"
  by (simp add: on_prev_def split: prod.split)

section \<open>Stage operations\<close>

record ('p, 'd) stage =
  st_next :: "('p, 'd) action"
  st_origin :: "'p \<Rightarrow> block_info option"
  st_advance :: "('p, unit) action"
  st_reset :: "block_num_hash \<Rightarrow> system_config \<Rightarrow> ('p, unit) action"
  st_activate :: "('p, unit) action"
  st_flush :: "('p, unit) action"

definition safe_action :: "('p \<Rightarrow> bool) \<Rightarrow> ('p, 'a) action \<Rightarrow> bool" where
  "safe_action good act \<longleftrightarrow> (\<forall>p. good p \<longrightarrow> fst (act p) \<noteq> Panic \<and> good (snd (act p)))"

definition keeps :: "('p \<Rightarrow> bool) \<Rightarrow> ('p \<Rightarrow> 'o) \<Rightarrow> ('p, 'a) action \<Rightarrow> bool" where
  "keeps good view act \<longleftrightarrow> (\<forall>p. good p \<longrightarrow> view (snd (act p)) = view p)"

lemma safe_actionI:
  "(\<And>p. good p \<Longrightarrow> fst (act p) \<noteq> Panic) \<Longrightarrow> (\<And>p. good p \<Longrightarrow> good (snd (act p))) \<Longrightarrow> safe_action good act"
  by (simp add: safe_action_def)

lemma safe_actionD:
  assumes "safe_action good act" "good p"
  shows "fst (act p) \<noteq> Panic" "good (snd (act p))"
  using assms by (simp_all add: safe_action_def)

lemma keepsI: "(\<And>p. good p \<Longrightarrow> view (snd (act p)) = view p) \<Longrightarrow> keeps good view act"
  by (simp add: keeps_def)

lemma keepsD: "keeps good view act \<Longrightarrow> good p \<Longrightarrow> view (snd (act p)) = view p"
  by (simp add: keeps_def)

lemma safe_areturn: "r \<noteq> Panic \<Longrightarrow> safe_action good (areturn r)"
  by (simp add: safe_action_def areturn_def)

lemma safe_abind:
  assumes m: "safe_action good m" and f: "\<And>x. safe_action good (f x)"
  shows "safe_action good (abind m f)"
proof (rule safe_actionI)
  fix p
  assume "good p"
  note m' = safe_actionD [OF m this]
  obtain r p' where run: "m p = (r, p')"
    by fastforce
  show "fst (abind m f p) \<noteq> Panic"
    using m' safe_actionD(1) [OF f] run by (cases r) (auto simp: abind_def)
  show "good (snd (abind m f p))"
    using m' safe_actionD(2) [OF f] run by (cases r) (auto simp: abind_def)
qed

lemma keeps_abind:
  assumes m: "safe_action good m" and km: "keeps good view m" and kf: "\<And>x. keeps good view (f x)"
  shows "keeps good view (abind m f)"
proof (rule keepsI)
  fix p
  assume p: "good p"
  obtain r p' where run: "m p = (r, p')"
    by fastforce
  have "view p' = view p" "good p'"
    using keepsD [OF km p] safe_actionD(2) [OF m p] run by simp_all
  then show "view (snd (abind m f p)) = view p"
    using keepsD [OF kf] run by (cases r) (auto simp: abind_def)
qed

text \<open>Actions that read a view of the state first, such as the origin, and fail without it.\<close>

lemma safe_with_view:
  "(\<And>x. safe_action good (f x)) \<Longrightarrow>
   safe_action good (\<lambda>s. case view s of None \<Rightarrow> (Err e, s) | Some x \<Rightarrow> f x s)"
  by (auto simp: safe_action_def split: option.split)

lemma keeps_with_view:
  "(\<And>x. keeps good v (f x)) \<Longrightarrow>
   keeps good v (\<lambda>s. case view s of None \<Rightarrow> (Err e, s) | Some x \<Rightarrow> f x s)"
  by (auto simp: keeps_def split: option.split)

text \<open>The contract of a stage: no operation panics or leaves the invariant, and pulling data or
  flushing a channel does not move the L1 origin.\<close>

locale pipeline_stage =
  fixes S :: "('p, 'd) stage" and good :: "'p \<Rightarrow> bool"
  assumes next_safe: "safe_action good (st_next S)"
    and next_origin: "keeps good (st_origin S) (st_next S)"
    and advance_safe: "safe_action good (st_advance S)"
    and reset_safe: "safe_action good (st_reset S l1_origin cfg)"
    and activate_safe: "safe_action good (st_activate S)"
    and flush_safe: "safe_action good (st_flush S)"
    and flush_origin: "keeps good (st_origin S) (st_flush S)"

section \<open>Runs\<close>

text \<open>\<open>supplies P l1 p fs p'\<close>: pulled from state \<open>p\<close>, the stage \<open>P\<close> yields the items \<open>fs\<close> and ends in
  \<open>p'\<close>, its origin being \<open>l1\<close> throughout.\<close>

inductive supplies :: "('p, 'd) stage \<Rightarrow> block_info \<Rightarrow> 'p \<Rightarrow> 'd list \<Rightarrow> 'p \<Rightarrow> bool"
  for P l1 where
  supplies_Nil: "st_origin P p = Some l1 \<Longrightarrow> supplies P l1 p [] p"
| supplies_Cons: "st_origin P p = Some l1 \<Longrightarrow> st_next P p = (Ok f, p1) \<Longrightarrow> supplies P l1 p1 fs p' \<Longrightarrow>
    supplies P l1 p (f # fs) p'"

inductive_cases supplies_NilE: "supplies P l1 p [] p'"
inductive_cases supplies_ConsE: "supplies P l1 p (f # fs) p'"

primrec run_calls :: "nat \<Rightarrow> ('s, 'a) action \<Rightarrow> 's \<Rightarrow> 'a presult list \<times> 's" where
  "run_calls 0 act s = ([], s)"
| "run_calls (Suc n) act s =
     (let (r, s1) = act s; (rs, s2) = run_calls n act s1 in (r # rs, s2))"

text \<open>A source that replays recorded items at a fixed origin, for the concrete instances.\<close>

fun replay_next :: "('d list \<times> block_info, 'd) action" where
  "replay_next ([], l1) = (Err (Temporary Eof), ([], l1))"
| "replay_next (d # ds, l1) = (Ok d, (ds, l1))"

definition replay :: "('d list \<times> block_info, 'd) stage" where
  "replay = \<lparr>st_next = replay_next, st_origin = (\<lambda>s. Some (snd s)), st_advance = areturn (Ok ()),
     st_reset = (\<lambda>_ _. areturn (Ok ())), st_activate = areturn (Ok ()), st_flush = areturn (Ok ())\<rparr>"

lemma replay_simps [simp]:
  "st_next replay = replay_next" "st_origin replay s = Some (snd s)"
  by (simp_all add: replay_def)

end
