(* ===== verification/Batches.thy ===== *)
theory Batches
  imports Config_Laws Pipeline
begin

text \<open>
  Batches of crates/consensus/protocol/src/batch in derived form: singular batches and their
  validity rules (single.rs, validity.rs), span batches, their prefix and full validity rules and
  the extraction of singular batches (span.rs, element.rs), and the batch enum with its inclusion
  block (core.rs, inclusion.rs).  The L2 chain is a provider argument.  Block timestamps come from
  the rollup configuration and are absent where the source panics, so a validity is an option.
\<close>

section \<open>Validity\<close>

datatype batch_drop_reason =
    FutureTimestampHolocene | PastTimestampPreHolocene
  | ParentHashMismatch | IncludedTooLate | EpochTooOld | EpochTooFarInFuture | EpochHashMismatch
  | TimestampBeforeL1Origin | SequencerDriftOverflow | SequencerDriftExceeded
  | SequencerDriftNotAdoptedNextOrigin
  | EmptyTransaction | DepositTransaction | Eip7702PreIsthmus | Eip8130PreZenith
  | NonEmptyTransitionBlock
  | SpanBatchPreDelta | SpanBatchPostCobalt | SpanBatchNoNewBlocksPreHolocene
  | SpanBatchMisalignedTimestamp | SpanBatchNotOverlappedExactly
  | DropL1OriginBeforeSafeHead | DropMissingL1Origin
  | OverlappedTxCountMismatch | OverlappedTxMismatch | L2BlockInfoExtractionFailed
  | OverlappedL1OriginMismatch

datatype batch_validity = Drop batch_drop_reason | Accept | Undecided | Future | Past

definition is_accept :: "batch_validity \<Rightarrow> bool" where
  "is_accept v \<longleftrightarrow> v = Accept"

definition is_drop :: "batch_validity \<Rightarrow> bool" where
  "is_drop v \<longleftrightarrow> (case v of Drop _ \<Rightarrow> True | _ \<Rightarrow> False)"

definition drop_reason :: "batch_validity \<Rightarrow> batch_drop_reason option" where
  "drop_reason v = (case v of Drop r \<Rightarrow> Some r | _ \<Rightarrow> None)"

definition is_outdated :: "batch_validity \<Rightarrow> bool" where
  "is_outdated v \<longleftrightarrow> v = Past"

definition is_future :: "batch_validity \<Rightarrow> bool" where
  "is_future v \<longleftrightarrow> v = Future"

section \<open>Singular batches\<close>

record single_batch =
  sb_parent_hash :: b256
  sb_epoch_num :: u64
  sb_epoch_hash :: b256
  sb_timestamp :: u64
  sb_transactions :: "bytes list"

definition sb_epoch :: "single_batch \<Rightarrow> block_num_hash" where
  "sb_epoch b = \<lparr>nh_number = sb_epoch_num b, nh_hash = sb_epoch_hash b\<rparr>"

text \<open>Type bytes of the transaction envelope.\<close>

datatype op_tx_type = TyLegacy | TyEip2930 | TyEip1559 | TyEip7702 | TyDeposit | TyEip8130

primrec tx_type_byte :: "op_tx_type \<Rightarrow> u8" where
  "tx_type_byte TyLegacy = 0"
| "tx_type_byte TyEip2930 = 1"
| "tx_type_byte TyEip1559 = 2"
| "tx_type_byte TyEip7702 = 4"
| "tx_type_byte TyDeposit = 126"
| "tx_type_byte TyEip8130 = 121"

definition is_first_jovian_block :: "rollup_config \<Rightarrow> u64 \<Rightarrow> u64 \<Rightarrow> bool" where
  "is_first_jovian_block c timestamp parent_timestamp \<longleftrightarrow>
     is_jovian_active c timestamp \<and> \<not> is_jovian_active c parent_timestamp"

definition check_batch_timestamp ::
    "rollup_config \<Rightarrow> l2_block_info \<Rightarrow> block_info \<Rightarrow> single_batch \<Rightarrow> batch_validity option" where
  "check_batch_timestamp cfg safe inclusion b =
     Option.bind (l2_block_timestamp cfg (saturating_add (bi_number (l2_block safe)) 1)) (\<lambda>next_timestamp.
     Some (if next_timestamp < sb_timestamp b
           then (if is_holocene_active cfg (bi_timestamp inclusion) then Drop FutureTimestampHolocene else Future)
           else if sb_timestamp b < next_timestamp
           then (if is_holocene_active cfg (bi_timestamp inclusion) then Past else Drop PastTimestampPreHolocene)
           else Accept))"

text \<open>The loop over the transactions, shared with span batches: the reason to drop, if any.\<close>

fun check_txs :: "rollup_config \<Rightarrow> u64 \<Rightarrow> bytes list \<Rightarrow> batch_drop_reason option" where
  "check_txs cfg t [] = None"
| "check_txs cfg t (tx # txs) =
     (case tx of
        [] \<Rightarrow> Some EmptyTransaction
      | ty # _ \<Rightarrow>
          if ty = tx_type_byte TyDeposit then Some DepositTransaction
          else if \<not> is_isthmus_active cfg t \<and> ty = tx_type_byte TyEip7702 then Some Eip7702PreIsthmus
          else if \<not> is_zenith_active cfg t \<and> ty = tx_type_byte TyEip8130 then Some Eip8130PreZenith
          else check_txs cfg t txs)"

text \<open>The choice of the L1 origin of the batch among the first two L1 blocks.\<close>

definition batch_origin :: "block_info list \<Rightarrow> u64 \<Rightarrow> batch_validity + block_info" where
  "batch_origin l1_blocks epoch_num =
     (let epoch = l1_blocks ! 0 in
      if epoch_num < bi_number epoch then Inl (Drop EpochTooOld)
      else if epoch_num = bi_number epoch then Inr epoch
      else if epoch_num = bi_number epoch + 1
      then (if length l1_blocks < 2 then Inl Undecided else Inr (l1_blocks ! 1))
      else Inl (Drop EpochTooFarInFuture))"

text \<open>The rules from the epoch hash on, for a batch with its origin.\<close>

definition check_with_origin ::
    "rollup_config \<Rightarrow> block_info list \<Rightarrow> l2_block_info \<Rightarrow> single_batch \<Rightarrow> block_info \<Rightarrow> batch_validity" where
  "check_with_origin cfg l1_blocks safe b origin =
     (if sb_epoch_hash b \<noteq> bi_hash origin then Drop EpochHashMismatch
      else if sb_timestamp b < bi_timestamp origin then Drop TimestampBeforeL1Origin
      else case checked_add (bi_timestamp origin) (max_sequencer_drift cfg (bi_timestamp origin)) of
        None \<Rightarrow> Drop SequencerDriftOverflow
      | Some mx \<Rightarrow>
          let no_txs = (sb_transactions b = []) in
          if mx < sb_timestamp b \<and> \<not> no_txs then Drop SequencerDriftExceeded
          else if mx < sb_timestamp b \<and> no_txs \<and> bi_number (l1_blocks ! 0) = bi_number origin
                  \<and> length l1_blocks < 2 then Undecided
          else if mx < sb_timestamp b \<and> no_txs \<and> bi_number (l1_blocks ! 0) = bi_number origin
                  \<and> bi_timestamp (l1_blocks ! 1) \<le> sb_timestamp b then Drop SequencerDriftNotAdoptedNextOrigin
          else if is_first_jovian_block cfg (sb_timestamp b) (bi_timestamp (l2_block safe))
                  \<and> sb_transactions b \<noteq> [] then Drop NonEmptyTransitionBlock
          else (case check_txs cfg (sb_timestamp b) (sb_transactions b) of
                  Some r \<Rightarrow> Drop r | None \<Rightarrow> Accept))"

definition sb_check_batch ::
    "rollup_config \<Rightarrow> block_info list \<Rightarrow> l2_block_info \<Rightarrow> block_info \<Rightarrow> single_batch \<Rightarrow> batch_validity option" where
  "sb_check_batch cfg l1_blocks safe inclusion b =
     (if l1_blocks = [] then Some Undecided
      else Option.bind (check_batch_timestamp cfg safe inclusion b) (\<lambda>timestamp_check.
        Some (if \<not> is_accept timestamp_check then timestamp_check
              else if sb_parent_hash b \<noteq> bi_hash (l2_block safe) then Drop ParentHashMismatch
              else if sb_epoch_num b + rc_seq_window_size cfg < bi_number inclusion then Drop IncludedTooLate
              else case batch_origin l1_blocks (sb_epoch_num b) of
                     Inl v \<Rightarrow> v
                   | Inr origin \<Rightarrow> check_with_origin cfg l1_blocks safe b origin)))"

section \<open>Span batches\<close>

record span_batch_element =
  se_epoch_num :: u64
  se_timestamp :: u64
  se_transactions :: "bytes list"

definition MAX_SPAN_BATCH_ELEMENTS :: u64 where
  "MAX_SPAN_BATCH_ELEMENTS = 10000000"

definition element_of_single :: "single_batch \<Rightarrow> span_batch_element" where
  "element_of_single b =
     \<lparr>se_epoch_num = sb_epoch_num b, se_timestamp = sb_timestamp b, se_transactions = sb_transactions b\<rparr>"

record signature =
  sig_r :: b256
  sig_s :: b256
  sig_y_parity :: bool

record span_batch_transactions =
  st_total_block_tx_count :: u64
  st_contract_creation_bits :: bytes
  st_tx_sigs :: "signature list"
  st_tx_nonces :: "u64 list"
  st_tx_gases :: "u64 list"
  st_tx_tos :: "address list"
  st_tx_data :: "bytes list"
  st_protected_bits :: bytes
  st_tx_types :: "op_tx_type list"
  st_legacy_tx_count :: u64
  st_eip8130_auth_data :: "(bytes \<times> bytes) list"

record span_batch =
  sp_parent_check :: bytes
  sp_l1_origin_check :: bytes
  sp_genesis_timestamp :: u64
  sp_chain_id :: u64
  sp_batches :: "span_batch_element list"
  sp_origin_bits :: bytes
  sp_block_tx_counts :: "u64 list"
  sp_txs :: span_batch_transactions

definition hash_bytes :: "b256 \<Rightarrow> bytes" where
  "hash_bytes h = nat_to_be 32 (unat h)"

definition check_origin_hash :: "span_batch \<Rightarrow> b256 \<Rightarrow> bool" where
  "check_origin_hash s h \<longleftrightarrow> sp_l1_origin_check s = take 20 (hash_bytes h)"

definition check_parent_hash :: "span_batch \<Rightarrow> b256 \<Rightarrow> bool" where
  "check_parent_hash s h \<longleftrightarrow> sp_parent_check s = take 20 (hash_bytes h)"

text \<open>Starting and final values, of a span that is not empty.\<close>

definition starting_timestamp :: "span_batch \<Rightarrow> u64" where
  "starting_timestamp s = se_timestamp (sp_batches s ! 0)"

definition final_timestamp :: "span_batch \<Rightarrow> u64" where
  "final_timestamp s = se_timestamp (sp_batches s ! (length (sp_batches s) - 1))"

definition starting_epoch_num :: "span_batch \<Rightarrow> u64" where
  "starting_epoch_num s = se_epoch_num (sp_batches s ! 0)"

text \<open>The first L1 block from \<open>origin_index\<close> on with the given number, with its position.\<close>

fun find_origin :: "u64 \<Rightarrow> nat \<Rightarrow> block_info list \<Rightarrow> (nat \<times> block_info) option" where
  "find_origin n i [] = None"
| "find_origin n i (b # bs) = (if bi_number b = n then Some (i, b) else find_origin n (i + 1) bs)"

definition origin_from :: "block_info list \<Rightarrow> nat \<Rightarrow> u64 \<Rightarrow> (nat \<times> block_info) option" where
  "origin_from l1_blocks origin_index n = find_origin n origin_index (drop origin_index l1_blocks)"

fun singular_batches ::
    "block_info list \<Rightarrow> l2_block_info \<Rightarrow> nat \<Rightarrow> span_batch_element list \<Rightarrow> (span_batch_error, single_batch list) outcome" where
  "singular_batches l1_origins safe origin_index [] = Ok []"
| "singular_batches l1_origins safe origin_index (e # es) =
     (if se_timestamp e \<le> bi_timestamp (l2_block safe) then singular_batches l1_origins safe origin_index es
      else if se_epoch_num e < nh_number (l2_l1_origin safe) then Err L1OriginBeforeSafeHead
      else case origin_from l1_origins origin_index (se_epoch_num e) of
        None \<Rightarrow> Err MissingL1Origin
      | Some (i, origin) \<Rightarrow>
          obind (singular_batches l1_origins safe i es) (\<lambda>bs.
          Ok (\<lparr>sb_parent_hash = 0, sb_epoch_num = se_epoch_num e, sb_epoch_hash = bi_hash origin,
               sb_timestamp = se_timestamp e, sb_transactions = se_transactions e\<rparr> # bs)))"

definition get_singular_batches ::
    "span_batch \<Rightarrow> block_info list \<Rightarrow> l2_block_info \<Rightarrow> (span_batch_error, single_batch list) outcome" where
  "get_singular_batches s l1_origins safe = singular_batches l1_origins safe 0 (sp_batches s)"

section \<open>Span batch validity\<close>

text \<open>The L2 chain as the validity checks see it; the error of a failed call is its message.  The
  transactions of a fetched block are given with their type and encoding, and the extraction of the
  block's reference from its payload is \<open>bv_l2_block_info\<close>.\<close>

record block_tx =
  bt_is_deposit :: bool
  bt_encoded :: bytes

record ('f, 'blk) validation_provider =
  bv_l2_block_info_by_number :: "u64 \<Rightarrow> 'f \<Rightarrow> (string + l2_block_info) \<times> 'f"
  bv_block_by_number :: "u64 \<Rightarrow> 'f \<Rightarrow> (string + 'blk) \<times> 'f"
  bv_transactions :: "'blk \<Rightarrow> block_tx list"
  bv_l2_block_info :: "chain_genesis \<Rightarrow> 'blk \<Rightarrow> l2_block_info option"

text \<open>A check runs on the state of the provider; \<open>None\<close> is a panic.\<close>

type_synonym ('f, 'a) check = "'f \<Rightarrow> 'a option \<times> 'f"

definition verdict :: "batch_validity \<Rightarrow> ('f, batch_validity \<times> l2_block_info option) check" where
  "verdict v f = (Some (v, None), f)"

text \<open>The block the span builds on.\<close>

definition span_parent ::
    "('f, 'blk) validation_provider \<Rightarrow> rollup_config \<Rightarrow> u64 \<Rightarrow> l2_block_info \<Rightarrow> span_batch
       \<Rightarrow> ('f, batch_validity + l2_block_info) check" where
  "span_parent F cfg next_timestamp safe s f =
     (let start = starting_timestamp s; head = l2_block safe in
      if start < next_timestamp
      then (if bi_timestamp head < start then (Some (Inl (Drop SpanBatchMisalignedTimestamp)), f)
            else let diff = bi_timestamp head - start in
              if (if rc_block_time cfg = 0 then diff \<noteq> 0 else diff mod rc_block_time cfg \<noteq> 0)
              then (Some (Inl (Drop SpanBatchNotOverlappedExactly)), f)
              else if rc_block_time cfg = 0 then (None, f)
              else case bv_l2_block_info_by_number F (bi_number head - diff div rc_block_time cfg - 1) f of
                     (Inl _, f) \<Rightarrow> (Some (Inl Undecided), f)
                   | (Inr block, f) \<Rightarrow> (Some (Inr block), f))
      else (Some (Inr safe), f))"

text \<open>The rules on the parent block, the sequencing window and the L1 origins.\<close>

definition check_span_origins ::
    "rollup_config \<Rightarrow> block_info list \<Rightarrow> block_info \<Rightarrow> l2_block_info \<Rightarrow> span_batch
       \<Rightarrow> batch_validity \<times> l2_block_info option" where
  "check_span_origins cfg l1_origins inclusion parent s =
     (if \<not> check_parent_hash s (bi_hash (l2_block parent)) then (Drop ParentHashMismatch, None)
      else if starting_epoch_num s + rc_seq_window_size cfg < bi_number inclusion then (Drop IncludedTooLate, None)
      else if nh_number (l2_l1_origin parent) + 1 < starting_epoch_num s then (Drop EpochTooFarInFuture, None)
      else case find (\<lambda>b. bi_number b = se_epoch_num (last (sp_batches s))) l1_origins of
        None \<Rightarrow> (Undecided, None)
      | Some b \<Rightarrow>
          if \<not> check_origin_hash s (bi_hash b) then (Drop EpochHashMismatch, None)
          else if starting_epoch_num s < nh_number (l2_l1_origin parent) then (Drop EpochTooOld, None)
          else (Accept, Some parent))"

definition check_batch_prefix ::
    "('f, 'blk) validation_provider \<Rightarrow> rollup_config \<Rightarrow> block_info list \<Rightarrow> l2_block_info \<Rightarrow> block_info \<Rightarrow> span_batch
       \<Rightarrow> ('f, batch_validity \<times> l2_block_info option) check" where
  "check_batch_prefix F cfg l1_origins safe inclusion s f =
     (if l1_origins = [] then verdict Undecided f
      else if sp_batches s = [] then verdict Undecided f
      else case l2_block_timestamp cfg (bi_number (l2_block safe) + 1) of
        None \<Rightarrow> (None, f)
      | Some next_timestamp \<Rightarrow>
          if is_cobalt_active cfg next_timestamp then verdict (Drop SpanBatchPostCobalt) f
          else
          let epoch = l1_origins ! 0 in
          if starting_epoch_num s = bi_number epoch + 1 \<and> length l1_origins < 2 then verdict Undecided f
          else
          let origin = (if starting_epoch_num s = bi_number epoch + 1 then l1_origins ! 1 else epoch) in
          if \<not> is_delta_active cfg (bi_timestamp origin) then verdict (Drop SpanBatchPreDelta) f
          else if next_timestamp < starting_timestamp s
          then verdict (if is_holocene_active cfg (bi_timestamp inclusion) then Drop FutureTimestampHolocene
                        else Future) f
          else if final_timestamp s < next_timestamp
          then verdict (if is_holocene_active cfg (bi_timestamp inclusion) then Past
                        else Drop SpanBatchNoNewBlocksPreHolocene) f
          else case span_parent F cfg next_timestamp safe s f of
            (None, f) \<Rightarrow> (None, f)
          | (Some (Inl v), f) \<Rightarrow> verdict v f
          | (Some (Inr parent), f) \<Rightarrow> (Some (check_span_origins cfg l1_origins inclusion parent s), f))"

text \<open>The loop over the blocks of the span: the verdict to return, if any.  \<open>prev_epoch\<close> is the epoch
  of the block before, absent for the first one.\<close>

definition check_span_block ::
    "rollup_config \<Rightarrow> block_info list \<Rightarrow> bool \<Rightarrow> nat \<Rightarrow> block_info \<Rightarrow> span_batch_element \<Rightarrow> batch_validity option" where
  "check_span_block cfg l1_blocks origin_advanced origin_index l1_origin e =
     (if se_timestamp e < bi_timestamp l1_origin then Some (Drop TimestampBeforeL1Origin)
      else if bi_timestamp l1_origin + max_sequencer_drift cfg (bi_timestamp l1_origin) < se_timestamp e
           \<and> se_transactions e \<noteq> [] then Some (Drop SequencerDriftExceeded)
      else if bi_timestamp l1_origin + max_sequencer_drift cfg (bi_timestamp l1_origin) < se_timestamp e
           \<and> \<not> origin_advanced \<and> length l1_blocks \<le> origin_index + 1 then Some Undecided
      else if bi_timestamp l1_origin + max_sequencer_drift cfg (bi_timestamp l1_origin) < se_timestamp e
           \<and> \<not> origin_advanced \<and> bi_timestamp (l1_blocks ! (origin_index + 1)) \<le> se_timestamp e
      then Some (Drop SequencerDriftNotAdoptedNextOrigin)
      else map_option Drop (check_txs cfg (se_timestamp e) (se_transactions e)))"

fun check_span_blocks ::
    "rollup_config \<Rightarrow> block_info list \<Rightarrow> l2_block_info \<Rightarrow> bool \<Rightarrow> u64 option \<Rightarrow> nat \<Rightarrow> span_batch_element list
       \<Rightarrow> batch_validity option" where
  "check_span_blocks cfg l1_blocks safe origin_advanced prev_epoch origin_index [] = None"
| "check_span_blocks cfg l1_blocks safe origin_advanced prev_epoch origin_index (e # es) =
     (if se_timestamp e \<le> bi_timestamp (l2_block safe)
      then check_span_blocks cfg l1_blocks safe origin_advanced (Some (se_epoch_num e)) origin_index es
      else if se_epoch_num e < nh_number (l2_l1_origin safe) then Some (Drop DropL1OriginBeforeSafeHead)
      else case origin_from l1_blocks origin_index (se_epoch_num e) of
        None \<Rightarrow> Some (Drop DropMissingL1Origin)
      | Some (i, l1_origin) \<Rightarrow>
          let advanced = (case prev_epoch of None \<Rightarrow> origin_advanced | Some p \<Rightarrow> p < se_epoch_num e) in
          case check_span_block cfg l1_blocks advanced i l1_origin e of
            Some v \<Rightarrow> Some v
          | None \<Rightarrow> check_span_blocks cfg l1_blocks safe advanced (Some (se_epoch_num e)) i es)"

text \<open>Comparing one overlapped block with the safe chain.\<close>

definition check_overlapped_block ::
    "('f, 'blk) validation_provider \<Rightarrow> rollup_config \<Rightarrow> 'blk \<Rightarrow> span_batch_element \<Rightarrow> batch_validity option" where
  "check_overlapped_block F cfg blk e =
     (let txs = bv_transactions F blk; deposit_count = length (filter bt_is_deposit txs) in
      if length txs - deposit_count \<noteq> length (se_transactions e) then Some (Drop OverlappedTxCountMismatch)
      else if map bt_encoded (drop deposit_count txs) \<noteq> se_transactions e then Some (Drop OverlappedTxMismatch)
      else case bv_l2_block_info F (rc_genesis cfg) blk of
        None \<Rightarrow> Some (Drop L2BlockInfoExtractionFailed)
      | Some r \<Rightarrow>
          if nh_number (l2_l1_origin r) \<noteq> se_epoch_num e then Some (Drop OverlappedL1OriginMismatch) else None)"

text \<open>The loop over \<open>n\<close> overlapped blocks from the \<open>i\<close>-th block of the span on.\<close>

primrec check_overlap ::
    "nat \<Rightarrow> ('f, 'blk) validation_provider \<Rightarrow> rollup_config \<Rightarrow> u64 \<Rightarrow> span_batch_element list \<Rightarrow> nat
       \<Rightarrow> ('f, batch_validity) check" where
  "check_overlap 0 F cfg parent_num bs i f = (Some Accept, f)"
| "check_overlap (Suc n) F cfg parent_num bs i f =
     (case bv_block_by_number F (parent_num + word_of_nat i + 1) f of
        (Inl _, f) \<Rightarrow> (Some Undecided, f)
      | (Inr blk, f) \<Rightarrow>
          if length bs \<le> i then (None, f)
          else (case check_overlapped_block F cfg blk (bs ! i) of
                  Some v \<Rightarrow> (Some v, f)
                | None \<Rightarrow> check_overlap n F cfg parent_num bs (i + 1) f))"

definition span_check_batch ::
    "('f, 'blk) validation_provider \<Rightarrow> rollup_config \<Rightarrow> block_info list \<Rightarrow> l2_block_info \<Rightarrow> block_info \<Rightarrow> span_batch
       \<Rightarrow> ('f, batch_validity) check" where
  "span_check_batch F cfg l1_blocks safe inclusion s f =
     (case check_batch_prefix F cfg l1_blocks safe inclusion s f of
        (None, f) \<Rightarrow> (None, f)
      | (Some (v, parent), f) \<Rightarrow>
          if v \<noteq> Accept then (Some v, f)
          else case parent of
            None \<Rightarrow> (None, f)
          | Some parent \<Rightarrow>
             (case check_span_blocks cfg l1_blocks safe
                     (starting_epoch_num s = nh_number (l2_l1_origin parent) + 1) None 0 (sp_batches s) of
                Some v \<Rightarrow> (Some v, f)
              | None \<Rightarrow>
                 (case l2_block_timestamp cfg (saturating_add (bi_number (l2_block safe)) 1) of
                    None \<Rightarrow> (None, f)
                  | Some next_timestamp \<Rightarrow>
                      if starting_timestamp s < next_timestamp
                      then check_overlap (unat (bi_number (l2_block safe) - bi_number (l2_block parent))) F cfg
                             (bi_number (l2_block parent)) (sp_batches s) 0 f
                      else (Some Accept, f))))"

section \<open>Batches with their inclusion block\<close>

datatype batch = Single single_batch | Span span_batch

definition batch_timestamp :: "batch \<Rightarrow> u64 option" where
  "batch_timestamp b = (case b of
     Single sb \<Rightarrow> Some (sb_timestamp sb)
   | Span sp \<Rightarrow> (if sp_batches sp = [] then None else Some (starting_timestamp sp)))"

record batch_with_inclusion =
  bw_inclusion_block :: block_info
  bw_batch :: batch

definition bw_check_batch ::
    "('f, 'blk) validation_provider \<Rightarrow> rollup_config \<Rightarrow> block_info list \<Rightarrow> l2_block_info \<Rightarrow> batch_with_inclusion
       \<Rightarrow> ('f, batch_validity) check" where
  "bw_check_batch F cfg l1_blocks safe bw f =
     (case bw_batch bw of
        Single b \<Rightarrow> (sb_check_batch cfg l1_blocks safe (bw_inclusion_block bw) b, f)
      | Span s \<Rightarrow> span_check_batch F cfg l1_blocks safe (bw_inclusion_block bw) s f)"

section \<open>Singular rules, declaratively\<close>

definition tx_ok :: "rollup_config \<Rightarrow> u64 \<Rightarrow> bytes \<Rightarrow> bool" where
  "tx_ok cfg t tx \<longleftrightarrow> tx \<noteq> [] \<and> hd tx \<noteq> 126 \<and> (hd tx = 4 \<longrightarrow> is_isthmus_active cfg t)
     \<and> (hd tx = 121 \<longrightarrow> is_zenith_active cfg t)"

lemma check_txs_None: "check_txs cfg t txs = None \<longleftrightarrow> (\<forall>tx \<in> set txs. tx_ok cfg t tx)"
  by (induction txs) (auto simp: tx_ok_def split: list.split)

text \<open>The epoch of a batch is the current L1 block or its successor.\<close>

definition epoch_block :: "block_info list \<Rightarrow> u64 \<Rightarrow> block_info \<Rightarrow> bool" where
  "epoch_block l1_blocks n origin \<longleftrightarrow>
     (case l1_blocks of
        [] \<Rightarrow> False
      | epoch # later \<Rightarrow>
          n = bi_number epoch \<and> origin = epoch
          \<or> unat n = Suc (unat (bi_number epoch)) \<and> (\<exists>rest. later = origin # rest))"

lemma unat_Suc_word: "unat n = Suc (unat m) \<longleftrightarrow> n = m + 1 \<and> \<not> n < m \<and> n \<noteq> m"
  for n m :: "'a::len word"
proof
  assume a: "unat n = Suc (unat m)"
  have "n = word_of_nat (unat n)"
    by simp
  then have "n = m + 1"
    unfolding a by simp
  with a show "n = m + 1 \<and> \<not> n < m \<and> n \<noteq> m"
    by (auto simp: word_less_nat_alt)
next
  assume a: "n = m + 1 \<and> \<not> n < m \<and> n \<noteq> m"
  then have "m \<noteq> - 1"
    by (metis add.left_inverse word_not_simps(1) word_coorder.not_eq_extremum add.commute)
  with a show "unat n = Suc (unat m)"
    by (metis Suc_eq_plus1 add.commute unatSuc add_eq_0_iff2 minus_equation_iff)
qed

lemma batch_origin_Inr:
  "l1_blocks \<noteq> [] \<Longrightarrow> batch_origin l1_blocks n = Inr origin \<longleftrightarrow> epoch_block l1_blocks n origin"
  by (cases l1_blocks; cases "tl l1_blocks")
     (auto simp: batch_origin_def epoch_block_def unat_Suc_word Let_def split: if_splits)

lemma batch_origin_not_Accept: "batch_origin l1_blocks n \<noteq> Inl Accept"
  by (simp add: batch_origin_def Let_def)

text \<open>When the sequencer drift is used up, only an empty batch that could not have moved on to the next
  L1 block is allowed.\<close>

definition drift_ok :: "rollup_config \<Rightarrow> block_info list \<Rightarrow> single_batch \<Rightarrow> block_info \<Rightarrow> bool" where
  "drift_ok cfg l1_blocks b origin \<longleftrightarrow>
     (let drift = max_sequencer_drift cfg (bi_timestamp origin) in
      unat (bi_timestamp origin) + unat drift < 2 ^ 64
      \<and> (unat (bi_timestamp origin) + unat drift < unat (sb_timestamp b) \<longrightarrow>
           sb_transactions b = []
           \<and> (bi_number (hd l1_blocks) = bi_number origin \<longrightarrow>
                2 \<le> length l1_blocks \<and> sb_timestamp b < bi_timestamp (l1_blocks ! 1))))"

definition single_batch_ok ::
    "rollup_config \<Rightarrow> block_info list \<Rightarrow> l2_block_info \<Rightarrow> block_info \<Rightarrow> single_batch \<Rightarrow> bool" where
  "single_batch_ok cfg l1_blocks safe inclusion b \<longleftrightarrow>
     l2_block_timestamp cfg (saturating_add (bi_number (l2_block safe)) 1) = Some (sb_timestamp b)
     \<and> sb_parent_hash b = bi_hash (l2_block safe)
     \<and> bi_number inclusion \<le> sb_epoch_num b + rc_seq_window_size cfg
     \<and> (\<exists>origin. epoch_block l1_blocks (sb_epoch_num b) origin
          \<and> sb_epoch_hash b = bi_hash origin \<and> bi_timestamp origin \<le> sb_timestamp b
          \<and> drift_ok cfg l1_blocks b origin)
     \<and> (is_first_jovian_block cfg (sb_timestamp b) (bi_timestamp (l2_block safe)) \<longrightarrow> sb_transactions b = [])
     \<and> (\<forall>tx \<in> set (sb_transactions b). tx_ok cfg (sb_timestamp b) tx)"

lemma check_with_origin_Accept:
  assumes "l1_blocks \<noteq> []"
  shows "check_with_origin cfg l1_blocks safe b origin = Accept \<longleftrightarrow>
    sb_epoch_hash b = bi_hash origin \<and> bi_timestamp origin \<le> sb_timestamp b \<and> drift_ok cfg l1_blocks b origin
    \<and> (is_first_jovian_block cfg (sb_timestamp b) (bi_timestamp (l2_block safe)) \<longrightarrow> sb_transactions b = [])
    \<and> (\<forall>tx \<in> set (sb_transactions b). tx_ok cfg (sb_timestamp b) tx)"
proof (cases "checked_add (bi_timestamp origin) (max_sequencer_drift cfg (bi_timestamp origin))")
  case None
  then show ?thesis
    by (simp add: check_with_origin_def drift_ok_def checked_add_def Let_def split: if_splits)
next
  case (Some mx)
  then have mx: "unat mx = unat (bi_timestamp origin) + unat (max_sequencer_drift cfg (bi_timestamp origin))"
      "unat (bi_timestamp origin) + unat (max_sequencer_drift cfg (bi_timestamp origin)) < 2 ^ 64"
    by (simp_all add: checked_add_Some_iff unat_add_lem [THEN iffD1])
  from assms have "hd l1_blocks = l1_blocks ! 0"
    by (simp add: hd_conv_nth)
  then show ?thesis
    unfolding check_with_origin_def drift_ok_def Let_def Some mx(1) [symmetric]
    using mx check_txs_None [of cfg "sb_timestamp b" "sb_transactions b"]
    by (cases "mx < sb_timestamp b"; cases "sb_transactions b = []"; cases "length l1_blocks < 2";
        auto simp: word_less_nat_alt not_less word_le_nat_alt split: option.split)
qed

lemma sb_check_batch_Accept:
  "sb_check_batch cfg l1_blocks safe inclusion b = Some Accept \<longleftrightarrow>
    single_batch_ok cfg l1_blocks safe inclusion b"
proof (cases "l1_blocks = []")
  case False
  have ts: "check_batch_timestamp cfg safe inclusion b = Some Accept \<longleftrightarrow>
      l2_block_timestamp cfg (saturating_add (bi_number (l2_block safe)) 1) = Some (sb_timestamp b)"
    by (auto simp: check_batch_timestamp_def split: bind_splits)
  have "sb_check_batch cfg l1_blocks safe inclusion b = Some Accept \<longleftrightarrow>
      check_batch_timestamp cfg safe inclusion b = Some Accept
      \<and> sb_parent_hash b = bi_hash (l2_block safe) \<and> bi_number inclusion \<le> sb_epoch_num b + rc_seq_window_size cfg
      \<and> (\<exists>origin. epoch_block l1_blocks (sb_epoch_num b) origin
          \<and> check_with_origin cfg l1_blocks safe b origin = Accept)"
    using False batch_origin_not_Accept [of l1_blocks "sb_epoch_num b"]
    by (cases "batch_origin l1_blocks (sb_epoch_num b)")
       (auto simp: sb_check_batch_def is_accept_def not_less batch_origin_Inr [OF False, symmetric]
         split: bind_splits)
  then show ?thesis
    by (auto simp: ts single_batch_ok_def check_with_origin_Accept [OF False])
qed (auto simp: sb_check_batch_def single_batch_ok_def epoch_block_def)

section \<open>Accepted spans\<close>

text \<open>The blocks of a span past the safe head, and what the extraction makes of one of them.\<close>

definition new_blocks :: "l2_block_info \<Rightarrow> span_batch_element list \<Rightarrow> span_batch_element list" where
  "new_blocks safe = filter (\<lambda>e. bi_timestamp (l2_block safe) < se_timestamp e)"

lemma new_blocks_simps [simp]:
  "new_blocks safe [] = []"
  "new_blocks safe (e # es) =
     (if se_timestamp e \<le> bi_timestamp (l2_block safe) then new_blocks safe es else e # new_blocks safe es)"
  by (auto simp: new_blocks_def)

definition extracted ::
    "rollup_config \<Rightarrow> block_info list \<Rightarrow> span_batch_element \<Rightarrow> single_batch \<Rightarrow> bool" where
  "extracted cfg l1_blocks e b \<longleftrightarrow>
     element_of_single b = e \<and> sb_parent_hash b = 0
     \<and> (\<exists>origin \<in> set l1_blocks. bi_number origin = sb_epoch_num b \<and> bi_hash origin = sb_epoch_hash b
          \<and> bi_timestamp origin \<le> sb_timestamp b)
     \<and> (\<forall>tx \<in> set (sb_transactions b). tx_ok cfg (sb_timestamp b) tx)"

lemma find_origin_Some: "find_origin n i bs = Some (j, b) \<Longrightarrow> b \<in> set bs \<and> bi_number b = n"
  by (induction n i bs rule: find_origin.induct) (auto split: if_splits)

lemma origin_from_Some: "origin_from l1 i n = Some (j, b) \<Longrightarrow> b \<in> set l1 \<and> bi_number b = n"
  unfolding origin_from_def by (blast dest: find_origin_Some in_set_dropD)

lemma check_span_block_None:
  "check_span_block cfg l1_blocks advanced i origin e = None \<Longrightarrow>
     bi_timestamp origin \<le> se_timestamp e \<and> (\<forall>tx \<in> set (se_transactions e). tx_ok cfg (se_timestamp e) tx)"
  by (auto simp: check_span_block_def check_txs_None not_less split: if_splits)

lemma check_span_blocks_extract:
  "check_span_blocks cfg l1_blocks safe advanced prev i es = None \<Longrightarrow>
     \<exists>bs. singular_batches l1_blocks safe i es = Ok bs \<and> list_all2 (extracted cfg l1_blocks) (new_blocks safe es) bs"
proof (induction cfg l1_blocks safe advanced prev i es rule: check_span_blocks.induct)
  case (2 cfg l1_blocks safe advanced prev i e es)
  show ?case
  proof (cases "se_timestamp e \<le> bi_timestamp (l2_block safe)")
    case True
    with 2 show ?thesis
      by simp
  next
    case False
    with 2(3) obtain j origin where o: "origin_from l1_blocks i (se_epoch_num e) = Some (j, origin)"
      and blk: "check_span_block cfg l1_blocks (case prev of None \<Rightarrow> advanced | Some p \<Rightarrow> p < se_epoch_num e) j origin e = None"
      and epoch: "\<not> se_epoch_num e < nh_number (l2_l1_origin safe)"
      and rest: "check_span_blocks cfg l1_blocks safe (case prev of None \<Rightarrow> advanced | Some p \<Rightarrow> p < se_epoch_num e)
        (Some (se_epoch_num e)) j es = None"
      by (auto simp: Let_def split: if_splits option.splits)
    from 2(2) [OF False epoch o refl refl blk rest] obtain bs where
      "singular_batches l1_blocks safe j es = Ok bs" "list_all2 (extracted cfg l1_blocks) (new_blocks safe es) bs"
      by auto
    moreover have "extracted cfg l1_blocks e
        \<lparr>sb_parent_hash = 0, sb_epoch_num = se_epoch_num e, sb_epoch_hash = bi_hash origin,
         sb_timestamp = se_timestamp e, sb_transactions = se_transactions e\<rparr>"
      using check_span_block_None [OF blk] origin_from_Some [OF o]
      by (auto simp: extracted_def element_of_single_def)
    ultimately show ?thesis
      using False epoch o by simp
  qed
qed simp

lemma check_span_block_not_Accept: "check_span_block cfg l1_blocks advanced i origin e \<noteq> Some Accept"
  by (auto simp: check_span_block_def)

lemma check_span_blocks_not_Accept: "check_span_blocks cfg l1_blocks safe advanced prev i es \<noteq> Some Accept"
  using check_span_block_not_Accept
  by (induction cfg l1_blocks safe advanced prev i es rule: check_span_blocks.induct)
     (auto simp: Let_def split: if_splits option.splits)

lemma check_span_origins_Accept:
  "check_span_origins cfg l1_origins inclusion parent s = (Accept, p) \<Longrightarrow> p = Some parent"
  by (simp add: check_span_origins_def split: if_splits option.splits)

lemma prefix_accept:
  assumes "check_batch_prefix F cfg l1_origins safe inclusion s f = (Some (Accept, p), f')"
  obtains t parent where "l1_origins \<noteq> []" "sp_batches s \<noteq> []"
    "l2_block_timestamp cfg (bi_number (l2_block safe) + 1) = Some t" "\<not> is_cobalt_active cfg t"
    "starting_timestamp s \<le> t" "t \<le> final_timestamp s"
    "span_parent F cfg t safe s f = (Some (Inr parent), f')"
    "check_span_origins cfg l1_origins inclusion parent s = (Accept, Some parent)" "p = Some parent"
proof -
  have "\<not> (l1_origins = [] \<or> sp_batches s = [])"
    using assms by (auto simp: check_batch_prefix_def verdict_def split: if_splits)
  then obtain t where t: "l2_block_timestamp cfg (bi_number (l2_block safe) + 1) = Some t"
    using assms by (auto simp: check_batch_prefix_def split: option.splits)
  have "\<not> is_cobalt_active cfg t" "starting_timestamp s \<le> t" "t \<le> final_timestamp s"
    and run: "(case span_parent F cfg t safe s f of
            (None, f) \<Rightarrow> (None, f)
          | (Some (Inl v), f) \<Rightarrow> verdict v f
          | (Some (Inr parent), f) \<Rightarrow> (Some (check_span_origins cfg l1_origins inclusion parent s), f))
        = (Some (Accept, p), f')"
    using assms by (simp_all add: check_batch_prefix_def t Let_def verdict_def split: if_splits)
  moreover have "fst (span_parent F cfg t safe s f) \<noteq> Some (Inl Accept)"
    by (simp add: span_parent_def Let_def split: prod.split sum.split)
  ultimately show thesis
    using that [of t] t \<open>\<not> (l1_origins = [] \<or> sp_batches s = [])\<close>
    by (cases "span_parent F cfg t safe s f")
       (auto simp: verdict_def dest: check_span_origins_Accept split: option.splits sum.splits)
qed

lemma span_accept:
  assumes "span_check_batch F cfg l1_blocks safe inclusion s f = (Some Accept, f')"
  obtains parent f1 where
    "check_batch_prefix F cfg l1_blocks safe inclusion s f = (Some (Accept, Some parent), f1)"
    "check_span_blocks cfg l1_blocks safe (starting_epoch_num s = nh_number (l2_l1_origin parent) + 1) None 0
      (sp_batches s) = None"
  using assms by (auto simp: span_check_batch_def check_span_blocks_not_Accept split: prod.splits option.splits if_splits)

lemma span_accept_parts:
  assumes "span_check_batch F cfg l1_blocks safe inclusion s f = (Some Accept, f')"
  obtains t adv where "sp_batches s \<noteq> []" "l1_blocks \<noteq> []"
    "l2_block_timestamp cfg (bi_number (l2_block safe) + 1) = Some t" "t \<le> final_timestamp s" "starting_timestamp s \<le> t"
    "check_span_blocks cfg l1_blocks safe adv None 0 (sp_batches s) = None"
  using assms by (elim span_accept prefix_accept) blast

lemma last_in_new_blocks:
  "es \<noteq> [] \<Longrightarrow> bi_timestamp (l2_block safe) < se_timestamp (es ! (length es - 1)) \<Longrightarrow> new_blocks safe es \<noteq> []"
  by (auto simp: new_blocks_def filter_empty_conv intro!: bexI [of _ "es ! (length es - 1)"])

lemma span_accept_new:
  assumes "span_check_batch F cfg l1_blocks safe inclusion s f = (Some Accept, f')"
    and "l2_block_timestamp cfg (bi_number (l2_block safe) + 1) = Some (starting_timestamp s)"
  shows "check_span_origins cfg l1_blocks inclusion safe s = (Accept, Some safe)"
    "check_span_blocks cfg l1_blocks safe (starting_epoch_num s = nh_number (l2_l1_origin safe) + 1) None 0
      (sp_batches s) = None"
proof -
  have "span_parent F cfg (starting_timestamp s) safe s g = (Some (Inr safe), g)" for g
    by (simp add: span_parent_def Let_def)
  with assms(2) show "check_span_origins cfg l1_blocks inclusion safe s = (Accept, Some safe)"
    "check_span_blocks cfg l1_blocks safe (starting_epoch_num s = nh_number (l2_l1_origin safe) + 1) None 0
      (sp_batches s) = None"
    using assms(1) by (auto elim!: span_accept prefix_accept)
qed

text \<open>L1 blocks with consecutive numbers from the origin of the safe head on.\<close>

definition l1_window :: "l2_block_info \<Rightarrow> block_info list \<Rightarrow> bool" where
  "l1_window safe l1_blocks \<longleftrightarrow>
     (\<forall>i < length l1_blocks. unat (bi_number (l1_blocks ! i)) = unat (nh_number (l2_l1_origin safe)) + i)"

lemma l1_window_inj:
  "l1_window safe l1_blocks \<Longrightarrow> i < length l1_blocks \<Longrightarrow> j < length l1_blocks \<Longrightarrow>
     bi_number (l1_blocks ! i) = bi_number (l1_blocks ! j) \<Longrightarrow> i = j"
  unfolding l1_window_def by (metis add_left_cancel)

lemma find_origin_nth:
  "find_origin n i bs = Some (j, b) \<Longrightarrow> i \<le> j \<and> j < i + length bs \<and> bs ! (j - i) = b"
  by (induction n i bs rule: find_origin.induct) (fastforce split: if_splits simp: nth_Cons' Suc_diff_le)+

lemma origin_from_0:
  assumes "origin_from l1_blocks 0 n = Some (j, origin)"
  shows "j < length l1_blocks" "l1_blocks ! j = origin" "bi_number origin = n"
  using find_origin_nth [of n 0 l1_blocks j origin] origin_from_Some [OF assms] assms
  by (simp_all add: origin_from_def)

lemma check_span_block_drift:
  assumes "check_span_block cfg l1_blocks advanced j origin e = None"
    and "unat (bi_timestamp origin) + unat (max_sequencer_drift cfg (bi_timestamp origin)) < 2 ^ 64"
    and "unat (bi_timestamp origin) + unat (max_sequencer_drift cfg (bi_timestamp origin)) < unat (se_timestamp e)"
  shows "se_transactions e = []
    \<and> (advanced \<or> j + 1 < length l1_blocks \<and> se_timestamp e < bi_timestamp (l1_blocks ! (j + 1)))"
proof -
  have "bi_timestamp origin + max_sequencer_drift cfg (bi_timestamp origin) < se_timestamp e"
    using assms(2,3) by (simp add: word_less_nat_alt unat_add_lem [THEN iffD1])
  with assms(1) show ?thesis
    by (auto simp: check_span_block_def not_le split: if_splits)
qed

text \<open>The epoch of the first block of a span on the safe head is the first or the second L1 block.\<close>

lemma span_epoch_index:
  assumes "check_span_origins cfg l1_blocks inclusion safe s = (Accept, Some safe)"
    and "l1_window safe l1_blocks" "j < length l1_blocks" "bi_number (l1_blocks ! j) = starting_epoch_num s"
  shows "j = 0 \<and> starting_epoch_num s = nh_number (l2_l1_origin safe)
    \<or> j = 1 \<and> starting_epoch_num s = nh_number (l2_l1_origin safe) + 1"
    "bi_number inclusion \<le> starting_epoch_num s + rc_seq_window_size cfg"
proof -
  let ?n = "nh_number (l2_l1_origin safe)" and ?e = "starting_epoch_num s"
  have e: "\<not> ?n + 1 < ?e" "\<not> ?e < ?n" "\<not> ?e + rc_seq_window_size cfg < bi_number inclusion"
    using assms(1) by (auto simp: check_span_origins_def split: if_splits option.splits)
  then show "bi_number inclusion \<le> ?e + rc_seq_window_size cfg"
    by simp
  have u: "unat ?e = unat ?n + j"
    using assms(2-4) by (auto simp: l1_window_def)
  from e(1,2) have "?e = ?n \<or> ?e = ?n + 1"
    by (metis inc_le not_less_iff_gr_or_eq order_antisym_conv linorder_not_less)
  with u unat_Suc_word [of ?e ?n] e(2) show "j = 0 \<and> ?e = ?n \<or> j = 1 \<and> ?e = ?n + 1"
    by auto
qed

text \<open>A small chain: a two-second block time, Delta active, one L1 block, a safe head at genesis and a span
  of one block on top of it.\<close>

definition span_config :: rollup_config where
  "span_config = rollup_config_default
     \<lparr>rc_block_time := 2, rc_max_sequencer_drift := 600,
      rc_upgrades := upgrade_config_default\<lparr>u_delta_time := Some 0\<rparr>\<rparr>"

definition genesis_head :: l2_block_info where
  "genesis_head = \<lparr>l2_block = block_info_default, l2_l1_origin = \<lparr>nh_number = 0, nh_hash = 0\<rparr>, l2_seq_num = 0\<rparr>"

definition no_blocks :: "(unit, unit) validation_provider" where
  "no_blocks = \<lparr>bv_l2_block_info_by_number = (\<lambda>_ f. (Inl [], f)), bv_block_by_number = (\<lambda>_ f. (Inl [], f)),
     bv_transactions = (\<lambda>_. []), bv_l2_block_info = (\<lambda>_ _. None)\<rparr>"

definition no_txs :: span_batch_transactions where
  "no_txs = \<lparr>st_total_block_tx_count = 0, st_contract_creation_bits = [], st_tx_sigs = [], st_tx_nonces = [],
     st_tx_gases = [], st_tx_tos = [], st_tx_data = [], st_protected_bits = [], st_tx_types = [],
     st_legacy_tx_count = 0, st_eip8130_auth_data = []\<rparr>"

definition one_block_span :: span_batch where
  "one_block_span = \<lparr>sp_parent_check = replicate 20 0, sp_l1_origin_check = replicate 20 0,
     sp_genesis_timestamp = 0, sp_chain_id = 0,
     sp_batches = [\<lparr>se_epoch_num = 0, se_timestamp = 2, se_transactions = [[2, 9]]\<rparr>],
     sp_origin_bits = [0], sp_block_tx_counts = [1], sp_txs = no_txs\<rparr>"

lemma span_config_forks:
  "\<not> is_cobalt_active span_config t" "\<not> is_holocene_active span_config t" "\<not> is_jovian_active span_config t"
  "is_delta_active span_config t" "max_sequencer_drift span_config t = 600"
  by (simp_all add: fork_defs active_at_def upgrade_activation_timestamp_def upgrade_activation_of_def
      registry_activation_def span_config_def rollup_config_default_def upgrade_config_default_def
      base_upgrade_config_default_def is_cobalt_active_def max_sequencer_drift_def)

lemma span_config_timestamp: "l2_block_timestamp span_config 1 = Some 2"
  by (simp add: l2_block_timestamp_def l2_block_timestamp_millis_def cobalt_activation_block_number_def
      activation_block_number_def base_upgrade_config_default_def upgrade_activation_timestamp_def upgrade_activation_of_def registry_activation_def
      span_config_def rollup_config_default_def upgrade_config_default_def chain_genesis_default_def
      saturating_sub_def saturating_add_def saturating_mul_def Let_def)

lemma one_block_span_accepted:
  "span_check_batch no_blocks span_config [block_info_default] genesis_head block_info_default one_block_span ()
     = (Some Accept, ())"
  "l2_block_timestamp span_config (bi_number (l2_block genesis_head) + 1) = Some 2"
  "l2_block_timestamp span_config (saturating_add (bi_number (l2_block genesis_head)) 1) = Some 2"
  "starting_timestamp one_block_span = 2" "bi_timestamp (l2_block genesis_head) = 0"
  "\<not> is_first_jovian_block span_config 2 0"
proof -
  have h: "hash_bytes 0 = replicate 32 0"
    by code_simp
  show safe: "l2_block_timestamp span_config (bi_number (l2_block genesis_head) + 1) = Some 2"
    "l2_block_timestamp span_config (saturating_add (bi_number (l2_block genesis_head)) 1) = Some 2"
    "bi_timestamp (l2_block genesis_head) = 0" "starting_timestamp one_block_span = 2"
    by (simp_all add: genesis_head_def block_info_default_def saturating_add_def span_config_timestamp
        starting_timestamp_def one_block_span_def)
  show "\<not> is_first_jovian_block span_config 2 0"
    by (simp add: is_first_jovian_block_def span_config_forks)
  have "check_batch_prefix no_blocks span_config [block_info_default] genesis_head block_info_default one_block_span ()
      = (Some (Accept, Some genesis_head), ())"
    unfolding check_batch_prefix_def safe option.case
    by (simp add: span_config_forks span_parent_def check_span_origins_def Let_def one_block_span_def
        starting_timestamp_def final_timestamp_def starting_epoch_num_def genesis_head_def block_info_default_def
        check_parent_hash_def check_origin_hash_def h)
  moreover have "check_span_blocks span_config [block_info_default] genesis_head False None 0
      (sp_batches one_block_span) = None" "starting_epoch_num one_block_span \<noteq> nh_number (l2_l1_origin genesis_head) + 1"
    by (simp_all add: check_span_block_def origin_from_def span_config_forks one_block_span_def starting_epoch_num_def
        genesis_head_def block_info_default_def)
  ultimately show "span_check_batch no_blocks span_config [block_info_default] genesis_head block_info_default
      one_block_span () = (Some Accept, ())"
    by (simp add: span_check_batch_def safe)
qed

section \<open>Properties\<close>

text \<open>C7. The singular batch rules accept exactly the batches that are allowed to extend the safe chain:
  the timestamp of the next block, the safe head as parent, inside the sequencing window, an epoch
  that is the current L1 block or its successor with the right hash and not later than the batch,
  within the sequencer drift unless forced to be empty, empty in the first Jovian block, and only
  transactions of enabled types other than deposits.  Every other batch gets another verdict.\<close>

theorem single_batch_accepted:
  "sb_check_batch cfg l1_blocks safe inclusion b = Some Accept \<longleftrightarrow>
    single_batch_ok cfg l1_blocks safe inclusion b"
  by (rule sb_check_batch_Accept)

text \<open>C8. Every span batch the full rules accept can be turned into singular batches: extraction does not
  fail, gives one batch for each block of the span past the safe head, in order and at least one, and
  each of them carries the number and the hash of an L1 block that is not later than it, and only
  transactions that the singular rules allow.\<close>

theorem accepted_span_extracts:
  assumes "span_check_batch F cfg l1_blocks safe inclusion s f = (Some Accept, f')"
    and "\<And>t. l2_block_timestamp cfg (bi_number (l2_block safe) + 1) = Some t \<Longrightarrow> bi_timestamp (l2_block safe) < t"
  shows "\<exists>bs. get_singular_batches s l1_blocks safe = Ok bs \<and> bs \<noteq> []
    \<and> list_all2 (extracted cfg l1_blocks) (new_blocks safe (sp_batches s)) bs"
proof -
  obtain t adv where s: "sp_batches s \<noteq> []" "l2_block_timestamp cfg (bi_number (l2_block safe) + 1) = Some t"
      "t \<le> final_timestamp s" "check_span_blocks cfg l1_blocks safe adv None 0 (sp_batches s) = None"
    using span_accept_parts [OF assms(1)] by metis
  from assms(2) [OF s(2)] s(3) have "new_blocks safe (sp_batches s) \<noteq> []"
    by (intro last_in_new_blocks s(1)) (simp add: final_timestamp_def)
  with check_span_blocks_extract [OF s(4)] show ?thesis
    by (auto simp: get_singular_batches_def)
qed

theorem accepted_span_extracts_witness:
  "\<exists>bs. get_singular_batches one_block_span [block_info_default] genesis_head = Ok bs \<and> bs \<noteq> []
    \<and> list_all2 (extracted span_config [block_info_default]) (new_blocks genesis_head (sp_batches one_block_span)) bs"
  using accepted_span_extracts [OF one_block_span_accepted(1)] one_block_span_accepted(2,5) by simp



end
