(* ===== verification/Batch_Codec.thy ===== *)
theory Batch_Codec
  imports Batches "HOL-Library.Log_Nat"
begin

text \<open>
  The wire format of batches (crates/consensus/protocol/src/batch: bits.rs, prefix.rs, payload.rs,
  transactions.rs, raw.rs, tx_data/wrapper.rs, core.rs, type.rs, and \<open>read_tx_data\<close> of utils.rs): bit
  lists, the prefix and the payload of a span batch with its columns of transaction fields, the
  derivation of the blocks of a span, and the decoding and encoding of a batch.  Variable-length
  integers and RLP are third-party codecs and come as the record \<open>wire\<close>.  A reader is the rest of the
  input, passed along.
\<close>

unbundle bit_operations_syntax

section \<open>Third-party codecs\<close>

text \<open>\<open>uv_decode\<close> and \<open>uv_encode\<close> are the variable-length integers; \<open>rlp_header\<close> gives the list flag, the
  payload length and the length of the header itself; \<open>rlp_single\<close> and \<open>rlp_single_encode\<close> are the
  derived codec of singular batches; \<open>td_decode\<close> decodes the data record of a transaction type,
  \<open>td_signed\<close> and \<open>td_eip8130\<close> assemble and encode the signed transaction.\<close>

record 'td wire =
  uv_decode :: "bytes \<Rightarrow> (u64 \<times> bytes) option"
  uv_encode :: "u64 \<Rightarrow> bytes"
  rlp_header :: "bytes \<Rightarrow> (bool \<times> nat \<times> nat) option"
  rlp_single :: "bytes \<Rightarrow> string + single_batch \<times> bytes"
  rlp_single_encode :: "single_batch \<Rightarrow> bytes"
  td_decode :: "op_tx_type \<Rightarrow> bytes \<Rightarrow> 'td option"
  td_signed :: "op_tx_type \<Rightarrow> 'td \<Rightarrow> u64 \<Rightarrow> u64 \<Rightarrow> address option \<Rightarrow> u64 \<Rightarrow> signature \<Rightarrow> bool \<Rightarrow> bytes"
  td_eip8130 :: "'td \<Rightarrow> u64 \<Rightarrow> u64 \<Rightarrow> u64 \<Rightarrow> bytes \<Rightarrow> bytes \<Rightarrow> bytes"

type_synonym 'a parse = "(span_batch_error, 'a \<times> bytes) outcome"

text \<open>A variable-length integer off the reader, with the error of the caller.\<close>

definition read_uv :: "'td wire \<Rightarrow> span_decoding_error \<Rightarrow> bytes \<Rightarrow> u64 parse" where
  "read_uv W e r = ok_or (Decoding e) (uv_decode W r)"

section \<open>Bit lists\<close>

definition bits_buffer_len :: "nat \<Rightarrow> nat" where
  "bits_buffer_len bit_length = bit_length div 8 + (if bit_length mod 8 \<noteq> 0 then 1 else 0)"

definition leading_zeros :: "u8 \<Rightarrow> nat" where
  "leading_zeros b = 8 - floorlog 2 (unat b)"

fun bit_len :: "bytes \<Rightarrow> nat" where
  "bit_len [] = 0"
| "bit_len (b # bs) =
     (if b \<noteq> 0 then let msb_index = 7 - leading_zeros b in msb_index + 1 + length bs * 8 else bit_len bs)"

definition bits_decode :: "bytes \<Rightarrow> nat \<Rightarrow> bytes parse" where
  "bits_decode b bit_length =
     (let buffer_len = bits_buffer_len bit_length;
          (bits, b) = (if length b < buffer_len then (b @ replicate (buffer_len - length b) 0, [])
                       else (take buffer_len b, drop buffer_len b))
      in if bit_length < bit_len bits then Err BitfieldTooLong else Ok (bits, b))"

definition bits_encode :: "nat \<Rightarrow> bytes \<Rightarrow> (span_batch_error, bytes) outcome" where
  "bits_encode bit_length bits =
     (if bit_length < bit_len bits then Err BitfieldTooLong
      else let buf_len = bits_buffer_len bit_length in
        if buf_len < length bits then Panic
        else Ok (replicate (buf_len - length bits) 0 @ bits))"

definition get_bit :: "bytes \<Rightarrow> nat \<Rightarrow> u8 option" where
  "get_bit bits i =
     (if i div 8 < length bits
      then Some (if (bits ! (length bits - i div 8 - 1)) AND push_bit (i mod 8) 1 \<noteq> 0 then 1 else 0)
      else None)"

definition resize_from_right :: "bytes \<Rightarrow> nat \<Rightarrow> bytes" where
  "resize_from_right v new_size =
     (if new_size < length v then drop (length v - new_size) v
      else replicate (new_size - length v) 0 @ v)"

definition set_bit_at :: "bytes \<Rightarrow> nat \<Rightarrow> bool \<Rightarrow> bytes" where
  "set_bit_at bits i v =
     (let bits = (if length bits \<le> i div 8 then resize_from_right bits (i div 8 + 1) else bits);
          k = length bits - i div 8 - 1;
          mask = push_bit (i mod 8) 1
      in bits[k := (if v then (bits ! k) OR mask else (bits ! k) AND NOT mask)])"

section \<open>Prefix\<close>

record span_batch_prefix =
  px_rel_timestamp :: u64
  px_l1_origin_num :: u64
  px_parent_check :: bytes
  px_l1_origin_check :: bytes

definition read_bytes :: "nat \<Rightarrow> span_decoding_error \<Rightarrow> bytes \<Rightarrow> bytes parse" where
  "read_bytes n e r = (if length r < n then Err (Decoding e) else Ok (take n r, drop n r))"

definition decode_prefix :: "'td wire \<Rightarrow> bytes \<Rightarrow> span_batch_prefix parse" where
  "decode_prefix W r =
     obind (read_uv W RelativeTimestamp r) (\<lambda>(rel_timestamp, r).
     obind (read_uv W L1OriginNumber r) (\<lambda>(l1_origin_num, r).
     obind (read_bytes 20 ParentCheck r) (\<lambda>(parent_check, r).
     obind (read_bytes 20 L1OriginCheck r) (\<lambda>(l1_origin_check, r).
     Ok (\<lparr>px_rel_timestamp = rel_timestamp, px_l1_origin_num = l1_origin_num,
          px_parent_check = parent_check, px_l1_origin_check = l1_origin_check\<rparr>, r)))))"

definition encode_prefix :: "'td wire \<Rightarrow> span_batch_prefix \<Rightarrow> bytes" where
  "encode_prefix W p =
     uv_encode W (px_rel_timestamp p) @ uv_encode W (px_l1_origin_num p) @ px_parent_check p @ px_l1_origin_check p"

section \<open>Transaction columns\<close>

definition tx_type_of :: "u8 \<Rightarrow> op_tx_type option" where
  "tx_type_of b = (if b = 0 then Some TyLegacy else if b = 1 then Some TyEip2930 else if b = 2 then Some TyEip1559
     else if b = 4 then Some TyEip7702 else if b = 126 then Some TyDeposit
     else if b = 121 then Some TyEip8130 else None)"

definition read_tx_data :: "'td wire \<Rightarrow> bytes \<Rightarrow> (bytes \<times> op_tx_type) parse" where
  "read_tx_data W r =
     (case r of
        [] \<Rightarrow> Err (Decoding InvalidTransactionData)
      | first_byte # rest \<Rightarrow>
          let (tx_type, tx_data, r) = (if first_byte \<le> 0x7F then (first_byte, [first_byte], rest) else (0, [], r)) in
          case rlp_header W r of
            None \<Rightarrow> Err (Decoding InvalidTransactionData)
          | Some (list, payload_length, header_length) \<Rightarrow>
              if \<not> list then Err (Decoding InvalidTransactionData)
              else if unat MAX_SPAN_BATCH_ELEMENTS < payload_length + header_length then Err TooBigSpanBatchSize
              else if length r < payload_length + header_length then Err (Decoding InvalidTransactionData)
              else case tx_type_of tx_type of
                None \<Rightarrow> Err (Decoding InvalidTransactionType)
              | Some ty \<Rightarrow>
                  Ok ((tx_data @ take (payload_length + header_length) r, ty), drop (payload_length + header_length) r))"

definition txs_default :: span_batch_transactions where
  "txs_default =
     \<lparr>st_total_block_tx_count = 0, st_contract_creation_bits = [], st_tx_sigs = [], st_tx_nonces = [],
      st_tx_gases = [], st_tx_tos = [], st_tx_data = [], st_protected_bits = [], st_tx_types = [],
      st_legacy_tx_count = 0, st_eip8130_auth_data = []\<rparr>"

type_synonym column = "span_batch_transactions \<Rightarrow> bytes \<Rightarrow> span_batch_transactions parse"

definition decode_contract_creation_bits :: column where
  "decode_contract_creation_bits t r =
     (if MAX_SPAN_BATCH_ELEMENTS < st_total_block_tx_count t then Err TooBigSpanBatchSize
      else obind (bits_decode r (unat (st_total_block_tx_count t))) (\<lambda>(bits, r).
           Ok (t\<lparr>st_contract_creation_bits := bits\<rparr>, r)))"

definition decode_protected_bits :: column where
  "decode_protected_bits t r =
     (if MAX_SPAN_BATCH_ELEMENTS < st_legacy_tx_count t then Err TooBigSpanBatchSize
      else obind (bits_decode r (unat (st_legacy_tx_count t))) (\<lambda>(bits, r).
           Ok (t\<lparr>st_protected_bits := bits\<rparr>, r)))"

text \<open>The loop over the signatures \<open>i, i + 1, \<dots>\<close>; a missing parity bit would panic.\<close>

primrec read_sigs :: "nat \<Rightarrow> nat \<Rightarrow> bytes \<Rightarrow> bytes \<Rightarrow> signature list parse" where
  "read_sigs 0 i parity r = Ok ([], r)"
| "read_sigs (Suc n) i parity r =
     (case get_bit parity i of
        None \<Rightarrow> Panic
      | Some y_parity \<Rightarrow>
          if length r < 64 then Err (Decoding InvalidTransactionData)
          else obind (read_sigs n (i + 1) parity (drop 64 r)) (\<lambda>(sigs, r').
               Ok (\<lparr>sig_r = word_of_nat (nat_from_be (take 32 r)),
                    sig_s = word_of_nat (nat_from_be (take 32 (drop 32 r))),
                    sig_y_parity = (y_parity = 1)\<rparr> # sigs, r')))"

definition decode_tx_sigs :: column where
  "decode_tx_sigs t r =
     obind (bits_decode r (unat (st_total_block_tx_count t))) (\<lambda>(parity, r).
     obind (read_sigs (unat (st_total_block_tx_count t)) 0 parity r) (\<lambda>(sigs, r).
     Ok (t\<lparr>st_tx_sigs := sigs\<rparr>, r)))"

primrec read_uvs :: "nat \<Rightarrow> 'td wire \<Rightarrow> span_decoding_error \<Rightarrow> bytes \<Rightarrow> u64 list parse" where
  "read_uvs 0 W e r = Ok ([], r)"
| "read_uvs (Suc n) W e r =
     obind (read_uv W e r) (\<lambda>(v, r). obind (read_uvs n W e r) (\<lambda>(vs, r). Ok (v # vs, r)))"

definition decode_tx_nonces :: "'td wire \<Rightarrow> column" where
  "decode_tx_nonces W t r =
     obind (read_uvs (unat (st_total_block_tx_count t)) W TxNonces r) (\<lambda>(nonces, r). Ok (t\<lparr>st_tx_nonces := nonces\<rparr>, r))"

definition decode_tx_gases :: "'td wire \<Rightarrow> column" where
  "decode_tx_gases W t r =
     obind (read_uvs (unat (st_total_block_tx_count t)) W TxNonces r) (\<lambda>(gases, r). Ok (t\<lparr>st_tx_gases := gases\<rparr>, r))"

definition count_ones :: "u8 \<Rightarrow> nat" where
  "count_ones b = length (filter (bit b) [0..<8])"

definition contract_creation_count :: "span_batch_transactions \<Rightarrow> u64" where
  "contract_creation_count t = sum_list (map (\<lambda>b. word_of_nat (count_ones b)) (st_contract_creation_bits t))"

primrec read_addresses :: "nat \<Rightarrow> bytes \<Rightarrow> address list parse" where
  "read_addresses 0 r = Ok ([], r)"
| "read_addresses (Suc n) r =
     obind (read_bytes 20 InvalidTransactionData r) (\<lambda>(a, r).
     obind (read_addresses n r) (\<lambda>(tos, r). Ok (word_of_nat (nat_from_be a) # tos, r)))"

definition decode_tx_tos :: column where
  "decode_tx_tos t r =
     obind (read_addresses (unat (st_total_block_tx_count t - contract_creation_count t)) r) (\<lambda>(tos, r).
     Ok (t\<lparr>st_tx_tos := tos\<rparr>, r))"

primrec read_tx_datas :: "nat \<Rightarrow> 'td wire \<Rightarrow> bytes \<Rightarrow> (bytes \<times> op_tx_type) list parse" where
  "read_tx_datas 0 W r = Ok ([], r)"
| "read_tx_datas (Suc n) W r =
     obind (read_tx_data W r) (\<lambda>(d, r). obind (read_tx_datas n W r) (\<lambda>(ds, r). Ok (d # ds, r)))"

definition decode_tx_data :: "'td wire \<Rightarrow> column" where
  "decode_tx_data W t r =
     obind (read_tx_datas (unat (st_total_block_tx_count t)) W r) (\<lambda>(ds, r).
     Ok (t\<lparr>st_tx_data := map fst ds, st_tx_types := map snd ds,
           st_legacy_tx_count := st_legacy_tx_count t
             + word_of_nat (length (filter (\<lambda>d. snd d = TyLegacy) ds))\<rparr>, r))"

definition MAX_AUTH_PROOF_BYTES :: u64 where
  "MAX_AUTH_PROOF_BYTES = 10000000"

definition decode_eip8130_proof :: "'td wire \<Rightarrow> bytes \<Rightarrow> bytes parse" where
  "decode_eip8130_proof W r =
     obind (read_uv W InvalidAuthData r) (\<lambda>(n, r).
     if MAX_AUTH_PROOF_BYTES < n then Err TooBigSpanBatchSize
     else read_bytes (unat n) InvalidTransactionData r)"

fun read_proofs :: "'td wire \<Rightarrow> op_tx_type list \<Rightarrow> bytes \<Rightarrow> (bytes \<times> bytes) list parse" where
  "read_proofs W [] r = Ok ([], r)"
| "read_proofs W (ty # tys) r =
     (if ty \<noteq> TyEip8130 then read_proofs W tys r
      else obind (decode_eip8130_proof W r) (\<lambda>(sender_proof, r).
           obind (decode_eip8130_proof W r) (\<lambda>(payer_proof, r).
           obind (read_proofs W tys r) (\<lambda>(ps, r). Ok ((sender_proof, payer_proof) # ps, r)))))"

definition decode_eip8130_auth_data :: "'td wire \<Rightarrow> column" where
  "decode_eip8130_auth_data W t r =
     obind (read_proofs W (st_tx_types t) r) (\<lambda>(ps, r). Ok (t\<lparr>st_eip8130_auth_data := ps\<rparr>, r))"

definition txs_decode :: "'td wire \<Rightarrow> column" where
  "txs_decode W t r =
     obind (decode_contract_creation_bits t r) (\<lambda>(t, r).
     obind (decode_tx_sigs t r) (\<lambda>(t, r).
     obind (decode_tx_tos t r) (\<lambda>(t, r).
     obind (decode_tx_data W t r) (\<lambda>(t, r).
     obind (decode_tx_nonces W t r) (\<lambda>(t, r).
     obind (decode_tx_gases W t r) (\<lambda>(t, r).
     obind (decode_protected_bits t r) (\<lambda>(t, r).
     decode_eip8130_auth_data W t r)))))))"

definition encode_proof :: "'td wire \<Rightarrow> bytes \<Rightarrow> bytes" where
  "encode_proof W p = uv_encode W (word_of_nat (length p)) @ p"

text \<open>Parity bits of the signatures, set one after another.\<close>

fun parity_bits :: "nat \<Rightarrow> signature list \<Rightarrow> bytes \<Rightarrow> bytes" where
  "parity_bits i [] bits = bits"
| "parity_bits i (s # sigs) bits = parity_bits (i + 1) sigs (set_bit_at bits i (sig_y_parity s))"

definition encode_tx_sigs :: "span_batch_transactions \<Rightarrow> (span_batch_error, bytes) outcome" where
  "encode_tx_sigs t =
     obind (bits_encode (unat (st_total_block_tx_count t)) (parity_bits 0 (st_tx_sigs t) [])) (\<lambda>bits.
     Ok (bits @ concat (map (\<lambda>s. nat_to_be 32 (unat (sig_r s)) @ nat_to_be 32 (unat (sig_s s))) (st_tx_sigs t))))"

definition txs_encode :: "'td wire \<Rightarrow> span_batch_transactions \<Rightarrow> (span_batch_error, bytes) outcome" where
  "txs_encode W t =
     obind (bits_encode (unat (st_total_block_tx_count t)) (st_contract_creation_bits t)) (\<lambda>creation.
     obind (encode_tx_sigs t) (\<lambda>sigs.
     obind (bits_encode (unat (st_legacy_tx_count t)) (st_protected_bits t)) (\<lambda>protected.
     Ok (creation @ sigs
       @ concat (map (\<lambda>a. nat_to_be 20 (unat a)) (st_tx_tos t))
       @ concat (st_tx_data t)
       @ concat (map (uv_encode W) (st_tx_nonces t))
       @ concat (map (uv_encode W) (st_tx_gases t))
       @ protected
       @ concat (map (\<lambda>(s, p). encode_proof W s @ encode_proof W p) (st_eip8130_auth_data t))))))"

section \<open>Payload\<close>

record span_batch_payload =
  py_block_count :: u64
  py_origin_bits :: bytes
  py_block_tx_counts :: "u64 list"
  py_txs :: span_batch_transactions

definition decode_block_count :: "'td wire \<Rightarrow> bytes \<Rightarrow> u64 parse" where
  "decode_block_count W r =
     obind (read_uv W BlockCount r) (\<lambda>(block_count, r).
     if MAX_SPAN_BATCH_ELEMENTS < block_count then Err TooBigSpanBatchSize
     else if block_count = 0 then Err EmptySpanBatch
     else Ok (block_count, r))"

definition decode_origin_bits :: "u64 \<Rightarrow> bytes \<Rightarrow> bytes parse" where
  "decode_origin_bits block_count r =
     (if MAX_SPAN_BATCH_ELEMENTS < block_count then Err TooBigSpanBatchSize
      else bits_decode r (unat block_count))"

primrec decode_block_tx_counts :: "nat \<Rightarrow> 'td wire \<Rightarrow> bytes \<Rightarrow> u64 list parse" where
  "decode_block_tx_counts 0 W r = Ok ([], r)"
| "decode_block_tx_counts (Suc n) W r =
     obind (read_uv W BlockTxCounts r) (\<lambda>(c, r).
     if MAX_SPAN_BATCH_ELEMENTS < c then Err TooBigSpanBatchSize
     else obind (decode_block_tx_counts n W r) (\<lambda>(cs, r). Ok (c # cs, r)))"

fun total_count :: "u64 \<Rightarrow> u64 list \<Rightarrow> (span_batch_error, u64) outcome" where
  "total_count acc [] = Ok acc"
| "total_count acc (c # cs) = obind (ok_or TooBigSpanBatchSize (checked_add acc c)) (\<lambda>acc. total_count acc cs)"

definition decode_txs :: "'td wire \<Rightarrow> u64 list \<Rightarrow> bytes \<Rightarrow> span_batch_transactions parse" where
  "decode_txs W counts r =
     (if counts = [] then Err EmptySpanBatch
      else obind (total_count 0 counts) (\<lambda>total.
        if MAX_SPAN_BATCH_ELEMENTS < total then Err TooBigSpanBatchSize
        else txs_decode W (txs_default\<lparr>st_total_block_tx_count := total\<rparr>) r))"

definition decode_payload :: "'td wire \<Rightarrow> bytes \<Rightarrow> span_batch_payload parse" where
  "decode_payload W r =
     obind (decode_block_count W r) (\<lambda>(block_count, r).
     obind (decode_origin_bits block_count r) (\<lambda>(origin_bits, r).
     obind (decode_block_tx_counts (unat block_count) W r) (\<lambda>(counts, r).
     obind (decode_txs W counts r) (\<lambda>(txs, r).
     Ok (\<lparr>py_block_count = block_count, py_origin_bits = origin_bits, py_block_tx_counts = counts, py_txs = txs\<rparr>, r)))))"

definition encode_payload :: "'td wire \<Rightarrow> span_batch_payload \<Rightarrow> (span_batch_error, bytes) outcome" where
  "encode_payload W p =
     obind (bits_encode (unat (py_block_count p)) (py_origin_bits p)) (\<lambda>origin_bits.
     obind (txs_encode W (py_txs p)) (\<lambda>txs.
     Ok (uv_encode W (py_block_count p) @ origin_bits
         @ concat (map (uv_encode W) (py_block_tx_counts p)) @ txs)))"

section \<open>Full transactions\<close>

definition tx_data_decode_typed :: "'td wire \<Rightarrow> bytes \<Rightarrow> (op_tx_type \<times> 'td) option" where
  "tx_data_decode_typed W b =
     (if length b \<le> 1 then None
      else case tx_type_of (b ! 0) of
        Some TyEip2930 \<Rightarrow> map_option (Pair TyEip2930) (td_decode W TyEip2930 (drop 1 b))
      | Some TyEip1559 \<Rightarrow> map_option (Pair TyEip1559) (td_decode W TyEip1559 (drop 1 b))
      | Some TyEip7702 \<Rightarrow> map_option (Pair TyEip7702) (td_decode W TyEip7702 (drop 1 b))
      | Some TyEip8130 \<Rightarrow> map_option (Pair TyEip8130) (td_decode W TyEip8130 (drop 1 b))
      | _ \<Rightarrow> None)"

definition tx_data_decode :: "'td wire \<Rightarrow> bytes \<Rightarrow> (op_tx_type \<times> 'td) option" where
  "tx_data_decode W r =
     (if r \<noteq> [] \<and> 0x7F < r ! 0 then map_option (Pair TyLegacy) (td_decode W TyLegacy r)
      else tx_data_decode_typed W r)"

definition to_signed_tx ::
    "'td wire \<Rightarrow> op_tx_type \<Rightarrow> 'td \<Rightarrow> u64 \<Rightarrow> u64 \<Rightarrow> address option \<Rightarrow> u64 \<Rightarrow> signature \<Rightarrow> bool
       \<Rightarrow> (span_batch_error, bytes) outcome" where
  "to_signed_tx W ty d nonce gas dest chain_id sig is_protected =
     (if ty = TyEip7702 \<and> dest = None then Err (Decoding InvalidTransactionData)
      else if ty = TyEip8130 then Err (Decoding InvalidTransactionType)
      else Ok (td_signed W ty d nonce gas dest chain_id sig is_protected))"

text \<open>\<open>xs.get(i).ok_or(InvalidTransactionData)\<close>\<close>

definition column_get :: "'a list \<Rightarrow> nat \<Rightarrow> (span_batch_error, 'a) outcome" where
  "column_get xs i = ok_or (Decoding InvalidTransactionData) (if i < length xs then Some (xs ! i) else None)"

text \<open>One transaction, at \<open>idx\<close>, with the positions in the columns of recipients, protection bits and
  proofs; the result is the encoded transaction and the new positions.\<close>

definition full_tx ::
    "'td wire \<Rightarrow> span_batch_transactions \<Rightarrow> u64 \<Rightarrow> nat \<Rightarrow> nat \<Rightarrow> nat \<Rightarrow> nat
       \<Rightarrow> (span_batch_error, bytes \<times> nat \<times> nat \<times> nat) outcome" where
  "full_tx W t chain_id idx to_idx protected_bit_idx eip8130_idx =
     obind (index (st_tx_data t) idx) (\<lambda>data.
     obind (ok_or (Decoding InvalidTransactionData) (tx_data_decode W data)) (\<lambda>(ty, d).
     obind (column_get (st_tx_nonces t) idx) (\<lambda>nonce.
     obind (column_get (st_tx_gases t) idx) (\<lambda>gas.
     obind (ok_or (Decoding InvalidTransactionData) (get_bit (st_contract_creation_bits t) idx)) (\<lambda>b.
     obind (if b = 0
            then obind (column_get (st_tx_tos t) to_idx) (\<lambda>a. Ok (Some a, to_idx + 1))
            else Ok (None, to_idx)) (\<lambda>(dest, to_idx).
     if ty = TyEip8130
     then obind (column_get (st_eip8130_auth_data t) eip8130_idx) (\<lambda>(sender_proof, payer_proof).
          Ok (td_eip8130 W d chain_id nonce gas sender_proof payer_proof, to_idx, protected_bit_idx, eip8130_idx + 1))
     else obind (column_get (st_tx_sigs t) idx) (\<lambda>sig.
          let (is_protected, protected_bit_idx) =
                (if ty = TyLegacy
                 then (get_bit (st_protected_bits t) protected_bit_idx = Some 1, protected_bit_idx + 1)
                 else (True, protected_bit_idx))
          in obind (to_signed_tx W ty d nonce gas dest chain_id sig is_protected) (\<lambda>tx.
             Ok (tx, to_idx, protected_bit_idx, eip8130_idx)))))))))"

primrec full_txs_from ::
    "nat \<Rightarrow> 'td wire \<Rightarrow> span_batch_transactions \<Rightarrow> u64 \<Rightarrow> nat \<Rightarrow> nat \<Rightarrow> nat \<Rightarrow> nat
       \<Rightarrow> (span_batch_error, bytes list) outcome" where
  "full_txs_from 0 W t chain_id idx to_idx protected_bit_idx eip8130_idx = Ok []"
| "full_txs_from (Suc n) W t chain_id idx to_idx protected_bit_idx eip8130_idx =
     obind (full_tx W t chain_id idx to_idx protected_bit_idx eip8130_idx)
       (\<lambda>(tx, to_idx, protected_bit_idx, eip8130_idx).
     obind (full_txs_from n W t chain_id (idx + 1) to_idx protected_bit_idx eip8130_idx) (\<lambda>txs. Ok (tx # txs)))"

definition full_txs :: "'td wire \<Rightarrow> span_batch_transactions \<Rightarrow> u64 \<Rightarrow> (span_batch_error, bytes list) outcome" where
  "full_txs W t chain_id = full_txs_from (unat (st_total_block_tx_count t)) W t chain_id 0 0 0 0"

section \<open>Raw span batches\<close>

record raw_span_batch =
  rw_prefix :: span_batch_prefix
  rw_payload :: span_batch_payload

definition raw_decode :: "'td wire \<Rightarrow> bytes \<Rightarrow> raw_span_batch parse" where
  "raw_decode W r =
     obind (decode_prefix W r) (\<lambda>(prefix, r).
     obind (decode_payload W r) (\<lambda>(payload, r).
     Ok (\<lparr>rw_prefix = prefix, rw_payload = payload\<rparr>, r)))"

definition raw_encode :: "'td wire \<Rightarrow> raw_span_batch \<Rightarrow> (span_batch_error, bytes) outcome" where
  "raw_encode W b =
     obind (encode_payload W (rw_payload b)) (\<lambda>payload. Ok (encode_prefix W (rw_prefix b) @ payload))"

text \<open>The origins of blocks \<open>n - 1, \<dots>, 0\<close>, counting down from the origin of the last block.\<close>

primrec block_origin_nums :: "nat \<Rightarrow> bytes \<Rightarrow> u64 \<Rightarrow> u64 list \<Rightarrow> (span_batch_error, u64 list) outcome" where
  "block_origin_nums 0 origin_bits l1_origin_number acc = Ok acc"
| "block_origin_nums (Suc i) origin_bits l1_origin_number acc =
     obind (ok_or (Decoding L1OriginCheck) (get_bit origin_bits i)) (\<lambda>b.
     block_origin_nums i origin_bits (if b = 1 \<and> 0 < i then l1_origin_number - 1 else l1_origin_number)
       (l1_origin_number # acc))"

text \<open>Blocks \<open>i, i + 1, \<dots>\<close> with the transactions from \<open>tx_idx\<close> on.\<close>

primrec derive_blocks ::
    "nat \<Rightarrow> nat \<Rightarrow> u64 list \<Rightarrow> u64 list \<Rightarrow> bytes list \<Rightarrow> nat \<Rightarrow> u64 \<Rightarrow> u64
       \<Rightarrow> (span_batch_error, span_batch_element list) outcome" where
  "derive_blocks 0 i origins counts txs tx_idx start block_time = Ok []"
| "derive_blocks (Suc n) i origins counts txs tx_idx start block_time =
     obind (index counts i) (\<lambda>c.
     obind (if c = 0 then Ok [] else slice txs tx_idx (tx_idx + unat c)) (\<lambda>transactions.
     obind (index origins i) (\<lambda>epoch_num.
     obind (derive_blocks n (i + 1) origins counts txs (tx_idx + unat c) start block_time) (\<lambda>es.
     Ok (\<lparr>se_epoch_num = epoch_num, se_timestamp = start + block_time * word_of_nat i,
          se_transactions = transactions\<rparr> # es)))))"

definition raw_derive ::
    "'td wire \<Rightarrow> raw_span_batch \<Rightarrow> u64 \<Rightarrow> u64 \<Rightarrow> u64 \<Rightarrow> (span_batch_error, span_batch) outcome" where
  "raw_derive W b block_time genesis_time chain_id =
     (let payload = rw_payload b; prefix = rw_prefix b; n = unat (py_block_count payload) in
      if py_block_count payload = 0 then Err EmptySpanBatch
      else obind (block_origin_nums n (py_origin_bits payload) (px_l1_origin_num prefix) []) (\<lambda>origins.
           obind (full_txs W (py_txs payload) chain_id) (\<lambda>txs.
           obind (derive_blocks n 0 origins (py_block_tx_counts payload) txs 0
                   (genesis_time + px_rel_timestamp prefix) block_time) (\<lambda>batches.
           Ok \<lparr>sp_parent_check = px_parent_check prefix, sp_l1_origin_check = px_l1_origin_check prefix,
               sp_genesis_timestamp = 0, sp_chain_id = 0, sp_batches = batches, sp_origin_bits = [],
               sp_block_tx_counts = [], sp_txs = txs_default\<rparr>))))"

section \<open>Batches\<close>

datatype batch_decoding_error =
    BatchEmptyBuffer
  | BatchAlloyRlpError string
  | BatchSpanBatchError span_batch_error
  | BatchInvalidType u8

datatype batch_type = SingleType | SpanType

definition batch_type_of :: "u8 \<Rightarrow> (batch_decoding_error, batch_type) outcome" where
  "batch_type_of v = (if v = 0 then Ok SingleType else if v = 1 then Ok SpanType else Err (BatchInvalidType v))"

definition batch_decode :: "'td wire \<Rightarrow> rollup_config \<Rightarrow> bytes \<Rightarrow> (batch_decoding_error, batch) outcome" where
  "batch_decode W cfg r =
     (case r of
        [] \<Rightarrow> Err BatchEmptyBuffer
      | ty # r \<Rightarrow>
          obind (batch_type_of ty) (\<lambda>batch_type.
          case batch_type of
            SingleType \<Rightarrow>
              (case rlp_single W r of Inl e \<Rightarrow> Err (BatchAlloyRlpError e) | Inr (b, _) \<Rightarrow> Ok (Single b))
          | SpanType \<Rightarrow>
              obind (map_err BatchSpanBatchError (raw_decode W r)) (\<lambda>(raw, _).
              obind (map_err BatchSpanBatchError
                  (raw_derive W raw (rc_block_time cfg) (g_l2_time (rc_genesis cfg)) (rc_l2_chain_id cfg)))
                (\<lambda>s. Ok (Span s)))))"

definition span_encode :: "'td wire \<Rightarrow> span_batch \<Rightarrow> (span_batch_error, bytes) outcome" where
  "span_encode W s =
     (if sp_batches s = [] then Err EmptySpanBatch
      else let start = sp_batches s ! 0; end' = sp_batches s ! (length (sp_batches s) - 1) in
        obind (bits_encode (length (sp_batches s)) (sp_origin_bits s)) (\<lambda>origin_bits.
        obind (txs_encode W (sp_txs s)) (\<lambda>txs.
        Ok (encode_prefix W
              \<lparr>px_rel_timestamp = se_timestamp start - sp_genesis_timestamp s,
               px_l1_origin_num = se_epoch_num end', px_parent_check = sp_parent_check s,
               px_l1_origin_check = sp_l1_origin_check s\<rparr>
            @ uv_encode W (word_of_nat (length (sp_batches s))) @ origin_bits
            @ concat (map (uv_encode W) (sp_block_tx_counts s)) @ txs))))"

definition batch_encode :: "'td wire \<Rightarrow> batch \<Rightarrow> (span_batch_error, bytes) outcome" where
  "batch_encode W b =
     (case b of
        Single sb \<Rightarrow> Ok (0 # rlp_single_encode W sb)
      | Span s \<Rightarrow> obind (span_encode W s) (\<lambda>bs. Ok (1 # bs)))"

section \<open>Outcomes that satisfy a condition and never panic\<close>

definition yields :: "('a \<Rightarrow> bool) \<Rightarrow> ('e, 'a) outcome \<Rightarrow> bool" where
  "yields Q m \<longleftrightarrow> (case m of Ok x \<Rightarrow> Q x | Err _ \<Rightarrow> True | Panic \<Rightarrow> False)"

lemma yields_simps [simp]: "yields Q (Ok x) = Q x" "yields Q (Err e)" "\<not> yields Q Panic"
  by (simp_all add: yields_def)

lemma yields_obind: "yields Q m \<Longrightarrow> (\<And>x. Q x \<Longrightarrow> yields R (f x)) \<Longrightarrow> yields R (obind m f)"
  by (cases m) auto

lemma yields_mono: "yields Q m \<Longrightarrow> (\<And>x. Q x \<Longrightarrow> R x) \<Longrightarrow> yields R m"
  by (cases m) auto

lemma yields_ok_or [simp]: "yields Q (ok_or e x) \<longleftrightarrow> (case x of Some y \<Rightarrow> Q y | None \<Rightarrow> True)"
  by (cases x) auto

lemma yields_map_err [simp]: "yields Q (map_err g m) \<longleftrightarrow> yields Q m"
  by (cases m) auto

lemma yields_Ok: "yields Q m \<Longrightarrow> m = Ok x \<Longrightarrow> Q x"
  by simp

section \<open>Bit lists as sets of positions\<close>

definition bit_at :: "bytes \<Rightarrow> nat \<Rightarrow> bool" where
  "bit_at bs i \<longleftrightarrow> i div 8 < length bs \<and> bit (bs ! (length bs - i div 8 - 1)) (i mod 8)"

lemma bit_at_Nil [simp]: "\<not> bit_at [] i"
  by (simp add: bit_at_def)

lemma bit_at_Cons:
  "bit_at (b # bs) i \<longleftrightarrow> (if i div 8 < length bs then bit_at bs i else i div 8 = length bs \<and> bit b (i mod 8))"
  by (auto simp: bit_at_def nth_Cons' less_Suc_eq)

lemma get_bit_eq: "get_bit bs i = (if i div 8 < length bs then Some (of_bool (bit_at bs i)) else None)"
  by (simp add: get_bit_def bit_at_def and_exp_eq_0_iff_not_bit)

lemma bits_buffer_len_covers: "i < n \<Longrightarrow> i div 8 < bits_buffer_len n"
  using div_mult_mod_eq [of n 8] mod_less_divisor [of 8 n]
  by (auto simp: bits_buffer_len_def div_less_iff_less_mult)

lemma bits_buffer_len_Suc: "bits_buffer_len (Suc n) = n div 8 + 1"
  by (simp add: bits_buffer_len_def mod_Suc div_Suc)

text \<open>The most significant bit.\<close>

lemma floorlog_bit: "0 < n \<Longrightarrow> bit n (floorlog 2 n - 1)" for n :: nat
proof -
  assume n: "0 < n"
  let ?k = "floorlog 2 n - 1"
  have "2 ^ ?k \<le> n" "n < 2 ^ Suc ?k"
    using floorlog_bounds [of n 2] n by (auto simp: floorlog_def)
  then have "n div 2 ^ ?k = 1"
    by (simp add: div_nat_eqI)
  then show ?thesis
    by (simp add: bit_iff_odd)
qed

lemma bit_less_floorlog: "bit n k \<Longrightarrow> k < floorlog 2 n" for n :: nat
proof -
  assume b: "bit n k"
  then have n: "0 < n" and "2 ^ k \<le> n"
    by (auto simp: bit_iff_odd intro: ccontr)
  moreover have "n < 2 ^ floorlog 2 n"
    using floorlog_bounds [of n 2] n by simp
  ultimately show ?thesis
    by (meson leI le_less_trans less_irrefl power_increasing one_le_numeral order_less_le_trans)
qed

lemma byte_bit_less: "bit b k \<Longrightarrow> k < floorlog 2 (unat b)" for b :: u8
  by (rule bit_less_floorlog) (auto simp: bit_unsigned_iff dest: bit_imp_le_length)

lemma floorlog_byte: "floorlog 2 (unat (b :: u8)) \<le> 8"
  by (rule floorlog_leI) (use u8_nat_less [of b] in simp_all)

lemma bit_len_Cons: "b \<noteq> 0 \<Longrightarrow> bit_len (b # bs) = floorlog 2 (unat b) + length bs * 8"
  using floorlog_byte [of b] floorlog_bit [of "unat b"] bit_less_floorlog [of "unat b"]
  by (force simp: Let_def leading_zeros_def unat_gt_0)

lemma bit_len_msb: "0 < bit_len bs \<Longrightarrow> bit_at bs (bit_len bs - 1)"
proof (induction bs)
  case (Cons b bs)
  show ?case
  proof (cases "b = 0")
    case False
    let ?k = "floorlog 2 (unat b) - 1"
    have k: "?k < 8" "0 < floorlog 2 (unat b)" "bit b ?k"
      using floorlog_byte [of b] floorlog_bit [of "unat b"] bit_less_floorlog [of "unat b" ?k] False
      by (auto simp: unat_gt_0 bit_unsigned_iff)
    then have "bit_len (b # bs) - 1 = length bs * 8 + ?k"
      by (simp add: bit_len_Cons False del: bit_len.simps)
    moreover have "(length bs * 8 + ?k) div 8 = length bs" "(length bs * 8 + ?k) mod 8 = ?k"
      using k(1) by simp_all
    ultimately show ?thesis
      using k(3) by (simp only: bit_at_Cons) simp
  next
    case True
    with Cons have "bit_at bs (bit_len bs - 1)"
      by simp
    with True show ?thesis
      by (simp add: bit_at_Cons bit_at_def)
  qed
qed simp

lemma bit_at_less: "bit_at bs i \<Longrightarrow> i < bit_len bs"
proof (induction bs)
  case (Cons b bs)
  show ?case
  proof (cases "b = 0")
    case True
    with Cons show ?thesis
      by (simp add: bit_at_Cons split: if_splits)
  next
    case False
    show ?thesis
    proof (cases "i div 8 < length bs")
      case True
      then show ?thesis
        using False by (simp add: bit_len_Cons div_less_iff_less_mult del: bit_len.simps)
    next
      case big: False
      with Cons.prems have "i div 8 = length bs" "bit b (i mod 8)"
        by (auto simp: bit_at_Cons)
      moreover from this have "i mod 8 < floorlog 2 (unat b)"
        by (simp add: byte_bit_less)
      ultimately show ?thesis
        using False div_mult_mod_eq [of i 8] by (simp add: bit_len_Cons del: bit_len.simps)
    qed
  qed
qed simp

lemma bit_len_le: "bit_len bs \<le> n \<longleftrightarrow> (\<forall>i \<ge> n. \<not> bit_at bs i)"
  using bit_len_msb [of bs] bit_at_less [of bs]
  by (metis One_nat_def Suc_pred gr0I le_less_trans less_Suc_eq_le not_less order_less_imp_le zero_le)

lemma bits_decode_spec: "yields (\<lambda>(bits, r). length bits = bits_buffer_len n \<and> bit_len bits \<le> n) (bits_decode b n)"
  by (simp add: bits_decode_def Let_def)

lemma get_bit_in_range: "length bits = bits_buffer_len n \<Longrightarrow> i < n \<Longrightarrow> get_bit bits i = Some (of_bool (bit_at bits i))"
  by (simp add: get_bit_eq bits_buffer_len_covers)

lemma bits_roundtrip:
  assumes "length bits = bits_buffer_len n" "bit_len bits \<le> n"
  shows "bits_encode n bits = Ok bits" "bits_decode (bits @ r) n = Ok (bits, r)"
  using assms by (simp_all add: bits_encode_def bits_decode_def Let_def)

lemma count_ones_le: "count_ones b \<le> floorlog 2 (unat b)"
proof -
  have "filter (bit b) [0..<8] = filter (bit b) (filter (\<lambda>i. i < floorlog 2 (unat b)) [0..<8])"
    by (auto intro!: filter_cong dest: byte_bit_less)
  also have "length \<dots> \<le> length (filter (\<lambda>i. i < floorlog 2 (unat b)) [0..<8])"
    by (rule length_filter_le)
  also have "\<dots> \<le> floorlog 2 (unat b)"
    using distinct_card [of "filter (\<lambda>i. i < floorlog 2 (unat b)) [0..<8]"]
      card_mono [of "{..<floorlog 2 (unat b)}" "set (filter (\<lambda>i. i < floorlog 2 (unat b)) [0..<8])"] by auto
  finally show ?thesis
    by (simp add: count_ones_def)
qed

lemma sum_count_ones_le: "sum_list (map count_ones bs) \<le> bit_len bs"
proof (induction bs)
  case (Cons b bs)
  have bound: "sum_list (map count_ones cs) \<le> length cs * 8" for cs
    by (induction cs) (use count_ones_le floorlog_byte in \<open>auto intro: order_trans add_mono\<close>)
  show ?case
  proof (cases "b = 0")
    case True
    with Cons count_ones_le [of b] show ?thesis
      by (simp add: floorlog_def)
  next
    case False
    then show ?thesis
      using count_ones_le [of b] bound [of bs] by (simp add: bit_len_Cons del: bit_len.simps)
  qed
qed simp

section \<open>Decoding is safe\<close>

lemma read_uv_spec: "yields (\<lambda>_. True) (read_uv W e r)"
  by (simp add: read_uv_def split: option.split)

lemma read_bytes_spec: "yields (\<lambda>(bs, r). length bs = n) (read_bytes n e r)"
  by (simp add: read_bytes_def)

lemma read_sigs_spec:
  "length parity = bits_buffer_len m \<Longrightarrow> i + n \<le> m \<Longrightarrow> yields (\<lambda>(sigs, r). length sigs = n) (read_sigs n i parity r)"
proof (induction n arbitrary: i r)
  case (Suc n)
  from Suc.prems have "get_bit parity i = Some (of_bool (bit_at parity i))"
    by (simp add: get_bit_in_range)
  then show ?case
    using Suc.IH [of "i + 1" "drop 64 r"] Suc.prems by (auto intro: yields_obind)
qed simp

lemma read_uvs_spec: "yields (\<lambda>(vs, r). length vs = n) (read_uvs n W e r)"
  by (induction n arbitrary: r) (auto intro!: yields_obind [OF read_uv_spec] yields_obind)

lemma read_addresses_spec: "yields (\<lambda>(vs, r). length vs = n) (read_addresses n r)"
  by (induction n arbitrary: r) (auto intro!: yields_obind [OF read_bytes_spec] yields_obind)

lemma read_tx_data_spec: "yields (\<lambda>_. True) (read_tx_data W r)"
  by (simp add: read_tx_data_def Let_def split: list.split option.split prod.split)

lemma read_tx_datas_spec: "yields (\<lambda>(ds, r). length ds = n) (read_tx_datas n W r)"
  by (induction n arbitrary: r) (auto intro!: yields_obind [OF read_tx_data_spec] yields_obind)

lemma decode_eip8130_proof_spec: "yields (\<lambda>_. True) (decode_eip8130_proof W r)"
  unfolding decode_eip8130_proof_def
  by (rule yields_obind [OF read_uv_spec]) (auto intro: yields_mono [OF read_bytes_spec])

lemma read_proofs_spec: "yields (\<lambda>(ps, r). length ps = length (filter (\<lambda>ty. ty = TyEip8130) tys)) (read_proofs W tys r)"
proof (induction tys arbitrary: r)
  case (Cons ty tys)
  show ?case
  proof (cases "ty = TyEip8130")
    case True
    have "yields (\<lambda>(ps, r). length ps = length (filter (\<lambda>ty. ty = TyEip8130) (ty # tys)))
        (obind (read_proofs W tys r') (\<lambda>(ps, r). Ok ((s, p) # ps, r)))" for r' s p
      by (rule yields_obind [OF Cons.IH]) (auto simp: True)
    then show ?thesis
      by (auto simp: True intro!: yields_obind [OF decode_eip8130_proof_spec])
  qed (use Cons.IH in simp)
qed simp

text \<open>The shape of decoded columns.\<close>

definition columns_ok :: "span_batch_transactions \<Rightarrow> bool" where
  "columns_ok t \<longleftrightarrow>
     (let n = unat (st_total_block_tx_count t) in
      length (st_contract_creation_bits t) = bits_buffer_len n \<and> bit_len (st_contract_creation_bits t) \<le> n
      \<and> length (st_tx_sigs t) = n \<and> length (st_tx_data t) = n \<and> length (st_tx_types t) = n
      \<and> length (st_tx_nonces t) = n \<and> length (st_tx_gases t) = n
      \<and> length (st_tx_tos t) + sum_list (map count_ones (st_contract_creation_bits t)) = n
      \<and> unat (st_legacy_tx_count t) = length (filter (\<lambda>ty. ty = TyLegacy) (st_tx_types t))
      \<and> length (st_protected_bits t) = bits_buffer_len (unat (st_legacy_tx_count t))
      \<and> bit_len (st_protected_bits t) \<le> unat (st_legacy_tx_count t)
      \<and> length (st_eip8130_auth_data t) = length (filter (\<lambda>ty. ty = TyEip8130) (st_tx_types t)))"

lemma creation_count_bits:
  assumes "bit_len bits \<le> unat (n :: u64)"
  shows "unat (n - sum_list (map (\<lambda>b. word_of_nat (count_ones b)) bits)) + sum_list (map count_ones bits) = unat n"
proof -
  let ?n = "sum_list (map count_ones bits)"
  have "sum_list (map (\<lambda>b. word_of_nat (count_ones b) :: u64) bs) = word_of_nat (sum_list (map count_ones bs))" for bs
    by (induction bs) simp_all
  moreover have le: "?n \<le> unat n"
    using sum_count_ones_le assms by (rule order_trans)
  moreover from le have "unat (word_of_nat ?n :: u64) = ?n"
    using unat_less_pow [of n] by (simp add: unat_of_nat_small)
  ultimately show ?thesis
    by (simp add: unat_sub word_le_nat_alt)
qed

lemma unat_length_filter: "length xs = unat (n :: u64) \<Longrightarrow> unat (word_of_nat (length (filter P xs)) :: u64) = length (filter P xs)"
  using length_filter_le [of P xs] unat_less_pow [of n] by (simp add: unat_of_nat_small)

lemma decode_creation_spec:
  "yields (\<lambda>(t', r). \<exists>bits. t' = t\<lparr>st_contract_creation_bits := bits\<rparr>
       \<and> length bits = bits_buffer_len (unat (st_total_block_tx_count t)) \<and> bit_len bits \<le> unat (st_total_block_tx_count t))
     (decode_contract_creation_bits t r)"
  unfolding decode_contract_creation_bits_def by (auto intro!: yields_obind [OF bits_decode_spec])

lemma decode_sigs_spec:
  "yields (\<lambda>(t', r). \<exists>sigs. t' = t\<lparr>st_tx_sigs := sigs\<rparr> \<and> length sigs = unat (st_total_block_tx_count t))
     (decode_tx_sigs t r)"
  unfolding decode_tx_sigs_def
  by (rule yields_obind [OF bits_decode_spec], clarsimp, rule yields_obind [OF read_sigs_spec]) auto

lemma decode_tos_spec:
  "yields (\<lambda>(t', r). \<exists>tos. t' = t\<lparr>st_tx_tos := tos\<rparr>
       \<and> length tos = unat (st_total_block_tx_count t - contract_creation_count t)) (decode_tx_tos t r)"
  unfolding decode_tx_tos_def by (rule yields_obind [OF read_addresses_spec]) auto

lemma decode_data_spec:
  "yields (\<lambda>(t', r). \<exists>ds. t' = t\<lparr>st_tx_data := map fst ds, st_tx_types := map snd ds,
         st_legacy_tx_count := st_legacy_tx_count t + word_of_nat (length (filter (\<lambda>ty. ty = TyLegacy) (map snd ds)))\<rparr>
       \<and> length ds = unat (st_total_block_tx_count t)) (decode_tx_data W t r)"
  unfolding decode_tx_data_def by (rule yields_obind [OF read_tx_datas_spec]) (auto simp: filter_map o_def)

lemma decode_nonces_spec:
  "yields (\<lambda>(t', r). \<exists>vs. t' = t\<lparr>st_tx_nonces := vs\<rparr> \<and> length vs = unat (st_total_block_tx_count t))
     (decode_tx_nonces W t r)"
  unfolding decode_tx_nonces_def by (rule yields_obind [OF read_uvs_spec]) auto

lemma decode_gases_spec:
  "yields (\<lambda>(t', r). \<exists>vs. t' = t\<lparr>st_tx_gases := vs\<rparr> \<and> length vs = unat (st_total_block_tx_count t))
     (decode_tx_gases W t r)"
  unfolding decode_tx_gases_def by (rule yields_obind [OF read_uvs_spec]) auto

lemma decode_protected_spec:
  "yields (\<lambda>(t', r). \<exists>bits. t' = t\<lparr>st_protected_bits := bits\<rparr>
       \<and> length bits = bits_buffer_len (unat (st_legacy_tx_count t)) \<and> bit_len bits \<le> unat (st_legacy_tx_count t))
     (decode_protected_bits t r)"
  unfolding decode_protected_bits_def by (auto intro!: yields_obind [OF bits_decode_spec])

lemma decode_auth_spec:
  "yields (\<lambda>(t', r). \<exists>ps. t' = t\<lparr>st_eip8130_auth_data := ps\<rparr>
       \<and> length ps = length (filter (\<lambda>ty. ty = TyEip8130) (st_tx_types t))) (decode_eip8130_auth_data W t r)"
  unfolding decode_eip8130_auth_data_def by (rule yields_obind [OF read_proofs_spec]) auto

lemma txs_decode_spec:
  assumes "st_legacy_tx_count t = 0"
  shows "yields (\<lambda>(t', r). columns_ok t' \<and> st_total_block_tx_count t' = st_total_block_tx_count t) (txs_decode W t r)"
  unfolding txs_decode_def
  apply (rule yields_obind [OF decode_creation_spec], clarsimp)
  apply (rule yields_obind [OF decode_sigs_spec], clarsimp)
  apply (rule yields_obind [OF decode_tos_spec], clarsimp)
  apply (rule yields_obind [OF decode_data_spec], clarsimp)
  apply (rule yields_obind [OF decode_nonces_spec], clarsimp)
  apply (rule yields_obind [OF decode_gases_spec], clarsimp)
  apply (rule yields_obind [OF decode_protected_spec], clarsimp)
  apply (rule yields_mono [OF decode_auth_spec])
  apply (auto simp: columns_ok_def Let_def assms contract_creation_count_def creation_count_bits filter_map
      unat_length_filter)
  done

definition payload_ok :: "span_batch_payload \<Rightarrow> bool" where
  "payload_ok p \<longleftrightarrow>
     (let n = unat (py_block_count p) in
      py_block_count p \<noteq> 0 \<and> py_block_count p \<le> MAX_SPAN_BATCH_ELEMENTS
      \<and> length (py_origin_bits p) = bits_buffer_len n \<and> bit_len (py_origin_bits p) \<le> n
      \<and> length (py_block_tx_counts p) = n
      \<and> sum_list (map unat (py_block_tx_counts p)) = unat (st_total_block_tx_count (py_txs p))
      \<and> st_total_block_tx_count (py_txs p) \<le> MAX_SPAN_BATCH_ELEMENTS
      \<and> columns_ok (py_txs p))"

lemma total_count_spec: "yields (\<lambda>t. unat t = unat acc + sum_list (map unat cs)) (total_count acc cs)"
proof (induction acc cs rule: total_count.induct)
  case (2 acc c cs)
  show ?case
  proof (cases "checked_add acc c")
    case (Some a)
    then have "unat a = unat acc + unat c"
      by (simp add: checked_add_Some_iff unat_add_lem [THEN iffD1])
    with 2 [of a] Some show ?thesis
      by (simp add: add.assoc)
  qed simp
qed simp

lemma decode_block_count_spec:
  "yields (\<lambda>(n, r). n \<noteq> 0 \<and> n \<le> MAX_SPAN_BATCH_ELEMENTS) (decode_block_count W r)"
  unfolding decode_block_count_def by (rule yields_obind [OF read_uv_spec]) auto

lemma decode_origin_bits_spec:
  "yields (\<lambda>(bits, r). length bits = bits_buffer_len (unat n) \<and> bit_len bits \<le> unat n) (decode_origin_bits n r)"
  using bits_decode_spec [of "unat n" r] by (simp add: decode_origin_bits_def)

lemma decode_block_tx_counts_spec: "yields (\<lambda>(cs, r). length cs = n) (decode_block_tx_counts n W r)"
proof (induction n arbitrary: r)
  case (Suc n)
  have "yields (\<lambda>(cs, r). length cs = Suc n) (obind (decode_block_tx_counts n W r') (\<lambda>(cs, r). Ok (c # cs, r)))" for r' c
    by (rule yields_obind [OF Suc.IH]) auto
  then show ?case
    by (auto intro!: yields_obind [OF read_uv_spec])
qed simp

lemma decode_txs_spec:
  "yields (\<lambda>(t, r). columns_ok t \<and> unat (st_total_block_tx_count t) = sum_list (map unat cs)
       \<and> st_total_block_tx_count t \<le> MAX_SPAN_BATCH_ELEMENTS) (decode_txs W cs r)"
proof -
  have "yields (\<lambda>(t, r). columns_ok t \<and> unat (st_total_block_tx_count t) = unat total
        \<and> st_total_block_tx_count t \<le> MAX_SPAN_BATCH_ELEMENTS)
      (if MAX_SPAN_BATCH_ELEMENTS < total then Err TooBigSpanBatchSize
       else txs_decode W (txs_default\<lparr>st_total_block_tx_count := total\<rparr>) r)" for total
    using txs_decode_spec [of "txs_default\<lparr>st_total_block_tx_count := total\<rparr>" W r]
    by (auto simp: txs_default_def elim: yields_mono)
  note inner = this
  have "yields (\<lambda>(t, r). columns_ok t \<and> unat (st_total_block_tx_count t) = sum_list (map unat cs)
        \<and> st_total_block_tx_count t \<le> MAX_SPAN_BATCH_ELEMENTS)
      (if MAX_SPAN_BATCH_ELEMENTS < total then Err TooBigSpanBatchSize
       else txs_decode W (txs_default\<lparr>st_total_block_tx_count := total\<rparr>) r)"
    if "unat total = unat (0 :: u64) + sum_list (map unat cs)" for total
    using inner [of total] unfolding that by simp
  then show ?thesis
    unfolding decode_txs_def by (cases "cs = []") (auto intro: yields_obind [OF total_count_spec])
qed

lemma decode_payload_spec: "yields (\<lambda>(p, r). payload_ok p) (decode_payload W r)"
  unfolding decode_payload_def
  apply (rule yields_obind [OF decode_block_count_spec], clarsimp)
  apply (rule yields_obind [OF decode_origin_bits_spec], clarsimp)
  apply (rule yields_obind [OF decode_block_tx_counts_spec], clarsimp)
  apply (rule yields_obind [OF decode_txs_spec])
  apply (auto simp: payload_ok_def Let_def)
  done

lemma decode_prefix_spec: "yields (\<lambda>(p, r). length (px_parent_check p) = 20 \<and> length (px_l1_origin_check p) = 20) (decode_prefix W r)"
  unfolding decode_prefix_def
  apply (rule yields_obind [OF read_uv_spec], clarsimp)
  apply (rule yields_obind [OF read_uv_spec], clarsimp)
  apply (rule yields_obind [OF read_bytes_spec], clarsimp)
  apply (rule yields_obind [OF read_bytes_spec], clarsimp)
  done

lemma raw_decode_spec: "yields (\<lambda>(b, r). payload_ok (rw_payload b)) (raw_decode W r)"
  unfolding raw_decode_def
  apply (rule yields_obind [OF decode_prefix_spec], clarsimp)
  apply (rule yields_obind [OF decode_payload_spec], clarsimp)
  done

section \<open>Derived spans\<close>

lemma full_tx_spec: "idx < length (st_tx_data t) \<Longrightarrow> yields (\<lambda>_. True) (full_tx W t chain_id idx i j k)"
  by (auto simp: full_tx_def column_get_def to_signed_tx_def Let_def obind_def ok_or_def yields_def
      split: outcome.splits option.splits prod.splits if_splits)

lemma full_txs_from_spec:
  "idx + n \<le> length (st_tx_data t) \<Longrightarrow> yields (\<lambda>txs. length txs = n) (full_txs_from n W t chain_id idx i j k)"
proof (induction n arbitrary: idx i j k)
  case (Suc n)
  have "yields (\<lambda>txs. length txs = Suc n)
      (obind (full_txs_from n W t chain_id (idx + 1) i' j' k') (\<lambda>txs. Ok (tx # txs)))" for i' j' k' tx
    using Suc.prems by (intro yields_obind [OF Suc.IH]) auto
  with Suc.prems show ?case
    by (auto intro!: yields_obind [OF full_tx_spec])
qed simp

lemma block_origin_nums_spec:
  assumes "length bits = bits_buffer_len m"
  shows "n \<le> m \<Longrightarrow> \<exists>ns. block_origin_nums n bits l1 acc = Ok (ns @ acc) \<and> length ns = n
    \<and> (0 < n \<longrightarrow> ns ! (n - 1) = l1) \<and> (\<forall>k. Suc k < n \<longrightarrow> ns ! Suc k = ns ! k + of_bool (bit_at bits (Suc k)))"
proof (induction n arbitrary: l1 acc)
  case (Suc i)
  let ?l = "if bit_at bits i \<and> 0 < i then l1 - 1 else l1"
  obtain ns where ns: "block_origin_nums i bits ?l (l1 # acc) = Ok (ns @ l1 # acc)" "length ns = i"
      "0 < i \<longrightarrow> ns ! (i - 1) = ?l" "\<forall>k. Suc k < i \<longrightarrow> ns ! Suc k = ns ! k + of_bool (bit_at bits (Suc k))"
    using Suc.IH [of ?l "l1 # acc"] Suc.prems by auto
  have "block_origin_nums (Suc i) bits l1 acc = Ok ((ns @ [l1]) @ acc)"
    using ns(1) Suc.prems by (simp add: get_bit_in_range [OF assms])
  moreover have "(ns @ [l1]) ! Suc k = (ns @ [l1]) ! k + of_bool (bit_at bits (Suc k))" if "Suc k < Suc i" for k
  proof (cases "Suc k = i")
    case True
    then have "ns ! k = ?l" "i \<noteq> 0" "k = i - 1"
      using ns(3) by auto
    with True ns(2) show ?thesis
      by (auto simp: nth_append)
  next
    case False
    with that ns(2,4) show ?thesis
      by (simp add: nth_append)
  qed
  ultimately show ?case
    using ns(2) by (intro exI [of _ "ns @ [l1]"]) (simp add: nth_append)
qed simp

lemma derive_blocks_spec:
  assumes "length counts = i + n" "length origins = i + n" "tx_idx + sum_list (map unat (drop i counts)) = length txs"
  shows "yields (\<lambda>es. map se_timestamp es = map (\<lambda>k. start + block_time * word_of_nat k) [i..<i + n]
      \<and> map se_epoch_num es = drop i origins \<and> concat (map se_transactions es) = drop tx_idx txs
      \<and> map (\<lambda>e. length (se_transactions e)) es = map unat (drop i counts))
    (derive_blocks n i origins counts txs tx_idx start block_time)"
  using assms
proof (induction n arbitrary: i tx_idx)
  case (Suc n)
  let ?c = "counts ! i"
  have d: "drop i counts = ?c # drop (i + 1) counts" "drop i origins = origins ! i # drop (i + 1) origins"
    using Suc.prems by (simp_all add: Cons_nth_drop_Suc)
  with Suc.prems(3) have fits: "tx_idx + unat ?c + sum_list (map unat (drop (i + 1) counts)) = length txs"
    by simp
  let ?txs = "take (unat ?c) (drop tx_idx txs)"
  have "(if ?c = 0 then Ok [] else slice txs tx_idx (tx_idx + unat ?c)) = (Ok ?txs :: (span_batch_error, _) outcome)"
    using fits by auto
  moreover have "?txs @ drop (tx_idx + unat ?c) txs = drop tx_idx txs"
    by (metis append_take_drop_id drop_drop add.commute)
  moreover have "length ?txs = unat ?c"
    using fits by simp
  ultimately show ?case
    using Suc.prems Suc.IH [of "i + 1" "tx_idx + unat ?c"] fits
    by (auto simp: d upt_rec [of i] intro: yields_obind)
qed simp

text \<open>A span as the decoder makes it: between one and the maximal number of blocks, one block time apart,
  the L1 origin moving by at most one from block to block.\<close>

definition regular_span :: "u64 \<Rightarrow> span_batch \<Rightarrow> bool" where
  "regular_span block_time s \<longleftrightarrow>
     sp_batches s \<noteq> [] \<and> length (sp_batches s) \<le> unat MAX_SPAN_BATCH_ELEMENTS
     \<and> (\<forall>i < length (sp_batches s).
          se_timestamp (sp_batches s ! i) = starting_timestamp s + block_time * word_of_nat i)
     \<and> (\<forall>i. Suc i < length (sp_batches s) \<longrightarrow>
          se_epoch_num (sp_batches s ! Suc i) = se_epoch_num (sp_batches s ! i)
          \<or> se_epoch_num (sp_batches s ! Suc i) = se_epoch_num (sp_batches s ! i) + 1)"

lemma raw_derive_spec:
  assumes "payload_ok (rw_payload b)"
  shows "yields (\<lambda>s. regular_span block_time s
      \<and> se_epoch_num (last (sp_batches s)) = px_l1_origin_num (rw_prefix b)) (raw_derive W b block_time genesis chain_id)"
proof -
  define p and n where "p = rw_payload b" and "n = unat (py_block_count p)"
  have p: "py_block_count p \<noteq> 0" "py_block_count p \<le> MAX_SPAN_BATCH_ELEMENTS"
      "length (py_origin_bits p) = bits_buffer_len n" "length (py_block_tx_counts p) = n"
      "sum_list (map unat (py_block_tx_counts p)) = unat (st_total_block_tx_count (py_txs p))" "columns_ok (py_txs p)"
    using assms by (simp_all add: payload_ok_def Let_def p_def n_def)
  then have n: "0 < n" "n \<le> unat MAX_SPAN_BATCH_ELEMENTS"
    by (simp_all add: n_def unat_gt_0 word_le_nat_alt)
  let ?l1 = "px_l1_origin_num (rw_prefix b)" and ?start = "genesis + px_rel_timestamp (rw_prefix b)"
  obtain ns where ns: "block_origin_nums n (py_origin_bits p) ?l1 [] = Ok ns" "length ns = n" "ns ! (n - 1) = ?l1"
      "\<And>k. Suc k < n \<Longrightarrow> ns ! Suc k = ns ! k + of_bool (bit_at (py_origin_bits p) (Suc k))"
    using block_origin_nums_spec [OF p(3) order_refl, of ?l1 "[]"] n(1) by auto
  have txs: "yields (\<lambda>txs. length txs = sum_list (map unat (py_block_tx_counts p))) (full_txs W (py_txs p) chain_id)"
    using p(6) unfolding full_txs_def p(5) by (intro full_txs_from_spec) (simp add: columns_ok_def Let_def)
  have last: "se_epoch_num (last es) = ?l1" if "map se_epoch_num es = ns" for es
  proof -
    from that ns(2) n(1) have "es \<noteq> []" "length es = n"
      by auto
    with that ns(3) show ?thesis
      by (metis diff_less last_conv_nth n(1) nth_map zero_less_one)
  qed
  have "regular_span block_time s"
    if "map se_timestamp (sp_batches s) = map (\<lambda>k. ?start + block_time * word_of_nat k) [0..<n]"
      "map se_epoch_num (sp_batches s) = ns" for s
  proof -
    have l: "length (sp_batches s) = n"
      using arg_cong [OF that(2), of length] ns(2) by simp
    have ts: "se_timestamp (sp_batches s ! k) = ?start + block_time * word_of_nat k"
      and ep: "se_epoch_num (sp_batches s ! k) = ns ! k" if "k < n" for k
      using arg_cong [OF \<open>map se_timestamp (sp_batches s) = _\<close>, of "\<lambda>xs. xs ! k"]
        arg_cong [OF \<open>map se_epoch_num (sp_batches s) = _\<close>, of "\<lambda>xs. xs ! k"] that l by simp_all
    have "sp_batches s \<noteq> []"
      using l n(1) by auto
    then show ?thesis
      using l n ts ep ns(4) by (auto simp: regular_span_def starting_timestamp_def)
  qed
  then show ?thesis
    unfolding raw_derive_def Let_def p_def [symmetric] n_def [symmetric]
    using p(1,4) ns(1,2)
    by (auto intro!: yields_obind [OF txs] yields_obind [OF derive_blocks_spec] last)
qed

lemma batch_decode_spec:
  "yields (\<lambda>b. case b of Single _ \<Rightarrow> True | Span s \<Rightarrow> regular_span (rc_block_time cfg) s) (batch_decode W cfg r)"
proof -
  have raw: "yields (\<lambda>(b, r). payload_ok (rw_payload b)) (map_err BatchSpanBatchError (raw_decode W r'))" for r'
    using raw_decode_spec by simp
  have der: "yields (regular_span (rc_block_time cfg)) (map_err BatchSpanBatchError
      (raw_derive W b (rc_block_time cfg) genesis chain))" if "payload_ok (rw_payload b)" for b genesis chain
    by (auto intro: yields_mono [OF raw_derive_spec [OF that]])
  show ?thesis
    unfolding batch_decode_def batch_type_of_def
    by (auto split: list.split sum.split intro!: yields_obind [OF raw] yields_obind [OF der])
qed

section \<open>Setting bits\<close>

lemma bit_at_zero_Cons: "bit_at (0 # bs) i = bit_at bs i"
  by (simp add: bit_at_Cons) (simp add: bit_at_def)

lemma bit_at_append_zeros: "bit_at (replicate k 0 @ bs) i = bit_at bs i"
  by (induction k) (simp_all add: bit_at_zero_Cons)

lemma bit_at_resize: "length bs \<le> n \<Longrightarrow> bit_at (resize_from_right bs n) i = bit_at bs i"
  by (auto simp: resize_from_right_def bit_at_append_zeros)

lemma bit_at_update:
  assumes "i div 8 < length bs"
  shows "bit_at (bs[length bs - i div 8 - 1 := x]) j =
    (if j div 8 = i div 8 then bit x (j mod 8) else bit_at bs j)"
  using assms by (auto simp: bit_at_def nth_list_update)

lemma bit_mask:
  fixes b :: u8
  assumes "m < 8"
  shows "bit (b OR push_bit k 1) m = (m = k \<or> bit b m)" "bit (b AND NOT (push_bit k 1)) m = (m \<noteq> k \<and> bit b m)"
  using assms by (auto simp: bit_simps)

lemma bit_at_set: "bit_at (set_bit_at bits i v) j = (if j = i then v else bit_at bits j)"
proof -
  define bs where "bs = (if length bits \<le> i div 8 then resize_from_right bits (i div 8 + 1) else bits)"
  have bs: "i div 8 < length bs" "bit_at bs k = bit_at bits k" for k
    by (auto simp: bs_def bit_at_resize) (simp add: resize_from_right_def)
  have same: "j = i" if "j div 8 = i div 8" "j mod 8 = i mod 8"
    using that by (metis div_mult_mod_eq)
  have "bit_at (set_bit_at bits i v) j = (if j div 8 = i div 8
      then (if j mod 8 = i mod 8 then v else bit (bs ! (length bs - i div 8 - 1)) (j mod 8)) else bit_at bs j)"
    unfolding set_bit_at_def bs_def [symmetric] Let_def bit_at_update [OF bs(1)]
    by (cases v) (simp_all only: if_True if_False bit_mask [OF mod_less_divisor] zero_less_numeral, auto)
  moreover have "bit (bs ! (length bs - i div 8 - 1)) (j mod 8) = bit_at bs j" if "j div 8 = i div 8"
    using that bs(1) by (simp add: bit_at_def)
  ultimately show ?thesis
    using same unfolding bs(2) by (cases "j = i") auto
qed

lemma length_set_bit_at: "length (set_bit_at bits i v) = max (length bits) (i div 8 + 1)"
  by (auto simp: set_bit_at_def Let_def resize_from_right_def)

lemma parity_bits_spec:
  assumes "length bits = bits_buffer_len i" "\<And>j. i \<le> j \<Longrightarrow> \<not> bit_at bits j"
  shows "length (parity_bits i sigs bits) = bits_buffer_len (i + length sigs)
    \<and> (\<forall>j. bit_at (parity_bits i sigs bits) j =
        (if j < i then bit_at bits j else j - i < length sigs \<and> sig_y_parity (sigs ! (j - i))))"
  using assms
proof (induction i sigs bits rule: parity_bits.induct)
  case (2 i s sigs bits)
  have "length (set_bit_at bits i (sig_y_parity s)) = bits_buffer_len (i + 1)"
    using 2(2) by (auto simp: length_set_bit_at bits_buffer_len_def mod_Suc div_Suc)
  moreover have "\<not> bit_at (set_bit_at bits i (sig_y_parity s)) j" if "i + 1 \<le> j" for j
    using 2(3) [of j] that by (simp add: bit_at_set)
  ultimately show ?case
    using 2(1) by (auto simp: bit_at_set nth_Cons' less_Suc_eq)
qed auto

lemma parity_roundtrip:
  fixes sigs :: "signature list"
  defines "bits \<equiv> parity_bits 0 sigs []"
  shows "length bits = bits_buffer_len (length sigs)" "bit_len bits \<le> length sigs"
    "i < length sigs \<Longrightarrow> get_bit bits i = Some (of_bool (sig_y_parity (sigs ! i)))"
proof -
  have p: "length bits = bits_buffer_len (length sigs)"
      "bit_at bits j = (j < length sigs \<and> sig_y_parity (sigs ! j))" for j
    using parity_bits_spec [of "[]" 0 sigs] by (auto simp: bits_def bits_buffer_len_def)
  then show "length bits = bits_buffer_len (length sigs)" "bit_len bits \<le> length sigs"
    by (auto simp: bit_len_le)
  show "get_bit bits i = Some (of_bool (sig_y_parity (sigs ! i)))" if "i < length sigs"
    using get_bit_in_range [OF p(1) that] p(2) that by simp
qed

section \<open>Round trip\<close>

text \<open>The documented law of the variable-length integers: decoding reads back what was encoded and leaves
  the rest of the input.\<close>

locale varint_wire =
  fixes W :: "'td wire"
  assumes uv_law: "uv_decode W (uv_encode W n @ r) = Some (n, r)"
begin

lemma read_uv_back: "read_uv W e (uv_encode W n @ r) = Ok (n, r)"
  by (simp add: read_uv_def uv_law)

lemma read_uvs_back: "read_uvs (length vs) W e (concat (map (uv_encode W) vs) @ r) = Ok (vs, r)"
  by (induction vs) (simp_all add: read_uv_back)

lemma counts_back:
  "\<forall>c \<in> set cs. c \<le> MAX_SPAN_BATCH_ELEMENTS \<Longrightarrow>
     decode_block_tx_counts (length cs) W (concat (map (uv_encode W) cs) @ r) = Ok (cs, r)"
  by (induction cs) (simp_all add: read_uv_back not_less)

lemma proof_back:
  assumes "length p \<le> unat MAX_AUTH_PROOF_BYTES"
  shows "decode_eip8130_proof W (encode_proof W p @ r) = Ok (p, r)"
proof -
  have "unat (word_of_nat (length p) :: u64) = length p"
    using assms by (simp add: MAX_AUTH_PROOF_BYTES_def unat_of_nat_small)
  with assms show ?thesis
    by (simp add: decode_eip8130_proof_def encode_proof_def read_uv_back read_bytes_def word_less_nat_alt)
qed

lemma proofs_back:
  assumes "length ps = length (filter (\<lambda>ty. ty = TyEip8130) tys)"
    and "\<forall>(s, p) \<in> set ps. length s \<le> unat MAX_AUTH_PROOF_BYTES \<and> length p \<le> unat MAX_AUTH_PROOF_BYTES"
  shows "read_proofs W tys (concat (map (\<lambda>(s, p). encode_proof W s @ encode_proof W p) ps) @ r) = Ok (ps, r)"
  using assms
proof (induction tys arbitrary: ps)
  case (Cons ty tys)
  show ?case
  proof (cases "ty = TyEip8130")
    case True
    with Cons show ?thesis
      by (cases ps) (auto simp: proof_back)
  next
    case False
    with Cons show ?thesis
      by simp
  qed
qed simp

lemma prefix_back:
  assumes "length (px_parent_check p) = 20" "length (px_l1_origin_check p) = 20"
  shows "decode_prefix W (encode_prefix W p @ r) = Ok (p, r)"
  using assms by (simp add: decode_prefix_def encode_prefix_def read_uv_back read_bytes_def)

end

lemma addresses_back: "read_addresses (length tos) (concat (map (\<lambda>a. nat_to_be 20 (unat a)) tos) @ r) = Ok (tos, r)"
proof (induction tos)
  case (Cons a tos)
  have "unat a mod 256 ^ 20 = unat a"
    using unat_less_pow [of a] by simp
  then have "word_of_nat (nat_from_be (nat_to_be 20 (unat a))) = a"
    by (simp only: nat_from_to_be) simp
  with Cons show ?case
    by (simp add: read_bytes_def)
qed simp

lemma sigs_back:
  assumes "\<forall>k < length sigs. get_bit parity (i + k) = Some (of_bool (sig_y_parity (sigs ! k)))"
  shows "read_sigs (length sigs) i parity
      (concat (map (\<lambda>s. nat_to_be 32 (unat (sig_r s)) @ nat_to_be 32 (unat (sig_s s))) sigs) @ r) = Ok (sigs, r)"
  using assms
proof (induction sigs arbitrary: i)
  case (Cons s sigs)
  have "unat a mod 256 ^ 32 = unat a" for a :: b256
    using unat_less_pow [of a] by simp
  then have word: "word_of_nat (nat_from_be (nat_to_be 32 (unat a))) = a" for a :: b256
    by (simp only: nat_from_to_be) simp
  have "get_bit parity i = Some (of_bool (sig_y_parity s))"
    using Cons.prems by force
  moreover have "\<forall>k < length sigs. get_bit parity (i + 1 + k) = Some (of_bool (sig_y_parity (sigs ! k)))"
    using Cons.prems by force
  ultimately show ?case
    using Cons.IH [of "i + 1"] by (simp add: word)
qed simp

text \<open>Transaction data that delimits itself, as the encodings of transactions do.\<close>

definition delimited :: "'td wire \<Rightarrow> bytes \<times> op_tx_type \<Rightarrow> bool" where
  "delimited W d \<longleftrightarrow> (\<forall>r. read_tx_data W (fst d @ r) = Ok (d, r))"

lemma tx_datas_back:
  "\<forall>d \<in> set ds. delimited W d \<Longrightarrow> read_tx_datas (length ds) W (concat (map fst ds) @ r) = Ok (ds, r)"
  by (induction ds) (simp_all add: delimited_def)

text \<open>Span batches that can be sent.\<close>

definition raw_wf :: "'td wire \<Rightarrow> raw_span_batch \<Rightarrow> bool" where
  "raw_wf W b \<longleftrightarrow>
     length (px_parent_check (rw_prefix b)) = 20 \<and> length (px_l1_origin_check (rw_prefix b)) = 20
     \<and> payload_ok (rw_payload b)
     \<and> (\<forall>c \<in> set (py_block_tx_counts (rw_payload b)). c \<le> MAX_SPAN_BATCH_ELEMENTS)
     \<and> (let t = py_txs (rw_payload b) in
          (\<forall>d \<in> set (zip (st_tx_data t) (st_tx_types t)). delimited W d)
          \<and> (\<forall>(s, p) \<in> set (st_eip8130_auth_data t).
               length s \<le> unat MAX_AUTH_PROOF_BYTES \<and> length p \<le> unat MAX_AUTH_PROOF_BYTES))"

lemma total_count_Ok:
  assumes "unat acc + sum_list (map unat cs) = unat (t :: u64)"
  shows "total_count acc cs = Ok t"
  using assms
proof (induction cs arbitrary: acc)
  case Nil
  then show ?case
    by (simp add: word_unat_eq_iff)
next
  case (Cons c cs)
  then have fits: "unat acc + unat c < 2 ^ 64"
    using unat_less_pow [of t] by simp
  moreover from fits have "unat (acc + c) = unat acc + unat c"
    using unat_add_lem [of acc c] by simp
  ultimately show ?case
    using Cons by (simp add: checked_add_def)
qed

context varint_wire
begin

lemma txs_back:
  fixes t :: span_batch_transactions
  assumes ok: "columns_ok t" and small: "st_total_block_tx_count t \<le> MAX_SPAN_BATCH_ELEMENTS"
    and items: "\<forall>d \<in> set (zip (st_tx_data t) (st_tx_types t)). delimited W d"
    and proofs: "\<forall>(s, p) \<in> set (st_eip8130_auth_data t).
      length s \<le> unat MAX_AUTH_PROOF_BYTES \<and> length p \<le> unat MAX_AUTH_PROOF_BYTES"
  shows "\<exists>bs. txs_encode W t = Ok bs
    \<and> (\<forall>r. txs_decode W (txs_default\<lparr>st_total_block_tx_count := st_total_block_tx_count t\<rparr>) (bs @ r) = Ok (t, r))"
proof -
  let ?n = "unat (st_total_block_tx_count t)" and ?leg = "unat (st_legacy_tx_count t)"
    and ?par = "parity_bits 0 (st_tx_sigs t) []"
  note c = ok [unfolded columns_ok_def Let_def]
  have bits: "bits_encode ?n (st_contract_creation_bits t) = Ok (st_contract_creation_bits t)"
    "bits_encode ?n ?par = Ok ?par" "bits_encode ?leg (st_protected_bits t) = Ok (st_protected_bits t)"
    "bits_decode (st_contract_creation_bits t @ r') ?n = Ok (st_contract_creation_bits t, r')"
    "bits_decode (?par @ r') ?n = Ok (?par, r')"
    "bits_decode (st_protected_bits t @ r') ?leg = Ok (st_protected_bits t, r')" for r'
    using c parity_roundtrip(1,2) [where sigs = "st_tx_sigs t"] by (simp_all add: bits_roundtrip)
  have "?leg \<le> ?n"
    using c length_filter_le [of "\<lambda>ty. ty = TyLegacy" "st_tx_types t"] by simp
  with small have leg: "\<not> MAX_SPAN_BATCH_ELEMENTS < st_legacy_tx_count t"
    by (simp add: word_less_nat_alt word_le_nat_alt)
  have sigs: "read_sigs ?n 0 ?par
      (concat (map (\<lambda>s. nat_to_be 32 (unat (sig_r s)) @ nat_to_be 32 (unat (sig_s s))) (st_tx_sigs t)) @ r')
      = Ok (st_tx_sigs t, r')" for r'
    using sigs_back [of "st_tx_sigs t" ?par 0 r'] parity_roundtrip(3) [where sigs = "st_tx_sigs t"] c by simp
  have tos: "read_addresses (unat (st_total_block_tx_count t
        - sum_list (map (\<lambda>b. word_of_nat (count_ones b)) (st_contract_creation_bits t))))
      (concat (map (\<lambda>a. nat_to_be 20 (unat a)) (st_tx_tos t)) @ r') = Ok (st_tx_tos t, r')" for r'
  proof -
    have "unat (st_total_block_tx_count t - sum_list (map (\<lambda>b. word_of_nat (count_ones b)) (st_contract_creation_bits t)))
        = length (st_tx_tos t)"
      using creation_count_bits [of "st_contract_creation_bits t" "st_total_block_tx_count t"] c by linarith
    then show ?thesis
      by (simp add: addresses_back)
  qed
  have data: "read_tx_datas ?n W (concat (st_tx_data t) @ r') = Ok (zip (st_tx_data t) (st_tx_types t), r')" for r'
    using tx_datas_back [OF items, of r'] c by simp
  have types: "map fst (zip (st_tx_data t) (st_tx_types t)) = st_tx_data t"
      "map snd (zip (st_tx_data t) (st_tx_types t)) = st_tx_types t"
    using c by simp_all
  have "length (filter (\<lambda>d. snd d = TyLegacy) (zip (st_tx_data t) (st_tx_types t)))
      = length (filter (\<lambda>ty. ty = TyLegacy) (map snd (zip (st_tx_data t) (st_tx_types t))))"
    by (simp only: filter_map length_map o_def)
  then have legacy: "word_of_nat (length (filter (\<lambda>d. snd d = TyLegacy) (zip (st_tx_data t) (st_tx_types t))))
      = st_legacy_tx_count t"
    unfolding types using c by (metis unsigned_of_nat of_nat_unat word_unat_eq_iff unat_length_filter)
  have uvs: "read_uvs ?n W e (concat (map (uv_encode W) (st_tx_nonces t)) @ r') = Ok (st_tx_nonces t, r')"
      "read_uvs ?n W e (concat (map (uv_encode W) (st_tx_gases t)) @ r') = Ok (st_tx_gases t, r')" for e r'
    using read_uvs_back [of "st_tx_nonces t" e r'] read_uvs_back [of "st_tx_gases t" e r'] c by simp_all
  have auth: "read_proofs W (st_tx_types t)
      (concat (map (\<lambda>(s, p). encode_proof W s @ encode_proof W p) (st_eip8130_auth_data t)) @ r')
      = Ok (st_eip8130_auth_data t, r')" for r'
    using proofs_back [OF _ proofs] c by blast
  note readback = bits leg sigs tos data types legacy uvs auth
  show ?thesis
    using small
    by (simp add: txs_encode_def encode_tx_sigs_def readback txs_decode_def decode_contract_creation_bits_def
        decode_tx_sigs_def decode_tx_tos_def contract_creation_count_def decode_tx_data_def decode_tx_nonces_def
        decode_tx_gases_def decode_protected_bits_def decode_eip8130_auth_data_def txs_default_def not_less)
qed

lemma raw_back:
  assumes "raw_wf W b"
  shows "\<exists>bs. raw_encode W b = Ok bs \<and> (\<forall>r. raw_decode W (bs @ r) = Ok (b, r))"
proof -
  let ?p = "rw_payload b"
  have wf: "length (px_parent_check (rw_prefix b)) = 20" "length (px_l1_origin_check (rw_prefix b)) = 20"
      "\<forall>c \<in> set (py_block_tx_counts ?p). c \<le> MAX_SPAN_BATCH_ELEMENTS"
      "\<forall>d \<in> set (zip (st_tx_data (py_txs ?p)) (st_tx_types (py_txs ?p))). delimited W d"
      "\<forall>(s, p) \<in> set (st_eip8130_auth_data (py_txs ?p)).
        length s \<le> unat MAX_AUTH_PROOF_BYTES \<and> length p \<le> unat MAX_AUTH_PROOF_BYTES"
    using assms by (simp_all add: raw_wf_def Let_def)
  have p: "py_block_count ?p \<noteq> 0" "py_block_count ?p \<le> MAX_SPAN_BATCH_ELEMENTS"
      "length (py_origin_bits ?p) = bits_buffer_len (unat (py_block_count ?p))"
      "bit_len (py_origin_bits ?p) \<le> unat (py_block_count ?p)"
      "length (py_block_tx_counts ?p) = unat (py_block_count ?p)"
      "sum_list (map unat (py_block_tx_counts ?p)) = unat (st_total_block_tx_count (py_txs ?p))"
      "st_total_block_tx_count (py_txs ?p) \<le> MAX_SPAN_BATCH_ELEMENTS" "columns_ok (py_txs ?p)"
    using assms by (simp_all add: raw_wf_def payload_ok_def Let_def)
  obtain txs where txs: "txs_encode W (py_txs ?p) = Ok txs"
      "\<And>r. txs_decode W (txs_default\<lparr>st_total_block_tx_count := st_total_block_tx_count (py_txs ?p)\<rparr>) (txs @ r)
        = Ok (py_txs ?p, r)"
    using txs_back [OF p(8,7) wf(4,5)] by blast
  have "py_block_tx_counts ?p \<noteq> []"
    using p(1,5) by (auto simp: unat_eq_0)
  moreover have "total_count 0 (py_block_tx_counts ?p) = Ok (st_total_block_tx_count (py_txs ?p))"
    by (rule total_count_Ok) (simp add: p(6))
  ultimately have payload: "decode_payload W (uv_encode W (py_block_count ?p) @ py_origin_bits ?p
      @ concat (map (uv_encode W) (py_block_tx_counts ?p)) @ txs @ r) = Ok (?p, r)" for r
    using p(1,2,5,7) counts_back [OF wf(3)] txs(2)
    by (simp add: decode_payload_def decode_block_count_def read_uv_back decode_origin_bits_def
        bits_roundtrip(2) [OF p(3,4)] decode_txs_def not_less)
  show ?thesis
    using payload
    by (simp add: raw_encode_def raw_decode_def encode_payload_def txs(1) bits_roundtrip(1) [OF p(3,4)]
        prefix_back [OF wf(1,2)])
qed

end

text \<open>The reference encoding of variable-length integers: seven bits a byte, least significant first.\<close>

function leb_encode :: "nat \<Rightarrow> bytes" where
  "leb_encode n = (if n < 128 then [word_of_nat n] else word_of_nat (n mod 128 + 128) # leb_encode (n div 128))"
  by auto
termination by (relation "measure id") auto

fun leb_decode :: "bytes \<Rightarrow> (nat \<times> bytes) option" where
  "leb_decode [] = None"
| "leb_decode (b # bs) =
     (if b < 128 then Some (unat b, bs)
      else case leb_decode bs of None \<Rightarrow> None | Some (n, r) \<Rightarrow> Some (unat b - 128 + 128 * n, r))"

declare leb_encode.simps [simp del]

lemma leb_roundtrip: "leb_decode (leb_encode n @ r) = Some (n, r)"
proof (induction n rule: leb_encode.induct)
  case (1 n)
  show ?case
  proof (cases "n < 128")
    case True
    then show ?thesis
      by (subst leb_encode.simps) (simp add: word_less_nat_alt)
  next
    case False
    moreover have "(n mod 128 + 128) mod 256 = n mod 128 + 128"
      by simp
    ultimately show ?thesis
      using 1 by (subst leb_encode.simps) (simp add: word_less_nat_alt del: of_nat_add)
  qed
qed

definition leb_wire :: "unit wire" where
  "leb_wire =
     \<lparr>uv_decode = (\<lambda>r. map_option (\<lambda>(n, r). (word_of_nat n, r)) (leb_decode r)),
      uv_encode = (\<lambda>n. leb_encode (unat n)),
      rlp_header = (\<lambda>r. case r of [] \<Rightarrow> None
         | b # _ \<Rightarrow> if 0xC0 \<le> b \<and> b \<le> 0xF7 then Some (True, unat b - 0xC0, 1) else None),
      rlp_single = (\<lambda>_. Inl []), rlp_single_encode = (\<lambda>_. []),
      td_decode = (\<lambda>_ _. Some ()), td_signed = (\<lambda>_ _ _ _ _ _ _ _. [1]), td_eip8130 = (\<lambda>_ _ _ _ _ _. [1])\<rparr>"

interpretation leb: varint_wire leb_wire
  by unfold_locales (simp add: leb_wire_def leb_roundtrip)

text \<open>A span of one block with one legacy transaction.\<close>

definition one_tx_columns :: span_batch_transactions where
  "one_tx_columns =
     \<lparr>st_total_block_tx_count = 1, st_contract_creation_bits = [1],
      st_tx_sigs = [\<lparr>sig_r = 5, sig_s = 6, sig_y_parity = True\<rparr>], st_tx_nonces = [300], st_tx_gases = [21000],
      st_tx_tos = [], st_tx_data = [[0xC1, 7]], st_protected_bits = [1], st_tx_types = [TyLegacy],
      st_legacy_tx_count = 1, st_eip8130_auth_data = []\<rparr>"

definition one_tx_span :: raw_span_batch where
  "one_tx_span =
     \<lparr>rw_prefix = \<lparr>px_rel_timestamp = 2, px_l1_origin_num = 9, px_parent_check = replicate 20 1,
        px_l1_origin_check = replicate 20 2\<rparr>,
      rw_payload = \<lparr>py_block_count = 1, py_origin_bits = [1], py_block_tx_counts = [1], py_txs = one_tx_columns\<rparr>\<rparr>"

lemma one_tx_span_wf: "raw_wf leb_wire one_tx_span"
proof -
  have b: "leading_zeros 1 = 7" "bits_buffer_len (Suc 0) = 1" "count_ones 1 = 1"
    by code_simp+
  have "columns_ok one_tx_columns"
    by (simp add: columns_ok_def one_tx_columns_def b)
  moreover have "delimited leb_wire ([0xC1, 7], TyLegacy)"
    by (simp add: delimited_def read_tx_data_def leb_wire_def tx_type_of_def MAX_SPAN_BATCH_ELEMENTS_def)
  ultimately show ?thesis
    by (simp add: raw_wf_def payload_ok_def one_tx_span_def b)
       (simp add: one_tx_columns_def MAX_SPAN_BATCH_ELEMENTS_def)
qed

section \<open>Properties\<close>

text \<open>C29. Decoding a batch is safe on every input: whatever bytes a channel holds, the decoder returns a
  batch or an error and never indexes out of range; a span batch it returns has between one and the
  maximal number of blocks, exactly one block time apart, with L1 origins that move by at most one
  from block to block.\<close>

theorem batch_decoding_safe:
  "case batch_decode W cfg r of
     Ok (Span s) \<Rightarrow> regular_span (rc_block_time cfg) s
   | Ok (Single _) \<Rightarrow> True
   | Err _ \<Rightarrow> True
   | Panic \<Rightarrow> False"
  using batch_decode_spec [of cfg W r] by (auto simp: yields_def split: outcome.splits batch.splits)

text \<open>What the decoder of raw span batches returns is well-formed: one bit per block in the bit list of
  origins, one transaction count per block adding up to the number of transactions, and columns of
  transaction fields whose lengths agree with it.\<close>

lemma decoded_span_well_formed:
  "case raw_decode W r of Ok (b, _) \<Rightarrow> payload_ok (rw_payload b) | Err _ \<Rightarrow> True | Panic \<Rightarrow> False"
  using raw_decode_spec [of W r] by (auto simp: yields_def split: outcome.splits)

text \<open>C11. The wire format of span batches is lossless: over a variable-length integer codec that reads back
  what it writes, every well-formed raw span batch encodes, and decoding the encoding gives the same
  batch, block counts, bit lists and all transaction columns included, and leaves the rest of the
  input.\<close>

theorem span_wire_roundtrip:
  assumes "\<forall>n r. uv_decode W (uv_encode W n @ r) = Some (n, r)" "raw_wf W b"
  shows "\<exists>bs. raw_encode W b = Ok bs \<and> (\<forall>r. raw_decode W (bs @ r) = Ok (b, r))"
  using varint_wire.raw_back [of W b] assms by (simp add: varint_wire_def)

theorem span_wire_roundtrip_witness:
  "\<exists>bs. raw_encode leb_wire one_tx_span = Ok bs \<and> (\<forall>r. raw_decode leb_wire (bs @ r) = Ok (one_tx_span, r))"
  using span_wire_roundtrip [of leb_wire one_tx_span] leb.uv_law one_tx_span_wf by blast

end
