(* ===== verification/Query_Stages.thy ===== *)
theory Query_Stages
  imports Batch_Codec
begin

text \<open>
  The later stages of the derivation pipeline are asked for an item on top of a given safe head, so
  their traits (traits/attributes.rs, traits/stages.rs and stages/batch/mod.rs of
  crates/consensus/derive/src) take an argument: \<open>query_stage\<close> is the record of operations of such a
  stage.  \<open>batch_source\<close>, \<open>batch_ops\<close> and \<open>provider_ops\<close> add the operations that single stages have
  besides.  The contracts on these records are locales of the theories that implement them.
\<close>

section \<open>Stages with an argument\<close>

record ('p, 'q, 'd) query_stage =
  qs_next :: "'q \<Rightarrow> ('p, 'd) action"
  qs_origin :: "'p \<Rightarrow> block_info option"
  qs_advance :: "('p, unit) action"
  qs_reset :: "block_num_hash \<Rightarrow> system_config \<Rightarrow> ('p, unit) action"
  qs_activate :: "('p, unit) action"
  qs_flush :: "('p, unit) action"

text \<open>Between the fields of a record that holds its predecessor.\<close>

lemma safe_on_prev:
  assumes "safe_action good act" "\<And>s. wrap s \<Longrightarrow> good (get s)"
    "\<And>s p. wrap s \<Longrightarrow> good p \<Longrightarrow> wrap (upd (\<lambda>_. p) s)"
  shows "safe_action wrap (on_prev get upd act)"
  using assms by (auto simp: safe_action_def)

lemma keeps_on_prev:
  assumes "keeps good view act" "\<And>s. wrap s \<Longrightarrow> good (get s)" "\<And>s. wview s = view (get s)"
    "\<And>s p. get (upd (\<lambda>_. p) s) = p"
  shows "keeps wrap wview (on_prev get upd act)"
  using assms by (auto simp: keeps_def)

text \<open>An action that ends by changing the state alone.\<close>

definition amodify :: "('s \<Rightarrow> 's) \<Rightarrow> unit \<Rightarrow> ('s, unit) action" where
  "amodify f u s = (Ok (), f s)"

lemma safe_amodify: "(\<And>s. good s \<Longrightarrow> good (f s)) \<Longrightarrow> safe_action good (amodify f u)"
  by (simp add: safe_action_def amodify_def)

lemma keeps_amodify: "(\<And>s. view (f s) = view s) \<Longrightarrow> keeps good view (amodify f u)"
  by (simp add: keeps_def amodify_def)

text \<open>An action whose results, when it succeeds, all satisfy a predicate.\<close>

definition gives :: "('p \<Rightarrow> bool) \<Rightarrow> ('d \<Rightarrow> bool) \<Rightarrow> ('p, 'd) action \<Rightarrow> bool" where
  "gives good Q act \<longleftrightarrow> (\<forall>p x. good p \<longrightarrow> fst (act p) = Ok x \<longrightarrow> Q x)"

lemma givesI: "(\<And>p x. good p \<Longrightarrow> fst (act p) = Ok x \<Longrightarrow> Q x) \<Longrightarrow> gives good Q act"
  by (simp add: gives_def)

lemma givesD: "gives good Q act \<Longrightarrow> good p \<Longrightarrow> act p = (Ok x, p') \<Longrightarrow> Q x"
  by (simp add: gives_def)

text \<open>A sequence of queries.\<close>

primrec run_queries :: "'q list \<Rightarrow> ('q \<Rightarrow> ('s, 'a) action) \<Rightarrow> 's \<Rightarrow> 'a presult list \<times> 's" where
  "run_queries [] act s = ([], s)"
| "run_queries (q # qs) act s =
     (let (r, s1) = act q s; (rs, s2) = run_queries qs act s1 in (r # rs, s2))"

section \<open>The batch stages\<close>

text \<open>The reader of channels: a stage of batches whose current channel can be dropped.\<close>

record 'p batch_source =
  bs_stage :: "('p, batch) stage"
  bs_flush :: "'p \<Rightarrow> 'p"

text \<open>The batch stream: asked for the next batch on a safe head with the known L1 origins.\<close>

record 'p batch_ops =
  bo_stage :: "('p, l2_block_info \<times> block_info list, batch) query_stage"
  bo_flush :: "'p \<Rightarrow> 'p"
  bo_span_buffer_size :: "'p \<Rightarrow> nat"

text \<open>The batch provider: singular batches, with the mark of the last one of a span.\<close>

record 'p provider_ops =
  po_stage :: "('p, l2_block_info, single_batch) query_stage"
  po_is_last_in_span :: "'p \<Rightarrow> bool"

end
