(* ===== verification/Frames.thy ===== *)
theory Frames
  imports Prelude
begin

text \<open>
  The frame codec of crates/consensus/protocol/src/frame.rs: the frame struct, its error
  enums, \<open>encode\<close>, \<open>decode\<close>, \<open>parse_frame\<close> and \<open>parse_frames\<close>.  Frames are what a batcher
  posts to L1 and what every verifier parses from untrusted bytes, so the theorems are the
  round trips in both directions, freedom from panics, and the exact error behaviour.
\<close>

section \<open>Data\<close>

definition DERIVATION_VERSION_0 :: u8 where
  "DERIVATION_VERSION_0 = 0"

definition BLOB_MAX_DATA_SIZE :: nat where
  "BLOB_MAX_DATA_SIZE = (4 * 31 + 3) * 1024 - 4"

definition MAX_BLOB_FRAME_SIZE :: nat where
  "MAX_BLOB_FRAME_SIZE = BLOB_MAX_DATA_SIZE - 1"

datatype frame_decoding_error =
    DataTooLarge nat
  | DataTooShort nat
  | InvalidId
  | InvalidNumber
  | InvalidDataLength

datatype frame_parse_error =
    FrameDecodingError frame_decoding_error
  | NoFrames
  | UnsupportedVersion
  | DataLengthMismatch
  | NoFramesDecoded

record frame =
  f_id :: bytes
  f_number :: u16
  f_data :: bytes
  f_is_last :: bool

definition FRAME_ENCODED_OVERHEAD :: nat where
  "FRAME_ENCODED_OVERHEAD = 16 + 2 + 4 + 1"

definition FRAME_OVERHEAD :: nat where
  "FRAME_OVERHEAD = 200"

definition FRAME_MAX_LEN :: nat where
  "FRAME_MAX_LEN = 1000000"

text \<open>The channel id is a 16-byte array in the source; here that is a fact about the list.\<close>

definition frame_wf :: "frame \<Rightarrow> bool" where
  "frame_wf f \<longleftrightarrow> length (f_id f) = 16 \<and> length (f_data f) \<le> FRAME_MAX_LEN"

section \<open>Operations\<close>

definition encoded_len :: "frame \<Rightarrow> nat" where
  "encoded_len f = FRAME_ENCODED_OVERHEAD + length (f_data f)"

definition encode_into :: "frame \<Rightarrow> bytes \<Rightarrow> bytes" where
  "encode_into f encoded =
     encoded @ f_id f @ u16_to_be_bytes (f_number f)
       @ u32_to_be_bytes (word_of_nat (length (f_data f)))
       @ f_data f @ [if f_is_last f then 1 else 0]"

definition encode :: "frame \<Rightarrow> bytes" where
  "encode f = encode_into f []"

definition decode :: "bytes \<Rightarrow> (frame_decoding_error, nat \<times> frame) outcome" where
  "decode encoded =
     (if length encoded < FRAME_ENCODED_OVERHEAD then Err (DataTooShort (length encoded))
      else
        obind (slice encoded 0 16) (\<lambda>id.
        obind (slice encoded 16 18) (\<lambda>number_bytes.
        obind (slice encoded 18 22) (\<lambda>len_bytes.
        let data_len = unat (u32_from_be_bytes len_bytes) in
        if data_len > FRAME_MAX_LEN \<or> data_len \<ge> length encoded - (FRAME_ENCODED_OVERHEAD - 1)
        then Err (DataTooLarge data_len)
        else
          obind (slice encoded 22 (22 + data_len)) (\<lambda>data.
          obind (index encoded (22 + data_len)) (\<lambda>last_byte.
          Ok (FRAME_ENCODED_OVERHEAD + data_len,
              \<lparr>f_id = id, f_number = u16_from_be_bytes number_bytes, f_data = data,
               f_is_last = (last_byte = 1)\<rparr>)))))))"

definition parse_frame :: "bytes \<Rightarrow> nat \<Rightarrow> (frame_decoding_error, nat \<times> frame) outcome" where
  "parse_frame data start =
     obind (slice data start (length data)) (\<lambda>rest.
     obind (decode rest) (\<lambda>(frame_len, frame). Ok (frame_len, frame)))"

text \<open>\<open>size\<close> is what the channel bank accounts for a buffered frame.\<close>

definition frame_size :: "frame \<Rightarrow> nat" where
  "frame_size f = length (f_data f) + FRAME_OVERHEAD"

section \<open>Decoding\<close>

lemmas frame_consts = FRAME_ENCODED_OVERHEAD_def FRAME_OVERHEAD_def FRAME_MAX_LEN_def
  DERIVATION_VERSION_0_def BLOB_MAX_DATA_SIZE_def MAX_BLOB_FRAME_SIZE_def

text \<open>The shape of a frame on the wire.\<close>

lemma length_encode [codec_simps]: "length (f_id f) = 16 \<Longrightarrow> length (encode f) = encoded_len f"
  by (simp add: encode_def encode_into_def encoded_len_def frame_consts)

text \<open>
  The bytes of a frame with an arbitrary final byte: \<open>decode\<close> only asks whether it is 1.
\<close>

definition frame_wire :: "frame \<Rightarrow> u8 \<Rightarrow> bytes" where
  "frame_wire f b = f_id f @ u16_to_be_bytes (f_number f)
     @ u32_to_be_bytes (word_of_nat (length (f_data f))) @ f_data f @ [b]"

lemma encode_wire: "encode f = frame_wire f (if f_is_last f then 1 else 0)"
  by (simp add: encode_def encode_into_def frame_wire_def)

lemma length_frame_wire [codec_simps]:
  "length (f_id f) = 16 \<Longrightarrow> length (frame_wire f b) = encoded_len f"
  by (simp add: frame_wire_def encoded_len_def frame_consts)

lemma encode_into_append: "encode_into f acc = acc @ encode f"
  by (simp add: encode_def encode_into_def)

lemma decode_header:
  assumes "23 \<le> length bs"
  shows "decode bs =
    (let data_len = unat (u32_from_be_bytes (take 4 (drop 18 bs))) in
     if data_len > 1000000 \<or> 23 + data_len > length bs then Err (DataTooLarge data_len)
     else Ok (23 + data_len,
       \<lparr>f_id = take 16 bs, f_number = u16_from_be_bytes (take 2 (drop 16 bs)),
        f_data = take data_len (drop 22 bs), f_is_last = (bs ! (22 + data_len) = 1)\<rparr>))"
  using assms by (auto simp: decode_def frame_consts Let_def)

lemma decode_short: "length bs < 23 \<Longrightarrow> decode bs = Err (DataTooShort (length bs))"
  by (simp add: decode_def frame_consts)

lemma decode_cases:
  obtains "length bs < 23" "decode bs = Err (DataTooShort (length bs))"
  | n where "decode bs = Err (DataTooLarge n)"
  | n f where "decode bs = Ok (n, f)" "23 \<le> n" "n \<le> length bs"
proof (cases "length bs < 23")
  case True
  then show ?thesis using that(1) decode_short by blast
next
  case False
  let ?n = "unat (u32_from_be_bytes (take 4 (drop 18 bs)))"
  show ?thesis
  proof (cases "?n > 1000000 \<or> 23 + ?n > length bs")
    case True
    with False have "decode bs = Err (DataTooLarge ?n)" by (simp add: decode_header)
    then show ?thesis by (rule that(2))
  next
    case fits: False
    with False obtain f where "decode bs = Ok (23 + ?n, f)"
      by (simp add: decode_header Let_def)
    with fits show ?thesis by (intro that(3)) auto
  qed
qed

lemma decode_Ok_bounds: "decode bs = Ok (n, f) \<Longrightarrow> 23 \<le> n \<and> n \<le> length bs"
  by (rule decode_cases [of bs]) auto

lemma decode_no_panic: "decode bs \<noteq> Panic"
  by (rule decode_cases [of bs]) auto

lemma decode_frame_wire:
  assumes "frame_wf f" and last: "f_is_last f \<longleftrightarrow> b = 1"
  shows "decode (frame_wire f b @ rest) = Ok (encoded_len f, f)"
proof -
  from assms(1) have id: "length (f_id f) = 16" and len: "length (f_data f) \<le> 1000000"
    by (simp_all add: frame_wf_def frame_consts)
  let ?w = "word_of_nat (length (f_data f)) :: u32"
  define bs where "bs = f_id f @ u16_to_be_bytes (f_number f) @ u32_to_be_bytes ?w
      @ f_data f @ [b] @ rest"
  have w: "unat ?w = length (f_data f)"
    using len by (simp add: unat_of_nat_small)
  have hdr: "take 16 bs = f_id f" "take 2 (drop 16 bs) = u16_to_be_bytes (f_number f)"
      "take 4 (drop 18 bs) = u32_to_be_bytes ?w"
      "take (length (f_data f)) (drop 22 bs) = f_data f"
      "bs ! (22 + length (f_data f)) = b"
      "length bs = 23 + length (f_data f) + length rest"
    by (simp_all add: bs_def id nth_append)
  have "decode bs = Ok (23 + length (f_data f), f)"
    using len last by (simp add: decode_header hdr w)
  then show ?thesis
    by (simp add: bs_def frame_wire_def encoded_len_def frame_consts)
qed

lemma decode_OkD:
  assumes "decode bs = Ok (n, f)"
  shows "frame_wf f" "n = encoded_len f"
    "\<exists>b. take n bs = frame_wire f b \<and> (f_is_last f \<longleftrightarrow> b = 1)"
proof -
  let ?n = "unat (u32_from_be_bytes (take 4 (drop 18 bs)))"
  from assms have long: "23 \<le> length bs"
    using decode_short [of bs] by (cases "length bs < 23") auto
  with assms have fits: "?n \<le> 1000000" "23 + ?n \<le> length bs" and n: "n = 23 + ?n"
    and f: "f = \<lparr>f_id = take 16 bs, f_number = u16_from_be_bytes (take 2 (drop 16 bs)),
        f_data = take ?n (drop 22 bs), f_is_last = (bs ! (22 + ?n) = 1)\<rparr>"
    by (auto simp: decode_header Let_def split: if_splits)
  have len: "length (f_data f) = ?n" using fits by (simp add: f)
  show "frame_wf f" using long fits by (simp add: f frame_wf_def frame_consts)
  show "n = encoded_len f" by (simp add: n len encoded_len_def frame_consts)
  have last: "take (Suc 0) (drop (22 + ?n) bs) = [bs ! (22 + ?n)]"
    using fits by (simp add: take_Suc_conv_app_nth)
  have "take (23 + ?n) bs = take 16 bs @ take 2 (drop 16 bs) @ take 4 (drop 18 bs)
      @ take ?n (drop 22 bs) @ take 1 (drop (22 + ?n) bs)"
    using take_add [of 16 2 bs] take_add [of 18 4 bs] take_add [of 22 ?n bs]
      take_add [of "22 + ?n" 1 bs] by simp
  also have "\<dots> = frame_wire f (bs ! (22 + ?n))"
    using long u16_to_from_be [of "take 2 (drop 16 bs)"] u32_to_from_be [of "take 4 (drop 18 bs)"]
    by (simp add: frame_wire_def len last) (simp add: f)
  finally show "\<exists>b. take n bs = frame_wire f b \<and> (f_is_last f \<longleftrightarrow> b = 1)"
    by (auto simp: n f)
qed

section \<open>Parsing a whole L1 payload\<close>

function parse_loop :: "bytes \<Rightarrow> nat \<Rightarrow> frame list
    \<Rightarrow> (frame_parse_error, nat \<times> frame list) outcome" where
  "parse_loop data offset frames =
     (if offset < length data
      then obind (map_err FrameDecodingError (decode (drop offset data)))
             (\<lambda>(frame_length, frame). parse_loop data (offset + frame_length) (frames @ [frame]))
      else Ok (offset, frames))"
  by pat_completeness auto
termination
  by (relation "measure (\<lambda>(data, offset, _). length data - offset)")
     (auto simp: map_err_def split: outcome.splits dest!: decode_Ok_bounds)

declare parse_loop.simps [simp del]

definition parse_frames :: "bytes \<Rightarrow> (frame_parse_error, frame list) outcome" where
  "parse_frames encoded =
     (if encoded = [] then Err NoFrames
      else if encoded ! 0 \<noteq> DERIVATION_VERSION_0 then Err UnsupportedVersion
      else
        let data = drop 1 encoded in
        obind (parse_loop data 0 []) (\<lambda>(offset, frames).
          if offset \<noteq> length data then Err DataLengthMismatch
          else if frames = [] then Err NoFramesDecoded
          else Ok frames))"

text \<open>The payload a batcher posts: the version byte and the frames one after the other.\<close>

definition frames_payload :: "frame list \<Rightarrow> bytes" where
  "frames_payload fs = DERIVATION_VERSION_0 # concat (map encode fs)"

lemma parse_loop_no_panic: "parse_loop data offset frames \<noteq> Panic"
proof (induction data offset frames rule: parse_loop.induct)
  case (1 data offset frames)
  show ?case
  proof (cases "offset < length data")
    case True
    then show ?thesis
      using "1.IH" by (rule_tac decode_cases [of "drop offset data"])
        (auto simp: parse_loop.simps [of data offset frames])
  qed (simp add: parse_loop.simps)
qed

lemma parse_loop_Err:
  "parse_loop data offset frames = Err e \<Longrightarrow>
     (\<exists>n < 23. e = FrameDecodingError (DataTooShort n))
     \<or> (\<exists>n. e = FrameDecodingError (DataTooLarge n))"
proof (induction data offset frames rule: parse_loop.induct)
  case (1 data offset frames)
  show ?case
  proof (cases "offset < length data")
    case True
    then show ?thesis
      using "1.IH" "1.prems" by (rule_tac decode_cases [of "drop offset data"])
        (auto simp: parse_loop.simps [of data offset frames])
  qed (use "1.prems" in \<open>simp add: parse_loop.simps\<close>)
qed

text \<open>The loop never runs past the end of the payload.\<close>

lemma parse_loop_offset:
  "parse_loop data offset frames = Ok (offset', frames') \<Longrightarrow> offset \<le> length data
     \<Longrightarrow> offset' = length data"
proof (induction data offset frames rule: parse_loop.induct)
  case (1 data offset frames)
  show ?case
  proof (cases "offset < length data")
    case True
    with "1.prems" obtain n f where dec: "decode (drop offset data) = Ok (n, f)"
      and rec: "parse_loop data (offset + n) (frames @ [f]) = Ok (offset', frames')"
      by (auto simp: parse_loop.simps [of data offset frames] obind_eq_Ok map_err_def
          split: outcome.splits)
    from decode_Ok_bounds [OF dec] have "offset + n \<le> length data"
      using True by auto
    with "1.IH" [OF True, of "(n, f)" n f] dec rec show ?thesis by simp
  qed (use "1.prems" in \<open>simp add: parse_loop.simps\<close>)
qed

text \<open>What the loop accepts: any concatenation of frames, each with any valid final byte.\<close>

definition wire_frames :: "frame list \<Rightarrow> u8 list \<Rightarrow> bool" where
  "wire_frames fs lasts \<longleftrightarrow> list_all2 (\<lambda>f b. frame_wf f \<and> (f_is_last f \<longleftrightarrow> b = 1)) fs lasts"

definition wire_concat :: "frame list \<Rightarrow> u8 list \<Rightarrow> bytes" where
  "wire_concat fs lasts = concat (map2 frame_wire fs lasts)"

lemma wire_frames_simps [simp]:
  "wire_frames [] []"
  "wire_frames (f # fs) (b # bs) \<longleftrightarrow>
     frame_wf f \<and> (f_is_last f \<longleftrightarrow> b = 1) \<and> wire_frames fs bs"
  by (auto simp: wire_frames_def)

lemma wire_concat_simps [simp]:
  "wire_concat [] [] = []"
  "wire_concat (f # fs) (b # bs) = frame_wire f b @ wire_concat fs bs"
  by (simp_all add: wire_concat_def)

lemma parse_loop_complete:
  assumes "wire_frames fs lasts"
  shows "parse_loop (pre @ wire_concat fs lasts) (length pre) acc
    = Ok (length (pre @ wire_concat fs lasts), acc @ fs)"
proof -
  from assms have "list_all2 (\<lambda>f b. frame_wf f \<and> (f_is_last f \<longleftrightarrow> b = 1)) fs lasts"
    by (simp add: wire_frames_def)
  then show ?thesis
  proof (induction arbitrary: pre acc rule: list_all2_induct)
    case Nil
    then show ?case by (simp add: parse_loop.simps)
  next
    case (Cons f fs b bs)
    then have wf: "frame_wf f" and last: "f_is_last f \<longleftrightarrow> b = 1" by simp_all
    then have len: "length (frame_wire f b) = encoded_len f"
      by (intro length_frame_wire) (simp add: frame_wf_def)
    have "parse_loop (pre @ wire_concat (f # fs) (b # bs)) (length pre) acc
        = parse_loop ((pre @ frame_wire f b) @ wire_concat fs bs) (length (pre @ frame_wire f b))
            (acc @ [f])"
      using decode_frame_wire [OF wf last, of "wire_concat fs bs"]
      by (simp add: parse_loop.simps [of _ "length pre" acc] len)
         (simp add: encoded_len_def frame_consts)
    also have "\<dots> = Ok (length (pre @ wire_concat (f # fs) (b # bs)), acc @ f # fs)"
      by (subst Cons.IH) simp_all
    finally show ?case .
  qed
qed

lemma parse_loop_sound:
  "parse_loop data offset acc = Ok (offset', fs') \<Longrightarrow> offset \<le> length data \<Longrightarrow>
     \<exists>fs lasts. fs' = acc @ fs \<and> wire_frames fs lasts \<and> drop offset data = wire_concat fs lasts"
proof (induction data offset acc rule: parse_loop.induct)
  case (1 data offset acc)
  show ?case
  proof (cases "offset < length data")
    case True
    with "1.prems" obtain n f where dec: "decode (drop offset data) = Ok (n, f)"
      and rec: "parse_loop data (offset + n) (acc @ [f]) = Ok (offset', fs')"
      by (auto simp: parse_loop.simps [of data offset acc] obind_eq_Ok map_err_def
          split: outcome.splits)
    from decode_Ok_bounds [OF dec] have le: "offset + n \<le> length data" using True by auto
    with "1.IH" [OF True, of "(n, f)" n f] dec rec obtain fs lasts where
      fs: "fs' = acc @ f # fs" "wire_frames fs lasts" "drop (offset + n) data = wire_concat fs lasts"
      by auto
    from decode_OkD [OF dec] obtain b where
      b: "frame_wf f" "take n (drop offset data) = frame_wire f b" "f_is_last f \<longleftrightarrow> b = 1" by auto
    have "drop offset data = take n (drop offset data) @ drop (offset + n) data"
      by (metis append_take_drop_id drop_drop add.commute)
    with b fs have "drop offset data = wire_concat (f # fs) (b # lasts)" by simp
    moreover have "wire_frames (f # fs) (b # lasts)" using b fs by simp
    ultimately show ?thesis using fs(1) by blast
  next
    case False
    with "1.prems" have "fs' = acc" "offset = length data"
      by (simp_all add: parse_loop.simps [of data offset acc])
    then show ?thesis by (intro exI [of _ "[]"]) simp
  qed
qed

lemma wire_frames_encode:
  "\<forall>f \<in> set fs. frame_wf f \<Longrightarrow>
     wire_frames fs (map (\<lambda>f. if f_is_last f then 1 else 0) fs)"
  by (induction fs) auto

lemma wire_concat_encode:
  "wire_concat fs (map (\<lambda>f. if f_is_last f then 1 else 0) fs) = concat (map encode fs)"
  by (induction fs) (auto simp: encode_wire)

section \<open>Properties\<close>

lemma parse_payload:
  "fs \<noteq> [] \<Longrightarrow> \<forall>f \<in> set fs. frame_wf f \<Longrightarrow> parse_frames (frames_payload fs) = Ok fs"
  using parse_loop_complete [OF wire_frames_encode, of fs "[]" "[]"]
  by (simp add: parse_frames_def frames_payload_def wire_concat_encode)

text \<open>C5. Posting and parsing are inverse: the payload made of the version byte and the encodings
  of any non-empty list of well-formed frames parses back to exactly these frames, in order.
\<close>

theorem parse_frames_roundtrip:
  assumes "fs \<noteq> []" and "\<forall>f \<in> set fs. frame_wf f"
  shows "parse_frames (frames_payload fs) = Ok fs"
  using assms by (rule parse_payload)

theorem parse_frames_roundtrip_witness:
  "parse_frames (frames_payload
     [\<lparr>f_id = replicate 16 7, f_number = 0, f_data = [1, 2], f_is_last = False\<rparr>,
      \<lparr>f_id = replicate 16 7, f_number = 1, f_data = [3], f_is_last = True\<rparr>])
   = Ok [\<lparr>f_id = replicate 16 7, f_number = 0, f_data = [1, 2], f_is_last = False\<rparr>,
      \<lparr>f_id = replicate 16 7, f_number = 1, f_data = [3], f_is_last = True\<rparr>]"
  by (rule parse_frames_roundtrip) (simp_all add: frame_wf_def frame_consts)

text \<open>C33. Exactly which payloads parse, and to what: \<open>parse_frames\<close> returns \<open>fs\<close> precisely when the
  payload is the version byte followed by the wire form of the frames of \<open>fs\<close>, at least one,
  each with a 16-byte id, at most 1,000,000 data bytes and a final byte that is 1 exactly when
  the frame is the last of its channel.  No other payload is accepted.
\<close>

theorem parse_frames_exact:
  "parse_frames bs = Ok fs \<longleftrightarrow>
     fs \<noteq> [] \<and> (\<exists>lasts. wire_frames fs lasts
       \<and> bs = DERIVATION_VERSION_0 # wire_concat fs lasts)"
proof
  assume parsed: "parse_frames bs = Ok fs"
  then obtain data where bs: "bs = DERIVATION_VERSION_0 # data"
    by (cases bs) (auto simp: parse_frames_def split: if_splits)
  with parsed have "fs \<noteq> []" "parse_loop data 0 [] = Ok (length data, fs)"
    by (auto simp: parse_frames_def obind_eq_Ok split: if_splits)
  with parse_loop_sound [of data 0 "[]"] bs
  show "fs \<noteq> [] \<and> (\<exists>lasts. wire_frames fs lasts \<and> bs = DERIVATION_VERSION_0 # wire_concat fs lasts)"
    by auto
next
  assume "fs \<noteq> [] \<and> (\<exists>lasts. wire_frames fs lasts
    \<and> bs = DERIVATION_VERSION_0 # wire_concat fs lasts)"
  then obtain lasts where "fs \<noteq> []" "wire_frames fs lasts"
    "bs = DERIVATION_VERSION_0 # wire_concat fs lasts" by blast
  then show "parse_frames bs = Ok fs"
    using parse_loop_complete [of fs lasts "[]" "[]"] by (simp add: parse_frames_def)
qed

text \<open>Parsing untrusted bytes is safe: for every byte string \<open>parse_frames\<close> ends, without any
  out-of-range access, in a list of frames or in one of the errors for an empty payload, an
  unknown version, a payload with no frame, a truncated frame or an oversized frame.
\<close>

lemma parse_frames_safe:
  "(\<exists>fs. parse_frames bs = Ok fs) \<or>
   (\<exists>e. parse_frames bs = Err e \<and>
      (e = NoFrames \<or> e = UnsupportedVersion \<or> e = NoFramesDecoded
       \<or> (\<exists>n < 23. e = FrameDecodingError (DataTooShort n))
       \<or> (\<exists>n. e = FrameDecodingError (DataTooLarge n))))"
proof (cases "bs = [] \<or> bs ! 0 \<noteq> DERIVATION_VERSION_0")
  case True
  then show ?thesis by (auto simp: parse_frames_def)
next
  case False
  let ?d = "drop 1 bs"
  show ?thesis
  proof (cases "parse_loop ?d 0 []")
    case (Ok r)
    then show ?thesis
      using False parse_loop_offset [of ?d 0 "[]"] by (cases r) (auto simp: parse_frames_def)
  next
    case (Err e)
    then show ?thesis
      using False parse_loop_Err [of ?d 0 "[]" e] by (auto simp: parse_frames_def)
  next
    case Panic
    then show ?thesis using parse_loop_no_panic by blast
  qed
qed

end
