(* ===== verification/Frame_Queue.thy ===== *)
theory Frame_Queue
  imports Pipeline Frames "HOL-Library.Sublist"
begin

text \<open>
  The frame queue of crates/consensus/derive/src/stages/frame_queue.rs: it parses the data of the
  retrieval stage into frames and, from Holocene on, prunes the queue so that only contiguous
  channels remain.
\<close>

section \<open>State and operations\<close>

record 'p frame_queue =
  fq_prev :: 'p
  fq_queue :: "frame list"
  fq_rollup_config :: rollup_config

definition frame_queue_new :: "'p \<Rightarrow> rollup_config \<Rightarrow> 'p frame_queue" where
  "frame_queue_new prev cfg = \<lparr>fq_prev = prev, fq_queue = [], fq_rollup_config = cfg\<rparr>"

definition fq_is_holocene_active :: "'p frame_queue \<Rightarrow> block_info \<Rightarrow> bool" where
  "fq_is_holocene_active s origin = is_holocene_active (fq_rollup_config s) (bi_timestamp origin)"

fun first_position :: "('a \<Rightarrow> bool) \<Rightarrow> 'a list \<Rightarrow> nat" where
  "first_position P [] = 0"
| "first_position P (x # xs) = (if P x then 0 else Suc (first_position P xs))"

definition remove_at :: "nat \<Rightarrow> 'a list \<Rightarrow> 'a list" where
  "remove_at i xs = take i xs @ drop (Suc i) xs"

lemma first_position_le: "i < length xs \<Longrightarrow> P (xs ! i) \<Longrightarrow> first_position P xs \<le> i"
  by (induction xs arbitrary: i) (auto simp: nth_Cons split: nat.splits)

lemma length_remove_at: "i < length xs \<Longrightarrow> length (remove_at i xs) = length xs - 1"
  by (simp add: remove_at_def)

text \<open>The loop of \<open>prune\<close>, on a queue that has a frame at \<open>i\<close>.\<close>

function prune_loop :: "frame list \<Rightarrow> nat \<Rightarrow> frame list" where
  "prune_loop q i =
     (if i < length q - 1 then
        let prev_frame = q ! i; next_frame = q ! (i + 1);
            extends_channel = (f_id prev_frame = f_id next_frame)
        in if extends_channel \<and> f_number prev_frame + 1 \<noteq> f_number next_frame
           then prune_loop (remove_at (i + 1) q) i
           else if extends_channel \<and> f_is_last prev_frame
           then prune_loop (remove_at (i + 1) q) i
           else if \<not> extends_channel \<and> f_number next_frame \<noteq> 0
           then prune_loop (remove_at (i + 1) q) i
           else if \<not> extends_channel \<and> \<not> f_is_last prev_frame \<and> f_number next_frame = 0
           then let first_frame = first_position (\<lambda>f. f_id f = f_id prev_frame) q;
                    drained = i + 1 - first_frame
                in prune_loop (take first_frame q @ drop (i + 1) q) (i - drained)
           else prune_loop q (i + 1)
      else q)"
  by pat_completeness auto
termination
proof (relation "measures [\<lambda>(q, i). length q, \<lambda>(q, i). length q - i]", goal_cases)
  case (5 q i prev_frame next_frame extends_channel first_frame drained)
  then have "first_frame \<le> i"
    by (auto intro: first_position_le)
  with 5 show ?case
    by auto
qed (auto simp: remove_at_def)

declare prune_loop.simps [simp del]

text \<open>On an empty queue \<open>queue.len() - 1\<close> wraps around and the first access panics.\<close>

definition prune :: "block_info \<Rightarrow> 'p frame_queue \<Rightarrow> 'p frame_queue option" where
  "prune origin s =
     (if \<not> fq_is_holocene_active s origin then Some s
      else if fq_queue s = [] then None
      else Some (s\<lparr>fq_queue := prune_loop (fq_queue s) 0\<rparr>))"

definition fq_origin :: "('p, bytes) stage \<Rightarrow> 'p frame_queue \<Rightarrow> block_info option" where
  "fq_origin P s = st_origin P (fq_prev s)"

definition ingest_data :: "('p, bytes) stage \<Rightarrow> bytes \<Rightarrow> ('p frame_queue, unit) action" where
  "ingest_data P data s =
     (case parse_frames data of
        Panic \<Rightarrow> (Panic, s)
      | Err _ \<Rightarrow> (Ok (), s)
      | Ok frames \<Rightarrow>
          (let s = s\<lparr>fq_queue := fq_queue s @ frames\<rparr> in
           case fq_origin P s of
             None \<Rightarrow> (Err (crit MissingOrigin), s)
           | Some origin \<Rightarrow> (case prune origin s of Some s' \<Rightarrow> (Ok (), s') | None \<Rightarrow> (Panic, s))))"

definition load_frames :: "('p, bytes) stage \<Rightarrow> ('p frame_queue, unit) action" where
  "load_frames P s =
     (if fq_queue s \<noteq> [] then (Ok (), s)
      else abind (on_prev fq_prev fq_prev_update (st_next P)) (ingest_data P) s)"

definition next_frame :: "('p, bytes) stage \<Rightarrow> ('p frame_queue, frame) action" where
  "next_frame P =
     abind (load_frames P) (\<lambda>_ s.
       case fq_queue s of
         [] \<Rightarrow> (Err (temp NotEnoughData), s)
       | f # fs \<Rightarrow> (Ok f, s\<lparr>fq_queue := fs\<rparr>))"

definition fq_clear :: "unit \<Rightarrow> ('p frame_queue, unit) action" where
  "fq_clear _ s = (Ok (), s\<lparr>fq_queue := []\<rparr>)"

definition fq_advance_origin :: "('p, bytes) stage \<Rightarrow> ('p frame_queue, unit) action" where
  "fq_advance_origin P = on_prev fq_prev fq_prev_update (st_advance P)"

definition fq_reset :: "('p, bytes) stage \<Rightarrow> block_num_hash \<Rightarrow> system_config \<Rightarrow> ('p frame_queue, unit) action" where
  "fq_reset P l1_origin cfg =
     abind (on_prev fq_prev fq_prev_update (st_reset P l1_origin cfg)) fq_clear"

definition fq_activate :: "('p, bytes) stage \<Rightarrow> ('p frame_queue, unit) action" where
  "fq_activate P = abind (on_prev fq_prev fq_prev_update (st_activate P)) fq_clear"

definition fq_flush_channel :: "('p, bytes) stage \<Rightarrow> ('p frame_queue, unit) action" where
  "fq_flush_channel P = abind (on_prev fq_prev fq_prev_update (st_flush P)) fq_clear"

definition frame_queue_stage :: "('p, bytes) stage \<Rightarrow> ('p frame_queue, frame) stage" where
  "frame_queue_stage P =
     \<lparr>st_next = next_frame P, st_origin = fq_origin P, st_advance = fq_advance_origin P,
      st_reset = fq_reset P, st_activate = fq_activate P, st_flush = fq_flush_channel P\<rparr>"

lemma frame_queue_stage_simps [simp]:
  "st_next (frame_queue_stage P) = next_frame P" "st_origin (frame_queue_stage P) = fq_origin P"
  "st_advance (frame_queue_stage P) = fq_advance_origin P"
  "st_reset (frame_queue_stage P) = fq_reset P"
  "st_activate (frame_queue_stage P) = fq_activate P"
  "st_flush (frame_queue_stage P) = fq_flush_channel P"
  by (simp_all add: frame_queue_stage_def)

section \<open>What pruning guarantees\<close>

definition adjacent_ok :: "frame \<Rightarrow> frame \<Rightarrow> bool" where
  "adjacent_ok f g \<longleftrightarrow>
     (if f_id f = f_id g then f_number f + 1 = f_number g \<and> \<not> f_is_last f
      else f_number g = 0 \<and> f_is_last f)"

definition adjacent_upto :: "nat \<Rightarrow> frame list \<Rightarrow> bool" where
  "adjacent_upto n q \<longleftrightarrow> (\<forall>j < n. Suc j < length q \<longrightarrow> adjacent_ok (q ! j) (q ! Suc j))"

definition contiguous :: "frame list \<Rightarrow> bool" where
  "contiguous q \<longleftrightarrow> adjacent_upto (length q) q"

lemma adjacent_upto_remove:
  "adjacent_upto i q \<Longrightarrow> i < length q - 1 \<Longrightarrow> adjacent_upto i (remove_at (Suc i) q)"
  by (auto simp: adjacent_upto_def remove_at_def nth_append)

lemma adjacent_upto_drain:
  "adjacent_upto i q \<Longrightarrow> first \<le> i \<Longrightarrow> i < length q - 1 \<Longrightarrow>
   adjacent_upto (first - Suc 0) (take first q @ drop (Suc i) q)"
  by (auto simp: adjacent_upto_def nth_append)

text \<open>The four kinds of step of the loop, for computation induction over it.\<close>

lemma prune_loop_induct [case_names stop drop drain step]:
  assumes stop: "\<And>q i. \<not> i < length q - 1 \<Longrightarrow> P q i q"
    and drop: "\<And>q i r. i < length q - 1 \<Longrightarrow> \<not> adjacent_ok (q ! i) (q ! (i + 1)) \<Longrightarrow>
          P (remove_at (i + 1) q) i r \<Longrightarrow> P q i r"
    and drain: "\<And>q i r first. i < length q - 1 \<Longrightarrow> \<not> adjacent_ok (q ! i) (q ! (i + 1)) \<Longrightarrow>
          first \<le> i \<Longrightarrow>
          P (take first q @ drop (i + 1) q) (first - 1) r \<Longrightarrow> P q i r"
    and step: "\<And>q i r. i < length q - 1 \<Longrightarrow> adjacent_ok (q ! i) (q ! (i + 1)) \<Longrightarrow>
          P q (i + 1) r \<Longrightarrow> P q i r"
  shows "P q i (prune_loop q i)"
proof (induction q i rule: prune_loop.induct)
  case (1 q i)
  define first where "first = first_position (\<lambda>f. f_id f = f_id (q ! i)) q"
  show ?case
  proof (cases "i < length q - 1")
    case False
    then show ?thesis
      using stop by (simp add: prune_loop.simps)
  next
    case True
    then have "first \<le> i"
      by (auto simp: first_def intro: first_position_le)
    moreover from this have "i - (i + 1 - first) = first - 1"
      by arith
    ultimately show ?thesis
      using True 1 drop [of i q] drain [of i q first] step [of i q]
      by (subst prune_loop.simps) (auto simp: Let_def adjacent_ok_def first_def [symmetric])
  qed
qed

lemma prune_loop_contiguous: "adjacent_upto i q \<Longrightarrow> contiguous (prune_loop q i)"
proof (induction q i rule: prune_loop_induct)
  case (stop q i)
  then show ?case
    by (auto simp: contiguous_def adjacent_upto_def)
next
  case (drop q i r)
  then show ?case
    by (simp add: adjacent_upto_remove)
next
  case (drain q i r first)
  then show ?case
    by (simp add: adjacent_upto_drain)
next
  case (step q i r)
  then show ?case
    by (auto simp: adjacent_upto_def less_Suc_eq)
qed

lemma subseq_take_drop: "a \<le> b \<Longrightarrow> subseq (take a q @ drop b q) q"
proof -
  assume "a \<le> b"
  then have "drop b q = drop (b - a) (drop a q)"
    by simp
  then have "subseq (drop b q) (drop a q)"
    by (metis append_take_drop_id list_emb_append2 subseq_order.order_refl)
  then have "subseq (take a q @ drop b q) (take a q @ drop a q)"
    by (rule list_emb_append_mono [OF subseq_order.order_refl])
  then show ?thesis by simp
qed

lemma prune_loop_subseq: "subseq (prune_loop q i) q"
proof (induction q i rule: prune_loop_induct)
  case (drop q i r)
  then show ?case
    using subseq_take_drop [of "i + 1" "Suc (i + 1)" q] unfolding remove_at_def
    by (meson le_SucI order_refl subseq_order.order_trans)
next
  case (drain q i r first)
  then show ?case
    using subseq_take_drop [of first "i + 1" q] by (meson le_add1 order_trans subseq_order.order_trans)
qed simp_all

lemma prune_loop_nonempty: "q \<noteq> [] \<Longrightarrow> prune_loop q i \<noteq> []"
proof (induction q i rule: prune_loop_induct)
  case (drain q i r first)
  then have "drop (i + 1) q \<noteq> []"
    by auto
  with drain show ?case by simp
qed (auto simp: remove_at_def)

lemma contiguous_adjacent: "contiguous q \<Longrightarrow> i < length q - 1 \<Longrightarrow> adjacent_ok (q ! i) (q ! (i + 1))"
  by (auto simp: contiguous_def adjacent_upto_def)

lemma prune_loop_id: "contiguous q \<Longrightarrow> prune_loop q i = q"
  by (induction q i rule: prune_loop_induct) (blast dest: contiguous_adjacent)+

lemma prune_loop_idem: "prune_loop (prune_loop q 0) 0 = prune_loop q 0"
  by (rule prune_loop_id, rule prune_loop_contiguous) (simp add: adjacent_upto_def)

section \<open>The stage contract\<close>

lemma parse_frames_no_panic: "parse_frames bs \<noteq> Panic"
  using parse_loop_no_panic by (auto simp: parse_frames_def obind_eq_Panic)

lemma parse_frames_nonempty: "parse_frames bs = Ok fs \<Longrightarrow> fs \<noteq> []"
  by (auto simp: parse_frames_def obind_eq_Ok split: if_splits)

lemma prune_nonempty:
  "fq_queue s \<noteq> [] \<Longrightarrow> prune origin s = Some (if fq_is_holocene_active s origin
     then s\<lparr>fq_queue := prune_loop (fq_queue s) 0\<rparr> else s)"
  by (simp add: prune_def)

definition fq_good :: "('p \<Rightarrow> bool) \<Rightarrow> 'p frame_queue \<Rightarrow> bool" where
  "fq_good good s \<longleftrightarrow> good (fq_prev s)"

lemma fq_on_prev_safe:
  "safe_action good act \<Longrightarrow> safe_action (fq_good good) (on_prev fq_prev fq_prev_update act)"
  by (auto simp: safe_action_def fq_good_def)

lemma fq_on_prev_keeps:
  "keeps good (st_origin P) act \<Longrightarrow>
   keeps (fq_good good) (fq_origin P) (on_prev fq_prev fq_prev_update act)"
  by (auto simp: keeps_def fq_good_def fq_origin_def)

lemma ingest_data_safe: "fst (ingest_data P data s) \<noteq> Panic \<and> fq_prev (snd (ingest_data P data s)) = fq_prev s"
proof (cases "parse_frames data")
  case (Ok frames)
  then have "fq_queue (s\<lparr>fq_queue := fq_queue s @ frames\<rparr>) \<noteq> []"
    by (simp add: parse_frames_nonempty)
  from prune_nonempty [OF this] show ?thesis
    using Ok by (simp add: ingest_data_def Let_def split: option.split)
qed (simp_all add: ingest_data_def parse_frames_no_panic)

text \<open>A source of raw L1 data, and a source of frames: the two ends of this stage.\<close>

locale data_source = pipeline_stage S good for S :: "('p, bytes) stage" and good :: "'p \<Rightarrow> bool"
begin

lemma load_frames_safe: "safe_action (fq_good good) (load_frames S)"
  and load_frames_origin: "keeps (fq_good good) (fq_origin S) (load_frames S)"
proof -
  note prev = fq_on_prev_safe [OF next_safe] fq_on_prev_keeps [OF next_origin]
  have ingest: "safe_action (fq_good good) (ingest_data S data)"
      "keeps (fq_good good) (fq_origin S) (ingest_data S data)" for data
    using ingest_data_safe [of S data]
    by (auto simp: safe_action_def keeps_def fq_good_def fq_origin_def)
  note run = safe_abind [OF prev(1) ingest(1)] keeps_abind [OF prev(1) prev(2) ingest(2)]
  show "safe_action (fq_good good) (load_frames S)"
    using run(1) by (auto simp: safe_action_def load_frames_def)
  show "keeps (fq_good good) (fq_origin S) (load_frames S)"
    using run(2) by (auto simp: keeps_def load_frames_def)
qed

lemma next_frame_safe: "safe_action (fq_good good) (next_frame S)"
  unfolding next_frame_def
  by (rule safe_abind [OF load_frames_safe])
     (auto simp: safe_action_def fq_good_def split: list.split)

lemma next_frame_origin: "keeps (fq_good good) (fq_origin S) (next_frame S)"
  unfolding next_frame_def
  by (rule keeps_abind [OF load_frames_safe load_frames_origin])
     (auto simp: keeps_def fq_origin_def split: list.split)

lemma fq_clear_safe: "safe_action (fq_good good) (fq_clear u)"
  and fq_clear_origin: "keeps (fq_good good) (fq_origin S) (fq_clear u)"
  by (auto simp: safe_action_def keeps_def fq_clear_def fq_good_def fq_origin_def)

end

locale frame_source = pipeline_stage S good for S :: "('p, frame) stage" and good :: "'p \<Rightarrow> bool"

sublocale data_source \<subseteq> fq: frame_source "frame_queue_stage S" "fq_good good"
proof unfold_locales
  note prev = fq_on_prev_safe fq_on_prev_keeps
  show "safe_action (fq_good good) (st_next (frame_queue_stage S))"
    "keeps (fq_good good) (st_origin (frame_queue_stage S)) (st_next (frame_queue_stage S))"
    by (simp_all add: next_frame_safe next_frame_origin)
  show "safe_action (fq_good good) (st_advance (frame_queue_stage S))"
    by (simp add: fq_advance_origin_def prev advance_safe)
  show "safe_action (fq_good good) (st_reset (frame_queue_stage S) l1_origin cfg)" for l1_origin cfg
    by (simp add: fq_reset_def safe_abind prev reset_safe fq_clear_safe)
  show "safe_action (fq_good good) (st_activate (frame_queue_stage S))"
    by (simp add: fq_activate_def safe_abind prev activate_safe fq_clear_safe)
  show "safe_action (fq_good good) (st_flush (frame_queue_stage S))"
    by (simp add: fq_flush_channel_def safe_abind prev flush_safe fq_clear_safe)
  show "keeps (fq_good good) (st_origin (frame_queue_stage S)) (st_flush (frame_queue_stage S))"
    by (simp add: fq_flush_channel_def keeps_abind prev flush_safe flush_origin
        fq_clear_origin)
qed

section \<open>Properties\<close>

text \<open>C20. Pruning a queue leaves a contiguous one: it only removes frames, keeps at least one, every
  frame left either continues the channel of the frame before it with the next number or starts a
  new channel after a closed one, a contiguous queue is left alone, and pruning twice is pruning
  once.  The loop ends on every queue.\<close>

theorem prune_contiguous:
  assumes "fq_queue s \<noteq> []" and "fq_is_holocene_active s origin"
  shows "\<exists>s'. prune origin s = Some s' \<and> contiguous (fq_queue s') \<and> fq_queue s' \<noteq> []
    \<and> subseq (fq_queue s') (fq_queue s)
    \<and> (contiguous (fq_queue s) \<longrightarrow> s' = s) \<and> prune origin s' = Some s'"
  using assms
  by (auto simp: prune_def fq_is_holocene_active_def prune_loop_nonempty prune_loop_subseq
      prune_loop_idem prune_loop_id adjacent_upto_def intro!: prune_loop_contiguous)

definition holocene_queue :: "frame list \<Rightarrow> unit frame_queue" where
  "holocene_queue q = \<lparr>fq_prev = (), fq_queue = q, fq_rollup_config = rollup_config_default\<lparr>
     rc_upgrades := upgrade_config_default\<lparr>u_holocene_time := Some 0\<rparr>\<rparr>\<rparr>"

lemma holocene_queue_simps:
  "fq_queue (holocene_queue q) = q" "fq_is_holocene_active (holocene_queue q) origin"
  by (simp_all add: holocene_queue_def fq_is_holocene_active_def is_holocene_active_def active_at_def
      upgrade_activation_timestamp_def upgrade_activation_of_def registry_activation_def
      rollup_config_default_def)

definition one_frame :: "nat \<Rightarrow> u16 \<Rightarrow> bool \<Rightarrow> frame" where
  "one_frame i n l = \<lparr>f_id = replicate 16 (word_of_nat i), f_number = n, f_data = [], f_is_last = l\<rparr>"

theorem prune_contiguous_witness:
  "\<exists>s'. prune block_info_default (holocene_queue [one_frame 1 0 False, one_frame 1 2 True]) = Some s'
    \<and> contiguous (fq_queue s') \<and> fq_queue s' \<noteq> []"
  using prune_contiguous [of "holocene_queue [one_frame 1 0 False, one_frame 1 2 True]"]
  by (auto simp: holocene_queue_simps)

text \<open>C39. Pruning can discard complete channels: when a channel id is reused inside one payload and the
  second use is left open, the loop drains from the first frame of the queue with that id, so the
  earlier, closed channels \<open>a\<close> and \<open>b\<close> are lost together with the open one although the queue up
  to them was contiguous.\<close>

theorem prune_loses_closed_channels:
  assumes "f_id a' = f_id a" "f_id b \<noteq> f_id a" "f_id c \<noteq> f_id a"
    and "f_number b = 0" "f_number a' = 0" "f_number c = 0"
    and "f_is_last a" "f_is_last b" "\<not> f_is_last a'"
    and "fq_is_holocene_active s origin" "fq_queue s = [a, b, a', c]"
  shows "contiguous [a, b, a'] \<and> prune origin s = Some (s\<lparr>fq_queue := [c]\<rparr>)"
proof -
  have "prune_loop [a, b, a', c] 0 = [c]"
    using assms by (simp add: prune_loop.simps Let_def numeral_eq_Suc)
  then show ?thesis
    using assms
    by (auto simp: prune_def contiguous_def adjacent_upto_def adjacent_ok_def nth_Cons less_Suc_eq
        split: nat.splits)
qed

theorem prune_loses_closed_channels_witness:
  "prune block_info_default
     (holocene_queue [one_frame 1 0 True, one_frame 2 0 True, one_frame 1 0 False, one_frame 3 0 True])
   = Some (holocene_queue [one_frame 3 0 True])"
  using prune_loses_closed_channels [of "one_frame 1 0 False" "one_frame 1 0 True"
      "one_frame 2 0 True" "one_frame 3 0 True"
      "holocene_queue [one_frame 1 0 True, one_frame 2 0 True, one_frame 1 0 False, one_frame 3 0 True]"
      block_info_default]
  by (simp add: holocene_queue_simps one_frame_def) (simp add: holocene_queue_def)

end
