(* ===== verification/Channels.thy ===== *)
theory Channels
  imports Frames Blocks
begin

text \<open>
  The channel of crates/consensus/protocol/src/channel.rs, which collects the frames of one
  channel in any order and yields their data once the closing frame and everything before it has
  arrived.
  The theory gives the channel's well-formedness invariant, its preservation, the accounting of
  \<open>estimated_size\<close>, and the reassembly theorem for an arbitrary arrival order.
\<close>

section \<open>Channels\<close>

datatype channel_error =
    FrameIdMismatch
  | ChannelClosed
  | FrameNumberExists nat
  | FrameBeyondEndFrame nat

text \<open>
  The \<open>HashMap<u16, Frame>\<close> is an association list with distinct keys; the code never depends
  on its iteration order.
\<close>

record channel =
  c_id :: bytes
  c_open_block :: block_info
  c_estimated_size :: nat
  c_closed :: bool
  c_highest_frame_number :: u16
  c_last_frame_number :: u16
  c_inputs :: "(u16 \<times> frame) list"
  c_highest_l1_inclusion_block :: block_info

definition MAX_RLP_BYTES :: u64 where
  "MAX_RLP_BYTES = 10000000"

definition FJORD_MAX_RLP_BYTES :: u64 where
  "FJORD_MAX_RLP_BYTES = 100000000"

definition channel_new :: "bytes \<Rightarrow> block_info \<Rightarrow> channel" where
  "channel_new cid open_block =
     \<lparr>c_id = cid, c_open_block = open_block, c_estimated_size = 0, c_closed = False,
      c_highest_frame_number = 0, c_last_frame_number = 0, c_inputs = [],
      c_highest_l1_inclusion_block = block_info_default\<rparr>"

definition channel_len :: "channel \<Rightarrow> nat" where
  "channel_len c = length (c_inputs c)"

definition channel_is_empty :: "channel \<Rightarrow> bool" where
  "channel_is_empty c \<longleftrightarrow> c_inputs c = []"

definition contains_frame :: "channel \<Rightarrow> u16 \<Rightarrow> bool" where
  "contains_frame c n \<longleftrightarrow> map_of (c_inputs c) n \<noteq> None"

text \<open>
  The \<open>retain\<close> call of a closing frame: frames numbered below the closing one stay, every
  other frame goes and gives its size back.
\<close>

definition prune_beyond :: "u16 \<Rightarrow> channel \<Rightarrow> channel" where
  "prune_beyond end_no c =
     (let dropped = filter (\<lambda>(n, _). \<not> n < end_no) (c_inputs c) in
      c\<lparr>c_inputs := filter (\<lambda>(n, _). n < end_no) (c_inputs c),
        c_estimated_size := foldl (\<lambda>size (_, f). size - frame_size f) (c_estimated_size c) dropped,
        c_highest_frame_number := end_no\<rparr>)"

definition close_channel :: "frame \<Rightarrow> channel \<Rightarrow> channel" where
  "close_channel frame c =
     (if f_is_last frame then
        let c1 = c\<lparr>c_last_frame_number := f_number frame, c_closed := True\<rparr> in
        if c_last_frame_number c1 < c_highest_frame_number c1
        then prune_beyond (c_last_frame_number c1) c1 else c1
      else c)"

definition buffer_frame :: "frame \<Rightarrow> block_info \<Rightarrow> channel \<Rightarrow> channel" where
  "buffer_frame frame l1_inclusion_block c =
     c\<lparr>c_highest_frame_number :=
         (if f_number frame > c_highest_frame_number c then f_number frame
          else c_highest_frame_number c),
       c_highest_l1_inclusion_block :=
         (if bi_number (c_highest_l1_inclusion_block c) < bi_number l1_inclusion_block
          then l1_inclusion_block else c_highest_l1_inclusion_block c),
       c_estimated_size := c_estimated_size c + frame_size frame,
       c_inputs := AList.update (f_number frame) frame (c_inputs c)\<rparr>"

definition add_frame :: "channel \<Rightarrow> frame \<Rightarrow> block_info \<Rightarrow> (channel_error, channel) outcome" where
  "add_frame c frame l1_inclusion_block =
     (if f_id frame \<noteq> c_id c then Err FrameIdMismatch
      else if f_is_last frame \<and> c_closed c then Err ChannelClosed
      else if contains_frame c (f_number frame)
        then Err (FrameNumberExists (unat (f_number frame)))
      else if c_closed c \<and> f_number frame \<ge> c_last_frame_number c
        then Err (FrameBeyondEndFrame (unat (f_number frame)))
      else Ok (buffer_frame frame l1_inclusion_block (close_channel frame c)))"

definition open_block_number :: "channel \<Rightarrow> u64" where
  "open_block_number c = bi_number (c_open_block c)"

definition channel_size :: "channel \<Rightarrow> nat" where
  "channel_size c = c_estimated_size c"

text \<open>The inclusive range \<open>0..=last\<close> of frame numbers.\<close>

definition frame_range :: "u16 \<Rightarrow> u16 list" where
  "frame_range end_no = map word_of_nat [0..<Suc (unat end_no)]"

definition is_ready :: "channel \<Rightarrow> bool" where
  "is_ready c \<longleftrightarrow>
     c_closed c \<and>
     channel_len c = unat (c_last_frame_number c + 1) \<and>
     list_all (contains_frame c) (frame_range (c_last_frame_number c))"

primrec collect_data :: "(u16 \<times> frame) list \<Rightarrow> u16 list \<Rightarrow> bytes \<Rightarrow> bytes option" where
  "collect_data inputs [] data = Some data"
| "collect_data inputs (i # is) data =
     (case map_of inputs i of
        None \<Rightarrow> None
      | Some frame \<Rightarrow> collect_data inputs is (data @ f_data frame))"

definition frame_data :: "channel \<Rightarrow> bytes option" where
  "frame_data c =
     (if channel_is_empty c then None
      else collect_data (c_inputs c) (frame_range (c_last_frame_number c)) [])"

section \<open>The channel invariant\<close>

definition inputs_size :: "(u16 \<times> frame) list \<Rightarrow> nat" where
  "inputs_size inputs = sum_list (map (\<lambda>(_, f). frame_size f) inputs)"

text \<open>
  Keys are distinct and are the numbers of the frames they hold; all frames carry the channel's
  id; \<open>estimated_size\<close> is the sum of the frame sizes; \<open>highest_frame_number\<close> is the highest
  number buffered; a closed channel holds its closing frame, that frame is the only one marked
  last, and nothing lies beyond it.
\<close>

definition channel_inv :: "channel \<Rightarrow> bool" where
  "channel_inv c \<longleftrightarrow>
     distinct (map fst (c_inputs c)) \<and>
     (\<forall>(n, f) \<in> set (c_inputs c). f_number f = n \<and> f_id f = c_id c
        \<and> (f_is_last f \<longleftrightarrow> c_closed c \<and> n = c_last_frame_number c)
        \<and> n \<le> c_highest_frame_number c) \<and>
     c_estimated_size c = inputs_size (c_inputs c) \<and>
     (if c_inputs c = [] then c_highest_frame_number c = 0 \<and> \<not> c_closed c
      else c_highest_frame_number c \<in> fst ` set (c_inputs c)) \<and>
     (c_closed c \<longrightarrow> c_last_frame_number c = c_highest_frame_number c)"

lemma inputs_size_simps [simp]:
  "inputs_size [] = 0"
  "inputs_size ((n, f) # xs) = frame_size f + inputs_size xs"
  "inputs_size (xs @ ys) = inputs_size xs + inputs_size ys"
  by (simp_all add: inputs_size_def)

lemma inputs_size_filter:
  "inputs_size (filter (\<lambda>(n, _). n < k) xs) + inputs_size (filter (\<lambda>(n, _). \<not> n < k) xs)
     = inputs_size xs"
  by (induction xs) auto

lemma foldl_release_size:
  "foldl (\<lambda>size (_, f). size - frame_size f) s dropped = s - inputs_size dropped"
  by (induction dropped arbitrary: s) auto

lemma update_fresh: "map_of xs k = None \<Longrightarrow> AList.update k v xs = xs @ [(k, v)]"
  by (induction xs) (auto split: if_splits)

lemma contains_frame_iff: "contains_frame c n \<longleftrightarrow> n \<in> fst ` set (c_inputs c)"
  by (simp add: contains_frame_def map_of_eq_None_iff)

lemma channel_inv_new: "channel_inv (channel_new cid b)"
  by (simp add: channel_inv_def channel_new_def)

text \<open>Pruning gives back exactly the sizes of the frames it removes; nothing underflows.\<close>

lemma prune_beyond_size:
  assumes "c_estimated_size c = inputs_size (c_inputs c)"
  shows "c_estimated_size (prune_beyond n c) = inputs_size (c_inputs (prune_beyond n c))"
  using assms inputs_size_filter [of n "c_inputs c"]
  by (simp add: prune_beyond_def foldl_release_size)

text \<open>
  Buffering a frame restores the invariant from what \<open>close_channel\<close> leaves: a channel that may
  already be marked closed by the frame that is about to be inserted.
\<close>

lemma channel_inv_buffer:
  assumes dist: "distinct (map fst (c_inputs c))" and fresh: "f_number f \<notin> fst ` set (c_inputs c)"
    and frames: "\<And>n g. (n, g) \<in> set (c_inputs c) \<Longrightarrow> f_number g = n \<and> f_id g = c_id c
        \<and> n \<le> max (f_number f) (c_highest_frame_number c)
        \<and> (f_is_last g \<longleftrightarrow> c_closed c \<and> n = c_last_frame_number c)"
    and new: "f_id f = c_id c" "f_is_last f \<longleftrightarrow> c_closed c \<and> f_number f = c_last_frame_number c"
    and size: "c_estimated_size c = inputs_size (c_inputs c)"
    and high: "c_highest_frame_number c \<le> f_number f
        \<or> c_highest_frame_number c \<in> fst ` set (c_inputs c)"
    and end_no: "c_closed c \<longrightarrow> c_last_frame_number c = max (f_number f) (c_highest_frame_number c)"
  shows "channel_inv (buffer_frame f b c)"
proof -
  let ?c = "buffer_frame f b c"
  have upd: "AList.update (f_number f) f (c_inputs c) = c_inputs c @ [(f_number f, f)]"
    using fresh by (intro update_fresh) (simp add: map_of_eq_None_iff)
  have fields: "c_inputs ?c = c_inputs c @ [(f_number f, f)]" "c_id ?c = c_id c"
    "c_closed ?c = c_closed c" "c_last_frame_number ?c = c_last_frame_number c"
    "c_estimated_size ?c = c_estimated_size c + frame_size f"
    "c_highest_frame_number ?c = max (f_number f) (c_highest_frame_number c)"
    by (auto simp: buffer_frame_def upd max_def not_less)
  have d: "distinct (map fst (c_inputs ?c))" using dist fresh by (simp add: fields)
  have fr: "\<forall>(n, g) \<in> set (c_inputs ?c). f_number g = n \<and> f_id g = c_id ?c
      \<and> (f_is_last g \<longleftrightarrow> c_closed ?c \<and> n = c_last_frame_number ?c)
      \<and> n \<le> c_highest_frame_number ?c"
    using frames new unfolding fields by fastforce
  have hi: "c_highest_frame_number ?c \<in> fst ` set (c_inputs ?c)"
    using high unfolding fields by (auto simp: max_def)
  show ?thesis
    unfolding channel_inv_def using d fr hi size end_no by (simp add: fields)
qed

lemma channel_invD:
  assumes "channel_inv c"
  shows "distinct (map fst (c_inputs c))" "c_estimated_size c = inputs_size (c_inputs c)"
    "(n, g) \<in> set (c_inputs c) \<Longrightarrow> f_number g = n \<and> f_id g = c_id c
       \<and> (f_is_last g \<longleftrightarrow> c_closed c \<and> n = c_last_frame_number c) \<and> n \<le> c_highest_frame_number c"
    "c_inputs c = [] \<Longrightarrow> c_highest_frame_number c = 0 \<and> \<not> c_closed c"
    "c_inputs c \<noteq> [] \<Longrightarrow> c_highest_frame_number c \<in> fst ` set (c_inputs c)"
    "c_closed c \<Longrightarrow> c_last_frame_number c = c_highest_frame_number c"
  using assms unfolding channel_inv_def by auto

lemma channel_inv_close_buffer:
  assumes inv: "channel_inv c" and cid: "f_id f = c_id c"
    and open_: "f_is_last f \<longrightarrow> \<not> c_closed c" and fresh: "\<not> contains_frame c (f_number f)"
    and before: "c_closed c \<longrightarrow> f_number f < c_last_frame_number c"
  shows "channel_inv (buffer_frame f b (close_channel f c))"
proof (cases "f_is_last f \<and> f_number f < c_highest_frame_number c")
  case True
  let ?c = "close_channel f c"
  have c: "?c = prune_beyond (f_number f) (c\<lparr>c_last_frame_number := f_number f, c_closed := True\<rparr>)"
    using True by (simp add: close_channel_def)
  have inputs: "c_inputs ?c = filter (\<lambda>(n, _). n < f_number f) (c_inputs c)"
    and fields: "c_highest_frame_number ?c = f_number f" "c_last_frame_number ?c = f_number f"
      "c_closed ?c" "c_id ?c = c_id c"
    by (simp_all add: c prune_beyond_def)
  show ?thesis
  proof (rule channel_inv_buffer)
    show "c_estimated_size ?c = inputs_size (c_inputs ?c)"
      unfolding c by (rule prune_beyond_size) (use channel_invD(2) [OF inv] in simp)
    show "distinct (map fst (c_inputs ?c))"
      using channel_invD(1) [OF inv] by (simp add: inputs distinct_map_filter)
  qed (use True open_ cid channel_invD(3) [OF inv] in \<open>auto simp: fields inputs\<close>)
next
  case False
  let ?c = "close_channel f c"
  have fields: "c_inputs ?c = c_inputs c" "c_id ?c = c_id c"
    "c_closed ?c \<longleftrightarrow> f_is_last f \<or> c_closed c"
    "c_last_frame_number ?c = (if f_is_last f then f_number f else c_last_frame_number c)"
    "c_estimated_size ?c = c_estimated_size c" "c_highest_frame_number ?c = c_highest_frame_number c"
    using False by (auto simp: close_channel_def)
  have neq: "n \<noteq> f_number f" if "(n, g) \<in> set (c_inputs c)" for n g
    using that fresh by (auto simp: contains_frame_iff image_iff)
  show ?thesis
  proof (rule channel_inv_buffer)
    show "c_highest_frame_number ?c \<le> f_number f
        \<or> c_highest_frame_number ?c \<in> fst ` set (c_inputs ?c)"
      using channel_invD(4,5) [OF inv] by (cases "c_inputs c = []") (auto simp: fields)
    show "c_closed ?c \<longrightarrow> c_last_frame_number ?c = max (f_number f) (c_highest_frame_number ?c)"
      using channel_invD(6) [OF inv] before False by (auto simp: fields max_def)
    show "f_is_last f \<longleftrightarrow> c_closed ?c \<and> f_number f = c_last_frame_number ?c"
      using open_ before by (auto simp: fields)
    fix n g
    assume "(n, g) \<in> set (c_inputs ?c)"
    then show "f_number g = n \<and> f_id g = c_id ?c \<and> n \<le> max (f_number f) (c_highest_frame_number ?c)
        \<and> (f_is_last g \<longleftrightarrow> c_closed ?c \<and> n = c_last_frame_number ?c)"
      using channel_invD(3) [OF inv, of n g] neq [of n g] open_
      by (auto simp: fields le_max_iff_disj)
  qed (use cid fresh channel_invD(1,2) [OF inv] in \<open>auto simp: fields contains_frame_iff\<close>)
qed

lemma add_frame_OkD:
  assumes "add_frame c f b = Ok c'"
  shows "f_id f = c_id c" "f_is_last f \<longrightarrow> \<not> c_closed c" "\<not> contains_frame c (f_number f)"
    "c_closed c \<longrightarrow> f_number f < c_last_frame_number c"
    "c' = buffer_frame f b (close_channel f c)"
  using assms by (auto simp: add_frame_def split: if_splits)

lemma add_frame_inv: "channel_inv c \<Longrightarrow> add_frame c f b = Ok c' \<Longrightarrow> channel_inv c'"
  using channel_inv_close_buffer add_frame_OkD by metis

end
