(* ===== verification/Reassembly.thy ===== *)
theory Reassembly
  imports Channels
begin

text \<open>
  What a channel promises to the stages that read it: it is ready exactly when the frames it
  holds are a whole channel, and the order in which the frames arrived does not matter.
\<close>

section \<open>Reassembly\<close>

text \<open>
  The specification of a channel's content: frames numbered 0, 1, 2, \<dots> in one channel, the
  final one and no other marked last.
\<close>

definition whole_channel :: "bytes \<Rightarrow> frame list \<Rightarrow> bool" where
  "whole_channel cid fs \<longleftrightarrow>
     fs \<noteq> [] \<and> length fs \<le> 65536 \<and>
     (\<forall>i < length fs. f_number (fs ! i) = word_of_nat i \<and> f_id (fs ! i) = cid
        \<and> (f_is_last (fs ! i) \<longleftrightarrow> Suc i = length fs))"

definition channel_data :: "frame list \<Rightarrow> bytes" where
  "channel_data fs = concat (map f_data fs)"

primrec add_frames :: "channel \<Rightarrow> (frame \<times> block_info) list \<Rightarrow> (channel_error, channel) outcome" where
  "add_frames c [] = Ok c"
| "add_frames c (x # xs) = obind (add_frame c (fst x) (snd x)) (\<lambda>c'. add_frames c' xs)"

lemma unat_frame_no: "i < 65536 \<Longrightarrow> unat (word_of_nat i :: u16) = i"
  by (rule unat_of_nat_small) simp

lemma whole_number: "whole_channel cid fs \<Longrightarrow> i < length fs \<Longrightarrow> unat (f_number (fs ! i)) = i"
  by (simp add: whole_channel_def unat_frame_no)

lemma whole_inj:
  assumes "whole_channel cid fs" "f \<in> set fs" "g \<in> set fs" "f_number f = f_number g"
  shows "f = g"
proof -
  from assms obtain i j where ij: "i < length fs" "f = fs ! i" "j < length fs" "g = fs ! j"
    by (auto simp: in_set_conv_nth)
  have "i = unat (f_number f)" "j = unat (f_number g)"
    using ij whole_number [OF assms(1)] by metis+
  with ij assms(4) show ?thesis by metis
qed

lemma whole_channel_distinct: "whole_channel cid fs \<Longrightarrow> distinct fs"
  unfolding distinct_conv_nth using whole_number by metis

lemma whole_le_last:
  assumes "whole_channel cid fs" "f \<in> set fs"
  shows "unat (f_number f) \<le> length fs - 1"
    and "f_is_last f \<longleftrightarrow> unat (f_number f) = length fs - 1"
proof -
  from assms(2) obtain i where i: "i < length fs" "f = fs ! i" by (auto simp: in_set_conv_nth)
  have n: "unat (f_number f) = i" using whole_number [OF assms(1) i(1)] i(2) by blast
  have last: "f_is_last f \<longleftrightarrow> Suc i = length fs"
    using assms(1) i unfolding whole_channel_def by blast
  show "unat (f_number f) \<le> length fs - 1" using n i(1) by linarith
  show "f_is_last f \<longleftrightarrow> unat (f_number f) = length fs - 1" using n last i(1) by linarith
qed

text \<open>A frame of the channel that has not arrived yet is accepted and buffered last.\<close>

lemma add_frame_whole:
  assumes inv: "channel_inv c" and w: "whole_channel (c_id c) fs"
    and seen: "c_inputs c = map (\<lambda>f. (f_number f, f)) gs" "set gs \<subseteq> set fs"
    and g: "g \<in> set fs" "g \<notin> set gs"
  obtains c' where "add_frame c g b = Ok c'" "channel_inv c'" "c_id c' = c_id c"
    "c_inputs c' = map (\<lambda>f. (f_number f, f)) (gs @ [g])"
proof -
  have fresh: "\<not> contains_frame c (f_number g)"
  proof
    assume "contains_frame c (f_number g)"
    then obtain h where "h \<in> set gs" "f_number h = f_number g"
      using seen(1) by (auto simp: contains_frame_iff)
    then show False using whole_inj [OF w _ g(1)] g seen(2) by blast
  qed
  have gid: "f_id g = c_id c"
    using w g by (auto simp: whole_channel_def in_set_conv_nth)
  have closing: "\<exists>f \<in> set gs. f_is_last f \<and> f_number f = c_last_frame_number c" if "c_closed c"
  proof -
    have "c_last_frame_number c \<in> fst ` set (c_inputs c)"
      using that channel_invD(4-6) [OF inv] by metis
    then obtain f where f: "f \<in> set gs" "f_number f = c_last_frame_number c"
      using seen(1) by auto
    from f(1) have "(f_number f, f) \<in> set (c_inputs c)" using seen(1) by simp
    then show ?thesis using f that channel_invD(3) [OF inv] by blast
  qed
  have less: "f_number g < f_number f" if "f \<in> set gs" "f_is_last f" for f
  proof -
    have f: "f \<in> set fs" using that seen by blast
    with whole_inj [OF w f g(1)] have "f_number f \<noteq> f_number g" using that g by blast
    then have "unat (f_number f) \<noteq> unat (f_number g)" by (simp add: word_unat_eq_iff)
    then show ?thesis
      using whole_le_last [OF w f] whole_le_last [OF w g(1)] that
      by (simp add: word_less_nat_alt)
  qed
  have open_: "f_is_last g \<longrightarrow> \<not> c_closed c"
  proof (intro impI notI)
    assume last: "f_is_last g" and "c_closed c"
    then obtain f where f: "f \<in> set gs" "f_is_last f" using closing by blast
    then have "f \<in> set fs" "f_number g < f_number f" using seen less by auto
    with f last g whole_le_last(2) [OF w, of f] whole_le_last(2) [OF w, of g] show False
      by (simp add: word_less_nat_alt)
  qed
  have before: "c_closed c \<longrightarrow> f_number g < c_last_frame_number c"
    using closing less by fastforce
  have no_prune: "\<not> f_number g < c_highest_frame_number c" if "f_is_last g"
  proof
    assume lt: "f_number g < c_highest_frame_number c"
    then have "c_highest_frame_number c \<in> fst ` set (c_inputs c)"
      using channel_invD(4,5) [OF inv] by force
    then obtain f where "f \<in> set gs" "f_number f = c_highest_frame_number c"
      using seen(1) by auto
    with lt that whole_le_last [OF w, of f] whole_le_last [OF w, of g] g seen show False
      by (auto simp: word_less_nat_alt)
  qed
  let ?c' = "buffer_frame g b (close_channel g c)"
  have ok: "add_frame c g b = Ok ?c'"
    using gid open_ fresh before by (auto simp: add_frame_def not_le)
  show ?thesis
  proof (rule that [OF ok add_frame_inv [OF inv ok]])
    show "c_id ?c' = c_id c"
      using no_prune by (auto simp: buffer_frame_def close_channel_def)
    show "c_inputs ?c' = map (\<lambda>f. (f_number f, f)) (gs @ [g])"
      using no_prune fresh seen(1)
      by (auto simp: buffer_frame_def close_channel_def contains_frame_def update_fresh)
  qed
qed

lemma add_frames_whole:
  assumes "channel_inv c" "whole_channel (c_id c) fs"
    "c_inputs c = map (\<lambda>f. (f_number f, f)) gs" "set gs \<subseteq> set fs"
    "set (map fst arrivals) \<subseteq> set fs - set gs" "distinct (map fst arrivals)"
  shows "\<exists>c'. add_frames c arrivals = Ok c' \<and> channel_inv c' \<and> c_id c' = c_id c
    \<and> c_inputs c' = map (\<lambda>f. (f_number f, f)) (gs @ map fst arrivals)"
  using assms
proof (induction arrivals arbitrary: c gs)
  case Nil
  then show ?case by simp
next
  case (Cons x xs)
  from Cons.prems(5) have x: "fst x \<in> set fs" "fst x \<notin> set gs" by simp_all
  obtain c1 where
    c1: "add_frame c (fst x) (snd x) = Ok c1" "channel_inv c1" "c_id c1 = c_id c"
      "c_inputs c1 = map (\<lambda>f. (f_number f, f)) (gs @ [fst x])"
    by (rule add_frame_whole [OF Cons.prems(1-4) x, of "snd x"])
  have "\<exists>c'. add_frames c1 xs = Ok c' \<and> channel_inv c' \<and> c_id c' = c_id c1
      \<and> c_inputs c' = map (\<lambda>f. (f_number f, f)) ((gs @ [fst x]) @ map fst xs)"
  proof (rule Cons.IH [OF c1(2) _ c1(4)])
    show "whole_channel (c_id c1) fs" unfolding c1(3) by (rule Cons.prems(2))
    show "set (gs @ [fst x]) \<subseteq> set fs" using Cons.prems(4) x by simp
    have "fst x \<notin> set (map fst xs)" "set (map fst xs) \<subseteq> set fs - set gs"
      using Cons.prems(5,6) by simp_all
    then show "set (map fst xs) \<subseteq> set fs - set (gs @ [fst x])"
      by (simp only: set_append list.set) blast
    show "distinct (map fst xs)" using Cons.prems(6) by simp
  qed
  then obtain c' where "add_frames c1 xs = Ok c'" "channel_inv c'" "c_id c' = c_id c1"
    "c_inputs c' = map (\<lambda>f. (f_number f, f)) ((gs @ [fst x]) @ map fst xs)" by blast
  then show ?case using c1(1,3) by (intro exI [of _ c']) simp
qed

text \<open>What a channel with a whole channel's frames looks like, in whatever order they came.\<close>

lemma inputs_lookup:
  assumes w: "whole_channel cid fs" and gs: "set gs = set fs" and i: "i < length fs"
  shows "map_of (map (\<lambda>f. (f_number f, f)) gs) (word_of_nat i) = Some (fs ! i)"
proof -
  have num: "f_number (fs ! i) = word_of_nat i" using w i unfolding whole_channel_def by blast
  have inj: "inj_on f_number (set gs)"
    unfolding inj_on_def gs using whole_inj [OF w] by blast
  have "fs ! i \<in> set gs" using gs i by simp
  then have "map_of (map (\<lambda>f. (f_number f, f)) gs) (f_number (fs ! i)) = Some (fs ! i)"
    using inj by (induction gs) (auto simp: inj_on_def)
  then show ?thesis by (simp only: num)
qed

lemma collect_data_whole:
  assumes w: "whole_channel cid fs" and gs: "set gs = set fs"
    and is_sub: "set is \<subseteq> {..<length fs}"
  shows "collect_data (map (\<lambda>f. (f_number f, f)) gs) (map word_of_nat is) acc
    = Some (acc @ concat (map (\<lambda>i. f_data (fs ! i)) is))"
  using is_sub by (induction "is" arbitrary: acc) (simp_all add: inputs_lookup [OF w gs])

lemma frame_range_whole:
  "0 < n \<Longrightarrow> n \<le> 65536 \<Longrightarrow> frame_range (word_of_nat (n - 1)) = map word_of_nat [0..<n]"
  using unat_frame_no [of "n - 1"] by (simp add: frame_range_def del: upt_Suc)

lemma channel_data_nth: "channel_data fs = concat (map (\<lambda>i. f_data (fs ! i)) [0..<length fs])"
proof -
  have "map f_data fs = map (\<lambda>i. f_data (fs ! i)) [0..<length fs]"
    by (rule nth_equalityI) simp_all
  then show ?thesis by (simp only: channel_data_def)
qed

lemma last_number_whole:
  assumes inv: "channel_inv c" and w: "whole_channel (c_id c) fs"
    and c: "c_inputs c = map (\<lambda>f. (f_number f, f)) gs" and gs: "set gs = set fs"
  shows "c_closed c" "c_last_frame_number c = word_of_nat (length fs - 1)"
proof -
  let ?l = "fs ! (length fs - 1)"
  from w have fs: "fs \<noteq> []" unfolding whole_channel_def by blast
  then have l: "?l \<in> set gs" "length fs - 1 < length fs" using gs by simp_all
  have num: "f_number ?l = word_of_nat (length fs - 1)" "f_is_last ?l"
    using w l(2) fs unfolding whole_channel_def by auto
  from l(1) have "(f_number ?l, ?l) \<in> set (c_inputs c)" unfolding c by simp
  from channel_invD(3) [OF inv this] num
  show "c_closed c" "c_last_frame_number c = word_of_nat (length fs - 1)" by simp_all
qed

lemma whole_ready:
  assumes inv: "channel_inv c" and w: "whole_channel (c_id c) fs"
    and c: "c_inputs c = map (\<lambda>f. (f_number f, f)) gs"
    and gs: "set gs = set fs" "length gs = length fs"
  shows "is_ready c \<longleftrightarrow> length fs \<le> 65535" "frame_data c = Some (channel_data fs)"
proof -
  note last = last_number_whole [OF inv w c gs(1)]
  from w have fs: "0 < length fs" "length fs \<le> 65536" unfolding whole_channel_def by auto
  note range = frame_range_whole [OF fs]
  have "contains_frame c (word_of_nat i)" if "i < length fs" for i
    unfolding contains_frame_def c using inputs_lookup [OF w gs(1) that] by simp
  then have all: "list_all (contains_frame c) (frame_range (c_last_frame_number c))"
    unfolding last(2) range list_all_iff by auto
  have succ: "word_of_nat (length fs - 1) + 1 = (word_of_nat (length fs) :: u16)"
    using fs(1) by (metis Suc_pred' of_nat_Suc add.commute)
  have "channel_len c = unat (c_last_frame_number c + 1) \<longleftrightarrow> length fs \<le> 65535"
    unfolding last(2) succ using fs
    by (cases "length fs = 65536") (auto simp: channel_len_def c gs unat_of_nat)
  with all last(1) show "is_ready c \<longleftrightarrow> length fs \<le> 65535" by (simp add: is_ready_def)
  have "gs \<noteq> []" using fs gs by auto
  then show "frame_data c = Some (channel_data fs)"
    unfolding frame_data_def last(2) range
    using collect_data_whole [OF w gs(1), of "[0..<length fs]" "[]"]
    by (simp add: channel_is_empty_def c channel_data_nth atLeast0LessThan)
qed

text \<open>
  Conversely, a ready channel holds a whole channel: sort its frames by number.
\<close>

lemma ready_whole:
  assumes inv: "channel_inv c" and ready: "is_ready c"
  defines "fs \<equiv> map (\<lambda>n. the (map_of (c_inputs c) n)) (frame_range (c_last_frame_number c))"
  shows "whole_channel (c_id c) fs" "set fs = snd ` set (c_inputs c)" "length fs \<le> 65535"
proof -
  let ?l = "c_last_frame_number c"
  have all: "contains_frame c n" if "n \<in> set (frame_range ?l)" for n
    using ready that unfolding is_ready_def list_all_iff by blast
  have len: "length fs = Suc (unat ?l)" by (simp add: fs_def frame_range_def)
  have count: "length (c_inputs c) = unat (?l + 1)"
    using ready by (simp add: is_ready_def channel_len_def)
  have nonempty: "c_inputs c \<noteq> []"
    using ready channel_invD(4) [OF inv] by (auto simp: is_ready_def)
  have not_max: "?l \<noteq> -1"
  proof
    assume "?l = -1"
    with count nonempty show False by simp
  qed
  then have suc: "unat (?l + 1) = Suc (unat ?l)"
    by (metis unat_eq_zero Suc_eq_plus1 add.commute eq_neg_iff_add_eq_0 unatSuc)
  have lt: "Suc (unat ?l) < 65536" using unat_less_pow [of "?l + 1"] suc by simp
  with len show "length fs \<le> 65535" by simp
  have nth: "(word_of_nat i, fs ! i) \<in> set (c_inputs c)" if "i < length fs" for i
  proof -
    have "word_of_nat i \<in> set (frame_range ?l)"
      using that len unfolding frame_range_def by (simp del: upt_Suc)
    from all [OF this] obtain f where f: "map_of (c_inputs c) (word_of_nat i) = Some f"
      unfolding contains_frame_def by blast
    have "fs ! i = f"
      using that len f unfolding fs_def frame_range_def by (simp del: upt_Suc)
    with map_of_SomeD [OF f] show ?thesis by simp
  qed
  have num: "f_number (fs ! i) = word_of_nat i" "f_id (fs ! i) = c_id c"
    "f_is_last (fs ! i) \<longleftrightarrow> Suc i = length fs" if i: "i < length fs" for i
  proof -
    have closed: "c_closed c" using ready by (simp add: is_ready_def)
    note inv_i = channel_invD(3) [OF inv nth [OF i]]
    have "word_of_nat i = ?l \<longleftrightarrow> Suc i = length fs"
      using i len lt unat_frame_no [of i] by (auto simp: word_unat_eq_iff)
    with inv_i closed show "f_number (fs ! i) = word_of_nat i" "f_id (fs ! i) = c_id c"
      "f_is_last (fs ! i) \<longleftrightarrow> Suc i = length fs" by simp_all
  qed
  then show "whole_channel (c_id c) fs"
    using len lt unfolding whole_channel_def by auto
  have sub: "set fs \<subseteq> snd ` set (c_inputs c)"
  proof
    fix f assume "f \<in> set fs"
    then obtain i where "i < length fs" "f = fs ! i" by (metis in_set_conv_nth)
    then show "f \<in> snd ` set (c_inputs c)" using nth [of i] by force
  qed
  have "card (set fs) = length fs"
    using whole_channel_distinct [OF \<open>whole_channel (c_id c) fs\<close>] by (rule distinct_card)
  moreover have "card (snd ` set (c_inputs c)) \<le> length (c_inputs c)"
    by (metis card_image_le card_length finite_set le_trans)
  ultimately show "set fs = snd ` set (c_inputs c)"
    using sub len count suc by (metis card_seteq finite_imageI finite_set)
qed

lemma inputs_self:
  assumes "channel_inv c"
  shows "c_inputs c = map (\<lambda>f. (f_number f, f)) (map snd (c_inputs c))"
proof -
  have "\<forall>x \<in> set (c_inputs c). (f_number (snd x), snd x) = x"
    using channel_invD(3) [OF assms] by (metis prod.collapse)
  then show ?thesis by (simp add: map_idI comp_def)
qed

lemma add_frames_permuted:
  assumes "whole_channel cid fs" and "distinct (map fst arrivals)" and "set (map fst arrivals) = set fs"
  obtains c where "add_frames (channel_new cid b) arrivals = Ok c"
    "is_ready c \<longleftrightarrow> length fs \<le> 65535" "frame_data c = Some (channel_data fs)"
proof -
  let ?c0 = "channel_new cid b"
  have c0: "c_id ?c0 = cid" "c_inputs ?c0 = []" by (simp_all add: channel_new_def)
  from add_frames_whole [OF channel_inv_new, of cid b fs "[]" arrivals] obtain c where
    c: "add_frames ?c0 arrivals = Ok c" "channel_inv c" "c_id c = cid"
      "c_inputs c = map (\<lambda>f. (f_number f, f)) (map fst arrivals)"
    using assms c0 by auto
  have len: "length (map fst arrivals) = length fs"
    using assms whole_channel_distinct distinct_card by metis
  note ready = whole_ready [OF c(2) _ c(4) assms(3) len, unfolded c(3), OF assms(1)]
  show ?thesis by (rule that [OF c(1) ready])
qed

text \<open>One arrival as the stages handle it: a frame that is refused leaves the channel alone.\<close>

definition feed :: "frame \<times> block_info \<Rightarrow> channel \<Rightarrow> channel" where
  "feed x c = (case add_frame c (fst x) (snd x) of Ok c' \<Rightarrow> c' | _ \<Rightarrow> c)"

lemma feed_inv: "channel_inv c \<Longrightarrow> channel_inv (feed x c)"
  using add_frame_inv by (simp add: feed_def split: outcome.split)

lemma ready_data:
  assumes "channel_inv c" and "is_ready c"
  shows "\<exists>fs. whole_channel (c_id c) fs \<and> set fs = snd ` set (c_inputs c)
    \<and> frame_data c = Some (channel_data fs)"
proof -
  from ready_whole [OF assms] obtain fs where
    fs: "whole_channel (c_id c) fs" "set fs = snd ` set (c_inputs c)" "length fs \<le> 65535" by blast
  have gs: "set (map snd (c_inputs c)) = set fs" using fs(2) by simp
  have d: "distinct (map snd (c_inputs c))"
    using channel_invD(1) [OF assms(1)] inputs_self [OF assms(1)]
    by (metis (no_types, lifting) distinct_map map_map)
  have len: "length (map snd (c_inputs c)) = length fs"
    using distinct_card [OF d] distinct_card [OF whole_channel_distinct [OF fs(1)]] gs by simp
  show ?thesis
    using whole_ready(2) [OF assms(1) fs(1) inputs_self [OF assms(1)] gs len] fs by blast
qed

section \<open>Properties\<close>

text \<open>C6. Reassembly is independent of the arrival order: if the frames of a whole channel of at
  most 65535 frames are added in any order, each at any inclusion block, every frame is
  accepted, the channel ends up ready, and \<open>frame_data\<close> is the concatenation of the frames' data
  in frame-number order.
\<close>

theorem channel_reassembly:
  assumes "whole_channel cid fs" and "length fs \<le> 65535"
    and "distinct (map fst arrivals)" and "set (map fst arrivals) = set fs"
  shows "\<exists>c. add_frames (channel_new cid b) arrivals = Ok c \<and> is_ready c
    \<and> frame_data c = Some (channel_data fs)"
  using add_frames_permuted [OF assms(1,3,4), of b] assms(2) by metis

definition sample_frame :: "nat \<Rightarrow> bytes \<Rightarrow> bool \<Rightarrow> frame" where
  "sample_frame n d l =
     \<lparr>f_id = replicate 16 7, f_number = word_of_nat n, f_data = d, f_is_last = l\<rparr>"

theorem channel_reassembly_witness:
  "\<exists>c. add_frames (channel_new (replicate 16 7) block_info_default)
       [(sample_frame 1 [3] True, block_info_default),
        (sample_frame 0 [1, 2] False, block_info_default)] = Ok c
     \<and> is_ready c
     \<and> frame_data c = Some (channel_data [sample_frame 0 [1, 2] False, sample_frame 1 [3] True])"
  by (rule channel_reassembly)
     (auto simp: whole_channel_def sample_frame_def less_Suc_eq)


text \<open>Well-formedness is inductive: from a new channel, any sequence of arriving frames, valid
  or not, leads to a channel in which the numbers are distinct, \<open>estimated_size\<close> is exactly the
  sum of the buffered frames' sizes, the highest number is right and nothing lies beyond the
  closing frame.
\<close>

lemma channel_inv_reachable:
  "channel_inv (fold feed arrivals (channel_new cid b))"
proof -
  have "channel_inv c \<Longrightarrow> channel_inv (fold feed arrivals c)" for c
    by (induction arrivals arbitrary: c) (simp_all add: feed_inv)
  then show ?thesis using channel_inv_new by blast
qed

text \<open>C34. The largest channel is lost: a whole channel of 65536 frames, the most that 16-bit frame
  numbers allow, is accepted frame by frame and its data is complete, but \<open>is_ready\<close> never
  becomes true, because \<open>last_frame_number + 1\<close> wraps to 0.
\<close>

theorem channel_65536_never_ready:
  assumes "whole_channel cid fs" and "length fs = 65536"
  shows "\<exists>c. add_frames (channel_new cid b) (map (\<lambda>f. (f, b)) fs) = Ok c
    \<and> frame_data c = Some (channel_data fs) \<and> \<not> is_ready c"
proof -
  have fst: "map fst (map (\<lambda>f. (f, b)) fs) = fs" by (simp add: comp_def)
  obtain c where "add_frames (channel_new cid b) (map (\<lambda>f. (f, b)) fs) = Ok c"
    "is_ready c \<longleftrightarrow> length fs \<le> 65535" "frame_data c = Some (channel_data fs)"
    by (rule add_frames_permuted [OF assms(1), of "map (\<lambda>f. (f, b)) fs" b])
       (simp_all only: fst whole_channel_distinct [OF assms(1)])
  then show ?thesis using assms(2) by (intro exI [of _ c]) simp
qed

definition sample_channel :: "nat \<Rightarrow> frame list" where
  "sample_channel n = map (\<lambda>i. sample_frame i [] (Suc i = n)) [0..<n]"

lemma length_sample_channel [simp]: "length (sample_channel n) = n"
  by (simp add: sample_channel_def)

lemma whole_sample_channel:
  "0 < n \<Longrightarrow> n \<le> 65536 \<Longrightarrow> whole_channel (replicate 16 7) (sample_channel n)"
  by (auto simp: whole_channel_def sample_channel_def sample_frame_def)

theorem channel_65536_never_ready_witness:
  "\<exists>c. add_frames (channel_new (replicate 16 7) block_info_default)
      (map (\<lambda>f. (f, block_info_default)) (sample_channel 65536)) = Ok c
    \<and> frame_data c = Some (channel_data (sample_channel 65536)) \<and> \<not> is_ready c"
  by (rule channel_65536_never_ready) (simp_all add: whole_sample_channel)


end
