(* ===== verification/Channel_Assembler.thy ===== *)
theory Channel_Assembler
  imports Frame_Queue Reassembly Config_Laws
begin

text \<open>
  The channel assembler of crates/consensus/derive/src/stages/channel/channel_assembler.rs, the
  channel stage from Holocene on: one channel at a time, frames in order, dropped on time-out and
  when it grows past the size limit.
\<close>

section \<open>State and operations\<close>

record 'p channel_assembler =
  ca_cfg :: rollup_config
  ca_prev :: 'p
  ca_channel :: "channel option"

definition channel_assembler_new :: "rollup_config \<Rightarrow> 'p \<Rightarrow> 'p channel_assembler" where
  "channel_assembler_new cfg prev = \<lparr>ca_cfg = cfg, ca_prev = prev, ca_channel = None\<rparr>"

definition ca_origin :: "('p, frame) stage \<Rightarrow> 'p channel_assembler \<Rightarrow> block_info option" where
  "ca_origin P s = st_origin P (ca_prev s)"

definition channel_timed_out :: "rollup_config \<Rightarrow> block_info \<Rightarrow> channel \<Rightarrow> bool" where
  "channel_timed_out cfg origin c \<longleftrightarrow>
     open_block_number c + channel_timeout cfg (bi_timestamp origin) < bi_number origin"

definition is_timed_out :: "('p, frame) stage \<Rightarrow> 'p channel_assembler \<Rightarrow> bool presult" where
  "is_timed_out P s =
     obind (ok_or (crit MissingOrigin) (ca_origin P s)) (\<lambda>origin.
     Ok (case ca_channel s of None \<Rightarrow> False | Some c \<Rightarrow> channel_timed_out (ca_cfg s) origin c))"

definition max_channel_size :: "rollup_config \<Rightarrow> block_info \<Rightarrow> u64" where
  "max_channel_size cfg origin =
     (if is_fjord_active cfg (bi_timestamp origin) then MAX_RLP_BYTES_PER_CHANNEL_FJORD
      else MAX_RLP_BYTES_PER_CHANNEL_BEDROCK)"

definition ca_add_frame ::
    "block_info \<Rightarrow> frame \<Rightarrow> channel \<Rightarrow> ('p channel_assembler, bytes option) action" where
  "ca_add_frame origin frame channel s =
     (if unat (f_number frame) \<noteq> channel_len channel then (Err (temp NotEnoughData), s)
      else case add_frame channel frame origin of
        Err _ \<Rightarrow> (Err (temp NotEnoughData), s)
      | Panic \<Rightarrow> (Panic, s)
      | Ok channel' \<Rightarrow>
          (let s = s\<lparr>ca_channel := Some channel'\<rparr> in
           if channel_size channel' > unat (max_channel_size (ca_cfg s) origin)
           then (Err (temp NotEnoughData), s\<lparr>ca_channel := None\<rparr>)
           else if is_ready channel'
           then (case frame_data channel' of
                   None \<Rightarrow> (Err (crit ChannelNotFound), s)
                 | Some channel_bytes \<Rightarrow> (Ok (Some channel_bytes), s\<lparr>ca_channel := None\<rparr>))
           else (Err (temp NotEnoughData), s)))"

definition ca_accept :: "block_info \<Rightarrow> frame \<Rightarrow> ('p channel_assembler, bytes option) action" where
  "ca_accept origin frame s =
     (let s = (if f_number frame = 0
               then s\<lparr>ca_channel := Some (channel_new (f_id frame) origin)\<rparr> else s) in
      case ca_channel s of
        Some channel \<Rightarrow> ca_add_frame origin frame channel s
      | None \<Rightarrow> (Err (temp NotEnoughData), s))"

definition ca_expire :: "('p, frame) stage \<Rightarrow> ('p channel_assembler, unit) action" where
  "ca_expire P s =
     (if ca_channel s = None then (Ok (), s)
      else case is_timed_out P s of
        Ok t \<Rightarrow> (Ok (), if t then s\<lparr>ca_channel := None\<rparr> else s)
      | Err e \<Rightarrow> (Err e, s)
      | Panic \<Rightarrow> (Panic, s))"

definition ca_next_data :: "('p, frame) stage \<Rightarrow> ('p channel_assembler, bytes option) action" where
  "ca_next_data P s =
     (case ca_origin P s of
        None \<Rightarrow> (Err (crit MissingOrigin), s)
      | Some origin \<Rightarrow>
          abind (ca_expire P) (\<lambda>_.
          abind (on_prev ca_prev ca_prev_update (st_next P)) (ca_accept origin)) s)"

definition ca_clear :: "unit \<Rightarrow> ('p channel_assembler, unit) action" where
  "ca_clear _ s = (Ok (), s\<lparr>ca_channel := None\<rparr>)"

definition ca_advance_origin :: "('p, frame) stage \<Rightarrow> ('p channel_assembler, unit) action" where
  "ca_advance_origin P = on_prev ca_prev ca_prev_update (st_advance P)"

definition ca_reset ::
    "('p, frame) stage \<Rightarrow> block_num_hash \<Rightarrow> system_config \<Rightarrow> ('p channel_assembler, unit) action" where
  "ca_reset P l1_origin cfg =
     abind (on_prev ca_prev ca_prev_update (st_reset P l1_origin cfg)) ca_clear"

definition ca_activate :: "('p, frame) stage \<Rightarrow> ('p channel_assembler, unit) action" where
  "ca_activate P = abind (on_prev ca_prev ca_prev_update (st_activate P)) ca_clear"

definition ca_flush_channel :: "('p, frame) stage \<Rightarrow> ('p channel_assembler, unit) action" where
  "ca_flush_channel P = abind (on_prev ca_prev ca_prev_update (st_flush P)) ca_clear"

definition channel_assembler_stage ::
    "('p, frame) stage \<Rightarrow> ('p channel_assembler, bytes option) stage" where
  "channel_assembler_stage P =
     \<lparr>st_next = ca_next_data P, st_origin = ca_origin P, st_advance = ca_advance_origin P,
      st_reset = ca_reset P, st_activate = ca_activate P, st_flush = ca_flush_channel P\<rparr>"

lemma channel_assembler_stage_simps [simp]:
  "st_next (channel_assembler_stage P) = ca_next_data P"
  "st_origin (channel_assembler_stage P) = ca_origin P"
  "st_advance (channel_assembler_stage P) = ca_advance_origin P"
  "st_reset (channel_assembler_stage P) = ca_reset P"
  "st_activate (channel_assembler_stage P) = ca_activate P"
  "st_flush (channel_assembler_stage P) = ca_flush_channel P"
  by (simp_all add: channel_assembler_stage_def)

section \<open>The assembler invariant\<close>

definition ca_good :: "('p \<Rightarrow> bool) \<Rightarrow> 'p channel_assembler \<Rightarrow> bool" where
  "ca_good good s \<longleftrightarrow> good (ca_prev s) \<and> pred_option channel_inv (ca_channel s)"

lemma add_frame_no_panic: "add_frame c f b \<noteq> Panic"
  by (simp add: add_frame_def)

text \<open>What accepting a frame does: the predecessor is untouched, the channel stays well-formed, the
  stage never panics or fails critically, and whatever it emits is a whole channel.\<close>

definition ca_step_ok :: "'p channel_assembler \<Rightarrow> bytes option presult \<times> 'p channel_assembler \<Rightarrow> bool" where
  "ca_step_ok s r \<longleftrightarrow>
     ca_prev (snd r) = ca_prev s \<and> ca_cfg (snd r) = ca_cfg s
     \<and> pred_option channel_inv (ca_channel (snd r))
     \<and> (fst r = Err (Temporary NotEnoughData)
        \<or> (\<exists>cid fs. whole_channel cid fs \<and> fst r = Ok (Some (channel_data fs))
             \<and> ca_channel (snd r) = None))"

lemma ca_step_okD:
  assumes "ca_step_ok s r"
  shows "fst r \<noteq> Panic" "ca_prev (snd r) = ca_prev s" "pred_option channel_inv (ca_channel (snd r))"
  using assms by (auto simp: ca_step_ok_def)

lemma ca_add_frame_ok:
  assumes "channel_inv channel" "pred_option channel_inv (ca_channel s)"
  shows "ca_step_ok s (ca_add_frame origin frame channel s)"
proof (cases "unat (f_number frame) = channel_len channel")
  case False
  then show ?thesis
    using assms by (simp add: ca_add_frame_def ca_step_ok_def)
next
  case True
  show ?thesis
  proof (cases "add_frame channel frame origin")
    case (Ok channel')
    have inv: "channel_inv channel'"
      using add_frame_inv [OF assms(1) Ok] .
    show ?thesis
    proof (cases "is_ready channel'")
      case ready: True
      obtain fs where "whole_channel (c_id channel') fs" "frame_data channel' = Some (channel_data fs)"
        using ready_data [OF inv ready] by blast
      then show ?thesis
        using True Ok inv ready by (auto simp: ca_add_frame_def ca_step_ok_def Let_def)
    next
      case False
      then show ?thesis
        using True Ok inv by (simp add: ca_add_frame_def ca_step_ok_def Let_def)
    qed
  qed (use True assms add_frame_no_panic in \<open>auto simp: ca_add_frame_def ca_step_ok_def\<close>)
qed

lemma ca_accept_ok:
  assumes "pred_option channel_inv (ca_channel s)"
  shows "ca_step_ok s (ca_accept origin frame s)"
proof -
  define s' where "s' = (if f_number frame = 0
    then s\<lparr>ca_channel := Some (channel_new (f_id frame) origin)\<rparr> else s)"
  have s': "pred_option channel_inv (ca_channel s')" "ca_prev s' = ca_prev s" "ca_cfg s' = ca_cfg s"
    using assms by (simp_all add: s'_def channel_inv_new)
  show ?thesis
  proof (cases "ca_channel s'")
    case None
    then show ?thesis
      using s' by (simp add: ca_accept_def ca_step_ok_def flip: s'_def)
  next
    case (Some channel)
    then have "ca_step_ok s' (ca_add_frame origin frame channel s')"
      using s'(1) by (intro ca_add_frame_ok) simp_all
    then show ?thesis
      using s' Some by (simp add: ca_accept_def ca_step_ok_def flip: s'_def)
  qed
qed

section \<open>The stage contract\<close>

lemma ca_on_prev_safe:
  "safe_action good act \<Longrightarrow> safe_action (ca_good good) (on_prev ca_prev ca_prev_update act)"
  by (auto simp: safe_action_def ca_good_def)

lemma ca_on_prev_keeps:
  "keeps good (st_origin P) act \<Longrightarrow>
   keeps (ca_good good) (ca_origin P) (on_prev ca_prev ca_prev_update act)"
  by (auto simp: keeps_def ca_good_def ca_origin_def)

lemma ca_accept_safe: "safe_action (ca_good good) (ca_accept origin frame)"
  and ca_accept_origin: "keeps (ca_good good) (ca_origin P) (ca_accept origin frame)"
proof -
  have step: "ca_step_ok s (ca_accept origin frame s)" if "ca_good good s" for s :: "'a channel_assembler"
    using that by (intro ca_accept_ok) (simp add: ca_good_def)
  show "safe_action (ca_good good) (ca_accept origin frame)"
    using ca_step_okD [OF step] by (auto simp: safe_action_def ca_good_def)
  show "keeps (ca_good good) (ca_origin P) (ca_accept origin frame)"
    using ca_step_okD(2) [OF step] by (simp add: keeps_def ca_origin_def)
qed

lemma ca_expire_safe: "safe_action (ca_good good) (ca_expire P)"
  and ca_expire_origin: "keeps (ca_good good) (ca_origin P) (ca_expire P)"
  by (auto simp: safe_action_def keeps_def ca_good_def ca_origin_def ca_expire_def is_timed_out_def
      ok_or_def split: option.splits)

lemma ca_clear_safe: "safe_action (ca_good good) (ca_clear u)"
  and ca_clear_origin: "keeps (ca_good good) (ca_origin P) (ca_clear u)"
  by (auto simp: safe_action_def keeps_def ca_clear_def ca_good_def ca_origin_def)

locale channel_source = pipeline_stage S good
  for S :: "('p, bytes option) stage" and good :: "'p \<Rightarrow> bool"

context frame_source
begin

lemma ca_next_data_safe: "safe_action (ca_good good) (ca_next_data S)"
  unfolding ca_next_data_def [abs_def]
  by (intro safe_with_view safe_abind ca_expire_safe ca_on_prev_safe next_safe ca_accept_safe)

lemma ca_next_data_origin: "keeps (ca_good good) (ca_origin S) (ca_next_data S)"
  unfolding ca_next_data_def [abs_def]
  by (intro keeps_with_view keeps_abind safe_abind ca_expire_safe ca_on_prev_safe next_safe
      ca_expire_origin ca_on_prev_keeps next_origin ca_accept_origin)

end

sublocale frame_source \<subseteq> ca: channel_source "channel_assembler_stage S" "ca_good good"
proof unfold_locales
  note prev = ca_on_prev_safe ca_on_prev_keeps
  show "safe_action (ca_good good) (st_next (channel_assembler_stage S))"
    "keeps (ca_good good) (st_origin (channel_assembler_stage S)) (st_next (channel_assembler_stage S))"
    by (simp_all add: ca_next_data_safe ca_next_data_origin)
  show "safe_action (ca_good good) (st_advance (channel_assembler_stage S))"
    by (simp add: ca_advance_origin_def prev advance_safe)
  show "safe_action (ca_good good) (st_reset (channel_assembler_stage S) l1_origin cfg)" for l1_origin cfg
    by (simp add: ca_reset_def safe_abind prev reset_safe ca_clear_safe)
  show "safe_action (ca_good good) (st_activate (channel_assembler_stage S))"
    by (simp add: ca_activate_def safe_abind prev activate_safe ca_clear_safe)
  show "safe_action (ca_good good) (st_flush (channel_assembler_stage S))"
    by (simp add: ca_flush_channel_def safe_abind prev flush_safe ca_clear_safe)
  show "keeps (ca_good good) (st_origin (channel_assembler_stage S)) (st_flush (channel_assembler_stage S))"
    by (simp add: ca_flush_channel_def keeps_abind prev flush_safe
        flush_origin ca_clear_origin)
qed

section \<open>In-order delivery\<close>

definition holds_prefix :: "bytes \<Rightarrow> block_info \<Rightarrow> frame list \<Rightarrow> channel \<Rightarrow> bool" where
  "holds_prefix cid origin gs c \<longleftrightarrow>
     channel_inv c \<and> c_id c = cid \<and> c_open_block c = origin
     \<and> c_inputs c = map (\<lambda>f. (f_number f, f)) gs"

lemma whole_prefix_not_ready:
  assumes w: "whole_channel cid fs" and h: "holds_prefix cid b (take k fs) c" and k: "k < length fs"
  shows "\<not> is_ready c"
proof
  assume ready: "is_ready c"
  from h have inv: "channel_inv c" and cid: "c_id c = cid"
    by (simp_all add: holds_prefix_def)
  from ready_data [OF inv ready] obtain gs where
    gs: "whole_channel cid gs" "set gs = snd ` set (c_inputs c)"
    using cid by blast
  let ?l = "gs ! (length gs - 1)"
  have ne: "gs \<noteq> []"
    using gs(1) by (simp add: whole_channel_def)
  then have "?l \<in> set gs" "unat (f_number ?l) = length gs - 1"
    using whole_number [OF gs(1), of "length gs - 1"] by simp_all
  then have "f_is_last ?l" "?l \<in> set (take k fs)"
    using whole_le_last(2) [OF gs(1)] gs(2) h by (auto simp: holds_prefix_def)
  then obtain i where "i < k" "f_is_last (fs ! i)"
    by (auto simp: in_set_conv_nth)
  then show False
    using whole_le_last(2) [OF w, of "fs ! i"] whole_number [OF w, of i] k by simp
qed

lemma holds_prefix_new: "holds_prefix (f_id f) l1 [] (channel_new (f_id f) l1)"
  using channel_inv_new by (simp add: holds_prefix_def channel_new_def)

lemma inputs_size_frames: "inputs_size (map (\<lambda>f. (f_number f, f)) gs) = sum_list (map frame_size gs)"
  by (induction gs) simp_all

lemma holds_prefix_add:
  assumes w: "whole_channel cid fs" and h: "holds_prefix cid l1 (take k fs) c" and k: "k < length fs"
  obtains c' where "add_frame c (fs ! k) l1 = Ok c'" "holds_prefix cid l1 (take (Suc k) fs) c'"
proof -
  from h have inv: "channel_inv c" "c_id c = cid"
      "c_inputs c = map (\<lambda>f. (f_number f, f)) (take k fs)"
    by (simp_all add: holds_prefix_def)
  have fresh: "fs ! k \<notin> set (take k fs)"
    using whole_channel_distinct [OF w] k by (auto simp: in_set_conv_nth nth_eq_iff_index_eq)
  have "whole_channel (c_id c) fs" "fs ! k \<in> set fs"
    using w inv(2) k by simp_all
  then obtain c' where c': "add_frame c (fs ! k) l1 = Ok c'" "channel_inv c'" "c_id c' = c_id c"
      "c_inputs c' = map (\<lambda>f. (f_number f, f)) (take k fs @ [fs ! k])"
    using add_frame_whole [OF inv(1) _ inv(3) set_take_subset _ fresh, of l1] by blast
  moreover have "c_open_block c' = c_open_block c"
    using add_frame_OkD(5) [OF c'(1)]
    by (simp add: buffer_frame_def close_channel_def prune_beyond_def Let_def)
  ultimately show ?thesis
    using that h inv k by (simp add: holds_prefix_def take_Suc_conv_app_nth)
qed

definition within_limits :: "rollup_config \<Rightarrow> block_info \<Rightarrow> frame list \<Rightarrow> bool" where
  "within_limits cfg l1 fs \<longleftrightarrow>
     length fs \<le> 65535
     \<and> sum_list (map frame_size fs) \<le> unat (max_channel_size cfg l1)
     \<and> unat (bi_number l1) + unat (channel_timeout cfg (bi_timestamp l1)) < 2 ^ 64"

definition assembling :: "block_info \<Rightarrow> frame list \<Rightarrow> nat \<Rightarrow> 'p channel_assembler \<Rightarrow> bool" where
  "assembling l1 fs k s \<longleftrightarrow>
     k = 0 \<or> (\<exists>c. ca_channel s = Some c \<and> holds_prefix (f_id (fs ! 0)) l1 (take k fs) c)"

lemma not_timed_out:
  assumes "within_limits cfg l1 fs" "c_open_block c = l1"
  shows "\<not> channel_timed_out cfg l1 c"
  using assms
  by (simp add: within_limits_def channel_timed_out_def open_block_number_def word_less_nat_alt
      unat_add_lem [THEN iffD1])

lemma prefix_size:
  assumes "within_limits cfg l1 fs" "holds_prefix cid l1 (take k fs) c"
  shows "channel_size c \<le> unat (max_channel_size cfg l1)"
proof -
  have "channel_size c = sum_list (map frame_size (take k fs))"
    using assms(2) channel_invD(2) [of c]
    by (simp add: holds_prefix_def channel_size_def inputs_size_frames)
  also have "\<dots> \<le> sum_list (map frame_size (take k fs)) + sum_list (map frame_size (drop k fs))"
    by simp
  also have "\<dots> = sum_list (map frame_size fs)"
    by (metis append_take_drop_id map_append sum_list_append)
  finally show ?thesis
    using assms(1) by (simp add: within_limits_def)
qed

lemma ca_channel_self: "ca_channel s = ch \<Longrightarrow> s\<lparr>ca_channel := ch\<rparr> = s"
  by (cases s) simp

lemma ca_expire_assembling:
  assumes "within_limits (ca_cfg s) l1 fs" "ca_origin P s = Some l1" "assembling l1 fs k s"
  shows "\<exists>ch. ca_expire P s = (Ok (), s\<lparr>ca_channel := ch\<rparr>) \<and> assembling l1 fs k (s\<lparr>ca_channel := ch\<rparr>)"
proof (cases "k = 0")
  case True
  have "\<exists>ch. ca_expire P s = (Ok (), s\<lparr>ca_channel := ch\<rparr>)"
    using assms(2) by (cases "ca_channel s") (auto simp: ca_expire_def is_timed_out_def intro: exI [of _ "ca_channel s"])
  then show ?thesis
    using True by (auto simp: assembling_def)
next
  case False
  then obtain c where c: "ca_channel s = Some c" "holds_prefix (f_id (fs ! 0)) l1 (take k fs) c"
    using assms(3) by (auto simp: assembling_def)
  then have "\<not> channel_timed_out (ca_cfg s) l1 c"
    using not_timed_out [OF assms(1)] by (simp add: holds_prefix_def)
  then show ?thesis
    using assms c by (intro exI [of _ "Some c"]) (auto simp: ca_expire_def is_timed_out_def ca_channel_self)
qed

lemma ca_accept_assembling:
  assumes w: "whole_channel cid fs" and lim: "within_limits (ca_cfg s) l1 fs"
    and at: "assembling l1 fs k s" and k: "k < length fs"
  shows "if Suc k = length fs
    then ca_accept l1 (fs ! k) s = (Ok (Some (channel_data fs)), s\<lparr>ca_channel := None\<rparr>)
    else \<exists>ch. ca_accept l1 (fs ! k) s = (Err (Temporary NotEnoughData), s\<lparr>ca_channel := ch\<rparr>)
      \<and> assembling l1 fs (Suc k) (s\<lparr>ca_channel := ch\<rparr>)"
proof -
  have ids: "f_id (fs ! i) = cid" "f_number (fs ! i) = word_of_nat i" if "i < length fs" for i
    using w that by (auto simp: whole_channel_def)
  have len: "length fs \<le> 65535"
    using lim by (simp add: within_limits_def)
  have id0: "f_id (fs ! 0) = cid"
    using k by (intro ids(1)) linarith
  have zero: "f_number (fs ! k) = 0 \<longleftrightarrow> k = 0"
    using whole_number [OF w k] unat_eq_zero by metis
  define c where "c = (if k = 0 then channel_new (f_id (fs ! k)) l1 else the (ca_channel s))"
  have c: "holds_prefix cid l1 (take k fs) c"
    using at id0 ids(1) [OF k] holds_prefix_new [of "fs ! k" l1]
    by (cases "k = 0") (auto simp: assembling_def c_def)
  have start: "ca_accept l1 (fs ! k) s = ca_add_frame l1 (fs ! k) c (s\<lparr>ca_channel := Some c\<rparr>)"
    using at zero by (auto simp: ca_accept_def assembling_def c_def Let_def ca_channel_self)
  have num: "unat (f_number (fs ! k)) = channel_len c"
    using whole_number [OF w k] c k by (simp add: holds_prefix_def channel_len_def)
  obtain c' where c': "add_frame c (fs ! k) l1 = Ok c'" "holds_prefix cid l1 (take (Suc k) fs) c'"
    using holds_prefix_add [OF w c k] .
  note size = prefix_size [OF lim c'(2)]
  show ?thesis
  proof (cases "Suc k = length fs")
    case True
    then have "is_ready c'" "frame_data c' = Some (channel_data fs)"
      using whole_ready [of c' fs fs] w c'(2) len by (simp_all add: holds_prefix_def)
    then show ?thesis
      using True start num c'(1) size by (simp add: ca_add_frame_def)
  next
    case False
    then have "\<not> is_ready c'"
      using whole_prefix_not_ready [OF w c'(2)] k by simp
    then show ?thesis
      using False start num c' size id0
      by (auto simp: ca_add_frame_def assembling_def intro!: exI [of _ "Some c'"])
  qed
qed

lemma ca_next_assembling:
  assumes w: "whole_channel cid fs" and lim: "within_limits (ca_cfg s) l1 fs"
    and at: "assembling l1 fs k s" and k: "k < length fs"
    and origin: "st_origin P (ca_prev s) = Some l1"
    and pull: "st_next P (ca_prev s) = (Ok (fs ! k), p1)"
  shows "if Suc k = length fs
    then ca_next_data P s = (Ok (Some (channel_data fs)), s\<lparr>ca_prev := p1, ca_channel := None\<rparr>)
    else \<exists>ch. ca_next_data P s =
        (Err (Temporary NotEnoughData), s\<lparr>ca_prev := p1, ca_channel := ch\<rparr>)
      \<and> assembling l1 fs (Suc k) (s\<lparr>ca_prev := p1, ca_channel := ch\<rparr>)"
proof -
  have o: "ca_origin P s = Some l1"
    using origin by (simp add: ca_origin_def)
  obtain ch where ch: "ca_expire P s = (Ok (), s\<lparr>ca_channel := ch\<rparr>)"
      "assembling l1 fs k (s\<lparr>ca_channel := ch\<rparr>)"
    using ca_expire_assembling [OF lim o at] by blast
  define s1 where "s1 = s\<lparr>ca_channel := ch, ca_prev := p1\<rparr>"
  have s1: "ca_next_data P s = ca_accept l1 (fs ! k) s1"
    using o ch(1) pull by (simp add: ca_next_data_def abind_def on_prev_def s1_def)
  have "within_limits (ca_cfg s1) l1 fs" "assembling l1 fs k s1"
    using lim ch(2) by (simp_all add: s1_def assembling_def)
  from ca_accept_assembling [OF w this k] show ?thesis
    unfolding s1 by (cases "Suc k = length fs") (auto simp: s1_def)
qed

lemma run_calls_assembling:
  assumes w: "whole_channel cid fs" and lim: "within_limits (ca_cfg s) l1 fs"
    and at: "assembling l1 fs k s" and k: "k < length fs"
    and sup: "supplies P l1 (ca_prev s) (drop k fs) p'"
  shows "run_calls (length fs - k) (ca_next_data P) s =
    (replicate (length fs - Suc k) (Err (Temporary NotEnoughData)) @ [Ok (Some (channel_data fs))],
     s\<lparr>ca_prev := p', ca_channel := None\<rparr>)"
  using lim at k sup
proof (induction "length fs - Suc k" arbitrary: k s)
  case 0
  then have last: "Suc k = length fs" and rest: "drop k fs = [fs ! k]"
    by (simp_all add: Cons_nth_drop_Suc [symmetric])
  from 0(5) obtain p1 where p1: "st_origin P (ca_prev s) = Some l1"
      "st_next P (ca_prev s) = (Ok (fs ! k), p1)" "supplies P l1 p1 [] p'"
    unfolding rest by (auto elim: supplies_ConsE)
  have "p1 = p'"
    using p1(3) by (auto elim: supplies_NilE)
  moreover have "length fs - k = Suc 0"
    using last by simp
  ultimately show ?case
    using ca_next_assembling [OF w 0(2,3,4) p1(1,2)] last by simp
next
  case (Suc n)
  then have rest: "drop k fs = fs ! k # drop (Suc k) fs"
    by (simp add: Cons_nth_drop_Suc)
  from Suc.prems(4) obtain p1 where p1: "st_origin P (ca_prev s) = Some l1"
      "st_next P (ca_prev s) = (Ok (fs ! k), p1)" "supplies P l1 p1 (drop (Suc k) fs) p'"
    unfolding rest by (auto elim: supplies_ConsE)
  have more: "Suc k < length fs"
    using Suc.hyps(2) by simp
  then obtain ch where ch: "ca_next_data P s =
        (Err (Temporary NotEnoughData), s\<lparr>ca_prev := p1, ca_channel := ch\<rparr>)"
      "assembling l1 fs (Suc k) (s\<lparr>ca_prev := p1, ca_channel := ch\<rparr>)"
    using ca_next_assembling [OF w Suc.prems(1-3) p1(1,2)] by auto
  let ?s = "s\<lparr>ca_prev := p1, ca_channel := ch\<rparr>"
  have "run_calls (length fs - Suc k) (ca_next_data P) ?s =
    (replicate (length fs - Suc (Suc k)) (Err (Temporary NotEnoughData)) @ [Ok (Some (channel_data fs))],
     ?s\<lparr>ca_prev := p', ca_channel := None\<rparr>)"
    using Suc.prems(1) ch(2) more p1(3) Suc.hyps(2) by (intro Suc.hyps(1)) simp_all
  moreover have "length fs - k = Suc (length fs - Suc k)"
      "length fs - Suc k = Suc (length fs - Suc (Suc k))"
    using more by simp_all
  ultimately show ?case
    using ch(1) by simp
qed

section \<open>From a payload to a channel\<close>

lemma whole_contiguous: "whole_channel cid fs \<Longrightarrow> contiguous fs"
  unfolding contiguous_def adjacent_upto_def adjacent_ok_def whole_channel_def by auto

lemma supplies_queue:
  assumes "fq_origin P s = Some l1"
  shows "supplies (frame_queue_stage P) l1 s (fq_queue s) (s\<lparr>fq_queue := []\<rparr>)"
  using assms
proof (induction "fq_queue s" arbitrary: s)
  case Nil
  then have "s\<lparr>fq_queue := []\<rparr> = s"
    by (cases s) simp
  then show ?case
    using Nil(2) supplies_Nil [of "frame_queue_stage P" s l1]
    unfolding Nil(1) [symmetric] by simp
next
  case (Cons f fs)
  let ?s1 = "s\<lparr>fq_queue := fs\<rparr>"
  have step: "next_frame P s = (Ok f, ?s1)"
    using Cons.hyps(2) by (simp add: next_frame_def abind_def load_frames_def flip: Cons.hyps(2))
  have "supplies (frame_queue_stage P) l1 ?s1 (fq_queue ?s1) (?s1\<lparr>fq_queue := []\<rparr>)"
    using Cons.prems by (intro Cons.hyps(1)) (simp_all add: fq_origin_def)
  then show ?case
    unfolding Cons.hyps(2) [symmetric]
    using Cons.prems step by (intro supplies_Cons) simp_all
qed

lemma supplies_payload:
  assumes ps: "parse_frames data = Ok fs" and con: "contiguous fs" and ne: "fs \<noteq> []"
    and q: "fq_queue s = []" and o: "fq_origin P s = Some l1"
    and pull: "st_next P (fq_prev s) = (Ok data, p1)" and o1: "st_origin P p1 = Some l1"
  shows "supplies (frame_queue_stage P) l1 s fs (s\<lparr>fq_prev := p1, fq_queue := []\<rparr>)"
proof -
  let ?s1 = "s\<lparr>fq_prev := p1, fq_queue := fs\<rparr>"
  have "prune l1 ?s1 = Some ?s1"
    using ne con prune_nonempty [of ?s1 l1] prune_loop_id [OF con, of 0] by simp
  then have load: "load_frames P s = (Ok (), ?s1)"
    using assms
    by (simp add: load_frames_def abind_def on_prev_def ingest_data_def fq_origin_def Let_def)
  have load1: "load_frames P ?s1 = (Ok (), ?s1)"
    using ne by (simp add: load_frames_def)
  have "next_frame P s = next_frame P ?s1"
    by (simp add: next_frame_def abind_def load load1)
  moreover have "supplies (frame_queue_stage P) l1 ?s1 fs (?s1\<lparr>fq_queue := []\<rparr>)"
    using supplies_queue [of P ?s1 l1] o1 by (simp add: fq_origin_def)
  ultimately show ?thesis
    using ne o by (cases fs) (auto elim!: supplies_ConsE intro: supplies_Cons)
qed

definition two_frames :: "frame list" where
  "two_frames = [sample_frame 0 [1, 2] False, sample_frame 1 [3] True]"

definition one_frame_channel :: "frame list" where
  "one_frame_channel = [sample_frame 0 [9] True]"

lemma one_frame_whole: "whole_channel (replicate 16 7) one_frame_channel"
  by (simp add: whole_channel_def one_frame_channel_def sample_frame_def)

lemma default_limits:
  "max_channel_size rollup_config_default block_info_default = 10000000"
  "channel_timeout rollup_config_default (bi_timestamp block_info_default) = 0"
  by (simp_all add: max_channel_size_def channel_timeout_def fork_defs active_at_def
      upgrade_activation_timestamp_def upgrade_activation_of_def registry_activation_def
      rollup_config_default_def upgrade_config_default_def block_info_default_def
      MAX_RLP_BYTES_PER_CHANNEL_BEDROCK_def)

lemma sample_limits:
  "within_limits rollup_config_default block_info_default one_frame_channel"
  "within_limits rollup_config_default block_info_default two_frames"
  unfolding within_limits_def default_limits
  by (simp_all add: one_frame_channel_def two_frames_def sample_frame_def frame_size_def
      FRAME_OVERHEAD_def block_info_default_def)

lemma two_frames_simps: "length two_frames = 2" "channel_data two_frames = [1, 2, 3]"
  by (simp_all add: two_frames_def channel_data_def sample_frame_def)

lemma two_frames_whole: "whole_channel (replicate 16 7) two_frames"
  by (simp add: whole_channel_def two_frames_def sample_frame_def less_Suc_eq)

section \<open>Properties\<close>



text \<open>C25. From a posted payload to the channel: if the L1 data source delivers the payload holding the
  frames of a whole channel that respects the size, frame-count and time-out limits, pulling the
  assembler once per frame asks for more data until the last frame and then returns exactly the
  concatenated frame data, leaving queue and assembler empty.\<close>

theorem payload_to_channel:
  assumes "whole_channel cid fs" and "\<forall>f \<in> set fs. frame_wf f" and "within_limits cfg l1 fs"
    and "st_origin P p = Some l1" and "st_next P p = (Ok (frames_payload fs), p1)"
    and "st_origin P p1 = Some l1"
  shows "run_calls (length fs) (ca_next_data (frame_queue_stage P))
      (channel_assembler_new cfg (frame_queue_new p cfg)) =
    (replicate (length fs - 1) (Err (Temporary NotEnoughData)) @ [Ok (Some (channel_data fs))],
     channel_assembler_new cfg (frame_queue_new p1 cfg))"
proof -
  have ne: "fs \<noteq> []"
    using assms(1) by (simp add: whole_channel_def)
  have "supplies (frame_queue_stage P) l1 (frame_queue_new p cfg) fs
      ((frame_queue_new p cfg)\<lparr>fq_prev := p1, fq_queue := []\<rparr>)"
    using assms(4-6)
    by (intro supplies_payload [OF parse_payload [OF ne assms(2)] whole_contiguous [OF assms(1)] ne])
       (simp_all add: frame_queue_new_def fq_origin_def)
  then show ?thesis
    using run_calls_assembling [OF assms(1), of "channel_assembler_new cfg (frame_queue_new p cfg)" l1 0]
      assms(3) ne
    by (simp add: channel_assembler_new_def assembling_def frame_queue_new_def)
qed

theorem payload_to_channel_witness:
  "run_calls 2 (ca_next_data (frame_queue_stage replay))
      (channel_assembler_new rollup_config_default
         (frame_queue_new ([frames_payload two_frames], block_info_default) rollup_config_default)) =
    ([Err (Temporary NotEnoughData), Ok (Some [1, 2, 3])],
     channel_assembler_new rollup_config_default
       (frame_queue_new ([], block_info_default) rollup_config_default))"
proof -
  have "\<forall>f \<in> set two_frames. frame_wf f"
    by (simp add: two_frames_def sample_frame_def frame_wf_def FRAME_MAX_LEN_def)
  then show ?thesis
    using payload_to_channel [OF two_frames_whole, of rollup_config_default block_info_default replay
        "([frames_payload two_frames], block_info_default)" "([], block_info_default)"] sample_limits(2)
    by (simp add: two_frames_simps)
qed

end
