(* ===== verification/Channel_Bank.thy ===== *)
theory Channel_Bank
  imports Channel_Assembler
begin

text \<open>
  The channel bank of crates/consensus/derive/src/stages/channel/channel_bank.rs, the channel
  stage before Holocene: several channels at once in FIFO order, read from the head (the first
  ready one from Canyon on), dropped on time-out and pruned from the head when the bank grows past
  its limit.  The hash map is an association list with distinct keys.
\<close>

section \<open>State and operations\<close>

definition MAX_CHANNEL_BANK_SIZE :: nat where "MAX_CHANNEL_BANK_SIZE = 100000000"
definition FJORD_MAX_CHANNEL_BANK_SIZE :: nat where "FJORD_MAX_CHANNEL_BANK_SIZE = 1000000000"

record 'p channel_bank =
  cb_cfg :: rollup_config
  cb_channels :: "(bytes \<times> channel) list"
  cb_queue :: "bytes list"
  cb_prev :: 'p

definition channel_bank_new :: "rollup_config \<Rightarrow> 'p \<Rightarrow> 'p channel_bank" where
  "channel_bank_new cfg prev = \<lparr>cb_cfg = cfg, cb_channels = [], cb_queue = [], cb_prev = prev\<rparr>"

definition channels_size :: "(bytes \<times> channel) list \<Rightarrow> nat" where
  "channels_size chs = foldl (\<lambda>acc (_, c). acc + channel_size c) 0 chs"

definition cb_size :: "'p channel_bank \<Rightarrow> nat" where
  "cb_size s = channels_size (cb_channels s)"

definition cb_origin :: "('p, frame) stage \<Rightarrow> 'p channel_bank \<Rightarrow> block_info option" where
  "cb_origin P s = st_origin P (cb_prev s)"

definition max_channel_bank_size :: "rollup_config \<Rightarrow> block_info \<Rightarrow> nat" where
  "max_channel_bank_size cfg origin =
     (if is_fjord_active cfg (bi_timestamp origin) then FJORD_MAX_CHANNEL_BANK_SIZE
      else MAX_CHANNEL_BANK_SIZE)"

text \<open>The loop of \<open>prune\<close>.  The running total is the size of the channels still held, so the
  subtraction never underflows.\<close>

fun prune_channels :: "nat \<Rightarrow> nat \<Rightarrow> bytes list \<Rightarrow> (bytes \<times> channel) list
    \<Rightarrow> unit presult \<times> bytes list \<times> (bytes \<times> channel) list" where
  "prune_channels limit total_size [] chs =
     (if total_size > limit then (Err (crit ChannelProviderEmpty), [], chs) else (Ok (), [], chs))"
| "prune_channels limit total_size (i # q) chs =
     (if total_size > limit then
        (case map_of chs i of
           None \<Rightarrow> (Err (crit ChannelNotFound), q, chs)
         | Some c \<Rightarrow> prune_channels limit (total_size - channel_size c) q (AList.delete i chs))
      else (Ok (), i # q, chs))"

definition cb_prune :: "('p, frame) stage \<Rightarrow> ('p channel_bank, unit) action" where
  "cb_prune P s =
     (case cb_origin P s of
        None \<Rightarrow> (Err (crit MissingOrigin), s)
      | Some origin \<Rightarrow>
          (let (r, q, chs) = prune_channels (max_channel_bank_size (cb_cfg s) origin) (cb_size s)
                 (cb_queue s) (cb_channels s)
           in (r, s\<lparr>cb_queue := q, cb_channels := chs\<rparr>)))"

definition cb_open :: "block_info \<Rightarrow> bytes \<Rightarrow> 'p channel_bank \<Rightarrow> 'p channel_bank" where
  "cb_open origin i s =
     (case map_of (cb_channels s) i of
        Some _ \<Rightarrow> s
      | None \<Rightarrow> s\<lparr>cb_queue := cb_queue s @ [i],
                  cb_channels := AList.update i (channel_new i origin) (cb_channels s)\<rparr>)"

definition ingest_frame :: "('p, frame) stage \<Rightarrow> frame \<Rightarrow> ('p channel_bank, unit) action" where
  "ingest_frame P frame s =
     (case cb_origin P s of
        None \<Rightarrow> (Err (crit MissingOrigin), s)
      | Some origin \<Rightarrow>
          (let s = cb_open origin (f_id frame) s in
           case map_of (cb_channels s) (f_id frame) of
             None \<Rightarrow> (Panic, s)
           | Some current_channel \<Rightarrow>
               (if channel_timed_out (cb_cfg s) origin current_channel then (Ok (), s)
                else case add_frame current_channel frame origin of
                  Panic \<Rightarrow> (Panic, s)
                | Err _ \<Rightarrow> (Ok (), s)
                | Ok c \<Rightarrow> cb_prune P (s\<lparr>cb_channels := AList.update (f_id frame) c (cb_channels s)\<rparr>))))"

definition try_read_channel_at_index :: "('p, frame) stage \<Rightarrow> nat \<Rightarrow> ('p channel_bank, bytes) action" where
  "try_read_channel_at_index P i s =
     (if length (cb_queue s) \<le> i then (Panic, s)
      else case map_of (cb_channels s) (cb_queue s ! i) of
        None \<Rightarrow> (Err (crit ChannelProviderEmpty), s)
      | Some c \<Rightarrow>
          (case cb_origin P s of
             None \<Rightarrow> (Err (crit MissingOrigin), s)
           | Some origin \<Rightarrow>
               (if channel_timed_out (cb_cfg s) origin c \<or> \<not> is_ready c
                then (Err (temp Eof), s)
                else (ok_or (crit ChannelProviderEmpty) (frame_data c),
                      s\<lparr>cb_channels := AList.delete (cb_queue s ! i) (cb_channels s),
                        cb_queue := remove_at i (cb_queue s)\<rparr>))))"

text \<open>\<open>find_map\<close> over the indices, keeping the first success.\<close>

fun find_ready :: "('p, frame) stage \<Rightarrow> nat list \<Rightarrow> ('p channel_bank, bytes option) action" where
  "find_ready P [] s = (Err (temp Eof), s)"
| "find_ready P (i # is) s =
     (case try_read_channel_at_index P i s of
        (Ok data, s') \<Rightarrow> (Ok (Some data), s')
      | (Err _, s') \<Rightarrow> find_ready P is s'
      | (Panic, s') \<Rightarrow> (Panic, s'))"

definition cb_read :: "('p, frame) stage \<Rightarrow> ('p channel_bank, bytes option) action" where
  "cb_read P s =
     (case cb_queue s of
        [] \<Rightarrow> (Err (temp Eof), s)
      | first # rest \<Rightarrow>
          (case map_of (cb_channels s) first of
             None \<Rightarrow> (Err (crit ChannelProviderEmpty), s)
           | Some c \<Rightarrow>
               (case cb_origin P s of
                  None \<Rightarrow> (Err (crit ChannelProviderEmpty), s)
                | Some origin \<Rightarrow>
                    (if channel_timed_out (cb_cfg s) origin c
                     then (Ok None, s\<lparr>cb_channels := AList.delete first (cb_channels s),
                                      cb_queue := rest\<rparr>)
                     else if \<not> is_canyon_active (cb_cfg s) (bi_timestamp origin)
                     then abind (try_read_channel_at_index P 0) (\<lambda>d. areturn (Ok (Some d))) s
                     else find_ready P [0..<length (cb_queue s)] s))))"

definition cb_load :: "('p, frame) stage \<Rightarrow> ('p channel_bank, bytes option) action" where
  "cb_load P =
     abind (on_prev cb_prev cb_prev_update (st_next P)) (\<lambda>frame.
     abind (ingest_frame P frame) (\<lambda>_. areturn (Err (temp NotEnoughData))))"

definition cb_next_data :: "('p, frame) stage \<Rightarrow> ('p channel_bank, bytes option) action" where
  "cb_next_data P s =
     (case cb_read P s of
        (Err e, s') \<Rightarrow> (if e \<noteq> Temporary Eof then (Err (crit ChannelProviderEmpty), s')
                        else cb_load P s')
      | (data, s') \<Rightarrow> (data, s'))"

definition cb_clear :: "unit \<Rightarrow> ('p channel_bank, unit) action" where
  "cb_clear _ s = (Ok (), s\<lparr>cb_channels := [], cb_queue := []\<rparr>)"

definition cb_advance_origin :: "('p, frame) stage \<Rightarrow> ('p channel_bank, unit) action" where
  "cb_advance_origin P = on_prev cb_prev cb_prev_update (st_advance P)"

definition cb_reset ::
    "('p, frame) stage \<Rightarrow> block_num_hash \<Rightarrow> system_config \<Rightarrow> ('p channel_bank, unit) action" where
  "cb_reset P l1_origin cfg =
     abind (on_prev cb_prev cb_prev_update (st_reset P l1_origin cfg)) cb_clear"

definition cb_activate :: "('p, frame) stage \<Rightarrow> ('p channel_bank, unit) action" where
  "cb_activate P = abind (on_prev cb_prev cb_prev_update (st_activate P)) cb_clear"

definition cb_flush_channel :: "('p, frame) stage \<Rightarrow> ('p channel_bank, unit) action" where
  "cb_flush_channel P = abind (on_prev cb_prev cb_prev_update (st_flush P)) cb_clear"

definition channel_bank_stage :: "('p, frame) stage \<Rightarrow> ('p channel_bank, bytes option) stage" where
  "channel_bank_stage P =
     \<lparr>st_next = cb_next_data P, st_origin = cb_origin P, st_advance = cb_advance_origin P,
      st_reset = cb_reset P, st_activate = cb_activate P, st_flush = cb_flush_channel P\<rparr>"

lemma channel_bank_stage_simps [simp]:
  "st_next (channel_bank_stage P) = cb_next_data P"
  "st_origin (channel_bank_stage P) = cb_origin P"
  "st_advance (channel_bank_stage P) = cb_advance_origin P"
  "st_reset (channel_bank_stage P) = cb_reset P"
  "st_activate (channel_bank_stage P) = cb_activate P"
  "st_flush (channel_bank_stage P) = cb_flush_channel P"
  by (simp_all add: channel_bank_stage_def)

section \<open>The bank invariant\<close>

definition channels_ok :: "bytes list \<Rightarrow> (bytes \<times> channel) list \<Rightarrow> bool" where
  "channels_ok q chs \<longleftrightarrow>
     distinct q \<and> distinct (map fst chs) \<and> set q = fst ` set chs
     \<and> (\<forall>(i, c) \<in> set chs. c_id c = i \<and> channel_inv c)"

definition bank_inv :: "'p channel_bank \<Rightarrow> bool" where
  "bank_inv s \<longleftrightarrow> channels_ok (cb_queue s) (cb_channels s)"

lemma channels_size_eq: "channels_size chs = sum_list (map (channel_size \<circ> snd) chs)"
proof -
  have "foldl (\<lambda>acc (_, c). acc + channel_size c) n chs = n + sum_list (map (channel_size \<circ> snd) chs)" for n
    by (induction chs arbitrary: n) auto
  then show ?thesis
    by (simp add: channels_size_def)
qed

lemma delete_fresh: "i \<notin> fst ` set xs \<Longrightarrow> AList.delete i xs = xs"
  by (induction xs) auto

lemma channels_size_delete:
  assumes "distinct (map fst chs)" "map_of chs i = Some c"
  shows "channels_size chs = channel_size c + channels_size (AList.delete i chs)"
  using assms
proof (induction chs)
  case (Cons x xs)
  then show ?case
    by (cases "fst x = i") (auto simp: channels_size_eq delete_fresh)
qed simp

lemma map_of_queue:
  assumes "channels_ok q chs" "i \<in> set q"
  obtains c where "map_of chs i = Some c" "c_id c = i" "channel_inv c"
proof -
  from assms obtain c where "(i, c) \<in> set chs"
    by (auto simp: channels_ok_def)
  then show ?thesis
    using assms(1) that by (auto simp: channels_ok_def)
qed

lemma channels_ok_delete:
  assumes ok: "channels_ok q chs" and j: "j < length q"
  shows "channels_ok (remove_at j q) (AList.delete (q ! j) chs)"
proof -
  have "q = take j q @ q ! j # drop (Suc j) q"
    using j by (rule id_take_nth_drop)
  then have "distinct (take j q @ q ! j # drop (Suc j) q)" "set q = set (take j q @ q ! j # drop (Suc j) q)"
    using ok by (simp_all add: channels_ok_def)
  then have "set (remove_at j q) = set q - {q ! j}" "distinct (remove_at j q)"
    by (auto simp: remove_at_def)
  then show ?thesis
    using ok by (auto simp: channels_ok_def AList.delete_eq distinct_map_filter)
qed

lemma channels_ok_delete_head: "channels_ok (i # q) chs \<Longrightarrow> channels_ok q (AList.delete i chs)"
  using channels_ok_delete [of "i # q" chs 0] by (simp add: remove_at_def)

lemma in_set_updateD: "(j, d) \<in> set (AList.update i c chs) \<Longrightarrow> (j, d) = (i, c) \<or> (j, d) \<in> set chs"
  by (induction chs) (auto split: if_splits)

lemma channels_ok_update:
  assumes "channels_ok q chs" "i \<in> set q" "c_id c = i" "channel_inv c"
  shows "channels_ok q (AList.update i c chs)"
  using assms
  by (auto simp: channels_ok_def distinct_update dom_update insert_absorb dest!: in_set_updateD)

lemma channels_ok_open:
  assumes "channels_ok q chs" "map_of chs i = None"
  shows "channels_ok (q @ [i]) (AList.update i (channel_new i origin) chs)"
proof -
  have "i \<notin> set q"
    using assms by (auto simp: channels_ok_def map_of_eq_None_iff)
  moreover have "AList.update i (channel_new i origin) chs = chs @ [(i, channel_new i origin)]"
    using assms(2) by (intro update_fresh) (simp add: map_of_eq_None_iff)
  ultimately show ?thesis
    using assms channel_inv_new [of i origin]
    by (auto simp: channels_ok_def map_of_eq_None_iff) (simp add: channel_new_def)
qed

lemma prune_channels_ok:
  assumes "channels_ok q chs" "total_size = channels_size chs"
  shows "\<exists>k chs'. prune_channels limit total_size q chs = (Ok (), drop k q, chs')
    \<and> channels_ok (drop k q) chs' \<and> channels_size chs' \<le> limit
    \<and> (\<forall>i \<in> set (drop k q). map_of chs' i = map_of chs i)"
  using assms
proof (induction limit total_size q chs rule: prune_channels.induct)
  case (1 limit total_size chs)
  then have "chs = []"
    by (auto simp: channels_ok_def)
  with 1 show ?case
    by (auto simp: channels_size_def channels_ok_def)
next
  case (2 limit total_size i q chs)
  show ?case
  proof (cases "total_size > limit")
    case True
    obtain c where c: "map_of chs i = Some c"
      using map_of_queue [OF 2(2), of i] by auto
    have size: "total_size - channel_size c = channels_size (AList.delete i chs)"
      using channels_size_delete [OF _ c] 2(2,3) by (simp add: channels_ok_def)
    from 2(1) [OF True c channels_ok_delete_head [OF 2(2)] size] obtain k chs' where
      k: "prune_channels limit (total_size - channel_size c) q (AList.delete i chs) = (Ok (), drop k q, chs')"
        "channels_ok (drop k q) chs'" "channels_size chs' \<le> limit"
        "\<forall>j \<in> set (drop k q). map_of chs' j = map_of (AList.delete i chs) j"
      by blast
    have "i \<notin> set q"
      using 2(2) by (simp add: channels_ok_def)
    then have "\<forall>j \<in> set (drop k q). map_of chs' j = map_of chs j"
      using k(4) by (auto simp: AList.delete_conv' dest: in_set_dropD)
    then show ?thesis
      using True c k by (intro exI [of _ "Suc k"]) auto
  next
    case False
    then show ?thesis
      using 2(2,3) by (intro exI [of _ 0]) auto
  qed
qed

definition bank_keeps :: "'p channel_bank \<Rightarrow> 'p channel_bank \<Rightarrow> bool" where
  "bank_keeps s s' \<longleftrightarrow> cb_prev s' = cb_prev s \<and> cb_cfg s' = cb_cfg s \<and> bank_inv s'"

lemma cb_prune_ok:
  assumes "bank_inv s" "cb_origin P s = Some origin"
  shows "\<exists>s'. cb_prune P s = (Ok (), s') \<and> bank_keeps s s'
    \<and> cb_size s' \<le> max_channel_bank_size (cb_cfg s) origin"
proof -
  obtain k chs' where "prune_channels (max_channel_bank_size (cb_cfg s) origin) (cb_size s)
        (cb_queue s) (cb_channels s) = (Ok (), drop k (cb_queue s), chs')"
      "channels_ok (drop k (cb_queue s)) chs'"
      "channels_size chs' \<le> max_channel_bank_size (cb_cfg s) origin"
    using prune_channels_ok [of "cb_queue s" "cb_channels s" "cb_size s"] assms(1)
    unfolding bank_inv_def cb_size_def by blast
  then show ?thesis
    using assms(2) by (simp add: cb_prune_def bank_keeps_def bank_inv_def cb_size_def)
qed

lemma cb_open_ok:
  assumes "bank_inv s"
  shows "bank_keeps s (cb_open origin i s)" "cb_size (cb_open origin i s) = cb_size s"
    "i \<in> set (cb_queue (cb_open origin i s))"
proof -
  show "bank_keeps s (cb_open origin i s)"
    using assms channels_ok_open [of "cb_queue s" "cb_channels s" i origin]
    by (auto simp: cb_open_def bank_keeps_def bank_inv_def split: option.split)
  show "cb_size (cb_open origin i s) = cb_size s"
    by (auto simp: cb_open_def cb_size_def channels_size_eq update_fresh channel_new_def
        channel_size_def split: option.split)
  show "i \<in> set (cb_queue (cb_open origin i s))"
  proof (cases "map_of (cb_channels s) i")
    case (Some c)
    then have "i \<in> fst ` set (cb_channels s)"
      by (metis map_of_SomeD fst_conv image_eqI)
    then show ?thesis
      using assms Some by (simp add: cb_open_def bank_inv_def channels_ok_def)
  qed (simp add: cb_open_def)
qed

lemma ingest_frame_ok:
  assumes inv: "bank_inv s" and o: "cb_origin P s = Some origin"
  shows "\<exists>s'. ingest_frame P frame s = (Ok (), s') \<and> bank_keeps s s'
    \<and> (cb_size s \<le> max_channel_bank_size (cb_cfg s) origin
       \<longrightarrow> cb_size s' \<le> max_channel_bank_size (cb_cfg s) origin)"
proof -
  define s1 where "s1 = cb_open origin (f_id frame) s"
  note s1 = cb_open_ok [OF inv, where origin = origin and i = "f_id frame", folded s1_def]
  have inv1: "channels_ok (cb_queue s1) (cb_channels s1)"
    using s1(1) by (simp add: bank_keeps_def bank_inv_def)
  obtain c where c: "map_of (cb_channels s1) (f_id frame) = Some c" "c_id c = f_id frame" "channel_inv c"
    using map_of_queue [OF inv1 s1(3)] .
  show ?thesis
  proof (cases "channel_timed_out (cb_cfg s1) origin c \<or> (\<exists>e. add_frame c frame origin = Err e)")
    case True
    then have "ingest_frame P frame s = (Ok (), s1)"
      using o c(1) by (auto simp: ingest_frame_def s1_def Let_def)
    then show ?thesis
      using s1 by simp
  next
    case False
    then obtain c' where c': "add_frame c frame origin = Ok c'"
      using add_frame_no_panic by (cases "add_frame c frame origin") auto
    let ?s2 = "s1\<lparr>cb_channels := AList.update (f_id frame) c' (cb_channels s1)\<rparr>"
    have "c_id c' = f_id frame"
      using add_frame_OkD(5) [OF c'] c(2)
      by (simp add: buffer_frame_def close_channel_def prune_beyond_def Let_def)
    then have "bank_inv ?s2"
      using channels_ok_update [OF inv1 s1(3) _ add_frame_inv [OF c(3) c']] by (simp add: bank_inv_def)
    moreover have "cb_origin P ?s2 = Some origin"
      using o s1(1) by (simp add: cb_origin_def bank_keeps_def)
    ultimately obtain s' where s': "cb_prune P ?s2 = (Ok (), s')" "bank_keeps ?s2 s'"
        "cb_size s' \<le> max_channel_bank_size (cb_cfg ?s2) origin"
      using cb_prune_ok by blast
    have "ingest_frame P frame s = (Ok (), s')"
      using False o c(1) c' s'(1) by (simp add: ingest_frame_def s1_def)
    then show ?thesis
      using s' s1(1) by (simp add: bank_keeps_def)
  qed
qed

definition readable :: "block_info \<Rightarrow> 'p channel_bank \<Rightarrow> bytes \<Rightarrow> bool" where
  "readable origin s i \<longleftrightarrow>
     (\<exists>c. map_of (cb_channels s) i = Some c \<and> \<not> channel_timed_out (cb_cfg s) origin c \<and> is_ready c)"

lemma try_read_not_readable:
  assumes "bank_inv s" "cb_origin P s = Some origin" "i < length (cb_queue s)"
    and "\<not> readable origin s (cb_queue s ! i)"
  shows "try_read_channel_at_index P i s = (Err (Temporary Eof), s)"
proof -
  obtain c where "map_of (cb_channels s) (cb_queue s ! i) = Some c"
    using map_of_queue [of "cb_queue s" "cb_channels s" "cb_queue s ! i"] assms(1,3)
    by (auto simp: bank_inv_def)
  with assms show ?thesis
    by (auto simp: try_read_channel_at_index_def readable_def)
qed

lemma try_read_readable:
  assumes "bank_inv s" "cb_origin P s = Some origin" "i < length (cb_queue s)"
    and "readable origin s (cb_queue s ! i)"
  obtains fs where "whole_channel (cb_queue s ! i) fs"
    "try_read_channel_at_index P i s = (Ok (channel_data fs),
       s\<lparr>cb_channels := AList.delete (cb_queue s ! i) (cb_channels s), cb_queue := remove_at i (cb_queue s)\<rparr>)"
proof -
  let ?i = "cb_queue s ! i"
  obtain c where c: "map_of (cb_channels s) ?i = Some c" "c_id c = ?i" "channel_inv c"
    using map_of_queue [of "cb_queue s" "cb_channels s" ?i] assms(1,3) by (auto simp: bank_inv_def)
  then have ready: "is_ready c" "\<not> channel_timed_out (cb_cfg s) origin c"
    using assms(4) by (auto simp: readable_def)
  obtain fs where "whole_channel ?i fs" "frame_data c = Some (channel_data fs)"
    using ready_data [OF c(3) ready(1)] c(2) by auto
  then show ?thesis
    using that ready c(1) assms(2,3) by (simp add: try_read_channel_at_index_def)
qed

lemma bank_keeps_delete:
  assumes "bank_inv s" "i < length (cb_queue s)"
  shows "bank_keeps s (s\<lparr>cb_channels := AList.delete (cb_queue s ! i) (cb_channels s),
     cb_queue := remove_at i (cb_queue s)\<rparr>)"
proof -
  have "channels_ok (remove_at i (cb_queue s)) (AList.delete (cb_queue s ! i) (cb_channels s))"
    using assms by (intro channels_ok_delete) (simp_all add: bank_inv_def)
  then show ?thesis
    by (simp add: bank_keeps_def bank_inv_def)
qed

lemma find_ready_ok:
  assumes "bank_inv s" "cb_origin P s = Some origin" "set is \<subseteq> {..<length (cb_queue s)}"
  shows "find_ready P is s =
    (case find (\<lambda>i. readable origin s (cb_queue s ! i)) is of
       None \<Rightarrow> (Err (Temporary Eof), s)
     | Some i \<Rightarrow> abind (try_read_channel_at_index P i) (\<lambda>d. areturn (Ok (Some d))) s)"
  using assms(3)
proof (induction "is")
  case (Cons i "is")
  then have i: "i < length (cb_queue s)"
    by simp
  show ?case
  proof (cases "readable origin s (cb_queue s ! i)")
    case True
    obtain d s' where "try_read_channel_at_index P i s = (Ok d, s')"
      using try_read_readable [OF assms(1,2) i True] by metis
    then show ?thesis
      using True by (simp add: abind_def areturn_def)
  next
    case False
    then show ?thesis
      using try_read_not_readable [OF assms(1,2) i False] Cons by simp
  qed
qed simp

lemma try_read_lift:
  assumes "bank_inv s" "cb_origin P s = Some origin" "i < length (cb_queue s)"
  shows "if readable origin s (cb_queue s ! i)
    then \<exists>fs s'. whole_channel (cb_queue s ! i) fs \<and> bank_keeps s s'
      \<and> abind (try_read_channel_at_index P i) (\<lambda>d. areturn (Ok (Some d))) s
          = (Ok (Some (channel_data fs)), s')
      \<and> cb_queue s' = remove_at i (cb_queue s)
    else abind (try_read_channel_at_index P i) (\<lambda>d. areturn (Ok (Some d))) s
      = (Err (Temporary Eof), s)"
proof (cases "readable origin s (cb_queue s ! i)")
  case True
  obtain fs where fs: "whole_channel (cb_queue s ! i) fs"
    "try_read_channel_at_index P i s = (Ok (channel_data fs),
       s\<lparr>cb_channels := AList.delete (cb_queue s ! i) (cb_channels s), cb_queue := remove_at i (cb_queue s)\<rparr>)"
    using try_read_readable [OF assms True] .
  then show ?thesis
    using True bank_keeps_delete [OF assms(1,3)] by (auto simp: abind_def areturn_def)
next
  case False
  then show ?thesis
    using try_read_not_readable [OF assms False] by (simp add: abind_def)
qed

definition read_candidates :: "block_info \<Rightarrow> 'p channel_bank \<Rightarrow> nat list" where
  "read_candidates origin s =
     (if is_canyon_active (cb_cfg s) (bi_timestamp origin) then [0..<length (cb_queue s)] else [0])"

lemma cb_read_live:
  assumes inv: "bank_inv s" and o: "cb_origin P s = Some origin" and q: "cb_queue s = first # rest"
    and c: "map_of (cb_channels s) first = Some c" "\<not> channel_timed_out (cb_cfg s) origin c"
  shows "cb_read P s =
    (case find (\<lambda>i. readable origin s (cb_queue s ! i)) (read_candidates origin s) of
       None \<Rightarrow> (Err (Temporary Eof), s)
     | Some i \<Rightarrow> abind (try_read_channel_at_index P i) (\<lambda>d. areturn (Ok (Some d))) s)"
proof (cases "is_canyon_active (cb_cfg s) (bi_timestamp origin)")
  case True
  then have run: "cb_read P s = find_ready P [0..<length (cb_queue s)] s"
    using q c o by (simp add: cb_read_def)
  have "set [0..<length (cb_queue s)] \<subseteq> {..<length (cb_queue s)}"
    by auto
  from find_ready_ok [OF inv o this] show ?thesis
    unfolding run read_candidates_def if_P [OF True] .
next
  case False
  then have run: "cb_read P s = abind (try_read_channel_at_index P 0) (\<lambda>d. areturn (Ok (Some d))) s"
    using q c o by (simp add: cb_read_def)
  show ?thesis
    using False try_read_lift [OF inv o, of 0] q run by (auto simp: read_candidates_def)
qed

lemma find_SomeD: "find Q xs = Some x \<Longrightarrow> x \<in> set xs \<and> Q x"
  by (auto simp: find_Some_iff)

lemma cb_read_ok:
  assumes inv: "bank_inv s" and o: "cb_origin P s = Some origin"
  shows "cb_read P s = (Err (Temporary Eof), s)
    \<or> (\<exists>s'. bank_keeps s s' \<and> (cb_read P s = (Ok None, s')
        \<or> (\<exists>cid fs. whole_channel cid fs \<and> cb_read P s = (Ok (Some (channel_data fs)), s'))))"
proof (cases "cb_queue s")
  case Nil
  then show ?thesis
    by (simp add: cb_read_def)
next
  case (Cons first rest)
  obtain c where c: "map_of (cb_channels s) first = Some c"
    using map_of_queue [of "cb_queue s" "cb_channels s" first] inv Cons by (auto simp: bank_inv_def)
  show ?thesis
  proof (cases "channel_timed_out (cb_cfg s) origin c")
    case True
    let ?s = "s\<lparr>cb_channels := AList.delete first (cb_channels s), cb_queue := rest\<rparr>"
    have "bank_keeps s ?s"
      using bank_keeps_delete [OF inv, of 0] Cons by (simp add: remove_at_def)
    moreover have "cb_read P s = (Ok None, ?s)"
      using True Cons c o by (simp add: cb_read_def)
    ultimately show ?thesis by blast
  next
    case False
    note live = cb_read_live [OF inv o Cons c False]
    show ?thesis
    proof (cases "find (\<lambda>i. readable origin s (cb_queue s ! i)) (read_candidates origin s)")
      case None
      then show ?thesis using live by simp
    next
      case (Some i)
      then have "i < length (cb_queue s)" "readable origin s (cb_queue s ! i)"
        using Cons by (auto dest!: find_SomeD simp: read_candidates_def split: if_splits)
      with try_read_lift [OF inv o, of i] show ?thesis
        using live Some by auto
    qed
  qed
qed

section \<open>The stage contract\<close>

definition cb_good :: "('p \<Rightarrow> bool) \<Rightarrow> 'p channel_bank \<Rightarrow> bool" where
  "cb_good good s \<longleftrightarrow> good (cb_prev s) \<and> bank_inv s"

lemma cb_on_prev_safe:
  "safe_action good act \<Longrightarrow> safe_action (cb_good good) (on_prev cb_prev cb_prev_update act)"
  by (auto simp: safe_action_def cb_good_def bank_inv_def)

lemma cb_on_prev_keeps:
  "keeps good (st_origin P) act \<Longrightarrow>
   keeps (cb_good good) (cb_origin P) (on_prev cb_prev cb_prev_update act)"
  by (auto simp: keeps_def cb_good_def cb_origin_def)

lemma cb_good_keeps: "cb_good good s \<Longrightarrow> bank_keeps s s' \<Longrightarrow> cb_good good s'"
  by (simp add: cb_good_def bank_keeps_def)

lemma cb_origin_keeps: "bank_keeps s s' \<Longrightarrow> cb_origin P s' = cb_origin P s"
  by (simp add: cb_origin_def bank_keeps_def)

lemma bank_keeps_refl: "bank_inv s \<Longrightarrow> bank_keeps s s"
  by (simp add: bank_keeps_def)

lemma ingest_frame_step:
  assumes "bank_inv s"
  shows "fst (ingest_frame P f s) \<noteq> Panic \<and> bank_keeps s (snd (ingest_frame P f s))"
proof (cases "cb_origin P s")
  case None
  then show ?thesis
    using assms by (simp add: ingest_frame_def bank_keeps_refl)
next
  case (Some origin)
  from ingest_frame_ok [OF assms Some, of f] show ?thesis by auto
qed

lemma cb_read_step:
  assumes "bank_inv s"
  shows "fst (cb_read P s) \<noteq> Panic \<and> bank_keeps s (snd (cb_read P s))"
proof (cases "cb_origin P s")
  case None
  have "\<exists>c. map_of (cb_channels s) i = Some c" if "i \<in> set (cb_queue s)" for i
    using map_of_queue [of "cb_queue s" "cb_channels s" i] assms that by (auto simp: bank_inv_def)
  then show ?thesis
    using None assms by (auto simp: cb_read_def bank_keeps_refl split: list.split option.split)
next
  case (Some origin)
  from cb_read_ok [OF assms Some] bank_keeps_refl [OF assms] show ?thesis by auto
qed

lemma ingest_frame_safe: "safe_action (cb_good good) (ingest_frame P f)"
  and ingest_frame_origin: "keeps (cb_good good) (cb_origin P) (ingest_frame P f)"
  using ingest_frame_step [of _ P f]
  by (auto simp: safe_action_def keeps_def cb_good_def bank_keeps_def cb_origin_def)

lemma cb_clear_safe: "safe_action (cb_good good) (cb_clear u)"
  and cb_clear_origin: "keeps (cb_good good) (cb_origin P) (cb_clear u)"
  by (auto simp: safe_action_def keeps_def cb_clear_def cb_good_def cb_origin_def bank_inv_def
      channels_ok_def)

lemma keeps_areturn: "keeps good v (areturn r)"
  by (simp add: keeps_def areturn_def)

context frame_source
begin

lemma cb_load_safe: "safe_action (cb_good good) (cb_load S)"
  and cb_load_origin: "keeps (cb_good good) (cb_origin S) (cb_load S)"
  unfolding cb_load_def
  by (intro safe_abind cb_on_prev_safe next_safe ingest_frame_safe safe_areturn outcome.distinct)
     (intro keeps_abind safe_abind cb_on_prev_safe cb_on_prev_keeps next_safe next_origin
       ingest_frame_safe ingest_frame_origin keeps_areturn)

lemma cb_next_data_step:
  assumes "cb_good good s"
  shows "fst (cb_next_data S s) \<noteq> Panic" "cb_good good (snd (cb_next_data S s))"
    "cb_origin S (snd (cb_next_data S s)) = cb_origin S s"
proof -
  obtain r s' where run: "cb_read S s = (r, s')"
    by fastforce
  have s': "r \<noteq> Panic" "cb_good good s'" "cb_origin S s' = cb_origin S s"
    using cb_read_step [of s S] assms run cb_good_keeps cb_origin_keeps
    by (auto simp: cb_good_def bank_keeps_def cb_origin_def)
  note load = safe_actionD [OF cb_load_safe s'(2)] keepsD [OF cb_load_origin s'(2)]
  show "fst (cb_next_data S s) \<noteq> Panic" "cb_good good (snd (cb_next_data S s))"
    "cb_origin S (snd (cb_next_data S s)) = cb_origin S s"
    using s' load by (auto simp: cb_next_data_def run split: outcome.split)
qed

end

sublocale frame_source \<subseteq> cb: channel_source "channel_bank_stage S" "cb_good good"
proof unfold_locales
  note prev = cb_on_prev_safe cb_on_prev_keeps
  show "safe_action (cb_good good) (st_next (channel_bank_stage S))"
    "keeps (cb_good good) (st_origin (channel_bank_stage S)) (st_next (channel_bank_stage S))"
    by (simp_all add: safe_action_def keeps_def cb_next_data_step)
  show "safe_action (cb_good good) (st_advance (channel_bank_stage S))"
    by (simp add: cb_advance_origin_def prev advance_safe)
  show "safe_action (cb_good good) (st_reset (channel_bank_stage S) l1_origin cfg)" for l1_origin cfg
    by (simp add: cb_reset_def safe_abind prev reset_safe cb_clear_safe)
  show "safe_action (cb_good good) (st_activate (channel_bank_stage S))"
    by (simp add: cb_activate_def safe_abind prev activate_safe cb_clear_safe)
  show "safe_action (cb_good good) (st_flush (channel_bank_stage S))"
    by (simp add: cb_flush_channel_def safe_abind prev flush_safe cb_clear_safe)
  show "keeps (cb_good good) (st_origin (channel_bank_stage S)) (st_flush (channel_bank_stage S))"
    by (simp add: cb_flush_channel_def keeps_abind prev flush_safe flush_origin cb_clear_origin)
qed

section \<open>Properties\<close>



text \<open>Reading serves channels in order: with a live head of the queue, a read returns the data of
  the first readable candidate - only the head before Canyon, the whole queue in order from Canyon
  on - which is the data of a whole channel with that id, and removes exactly that channel;
  without a readable candidate it reports the end of the data and changes nothing.\<close>

lemma bank_reads_first_ready:
  assumes "bank_inv s" and "cb_origin P s = Some origin" and "cb_queue s = first # rest"
    and "map_of (cb_channels s) first = Some c" and "\<not> channel_timed_out (cb_cfg s) origin c"
  shows "case find (\<lambda>i. readable origin s (cb_queue s ! i)) (read_candidates origin s) of
      None \<Rightarrow> cb_read P s = (Err (Temporary Eof), s)
    | Some i \<Rightarrow> (\<exists>fs s'. whole_channel (cb_queue s ! i) fs
        \<and> cb_read P s = (Ok (Some (channel_data fs)), s')
        \<and> cb_queue s' = remove_at i (cb_queue s) \<and> bank_inv s')"
proof (cases "find (\<lambda>i. readable origin s (cb_queue s ! i)) (read_candidates origin s)")
  case None
  then show ?thesis
    using cb_read_live [OF assms] by simp
next
  case (Some i)
  then have "i < length (cb_queue s)" "readable origin s (cb_queue s ! i)"
    using assms(3) by (auto dest!: find_SomeD simp: read_candidates_def split: if_splits)
  with try_read_lift [OF assms(1,2), of i] show ?thesis
    using cb_read_live [OF assms] Some by (auto simp: bank_keeps_def)
qed

definition ready_channel :: channel where
  "ready_channel = (channel_new (replicate 16 7) block_info_default)
     \<lparr>c_inputs := [(0, sample_frame 0 [9] True)], c_closed := True, c_estimated_size := 201\<rparr>"

definition ready_bank :: "(frame list \<times> block_info) channel_bank" where
  "ready_bank = (channel_bank_new rollup_config_default ([], block_info_default))
     \<lparr>cb_queue := [replicate 16 7], cb_channels := [(replicate 16 7, ready_channel)]\<rparr>"

lemma ready_channel_facts:
  "channel_inv ready_channel" "is_ready ready_channel" "c_id ready_channel = replicate 16 7"
  "c_open_block ready_channel = block_info_default"
  by (simp_all add: ready_channel_def channel_inv_def channel_new_def sample_frame_def is_ready_def
      channel_len_def frame_range_def contains_frame_def inputs_size_def frame_size_def frame_consts)

lemma ready_bank_facts:
  "bank_inv ready_bank" "cb_origin replay ready_bank = Some block_info_default"
  "cb_queue ready_bank = [replicate 16 7]" "cb_cfg ready_bank = rollup_config_default"
  "map_of (cb_channels ready_bank) (replicate 16 7) = Some ready_channel"
  by (simp_all add: ready_bank_def channel_bank_new_def bank_inv_def channels_ok_def cb_origin_def
      ready_channel_facts)

end
