(* ===== verification/Channel_Provider.thy ===== *)
theory Channel_Provider
  imports Channel_Bank
begin

text \<open>
  The multiplexer of crates/consensus/derive/src/stages/channel/channel_provider.rs: the channel
  bank before Holocene, the channel assembler from Holocene on, chosen by the L1 origin on every
  call.  Exactly one of the predecessor, the bank and the assembler is present.
\<close>

section \<open>State and operations\<close>

record 'p channel_provider =
  cp_cfg :: rollup_config
  cp_prev :: "'p option"
  cp_channel_bank :: "'p channel_bank option"
  cp_channel_assembler :: "'p channel_assembler option"

definition channel_provider_new :: "rollup_config \<Rightarrow> 'p \<Rightarrow> 'p channel_provider" where
  "channel_provider_new cfg prev =
     \<lparr>cp_cfg = cfg, cp_prev = Some prev, cp_channel_bank = None, cp_channel_assembler = None\<rparr>"

definition cp_origin :: "('p, frame) stage \<Rightarrow> 'p channel_provider \<Rightarrow> block_info option" where
  "cp_origin P s =
     (case cp_channel_assembler s of
        Some a \<Rightarrow> ca_origin P a
      | None \<Rightarrow>
         (case cp_channel_bank s of
            Some b \<Rightarrow> cb_origin P b
          | None \<Rightarrow> Option.bind (cp_prev s) (st_origin P)))"

definition cp_select :: "bool \<Rightarrow> 'p channel_provider \<Rightarrow> 'p channel_provider" where
  "cp_select holocene s =
     (case cp_prev s of
        Some prev \<Rightarrow>
          if holocene
          then s\<lparr>cp_prev := None, cp_channel_assembler := Some (channel_assembler_new (cp_cfg s) prev)\<rparr>
          else s\<lparr>cp_prev := None, cp_channel_bank := Some (channel_bank_new (cp_cfg s) prev)\<rparr>
      | None \<Rightarrow>
         (case (cp_channel_bank s, holocene) of
            (Some b, True) \<Rightarrow>
              s\<lparr>cp_channel_bank := None,
                cp_channel_assembler := Some (channel_assembler_new (cp_cfg s) (cb_prev b))\<rparr>
          | _ \<Rightarrow>
             (case (cp_channel_assembler s, holocene) of
                (Some a, False) \<Rightarrow>
                  s\<lparr>cp_channel_assembler := None,
                    cp_channel_bank := Some (channel_bank_new (cp_cfg s) (ca_prev a))\<rparr>
              | _ \<Rightarrow> s)))"

definition cp_attempt_update :: "('p, frame) stage \<Rightarrow> ('p channel_provider, unit) action" where
  "cp_attempt_update P s =
     (case cp_origin P s of
        None \<Rightarrow> (Err (crit MissingOrigin), s)
      | Some origin \<Rightarrow> (Ok (), cp_select (is_holocene_active (cp_cfg s) (bi_timestamp origin)) s))"

definition cp_dispatch ::
    "('p channel_assembler, 'a) action \<Rightarrow> ('p channel_bank, 'a) action \<Rightarrow> ('p channel_provider, 'a) action" where
  "cp_dispatch f g s =
     (case cp_channel_assembler s of
        Some a \<Rightarrow> (let (r, a) = f a in (r, s\<lparr>cp_channel_assembler := Some a\<rparr>))
      | None \<Rightarrow>
         (case cp_channel_bank s of
            Some b \<Rightarrow> (let (r, b) = g b in (r, s\<lparr>cp_channel_bank := Some b\<rparr>))
          | None \<Rightarrow> (Err (temp NotEnoughData), s)))"

definition cp_advance_origin :: "('p, frame) stage \<Rightarrow> ('p channel_provider, unit) action" where
  "cp_advance_origin P =
     abind (cp_attempt_update P) (\<lambda>_. cp_dispatch (ca_advance_origin P) (cb_advance_origin P))"

definition cp_reset ::
    "('p, frame) stage \<Rightarrow> block_num_hash \<Rightarrow> system_config \<Rightarrow> ('p channel_provider, unit) action" where
  "cp_reset P l1_origin cfg =
     abind (cp_attempt_update P) (\<lambda>_. cp_dispatch (ca_reset P l1_origin cfg) (cb_reset P l1_origin cfg))"

definition cp_activate :: "('p, frame) stage \<Rightarrow> ('p channel_provider, unit) action" where
  "cp_activate P = abind (cp_attempt_update P) (\<lambda>_. cp_dispatch (ca_activate P) (cb_activate P))"

definition cp_flush_channel :: "('p, frame) stage \<Rightarrow> ('p channel_provider, unit) action" where
  "cp_flush_channel P =
     abind (cp_attempt_update P) (\<lambda>_. cp_dispatch (ca_flush_channel P) (cb_flush_channel P))"

definition cp_next_data :: "('p, frame) stage \<Rightarrow> ('p channel_provider, bytes option) action" where
  "cp_next_data P = abind (cp_attempt_update P) (\<lambda>_. cp_dispatch (ca_next_data P) (cb_next_data P))"

definition channel_provider_stage :: "('p, frame) stage \<Rightarrow> ('p channel_provider, bytes option) stage" where
  "channel_provider_stage P =
     \<lparr>st_next = cp_next_data P, st_origin = cp_origin P, st_advance = cp_advance_origin P,
      st_reset = cp_reset P, st_activate = cp_activate P, st_flush = cp_flush_channel P\<rparr>"

lemma channel_provider_stage_simps [simp]:
  "st_next (channel_provider_stage P) = cp_next_data P"
  "st_origin (channel_provider_stage P) = cp_origin P"
  "st_advance (channel_provider_stage P) = cp_advance_origin P"
  "st_reset (channel_provider_stage P) = cp_reset P"
  "st_activate (channel_provider_stage P) = cp_activate P"
  "st_flush (channel_provider_stage P) = cp_flush_channel P"
  by (simp_all add: channel_provider_stage_def)

section \<open>The stage contract\<close>

text \<open>Exactly one of the three is present, and it is in good order.\<close>

definition cp_good :: "('p \<Rightarrow> bool) \<Rightarrow> 'p channel_provider \<Rightarrow> bool" where
  "cp_good good s \<longleftrightarrow>
     (case (cp_prev s, cp_channel_bank s, cp_channel_assembler s) of
        (Some p, None, None) \<Rightarrow> good p
      | (None, Some b, None) \<Rightarrow> cb_good good b
      | (None, None, Some a) \<Rightarrow> ca_good good a
      | _ \<Rightarrow> False)"

lemma cp_good_cases:
  assumes "cp_good good s"
  obtains p where "cp_prev s = Some p" "cp_channel_bank s = None" "cp_channel_assembler s = None" "good p"
  | b where "cp_prev s = None" "cp_channel_bank s = Some b" "cp_channel_assembler s = None" "cb_good good b"
  | a where "cp_prev s = None" "cp_channel_bank s = None" "cp_channel_assembler s = Some a" "ca_good good a"
  using assms by (auto simp: cp_good_def split: option.splits)

lemma new_good:
  "good p \<Longrightarrow> ca_good good (channel_assembler_new cfg p)"
  "good p \<Longrightarrow> cb_good good (channel_bank_new cfg p)"
  by (simp_all add: ca_good_def channel_assembler_new_def cb_good_def channel_bank_new_def bank_inv_def
      channels_ok_def)

lemma prev_good: "ca_good good a \<Longrightarrow> good (ca_prev a)" "cb_good good b \<Longrightarrow> good (cb_prev b)"
  by (simp_all add: ca_good_def cb_good_def)

text \<open>Selecting keeps the predecessor, and with it the origin, and makes the choice the fork demands.\<close>

lemma cp_select_good:
  assumes "cp_good good s"
  shows "cp_good good (cp_select h s) \<and> cp_origin P (cp_select h s) = cp_origin P s
    \<and> cp_cfg (cp_select h s) = cp_cfg s \<and> cp_prev (cp_select h s) = None
    \<and> (cp_channel_assembler (cp_select h s) \<noteq> None) = h \<and> (cp_channel_bank (cp_select h s) \<noteq> None) = (\<not> h)"
  by (rule cp_good_cases [OF assms]; cases h;
      simp add: cp_select_def cp_good_def new_good prev_good cp_origin_def ca_origin_def cb_origin_def;
      simp add: channel_assembler_new_def channel_bank_new_def)

lemma cp_dispatch_simps:
  "cp_channel_assembler s = Some a \<Longrightarrow>
     cp_dispatch f g s = (fst (f a), s\<lparr>cp_channel_assembler := Some (snd (f a))\<rparr>)"
  "cp_channel_assembler s = None \<Longrightarrow> cp_channel_bank s = Some b \<Longrightarrow>
     cp_dispatch f g s = (fst (g b), s\<lparr>cp_channel_bank := Some (snd (g b))\<rparr>)"
  "cp_channel_assembler s = None \<Longrightarrow> cp_channel_bank s = None \<Longrightarrow>
     cp_dispatch f g s = (Err (temp NotEnoughData), s)"
  by (simp_all add: cp_dispatch_def case_prod_unfold Let_def)

context frame_source
begin

lemma cp_update_safe: "safe_action (cp_good good) (cp_attempt_update S)"
  and cp_update_origin: "keeps (cp_good good) (cp_origin S) (cp_attempt_update S)"
  using cp_select_good [of good]
  by (auto simp: safe_action_def keeps_def cp_attempt_update_def split: option.split)

lemma cp_dispatch_safe:
  assumes "safe_action (ca_good good) f" "safe_action (cb_good good) g"
  shows "safe_action (cp_good good) (cp_dispatch f g)"
proof -
  have "fst (cp_dispatch f g s) \<noteq> Panic \<and> cp_good good (snd (cp_dispatch f g s))" if s: "cp_good good s" for s
    using assms unfolding safe_action_def
    by (rule_tac cp_good_cases [OF s]) (simp_all add: cp_dispatch_simps, simp_all add: cp_good_def)
  then show ?thesis
    by (simp add: safe_action_def)
qed

lemma cp_dispatch_origin:
  assumes "keeps (ca_good good) (ca_origin S) f" "keeps (cb_good good) (cb_origin S) g"
  shows "keeps (cp_good good) (cp_origin S) (cp_dispatch f g)"
proof -
  have "cp_origin S (snd (cp_dispatch f g s)) = cp_origin S s" if s: "cp_good good s" for s
    using assms unfolding keeps_def
    by (rule_tac cp_good_cases [OF s]) (simp_all add: cp_dispatch_simps cp_origin_def)
  then show ?thesis
    by (simp add: keeps_def)
qed

end

sublocale frame_source \<subseteq> cp: channel_source "channel_provider_stage S" "cp_good good"
proof unfold_locales
  note safe = safe_abind [OF cp_update_safe cp_dispatch_safe]
    and keep = keeps_abind [OF cp_update_safe cp_update_origin cp_dispatch_origin]
  show "safe_action (cp_good good) (st_next (channel_provider_stage S))"
    "keeps (cp_good good) (st_origin (channel_provider_stage S)) (st_next (channel_provider_stage S))"
    using ca.next_safe cb.next_safe ca.next_origin cb.next_origin
    by (simp_all add: cp_next_data_def safe keep)
  show "safe_action (cp_good good) (st_advance (channel_provider_stage S))"
    using ca.advance_safe cb.advance_safe by (simp add: cp_advance_origin_def safe)
  show "safe_action (cp_good good) (st_reset (channel_provider_stage S) l1_origin cfg)" for l1_origin cfg
    using ca.reset_safe cb.reset_safe by (simp add: cp_reset_def safe)
  show "safe_action (cp_good good) (st_activate (channel_provider_stage S))"
    using ca.activate_safe cb.activate_safe by (simp add: cp_activate_def safe)
  show "safe_action (cp_good good) (st_flush (channel_provider_stage S))"
    "keeps (cp_good good) (st_origin (channel_provider_stage S)) (st_flush (channel_provider_stage S))"
    using ca.flush_safe cb.flush_safe ca.flush_origin cb.flush_origin
    by (simp_all add: cp_flush_channel_def safe keep)
qed

section \<open>Selection\<close>

text \<open>On every call the provider settles on the stage that its L1 origin demands: the assembler
  when Holocene is active there and the bank otherwise, whatever it held before; the predecessor is
  handed over, so the origin does not move.  With no origin the call fails and nothing changes.\<close>

lemma channel_provider_selects:
  assumes "cp_good good s"
  shows "case cp_origin P s of
      None \<Rightarrow> cp_attempt_update P s = (Err (crit MissingOrigin), s)
    | Some l1 \<Rightarrow> (\<exists>s'. cp_attempt_update P s = (Ok (), s') \<and> cp_good good s' \<and> cp_origin P s' = Some l1
        \<and> cp_prev s' = None
        \<and> ((cp_channel_assembler s' \<noteq> None) \<longleftrightarrow> is_holocene_active (cp_cfg s) (bi_timestamp l1))
        \<and> ((cp_channel_bank s' \<noteq> None) \<longleftrightarrow> \<not> is_holocene_active (cp_cfg s) (bi_timestamp l1)))"
  using cp_select_good [OF assms, of _ P] by (auto simp: cp_attempt_update_def split: option.split)

end
