(* ===== verification/Channel_Reader.thy ===== *)
theory Channel_Reader
  imports Query_Stages Channel_Provider
begin

text \<open>
  From the bytes of a channel to batches: brotli decompression into a growing buffer
  (crates/consensus/protocol/src/brotli.rs), the batch reader that decompresses a channel once and
  reads batch after batch off it (crates/consensus/protocol/src/batch/reader.rs), and the stage
  around it (crates/consensus/derive/src/stages/channel/channel_reader.rs).  The decompressors and
  the RLP string decoder are third-party code and are the fields of \<open>channel_codec\<close>.
\<close>

section \<open>Third-party codecs\<close>

text \<open>One call of the brotli stream gets the state of the decoder, which includes its position in the
  input, and the space left in the output buffer, and appends the bytes it produces.  The zlib
  decoder gets the limit on its output; its error says whether there was more output and gives what
  was produced so far.\<close>

datatype brotli_result = ResultSuccess | NeedsMoreInput | NeedsMoreOutput | ResultFailure

record 'b channel_codec =
  brotli_state :: 'b
  brotli_stream :: "bytes \<Rightarrow> nat \<Rightarrow> 'b \<Rightarrow> brotli_result \<times> bytes \<times> 'b"
  zlib_with_limit :: "bytes \<Rightarrow> nat \<Rightarrow> (bool \<times> bytes) + bytes"
  rlp_bytes :: "bytes \<Rightarrow> string + bytes \<times> bytes"

section \<open>Brotli\<close>

text \<open>The loop of the decompressor: \<open>len\<close> is the size of the output buffer, \<open>out\<close> what is written.\<close>

function brotli_loop ::
    "'b channel_codec \<Rightarrow> bytes \<Rightarrow> nat \<Rightarrow> nat \<Rightarrow> bytes \<Rightarrow> 'b \<Rightarrow> brotli_result + bytes" where
  "brotli_loop K data mx len out st =
     (let (result, produced, st) = brotli_stream K data (len - length out) st;
          out = out @ produced
      in case result of
           NeedsMoreOutput \<Rightarrow>
             if mx \<le> len then Inr out
             else brotli_loop K data mx (min (max (len * 2) 1) mx) out st
         | _ \<Rightarrow> if out = [] then Inl result else Inr out)"
  by pat_completeness auto

termination
  by (relation "measure (\<lambda>(K, data, mx, len, out, st). mx - len)") (auto simp: min_def max_def)

declare brotli_loop.simps [simp del]

definition brotli_decompress :: "'b channel_codec \<Rightarrow> bytes \<Rightarrow> nat \<Rightarrow> brotli_result + bytes" where
  "brotli_decompress K data mx = brotli_loop K data mx (min (length data) mx) [] (brotli_state K)"

section \<open>Batch reader\<close>

datatype decompression_error =
    EmptyData | UnsupportedType u8 | BrotliError brotli_result | ZlibError

datatype batch_reader_error =
    ReaderDecompression decompression_error
  | ReaderRlp string
  | ReaderBatch batch_decoding_error

record batch_reader =
  br_data :: "bytes option"
  br_decompressed :: bytes
  br_cursor :: nat
  br_max_rlp_bytes_per_channel :: nat
  br_brotli_used :: bool
  br_brotli_supported :: bool

definition ZLIB_DEFLATE_COMPRESSION_METHOD :: u8 where
  "ZLIB_DEFLATE_COMPRESSION_METHOD = 8"

definition ZLIB_RESERVED_COMPRESSION_METHOD :: u8 where
  "ZLIB_RESERVED_COMPRESSION_METHOD = 15"

definition CHANNEL_VERSION_BROTLI :: u8 where
  "CHANNEL_VERSION_BROTLI = 1"

definition batch_reader_new :: "bytes \<Rightarrow> nat \<Rightarrow> bool \<Rightarrow> batch_reader" where
  "batch_reader_new data mx brotli_supported =
     \<lparr>br_data = Some data, br_decompressed = [], br_cursor = 0, br_max_rlp_bytes_per_channel = mx,
      br_brotli_used = False, br_brotli_supported = brotli_supported\<rparr>"

definition decompress_zlib ::
    "'b channel_codec \<Rightarrow> bytes \<Rightarrow> batch_reader \<Rightarrow> (decompression_error + unit) \<times> batch_reader" where
  "decompress_zlib K data rd =
     (case zlib_with_limit K data (br_max_rlp_bytes_per_channel rd) of
        Inr decompressed \<Rightarrow> (Inr (), rd\<lparr>br_decompressed := decompressed\<rparr>)
      | Inl (has_more_output, partial) \<Rightarrow>
          if has_more_output \<or> partial \<noteq> [] then (Inr (), rd\<lparr>br_decompressed := partial\<rparr>)
          else (Inl ZlibError, rd))"

definition decompress_brotli ::
    "'b channel_codec \<Rightarrow> bytes \<Rightarrow> batch_reader \<Rightarrow> (decompression_error + unit) \<times> batch_reader" where
  "decompress_brotli K data rd =
     (let rd = rd\<lparr>br_brotli_used := True\<rparr> in
      case brotli_decompress K (drop 1 data) (br_max_rlp_bytes_per_channel rd) of
        Inl e \<Rightarrow> (Inl (BrotliError e), rd)
      | Inr decompressed \<Rightarrow> (Inr (), rd\<lparr>br_decompressed := decompressed\<rparr>))"

definition reader_decompress ::
    "'b channel_codec \<Rightarrow> batch_reader \<Rightarrow> (decompression_error + unit) \<times> batch_reader" where
  "reader_decompress K rd =
     (if br_decompressed rd \<noteq> [] then (Inr (), rd)
      else case br_data rd of
        None \<Rightarrow> (Inl EmptyData, rd)
      | Some [] \<Rightarrow> (Inl EmptyData, rd\<lparr>br_data := None\<rparr>)
      | Some (compression_type # rest) \<Rightarrow>
          let data = compression_type # rest; rd = rd\<lparr>br_data := None\<rparr> in
          if and compression_type 15 = ZLIB_DEFLATE_COMPRESSION_METHOD
             \<or> and compression_type 15 = ZLIB_RESERVED_COMPRESSION_METHOD
          then decompress_zlib K data rd
          else if compression_type = CHANNEL_VERSION_BROTLI \<and> br_brotli_supported rd
          then decompress_brotli K data rd
          else (Inl (UnsupportedType compression_type), rd))"

definition next_batch_strict ::
    "'b channel_codec \<Rightarrow> 'td wire \<Rightarrow> rollup_config \<Rightarrow> batch_reader
       \<Rightarrow> (batch_reader_error, batch option) outcome \<times> batch_reader" where
  "next_batch_strict K W cfg rd =
     (case reader_decompress K rd of
        (Inl e, rd) \<Rightarrow> (Err (ReaderDecompression e), rd)
      | (Inr _, rd) \<Rightarrow>
          if length (br_decompressed rd) \<le> br_cursor rd then (Ok None, rd)
          else (case rlp_bytes K (drop (br_cursor rd) (br_decompressed rd)) of
                  Inl e \<Rightarrow> (Err (ReaderRlp e), rd)
                | Inr (encoded, rest) \<Rightarrow>
                    (case batch_decode W cfg encoded of
                       Err e \<Rightarrow> (Err (ReaderBatch e), rd)
                     | Panic \<Rightarrow> (Panic, rd)
                     | Ok b \<Rightarrow>
                         (Ok (Some b), rd\<lparr>br_cursor := length (br_decompressed rd) - length rest\<rparr>))))"

definition reader_next_batch ::
    "'b channel_codec \<Rightarrow> 'td wire \<Rightarrow> rollup_config \<Rightarrow> batch_reader
       \<Rightarrow> (unit, batch option) outcome \<times> batch_reader" where
  "reader_next_batch K W cfg rd =
     (case next_batch_strict K W cfg rd of
        (Ok b, rd) \<Rightarrow> (Ok b, rd)
      | (Err _, rd) \<Rightarrow> (Ok None, rd)
      | (Panic, rd) \<Rightarrow> (Panic, rd))"

section \<open>The stage\<close>

record 'p channel_reader =
  cr_prev :: 'p
  cr_next_batch :: "batch_reader option"
  cr_cfg :: rollup_config

definition channel_reader_new :: "'p \<Rightarrow> rollup_config \<Rightarrow> 'p channel_reader" where
  "channel_reader_new prev cfg = \<lparr>cr_prev = prev, cr_next_batch = None, cr_cfg = cfg\<rparr>"

definition cr_origin :: "('p, bytes option) stage \<Rightarrow> 'p channel_reader \<Rightarrow> block_info option" where
  "cr_origin P s = st_origin P (cr_prev s)"

definition next_channel :: "'p channel_reader \<Rightarrow> 'p channel_reader" where
  "next_channel s = s\<lparr>cr_next_batch := None\<rparr>"

definition cr_set_reader ::
    "('p, bytes option) stage \<Rightarrow> bytes option \<Rightarrow> ('p channel_reader, unit) action" where
  "cr_set_reader P channel s =
     (case channel of
        None \<Rightarrow> (Err (temp ChannelReaderEmpty), s)
      | Some data \<Rightarrow>
         (case cr_origin P s of
            None \<Rightarrow> (Err (crit MissingOrigin), s)
          | Some origin \<Rightarrow>
              let fjord_active = is_fjord_active (cr_cfg s) (bi_timestamp origin);
                  mx = (if fjord_active then MAX_RLP_BYTES_PER_CHANNEL_FJORD else MAX_RLP_BYTES_PER_CHANNEL_BEDROCK)
              in (Ok (), s\<lparr>cr_next_batch := Some (batch_reader_new data (unat mx) fjord_active)\<rparr>)))"

definition set_batch_reader :: "('p, bytes option) stage \<Rightarrow> ('p channel_reader, unit) action" where
  "set_batch_reader P s =
     (if cr_next_batch s = None then abind (on_prev cr_prev cr_prev_update (st_next P)) (cr_set_reader P) s
      else (Ok (), s))"

text \<open>Reading from the batch reader that is set.\<close>

definition cr_read ::
    "'b channel_codec \<Rightarrow> 'td wire \<Rightarrow> batch_reader \<Rightarrow> ('p channel_reader, batch) action" where
  "cr_read K W rd s =
     (case reader_decompress K rd of
        (Inl _, rd) \<Rightarrow> (Err (temp NotEnoughData), next_channel s)
      | (Inr _, rd) \<Rightarrow>
         (case reader_next_batch K W (cr_cfg s) rd of
            (Ok (Some b), rd) \<Rightarrow> (Ok b, s\<lparr>cr_next_batch := Some rd\<rparr>)
          | (Panic, rd) \<Rightarrow> (Panic, s\<lparr>cr_next_batch := Some rd\<rparr>)
          | (_, rd) \<Rightarrow> (Err (temp NotEnoughData), next_channel s)))"

definition cr_next ::
    "'b channel_codec \<Rightarrow> 'td wire \<Rightarrow> ('p, bytes option) stage \<Rightarrow> ('p channel_reader, batch) action" where
  "cr_next K W P s =
     (case set_batch_reader P s of
        (Err e, s) \<Rightarrow> (Err e, next_channel s)
      | (Panic, s) \<Rightarrow> (Panic, s)
      | (Ok _, s) \<Rightarrow>
         (case cr_next_batch s of
            None \<Rightarrow> (Panic, s)
          | Some rd \<Rightarrow> cr_read K W rd s))"

definition cr_advance_origin :: "('p, bytes option) stage \<Rightarrow> ('p channel_reader, unit) action" where
  "cr_advance_origin P = on_prev cr_prev cr_prev_update (st_advance P)"

definition cr_reset ::
    "('p, bytes option) stage \<Rightarrow> block_num_hash \<Rightarrow> system_config \<Rightarrow> ('p channel_reader, unit) action" where
  "cr_reset P l1_origin system_config =
     abind (on_prev cr_prev cr_prev_update (st_reset P l1_origin system_config)) (amodify next_channel)"

definition cr_activate :: "('p, bytes option) stage \<Rightarrow> ('p channel_reader, unit) action" where
  "cr_activate P = abind (on_prev cr_prev cr_prev_update (st_activate P)) (amodify next_channel)"

definition cr_flush_channel :: "('p channel_reader, unit) action" where
  "cr_flush_channel = amodify (\<lambda>s. s\<lparr>cr_next_batch := None\<rparr>) ()"

definition channel_reader_source ::
    "'b channel_codec \<Rightarrow> 'td wire \<Rightarrow> ('p, bytes option) stage \<Rightarrow> 'p channel_reader batch_source" where
  "channel_reader_source K W P =
     \<lparr>bs_stage = \<lparr>st_next = cr_next K W P, st_origin = cr_origin P, st_advance = cr_advance_origin P,
        st_reset = cr_reset P, st_activate = cr_activate P, st_flush = cr_flush_channel\<rparr>,
      bs_flush = next_channel\<rparr>"

lemma channel_reader_source_simps [simp]:
  "st_next (bs_stage (channel_reader_source K W P)) = cr_next K W P"
  "st_origin (bs_stage (channel_reader_source K W P)) = cr_origin P"
  "st_advance (bs_stage (channel_reader_source K W P)) = cr_advance_origin P"
  "st_reset (bs_stage (channel_reader_source K W P)) = cr_reset P"
  "st_activate (bs_stage (channel_reader_source K W P)) = cr_activate P"
  "st_flush (bs_stage (channel_reader_source K W P)) = cr_flush_channel"
  "bs_flush (channel_reader_source K W P) = next_channel"
  by (simp_all add: channel_reader_source_def)

section \<open>Decompression\<close>

text \<open>What the decompressors document: they respect the space they are given.\<close>

definition codec_bounded :: "'b channel_codec \<Rightarrow> bool" where
  "codec_bounded K \<longleftrightarrow>
     (\<forall>data n st. length (fst (snd (brotli_stream K data n st))) \<le> n)
     \<and> (\<forall>data n. case zlib_with_limit K data n of Inl (_, partial) \<Rightarrow> length partial \<le> n | Inr out \<Rightarrow> length out \<le> n)"

lemma brotli_loop_bounded:
  "codec_bounded K \<Longrightarrow> length out \<le> len \<Longrightarrow> len \<le> mx \<Longrightarrow>
     brotli_loop K data mx len out st = Inr res \<Longrightarrow> length res \<le> mx"
proof (induction K data mx len out st rule: brotli_loop.induct)
  case (1 K data mx len out st)
  obtain result produced st' where run: "brotli_stream K data (len - length out) st = (result, produced, st')"
    by (metis prod_cases3)
  have "length produced \<le> len - length out"
    using 1(2) run unfolding codec_bounded_def by (metis fst_conv snd_conv)
  then have out: "length (out @ produced) \<le> len"
    using 1(3) by simp
  show ?case
  proof (cases "result = NeedsMoreOutput \<and> len < mx")
    case True
    then have "brotli_loop K data mx (min (max (len * 2) 1) mx) (out @ produced) st' = Inr res"
      using 1(5) by (simp add: brotli_loop.simps [of K data mx len] run Let_def)
    moreover have "length (out @ produced) \<le> min (max (len * 2) 1) mx"
      using out True by simp
    ultimately show ?thesis
      using 1(1) [OF run [symmetric]] 1(2) True by simp
  next
    case False
    then have "res = out @ produced"
      using 1(5) by (simp add: brotli_loop.simps [of K data mx len] run Let_def split: brotli_result.splits if_splits)
    then show ?thesis
      using out 1(4) by simp
  qed
qed

lemma brotli_decompress_bounded:
  "codec_bounded K \<Longrightarrow> brotli_decompress K data mx = Inr res \<Longrightarrow> length res \<le> mx"
  unfolding brotli_decompress_def by (erule brotli_loop_bounded) auto

text \<open>A decoder that produces the bytes \<open>full\<close> in pieces, as many as there is space for.\<close>

definition streams :: "('b \<Rightarrow> nat) \<Rightarrow> 'b channel_codec \<Rightarrow> bytes \<Rightarrow> bytes \<Rightarrow> bool" where
  "streams pos K data full \<longleftrightarrow>
     pos (brotli_state K) = 0
     \<and> (\<forall>n st. case brotli_stream K data n st of (result, produced, st') \<Rightarrow>
          produced = take n (drop (pos st) full) \<and> pos st' = pos st + length produced
          \<and> result = (if length full \<le> pos st + n then ResultSuccess else NeedsMoreOutput))"

lemma brotli_loop_streams:
  assumes "streams pos K data full"
  shows "len \<le> mx \<Longrightarrow> out = take (pos st) full \<Longrightarrow> pos st \<le> len \<Longrightarrow> pos st \<le> length full \<Longrightarrow>
    brotli_loop K data mx len out st = (if full = [] then Inl ResultSuccess else Inr (take mx full))"
  using assms
proof (induction K data mx len out st rule: brotli_loop.induct)
  case (1 K data mx len out st)
  let ?more = "take (len - pos st) (drop (pos st) full)"
  obtain st' where run: "brotli_stream K data (len - length out) st =
      (if length full \<le> len then ResultSuccess else NeedsMoreOutput, ?more, st')"
    and st': "pos st' = pos st + length ?more"
    using 1(3-6) unfolding streams_def
    by (cases "brotli_stream K data (len - length out) st") (force simp: min_absorb2 split: prod.splits)
  have out: "out @ ?more = take len full"
    using 1(3,4) by (simp flip: take_add)
  show ?case
  proof (cases "length full \<le> len \<or> mx \<le> len")
    case True
    then show ?thesis
      using run out 1(2) by (auto simp: brotli_loop.simps [of K data mx len])
  next
    case False
    then have "brotli_loop K data mx len out st = brotli_loop K data mx (min (max (len * 2) 1) mx) (out @ ?more) st'"
      using run by (simp add: brotli_loop.simps [of K data mx len])
    also have "\<dots> = (if full = [] then Inl ResultSuccess else Inr (take mx full))"
      using False 1(4-6) st' out run by (intro 1(1)) (auto simp: min_def max_def)
    finally show ?thesis .
  qed
qed

lemma decompress_bounded:
  assumes "codec_bounded K" "length (br_decompressed rd) \<le> br_max_rlp_bytes_per_channel rd"
  shows "length (br_decompressed (snd (reader_decompress K rd)))
      \<le> br_max_rlp_bytes_per_channel (snd (reader_decompress K rd))"
proof -
  have zlib: "case zlib_with_limit K data n of Inl (_, partial) \<Rightarrow> length partial \<le> n | Inr out \<Rightarrow> length out \<le> n" for data n
    using assms(1) by (simp add: codec_bounded_def)
  have "length (br_decompressed (snd (decompress_zlib K data rd))) \<le> br_max_rlp_bytes_per_channel (snd (decompress_zlib K data rd))"
    if "length (br_decompressed rd) \<le> br_max_rlp_bytes_per_channel rd" for data rd
    using zlib [of "br_max_rlp_bytes_per_channel rd" data] that
    by (auto simp: decompress_zlib_def split: sum.splits)
  moreover have "length (br_decompressed (snd (decompress_brotli K data rd)))
      \<le> br_max_rlp_bytes_per_channel (snd (decompress_brotli K data rd))"
    if "length (br_decompressed rd) \<le> br_max_rlp_bytes_per_channel rd" for data rd
    using brotli_decompress_bounded [OF assms(1)] that
    by (auto simp: decompress_brotli_def Let_def split: sum.splits)
  ultimately show ?thesis
    using assms(2) by (auto simp: reader_decompress_def Let_def split: option.split list.split)
qed

section \<open>The stage contract\<close>

text \<open>What the batch stream relies on: a stage that never panics, hands out only regular spans, and
  whose channel can be dropped without moving the origin.\<close>

definition regular_batch :: "rollup_config \<Rightarrow> batch \<Rightarrow> bool" where
  "regular_batch cfg b \<longleftrightarrow> (case b of Single _ \<Rightarrow> True | Span s \<Rightarrow> regular_span (rc_block_time cfg) s)"

lemma regular_batch_simps [simp]:
  "regular_batch cfg (Single b)" "regular_batch cfg (Span s) = regular_span (rc_block_time cfg) s"
  by (simp_all add: regular_batch_def)

locale batch_supply = pipeline_stage "bs_stage B" good
  for B :: "'p batch_source" and good :: "'p \<Rightarrow> bool" +
  fixes cfg :: rollup_config
  assumes next_regular: "gives good (regular_batch cfg) (st_next (bs_stage B))"
    and drop_good: "good p \<Longrightarrow> good (bs_flush B p)"
    and drop_origin: "good p \<Longrightarrow> st_origin (bs_stage B) (bs_flush B p) = st_origin (bs_stage B) p"

definition cr_good :: "rollup_config \<Rightarrow> ('p \<Rightarrow> bool) \<Rightarrow> 'p channel_reader \<Rightarrow> bool" where
  "cr_good cfg good s \<longleftrightarrow> good (cr_prev s) \<and> cr_cfg s = cfg"

lemma next_batch_strict_ok:
  "fst (next_batch_strict K W cfg rd) \<noteq> Panic
   \<and> (\<forall>b. fst (next_batch_strict K W cfg rd) = Ok (Some b) \<longrightarrow> regular_batch cfg b)"
proof -
  have "batch_decode W cfg r \<noteq> Panic" "batch_decode W cfg r = Ok b \<Longrightarrow> regular_batch cfg b" for r b
    using batch_decode_spec [of cfg W r] by (auto simp: yields_def regular_batch_def)
  then show ?thesis
    by (auto simp: next_batch_strict_def split: prod.split sum.split outcome.split)
qed

lemma reader_next_batch_ok:
  "fst (reader_next_batch K W cfg rd) \<noteq> Panic"
  "reader_next_batch K W cfg rd = (Ok (Some b), rd') \<Longrightarrow> regular_batch cfg b"
  using next_batch_strict_ok [of K W cfg rd]
  by (auto simp: reader_next_batch_def split: prod.splits outcome.splits)

lemma cr_read_ok:
  "fst (cr_read K W rd s) \<noteq> Panic"
  "fst (cr_read K W rd s) = Ok b \<Longrightarrow> regular_batch (cr_cfg s) b"
  "cr_prev (snd (cr_read K W rd s)) = cr_prev s" "cr_cfg (snd (cr_read K W rd s)) = cr_cfg s"
proof -
  note ok = reader_next_batch_ok(1) [of K W "cr_cfg s" "snd (reader_decompress K rd)"]
  show "fst (cr_read K W rd s) \<noteq> Panic" "cr_prev (snd (cr_read K W rd s)) = cr_prev s"
    "cr_cfg (snd (cr_read K W rd s)) = cr_cfg s"
    using ok by (auto simp: cr_read_def next_channel_def split: prod.splits sum.splits outcome.splits option.splits)
  show "regular_batch (cr_cfg s) b" if "fst (cr_read K W rd s) = Ok b"
    using that by (auto simp: cr_read_def dest!: reader_next_batch_ok(2)
        split: prod.splits sum.splits outcome.splits option.splits)
qed

lemma cr_set_reader_ok:
  "fst (cr_set_reader P channel s) \<noteq> Panic"
  "fst (cr_set_reader P channel s) = Ok u \<Longrightarrow> cr_next_batch (snd (cr_set_reader P channel s)) \<noteq> None"
  "cr_prev (snd (cr_set_reader P channel s)) = cr_prev s" "cr_cfg (snd (cr_set_reader P channel s)) = cr_cfg s"
  by (auto simp: cr_set_reader_def Let_def split: option.splits)

context channel_source
begin

lemma cr_set_reader_safe: "safe_action (cr_good cfg good) (cr_set_reader S channel)"
  and cr_set_reader_origin: "keeps (cr_good cfg good) (cr_origin S) (cr_set_reader S channel)"
  using cr_set_reader_ok [of S channel] by (auto simp: safe_action_def keeps_def cr_good_def cr_origin_def)

lemma cr_on_prev:
  "safe_action good act \<Longrightarrow> safe_action (cr_good cfg good) (on_prev cr_prev cr_prev_update act)"
  "keeps good (st_origin S) act \<Longrightarrow> keeps (cr_good cfg good) (cr_origin S) (on_prev cr_prev cr_prev_update act)"
  by (auto simp: safe_action_def keeps_def cr_good_def cr_origin_def)

lemma set_batch_reader_safe: "safe_action (cr_good cfg good) (set_batch_reader S)"
  and set_batch_reader_origin: "keeps (cr_good cfg good) (cr_origin S) (set_batch_reader S)"
  using safe_abind [OF cr_on_prev(1) [OF next_safe] cr_set_reader_safe]
    keeps_abind [OF cr_on_prev(1) [OF next_safe] cr_on_prev(2) [OF next_origin] cr_set_reader_origin]
  by (simp_all add: safe_action_def keeps_def set_batch_reader_def)

lemma set_batch_reader_sets:
  "set_batch_reader S s = (Ok u, s') \<Longrightarrow> cr_next_batch s' \<noteq> None"
  by (auto simp: set_batch_reader_def abind_def split: prod.splits outcome.splits if_splits
      simp: cr_set_reader_def Let_def split: option.splits)

lemma cr_next_ok:
  assumes "cr_good cfg good s"
  shows "fst (cr_next K W S s) \<noteq> Panic \<and> cr_good cfg good (snd (cr_next K W S s))
    \<and> cr_origin S (snd (cr_next K W S s)) = cr_origin S s
    \<and> (\<forall>b. fst (cr_next K W S s) = Ok b \<longrightarrow> regular_batch cfg b)"
proof -
  obtain r s1 where run: "set_batch_reader S s = (r, s1)"
    by fastforce
  have s1: "r \<noteq> Panic" "cr_good cfg good s1" "cr_origin S s1 = cr_origin S s"
    using safe_actionD [OF set_batch_reader_safe assms] keepsD [OF set_batch_reader_origin assms] run by simp_all
  show ?thesis
  proof (cases r)
    case (Ok u)
    then obtain rd where "cr_next_batch s1 = Some rd"
      using set_batch_reader_sets run by blast
    then show ?thesis
      using cr_read_ok [of K W rd s1] s1 Ok run by (auto simp: cr_next_def cr_good_def cr_origin_def)
  qed (use s1 run in \<open>auto simp: cr_next_def next_channel_def cr_good_def cr_origin_def\<close>)
qed

end

sublocale channel_source \<subseteq> cr: batch_supply "channel_reader_source K W S" "cr_good cfg good" cfg
  for K W cfg
proof unfold_locales
  have drop: "cr_good cfg good (next_channel s)" if "cr_good cfg good s" for s
    using that by (simp add: cr_good_def next_channel_def)
  have clear: "cr_good cfg good (s\<lparr>cr_next_batch := None\<rparr>)" if "cr_good cfg good s" for s
    using that by (simp add: cr_good_def)
  let ?S = "bs_stage (channel_reader_source K W S)"
  show "safe_action (cr_good cfg good) (st_next ?S)" "keeps (cr_good cfg good) (st_origin ?S) (st_next ?S)"
    "gives (cr_good cfg good) (regular_batch cfg) (st_next ?S)"
    by (simp_all add: safe_action_def keeps_def gives_def cr_next_ok)
  show "safe_action (cr_good cfg good) (st_advance ?S)"
    by (simp add: cr_advance_origin_def cr_on_prev advance_safe)
  show "safe_action (cr_good cfg good) (st_reset ?S l1_origin c)" for l1_origin c
    by (simp add: cr_reset_def safe_abind cr_on_prev reset_safe safe_amodify drop)
  show "safe_action (cr_good cfg good) (st_activate ?S)"
    by (simp add: cr_activate_def safe_abind cr_on_prev activate_safe safe_amodify drop)
  show "safe_action (cr_good cfg good) (st_flush ?S)" "keeps (cr_good cfg good) (st_origin ?S) (st_flush ?S)"
    by (simp_all add: cr_flush_channel_def safe_amodify keeps_amodify clear cr_origin_def)
  show "cr_good cfg good (bs_flush (channel_reader_source K W S) p)"
    "st_origin ?S (bs_flush (channel_reader_source K W S) p) = st_origin ?S p" if "cr_good cfg good p" for p
    using drop [OF that] by (simp_all add: cr_origin_def next_channel_def)
qed

section \<open>Draining a channel\<close>

text \<open>Decoding an RLP string consumes input.\<close>

definition rlp_consumes :: "'b channel_codec \<Rightarrow> bool" where
  "rlp_consumes K \<longleftrightarrow> (\<forall>r encoded rest. rlp_bytes K r = Inr (encoded, rest) \<longrightarrow> length rest < length r)"

definition reader_bounded :: "batch_reader \<Rightarrow> bool" where
  "reader_bounded rd \<longleftrightarrow> length (br_decompressed rd) \<le> br_max_rlp_bytes_per_channel rd"

lemma reader_decompress_max [simp]:
  "br_max_rlp_bytes_per_channel (snd (reader_decompress K rd)) = br_max_rlp_bytes_per_channel rd"
  "br_cursor (snd (reader_decompress K rd)) = br_cursor rd"
  by (auto simp: reader_decompress_def decompress_zlib_def decompress_brotli_def Let_def
      split: option.split list.split sum.split)

lemma reader_decompress_bounded:
  assumes "reader_decompress K rd = (r, rd')" "codec_bounded K" "reader_bounded rd"
  shows "reader_bounded rd'" "br_cursor rd' = br_cursor rd"
    "br_max_rlp_bytes_per_channel rd' = br_max_rlp_bytes_per_channel rd"
  using decompress_bounded [of K rd] reader_decompress_max [of K rd] assms by (simp_all add: reader_bounded_def)

lemma next_batch_strict_advances:
  assumes "next_batch_strict K W cfg rd = (Ok (Some b), rd')" "codec_bounded K" "rlp_consumes K" "reader_bounded rd"
  shows "br_cursor rd < br_cursor rd'" "br_cursor rd' \<le> br_max_rlp_bytes_per_channel rd'" "reader_bounded rd'"
    "br_max_rlp_bytes_per_channel rd' = br_max_rlp_bytes_per_channel rd"
proof -
  obtain u rd1 where d: "reader_decompress K rd = (Inr u, rd1)"
    using assms(1) by (auto simp: next_batch_strict_def split: prod.splits sum.splits)
  note rd1 = reader_decompress_bounded [OF d assms(2,4)]
  obtain encoded rest where "rlp_bytes K (drop (br_cursor rd1) (br_decompressed rd1)) = Inr (encoded, rest)"
    and "br_cursor rd1 < length (br_decompressed rd1)"
    and rd': "rd' = rd1\<lparr>br_cursor := length (br_decompressed rd1) - length rest\<rparr>"
    using assms(1) d by (auto simp: next_batch_strict_def split: if_splits sum.splits outcome.splits)
  moreover have "length rest < length (br_decompressed rd1) - br_cursor rd1"
    using assms(3) calculation(1) unfolding rlp_consumes_def by fastforce
  ultimately show "br_cursor rd < br_cursor rd'" "br_cursor rd' \<le> br_max_rlp_bytes_per_channel rd'"
      "reader_bounded rd'" "br_max_rlp_bytes_per_channel rd' = br_max_rlp_bytes_per_channel rd"
    using rd1 by (auto simp: reader_bounded_def)
qed

text \<open>With a reader set, a call yields a batch and moves the cursor, or drops the channel.\<close>

lemma cr_next_with_reader:
  assumes "cr_next_batch s = Some rd" "codec_bounded K" "rlp_consumes K" "reader_bounded rd"
  obtains "cr_next K W P s = (Err (Temporary NotEnoughData), next_channel s)"
  | b rd' where "cr_next K W P s = (Ok b, s\<lparr>cr_next_batch := Some rd'\<rparr>)" "reader_bounded rd'"
      "br_cursor rd < br_cursor rd'" "br_cursor rd' \<le> br_max_rlp_bytes_per_channel rd'"
      "br_max_rlp_bytes_per_channel rd' = br_max_rlp_bytes_per_channel rd"
proof -
  have nxt: "cr_next K W P s = cr_read K W rd s"
    using assms(1) by (simp add: cr_next_def set_batch_reader_def)
  obtain r rd1 where d: "reader_decompress K rd = (r, rd1)"
    by fastforce
  note rd1 = reader_decompress_bounded [OF d assms(2,4)]
  obtain x rd2 where n: "next_batch_strict K W (cr_cfg s) rd1 = (x, rd2)"
    by fastforce
  have "x \<noteq> Panic"
    using next_batch_strict_ok [of K W "cr_cfg s" rd1] n by simp
  then consider e where "r = Inl e" | "r = Inr ()" "\<nexists>b. x = Ok (Some b)" | b where "r = Inr ()" "x = Ok (Some b)"
    by (cases r) auto
  then show thesis
  proof cases
    case 3
    then have "cr_next K W P s = (Ok b, s\<lparr>cr_next_batch := Some rd2\<rparr>)"
      using d n unfolding nxt by (simp add: cr_read_def reader_next_batch_def)
    then show thesis
      using that(2) next_batch_strict_advances [OF n [unfolded 3] assms(2,3) rd1(1)] rd1 by metis
  qed (use that(1) d n \<open>x \<noteq> Panic\<close> in
      \<open>auto simp: nxt cr_read_def reader_next_batch_def split: outcome.splits option.splits\<close>)
qed

lemma reader_drains:
  assumes "cr_next_batch s = Some rd" "codec_bounded K" "rlp_consumes K" "reader_bounded rd"
  shows "\<exists>bs s1. length bs \<le> br_max_rlp_bytes_per_channel rd - br_cursor rd
      \<and> run_calls (length bs) (cr_next K W P) s = (map Ok bs, s1) \<and> cr_prev s1 = cr_prev s
      \<and> cr_next K W P s1 = (Err (Temporary NotEnoughData), next_channel s1)"
  using assms(1,4)
proof (induction "br_max_rlp_bytes_per_channel rd - br_cursor rd" arbitrary: s rd rule: less_induct)
  case less
  show ?case
  proof (rule cr_next_with_reader [OF less(2) assms(2,3) less(3), of W P])
    assume "cr_next K W P s = (Err (Temporary NotEnoughData), next_channel s)"
    then show ?thesis
      by (intro exI [of _ "[]"]) simp
  next
    fix b rd'
    let ?s = "s\<lparr>cr_next_batch := Some rd'\<rparr>"
    assume step: "cr_next K W P s = (Ok b, ?s)" and rd': "reader_bounded rd'" "br_cursor rd < br_cursor rd'"
      "br_cursor rd' \<le> br_max_rlp_bytes_per_channel rd'"
      "br_max_rlp_bytes_per_channel rd' = br_max_rlp_bytes_per_channel rd"
    have "br_max_rlp_bytes_per_channel rd' - br_cursor rd' < br_max_rlp_bytes_per_channel rd - br_cursor rd"
      using rd' by simp
    then obtain bs s1 where "length bs \<le> br_max_rlp_bytes_per_channel rd' - br_cursor rd'"
        "run_calls (length bs) (cr_next K W P) ?s = (map Ok bs, s1)" "cr_prev s1 = cr_prev s"
        "cr_next K W P s1 = (Err (Temporary NotEnoughData), next_channel s1)"
      using less(1) [of rd' ?s] rd'(1) by auto
    then show ?thesis
      using step rd' by (intro exI [of _ "b # bs"]) auto
  qed
qed

section \<open>Properties\<close>

text \<open>A decoder over the identity: the channel data is its own decompression, and an RLP string is a
  length byte and that many bytes.\<close>

definition stored_codec :: "nat channel_codec" where
  "stored_codec =
     \<lparr>brotli_state = 0,
      brotli_stream = (\<lambda>data n st. (if length data \<le> st + n then ResultSuccess else NeedsMoreOutput,
        take n (drop st data), st + length (take n (drop st data)))),
      zlib_with_limit = (\<lambda>data n. if length data \<le> n then Inr data else Inl (True, take n data)),
      rlp_bytes = (\<lambda>r. case r of [] \<Rightarrow> Inl [] | n # r \<Rightarrow> Inr (take (unat n) r, drop (unat n) r))\<rparr>"

lemma stored_codec_ok: "codec_bounded stored_codec" "rlp_consumes stored_codec"
  "streams (\<lambda>st. st) stored_codec data data"
  by (auto simp: codec_bounded_def rlp_consumes_def streams_def stored_codec_def split: list.splits)

text \<open>Brotli decompression returns on every input, and for a decoder that streams the decompressed
  bytes into whatever space it is given, the growing buffer loses and repeats nothing: the result is
  the decompressed data cut off at the limit, and an error only if there is no data at all.\<close>

lemma brotli_truncates:
  assumes "streams pos K data full"
  shows "brotli_decompress K data mx = (if full = [] then Inl ResultSuccess else Inr (take mx full))"
  using brotli_loop_streams [OF assms, of "min (length data) mx" mx "[]" "brotli_state K"] assms
  by (simp add: brotli_decompress_def streams_def)



end
