(* ===== verification/Batch_Stream.thy ===== *)
theory Batch_Stream
  imports Channel_Reader
begin

text \<open>
  The batch stream stage (crates/consensus/derive/src/stages/batch/batch_stream.rs): from Holocene on
  it checks the prefix of a span batch, takes the span apart and hands out its singular batches one by
  one; before Holocene it passes batches through.  \<open>batch_feed\<close> is the contract the batch queue and the
  batch validator rely on.
\<close>

section \<open>State and operations\<close>

record ('p, 'f) batch_stream =
  bst_prev :: 'p
  bst_span :: "span_batch option"
  bst_buffer :: "single_batch list"
  bst_config :: rollup_config
  bst_fetcher :: 'f

definition batch_stream_new :: "'p \<Rightarrow> rollup_config \<Rightarrow> 'f \<Rightarrow> ('p, 'f) batch_stream" where
  "batch_stream_new prev config fetcher =
     \<lparr>bst_prev = prev, bst_span = None, bst_buffer = [], bst_config = config, bst_fetcher = fetcher\<rparr>"

definition bst_origin :: "'p batch_source \<Rightarrow> ('p, 'f) batch_stream \<Rightarrow> block_info option" where
  "bst_origin P s = st_origin (bs_stage P) (bst_prev s)"

definition bst_is_active :: "'p batch_source \<Rightarrow> ('p, 'f) batch_stream \<Rightarrow> bool presult" where
  "bst_is_active P s =
     (case bst_origin P s of
        None \<Rightarrow> Err (crit MissingOrigin)
      | Some origin \<Rightarrow> Ok (is_holocene_active (bst_config s) (bi_timestamp origin)))"

definition try_hydrate_buffer ::
    "l2_block_info \<Rightarrow> block_info list \<Rightarrow> ('p, 'f) batch_stream
       \<Rightarrow> (span_batch_error, unit) outcome \<times> ('p, 'f) batch_stream" where
  "try_hydrate_buffer parent l1_origins s =
     (case bst_span s of
        None \<Rightarrow> (Ok (), s)
      | Some staged \<Rightarrow>
         (case get_singular_batches staged l1_origins parent of
            Ok bs \<Rightarrow> (Ok (), s\<lparr>bst_span := None, bst_buffer := bst_buffer s @ bs\<rparr>)
          | Err e \<Rightarrow> (Err e, s\<lparr>bst_span := None\<rparr>)
          | Panic \<Rightarrow> (Panic, s\<lparr>bst_span := None\<rparr>)))"

definition get_single_batch ::
    "l2_block_info \<Rightarrow> block_info list \<Rightarrow> ('p, 'f) batch_stream
       \<Rightarrow> (span_batch_error, single_batch option) outcome \<times> ('p, 'f) batch_stream" where
  "get_single_batch parent l1_origins s =
     (case try_hydrate_buffer parent l1_origins s of
        (Ok _, s) \<Rightarrow>
          (case bst_buffer s of
             [] \<Rightarrow> (Ok None, s)
           | b # bs \<Rightarrow> (Ok (Some (b\<lparr>sb_parent_hash := bi_hash (l2_block parent)\<rparr>)), s\<lparr>bst_buffer := bs\<rparr>))
      | (Err e, s) \<Rightarrow> (Err e, s)
      | (Panic, s) \<Rightarrow> (Panic, s))"

definition bst_flush :: "'p batch_source \<Rightarrow> ('p, 'f) batch_stream \<Rightarrow> ('p, 'f) batch_stream" where
  "bst_flush P s =
     (if bst_is_active P s = Ok True
      then s\<lparr>bst_prev := bs_flush P (bst_prev s), bst_span := None, bst_buffer := []\<rparr> else s)"

definition bst_span_buffer_size :: "('p, 'f) batch_stream \<Rightarrow> nat" where
  "bst_span_buffer_size s = length (bst_buffer s)"

text \<open>What the prefix rules decide about a span batch.\<close>

definition bst_stage_span ::
    "('f, 'blk) validation_provider \<Rightarrow> 'p batch_source \<Rightarrow> l2_block_info \<Rightarrow> block_info list \<Rightarrow> block_info \<Rightarrow> span_batch
       \<Rightarrow> (('p, 'f) batch_stream, unit) action" where
  "bst_stage_span F P parent l1_origins inclusion b s =
     (case check_batch_prefix F (bst_config s) l1_origins parent inclusion b (bst_fetcher s) of
        (None, f) \<Rightarrow> (Panic, s\<lparr>bst_fetcher := f\<rparr>)
      | (Some (validity, _), f) \<Rightarrow>
          let s = s\<lparr>bst_fetcher := f\<rparr> in
          case validity of
            Accept \<Rightarrow> (Ok (), s\<lparr>bst_span := Some b\<rparr>)
          | Drop _ \<Rightarrow> (Err (temp NotEnoughData), bst_flush P s)
          | Past \<Rightarrow>
             (case bst_is_active P s of
                Err e \<Rightarrow> (Err e, s)
              | Panic \<Rightarrow> (Panic, s)
              | Ok active \<Rightarrow> (Err (if active then temp NotEnoughData else crit InvalidBatchValidity), s))
          | _ \<Rightarrow> (Err (temp NotEnoughData), s))"

definition bst_take ::
    "'p batch_source \<Rightarrow> l2_block_info \<Rightarrow> block_info list \<Rightarrow> (('p, 'f) batch_stream, batch) action" where
  "bst_take P parent l1_origins s =
     (case get_single_batch parent l1_origins s of
        (Ok (Some b), s) \<Rightarrow> (Ok (Single b), s)
      | (Ok None, s) \<Rightarrow> (Err (temp NotEnoughData), s)
      | (Err _, s) \<Rightarrow> (Err (temp NotEnoughData), bst_flush P s)
      | (Panic, s) \<Rightarrow> (Panic, s))"

text \<open>Pulling a batch when the buffer is empty.\<close>

definition bst_pull ::
    "('f, 'blk) validation_provider \<Rightarrow> 'p batch_source \<Rightarrow> l2_block_info \<Rightarrow> block_info list
       \<Rightarrow> (('p, 'f) batch_stream, batch) action" where
  "bst_pull F P parent l1_origins s =
     (case bst_origin P s of
        None \<Rightarrow> (Err (crit MissingOrigin), s)
      | Some inclusion \<Rightarrow>
          abind (on_prev bst_prev bst_prev_update (st_next (bs_stage P)))
            (\<lambda>b. case b of
               Single b \<Rightarrow> areturn (Ok (Single b))
             | Span b \<Rightarrow> abind (bst_stage_span F P parent l1_origins inclusion b)
                 (\<lambda>_. bst_take P parent l1_origins)) s)"

definition bst_next ::
    "('f, 'blk) validation_provider \<Rightarrow> 'p batch_source \<Rightarrow> l2_block_info \<times> block_info list
       \<Rightarrow> (('p, 'f) batch_stream, batch) action" where
  "bst_next F P q s =
     (let (parent, l1_origins) = q in
      case bst_is_active P s of
        Err e \<Rightarrow> (Err e, s)
      | Panic \<Rightarrow> (Panic, s)
      | Ok active \<Rightarrow>
          if \<not> active then on_prev bst_prev bst_prev_update (st_next (bs_stage P)) s
          else
            (case l2_block_timestamp (bst_config s) (bi_number (l2_block parent) + 1) of
               None \<Rightarrow> (Panic, s)
             | Some t \<Rightarrow>
                 if is_cobalt_active (bst_config s) t \<and> (bst_span s \<noteq> None \<or> bst_buffer s \<noteq> [])
                 then (Err (temp NotEnoughData), bst_flush P s)
                 else if bst_buffer s = [] then bst_pull F P parent l1_origins s
                 else bst_take P parent l1_origins s))"

definition bst_clear :: "unit \<Rightarrow> (('p, 'f) batch_stream, unit) action" where
  "bst_clear = amodify (\<lambda>s. s\<lparr>bst_buffer := [], bst_span := None\<rparr>)"

definition bst_advance_origin :: "'p batch_source \<Rightarrow> (('p, 'f) batch_stream, unit) action" where
  "bst_advance_origin P = on_prev bst_prev bst_prev_update (st_advance (bs_stage P))"

definition bst_reset ::
    "'p batch_source \<Rightarrow> block_num_hash \<Rightarrow> system_config \<Rightarrow> (('p, 'f) batch_stream, unit) action" where
  "bst_reset P l1_origin system_config =
     abind (on_prev bst_prev bst_prev_update (st_reset (bs_stage P) l1_origin system_config)) bst_clear"

definition bst_activate :: "'p batch_source \<Rightarrow> (('p, 'f) batch_stream, unit) action" where
  "bst_activate P = abind (on_prev bst_prev bst_prev_update (st_activate (bs_stage P))) bst_clear"

definition bst_flush_channel :: "'p batch_source \<Rightarrow> (('p, 'f) batch_stream, unit) action" where
  "bst_flush_channel P = abind (on_prev bst_prev bst_prev_update (st_flush (bs_stage P))) bst_clear"

definition batch_stream_ops ::
    "('f, 'blk) validation_provider \<Rightarrow> 'p batch_source \<Rightarrow> ('p, 'f) batch_stream batch_ops" where
  "batch_stream_ops F P =
     \<lparr>bo_stage = \<lparr>qs_next = bst_next F P, qs_origin = bst_origin P, qs_advance = bst_advance_origin P,
        qs_reset = bst_reset P, qs_activate = bst_activate P, qs_flush = bst_flush_channel P\<rparr>,
      bo_flush = bst_flush P, bo_span_buffer_size = bst_span_buffer_size\<rparr>"

lemma batch_stream_ops_simps [simp]:
  "qs_next (bo_stage (batch_stream_ops F P)) = bst_next F P"
  "qs_origin (bo_stage (batch_stream_ops F P)) = bst_origin P"
  "qs_advance (bo_stage (batch_stream_ops F P)) = bst_advance_origin P"
  "qs_reset (bo_stage (batch_stream_ops F P)) = bst_reset P"
  "qs_activate (bo_stage (batch_stream_ops F P)) = bst_activate P"
  "qs_flush (bo_stage (batch_stream_ops F P)) = bst_flush_channel P"
  "bo_flush (batch_stream_ops F P) = bst_flush P"
  "bo_span_buffer_size (batch_stream_ops F P) = bst_span_buffer_size"
  by (simp_all add: batch_stream_ops_def)

section \<open>The checks return\<close>

lemma l2_block_timestamp_total:
  "rc_block_time c \<noteq> 0 \<Longrightarrow> \<exists>t. l2_block_timestamp c n = Some t"
  by (auto simp: l2_block_timestamp_def l2_block_timestamp_millis_def cobalt_activation_block_number_def
      activation_block_number_def Let_def split: option.split)

lemma singular_batches_no_panic: "singular_batches l1_origins safe i es \<noteq> Panic"
  by (induction l1_origins safe i es rule: singular_batches.induct)
     (auto simp: obind_eq_Panic split: option.split)

lemma prefix_total:
  assumes "rc_block_time cfg \<noteq> 0"
  shows "fst (check_batch_prefix F cfg l1_origins safe inclusion s f) \<noteq> None"
proof -
  obtain t where t: "l2_block_timestamp cfg (bi_number (l2_block safe) + 1) = Some t"
    using l2_block_timestamp_total [OF assms] by blast
  have "fst (span_parent F cfg t safe s f) \<noteq> None"
    using assms by (simp add: span_parent_def Let_def split: prod.split sum.split)
  then show ?thesis
    by (auto simp: check_batch_prefix_def t verdict_def Let_def split: prod.split sum.split option.split)
qed

section \<open>The stage contract\<close>

text \<open>What the batch queue and the validator rely on.\<close>

locale batch_feed =
  fixes B :: "'p batch_ops" and good :: "'p \<Rightarrow> bool" and cfg :: rollup_config
  assumes next_safe: "safe_action good (qs_next (bo_stage B) q)"
    and next_origin: "keeps good (qs_origin (bo_stage B)) (qs_next (bo_stage B) q)"
    and next_regular: "gives good (regular_batch cfg) (qs_next (bo_stage B) q)"
    and drop_good: "good p \<Longrightarrow> good (bo_flush B p)"
    and drop_origin: "good p \<Longrightarrow> qs_origin (bo_stage B) (bo_flush B p) = qs_origin (bo_stage B) p"
    and advance_safe: "safe_action good (qs_advance (bo_stage B))"
    and reset_safe: "safe_action good (qs_reset (bo_stage B) l1_origin system_config)"
    and activate_safe: "safe_action good (qs_activate (bo_stage B))"
    and flush_safe: "safe_action good (qs_flush (bo_stage B))"
    and flush_origin: "keeps good (qs_origin (bo_stage B)) (qs_flush (bo_stage B))"

text \<open>A span is staged only inside a call.\<close>

definition bst_good :: "rollup_config \<Rightarrow> ('p \<Rightarrow> bool) \<Rightarrow> ('p, 'f) batch_stream \<Rightarrow> bool" where
  "bst_good cfg good s \<longleftrightarrow> good (bst_prev s) \<and> bst_config s = cfg \<and> bst_span s = None"

definition bst_open :: "rollup_config \<Rightarrow> ('p \<Rightarrow> bool) \<Rightarrow> ('p, 'f) batch_stream \<Rightarrow> bool" where
  "bst_open cfg good s \<longleftrightarrow> good (bst_prev s) \<and> bst_config s = cfg"

text \<open>A call of the batch stream as the contract wants it: from an open state to a good one.\<close>

definition bst_call ::
    "rollup_config \<Rightarrow> ('p \<Rightarrow> bool) \<Rightarrow> 'p batch_source \<Rightarrow> ('p, 'f) batch_stream
       \<Rightarrow> batch presult \<times> ('p, 'f) batch_stream \<Rightarrow> bool" where
  "bst_call cfg good P s r \<longleftrightarrow>
     fst r \<noteq> Panic \<and> bst_good cfg good (snd r) \<and> bst_origin P (snd r) = bst_origin P s
     \<and> (\<forall>b. fst r = Ok b \<longrightarrow> regular_batch cfg b)"

context batch_supply
begin

lemma bst_flush_good:
  "bst_good cfg good s \<Longrightarrow> bst_good cfg good (bst_flush B s) \<and> bst_origin B (bst_flush B s) = bst_origin B s"
  by (simp add: bst_good_def bst_flush_def bst_origin_def drop_good drop_origin)

lemma bst_take_call:
  assumes "bst_open cfg good s"
  shows "bst_call cfg good B s (bst_take B parent l1_origins s)"
proof -
  obtain r s1 where run: "get_single_batch parent l1_origins s = (r, s1)"
    by fastforce
  have s1: "r \<noteq> Panic" "bst_good cfg good s1" "bst_origin B s1 = bst_origin B s"
    using run assms singular_batches_no_panic
    by (auto simp: get_single_batch_def try_hydrate_buffer_def get_singular_batches_def bst_good_def bst_open_def
        bst_origin_def split: option.splits outcome.splits list.splits)
  then show ?thesis
    using bst_flush_good [OF s1(2)] run
    by (auto simp: bst_take_def bst_call_def split: outcome.splits option.splits)
qed

lemma bst_stage_span_ok:
  assumes "bst_good cfg good s" "rc_block_time cfg \<noteq> 0"
  shows "fst (bst_stage_span F B parent l1_origins inclusion b s) \<noteq> Panic
    \<and> bst_origin B (snd (bst_stage_span F B parent l1_origins inclusion b s)) = bst_origin B s
    \<and> (if fst (bst_stage_span F B parent l1_origins inclusion b s) = Ok ()
       then bst_open cfg good (snd (bst_stage_span F B parent l1_origins inclusion b s))
       else bst_good cfg good (snd (bst_stage_span F B parent l1_origins inclusion b s)))"
proof -
  have cfg: "bst_config s = cfg"
    using assms(1) by (simp add: bst_good_def)
  obtain v p f where run: "check_batch_prefix F cfg l1_origins parent inclusion b (bst_fetcher s) = (Some (v, p), f)"
    using prefix_total [OF assms(2), of F l1_origins parent inclusion b "bst_fetcher s"]
    by (metis not_Some_eq surj_pair prod.collapse)
  let ?s = "s\<lparr>bst_fetcher := f\<rparr>"
  have "bst_good cfg good ?s" "bst_origin B ?s = bst_origin B s" "bst_is_active B ?s \<noteq> Panic"
    "bst_open cfg good (?s\<lparr>bst_span := Some b\<rparr>)" "bst_origin B (?s\<lparr>bst_span := Some b\<rparr>) = bst_origin B s"
    using assms(1) by (simp_all add: bst_good_def bst_open_def bst_origin_def bst_is_active_def split: option.split)
  then show ?thesis
    using bst_flush_good [of ?s]
    by (cases v) (auto simp: bst_stage_span_def cfg run Let_def split: outcome.split)
qed

lemma bst_pull_call:
  assumes s: "bst_good cfg good s" and bt: "rc_block_time cfg \<noteq> 0"
  shows "bst_call cfg good B s (bst_pull F B parent l1_origins s)"
proof (cases "bst_origin B s")
  case None
  then show ?thesis
    using s by (simp add: bst_pull_def bst_call_def)
next
  case (Some inclusion)
  obtain r p where run: "st_next (bs_stage B) (bst_prev s) = (r, p)"
    by fastforce
  let ?s = "s\<lparr>bst_prev := p\<rparr>"
  have p: "r \<noteq> Panic" "bst_good cfg good ?s" "bst_origin B ?s = bst_origin B s"
    using safe_actionD [OF next_safe, of "bst_prev s"] keepsD [OF next_origin, of "bst_prev s"] s run
    by (simp_all add: bst_good_def bst_origin_def)
  have regular: "regular_batch cfg b" if "r = Ok b" for b
    using givesD [OF next_regular, of "bst_prev s"] s run that by (simp add: bst_good_def)
  have span: "bst_call cfg good B s (abind (bst_stage_span F B parent l1_origins inclusion b)
      (\<lambda>_. bst_take B parent l1_origins) ?s)" for b
    using bst_stage_span_ok [OF p(2) bt, of F parent l1_origins inclusion b] p(3)
      bst_take_call [of "snd (bst_stage_span F B parent l1_origins inclusion b ?s)" parent l1_origins]
    by (cases "bst_stage_span F B parent l1_origins inclusion b ?s"; cases "fst (bst_stage_span F B parent l1_origins inclusion b ?s)")
       (auto simp: abind_def bst_call_def)
  have step: "on_prev bst_prev bst_prev_update (st_next (bs_stage B)) s = (r, ?s)"
    using run by (simp add: on_prev_def)
  show ?thesis
  proof (cases r)
    case (Ok b)
    then show ?thesis
      using span p regular step Some
      by (cases b) (simp_all add: bst_pull_def abind_def [of "on_prev bst_prev bst_prev_update (st_next (bs_stage B))"]
          areturn_def bst_call_def)
  qed (use p step Some in \<open>auto simp: bst_pull_def abind_def bst_call_def\<close>)
qed

lemma bst_next_call:
  assumes s: "bst_good cfg good s" and bt: "rc_block_time cfg \<noteq> 0"
  shows "bst_call cfg good B s (bst_next F B q s)"
proof -
  obtain parent l1_origins where q: "q = (parent, l1_origins)"
    by fastforce
  from l2_block_timestamp_total [OF bt] obtain t where
    t: "l2_block_timestamp (bst_config s) (bi_number (l2_block parent) + 1) = Some t"
    using s by (auto simp: bst_good_def)
  have pass: "bst_call cfg good B s (on_prev bst_prev bst_prev_update (st_next (bs_stage B)) s)"
    using s safe_actionD [OF next_safe, of "bst_prev s"] keepsD [OF next_origin, of "bst_prev s"]
      next_regular
    by (auto simp: bst_call_def bst_good_def bst_origin_def gives_def)
  have opened: "bst_open cfg good s"
    using s by (simp add: bst_good_def bst_open_def)
  have err: "bst_call cfg good B s (Err e, s)" "bst_call cfg good B s (Err e, bst_flush B s)" for e
    using s bst_flush_good [OF s] by (simp_all add: bst_call_def)
  show ?thesis
    by (simp add: bst_next_def q t bst_is_active_def pass err bst_pull_call [OF s bt] bst_take_call [OF opened]
        split: option.split)
qed

lemma bst_on_prev:
  "safe_action good act \<Longrightarrow> safe_action (bst_good cfg good) (on_prev bst_prev bst_prev_update act)"
  "keeps good (st_origin (bs_stage B)) act \<Longrightarrow>
     keeps (bst_good cfg good) (bst_origin B) (on_prev bst_prev bst_prev_update act)"
  by (auto simp: safe_action_def keeps_def bst_good_def bst_origin_def)

lemma bst_clear_safe: "safe_action (bst_good cfg good) (bst_clear u)"
  and bst_clear_origin: "keeps (bst_good cfg good) (bst_origin B) (bst_clear u)"
  by (simp_all add: bst_clear_def safe_action_def keeps_def amodify_def bst_good_def bst_origin_def)

end

locale timed_batch_supply = batch_supply +
  assumes block_time: "rc_block_time cfg \<noteq> 0"

sublocale timed_batch_supply \<subseteq> bst: batch_feed "batch_stream_ops F B" "bst_good cfg good" cfg
  for F
proof unfold_locales
  let ?S = "bo_stage (batch_stream_ops F B)"
  show "safe_action (bst_good cfg good) (qs_next ?S q)" "keeps (bst_good cfg good) (qs_origin ?S) (qs_next ?S q)"
    "gives (bst_good cfg good) (regular_batch cfg) (qs_next ?S q)" for q
    by (simp_all add: safe_action_def keeps_def gives_def bst_next_call [OF _ block_time, unfolded bst_call_def])
  show "safe_action (bst_good cfg good) (qs_advance ?S)"
    by (simp add: bst_advance_origin_def bst_on_prev advance_safe)
  show "safe_action (bst_good cfg good) (qs_reset ?S l1_origin c)" for l1_origin c
    by (simp add: bst_reset_def safe_abind bst_on_prev reset_safe bst_clear_safe)
  show "safe_action (bst_good cfg good) (qs_activate ?S)"
    by (simp add: bst_activate_def safe_abind bst_on_prev activate_safe bst_clear_safe)
  show "safe_action (bst_good cfg good) (qs_flush ?S)" "keeps (bst_good cfg good) (qs_origin ?S) (qs_flush ?S)"
    by (simp_all add: bst_flush_channel_def safe_abind keeps_abind bst_on_prev flush_safe flush_origin
        bst_clear_safe bst_clear_origin)
  show "bst_good cfg good (bo_flush (batch_stream_ops F B) p)"
    "qs_origin ?S (bo_flush (batch_stream_ops F B) p) = qs_origin ?S p" if "bst_good cfg good p" for p
    using bst_flush_good [OF that] by simp_all
qed

section \<open>Streaming a span\<close>

definition linked :: "l2_block_info \<times> block_info list \<Rightarrow> single_batch \<Rightarrow> batch presult" where
  "linked q b = Ok (Single (b\<lparr>sb_parent_hash := bi_hash (l2_block (fst q))\<rparr>))"

text \<open>Queries on heads whose next block is still before Cobalt.\<close>

definition pre_cobalt :: "rollup_config \<Rightarrow> l2_block_info \<times> block_info list \<Rightarrow> bool" where
  "pre_cobalt cfg q \<longleftrightarrow>
     (case l2_block_timestamp cfg (bi_number (l2_block (fst q)) + 1) of
        None \<Rightarrow> False | Some t \<Rightarrow> \<not> is_cobalt_active cfg t)"

lemma bst_next_buffered:
  assumes "bst_is_active P s = Ok True" "bst_span s = None" "bst_buffer s = b # bs" "pre_cobalt (bst_config s) q"
  shows "bst_next F P q s = (linked q b, s\<lparr>bst_buffer := bs\<rparr>)"
  using assms
  by (auto simp: bst_next_def pre_cobalt_def bst_take_def get_single_batch_def try_hydrate_buffer_def linked_def
      split: option.splits prod.split)

lemma bst_is_active_simps [simp]:
  "bst_is_active P (s\<lparr>bst_buffer := bs\<rparr>) = bst_is_active P s"
  "bst_is_active P (s\<lparr>bst_fetcher := f\<rparr>) = bst_is_active P s"
  by (simp_all add: bst_is_active_def bst_origin_def split: option.split)

lemma buffer_streams:
  assumes "bst_is_active P s = Ok True" "bst_span s = None" "bst_buffer s = bs" "length qs \<le> length bs"
    "list_all (pre_cobalt (bst_config s)) qs"
  shows "run_queries qs (bst_next F P) s = (map2 linked qs bs, s\<lparr>bst_buffer := drop (length qs) bs\<rparr>)"
  using assms
proof (induction qs arbitrary: s bs)
  case (Cons q qs)
  then obtain b bs' where bs: "bs = b # bs'"
    by (cases bs) auto
  let ?s = "s\<lparr>bst_buffer := bs'\<rparr>"
  have "bst_next F P q s = (linked q b, ?s)"
    using Cons.prems bs by (intro bst_next_buffered) simp_all
  moreover have "run_queries qs (bst_next F P) ?s = (map2 linked qs bs', ?s\<lparr>bst_buffer := drop (length qs) bs'\<rparr>)"
    using Cons.prems bs by (intro Cons.IH) simp_all
  ultimately show ?case
    by (simp add: bs)
qed simp

lemma bst_next_span:
  assumes "bst_is_active P s = Ok True" "bst_span s = None" "bst_buffer s = []" "pre_cobalt (bst_config s) q"
    and "bst_origin P s = Some l1" "st_next (bs_stage P) (bst_prev s) = (Ok (Span b), p)"
    and "check_batch_prefix F (bst_config s) (snd q) (fst q) l1 b (bst_fetcher s) = (Some (Accept, x), f)"
    and "get_singular_batches b (snd q) (fst q) = Ok (sb # sbs)"
  shows "bst_next F P q s = (linked q sb, s\<lparr>bst_prev := p, bst_fetcher := f, bst_buffer := sbs\<rparr>)"
proof -
  obtain t where "l2_block_timestamp (bst_config s) (bi_number (l2_block (fst q)) + 1) = Some t"
    using assms(4) by (auto simp: pre_cobalt_def split: option.splits)
  then show ?thesis
    using assms
    by (cases q) (simp add: bst_next_def bst_pull_def abind_def on_prev_def bst_stage_span_def bst_take_def
        get_single_batch_def try_hydrate_buffer_def linked_def)
qed

lemma stream_span:
  assumes "bst_is_active P s = Ok True" "bst_span s = None" "bst_buffer s = []"
    and "bst_origin P s = Some l1" "st_next (bs_stage P) (bst_prev s) = (Ok (Span b), p)"
    and "st_origin (bs_stage P) p = Some l1"
    and "check_batch_prefix F (bst_config s) l1_origins parent l1 b (bst_fetcher s) = (Some (Accept, x), f)"
    and "get_singular_batches b l1_origins parent = Ok bs"
    and "length qs < length bs" "list_all (pre_cobalt (bst_config s)) ((parent, l1_origins) # qs)"
  shows "run_queries ((parent, l1_origins) # qs) (bst_next F P) s =
    (map2 linked ((parent, l1_origins) # qs) bs,
     s\<lparr>bst_prev := p, bst_fetcher := f, bst_buffer := drop (Suc (length qs)) bs\<rparr>)"
proof -
  obtain sb sbs where bs: "bs = sb # sbs"
    using assms(9) by (cases bs) auto
  let ?s = "s\<lparr>bst_prev := p, bst_fetcher := f, bst_buffer := sbs\<rparr>"
  have "bst_next F P (parent, l1_origins) s = (linked (parent, l1_origins) sb, ?s)"
    using assms bs by (intro bst_next_span) simp_all
  moreover have "run_queries qs (bst_next F P) ?s = (map2 linked qs sbs, ?s\<lparr>bst_buffer := drop (length qs) sbs\<rparr>)"
    using assms bs by (intro buffer_streams) (simp_all add: bst_is_active_def bst_origin_def)
  ultimately show ?thesis
    by (simp add: bs)
qed

section \<open>Properties\<close>

text \<open>A chain with Holocene active and a reader that holds one span batch.\<close>

definition holocene_config :: rollup_config where
  "holocene_config = span_config\<lparr>rc_upgrades := upgrade_config_default\<lparr>u_delta_time := Some 0, u_holocene_time := Some 0\<rparr>\<rparr>"

definition recorded :: "(batch list \<times> block_info) batch_source" where
  "recorded = \<lparr>bs_stage = replay, bs_flush = (\<lambda>p. p)\<rparr>"

definition two_block_span :: span_batch where
  "two_block_span = one_block_span\<lparr>sp_batches :=
     [\<lparr>se_epoch_num = 0, se_timestamp = 2, se_transactions = [[2, 9]]\<rparr>,
      \<lparr>se_epoch_num = 0, se_timestamp = 4, se_transactions = []\<rparr>]\<rparr>"

lemma holocene_config_forks:
  "\<not> is_cobalt_active holocene_config t" "is_holocene_active holocene_config t"
  "is_delta_active holocene_config t" "l2_block_timestamp holocene_config 1 = Some 2" "rc_block_time holocene_config = 2"
  by (simp_all add: fork_defs active_at_def is_cobalt_active_def
      l2_block_timestamp_def l2_block_timestamp_millis_def cobalt_activation_block_number_def
      activation_block_number_def upgrade_activation_timestamp_def upgrade_activation_of_def registry_activation_def
      holocene_config_def span_config_def rollup_config_default_def upgrade_config_default_def chain_genesis_default_def
      base_upgrade_config_default_def saturating_sub_def saturating_add_def saturating_mul_def Let_def)

lemma two_block_span_prefix:
  "check_batch_prefix no_blocks holocene_config [block_info_default] genesis_head block_info_default two_block_span ()
     = (Some (Accept, Some genesis_head), ())"
proof -
  have h: "hash_bytes 0 = replicate 32 0"
    by code_simp
  show ?thesis
    using holocene_config_forks
    by (simp add: check_batch_prefix_def verdict_def span_parent_def check_span_origins_def two_block_span_def
        one_block_span_def starting_timestamp_def final_timestamp_def starting_epoch_num_def genesis_head_def
        block_info_default_def check_parent_hash_def check_origin_hash_def h)
qed

text \<open>C23. From Holocene on, a span batch whose prefix is accepted is streamed: the calls that follow, up to
  one for each singular batch extracted from it and each on any head before Cobalt, return exactly
  these batches in order, each linked to the head it is asked for; the channel reader is asked once
  and what is not yet handed out stays buffered.\<close>

theorem span_is_streamed:
  assumes "bst_is_active P s = Ok True" "bst_span s = None" "bst_buffer s = []"
    and "bst_origin P s = Some l1" "st_next (bs_stage P) (bst_prev s) = (Ok (Span b), p)"
    and "st_origin (bs_stage P) p = Some l1"
    and "check_batch_prefix F (bst_config s) l1_origins parent l1 b (bst_fetcher s) = (Some (Accept, x), f)"
    and "get_singular_batches b l1_origins parent = Ok bs"
    and "length qs < length bs" "list_all (pre_cobalt (bst_config s)) ((parent, l1_origins) # qs)"
  shows "run_queries ((parent, l1_origins) # qs) (bst_next F P) s =
    (map2 linked ((parent, l1_origins) # qs) bs,
     s\<lparr>bst_prev := p, bst_fetcher := f, bst_buffer := drop (Suc (length qs)) bs\<rparr>)"
  using stream_span [OF assms] .

theorem span_is_streamed_witness:
  "\<exists>s'. run_queries [(genesis_head, [block_info_default]), (genesis_head, [])] (bst_next no_blocks recorded)
      (batch_stream_new ([Span two_block_span], block_info_default) holocene_config ()) =
    ([Ok (Single \<lparr>sb_parent_hash = 0, sb_epoch_num = 0, sb_epoch_hash = 0, sb_timestamp = 2, sb_transactions = [[2, 9]]\<rparr>),
      Ok (Single \<lparr>sb_parent_hash = 0, sb_epoch_num = 0, sb_epoch_hash = 0, sb_timestamp = 4, sb_transactions = []\<rparr>)], s')"
proof -
  let ?s = "batch_stream_new ([Span two_block_span], block_info_default) holocene_config ()"
  note cfg = holocene_config_forks two_block_span_prefix
  have s: "bst_span ?s = None" "bst_buffer ?s = []" "bst_config ?s = holocene_config" "bst_fetcher ?s = ()"
    "bst_origin recorded ?s = Some block_info_default" "bst_is_active recorded ?s = Ok True"
    "st_next (bs_stage recorded) (bst_prev ?s) = (Ok (Span two_block_span), ([], block_info_default))"
    "st_origin (bs_stage recorded) ([], block_info_default) = Some block_info_default"
    by (simp_all add: batch_stream_new_def recorded_def bst_origin_def bst_is_active_def cfg)
  have bs: "get_singular_batches two_block_span [block_info_default] genesis_head =
     Ok [\<lparr>sb_parent_hash = 0, sb_epoch_num = 0, sb_epoch_hash = 0, sb_timestamp = 2, sb_transactions = [[2, 9]]\<rparr>,
         \<lparr>sb_parent_hash = 0, sb_epoch_num = 0, sb_epoch_hash = 0, sb_timestamp = 4, sb_transactions = []\<rparr>]"
    by (simp add: get_singular_batches_def two_block_span_def genesis_head_def block_info_default_def origin_from_def)
  have pre: "pre_cobalt holocene_config (genesis_head, l1s)" for l1s
    using cfg by (simp add: pre_cobalt_def genesis_head_def block_info_default_def)
  show ?thesis
    using span_is_streamed [OF s(6,1,2,5,7,8) _ bs, of no_blocks "Some genesis_head" "()" "[(genesis_head, [])]"]
      pre cfg(6) unfolding s(3,4) by (simp add: linked_def genesis_head_def block_info_default_def)
qed

end
