(* ===== verification/Safe_Head.thy ===== *)
theory Safe_Head
  imports Batch_Stream
begin

text \<open>
  What the batch queue and the batch validator share: the window of L1 blocks that they keep in step
  with the origin of the pipeline and the epoch of the safe head (the code is in both
  stages/batch/batch_queue.rs and stages/batch/batch_validator.rs), and the contract
  \<open>attributes_source\<close> that both offer to the attributes queue.
\<close>

section \<open>The window of L1 blocks\<close>

text \<open>The pipeline has not yet reached the L1 origin of the safe head.\<close>

definition origin_behind :: "block_info option \<Rightarrow> l2_block_info \<Rightarrow> bool" where
  "origin_behind prev_origin parent \<longleftrightarrow>
     (case prev_origin of None \<Rightarrow> True | Some origin \<Rightarrow> bi_number origin < nh_number (l2_l1_origin parent))"

text \<open>Dropping the blocks before the epoch of the safe head, if that epoch is in the window.\<close>

fun from_number :: "u64 \<Rightarrow> block_info list \<Rightarrow> block_info list option" where
  "from_number n [] = None"
| "from_number n (b # bs) = (if n = bi_number b then Some (b # bs) else from_number n bs)"

definition advance_epoch :: "l2_block_info \<Rightarrow> block_info list \<Rightarrow> block_info list" where
  "advance_epoch parent l1_blocks =
     (if l1_blocks \<noteq> [] \<and> bi_number (l1_blocks ! 0) < nh_number (l2_l1_origin parent)
      then (case from_number (nh_number (l2_l1_origin parent)) l1_blocks of
              None \<Rightarrow> l1_blocks
            | Some bs \<Rightarrow> bs)
      else l1_blocks)"

text \<open>A new origin of the pipeline is appended, or empties the window when it is behind the safe head.\<close>

definition sync_origin ::
    "block_info option \<Rightarrow> l2_block_info \<Rightarrow> block_info option \<Rightarrow> block_info list
       \<Rightarrow> unit presult \<times> block_info option \<times> block_info list" where
  "sync_origin prev_origin parent origin l1_blocks =
     (if origin \<noteq> prev_origin
      then (if \<not> origin_behind prev_origin parent
            then (case prev_origin of
                    None \<Rightarrow> (Err (crit MissingOrigin), prev_origin, l1_blocks)
                  | Some b \<Rightarrow> (Ok (), prev_origin, l1_blocks @ [b]))
            else (Ok (), prev_origin, []))
      else (Ok (), origin, l1_blocks))"

text \<open>The window after a reset.\<close>

definition reset_window :: "block_info option \<Rightarrow> block_info list" where
  "reset_window prev_origin = (case prev_origin of None \<Rightarrow> [] | Some b \<Rightarrow> [b])"

lemma from_number_Some: "from_number n bs = Some cs \<Longrightarrow> cs \<noteq> [] \<and> bi_number (hd cs) = n \<and> (\<exists>ds. bs = ds @ cs)"
  by (induction bs) (auto split: if_splits intro: exI [of _ "[]"] exI [of _ "_ # _"])

lemma advance_epoch_Nil [simp]: "advance_epoch parent l1_blocks = [] \<longleftrightarrow> l1_blocks = []"
  by (auto simp: advance_epoch_def dest: from_number_Some split: option.split)

text \<open>An empty window stands for an origin that is behind every head asked for since: \<open>lo\<close> is the L1
  origin number of the last head.\<close>

definition window_ok :: "nat \<Rightarrow> block_info option \<Rightarrow> block_info list \<Rightarrow> bool" where
  "window_ok lo origin l1_blocks \<longleftrightarrow>
     (l1_blocks = [] \<longrightarrow> (case origin of None \<Rightarrow> True | Some b \<Rightarrow> unat (bi_number b) < lo))"

definition head_epoch :: "l2_block_info \<Rightarrow> nat" where
  "head_epoch parent = unat (nh_number (l2_l1_origin parent))"

lemma window_ok_mono: "m \<le> n \<Longrightarrow> window_ok m origin l1_blocks \<Longrightarrow> window_ok n origin l1_blocks"
  by (auto simp: window_ok_def split: option.splits)

lemma window_ok_reset: "window_ok m origin (reset_window origin)"
  by (simp add: window_ok_def reset_window_def split: option.split)

lemma window_ok_epoch: "window_ok m origin l1_blocks \<Longrightarrow> window_ok m origin (advance_epoch parent l1_blocks)"
  by (simp add: window_ok_def)

lemma sync_origin_no_error: "fst (sync_origin prev_origin parent origin l1_blocks) = Ok ()"
  by (simp add: sync_origin_def origin_behind_def split: option.split)

lemma sync_origin_window:
  assumes "sync_origin prev_origin parent origin l1_blocks = (r, origin', l1_blocks')"
    and "window_ok m origin l1_blocks" "m \<le> head_epoch parent"
  shows "window_ok (head_epoch parent) origin' l1_blocks'" "origin' = prev_origin"
    "\<not> origin_behind prev_origin parent \<Longrightarrow> l1_blocks' \<noteq> []"
  using assms
  by (auto simp: sync_origin_def window_ok_def origin_behind_def head_epoch_def word_less_nat_alt
      split: if_splits option.splits)

section \<open>The contract of a source of batches for the attributes\<close>

text \<open>A safe head on the block schedule: there is a next block, and before Cobalt it comes one block
  time later.\<close>

definition head_ok :: "rollup_config \<Rightarrow> l2_block_info \<Rightarrow> bool" where
  "head_ok cfg parent \<longleftrightarrow>
     bi_number (l2_block parent) \<noteq> - 1
     \<and> (\<forall>t. l2_block_timestamp cfg (bi_number (l2_block parent) + 1) = Some t \<longrightarrow> \<not> is_cobalt_active cfg t \<longrightarrow>
          unat t = unat (bi_timestamp (l2_block parent)) + unat (rc_block_time cfg))"

text \<open>A batch that extends the safe head.\<close>

definition extends :: "rollup_config \<Rightarrow> l2_block_info \<Rightarrow> single_batch \<Rightarrow> bool" where
  "extends cfg parent b \<longleftrightarrow>
     sb_parent_hash b = bi_hash (l2_block parent)
     \<and> l2_block_timestamp cfg (bi_number (l2_block parent) + 1) = Some (sb_timestamp b)"

lemma saturating_next:
  fixes n :: u64
  assumes "n \<noteq> - 1"
  shows "saturating_add n 1 = n + 1"
proof -
  have "1 + n \<noteq> 0"
    using assms by (simp add: add_eq_0_iff)
  then have "unat (1 + n) = Suc (unat n)"
    by (rule unatSuc)
  then have "unat n + 1 < 2 ^ 64"
    using unat_less_pow [of "1 + n"] by simp
  then show ?thesis
    by (simp add: saturating_add_def)
qed

lemma head_next: "head_ok cfg parent \<Longrightarrow>
    saturating_add (bi_number (l2_block parent)) 1 = bi_number (l2_block parent) + 1"
  by (simp add: head_ok_def saturating_next)

lemma sb_check_batch_total:
  "rc_block_time cfg \<noteq> 0 \<Longrightarrow> \<exists>v. sb_check_batch cfg l1_blocks safe inclusion b = Some v"
  using l2_block_timestamp_total [of cfg "saturating_add (bi_number (l2_block safe)) 1"]
  by (auto simp: sb_check_batch_def check_batch_timestamp_def)

lemma valid_single_extends:
  "head_ok cfg parent \<Longrightarrow> sb_check_batch cfg l1_blocks parent inclusion b = Some Accept \<Longrightarrow> extends cfg parent b"
  by (auto simp: sb_check_batch_Accept single_batch_ok_def extends_def head_next)

lemma safe_then_modify:
  assumes "safe_action good m" "good s" "abind m (amodify f) s = (Ok (), s')"
  obtains s1 where "good s1" "s' = f s1"
  using safe_actionD [OF assms(1,2)] assms(3)
  by (cases "m s"; cases "fst (m s)") (auto simp: abind_def amodify_def)

text \<open>A source is asked on heads whose epochs do not go back; \<open>good m\<close> says that it is in order for heads
  of epoch \<open>m\<close> and later, and a successful reset makes it so for every head.  It then does not panic,
  and every batch it returns extends the head.\<close>

locale attributes_source =
  fixes A :: "'p provider_ops" and good :: "nat \<Rightarrow> 'p \<Rightarrow> bool" and cfg :: rollup_config
  assumes good_mono: "m \<le> n \<Longrightarrow> good m p \<Longrightarrow> good n p"
    and next_safe: "head_ok cfg parent \<Longrightarrow> m \<le> head_epoch parent \<Longrightarrow> good m p \<Longrightarrow>
      fst (qs_next (po_stage A) parent p) \<noteq> Panic
      \<and> good (head_epoch parent) (snd (qs_next (po_stage A) parent p))"
    and next_extends: "head_ok cfg parent \<Longrightarrow> m \<le> head_epoch parent \<Longrightarrow> good m p \<Longrightarrow>
      qs_next (po_stage A) parent p = (Ok b, p') \<Longrightarrow> extends cfg parent b"
    and advance_safe: "safe_action (good m) (qs_advance (po_stage A))"
    and reset_safe: "safe_action (good m) (qs_reset (po_stage A) l1_origin system_config)"
    and reset_restarts: "good m p \<Longrightarrow> qs_reset (po_stage A) l1_origin system_config p = (Ok (), p') \<Longrightarrow> good 0 p'"
    and activate_safe: "safe_action (good m) (qs_activate (po_stage A))"
    and flush_safe: "safe_action (good m) (qs_flush (po_stage A))"

end
