(* ===== verification/Batch_Validator.thy ===== *)
theory Batch_Validator
  imports Safe_Head
begin

text \<open>
  The batch validator stage (crates/consensus/derive/src/stages/batch/batch_validator.rs), which from
  Holocene on checks the singular batches of the batch stream one at a time and fills expired epochs
  with empty batches.
\<close>

section \<open>State and operations\<close>

record ('p, 'f) batch_validator =
  vd_cfg :: rollup_config
  vd_prev :: 'p
  vd_provider :: 'f
  vd_pending_batch :: "(single_batch \<times> block_info) option"
  vd_origin :: "block_info option"
  vd_l1_blocks :: "block_info list"

definition batch_validator_new :: "rollup_config \<Rightarrow> 'p \<Rightarrow> 'f \<Rightarrow> ('p, 'f) batch_validator" where
  "batch_validator_new cfg prev provider =
     \<lparr>vd_cfg = cfg, vd_prev = prev, vd_provider = provider, vd_pending_batch = None, vd_origin = None,
      vd_l1_blocks = []\<rparr>"

definition vd_stage_origin :: "'p batch_ops \<Rightarrow> ('p, 'f) batch_validator \<Rightarrow> block_info option" where
  "vd_stage_origin P s = qs_origin (bo_stage P) (vd_prev s)"

definition vd_update_origins :: "'p batch_ops \<Rightarrow> l2_block_info \<Rightarrow> (('p, 'f) batch_validator, unit) action" where
  "vd_update_origins P parent s =
     (case sync_origin (vd_stage_origin P s) parent (vd_origin s) (vd_l1_blocks s) of
        (Ok _, origin, l1_blocks) \<Rightarrow>
          (Ok (), s\<lparr>vd_origin := origin, vd_l1_blocks := advance_epoch parent l1_blocks\<rparr>)
      | (Err e, origin, l1_blocks) \<Rightarrow> (Err e, s\<lparr>vd_origin := origin, vd_l1_blocks := l1_blocks\<rparr>)
      | (Panic, origin, l1_blocks) \<Rightarrow> (Panic, s\<lparr>vd_origin := origin, vd_l1_blocks := l1_blocks\<rparr>))"

definition vd_try_derive_empty_batch :: "l2_block_info \<Rightarrow> (('p, 'f) batch_validator, single_batch) action" where
  "vd_try_derive_empty_batch parent s =
     (case vd_l1_blocks s of
        [] \<Rightarrow> (Panic, s)
      | epoch # later \<Rightarrow>
         (case vd_origin s of
            None \<Rightarrow> (Err (crit MissingOrigin), s)
          | Some stage_origin \<Rightarrow>
             (case l2_block_timestamp (vd_cfg s) (bi_number (l2_block parent) + 1) of
                None \<Rightarrow> (Panic, s)
              | Some next_timestamp \<Rightarrow>
                  if bi_number stage_origin < bi_number epoch + rc_seq_window_size (vd_cfg s)
                  then (Err (temp Eof), s)
                  else (case later of
                     [] \<Rightarrow> (Err (temp Eof), s)
                   | next_epoch # _ \<Rightarrow>
                       if next_timestamp < bi_timestamp next_epoch
                          \<or> bi_number epoch = nh_number (l2_l1_origin parent) + 1
                       then (Ok \<lparr>sb_parent_hash = bi_hash (l2_block parent), sb_epoch_num = bi_number epoch,
                                 sb_epoch_hash = bi_hash epoch, sb_timestamp = next_timestamp,
                                 sb_transactions = []\<rparr>, s)
                       else (Err (temp Eof), s\<lparr>vd_l1_blocks := later\<rparr>)))))"

text \<open>The search for the parent of a batch among the canonical ancestors with the same timestamp.\<close>

datatype ancestry = NoAncestor | Ancestor | AncestryFailed string

fun check_ancestry ::
    "('f, 'blk) validation_provider \<Rightarrow> rollup_config \<Rightarrow> single_batch \<Rightarrow> u64 list \<Rightarrow> ('f, ancestry) check" where
  "check_ancestry F cfg b [] f = (Some NoAncestor, f)"
| "check_ancestry F cfg b (number # numbers) f =
     (case l2_block_timestamp cfg (saturating_add number 1) of
        None \<Rightarrow> (None, f)
      | Some t \<Rightarrow>
          if t \<noteq> sb_timestamp b then (Some NoAncestor, f)
          else (case bv_l2_block_info_by_number F number f of
                  (Inl e, f) \<Rightarrow> (Some (AncestryFailed e), f)
                | (Inr a, f) \<Rightarrow>
                    if bi_hash (l2_block a) = sb_parent_hash b then (Some Ancestor, f)
                    else check_ancestry F cfg b numbers f))"

definition ancestor_numbers :: "u64 \<Rightarrow> u64 list" where
  "ancestor_numbers n =
     (let same_second_blocks = 1000 div NATIVE_SUBSECOND_BLOCK_INTERVAL_MILLIS;
          first = saturating_sub n same_second_blocks
      in rev (map word_of_nat [unat first..<unat n]))"

definition vd_validate ::
    "'p batch_ops \<Rightarrow> l2_block_info \<Rightarrow> single_batch \<Rightarrow> block_info \<Rightarrow> (('p, 'f) batch_validator, single_batch) action" where
  "vd_validate P parent b inclusion s =
     (case sb_check_batch (vd_cfg s) (vd_l1_blocks s) parent inclusion b of
        None \<Rightarrow> (Panic, s)
      | Some Accept \<Rightarrow> (Ok b, s)
      | Some Past \<Rightarrow> (Err (temp NotEnoughData), s)
      | Some (Drop _) \<Rightarrow> (Err (temp NotEnoughData), s\<lparr>vd_prev := bo_flush P (vd_prev s)\<rparr>)
      | Some Undecided \<Rightarrow> (Err (temp NotEnoughData), s)
      | Some Future \<Rightarrow> (Err (crit InvalidBatchValidity), s))"

definition vd_check ::
    "('f, 'blk) validation_provider \<Rightarrow> 'p batch_ops \<Rightarrow> l2_block_info \<Rightarrow> single_batch \<Rightarrow> block_info
       \<Rightarrow> (('p, 'f) batch_validator, single_batch) action" where
  "vd_check F P parent b inclusion s =
     (case l2_block_timestamp (vd_cfg s) (saturating_add (bi_number (l2_block parent)) 1) of
        None \<Rightarrow> (Panic, s)
      | Some next_timestamp \<Rightarrow>
          if is_cobalt_active (vd_cfg s) next_timestamp \<and> sb_timestamp b = next_timestamp
             \<and> sb_parent_hash b \<noteq> bi_hash (l2_block parent)
          then (case check_ancestry F (vd_cfg s) b (ancestor_numbers (bi_number (l2_block parent))) (vd_provider s) of
                  (None, f) \<Rightarrow> (Panic, s\<lparr>vd_provider := f\<rparr>)
                | (Some (AncestryFailed e), f) \<Rightarrow>
                    (Err (temp (Provider e)), s\<lparr>vd_provider := f, vd_pending_batch := Some (b, inclusion)\<rparr>)
                | (Some Ancestor, f) \<Rightarrow> (Err (temp NotEnoughData), s\<lparr>vd_provider := f\<rparr>)
                | (Some NoAncestor, f) \<Rightarrow> vd_validate P parent b inclusion (s\<lparr>vd_provider := f\<rparr>))
          else vd_validate P parent b inclusion s)"

definition vd_pull ::
    "'p batch_ops \<Rightarrow> l2_block_info \<Rightarrow> (('p, 'f) batch_validator, batch) action" where
  "vd_pull P parent s =
     on_prev vd_prev vd_prev_update (qs_next (bo_stage P) (parent, vd_l1_blocks s)) s"

text \<open>The candidate: the one kept from a failed ancestry check, or the next of the stream.\<close>

definition vd_candidate ::
    "('f, 'blk) validation_provider \<Rightarrow> 'p batch_ops \<Rightarrow> l2_block_info \<Rightarrow> block_info
       \<Rightarrow> (('p, 'f) batch_validator, single_batch) action" where
  "vd_candidate F P parent stage_origin s =
     (case vd_pending_batch s of
        Some (b, inclusion) \<Rightarrow> vd_check F P parent b inclusion (s\<lparr>vd_pending_batch := None\<rparr>)
      | None \<Rightarrow>
         (case vd_pull P parent s of
            (Ok (Single b), s) \<Rightarrow> vd_check F P parent b stage_origin s
          | (Ok (Span _), s) \<Rightarrow> (Err (crit InvalidBatchType), s)
          | (Err e, s) \<Rightarrow> (if e = Temporary Eof then vd_try_derive_empty_batch parent s else (Err e, s))
          | (Panic, s) \<Rightarrow> (Panic, s)))"

definition vd_derive ::
    "('f, 'blk) validation_provider \<Rightarrow> 'p batch_ops \<Rightarrow> l2_block_info \<Rightarrow> (('p, 'f) batch_validator, single_batch) action" where
  "vd_derive F P parent s =
     (case vd_origin s of
        None \<Rightarrow> (Err (crit MissingOrigin), s)
      | Some stage_origin \<Rightarrow>
          if origin_behind (vd_stage_origin P s) parent \<or> nh_number (l2_l1_origin parent) = bi_number stage_origin
          then abind (vd_pull P parent) (\<lambda>_. areturn (Err (temp NotEnoughData))) s
          else if length (vd_l1_blocks s) < 2 then (Err (crit MissingOrigin), s)
          else let epoch = vd_l1_blocks s ! 0 in
            if l2_l1_origin parent \<noteq> block_id epoch \<and> nh_number (l2_l1_origin parent) + 1 \<noteq> bi_number epoch
            then (Err (Reset (L1OriginMismatch (nh_number (l2_l1_origin parent)) (saturating_sub (bi_number epoch) 1))), s)
            else vd_candidate F P parent stage_origin s)"

definition vd_next ::
    "('f, 'blk) validation_provider \<Rightarrow> 'p batch_ops \<Rightarrow> l2_block_info \<Rightarrow> (('p, 'f) batch_validator, single_batch) action" where
  "vd_next F P parent = abind (vd_update_origins P parent) (\<lambda>_. vd_derive F P parent)"

definition vd_is_last_in_span :: "'p batch_ops \<Rightarrow> ('p, 'f) batch_validator \<Rightarrow> bool" where
  "vd_is_last_in_span P s \<longleftrightarrow> bo_span_buffer_size P (vd_prev s) = 0"

definition vd_advance_origin :: "'p batch_ops \<Rightarrow> (('p, 'f) batch_validator, unit) action" where
  "vd_advance_origin P = on_prev vd_prev vd_prev_update (qs_advance (bo_stage P))"

definition vd_restart :: "'p batch_ops \<Rightarrow> ('p, 'f) batch_validator \<Rightarrow> ('p, 'f) batch_validator" where
  "vd_restart P s =
     s\<lparr>vd_pending_batch := None, vd_origin := vd_stage_origin P s,
       vd_l1_blocks := reset_window (vd_stage_origin P s)\<rparr>"

definition vd_reset ::
    "'p batch_ops \<Rightarrow> block_num_hash \<Rightarrow> system_config \<Rightarrow> (('p, 'f) batch_validator, unit) action" where
  "vd_reset P l1_origin system_config =
     abind (on_prev vd_prev vd_prev_update (qs_reset (bo_stage P) l1_origin system_config)) (amodify (vd_restart P))"

definition vd_activate :: "'p batch_ops \<Rightarrow> (('p, 'f) batch_validator, unit) action" where
  "vd_activate P = on_prev vd_prev vd_prev_update (qs_activate (bo_stage P))"

definition vd_flush_channel :: "'p batch_ops \<Rightarrow> (('p, 'f) batch_validator, unit) action" where
  "vd_flush_channel P s = on_prev vd_prev vd_prev_update (qs_flush (bo_stage P)) (s\<lparr>vd_pending_batch := None\<rparr>)"

definition batch_validator_ops ::
    "('f, 'blk) validation_provider \<Rightarrow> 'p batch_ops \<Rightarrow> ('p, 'f) batch_validator provider_ops" where
  "batch_validator_ops F P =
     \<lparr>po_stage = \<lparr>qs_next = vd_next F P, qs_origin = vd_stage_origin P, qs_advance = vd_advance_origin P,
        qs_reset = vd_reset P, qs_activate = vd_activate P, qs_flush = vd_flush_channel P\<rparr>,
      po_is_last_in_span = vd_is_last_in_span P\<rparr>"

lemma batch_validator_ops_simps [simp]:
  "qs_next (po_stage (batch_validator_ops F P)) = vd_next F P"
  "qs_origin (po_stage (batch_validator_ops F P)) = vd_stage_origin P"
  "qs_advance (po_stage (batch_validator_ops F P)) = vd_advance_origin P"
  "qs_reset (po_stage (batch_validator_ops F P)) = vd_reset P"
  "qs_activate (po_stage (batch_validator_ops F P)) = vd_activate P"
  "qs_flush (po_stage (batch_validator_ops F P)) = vd_flush_channel P"
  "po_is_last_in_span (batch_validator_ops F P) = vd_is_last_in_span P"
  by (simp_all add: batch_validator_ops_def)

section \<open>Calls\<close>

text \<open>The empty batch that fills an expired epoch.\<close>

definition forced_empty ::
    "rollup_config \<Rightarrow> l2_block_info \<Rightarrow> block_info option \<Rightarrow> block_info list \<Rightarrow> single_batch \<Rightarrow> bool" where
  "forced_empty cfg parent origin l1_blocks b \<longleftrightarrow>
     (\<exists>epoch next_epoch later stage_origin.
        l1_blocks = epoch # next_epoch # later \<and> origin = Some stage_origin
        \<and> bi_number epoch + rc_seq_window_size cfg \<le> bi_number stage_origin
        \<and> sb_parent_hash b = bi_hash (l2_block parent) \<and> sb_epoch b = block_id epoch \<and> sb_transactions b = []
        \<and> l2_block_timestamp cfg (bi_number (l2_block parent) + 1) = Some (sb_timestamp b)
        \<and> (sb_timestamp b < bi_timestamp next_epoch \<or> bi_number epoch = nh_number (l2_l1_origin parent) + 1))"

lemma forced_empty_extends: "forced_empty cfg parent origin l1_blocks b \<Longrightarrow> extends cfg parent b"
  by (auto simp: forced_empty_def extends_def)

definition vd_justified :: "rollup_config \<Rightarrow> l2_block_info \<Rightarrow> ('p, 'f) batch_validator \<Rightarrow> single_batch \<Rightarrow> bool" where
  "vd_justified cfg parent s b \<longleftrightarrow>
     (\<exists>inclusion. sb_check_batch cfg (vd_l1_blocks s) parent inclusion b = Some Accept)
     \<or> forced_empty cfg parent (vd_origin s) (vd_l1_blocks s) b"

definition vd_good :: "rollup_config \<Rightarrow> ('p \<Rightarrow> bool) \<Rightarrow> ('p, 'f) batch_validator \<Rightarrow> bool" where
  "vd_good cfg good s \<longleftrightarrow> good (vd_prev s) \<and> vd_cfg s = cfg"

text \<open>A call that does not panic, keeps the stage in order, and returns only justified batches.\<close>

definition vd_call ::
    "rollup_config \<Rightarrow> ('p \<Rightarrow> bool) \<Rightarrow> l2_block_info \<Rightarrow> single_batch presult \<times> ('p, 'f) batch_validator \<Rightarrow> bool" where
  "vd_call cfg good parent r \<longleftrightarrow>
     fst r \<noteq> Panic \<and> vd_good cfg good (snd r) \<and> (\<forall>b. fst r = Ok b \<longrightarrow> vd_justified cfg parent (snd r) b)"

lemma vd_call_Err [simp]: "vd_call cfg good parent (Err e, s) \<longleftrightarrow> vd_good cfg good s"
  by (simp add: vd_call_def)

lemma check_ancestry_total:
  "rc_block_time cfg \<noteq> 0 \<Longrightarrow> fst (check_ancestry F cfg b numbers f) \<noteq> None"
proof (induction F cfg b numbers f rule: check_ancestry.induct)
  case (2 F cfg b number numbers f)
  obtain t where "l2_block_timestamp cfg (saturating_add number 1) = Some t"
    using l2_block_timestamp_total [OF 2(2)] by blast
  then show ?case
    using 2 by (auto split: prod.split sum.split)
qed simp

context batch_feed
begin

lemma vd_validate_call:
  assumes "vd_good cfg good s" "rc_block_time cfg \<noteq> 0"
  shows "vd_call cfg good parent (vd_validate B parent b inclusion s)"
proof -
  have cfg: "vd_cfg s = cfg"
    using assms(1) by (simp add: vd_good_def)
  obtain v where v: "sb_check_batch cfg (vd_l1_blocks s) parent inclusion b = Some v"
    using sb_check_batch_total [OF assms(2)] by blast
  have flushed: "vd_good cfg good (s\<lparr>vd_prev := bo_flush B (vd_prev s)\<rparr>)"
    using assms(1) drop_good by (simp add: vd_good_def)
  show ?thesis
    using assms(1) v flushed by (cases v) (auto simp: vd_validate_def cfg vd_call_def vd_justified_def)
qed

lemma vd_check_call:
  assumes s: "vd_good cfg good s" and bt: "rc_block_time cfg \<noteq> 0"
  shows "vd_call cfg good parent (vd_check F B parent b inclusion s)"
proof -
  have cfg: "vd_cfg s = cfg"
    using s by (simp add: vd_good_def)
  obtain t where t: "l2_block_timestamp cfg (saturating_add (bi_number (l2_block parent)) 1) = Some t"
    using l2_block_timestamp_total [OF bt] by blast
  obtain a f where run:
    "check_ancestry F cfg b (ancestor_numbers (bi_number (l2_block parent))) (vd_provider s) = (Some a, f)"
    using check_ancestry_total [OF bt, of F b "ancestor_numbers (bi_number (l2_block parent))" "vd_provider s"]
    by (metis not_Some_eq prod.collapse)
  have "vd_good cfg good (s\<lparr>vd_provider := f\<rparr>)" "vd_good cfg good (s\<lparr>vd_provider := f, vd_pending_batch := p\<rparr>)" for p
    using s by (simp_all add: vd_good_def)
  then show ?thesis
    using vd_validate_call [OF _ bt] s by (cases a) (auto simp: vd_check_def cfg t run)
qed

lemma vd_empty_call:
  assumes s: "vd_good cfg good s" and bt: "rc_block_time cfg \<noteq> 0" and ne: "vd_l1_blocks s \<noteq> []"
  shows "vd_call cfg good parent (vd_try_derive_empty_batch parent s)"
proof -
  have cfg: "vd_cfg s = cfg" "vd_good cfg good (s\<lparr>vd_l1_blocks := l\<rparr>)" for l
    using s by (simp_all add: vd_good_def)
  obtain t where "l2_block_timestamp cfg (bi_number (l2_block parent) + 1) = Some t"
    using l2_block_timestamp_total [OF bt] by blast
  then show ?thesis
    using ne s cfg
    by (auto simp: vd_try_derive_empty_batch_def vd_call_def vd_justified_def forced_empty_def sb_epoch_def block_id_def
        not_less split: list.split option.split)
qed

lemma vd_pull_good:
  assumes "vd_good cfg good s"
  shows "fst (vd_pull B parent s) \<noteq> Panic" "vd_good cfg good (snd (vd_pull B parent s))"
    "vd_l1_blocks (snd (vd_pull B parent s)) = vd_l1_blocks s"
  using assms safe_actionD [OF next_safe, of "vd_prev s" "(parent, vd_l1_blocks s)"]
  by (simp_all add: vd_pull_def vd_good_def)

lemma vd_candidate_call:
  assumes s: "vd_good cfg good s" and bt: "rc_block_time cfg \<noteq> 0" and ne: "vd_l1_blocks s \<noteq> []"
  shows "vd_call cfg good parent (vd_candidate F B parent stage_origin s)"
proof (cases "vd_pending_batch s")
  case (Some p)
  have "vd_good cfg good (s\<lparr>vd_pending_batch := None\<rparr>)"
    using s by (simp add: vd_good_def)
  then show ?thesis
    using vd_check_call [OF _ bt] Some by (cases p) (simp add: vd_candidate_def)
next
  case None
  obtain r s1 where run: "vd_pull B parent s = (r, s1)"
    by fastforce
  have s1: "r \<noteq> Panic" "vd_good cfg good s1" "vd_l1_blocks s1 \<noteq> []"
    using vd_pull_good [OF s, of parent] run ne by simp_all
  show ?thesis
    using s1 vd_check_call [OF s1(2) bt] vd_empty_call [OF s1(2) bt s1(3)]
    by (auto simp: vd_candidate_def None run split: outcome.split batch.split)
qed

lemma vd_derive_call:
  assumes s: "vd_good cfg good s" and bt: "rc_block_time cfg \<noteq> 0"
  shows "vd_call cfg good parent (vd_derive F B parent s)"
proof -
  have pull: "vd_call cfg good parent (abind (vd_pull B parent) (\<lambda>_. areturn (Err e)) s)" for e
    using vd_pull_good [OF s, of parent]
    by (cases "vd_pull B parent s"; cases "fst (vd_pull B parent s)") (auto simp: abind_def areturn_def)
  have cand: "vd_call cfg good parent (vd_candidate F B parent stage_origin s)"
    if "\<not> length (vd_l1_blocks s) < 2" for stage_origin
    using that by (intro vd_candidate_call [OF s bt]) auto
  show ?thesis
    using s by (simp add: vd_derive_def Let_def pull cand split: option.split)
qed

lemma vd_next_call:
  assumes s: "vd_good cfg good s" and bt: "rc_block_time cfg \<noteq> 0"
  shows "vd_call cfg good parent (vd_next F B parent s)"
proof -
  obtain origin l1_blocks where sync:
    "sync_origin (vd_stage_origin B s) parent (vd_origin s) (vd_l1_blocks s) = (Ok (), origin, l1_blocks)"
    using sync_origin_no_error by (metis prod.collapse)
  have "vd_good cfg good (s\<lparr>vd_origin := origin, vd_l1_blocks := advance_epoch parent l1_blocks\<rparr>)"
    using s by (simp add: vd_good_def)
  then show ?thesis
    using vd_derive_call [OF _ bt] by (simp add: vd_next_def abind_def vd_update_origins_def sync)
qed

lemma vd_on_prev: "safe_action good act \<Longrightarrow> safe_action (vd_good cfg good) (on_prev vd_prev vd_prev_update act)"
  by (auto simp: safe_action_def vd_good_def)

end

locale timed_batch_feed = batch_feed +
  assumes block_time: "rc_block_time cfg \<noteq> 0"

lemma justified_extends: "head_ok cfg parent \<Longrightarrow> vd_justified cfg parent s b \<Longrightarrow> extends cfg parent b"
  using valid_single_extends forced_empty_extends by (auto simp: vd_justified_def)

sublocale timed_batch_feed \<subseteq> vd: attributes_source "batch_validator_ops F B" "\<lambda>m. vd_good cfg good" cfg
  for F
proof unfold_locales
  let ?S = "po_stage (batch_validator_ops F B)"
  fix parent m p b p' l1_origin system_config
  note call = vd_next_call [OF _ block_time, unfolded vd_call_def]
  show "fst (qs_next ?S parent p) \<noteq> Panic \<and> vd_good cfg good (snd (qs_next ?S parent p))" if "vd_good cfg good p"
    by (simp add: call [OF that])
  show "extends cfg parent b" if "head_ok cfg parent" "vd_good cfg good p" "qs_next ?S parent p = (Ok b, p')"
    using call [OF that(2), of F parent] that(1,3) by (auto intro: justified_extends)
  show "safe_action (vd_good cfg good) (qs_advance ?S)" "safe_action (vd_good cfg good) (qs_activate ?S)"
    by (simp_all add: vd_advance_origin_def vd_activate_def vd_on_prev advance_safe activate_safe)
  have restart: "vd_good cfg good (vd_restart B s)" if "vd_good cfg good s" for s
    using that by (simp add: vd_good_def vd_restart_def)
  show reset: "safe_action (vd_good cfg good) (qs_reset ?S l1_origin system_config)"
    by (simp add: vd_reset_def safe_abind vd_on_prev reset_safe safe_amodify restart)
  show "vd_good cfg good p'" if "vd_good cfg good p" "qs_reset ?S l1_origin system_config p = (Ok (), p')"
    using safe_actionD(2) [OF reset that(1)] that(2) by simp
  show "safe_action (vd_good cfg good) (qs_flush ?S)"
    using flush_safe by (simp add: vd_flush_channel_def safe_action_def vd_good_def)
qed

end
