(* ===== verification/Span_Laws.thy ===== *)
theory Span_Laws
  imports Safe_Head
begin

text \<open>
  Regular span batches against a safe head on the block schedule: where the new blocks of an accepted
  span start, and that the checks of a regular span never index past its end.  The only law needed of
  the L2 chain is that a block asked for by number has that number.
\<close>

section \<open>Alignment\<close>

lemma regular_timestamp:
  assumes "regular_span bt s" "i < length (sp_batches s)" "unat (starting_timestamp s) + unat bt * i < 2 ^ 64"
  shows "unat (se_timestamp (sp_batches s ! i)) = unat (starting_timestamp s) + unat bt * i"
proof -
  have "se_timestamp (sp_batches s ! i) = starting_timestamp s + bt * word_of_nat i"
    using assms(1,2) by (simp add: regular_span_def)
  also have "\<dots> = word_of_nat (unat (starting_timestamp s) + unat bt * i)"
    by simp
  finally have "se_timestamp (sp_batches s ! i) = word_of_nat (unat (starting_timestamp s) + unat bt * i)" .
  then show ?thesis
    using assms(3) by (simp only:) (rule unat_of_nat_small, simp)
qed

text \<open>Overlapped blocks up to the head, and the next block after them.\<close>

lemma span_alignment:
  fixes s defines "start \<equiv> starting_timestamp s"
  assumes reg: "regular_span bt s" and bt: "bt \<noteq> 0"
    and head: "start \<le> head" "(head - start) mod bt = 0"
    and t: "unat t = unat head + unat bt" "t \<le> final_timestamp s"
  defines "k \<equiv> unat ((head - start) div bt)"
  shows "Suc k < length (sp_batches s)" "se_timestamp (sp_batches s ! Suc k) = t"
    "\<And>i. i \<le> k \<Longrightarrow> se_timestamp (sp_batches s ! i) \<le> head"
proof -
  have k: "unat head = unat start + unat bt * k"
  proof -
    have "unat (head - start) mod unat bt = 0"
      using head(2) by (metis unat_mod_distrib unat_0)
    then have "unat (head - start) = unat bt * (unat (head - start) div unat bt)"
      by auto
    then show ?thesis
      using head(1) unfolding k_def by (simp add: unat_div_distrib unat_sub word_le_nat_alt)
  qed
  have le: "unat (se_timestamp (sp_batches s ! i)) = unat start + unat bt * i"
    if "i \<le> k" "i < length (sp_batches s)" for i
  proof -
    have "unat bt * i \<le> unat bt * k"
      using that(1) by (rule mult_le_mono2)
    then have "unat start + unat bt * i \<le> unat head"
      unfolding k by (rule add_left_mono)
    also have "\<dots> < 2 ^ 64"
      using unat_less_pow [of head] by simp
    finally have "unat start + unat bt * i < 2 ^ 64" .
    then show ?thesis
      using regular_timestamp [OF reg that(2)] unfolding start_def by simp
  qed
  show len: "Suc k < length (sp_batches s)"
  proof (rule ccontr)
    let ?i = "length (sp_batches s) - 1"
    assume "\<not> Suc k < length (sp_batches s)"
    then have i: "?i \<le> k" "?i < length (sp_batches s)"
      using reg by (auto simp: regular_span_def)
    have "unat bt * ?i \<le> unat bt * k"
      using i(1) by simp
    then have "unat (final_timestamp s) \<le> unat head"
      using le [OF i] k by (simp add: final_timestamp_def)
    then show False
      using t bt by (auto simp: word_le_nat_alt word_unat_eq_iff)
  qed
  have "unat start + unat bt * Suc k = unat t"
    using k t(1) by simp
  then show "se_timestamp (sp_batches s ! Suc k) = t"
    using regular_timestamp [OF reg len] unat_less_pow [of t] unfolding start_def
    by (simp add: word_unat_eq_iff)
  show "se_timestamp (sp_batches s ! i) \<le> head" if "i \<le> k" for i
    using le [OF that] that len k by (simp add: word_le_nat_alt)
qed

section \<open>Validity checks of regular spans\<close>

text \<open>The L2 chain answers a query by number with the block of that number.\<close>

definition numbered :: "('f, 'blk) validation_provider \<Rightarrow> bool" where
  "numbered F \<longleftrightarrow> (\<forall>n f b f'. bv_l2_block_info_by_number F n f = (Inr b, f') \<longrightarrow> bi_number (l2_block b) = n)"

lemma check_overlap_total:
  "i + n \<le> length bs \<Longrightarrow> fst (check_overlap n F cfg parent_num bs i f) \<noteq> None"
  by (induction n arbitrary: i f) (auto split: prod.split sum.split option.split)

text \<open>The parent of a span that starts before the next block.\<close>

lemma span_parent_overlap:
  assumes "span_parent F cfg t safe s f = (Some (Inr parent), f')" "starting_timestamp s < t" "numbered F"
  shows "starting_timestamp s \<le> bi_timestamp (l2_block safe)"
    "(bi_timestamp (l2_block safe) - starting_timestamp s) mod rc_block_time cfg = 0"
    "bi_number (l2_block safe) - bi_number (l2_block parent)
       = (bi_timestamp (l2_block safe) - starting_timestamp s) div rc_block_time cfg + 1"
proof -
  let ?diff = "bi_timestamp (l2_block safe) - starting_timestamp s"
  have "starting_timestamp s \<le> bi_timestamp (l2_block safe)" "?diff mod rc_block_time cfg = 0"
    and run: "bv_l2_block_info_by_number F (bi_number (l2_block safe) - ?diff div rc_block_time cfg - 1) f = (Inr parent, f')"
    using assms(1,2) by (auto simp: span_parent_def Let_def split: if_splits prod.splits sum.splits)
  then show "starting_timestamp s \<le> bi_timestamp (l2_block safe)" "?diff mod rc_block_time cfg = 0"
    by simp_all
  have "bi_number (l2_block parent) = bi_number (l2_block safe) - ?diff div rc_block_time cfg - 1"
    using assms(3) run unfolding numbered_def by blast
  then show "bi_number (l2_block safe) - bi_number (l2_block parent) = ?diff div rc_block_time cfg + 1"
    by simp
qed

lemma unat_Suc_le: "unat (w + 1) \<le> Suc (unat w)" for w :: "'a::len word"
  by (metis Suc_eq_plus1 add.commute le_Suc_eq order_refl unatSuc unat_0 zero_le)

text \<open>An accepted prefix of a regular span: the position of the first new block.\<close>

lemma prefix_accept_regular:
  assumes acc: "check_batch_prefix F cfg l1_blocks safe inclusion s f = (Some (Accept, p), f')"
    and reg: "regular_span (rc_block_time cfg) s" and bt: "rc_block_time cfg \<noteq> 0"
    and head: "head_ok cfg safe" and num: "numbered F"
  obtains t k parent where "p = Some parent"
    "l2_block_timestamp cfg (bi_number (l2_block safe) + 1) = Some t"
    "k < length (sp_batches s)" "se_timestamp (sp_batches s ! k) = t" "bi_timestamp (l2_block safe) < t"
    "\<And>i. i < k \<Longrightarrow> se_timestamp (sp_batches s ! i) \<le> bi_timestamp (l2_block safe)"
    "starting_timestamp s < t \<Longrightarrow> unat (bi_number (l2_block safe) - bi_number (l2_block parent)) \<le> k"
proof -
  from prefix_accept [OF acc] obtain t parent where p: "p = Some parent"
    and t: "l2_block_timestamp cfg (bi_number (l2_block safe) + 1) = Some t" "\<not> is_cobalt_active cfg t"
      "starting_timestamp s \<le> t" "t \<le> final_timestamp s"
    and par: "span_parent F cfg t safe s f = (Some (Inr parent), f')"
    by metis
  have nxt: "unat t = unat (bi_timestamp (l2_block safe)) + unat (rc_block_time cfg)"
    using head t(1,2) by (simp add: head_ok_def)
  then have new: "bi_timestamp (l2_block safe) < t"
    using bt by (simp add: word_less_nat_alt unat_gt_0)
  show thesis
  proof (cases "starting_timestamp s < t")
    case True
    note o = span_parent_overlap [OF par True num]
    note a = span_alignment [OF reg bt o(1,2) nxt t(4)]
    show thesis
      using a o(3) unat_Suc_le by (intro that [OF p t(1) a(1,2) new]) (auto simp: less_Suc_eq_le)
  next
    case False
    then have "starting_timestamp s = t"
      using t(3) by simp
    then show thesis
      using reg new False by (intro that [OF p t(1), of 0]) (auto simp: regular_span_def starting_timestamp_def)
  qed
qed

lemma span_check_total:
  assumes reg: "regular_span (rc_block_time cfg) s" and bt: "rc_block_time cfg \<noteq> 0"
    and head: "head_ok cfg safe" and num: "numbered F"
  shows "fst (span_check_batch F cfg l1_blocks safe inclusion s f) \<noteq> None"
proof -
  obtain v p f1 where run: "check_batch_prefix F cfg l1_blocks safe inclusion s f = (Some (v, p), f1)"
    using prefix_total [OF bt, of F l1_blocks safe inclusion s f] by (metis not_Some_eq surj_pair prod.collapse)
  show ?thesis
  proof (cases "v = Accept")
    case True
    obtain t k parent where p: "p = Some parent" "k < length (sp_batches s)"
      "l2_block_timestamp cfg (bi_number (l2_block safe) + 1) = Some t"
      "starting_timestamp s < t \<Longrightarrow> unat (bi_number (l2_block safe) - bi_number (l2_block parent)) \<le> k"
      using prefix_accept_regular [OF run [unfolded True] reg bt head num] by metis
    then have "fst (check_overlap (unat (bi_number (l2_block safe) - bi_number (l2_block parent))) F cfg
        (bi_number (l2_block parent)) (sp_batches s) 0 f1) \<noteq> None" if "starting_timestamp s < t"
      using that by (intro check_overlap_total) simp
    then show ?thesis
      using run True p(1,3) by (auto simp: span_check_batch_def head_next [OF head] split: option.split)
  qed (use run in \<open>simp add: span_check_batch_def\<close>)
qed

lemma bw_check_total:
  assumes "regular_batch cfg (bw_batch bw)" "rc_block_time cfg \<noteq> 0" "head_ok cfg safe" "numbered F"
  shows "fst (bw_check_batch F cfg l1_blocks safe bw f) \<noteq> None"
  using assms sb_check_batch_total span_check_total
  by (auto simp: bw_check_batch_def split: batch.split)

text \<open>The batches of an accepted span start at the next block.\<close>

lemma new_blocks_from:
  assumes "k < length es" "\<And>i. i < k \<Longrightarrow> se_timestamp (es ! i) \<le> bi_timestamp (l2_block safe)"
    "bi_timestamp (l2_block safe) < se_timestamp (es ! k)"
  shows "\<exists>rest. new_blocks safe es = es ! k # rest"
  using assms
proof (induction es arbitrary: k)
  case (Cons e es)
  then show ?case
    by (cases k) (fastforce simp: not_le)+
qed simp

lemma accepted_span_next:
  assumes acc: "span_check_batch F cfg l1_blocks safe inclusion s f = (Some Accept, f')"
    and reg: "regular_span (rc_block_time cfg) s" and bt: "rc_block_time cfg \<noteq> 0"
    and head: "head_ok cfg safe" and num: "numbered F"
  shows "\<exists>b bs. get_singular_batches s l1_blocks safe = Ok (b # bs)
    \<and> l2_block_timestamp cfg (bi_number (l2_block safe) + 1) = Some (sb_timestamp b)"
proof -
  obtain parent f1 adv where pre: "check_batch_prefix F cfg l1_blocks safe inclusion s f = (Some (Accept, Some parent), f1)"
    and blocks: "check_span_blocks cfg l1_blocks safe adv None 0 (sp_batches s) = None"
    using span_accept [OF acc] by metis
  obtain t k where k: "l2_block_timestamp cfg (bi_number (l2_block safe) + 1) = Some t" "k < length (sp_batches s)"
      "se_timestamp (sp_batches s ! k) = t" "bi_timestamp (l2_block safe) < t"
      "\<And>i. i < k \<Longrightarrow> se_timestamp (sp_batches s ! i) \<le> bi_timestamp (l2_block safe)"
    using prefix_accept_regular [OF pre reg bt head num] by metis
  obtain rest where new: "new_blocks safe (sp_batches s) = sp_batches s ! k # rest"
    using new_blocks_from [OF k(2,5)] k(3,4) by auto
  from check_span_blocks_extract [OF blocks, unfolded new] obtain b bs
    where "singular_batches l1_blocks safe 0 (sp_batches s) = Ok (b # bs)" "extracted cfg l1_blocks (sp_batches s ! k) b"
    by (auto simp: list_all2_Cons1)
  moreover have "se_timestamp (element_of_single b) = t"
    using calculation(2) k(3) by (simp add: extracted_def)
  then have "sb_timestamp b = t"
    by (simp add: element_of_single_def)
  ultimately show ?thesis
    using k(1) by (simp add: get_singular_batches_def)
qed

end
