(* ===== verification/Batch_Queue.thy ===== *)
theory Batch_Queue
  imports Span_Laws
begin

text \<open>
  The batch queue stage (crates/consensus/derive/src/stages/batch/batch_queue.rs), which before
  Holocene orders batches by inclusion, picks the first valid one for the safe head, takes span
  batches apart, and fills expired epochs with empty batches.
\<close>

section \<open>State and operations\<close>

record ('p, 'f) batch_queue =
  bq_cfg :: rollup_config
  bq_prev :: 'p
  bq_origin :: "block_info option"
  bq_l1_blocks :: "block_info list"
  bq_batches :: "batch_with_inclusion list"
  bq_next_spans :: "single_batch list"
  bq_fetcher :: 'f

definition batch_queue_new :: "rollup_config \<Rightarrow> 'p \<Rightarrow> 'f \<Rightarrow> ('p, 'f) batch_queue" where
  "batch_queue_new cfg prev fetcher =
     \<lparr>bq_cfg = cfg, bq_prev = prev, bq_origin = None, bq_l1_blocks = [], bq_batches = [], bq_next_spans = [],
      bq_fetcher = fetcher\<rparr>"

definition bq_stage_origin :: "'p batch_ops \<Rightarrow> ('p, 'f) batch_queue \<Rightarrow> block_info option" where
  "bq_stage_origin P s = qs_origin (bo_stage P) (bq_prev s)"

definition pop_next_batch :: "l2_block_info \<Rightarrow> (('p, 'f) batch_queue, single_batch) action" where
  "pop_next_batch parent s =
     (case bq_next_spans s of
        [] \<Rightarrow> (Panic, s)
      | b # bs \<Rightarrow> (Ok (b\<lparr>sb_parent_hash := bi_hash (l2_block parent)\<rparr>), s\<lparr>bq_next_spans := bs\<rparr>))"

text \<open>The pass over the queued batches, in order of inclusion: the decision, the batches that stay
  queued, and the state of the predecessor and of the chain provider.  \<open>kept\<close> are the batches retained
  so far.\<close>

datatype scan = ScanPanic | ScanAccept batch | ScanUndecided | ScanPast | ScanEnd

fun scan_batches ::
    "('f, 'blk) validation_provider \<Rightarrow> 'p batch_ops \<Rightarrow> rollup_config \<Rightarrow> block_info list \<Rightarrow> l2_block_info \<Rightarrow> bool
       \<Rightarrow> batch_with_inclusion list \<Rightarrow> batch_with_inclusion list \<Rightarrow> 'p \<Rightarrow> 'f
       \<Rightarrow> scan \<times> batch_with_inclusion list \<times> 'p \<times> 'f" where
  "scan_batches F P cfg l1_blocks parent holocene kept [] p f = (ScanEnd, kept, p, f)"
| "scan_batches F P cfg l1_blocks parent holocene kept (bw # rest) p f =
     (case bw_check_batch F cfg l1_blocks parent bw f of
        (None, f) \<Rightarrow> (ScanPanic, kept @ bw # rest, p, f)
      | (Some Future, f) \<Rightarrow>
          if \<not> holocene then scan_batches F P cfg l1_blocks parent holocene (kept @ [bw]) rest p f
          else scan_batches F P cfg l1_blocks parent holocene kept rest (bo_flush P p) f
      | (Some (Drop _), f) \<Rightarrow> scan_batches F P cfg l1_blocks parent holocene kept rest (bo_flush P p) f
      | (Some Accept, f) \<Rightarrow> (ScanAccept (bw_batch bw), kept @ rest, p, f)
      | (Some Undecided, f) \<Rightarrow> (ScanUndecided, kept @ bw # rest, p, f)
      | (Some Past, f) \<Rightarrow>
          if \<not> holocene then (ScanPast, kept @ bw # rest, p, f)
          else scan_batches F P cfg l1_blocks parent holocene kept rest p f)"

text \<open>An empty batch for an expired epoch, once no queued batch fits.\<close>

definition bq_force_empty ::
    "bool \<Rightarrow> l2_block_info \<Rightarrow> block_info \<Rightarrow> u64 \<Rightarrow> block_info \<Rightarrow> (('p, 'f) batch_queue, batch) action" where
  "bq_force_empty out_of_data parent epoch next_timestamp origin s =
     (let expiry_epoch = bi_number epoch + rc_seq_window_size (bq_cfg s);
          force_empty_batches = (expiry_epoch = bi_number origin \<and> out_of_data) \<or> expiry_epoch < bi_number origin;
          first_of_epoch = bi_number epoch = nh_number (l2_l1_origin parent) + 1
      in if \<not> force_empty_batches then (Err (temp Eof), s)
         else if length (bq_l1_blocks s) < 2 then (Err (temp Eof), s)
         else if next_timestamp < bi_timestamp (bq_l1_blocks s ! 1) \<or> first_of_epoch
         then (Ok (Single \<lparr>sb_parent_hash = bi_hash (l2_block parent), sb_epoch_num = bi_number epoch,
                 sb_epoch_hash = bi_hash epoch, sb_timestamp = next_timestamp, sb_transactions = []\<rparr>), s)
         else (Err (temp Eof), s\<lparr>bq_l1_blocks := tl (bq_l1_blocks s)\<rparr>))"

definition bq_scan ::
    "('f, 'blk) validation_provider \<Rightarrow> 'p batch_ops \<Rightarrow> bool \<Rightarrow> l2_block_info \<Rightarrow> block_info \<Rightarrow> u64 \<Rightarrow> block_info
       \<Rightarrow> (('p, 'f) batch_queue, batch) action" where
  "bq_scan F P out_of_data parent epoch next_timestamp origin s =
     (case scan_batches F P (bq_cfg s) (bq_l1_blocks s) parent
             (is_holocene_active (bq_cfg s) (bi_timestamp origin)) [] (bq_batches s) (bq_prev s) (bq_fetcher s) of
        (decision, kept, p, f) \<Rightarrow>
          let s = s\<lparr>bq_prev := p, bq_fetcher := f\<rparr> in
          (case decision of
            ScanPanic \<Rightarrow> (Panic, s)
          | ScanAccept b \<Rightarrow> (Ok b, s\<lparr>bq_batches := kept\<rparr>)
          | ScanUndecided \<Rightarrow> (Err (temp Eof), s\<lparr>bq_batches := kept\<rparr>)
          | ScanPast \<Rightarrow> (Err (crit InvalidBatchValidity), s)
          | ScanEnd \<Rightarrow> bq_force_empty out_of_data parent epoch next_timestamp origin (s\<lparr>bq_batches := kept\<rparr>)))"

definition derive_next_batch ::
    "('f, 'blk) validation_provider \<Rightarrow> 'p batch_ops \<Rightarrow> bool \<Rightarrow> l2_block_info \<Rightarrow> (('p, 'f) batch_queue, batch) action" where
  "derive_next_batch F P out_of_data parent s =
     (case bq_l1_blocks s of
        [] \<Rightarrow> (Err (crit MissingOrigin), s)
      | epoch # _ \<Rightarrow>
          let parent_epoch = nh_number (l2_l1_origin parent) in
          if l2_l1_origin parent \<noteq> block_id epoch \<and> (bi_number epoch = 0 \<or> parent_epoch \<noteq> bi_number epoch - 1)
          then (Err (Reset (L1OriginMismatch parent_epoch
                  (if bi_number epoch = 0 then bi_number epoch else bi_number epoch - 1))), s)
          else (case l2_block_timestamp (bq_cfg s) (bi_number (l2_block parent) + 1) of
             None \<Rightarrow> (Panic, s)
           | Some next_timestamp \<Rightarrow>
              (case bq_origin s of
                 None \<Rightarrow> (Err (crit MissingOrigin), s)
               | Some origin \<Rightarrow> bq_scan F P out_of_data parent epoch next_timestamp origin s)))"

definition add_batch ::
    "('f, 'blk) validation_provider \<Rightarrow> 'p batch_ops \<Rightarrow> batch \<Rightarrow> l2_block_info \<Rightarrow> (('p, 'f) batch_queue, unit) action" where
  "add_batch F P b parent s =
     (if bq_l1_blocks s = [] then (Panic, s)
      else case bq_origin s of
        None \<Rightarrow> (Err (crit MissingOrigin), s)
      | Some origin \<Rightarrow>
          let data = \<lparr>bw_inclusion_block = origin, bw_batch = b\<rparr> in
          (case bw_check_batch F (bq_cfg s) (bq_l1_blocks s) parent data (bq_fetcher s) of
             (None, f) \<Rightarrow> (Panic, s\<lparr>bq_fetcher := f\<rparr>)
           | (Some validity, f) \<Rightarrow>
               let s = s\<lparr>bq_fetcher := f\<rparr> in
               if is_drop validity
                  \<or> (is_holocene_active (bq_cfg s) (bi_timestamp origin) \<and> is_future validity)
               then (Ok (), s\<lparr>bq_prev := bo_flush P (bq_prev s)\<rparr>)
               else if is_outdated validity then (Ok (), s)
               else (Ok (), s\<lparr>bq_batches := bq_batches s @ [data]\<rparr>)))"

text \<open>The window is brought in step with the safe head and the origin of the pipeline.\<close>

definition bq_update_origins :: "'p batch_ops \<Rightarrow> l2_block_info \<Rightarrow> (('p, 'f) batch_queue, unit) action" where
  "bq_update_origins P parent s =
     (case sync_origin (bq_stage_origin P s) parent (bq_origin s) (advance_epoch parent (bq_l1_blocks s)) of
        (r, origin, l1_blocks) \<Rightarrow> (r, s\<lparr>bq_origin := origin, bq_l1_blocks := l1_blocks\<rparr>))"

text \<open>Pulling one batch; the result says whether the predecessor is out of data.\<close>

definition bq_load ::
    "('f, 'blk) validation_provider \<Rightarrow> 'p batch_ops \<Rightarrow> bool \<Rightarrow> l2_block_info \<Rightarrow> (('p, 'f) batch_queue, bool) action" where
  "bq_load F P behind parent s =
     (case on_prev bq_prev bq_prev_update (qs_next (bo_stage P) (parent, bq_l1_blocks s)) s of
        (Ok b, s) \<Rightarrow>
          if \<not> behind
          then (case add_batch F P b parent s of (Panic, s) \<Rightarrow> (Panic, s) | (_, s) \<Rightarrow> (Ok False, s))
          else (Ok False, s)
      | (Err e, s) \<Rightarrow> (if e = Temporary Eof then (Ok True, s) else (Err e, s))
      | (Panic, s) \<Rightarrow> (Panic, s))"

text \<open>A singular batch from the derived batch.\<close>

definition bq_emit :: "l2_block_info \<Rightarrow> batch \<Rightarrow> (('p, 'f) batch_queue, single_batch) action" where
  "bq_emit parent b s =
     (case b of
        Single b \<Rightarrow> (Ok b, s)
      | Span b \<Rightarrow>
         (case get_singular_batches b (bq_l1_blocks s) parent of
            Ok bs \<Rightarrow> pop_next_batch parent (s\<lparr>bq_next_spans := bs\<rparr>)
          | Err e \<Rightarrow> (Err (crit (BadEncoding (SpanBatchErr e))), s)
          | Panic \<Rightarrow> (Panic, s)))"

definition bq_derive ::
    "('f, 'blk) validation_provider \<Rightarrow> 'p batch_ops \<Rightarrow> bool \<Rightarrow> l2_block_info \<Rightarrow> bool
       \<Rightarrow> (('p, 'f) batch_queue, single_batch) action" where
  "bq_derive F P behind parent out_of_data s =
     (if behind then (Err (temp (if out_of_data then Eof else NotEnoughData)), s)
      else case derive_next_batch F P out_of_data parent s of
        (Ok b, s) \<Rightarrow> bq_emit parent b s
      | (Err e, s) \<Rightarrow>
          (Err (if e = Temporary Eof then temp (if out_of_data then Eof else NotEnoughData) else e), s)
      | (Panic, s) \<Rightarrow> (Panic, s))"

definition bq_next ::
    "('f, 'blk) validation_provider \<Rightarrow> 'p batch_ops \<Rightarrow> l2_block_info \<Rightarrow> (('p, 'f) batch_queue, single_batch) action" where
  "bq_next F P parent s =
     (case l2_block_timestamp (bq_cfg s) (bi_number (l2_block parent) + 1) of
        None \<Rightarrow> (Panic, s)
      | Some next_timestamp \<Rightarrow>
          if bq_next_spans s \<noteq> [] \<and> \<not> is_cobalt_active (bq_cfg s) next_timestamp
             \<and> sb_timestamp (bq_next_spans s ! 0) = next_timestamp
          then pop_next_batch parent s
          else
            let behind = origin_behind (bq_stage_origin P s) parent in
            abind (bq_update_origins P parent)
              (\<lambda>_. abind (bq_load F P behind parent) (bq_derive F P behind parent)) (s\<lparr>bq_next_spans := []\<rparr>))"

definition bq_is_last_in_span :: "('p, 'f) batch_queue \<Rightarrow> bool" where
  "bq_is_last_in_span s \<longleftrightarrow> bq_next_spans s = []"

definition bq_advance_origin :: "'p batch_ops \<Rightarrow> (('p, 'f) batch_queue, unit) action" where
  "bq_advance_origin P = on_prev bq_prev bq_prev_update (qs_advance (bo_stage P))"

definition bq_restart :: "'p batch_ops \<Rightarrow> ('p, 'f) batch_queue \<Rightarrow> ('p, 'f) batch_queue" where
  "bq_restart P s =
     s\<lparr>bq_origin := bq_stage_origin P s, bq_batches := [], bq_l1_blocks := reset_window (bq_stage_origin P s),
       bq_next_spans := []\<rparr>"

definition bq_clear :: "unit \<Rightarrow> (('p, 'f) batch_queue, unit) action" where
  "bq_clear = amodify (\<lambda>s. s\<lparr>bq_batches := [], bq_next_spans := []\<rparr>)"

definition bq_reset ::
    "'p batch_ops \<Rightarrow> block_num_hash \<Rightarrow> system_config \<Rightarrow> (('p, 'f) batch_queue, unit) action" where
  "bq_reset P l1_origin system_config =
     abind (on_prev bq_prev bq_prev_update (qs_reset (bo_stage P) l1_origin system_config)) (amodify (bq_restart P))"

definition bq_activate :: "'p batch_ops \<Rightarrow> (('p, 'f) batch_queue, unit) action" where
  "bq_activate P = abind (on_prev bq_prev bq_prev_update (qs_activate (bo_stage P))) bq_clear"

definition bq_flush_channel :: "'p batch_ops \<Rightarrow> (('p, 'f) batch_queue, unit) action" where
  "bq_flush_channel P = abind (on_prev bq_prev bq_prev_update (qs_flush (bo_stage P))) bq_clear"

definition batch_queue_ops ::
    "('f, 'blk) validation_provider \<Rightarrow> 'p batch_ops \<Rightarrow> ('p, 'f) batch_queue provider_ops" where
  "batch_queue_ops F P =
     \<lparr>po_stage = \<lparr>qs_next = bq_next F P, qs_origin = bq_stage_origin P, qs_advance = bq_advance_origin P,
        qs_reset = bq_reset P, qs_activate = bq_activate P, qs_flush = bq_flush_channel P\<rparr>,
      po_is_last_in_span = bq_is_last_in_span\<rparr>"

lemma batch_queue_ops_simps [simp]:
  "qs_next (po_stage (batch_queue_ops F P)) = bq_next F P"
  "qs_origin (po_stage (batch_queue_ops F P)) = bq_stage_origin P"
  "qs_advance (po_stage (batch_queue_ops F P)) = bq_advance_origin P"
  "qs_reset (po_stage (batch_queue_ops F P)) = bq_reset P"
  "qs_activate (po_stage (batch_queue_ops F P)) = bq_activate P"
  "qs_flush (po_stage (batch_queue_ops F P)) = bq_flush_channel P"
  "po_is_last_in_span (batch_queue_ops F P) = bq_is_last_in_span"
  by (simp_all add: batch_queue_ops_def)

section \<open>Calls\<close>

text \<open>The queue in order for heads of epoch \<open>m\<close> and later: every queued batch is regular, and an empty
  window means that the pipeline is behind those heads.\<close>

definition queued_ok :: "rollup_config \<Rightarrow> batch_with_inclusion list \<Rightarrow> bool" where
  "queued_ok cfg bws \<longleftrightarrow> (\<forall>bw \<in> set bws. regular_batch cfg (bw_batch bw))"

definition bq_good :: "rollup_config \<Rightarrow> ('p \<Rightarrow> bool) \<Rightarrow> nat \<Rightarrow> ('p, 'f) batch_queue \<Rightarrow> bool" where
  "bq_good cfg good m s \<longleftrightarrow>
     good (bq_prev s) \<and> bq_cfg s = cfg \<and> queued_ok cfg (bq_batches s) \<and> window_ok m (bq_origin s) (bq_l1_blocks s)"

text \<open>A batch that has been accepted on top of the head.\<close>

definition derived_ok :: "rollup_config \<Rightarrow> block_info list \<Rightarrow> l2_block_info \<Rightarrow> batch \<Rightarrow> bool" where
  "derived_ok cfg l1_blocks parent b \<longleftrightarrow>
     (case b of
        Single b \<Rightarrow> extends cfg parent b
      | Span s \<Rightarrow> \<exists>b bs. get_singular_batches s l1_blocks parent = Ok (b # bs)
          \<and> l2_block_timestamp cfg (bi_number (l2_block parent) + 1) = Some (sb_timestamp b))"

lemma bq_emit_ok:
  assumes "derived_ok cfg (bq_l1_blocks s) parent b" "bq_good cfg good m s"
  shows "fst (bq_emit parent b s) \<noteq> Panic \<and> bq_good cfg good m (snd (bq_emit parent b s))
    \<and> (\<forall>sb. fst (bq_emit parent b s) = Ok sb \<longrightarrow> extends cfg parent sb)"
  using assms by (cases b) (auto simp: derived_ok_def bq_emit_def pop_next_batch_def extends_def bq_good_def)

lemma bq_force_empty_ok:
  assumes "bq_good cfg good m s" "bq_l1_blocks s \<noteq> []"
    and "l2_block_timestamp cfg (bi_number (l2_block parent) + 1) = Some t"
    and "bq_force_empty out_of_data parent epoch t origin s = (r, s')"
  shows "r \<noteq> Panic \<and> bq_good cfg good m s' \<and> (\<forall>b. r = Ok b \<longrightarrow> derived_ok cfg (bq_l1_blocks s') parent b)"
proof -
  have "tl (bq_l1_blocks s) \<noteq> []" if "\<not> length (bq_l1_blocks s) < 2"
    using that by (cases "bq_l1_blocks s"; cases "tl (bq_l1_blocks s)") auto
  then have "window_ok m (bq_origin s) (tl (bq_l1_blocks s))" if "\<not> length (bq_l1_blocks s) < 2"
    using that by (simp add: window_ok_def)
  then show ?thesis
    using assms by (auto simp: bq_force_empty_def Let_def bq_good_def derived_ok_def extends_def split: if_splits)
qed

locale queue_feed = batch_feed B good cfg
  for B :: "'p batch_ops" and good cfg +
  fixes F :: "('f, 'blk) validation_provider"
  assumes block_time: "rc_block_time cfg \<noteq> 0" and blocks_numbered: "numbered F"
begin

lemma scan_batches_ok:
  assumes "head_ok cfg parent" "good p" "queued_ok cfg rest" "queued_ok cfg kept"
    and "scan_batches F B cfg l1_blocks parent holocene kept rest p f = (decision, kept', p', f')"
  shows "decision \<noteq> ScanPanic \<and> good p' \<and> queued_ok cfg kept'
    \<and> (\<forall>b. decision = ScanAccept b \<longrightarrow> derived_ok cfg l1_blocks parent b)"
  using assms(2-)
proof (induction rest arbitrary: kept p f)
  case (Cons bw rest)
  have reg: "regular_batch cfg (bw_batch bw)" and rest: "queued_ok cfg rest"
    using Cons.prems(2) by (simp_all add: queued_ok_def)
  obtain v f1 where v: "bw_check_batch F cfg l1_blocks parent bw f = (Some v, f1)"
    using bw_check_total [OF reg block_time assms(1) blocks_numbered, of l1_blocks f]
    by (metis not_Some_eq prod.collapse)
  have kept: "queued_ok cfg (kept @ [bw])" "queued_ok cfg (kept @ bw # rest)" "queued_ok cfg (kept @ rest)"
    using Cons.prems(2,3) by (auto simp: queued_ok_def)
  have acc: "derived_ok cfg l1_blocks parent (bw_batch bw)" if "v = Accept"
  proof (cases "bw_batch bw")
    case (Single b)
    then show ?thesis
      using v that valid_single_extends [OF assms(1)] by (auto simp: bw_check_batch_def derived_ok_def)
  next
    case (Span s)
    then have "span_check_batch F cfg l1_blocks parent (bw_inclusion_block bw) s f = (Some Accept, f1)"
      using v that by (simp add: bw_check_batch_def)
    from accepted_span_next [OF this _ block_time assms(1) blocks_numbered] show ?thesis
      using reg Span by (simp add: derived_ok_def)
  qed
  note IH = Cons.IH [OF _ rest]
  show ?case
    using Cons.prems(1,3,4) v kept acc IH drop_good by (cases v) (auto split: if_splits)
qed simp

lemma bq_scan_ok:
  assumes "head_ok cfg parent" "bq_good cfg good m s" "bq_l1_blocks s = epoch # later"
    and "l2_block_timestamp cfg (bi_number (l2_block parent) + 1) = Some t"
    and "bq_scan F B out_of_data parent epoch t origin s = (r, s')"
  shows "r \<noteq> Panic \<and> bq_good cfg good m s' \<and> (\<forall>b. r = Ok b \<longrightarrow> derived_ok cfg (bq_l1_blocks s') parent b)"
proof -
  obtain decision kept p f where run: "scan_batches F B cfg (bq_l1_blocks s) parent
      (is_holocene_active cfg (bi_timestamp origin)) [] (bq_batches s) (bq_prev s) (bq_fetcher s)
      = (decision, kept, p, f)"
    by (metis prod_cases4)
  have ok: "decision \<noteq> ScanPanic" "good p" "queued_ok cfg kept"
      "\<And>b. decision = ScanAccept b \<Longrightarrow> derived_ok cfg (bq_l1_blocks s) parent b"
    using scan_batches_ok [OF assms(1) _ _ _ run] assms(2) by (auto simp: bq_good_def queued_ok_def)
  have cfg: "bq_cfg s = cfg"
    and s: "bq_good cfg good m (s\<lparr>bq_prev := p, bq_fetcher := f\<rparr>)"
      "bq_good cfg good m (s\<lparr>bq_prev := p, bq_fetcher := f, bq_batches := kept\<rparr>)"
    using assms(2) ok(2,3) by (simp_all add: bq_good_def)
  show ?thesis
    using assms(3,5) run ok(1,4) s bq_force_empty_ok [OF s(2) _ assms(4)]
    by (cases decision) (auto simp: bq_scan_def cfg)
qed

lemma derive_next_batch_ok:
  assumes "head_ok cfg parent" "bq_good cfg good m s" "derive_next_batch F B out_of_data parent s = (r, s')"
  shows "r \<noteq> Panic \<and> bq_good cfg good m s' \<and> (\<forall>b. r = Ok b \<longrightarrow> derived_ok cfg (bq_l1_blocks s') parent b)"
proof -
  obtain t where t: "l2_block_timestamp cfg (bi_number (l2_block parent) + 1) = Some t"
    using l2_block_timestamp_total [OF block_time] by blast
  have cfg: "bq_cfg s = cfg"
    using assms(2) by (simp add: bq_good_def)
  show ?thesis
  proof (cases "bq_l1_blocks s")
    case (Cons epoch later)
    then show ?thesis
      using assms(2,3) bq_scan_ok [OF assms(1,2) Cons t]
      by (auto simp: derive_next_batch_def t cfg Let_def split: if_splits option.splits)
  qed (use assms in \<open>auto simp: derive_next_batch_def\<close>)
qed

lemma add_batch_ok:
  assumes "head_ok cfg parent" "bq_good cfg good m s" "bq_l1_blocks s \<noteq> []" "regular_batch cfg b"
  shows "fst (add_batch F B b parent s) \<noteq> Panic \<and> bq_good cfg good m (snd (add_batch F B b parent s))"
proof (cases "bq_origin s")
  case (Some origin)
  let ?data = "\<lparr>bw_inclusion_block = origin, bw_batch = b\<rparr>"
  obtain v f where "bw_check_batch F cfg (bq_l1_blocks s) parent ?data (bq_fetcher s) = (Some v, f)"
    using bw_check_total [of cfg ?data, OF _ block_time assms(1) blocks_numbered] assms(4)
    by (metis batch_with_inclusion.select_convs(2) not_Some_eq prod.collapse)
  moreover have "bq_cfg s = cfg"
    using assms(2) by (simp add: bq_good_def)
  ultimately show ?thesis
    using assms drop_good Some by (auto simp: add_batch_def Let_def bq_good_def queued_ok_def)
qed (use assms in \<open>simp add: add_batch_def\<close>)

lemma bq_load_ok:
  assumes "head_ok cfg parent" "bq_good cfg good m s" "behind \<or> bq_l1_blocks s \<noteq> []"
  shows "fst (bq_load F B behind parent s) \<noteq> Panic \<and> bq_good cfg good m (snd (bq_load F B behind parent s))"
proof -
  obtain r p where run: "qs_next (bo_stage B) (parent, bq_l1_blocks s) (bq_prev s) = (r, p)"
    by fastforce
  let ?s = "s\<lparr>bq_prev := p\<rparr>"
  have s: "r \<noteq> Panic" "bq_good cfg good m ?s" "bq_l1_blocks ?s = bq_l1_blocks s"
    using safe_actionD [OF next_safe, of "bq_prev s" "(parent, bq_l1_blocks s)"] assms(2) run
    by (simp_all add: bq_good_def)
  have reg: "regular_batch cfg b" if "r = Ok b" for b
    using givesD [OF next_regular, of "bq_prev s"] run that assms(2) by (simp add: bq_good_def)
  have step: "on_prev bq_prev bq_prev_update (qs_next (bo_stage B) (parent, bq_l1_blocks s)) s = (r, ?s)"
    using run by (simp add: on_prev_def)
  show ?thesis
  proof (cases r)
    case (Ok b)
    then show ?thesis
      using add_batch_ok [OF assms(1) s(2), of b] s reg assms(3)
      by (cases "add_batch F B b parent ?s"; cases "fst (add_batch F B b parent ?s)") (auto simp: bq_load_def step)
  qed (use s in \<open>auto simp: bq_load_def step\<close>)
qed

lemma bq_derive_ok:
  assumes "head_ok cfg parent" "bq_good cfg good m s"
  shows "fst (bq_derive F B behind parent out_of_data s) \<noteq> Panic
    \<and> bq_good cfg good m (snd (bq_derive F B behind parent out_of_data s))
    \<and> (\<forall>sb. fst (bq_derive F B behind parent out_of_data s) = Ok sb \<longrightarrow> extends cfg parent sb)"
proof -
  obtain r s1 where run: "derive_next_batch F B out_of_data parent s = (r, s1)"
    by fastforce
  note ok = derive_next_batch_ok [OF assms run]
  show ?thesis
    using ok assms(2) by (cases r) (auto simp: bq_derive_def run bq_emit_ok dest: bq_emit_ok)
qed

lemma bq_next_ok:
  assumes "head_ok cfg parent" "m \<le> head_epoch parent" "bq_good cfg good m s"
  shows "fst (bq_next F B parent s) \<noteq> Panic \<and> bq_good cfg good (head_epoch parent) (snd (bq_next F B parent s))
    \<and> (\<forall>sb. fst (bq_next F B parent s) = Ok sb \<longrightarrow> extends cfg parent sb)"
proof -
  obtain t where t: "l2_block_timestamp (bq_cfg s) (bi_number (l2_block parent) + 1) = Some t"
    using l2_block_timestamp_total [OF block_time] assms(3) by (auto simp: bq_good_def)
  have s: "bq_good cfg good (head_epoch parent) s" "bq_cfg s = cfg"
    using assms(2,3) window_ok_mono by (auto simp: bq_good_def)
  let ?behind = "origin_behind (bq_stage_origin B s) parent"
  obtain r s1 where up: "bq_update_origins B parent (s\<lparr>bq_next_spans := []\<rparr>) = (r, s1)"
    by fastforce
  have s1: "r = Ok ()" "bq_good cfg good (head_epoch parent) s1" "?behind \<or> bq_l1_blocks s1 \<noteq> []"
  proof -
    obtain r' origin l1_blocks where sync:
      "sync_origin (bq_stage_origin B s) parent (bq_origin s) (advance_epoch parent (bq_l1_blocks s)) = (r', origin, l1_blocks)"
      by (metis prod_cases3)
    note w = sync_origin_window [OF sync window_ok_epoch assms(2)]
    show "r = Ok ()" "bq_good cfg good (head_epoch parent) s1" "?behind \<or> bq_l1_blocks s1 \<noteq> []"
      using up sync sync_origin_no_error w assms(3)
      by (auto simp: bq_update_origins_def bq_stage_origin_def bq_good_def dest: arg_cong [of _ _ fst])
  qed
  obtain r2 s2 where load: "bq_load F B ?behind parent s1 = (r2, s2)"
    by fastforce
  have s2: "r2 \<noteq> Panic" "bq_good cfg good (head_epoch parent) s2"
    using bq_load_ok [OF assms(1) s1(2,3)] load by simp_all
  have pop: "fst (pop_next_batch parent s) \<noteq> Panic \<and> bq_good cfg good (head_epoch parent) (snd (pop_next_batch parent s))
      \<and> (\<forall>sb. fst (pop_next_batch parent s) = Ok sb \<longrightarrow> extends cfg parent sb)"
    if "bq_next_spans s \<noteq> []" "sb_timestamp (bq_next_spans s ! 0) = t"
    using that s t by (cases "bq_next_spans s") (auto simp: pop_next_batch_def extends_def bq_good_def)
  show ?thesis
    using pop s2 bq_derive_ok [OF assms(1) s2(2)] s1(1)
    by (cases r2) (auto simp: bq_next_def t Let_def abind_def up load)
qed

lemma bq_on_prev: "safe_action good act \<Longrightarrow> safe_action (bq_good cfg good m) (on_prev bq_prev bq_prev_update act)"
  by (auto simp: safe_action_def bq_good_def)

end

sublocale queue_feed \<subseteq> bq: attributes_source "batch_queue_ops F B" "bq_good cfg good" cfg
proof unfold_locales
  let ?S = "po_stage (batch_queue_ops F B)"
  fix parent m n b l1_origin system_config and p p' :: "('p, 'f) batch_queue"
  show "bq_good cfg good n p" if "m \<le> n" "bq_good cfg good m p"
    using that window_ok_mono by (auto simp: bq_good_def)
  show "fst (qs_next ?S parent p) \<noteq> Panic \<and> bq_good cfg good (head_epoch parent) (snd (qs_next ?S parent p))"
    if "head_ok cfg parent" "m \<le> head_epoch parent" "bq_good cfg good m p"
    by (simp add: bq_next_ok [OF that])
  show "extends cfg parent b" if "head_ok cfg parent" "m \<le> head_epoch parent" "bq_good cfg good m p"
      "qs_next ?S parent p = (Ok b, p')"
    using bq_next_ok [OF that(1-3)] that(4) by simp
  have clear: "safe_action (bq_good cfg good m) (bq_clear u)" for u
    by (simp add: bq_clear_def safe_action_def amodify_def bq_good_def queued_ok_def)
  show "safe_action (bq_good cfg good m) (qs_advance ?S)" "safe_action (bq_good cfg good m) (qs_activate ?S)"
    "safe_action (bq_good cfg good m) (qs_flush ?S)"
    by (simp_all add: bq_advance_origin_def bq_activate_def bq_flush_channel_def bq_on_prev advance_safe activate_safe
        flush_safe safe_abind clear)
  have restart: "bq_good cfg good m' (bq_restart B s)" if "bq_good cfg good m s" for s m'
    using that by (simp add: bq_good_def bq_restart_def queued_ok_def window_ok_reset)
  show "safe_action (bq_good cfg good m) (qs_reset ?S l1_origin system_config)"
    by (simp add: bq_reset_def safe_abind bq_on_prev reset_safe safe_amodify restart)
  show "bq_good cfg good 0 p'" if "bq_good cfg good m p" "qs_reset ?S l1_origin system_config p = (Ok (), p')"
    by (rule safe_then_modify [OF bq_on_prev [OF reset_safe] that(1)
        that(2) [unfolded batch_queue_ops_simps bq_reset_def]]) (simp add: restart)
qed

end
