(* ===== verification/Batch_Provider.thy ===== *)
theory Batch_Provider
  imports Batch_Validator Batch_Queue
begin

text \<open>
  The multiplexer of crates/consensus/derive/src/stages/batch/batch_provider.rs: the batch queue
  before Holocene, the batch validator from Holocene on, chosen by the L1 origin on every call.  The
  window of L1 blocks is handed over.
\<close>

section \<open>State and operations\<close>

record ('p, 'f) batch_provider =
  bp_cfg :: rollup_config
  bp_provider :: 'f
  bp_prev :: "'p option"
  bp_batch_queue :: "('p, 'f) batch_queue option"
  bp_batch_validator :: "('p, 'f) batch_validator option"

definition batch_provider_new :: "rollup_config \<Rightarrow> 'p \<Rightarrow> 'f \<Rightarrow> ('p, 'f) batch_provider" where
  "batch_provider_new cfg prev provider =
     \<lparr>bp_cfg = cfg, bp_provider = provider, bp_prev = Some prev, bp_batch_queue = None, bp_batch_validator = None\<rparr>"

definition bp_origin :: "'p batch_ops \<Rightarrow> ('p, 'f) batch_provider \<Rightarrow> block_info option" where
  "bp_origin P s =
     (case bp_batch_validator s of
        Some v \<Rightarrow> vd_stage_origin P v
      | None \<Rightarrow>
         (case bp_batch_queue s of
            Some q \<Rightarrow> bq_stage_origin P q
          | None \<Rightarrow> Option.bind (bp_prev s) (qs_origin (bo_stage P))))"

definition bp_select :: "bool \<Rightarrow> ('p, 'f) batch_provider \<Rightarrow> ('p, 'f) batch_provider" where
  "bp_select holocene s =
     (case bp_prev s of
        Some prev \<Rightarrow>
          if holocene
          then s\<lparr>bp_prev := None, bp_batch_validator := Some (batch_validator_new (bp_cfg s) prev (bp_provider s))\<rparr>
          else s\<lparr>bp_prev := None, bp_batch_queue := Some (batch_queue_new (bp_cfg s) prev (bp_provider s))\<rparr>
      | None \<Rightarrow>
         (case (bp_batch_queue s, holocene) of
            (Some q, True) \<Rightarrow>
              s\<lparr>bp_batch_queue := None, bp_batch_validator :=
                  Some ((batch_validator_new (bp_cfg s) (bq_prev q) (bp_provider s))
                    \<lparr>vd_l1_blocks := bq_l1_blocks q, vd_origin := bq_origin q\<rparr>)\<rparr>
          | _ \<Rightarrow>
             (case (bp_batch_validator s, holocene) of
                (Some v, False) \<Rightarrow>
                  s\<lparr>bp_batch_validator := None, bp_batch_queue :=
                      Some ((batch_queue_new (bp_cfg s) (vd_prev v) (bp_provider s))
                        \<lparr>bq_l1_blocks := vd_l1_blocks v\<rparr>)\<rparr>
              | _ \<Rightarrow> s)))"

definition bp_attempt_update :: "'p batch_ops \<Rightarrow> (('p, 'f) batch_provider, unit) action" where
  "bp_attempt_update P s =
     (case bp_origin P s of
        None \<Rightarrow> (Err (crit MissingOrigin), s)
      | Some origin \<Rightarrow> (Ok (), bp_select (is_holocene_active (bp_cfg s) (bi_timestamp origin)) s))"

definition bp_dispatch ::
    "(('p, 'f) batch_validator, 'a) action \<Rightarrow> (('p, 'f) batch_queue, 'a) action
       \<Rightarrow> (('p, 'f) batch_provider, 'a) action" where
  "bp_dispatch f g s =
     (case bp_batch_validator s of
        Some v \<Rightarrow> (let (r, v) = f v in (r, s\<lparr>bp_batch_validator := Some v\<rparr>))
      | None \<Rightarrow>
         (case bp_batch_queue s of
            Some q \<Rightarrow> (let (r, q) = g q in (r, s\<lparr>bp_batch_queue := Some q\<rparr>))
          | None \<Rightarrow> (Err (temp NotEnoughData), s)))"

definition bp_advance_origin :: "'p batch_ops \<Rightarrow> (('p, 'f) batch_provider, unit) action" where
  "bp_advance_origin P = abind (bp_attempt_update P) (\<lambda>_. bp_dispatch (vd_advance_origin P) (bq_advance_origin P))"

definition bp_reset ::
    "'p batch_ops \<Rightarrow> block_num_hash \<Rightarrow> system_config \<Rightarrow> (('p, 'f) batch_provider, unit) action" where
  "bp_reset P l1_origin system_config =
     abind (bp_attempt_update P)
       (\<lambda>_. bp_dispatch (vd_reset P l1_origin system_config) (bq_reset P l1_origin system_config))"

definition bp_activate :: "'p batch_ops \<Rightarrow> (('p, 'f) batch_provider, unit) action" where
  "bp_activate P = abind (bp_attempt_update P) (\<lambda>_. bp_dispatch (vd_activate P) (bq_activate P))"

definition bp_flush_channel :: "'p batch_ops \<Rightarrow> (('p, 'f) batch_provider, unit) action" where
  "bp_flush_channel P = abind (bp_attempt_update P) (\<lambda>_. bp_dispatch (vd_flush_channel P) (bq_flush_channel P))"

definition bp_is_last_in_span :: "'p batch_ops \<Rightarrow> ('p, 'f) batch_provider \<Rightarrow> bool" where
  "bp_is_last_in_span P s =
     (case bp_batch_validator s of
        Some v \<Rightarrow> vd_is_last_in_span P v
      | None \<Rightarrow> (case bp_batch_queue s of Some q \<Rightarrow> bq_is_last_in_span q | None \<Rightarrow> False))"

definition bp_next ::
    "('f, 'blk) validation_provider \<Rightarrow> 'p batch_ops \<Rightarrow> l2_block_info \<Rightarrow> (('p, 'f) batch_provider, single_batch) action" where
  "bp_next F P parent = abind (bp_attempt_update P) (\<lambda>_. bp_dispatch (vd_next F P parent) (bq_next F P parent))"

definition batch_provider_ops ::
    "('f, 'blk) validation_provider \<Rightarrow> 'p batch_ops \<Rightarrow> ('p, 'f) batch_provider provider_ops" where
  "batch_provider_ops F P =
     \<lparr>po_stage = \<lparr>qs_next = bp_next F P, qs_origin = bp_origin P, qs_advance = bp_advance_origin P,
        qs_reset = bp_reset P, qs_activate = bp_activate P, qs_flush = bp_flush_channel P\<rparr>,
      po_is_last_in_span = bp_is_last_in_span P\<rparr>"

lemma batch_provider_ops_simps [simp]:
  "qs_next (po_stage (batch_provider_ops F P)) = bp_next F P"
  "qs_origin (po_stage (batch_provider_ops F P)) = bp_origin P"
  "qs_advance (po_stage (batch_provider_ops F P)) = bp_advance_origin P"
  "qs_reset (po_stage (batch_provider_ops F P)) = bp_reset P"
  "qs_activate (po_stage (batch_provider_ops F P)) = bp_activate P"
  "qs_flush (po_stage (batch_provider_ops F P)) = bp_flush_channel P"
  "po_is_last_in_span (batch_provider_ops F P) = bp_is_last_in_span P"
  by (simp_all add: batch_provider_ops_def)

section \<open>The contract\<close>

text \<open>Exactly one of the three is present, and it is in good order.\<close>

definition bp_good :: "rollup_config \<Rightarrow> ('p \<Rightarrow> bool) \<Rightarrow> nat \<Rightarrow> ('p, 'f) batch_provider \<Rightarrow> bool" where
  "bp_good cfg good m s \<longleftrightarrow>
     bp_cfg s = cfg
     \<and> (case (bp_prev s, bp_batch_queue s, bp_batch_validator s) of
          (Some p, None, None) \<Rightarrow> good p
        | (None, Some q, None) \<Rightarrow> bq_good cfg good m q
        | (None, None, Some v) \<Rightarrow> vd_good cfg good v
        | _ \<Rightarrow> False)"

lemma bp_good_cases:
  assumes "bp_good cfg good m s"
  obtains p where "bp_prev s = Some p" "bp_batch_queue s = None" "bp_batch_validator s = None" "good p"
  | q where "bp_prev s = None" "bp_batch_queue s = Some q" "bp_batch_validator s = None" "bq_good cfg good m q"
  | v where "bp_prev s = None" "bp_batch_queue s = None" "bp_batch_validator s = Some v" "vd_good cfg good v"
  using assms by (auto simp: bp_good_def split: option.splits)

lemma bp_new_good:
  "good p \<Longrightarrow> vd_good cfg good (batch_validator_new cfg p f)"
  "good p \<Longrightarrow> vd_good cfg good ((batch_validator_new cfg p f)\<lparr>vd_l1_blocks := l1_blocks, vd_origin := origin\<rparr>)"
  "good p \<Longrightarrow> bq_good cfg good m (batch_queue_new cfg p f)"
  "good p \<Longrightarrow> bq_good cfg good m ((batch_queue_new cfg p f)\<lparr>bq_l1_blocks := l1_blocks\<rparr>)"
  by (simp_all add: vd_good_def batch_validator_new_def bq_good_def batch_queue_new_def queued_ok_def window_ok_def)

lemma bp_prev_good: "bq_good cfg good m q \<Longrightarrow> good (bq_prev q)" "vd_good cfg good v \<Longrightarrow> good (vd_prev v)"
  by (simp_all add: bq_good_def vd_good_def)

lemma bp_select_good:
  assumes "bp_good cfg good m s"
  shows "bp_good cfg good m (bp_select h s)"
  using assms
  by (rule bp_good_cases; cases h)
     (use assms in \<open>simp_all add: bp_select_def bp_good_def bp_new_good bp_prev_good\<close>)

lemma bp_select_origin:
  assumes "bp_good cfg good m s"
  shows "bp_origin P (bp_select h s) = bp_origin P s"
    "(bp_batch_validator (bp_select h s) \<noteq> None) = h" "(bp_batch_queue (bp_select h s) \<noteq> None) = (\<not> h)"
    "bp_prev (bp_select h s) = None"
  by (rule bp_good_cases [OF assms]; cases h; simp add: bp_select_def bp_origin_def vd_stage_origin_def
      bq_stage_origin_def batch_validator_new_def batch_queue_new_def)+

lemma bp_good_mono: "m \<le> n \<Longrightarrow> bp_good cfg good m s \<Longrightarrow> bp_good cfg good n s"
  using window_ok_mono by (auto simp: bp_good_def bq_good_def split: option.splits)

lemma bp_dispatch_simps:
  "bp_batch_validator s = Some v \<Longrightarrow>
     bp_dispatch f g s = (fst (f v), s\<lparr>bp_batch_validator := Some (snd (f v))\<rparr>)"
  "bp_batch_validator s = None \<Longrightarrow> bp_batch_queue s = Some q \<Longrightarrow>
     bp_dispatch f g s = (fst (g q), s\<lparr>bp_batch_queue := Some (snd (g q))\<rparr>)"
  "bp_batch_validator s = None \<Longrightarrow> bp_batch_queue s = None \<Longrightarrow>
     bp_dispatch f g s = (Err (temp NotEnoughData), s)"
  by (simp_all add: bp_dispatch_def case_prod_unfold Let_def)

lemma bp_update_safe: "safe_action (bp_good cfg good m) (bp_attempt_update P)"
  using bp_select_good [of cfg good m] by (auto simp: safe_action_def bp_attempt_update_def split: option.split)

text \<open>Dispatching: what the two stages guarantee, the provider guarantees.\<close>

lemma bp_dispatch_run:
  assumes s: "bp_good cfg good m s"
    and f: "\<And>v. vd_good cfg good v \<Longrightarrow> fst (f v) \<noteq> Panic \<and> vd_good cfg good (snd (f v)) \<and> (\<forall>x. fst (f v) = Ok x \<longrightarrow> Q x)"
    and g: "\<And>q. bq_good cfg good m q \<Longrightarrow> fst (g q) \<noteq> Panic \<and> bq_good cfg good n (snd (g q)) \<and> (\<forall>x. fst (g q) = Ok x \<longrightarrow> Q x)"
  shows "fst (bp_dispatch f g s) \<noteq> Panic \<and> (bp_batch_validator s \<noteq> None \<or> bp_batch_queue s \<noteq> None \<longrightarrow>
      bp_good cfg good n (snd (bp_dispatch f g s))) \<and> (\<forall>x. fst (bp_dispatch f g s) = Ok x \<longrightarrow> Q x)"
proof -
  have cfg: "bp_cfg s = cfg"
    using s by (simp add: bp_good_def)
  show ?thesis
  proof (rule bp_good_cases [OF s])
    fix q assume *: "bp_prev s = None" "bp_batch_queue s = Some q" "bp_batch_validator s = None" "bq_good cfg good m q"
    show ?thesis
      using g [OF *(4)] * cfg by (simp add: bp_dispatch_simps bp_good_def)
  next
    fix v assume *: "bp_prev s = None" "bp_batch_queue s = None" "bp_batch_validator s = Some v" "vd_good cfg good v"
    show ?thesis
      using f [OF *(4)] * cfg by (simp add: bp_dispatch_simps bp_good_def)
  qed (simp add: bp_dispatch_simps)
qed

text \<open>An operation of the provider: select the stage, then dispatch.\<close>

lemma bp_operation_run:
  assumes s: "bp_good cfg good m s" and mn: "m \<le> n"
    and f: "\<And>v. vd_good cfg good v \<Longrightarrow> fst (f v) \<noteq> Panic \<and> vd_good cfg good (snd (f v)) \<and> (\<forall>x. fst (f v) = Ok x \<longrightarrow> Q x)"
    and g: "\<And>q. bq_good cfg good m q \<Longrightarrow> fst (g q) \<noteq> Panic \<and> bq_good cfg good n (snd (g q)) \<and> (\<forall>x. fst (g q) = Ok x \<longrightarrow> Q x)"
  shows "fst (abind (bp_attempt_update P) (\<lambda>_. bp_dispatch f g) s) \<noteq> Panic
    \<and> bp_good cfg good n (snd (abind (bp_attempt_update P) (\<lambda>_. bp_dispatch f g) s))
    \<and> (\<forall>x. fst (abind (bp_attempt_update P) (\<lambda>_. bp_dispatch f g) s) = Ok x \<longrightarrow> Q x)"
proof (cases "bp_origin P s")
  case None
  then show ?thesis
    using bp_good_mono [OF mn s] by (simp add: bp_attempt_update_def abind_def)
next
  case (Some origin)
  let ?h = "is_holocene_active (bp_cfg s) (bi_timestamp origin)"
  have "bp_batch_validator (bp_select ?h s) \<noteq> None \<or> bp_batch_queue (bp_select ?h s) \<noteq> None"
    using bp_select_origin(2,3) [OF s, of ?h] by blast
  then show ?thesis
    using bp_dispatch_run [OF bp_select_good [OF s], of f Q g n ?h] f g Some
    by (simp add: bp_attempt_update_def abind_def)
qed

lemma bp_operation_safe:
  assumes "safe_action (vd_good cfg good) f" "safe_action (bq_good cfg good m) g"
  shows "safe_action (bp_good cfg good m) (abind (bp_attempt_update P) (\<lambda>_. bp_dispatch f g))"
proof -
  have "fst (abind (bp_attempt_update P) (\<lambda>_. bp_dispatch f g) s) \<noteq> Panic
    \<and> bp_good cfg good m (snd (abind (bp_attempt_update P) (\<lambda>_. bp_dispatch f g) s))" if "bp_good cfg good m s" for s
    using bp_operation_run [OF that order_refl, of f "\<lambda>_. True" g P] assms by (auto simp: safe_action_def)
  then show ?thesis
    by (simp add: safe_action_def)
qed

lemma bp_operation_result:
  assumes "abind (bp_attempt_update P) (\<lambda>_. bp_dispatch f g) s = (Ok x, s')" "bp_good cfg good m s"
  obtains v v' where "vd_good cfg good v" "f v = (Ok x, v')"
      "s' = s\<lparr>bp_prev := None, bp_batch_queue := None, bp_batch_validator := Some v'\<rparr>"
  | q q' where "bq_good cfg good m q" "g q = (Ok x, q')"
      "s' = s\<lparr>bp_prev := None, bp_batch_queue := Some q', bp_batch_validator := None\<rparr>"
proof -
  obtain origin where o: "bp_origin P s = Some origin"
    using assms(1) by (auto simp: abind_def bp_attempt_update_def split: option.splits)
  let ?h = "is_holocene_active (bp_cfg s) (bi_timestamp origin)"
  let ?s = "bp_select ?h s"
  have run: "bp_dispatch f g ?s = (Ok x, s')"
    using assms(1) o by (simp add: abind_def bp_attempt_update_def)
  have same: "bp_cfg ?s = bp_cfg s" "bp_provider ?s = bp_provider s"
    by (simp_all add: bp_select_def split: option.split bool.split)
  show thesis
    using bp_select_good [OF assms(2), of ?h]
  proof (cases rule: bp_good_cases)
    case (1 p)
    then show thesis
      using bp_select_origin(4) [OF assms(2), of ?h] by simp
  next
    case (2 q)
    show thesis
      using run 2 same by (intro that(2) [OF 2(4)]) (auto simp: bp_dispatch_simps intro: batch_provider.equality prod_eqI)
  next
    case (3 v)
    show thesis
      using run 3 same by (intro that(1) [OF 3(4)]) (auto simp: bp_dispatch_simps intro: batch_provider.equality prod_eqI)
  qed
qed

sublocale queue_feed \<subseteq> timed_batch_feed B good cfg
  by unfold_locales (rule block_time)

sublocale queue_feed \<subseteq> bp: attributes_source "batch_provider_ops F B" "bp_good cfg good" cfg
proof unfold_locales
  let ?S = "po_stage (batch_provider_ops F B)"
  fix parent m n b l1_origin system_config and p p' :: "('p, 'f) batch_provider"
  show "bp_good cfg good n p" if "m \<le> n" "bp_good cfg good m p"
    using bp_good_mono [OF that] .
  have run: "fst (bp_next F B parent p) \<noteq> Panic \<and> bp_good cfg good (head_epoch parent) (snd (bp_next F B parent p))
      \<and> (\<forall>b. fst (bp_next F B parent p) = Ok b \<longrightarrow> extends cfg parent b)"
    if "head_ok cfg parent" "m \<le> head_epoch parent" "bp_good cfg good m p"
    unfolding bp_next_def
  proof (rule bp_operation_run [OF that(3,2)])
    show "fst (vd_next F B parent v) \<noteq> Panic \<and> vd_good cfg good (snd (vd_next F B parent v))
      \<and> (\<forall>b. fst (vd_next F B parent v) = Ok b \<longrightarrow> extends cfg parent b)" if "vd_good cfg good v" for v
      using vd_next_call [OF that block_time, of parent F] justified_extends [OF \<open>head_ok cfg parent\<close>]
      by (auto simp: vd_call_def)
    show "fst (bq_next F B parent q) \<noteq> Panic \<and> bq_good cfg good (head_epoch parent) (snd (bq_next F B parent q))
      \<and> (\<forall>b. fst (bq_next F B parent q) = Ok b \<longrightarrow> extends cfg parent b)" if "bq_good cfg good m q" for q
      using bq_next_ok [OF \<open>head_ok cfg parent\<close> \<open>m \<le> head_epoch parent\<close> that] .
  qed
  show "fst (qs_next ?S parent p) \<noteq> Panic \<and> bp_good cfg good (head_epoch parent) (snd (qs_next ?S parent p))"
    if "head_ok cfg parent" "m \<le> head_epoch parent" "bp_good cfg good m p"
    using run [OF that] by simp
  show "extends cfg parent b" if "head_ok cfg parent" "m \<le> head_epoch parent" "bp_good cfg good m p"
      "qs_next ?S parent p = (Ok b, p')"
    using run [OF that(1-3)] that(4) by simp
  show "safe_action (bp_good cfg good m) (qs_advance ?S)"
    using bp_operation_safe [OF vd.advance_safe bq.advance_safe] by (simp add: bp_advance_origin_def)
  show "safe_action (bp_good cfg good m) (qs_activate ?S)"
    using bp_operation_safe [OF vd.activate_safe bq.activate_safe] by (simp add: bp_activate_def)
  show "safe_action (bp_good cfg good m) (qs_flush ?S)"
    using bp_operation_safe [OF vd.flush_safe bq.flush_safe] by (simp add: bp_flush_channel_def)
  show "safe_action (bp_good cfg good m) (qs_reset ?S l1_origin system_config)"
    using bp_operation_safe [OF vd.reset_safe [of F l1_origin system_config] bq.reset_safe [of m l1_origin system_config]]
    by (simp add: bp_reset_def)
  show "bp_good cfg good 0 p'" if p: "bp_good cfg good m p" and res: "qs_reset ?S l1_origin system_config p = (Ok (), p')"
  proof -
    have "bp_cfg p = cfg"
      using p by (simp add: bp_good_def)
    note cfg = this
    have v: "vd_good cfg good v'" if "vd_good cfg good v" "vd_reset B l1_origin system_config v = (Ok (), v')"
      for v v' :: "('p, 'f) batch_validator"
      using vd.reset_restarts [of v F l1_origin system_config v'] that by simp
    have q: "bq_good cfg good 0 q'" if "bq_good cfg good m q" "bq_reset B l1_origin system_config q = (Ok (), q')"
      for q q' :: "('p, 'f) batch_queue"
      using bq.reset_restarts [of m q l1_origin system_config q'] that by simp
    show ?thesis
      by (rule bp_operation_result [OF res [unfolded batch_provider_ops_simps bp_reset_def] p])
         (use cfg v q in \<open>simp_all add: bp_good_def\<close>)
  qed
qed

section \<open>Properties\<close>

text \<open>On every call the batch provider settles on the stage that its L1 origin demands, the validator
  from Holocene on and the queue before, hands the predecessor over so that the origin does not move,
  and keeps the window of L1 blocks across the switch in both directions.\<close>

lemma batch_provider_selects:
  assumes "bp_good cfg good m s"
  shows "case bp_origin P s of
      None \<Rightarrow> bp_attempt_update P s = (Err (crit MissingOrigin), s)
    | Some l1 \<Rightarrow> (\<exists>s'. bp_attempt_update P s = (Ok (), s') \<and> bp_good cfg good m s' \<and> bp_origin P s' = Some l1
        \<and> ((bp_batch_validator s' \<noteq> None) \<longleftrightarrow> is_holocene_active cfg (bi_timestamp l1))
        \<and> ((bp_batch_queue s' \<noteq> None) \<longleftrightarrow> \<not> is_holocene_active cfg (bi_timestamp l1))
        \<and> (\<forall>q v. bp_batch_queue s = Some q \<and> bp_batch_validator s' = Some v \<longrightarrow> vd_l1_blocks v = bq_l1_blocks q)
        \<and> (\<forall>v q. bp_batch_validator s = Some v \<and> bp_batch_queue s' = Some q \<longrightarrow> bq_l1_blocks q = vd_l1_blocks v))"
proof (cases "bp_origin P s")
  case (Some l1)
  let ?h = "is_holocene_active cfg (bi_timestamp l1)"
  have cfg: "bp_cfg s = cfg"
    using assms by (simp add: bp_good_def)
  have "(\<forall>q v. bp_batch_queue s = Some q \<and> bp_batch_validator (bp_select ?h s) = Some v \<longrightarrow> vd_l1_blocks v = bq_l1_blocks q)
      \<and> (\<forall>v q. bp_batch_validator s = Some v \<and> bp_batch_queue (bp_select ?h s) = Some q \<longrightarrow> bq_l1_blocks q = vd_l1_blocks v)"
    by (rule bp_good_cases [OF assms]; cases ?h) (auto simp: bp_select_def)
  then show ?thesis
    using Some cfg bp_select_good [OF assms, of ?h] bp_select_origin(1) [OF assms, of P ?h]
      bp_select_origin(2-3) [OF assms, of ?h]
    by (simp add: bp_attempt_update_def)
qed (simp add: bp_attempt_update_def)

end
