(* ===== verification/Attributes_Queue.thy ===== *)
theory Attributes_Queue
  imports Batch_Provider
begin

text \<open>
  The attributes queue (crates/consensus/derive/src/stages/attributes_queue.rs), the last stage of the
  pipeline: it holds the batch in progress, asks the attributes builder for the deposits-only payload
  on top of the safe head and appends the transactions of the batch.  The payload attributes are those
  of crates/common/rpc-types-engine/src/attributes.rs, with their parent as in
  crates/consensus/protocol/src/attributes.rs; the builder is the trait of traits/attributes.rs.
\<close>

section \<open>Payload attributes\<close>

record payload_attributes =
  pa_timestamp :: u64
  pa_prev_randao :: b256
  pa_suggested_fee_recipient :: address
  pa_withdrawals :: "bytes list option"
  pa_parent_beacon_block_root :: "b256 option"
  pa_slot_number :: "u64 option"
  pa_target_gas_limit :: "u64 option"
  pa_transactions :: "bytes list option"
  pa_no_tx_pool :: "bool option"
  pa_gas_limit :: "u64 option"
  pa_eip_1559_params :: "bytes option"
  pa_min_base_fee :: "u64 option"

record attributes_with_parent =
  aw_attributes :: payload_attributes
  aw_parent :: l2_block_info
  aw_derived_from :: "block_info option"
  aw_is_last_in_span :: bool

definition aw_block_number :: "attributes_with_parent \<Rightarrow> u64" where
  "aw_block_number a = saturating_add (bi_number (l2_block (aw_parent a))) 1"

definition is_deposit_tx :: "bytes \<Rightarrow> bool" where
  "is_deposit_tx tx \<longleftrightarrow> (case tx of [] \<Rightarrow> False | ty # _ \<Rightarrow> ty = tx_type_byte TyDeposit)"

definition is_deposits_only :: "attributes_with_parent \<Rightarrow> bool" where
  "is_deposits_only a \<longleftrightarrow>
     (case pa_transactions (aw_attributes a) of None \<Rightarrow> True | Some txs \<Rightarrow> list_all is_deposit_tx txs)"

definition as_deposits_only :: "attributes_with_parent \<Rightarrow> attributes_with_parent" where
  "as_deposits_only a =
     a\<lparr>aw_attributes := (aw_attributes a)\<lparr>pa_transactions :=
         map_option (filter is_deposit_tx) (pa_transactions (aw_attributes a))\<rparr>\<rparr>"

text \<open>The attributes builder.\<close>

record 'ab attributes_builder =
  ab_prepare :: "l2_block_info \<Rightarrow> block_num_hash \<Rightarrow> ('ab, payload_attributes) action"

section \<open>State and operations\<close>

record ('p, 'ab) attributes_queue =
  aq_cfg :: rollup_config
  aq_prev :: 'p
  aq_is_last_in_span :: bool
  aq_batch :: "single_batch option"
  aq_builder :: 'ab

definition attributes_queue_new :: "rollup_config \<Rightarrow> 'p \<Rightarrow> 'ab \<Rightarrow> ('p, 'ab) attributes_queue" where
  "attributes_queue_new cfg prev builder =
     \<lparr>aq_cfg = cfg, aq_prev = prev, aq_is_last_in_span = False, aq_batch = None, aq_builder = builder\<rparr>"

definition aq_origin :: "'p provider_ops \<Rightarrow> ('p, 'ab) attributes_queue \<Rightarrow> block_info option" where
  "aq_origin P s = qs_origin (po_stage P) (aq_prev s)"

definition load_batch :: "'p provider_ops \<Rightarrow> l2_block_info \<Rightarrow> (('p, 'ab) attributes_queue, single_batch) action" where
  "load_batch P parent s =
     (case aq_batch s of
        Some b \<Rightarrow> (Ok b, s)
      | None \<Rightarrow>
          abind (on_prev aq_prev aq_prev_update (qs_next (po_stage P) parent))
            (\<lambda>b s. (Ok b, s\<lparr>aq_batch := Some b, aq_is_last_in_span := po_is_last_in_span P (aq_prev s)\<rparr>)) s)"

definition append_txs :: "bytes list \<Rightarrow> payload_attributes \<Rightarrow> payload_attributes" where
  "append_txs txs a =
     (case pa_transactions a of
        Some prepared \<Rightarrow> a\<lparr>pa_transactions := Some (prepared @ txs)\<rparr>
      | None \<Rightarrow> if txs \<noteq> [] then a\<lparr>pa_transactions := Some txs\<rparr> else a)"

definition create_next_attributes ::
    "'ab attributes_builder \<Rightarrow> single_batch \<Rightarrow> l2_block_info \<Rightarrow> (('p, 'ab) attributes_queue, payload_attributes) action" where
  "create_next_attributes AB b parent s =
     (if sb_parent_hash b \<noteq> bi_hash (l2_block parent)
      then (Err (Reset (BadParentHash (sb_parent_hash b) (bi_hash (l2_block parent)))), s)
      else abind (on_prev aq_builder aq_builder_update (ab_prepare AB parent (sb_epoch b)))
             (\<lambda>a. areturn (Ok (append_txs (sb_transactions b) (a\<lparr>pa_no_tx_pool := Some True\<rparr>)))) s)"

definition aq_finish ::
    "'p provider_ops \<Rightarrow> l2_block_info \<Rightarrow> payload_attributes \<Rightarrow> (('p, 'ab) attributes_queue, attributes_with_parent) action" where
  "aq_finish P parent attributes s =
     (case aq_origin P s of
        None \<Rightarrow> (Err (crit MissingOrigin), s)
      | Some origin \<Rightarrow>
          (Ok \<lparr>aw_attributes = attributes, aw_parent = parent, aw_derived_from = Some origin,
               aw_is_last_in_span = aq_is_last_in_span s\<rparr>,
           s\<lparr>aq_batch := None, aq_is_last_in_span := False\<rparr>))"

definition next_attributes ::
    "'ab attributes_builder \<Rightarrow> 'p provider_ops \<Rightarrow> l2_block_info
       \<Rightarrow> (('p, 'ab) attributes_queue, attributes_with_parent) action" where
  "next_attributes AB P parent =
     abind (load_batch P parent) (\<lambda>b. abind (create_next_attributes AB b parent) (aq_finish P parent))"

definition aq_advance_origin :: "'p provider_ops \<Rightarrow> (('p, 'ab) attributes_queue, unit) action" where
  "aq_advance_origin P = on_prev aq_prev aq_prev_update (qs_advance (po_stage P))"

definition aq_clear :: "unit \<Rightarrow> (('p, 'ab) attributes_queue, unit) action" where
  "aq_clear = amodify (\<lambda>s. s\<lparr>aq_batch := None, aq_is_last_in_span := False\<rparr>)"

definition aq_reset ::
    "'p provider_ops \<Rightarrow> block_num_hash \<Rightarrow> system_config \<Rightarrow> (('p, 'ab) attributes_queue, unit) action" where
  "aq_reset P l1_origin system_config =
     abind (on_prev aq_prev aq_prev_update (qs_reset (po_stage P) l1_origin system_config)) aq_clear"

definition aq_activate :: "'p provider_ops \<Rightarrow> (('p, 'ab) attributes_queue, unit) action" where
  "aq_activate P = abind (on_prev aq_prev aq_prev_update (qs_activate (po_stage P))) aq_clear"

definition aq_flush_channel :: "'p provider_ops \<Rightarrow> (('p, 'ab) attributes_queue, unit) action" where
  "aq_flush_channel P s = on_prev aq_prev aq_prev_update (qs_flush (po_stage P)) (s\<lparr>aq_batch := None\<rparr>)"

definition attributes_queue_stage ::
    "'ab attributes_builder \<Rightarrow> 'p provider_ops
       \<Rightarrow> (('p, 'ab) attributes_queue, l2_block_info, attributes_with_parent) query_stage" where
  "attributes_queue_stage AB P =
     \<lparr>qs_next = next_attributes AB P, qs_origin = aq_origin P, qs_advance = aq_advance_origin P,
      qs_reset = aq_reset P, qs_activate = aq_activate P, qs_flush = aq_flush_channel P\<rparr>"

lemma attributes_queue_stage_simps [simp]:
  "qs_next (attributes_queue_stage AB P) = next_attributes AB P"
  "qs_origin (attributes_queue_stage AB P) = aq_origin P"
  "qs_advance (attributes_queue_stage AB P) = aq_advance_origin P"
  "qs_reset (attributes_queue_stage AB P) = aq_reset P"
  "qs_activate (attributes_queue_stage AB P) = aq_activate P"
  "qs_flush (attributes_queue_stage AB P) = aq_flush_channel P"
  by (simp_all add: attributes_queue_stage_def)

section \<open>The contract\<close>

text \<open>What the pipeline relies on: as for the source of batches, and every set of attributes is built on
  the head it was asked for.\<close>

locale attributes_feed =
  fixes S :: "('p, l2_block_info, attributes_with_parent) query_stage" and good :: "nat \<Rightarrow> 'p \<Rightarrow> bool"
    and cfg :: rollup_config
  assumes good_mono: "m \<le> n \<Longrightarrow> good m p \<Longrightarrow> good n p"
    and next_safe: "head_ok cfg parent \<Longrightarrow> m \<le> head_epoch parent \<Longrightarrow> good m p \<Longrightarrow>
      fst (qs_next S parent p) \<noteq> Panic \<and> good (head_epoch parent) (snd (qs_next S parent p))"
    and next_parent: "head_ok cfg parent \<Longrightarrow> m \<le> head_epoch parent \<Longrightarrow> good m p \<Longrightarrow>
      qs_next S parent p = (Ok a, p') \<Longrightarrow> aw_parent a = parent \<and> pa_no_tx_pool (aw_attributes a) = Some True"
    and advance_safe: "safe_action (good m) (qs_advance S)"
    and reset_safe: "safe_action (good m) (qs_reset S l1_origin system_config)"
    and reset_restarts: "good m p \<Longrightarrow> qs_reset S l1_origin system_config p = (Ok (), p') \<Longrightarrow> good 0 p'"
    and activate_safe: "safe_action (good m) (qs_activate S)"
    and flush_safe: "safe_action (good m) (qs_flush S)"

text \<open>A builder that never panics.\<close>

locale safe_builder =
  fixes AB :: "'ab attributes_builder" and bgood :: "'ab \<Rightarrow> bool"
  assumes prepare_safe: "safe_action bgood (ab_prepare AB parent epoch)"

definition aq_good :: "(nat \<Rightarrow> 'p \<Rightarrow> bool) \<Rightarrow> ('ab \<Rightarrow> bool) \<Rightarrow> nat \<Rightarrow> ('p, 'ab) attributes_queue \<Rightarrow> bool" where
  "aq_good good bgood m s \<longleftrightarrow> good m (aq_prev s) \<and> bgood (aq_builder s)"

locale attributes_stack = attributes_source A good cfg + safe_builder AB bgood
  for A :: "'p provider_ops" and good cfg and AB :: "'ab attributes_builder" and bgood
begin

lemma load_batch_ok:
  assumes "head_ok cfg parent" "m \<le> head_epoch parent" "aq_good good bgood m s"
  shows "fst (load_batch A parent s) \<noteq> Panic \<and> aq_good good bgood (head_epoch parent) (snd (load_batch A parent s))"
proof (cases "aq_batch s")
  case None
  obtain r p where run: "qs_next (po_stage A) parent (aq_prev s) = (r, p)"
    by fastforce
  have "r \<noteq> Panic" "good (head_epoch parent) p"
    using next_safe [OF assms(1,2), of "aq_prev s"] assms(3) run by (simp_all add: aq_good_def)
  then show ?thesis
    using None run assms(3) by (cases r) (auto simp: load_batch_def abind_def on_prev_def aq_good_def)
next
  case (Some b)
  then show ?thesis
    using assms good_mono by (auto simp: load_batch_def aq_good_def)
qed

lemma create_safe: "safe_action (aq_good good bgood m) (create_next_attributes AB b parent)"
proof -
  have "safe_action (aq_good good bgood m) (on_prev aq_builder aq_builder_update (ab_prepare AB parent (sb_epoch b)))"
    using prepare_safe by (auto simp: safe_action_def aq_good_def)
  then have "safe_action (aq_good good bgood m) (abind (on_prev aq_builder aq_builder_update (ab_prepare AB parent (sb_epoch b)))
      (\<lambda>a. areturn (Ok (append_txs (sb_transactions b) (a\<lparr>pa_no_tx_pool := Some True\<rparr>)))))"
    by (rule safe_abind) (simp add: safe_areturn)
  then show ?thesis
    by (auto simp: create_next_attributes_def [abs_def] safe_action_def)
qed

lemma finish_safe: "safe_action (aq_good good bgood m) (aq_finish A parent a)"
  by (auto simp: safe_action_def aq_finish_def aq_good_def split: option.split)

lemma next_attributes_ok:
  assumes "head_ok cfg parent" "m \<le> head_epoch parent" "aq_good good bgood m s"
  shows "fst (next_attributes AB A parent s) \<noteq> Panic
    \<and> aq_good good bgood (head_epoch parent) (snd (next_attributes AB A parent s))"
proof -
  obtain r s1 where run: "load_batch A parent s = (r, s1)"
    by fastforce
  have s1: "r \<noteq> Panic" "aq_good good bgood (head_epoch parent) s1"
    using load_batch_ok [OF assms] run by simp_all
  then show ?thesis
    using safe_actionD [OF safe_abind [OF create_safe finish_safe] s1(2)] run
    by (cases r) (auto simp: next_attributes_def abind_def [of "load_batch A parent"])
qed

lemma aq_on_prev:
  "safe_action (good m) act \<Longrightarrow> safe_action (aq_good good bgood m) (on_prev aq_prev aq_prev_update act)"
  by (auto simp: safe_action_def aq_good_def)

end

lemma next_attributes_result:
  assumes "next_attributes AB P parent s = (Ok a, s')"
  obtains b prepared s1 s2 origin where "load_batch P parent s = (Ok b, s1)" "sb_parent_hash b = bi_hash (l2_block parent)"
    "ab_prepare AB parent (sb_epoch b) (aq_builder s1) = (Ok prepared, s2)"
    "aw_attributes a = append_txs (sb_transactions b) (prepared\<lparr>pa_no_tx_pool := Some True\<rparr>)"
    "aw_parent a = parent" "aw_derived_from a = Some origin" "aq_origin P s1 = Some origin"
    "aw_is_last_in_span a = aq_is_last_in_span s1"
    "s' = s1\<lparr>aq_builder := s2, aq_batch := None, aq_is_last_in_span := False\<rparr>"
proof -
  obtain b s1 where load: "load_batch P parent s = (Ok b, s1)"
    using assms by (auto simp: next_attributes_def abind_def split: prod.splits outcome.splits)
  obtain prepared s2 where prep: "ab_prepare AB parent (sb_epoch b) (aq_builder s1) = (Ok prepared, s2)"
    and hash: "sb_parent_hash b = bi_hash (l2_block parent)"
    using assms load by (auto simp: next_attributes_def abind_def create_next_attributes_def on_prev_def
        split: prod.splits outcome.splits if_splits)
  show thesis
    using assms load prep hash that [OF load hash prep]
    by (auto simp: next_attributes_def abind_def create_next_attributes_def on_prev_def areturn_def aq_finish_def
        aq_origin_def split: option.splits)
qed

sublocale attributes_stack \<subseteq> aq: attributes_feed "attributes_queue_stage AB A" "aq_good good bgood" cfg
proof unfold_locales
  let ?S = "attributes_queue_stage AB A"
  fix parent m n a l1_origin system_config and p p' :: "('p, 'ab) attributes_queue"
  show "aq_good good bgood n p" if "m \<le> n" "aq_good good bgood m p"
    using that good_mono by (auto simp: aq_good_def)
  show "fst (qs_next ?S parent p) \<noteq> Panic \<and> aq_good good bgood (head_epoch parent) (snd (qs_next ?S parent p))"
    if "head_ok cfg parent" "m \<le> head_epoch parent" "aq_good good bgood m p"
    using next_attributes_ok [OF that] by simp
  show "aw_parent a = parent \<and> pa_no_tx_pool (aw_attributes a) = Some True" if "qs_next ?S parent p = (Ok a, p')"
    using that by (auto elim!: next_attributes_result simp: append_txs_def split: option.split)
  have clear: "safe_action (aq_good good bgood m) (aq_clear u)" for u
    by (simp add: aq_clear_def safe_action_def amodify_def aq_good_def)
  show "safe_action (aq_good good bgood m) (qs_advance ?S)" "safe_action (aq_good good bgood m) (qs_activate ?S)"
    "safe_action (aq_good good bgood m) (qs_reset ?S l1_origin system_config)"
    by (simp_all add: aq_advance_origin_def aq_activate_def aq_reset_def safe_abind aq_on_prev advance_safe activate_safe
        reset_safe clear)
  show "safe_action (aq_good good bgood m) (qs_flush ?S)"
    using flush_safe [of m] by (simp add: aq_flush_channel_def safe_action_def aq_good_def)
  show "aq_good good bgood 0 p'" if p: "aq_good good bgood m p"
    and res: "qs_reset ?S l1_origin system_config p = (Ok (), p')"
  proof -
    obtain p1 where "qs_reset (po_stage A) l1_origin system_config (aq_prev p) = (Ok (), p1)"
      and "p' = p\<lparr>aq_prev := p1, aq_batch := None, aq_is_last_in_span := False\<rparr>"
      using res by (auto simp: aq_reset_def abind_def on_prev_def aq_clear_def amodify_def
          split: prod.splits outcome.splits)
    then show ?thesis
      using reset_restarts p by (auto simp: aq_good_def)
  qed
qed

section \<open>Properties\<close>

text \<open>C32. A batch is not lost when its attributes cannot be built: when the batch was loaded and the call
  still fails, whatever the builder or the origin reported, the batch stays in the queue, and the next
  call, on any head, starts from it without asking the previous stage again.\<close>

theorem failed_build_keeps_batch:
  assumes "load_batch P parent s = (Ok b, s1)" "next_attributes AB P parent s = (Err e, s')"
  shows "aq_batch s' = Some b \<and> aq_prev s' = aq_prev s1 \<and> load_batch P parent' s' = (Ok b, s')"
proof -
  have "aq_batch s1 = Some b"
    using assms(1) by (auto simp: load_batch_def abind_def split: option.splits prod.splits outcome.splits)
  then have "aq_batch s' = Some b \<and> aq_prev s' = aq_prev s1"
    using assms
    by (auto simp: next_attributes_def abind_def create_next_attributes_def on_prev_def areturn_def aq_finish_def
        split: if_splits prod.splits outcome.splits option.splits)
  then show ?thesis
    by (simp add: load_batch_def)
qed

text \<open>A source that replays batches, and a builder that is out of service.\<close>

definition recorded_batches :: "(single_batch list \<times> block_info) provider_ops" where
  "recorded_batches = \<lparr>po_stage = \<lparr>qs_next = (\<lambda>_. replay_next), qs_origin = (\<lambda>s. Some (snd s)),
     qs_advance = areturn (Ok ()), qs_reset = (\<lambda>_ _. areturn (Ok ())), qs_activate = areturn (Ok ()),
     qs_flush = areturn (Ok ())\<rparr>, po_is_last_in_span = (\<lambda>s. fst s = [])\<rparr>"

definition no_builder :: "unit attributes_builder" where
  "no_builder = \<lparr>ab_prepare = (\<lambda>_ _. areturn (Err (Temporary (Provider []))))\<rparr>"

definition empty_batch :: single_batch where
  "empty_batch = \<lparr>sb_parent_hash = 0, sb_epoch_num = 0, sb_epoch_hash = 0, sb_timestamp = 2, sb_transactions = []\<rparr>"

theorem failed_build_keeps_batch_witness:
  "\<exists>s'. next_attributes no_builder recorded_batches genesis_head
        (attributes_queue_new span_config ([empty_batch], block_info_default) ()) = (Err (Temporary (Provider [])), s')
      \<and> load_batch recorded_batches genesis_head s' = (Ok empty_batch, s')"
proof -
  let ?s = "attributes_queue_new span_config ([empty_batch], block_info_default) ()"
  let ?s1 = "?s\<lparr>aq_prev := ([], block_info_default), aq_batch := Some empty_batch, aq_is_last_in_span := True\<rparr>"
  have load: "load_batch recorded_batches genesis_head ?s = (Ok empty_batch, ?s1)"
    by (simp add: load_batch_def attributes_queue_new_def abind_def on_prev_def recorded_batches_def)
  have run: "next_attributes no_builder recorded_batches genesis_head ?s = (Err (Temporary (Provider [])), ?s1)"
    using load by (simp add: next_attributes_def abind_def create_next_attributes_def on_prev_def no_builder_def
        areturn_def empty_batch_def genesis_head_def block_info_default_def attributes_queue_new_def)
  show ?thesis
    using failed_build_keeps_batch [OF load run, of genesis_head] run by blast
qed

end
