(* ===== verification/L1_Traversal.thy ===== *)
theory L1_Traversal
  imports Pipeline Config_Laws
begin

text \<open>
  The bottom of the derivation pipeline: the calls to an L1 chain provider (the trait of
  crates/consensus/derive/src/traits/providers.rs) and the traversal stage of
  stages/traversal/polling.rs that walks the L1 chain and keeps the system configuration up to
  date.  A provider is any state with fallible calls; an error of a provider is the
  \<open>pipeline_error_kind\<close> it converts into.
\<close>

section \<open>Providers\<close>

type_synonym ('c, 'a) call = "'c \<Rightarrow> (pipeline_error_kind + 'a) \<times> 'c"

definition await :: "('c, 'a) call \<Rightarrow> ('c, 'a) action" where
  "await f c = (case f c of (Inl e, c') \<Rightarrow> (Err e, c') | (Inr x, c') \<Rightarrow> (Ok x, c'))"

lemma await_no_panic [simp]: "fst (await f c) \<noteq> Panic"
  by (simp add: await_def split: prod.split sum.split)

lemma safe_await: "safe_action (\<lambda>_. True) (await f)"
  by (simp add: safe_action_def)

text \<open>The parts of an L1 transaction that derivation reads; \<open>'sig\<close> is everything else that the
  signature covers, and the signature.\<close>

record 'sig tx_body =
  tx_to :: "address option"
  tx_input :: bytes
  tx_rest :: 'sig

record 'sig tx_4844 =
  tx4_to :: address
  tx4_input :: bytes
  tx4_blob_versioned_hashes :: "b256 list"
  tx4_rest :: 'sig

datatype 'sig tx_eip4844_variant = TxEip4844 "'sig tx_4844" | TxEip4844WithSidecar "'sig tx_4844"

datatype 'sig tx_envelope =
    Legacy "'sig tx_body"
  | Eip2930 "'sig tx_body"
  | Eip1559 "'sig tx_body"
  | Eip4844 "'sig tx_eip4844_variant"
  | Eip7702 "'sig tx_body"

record ('c, 'sig) chain_provider =
  cp_block_info_by_number :: "u64 \<Rightarrow> ('c, block_info) call"
  cp_receipts_by_hash :: "b256 \<Rightarrow> ('c, receipt list) call"
  cp_block_info_and_transactions_by_hash ::
    "b256 \<Rightarrow> ('c, block_info \<times> 'sig tx_envelope list) call"

section \<open>The traversal stage\<close>

record 'c polling_traversal =
  pt_block :: "block_info option"
  pt_data_source :: 'c
  pt_done :: bool
  pt_system_config :: system_config
  pt_rollup_config :: rollup_config

definition system_config_default :: system_config where
  "system_config_default =
     \<lparr>sc_batcher_address = 0, sc_overhead = 0, sc_scalar = 0, sc_gas_limit = 0,
      sc_base_fee_scalar = None, sc_blob_base_fee_scalar = None, sc_eip1559_denominator = None,
      sc_eip1559_elasticity = None, sc_operator_fee_scalar = None, sc_operator_fee_constant = None,
      sc_min_base_fee = None, sc_da_footprint_gas_scalar = None\<rparr>"

definition polling_traversal_new :: "'c \<Rightarrow> rollup_config \<Rightarrow> 'c polling_traversal" where
  "polling_traversal_new data_source cfg =
     \<lparr>pt_block = Some block_info_default, pt_data_source = data_source, pt_done = False,
      pt_system_config = system_config_default, pt_rollup_config = cfg\<rparr>"

definition batcher_addr :: "'c polling_traversal \<Rightarrow> address" where
  "batcher_addr s = sc_batcher_address (pt_system_config s)"

definition next_l1_block :: "('c polling_traversal, block_info option) action" where
  "next_l1_block s =
     (if \<not> pt_done s then (Ok (pt_block s), s\<lparr>pt_done := True\<rparr>) else (Err (temp Eof), s))"

definition update_origin :: "block_info \<Rightarrow> 'c polling_traversal \<Rightarrow> 'c polling_traversal" where
  "update_origin block s = s\<lparr>pt_done := False, pt_block := Some block\<rparr>"

definition update_system_config_with_receipts ::
    "abi_codec \<Rightarrow> receipt list \<Rightarrow> address \<Rightarrow> bool \<Rightarrow> ('c polling_traversal, unit) action" where
  "update_system_config_with_receipts A receipts l1_system_config_address ecotone_active s =
     (case update_with_receipts A receipts l1_system_config_address ecotone_active (pt_system_config s) of
        Ok (_, cfg) \<Rightarrow> (Ok (), s\<lparr>pt_system_config := cfg\<rparr>)
      | _ \<Rightarrow> (Panic, s))"

definition on_source :: "('c, 'a) call \<Rightarrow> ('c polling_traversal, 'a) action" where
  "on_source f = on_prev pt_data_source pt_data_source_update (await f)"

definition pt_advance_origin ::
    "abi_codec \<Rightarrow> ('c, 'sig) chain_provider \<Rightarrow> ('c polling_traversal, unit) action" where
  "pt_advance_origin A C s =
     (case pt_block s of
        None \<Rightarrow> (Err (temp Eof), s)
      | Some block \<Rightarrow>
          abind (on_source (cp_block_info_by_number C (bi_number block + 1))) (\<lambda>next_l1_origin s.
          if bi_hash block \<noteq> bi_parent_hash next_l1_origin
          then (Err (Reset (ReorgDetected (bi_hash block) (bi_parent_hash next_l1_origin))), s)
          else
          abind (on_source (cp_receipts_by_hash C (bi_hash next_l1_origin))) (\<lambda>receipts s.
          let cfg = pt_rollup_config s in
          abind (update_system_config_with_receipts A receipts (rc_l1_system_config_address cfg)
                  (is_ecotone_active cfg (bi_timestamp next_l1_origin))) (\<lambda>_ s.
          let prev_block_holocene = is_holocene_active cfg (bi_timestamp block);
              next_block_holocene = is_holocene_active cfg (bi_timestamp next_l1_origin);
              s = update_origin next_l1_origin s
          in if \<not> prev_block_holocene \<and> next_block_holocene
             then (Err (Reset HoloceneActivation), s) else (Ok (), s)) s) s) s)"

definition pt_reset ::
    "('c, 'sig) chain_provider \<Rightarrow> block_num_hash \<Rightarrow> system_config \<Rightarrow> ('c polling_traversal, unit) action" where
  "pt_reset C l1_origin system_config =
     abind (on_source (cp_block_info_by_number C (nh_number l1_origin))) (\<lambda>block s.
     (Ok (), (update_origin block s)\<lparr>pt_system_config := system_config\<rparr>))"

definition pt_activate :: "('c polling_traversal, unit) action" where
  "pt_activate s = (Ok (), s)"

definition pt_flush_channel :: "('c polling_traversal, unit) action" where
  "pt_flush_channel s = (Ok (), s)"

definition polling_traversal_stage ::
    "abi_codec \<Rightarrow> ('c, 'sig) chain_provider \<Rightarrow> ('c polling_traversal, block_info option) stage" where
  "polling_traversal_stage A C =
     \<lparr>st_next = next_l1_block, st_origin = pt_block, st_advance = pt_advance_origin A C,
      st_reset = pt_reset C, st_activate = pt_activate, st_flush = pt_flush_channel\<rparr>"

lemma polling_traversal_stage_simps [simp]:
  "st_next (polling_traversal_stage A C) = next_l1_block"
  "st_origin (polling_traversal_stage A C) = pt_block"
  "st_advance (polling_traversal_stage A C) = pt_advance_origin A C"
  "st_reset (polling_traversal_stage A C) = pt_reset C"
  "st_activate (polling_traversal_stage A C) = pt_activate"
  "st_flush (polling_traversal_stage A C) = pt_flush_channel"
  by (simp_all add: polling_traversal_stage_def)

section \<open>The stage contract\<close>

locale block_source = pipeline_stage S good
  for S :: "('p, block_info option) stage" and good :: "'p \<Rightarrow> bool"

lemma update_config_ok:
  "update_system_config_with_receipts A receipts addr ecotone s =
     (Ok (), s\<lparr>pt_system_config := fold apply_update
        (applied_updates A ecotone (config_update_logs addr receipts)) (pt_system_config s)\<rparr>)"
  by (simp add: update_system_config_with_receipts_def update_with_receipts_def process_logs_exact)

lemma on_source_safe: "safe_action (\<lambda>_. True) (on_source f)"
  by (simp add: safe_action_def on_source_def)

lemma pt_advance_safe: "safe_action (\<lambda>_. True) (pt_advance_origin A C)"
proof -
  have "fst (pt_advance_origin A C s) \<noteq> Panic" for s
  proof (cases "pt_block s")
    case (Some block)
    show ?thesis
      unfolding pt_advance_origin_def Some option.case
      by (rule safe_actionD(1) [OF safe_abind [OF on_source_safe]])
         (auto simp: safe_action_def update_config_ok abind_def on_source_def on_prev_def await_def Let_def
            split: prod.split sum.split)
  qed (simp add: pt_advance_origin_def)
  then show ?thesis by (simp add: safe_action_def)
qed

interpretation traversal: block_source "polling_traversal_stage A C" "\<lambda>_. True"
  for A :: abi_codec and C :: "('c, 'sig) chain_provider"
proof unfold_locales
  show "safe_action (\<lambda>_. True) (st_next (polling_traversal_stage A C))"
    "keeps (\<lambda>_. True) (st_origin (polling_traversal_stage A C)) (st_next (polling_traversal_stage A C))"
    by (simp_all add: safe_action_def keeps_def next_l1_block_def)
  show "safe_action (\<lambda>_. True) (st_advance (polling_traversal_stage A C))"
    by (simp add: pt_advance_safe)
  show "safe_action (\<lambda>_. True) (st_reset (polling_traversal_stage A C) l1_origin cfg)" for l1_origin cfg
    unfolding polling_traversal_stage_simps pt_reset_def
    by (rule safe_abind [OF on_source_safe]) (simp add: safe_action_def)
  show "safe_action (\<lambda>_. True) (st_activate (polling_traversal_stage A C))"
    "safe_action (\<lambda>_. True) (st_flush (polling_traversal_stage A C))"
    "keeps (\<lambda>_. True) (st_origin (polling_traversal_stage A C)) (st_flush (polling_traversal_stage A C))"
    by (simp_all add: safe_action_def keeps_def pt_activate_def pt_flush_channel_def)
qed

section \<open>Properties\<close>

text \<open>What moving the origin from \<open>b\<close> to its successor \<open>b'\<close> does to the state.\<close>

definition moved :: "abi_codec \<Rightarrow> block_info \<Rightarrow> receipt list \<Rightarrow> 'c polling_traversal \<Rightarrow> 'c polling_traversal" where
  "moved A b' receipts s =
     (let cfg = pt_rollup_config s; ecotone = is_ecotone_active cfg (bi_timestamp b')
      in s\<lparr>pt_block := Some b', pt_done := False,
           pt_system_config := fold apply_update
             (applied_updates A ecotone (config_update_logs (rc_l1_system_config_address cfg) receipts))
             (pt_system_config s)\<rparr>)"

definition move_result :: "rollup_config \<Rightarrow> block_info \<Rightarrow> block_info \<Rightarrow> unit presult" where
  "move_result cfg b b' =
     (if \<not> is_holocene_active cfg (bi_timestamp b) \<and> is_holocene_active cfg (bi_timestamp b')
      then Err (Reset HoloceneActivation) else Ok ())"

lemma pt_advance_cases:
  assumes "pt_block s = Some b"
  shows "(\<exists>e c. pt_advance_origin A C s = (Err e, s\<lparr>pt_data_source := c\<rparr>))
    \<or> (\<exists>b' receipts c. bi_parent_hash b' = bi_hash b
        \<and> pt_advance_origin A C s
          = (move_result (pt_rollup_config s) b b', (moved A b' receipts s)\<lparr>pt_data_source := c\<rparr>))"
proof -
  note defs = pt_advance_origin_def abind_def on_source_def on_prev_def await_def
  obtain r c where num: "cp_block_info_by_number C (bi_number b + 1) (pt_data_source s) = (r, c)"
    by fastforce
  show ?thesis
  proof (cases r)
    case (Inr b')
    obtain r' c' where rec: "cp_receipts_by_hash C (bi_hash b') c = (r', c')"
      by fastforce
    show ?thesis
    proof (cases "bi_hash b = bi_parent_hash b'")
      case True
      show ?thesis
      proof (cases r')
        case (Inr receipts)
        have "pt_advance_origin A C s
            = (move_result (pt_rollup_config s) b b', (moved A b' receipts s)\<lparr>pt_data_source := c'\<rparr>)"
          using assms num rec \<open>r = Inr b'\<close> Inr True
          by (simp add: defs update_config_ok update_origin_def Let_def moved_def move_result_def)
        with True show ?thesis by auto
      qed (use assms num rec Inr True in \<open>auto simp: defs\<close>)
    qed (use assms num Inr in \<open>auto simp: defs\<close>)
  qed (use assms num in \<open>auto simp: defs\<close>)
qed

text \<open>The origins seen over \<open>n\<close> successive calls, whatever each of them returns.\<close>

primrec origins :: "abi_codec \<Rightarrow> ('c, 'sig) chain_provider \<Rightarrow> nat \<Rightarrow> 'c polling_traversal \<Rightarrow> block_info option list" where
  "origins A C 0 s = [pt_block s]"
| "origins A C (Suc n) s = pt_block s # origins A C n (snd (pt_advance_origin A C s))"

definition origin_step :: "block_info option \<Rightarrow> block_info option \<Rightarrow> bool" where
  "origin_step x y \<longleftrightarrow> y = x
     \<or> (\<exists>b b'. x = Some b \<and> y = Some b' \<and> bi_parent_hash b' = bi_hash b)"

lemma pt_advance_step: "origin_step (pt_block s) (pt_block (snd (pt_advance_origin A C s)))"
proof (cases "pt_block s")
  case (Some b)
  from pt_advance_cases [OF this, of A C] show ?thesis
    using Some by (auto simp: origin_step_def moved_def Let_def)
qed (simp add: pt_advance_origin_def origin_step_def)

lemma origins_head: "hd (origins A C n s) = pt_block s" "origins A C n s \<noteq> []"
  by (cases n; simp)+

lemma origins_linked: "successively origin_step (origins A C n s)"
proof (induction n arbitrary: s)
  case (Suc n)
  from Suc.IH [of "snd (pt_advance_origin A C s)"] pt_advance_step [of s A C] show ?case
    by (simp add: successively_Cons origins_head)
qed simp

text \<open>C21. The traversal stage follows one hash chain, a block at a time: whatever the provider answers, a
  call of \<open>advance_origin\<close> either fails and changes nothing but the state of the provider, or moves
  to a block whose parent hash is the hash of the current origin, applies exactly the well-formed
  configuration logs of that block and re-arms the stage (crossing the Holocene activation does all
  of this and then asks for a reset); so the origins seen over any number of calls form one chain.\<close>

theorem traversal_follows_chain:
  "(case pt_block s of
      None \<Rightarrow> pt_advance_origin A C s = (Err (Temporary Eof), s)
    | Some b \<Rightarrow>
        (\<exists>e c. pt_advance_origin A C s = (Err e, s\<lparr>pt_data_source := c\<rparr>))
        \<or> (\<exists>b' receipts c. bi_parent_hash b' = bi_hash b
            \<and> pt_advance_origin A C s
              = (move_result (pt_rollup_config s) b b', (moved A b' receipts s)\<lparr>pt_data_source := c\<rparr>)))
   \<and> successively origin_step (origins A C n s)"
  using pt_advance_cases [of s _ A C] origins_linked [of A C n s]
  by (cases "pt_block s") (simp_all add: pt_advance_origin_def)

end
