(* ===== verification/Blob_Codec.thy ===== *)
theory Blob_Codec
  imports Frames
begin

text \<open>
  The EIP-4844 blob codec: the encoder and the decoder of the batcher (crates/batcher/blobs) and
  the decoder of the derivation pipeline (crates/consensus/derive/src/sources/blob_data.rs).  A
  blob is a byte string of \<open>BYTES_PER_BLOB\<close> bytes; slices and indices are checked, so that an
  access out of range is the outcome \<open>Panic\<close>.
\<close>

section \<open>Constants, errors and array updates\<close>

definition BYTES_PER_BLOB :: nat where
  "BYTES_PER_BLOB = 131072"

definition VERSIONED_HASH_VERSION_KZG :: nat where
  "VERSIONED_HASH_VERSION_KZG = 1"

definition BLOB_ENCODING_VERSION :: u8 where
  "BLOB_ENCODING_VERSION = 0"

definition BLOB_ENCODING_ROUNDS :: nat where
  "BLOB_ENCODING_ROUNDS = 1024"

datatype blob_encode_error = BlobDataTooLarge nat

datatype blob_decode_error =
    DecInvalidFieldElement nat
  | DecInvalidEncodingVersion u8
  | DecInvalidLength nat
  | NonZeroPadding nat

datatype blob_decoding_error =
    InvalidFieldElement | InvalidEncodingVersion | InvalidLength | MissingData

text \<open>\<open>dst[a..b].copy_from_slice(src)\<close> and \<open>dst[i] = v\<close>.\<close>

definition copy_from_slice :: "'a list \<Rightarrow> nat \<Rightarrow> nat \<Rightarrow> 'a list \<Rightarrow> ('e, 'a list) outcome" where
  "copy_from_slice dst a b src =
     (if a \<le> b \<and> b \<le> length dst \<and> length src = b - a then Ok (take a dst @ src @ drop b dst) else Panic)"

definition set_at :: "'a list \<Rightarrow> nat \<Rightarrow> 'a \<Rightarrow> ('e, 'a list) outcome" where
  "set_at xs i v = (if i < length xs then Ok (xs[i := v]) else Panic)"

section \<open>Encoder\<close>

text \<open>The four high bytes that carry the three bytes \<open>x\<close>, \<open>y\<close>, \<open>z\<close> of a round.\<close>

definition enc_high :: "u8 \<Rightarrow> u8 \<Rightarrow> u8 \<Rightarrow> u8 \<times> u8 \<times> u8 \<times> u8" where
  "enc_high x y z =
     (x AND 0x3F,
      (push_bit 4 (drop_bit 6 x AND 0x03)) OR (y AND 0x0F),
      z AND 0x3F,
      (drop_bit 4 y AND 0x0F) OR (push_bit 4 (drop_bit 6 z AND 0x03)))"

definition write_high :: "bytes \<Rightarrow> nat \<Rightarrow> u8 \<Rightarrow> u8 \<Rightarrow> u8 \<Rightarrow> ('e, bytes) outcome" where
  "write_high out p x y z =
     (case enc_high x y z of (h0, h1, h2, h3) \<Rightarrow>
      obind (set_at out p h0) (\<lambda>out.
      obind (set_at out (p + 32) h1) (\<lambda>out.
      obind (set_at out (p + 64) h2) (\<lambda>out.
      set_at out (p + 96) h3))))"

definition encode_round_0 :: "bytes \<Rightarrow> nat \<Rightarrow> bytes \<Rightarrow> ('e, bytes \<times> nat) outcome" where
  "encode_round_0 input data_len out =
     (let len_be = u32_to_be_bytes (word_of_nat data_len) in
      obind (set_at out VERSIONED_HASH_VERSION_KZG BLOB_ENCODING_VERSION) (\<lambda>out.
      obind (set_at out 2 (len_be ! 1)) (\<lambda>out.
      obind (set_at out 3 (len_be ! 2)) (\<lambda>out.
      obind (set_at out 4 (len_be ! 3)) (\<lambda>out.
      obind (slice input 0 27) (\<lambda>p0.
      obind (copy_from_slice out 5 32 p0) (\<lambda>out.
      let ipos = 27 in
      obind (index input ipos) (\<lambda>x.
      let ipos = ipos + 1 in
      obind (slice input ipos (ipos + 31)) (\<lambda>p1.
      obind (copy_from_slice out 33 64 p1) (\<lambda>out.
      let ipos = ipos + 31 in
      obind (index input ipos) (\<lambda>y.
      let ipos = ipos + 1 in
      obind (slice input ipos (ipos + 31)) (\<lambda>p2.
      obind (copy_from_slice out 65 96 p2) (\<lambda>out.
      let ipos = ipos + 31 in
      obind (index input ipos) (\<lambda>z.
      let ipos = ipos + 1 in
      obind (slice input ipos (ipos + 31)) (\<lambda>p3.
      obind (copy_from_slice out 97 128 p3) (\<lambda>out.
      let ipos = ipos + 31 in
      obind (write_high out 0 x y z) (\<lambda>out. Ok (out, ipos))))))))))))))))))"

definition encode_round :: "bytes \<Rightarrow> bytes \<Rightarrow> nat \<Rightarrow> nat \<Rightarrow> ('e, bytes \<times> nat \<times> nat) outcome" where
  "encode_round input out ipos blob_pos =
     obind (slice input ipos (ipos + 31)) (\<lambda>p0.
     obind (copy_from_slice out (blob_pos + 1) (blob_pos + 32) p0) (\<lambda>out.
     let ipos = ipos + 31 in
     obind (index input ipos) (\<lambda>x.
     let ipos = ipos + 1 in
     obind (slice input ipos (ipos + 31)) (\<lambda>p1.
     obind (copy_from_slice out (blob_pos + 33) (blob_pos + 64) p1) (\<lambda>out.
     let ipos = ipos + 31 in
     obind (index input ipos) (\<lambda>y.
     let ipos = ipos + 1 in
     obind (slice input ipos (ipos + 31)) (\<lambda>p2.
     obind (copy_from_slice out (blob_pos + 65) (blob_pos + 96) p2) (\<lambda>out.
     let ipos = ipos + 31 in
     obind (index input ipos) (\<lambda>z.
     let ipos = ipos + 1 in
     obind (slice input ipos (ipos + 31)) (\<lambda>p3.
     obind (copy_from_slice out (blob_pos + 97) (blob_pos + 128) p3) (\<lambda>out.
     let ipos = ipos + 31 in
     obind (write_high out blob_pos x y z) (\<lambda>out.
     Ok (out, ipos, blob_pos + 128)))))))))))))"

primrec encode_rounds :: "nat \<Rightarrow> nat \<Rightarrow> bytes \<Rightarrow> bytes \<Rightarrow> nat \<Rightarrow> nat \<Rightarrow> ('e, bytes) outcome" where
  "encode_rounds 0 data_len input out ipos blob_pos = Ok out"
| "encode_rounds (Suc n) data_len input out ipos blob_pos =
     (if data_len \<le> ipos then Ok out
      else obind (encode_round input out ipos blob_pos) (\<lambda>(out, ipos, blob_pos).
           encode_rounds n data_len input out ipos blob_pos))"

definition blob_encode :: "bytes \<Rightarrow> (blob_encode_error, bytes) outcome" where
  "blob_encode data =
     (if BLOB_MAX_DATA_SIZE < length data then Err (BlobDataTooLarge (length data))
      else obind (copy_from_slice (replicate BLOB_MAX_DATA_SIZE 0) 0 (length data) data) (\<lambda>input.
           obind (encode_round_0 input (length data) (replicate BYTES_PER_BLOB 0)) (\<lambda>(out, ipos).
           encode_rounds (BLOB_ENCODING_ROUNDS - 1) (length data) input out ipos 128)))"

definition encode_packed :: "frame list \<Rightarrow> (blob_encode_error, bytes) outcome" where
  "encode_packed frames = blob_encode (DERIVATION_VERSION_0 # concat (map encode frames))"

section \<open>Decoder of the batcher\<close>

definition reassemble_bytes :: "nat \<Rightarrow> u8 list \<Rightarrow> bytes \<Rightarrow> ('e, nat \<times> bytes) outcome" where
  "reassemble_bytes output_pos encoded_byte output =
     (if output_pos < 1 + 32 * 3 then Panic
      else let output_pos = output_pos - 1 in
       obind (index encoded_byte 0) (\<lambda>e0.
       obind (index encoded_byte 1) (\<lambda>e1.
       obind (index encoded_byte 2) (\<lambda>e2.
       obind (index encoded_byte 3) (\<lambda>e3.
       let x = (e0 AND 0x3F) OR push_bit 2 (e1 AND 0x30);
           y = (e1 AND 0x0F) OR push_bit 4 (e3 AND 0x0F);
           z = (e2 AND 0x3F) OR push_bit 2 (e3 AND 0x30)
       in obind (set_at output (output_pos - 32) z) (\<lambda>output.
          obind (set_at output (output_pos - 32 * 2) y) (\<lambda>output.
          obind (set_at output (output_pos - 32 * 3) x) (\<lambda>output.
          Ok (output_pos, output)))))))))"

definition decode_field_element ::
    "bytes \<Rightarrow> nat \<Rightarrow> nat \<Rightarrow> bytes \<Rightarrow> (blob_decode_error, u8 \<times> nat \<times> nat \<times> bytes) outcome" where
  "decode_field_element data output_pos input_pos output =
     obind (index data input_pos) (\<lambda>b.
     if b AND 0xC0 \<noteq> 0 then Err (DecInvalidFieldElement input_pos)
     else obind (slice data (input_pos + 1) (input_pos + 32)) (\<lambda>src.
          obind (copy_from_slice output output_pos (output_pos + 31) src) (\<lambda>output.
          Ok (b, output_pos + 32, input_pos + 32, output))))"

primrec decode_field_elements ::
    "nat \<Rightarrow> bytes \<Rightarrow> nat \<Rightarrow> nat \<Rightarrow> bytes \<Rightarrow> (blob_decode_error, u8 list \<times> nat \<times> nat \<times> bytes) outcome" where
  "decode_field_elements 0 data output_pos input_pos output = Ok ([], output_pos, input_pos, output)"
| "decode_field_elements (Suc n) data output_pos input_pos output =
     obind (decode_field_element data output_pos input_pos output) (\<lambda>(b, output_pos, input_pos, output).
     obind (decode_field_elements n data output_pos input_pos output) (\<lambda>(bs, output_pos, input_pos, output).
     Ok (b # bs, output_pos, input_pos, output)))"

primrec decode_rounds ::
    "nat \<Rightarrow> bytes \<Rightarrow> nat \<Rightarrow> nat \<Rightarrow> nat \<Rightarrow> bytes \<Rightarrow> (blob_decode_error, nat \<times> bytes) outcome" where
  "decode_rounds 0 data len output_pos input_pos output = Ok (input_pos, output)"
| "decode_rounds (Suc n) data len output_pos input_pos output =
     (if len \<le> output_pos then Ok (input_pos, output)
      else obind (decode_field_elements 4 data output_pos input_pos output)
             (\<lambda>(encoded_byte, output_pos, input_pos, output).
           obind (reassemble_bytes output_pos encoded_byte output) (\<lambda>(output_pos, output).
           decode_rounds n data len output_pos input_pos output)))"

text \<open>The first offset from \<open>i\<close> on that holds a non-zero byte.\<close>

fun first_nonzero :: "nat \<Rightarrow> bytes \<Rightarrow> nat option" where
  "first_nonzero i [] = None"
| "first_nonzero i (b # bs) = (if b \<noteq> 0 then Some i else first_nonzero (i + 1) bs)"

definition blob_decode :: "bytes \<Rightarrow> (blob_decode_error, bytes) outcome" where
  "blob_decode data =
     obind (index data VERSIONED_HASH_VERSION_KZG) (\<lambda>version.
     if version \<noteq> 0 then Err (DecInvalidEncodingVersion version)
     else
     obind (index data 2) (\<lambda>l1. obind (index data 3) (\<lambda>l2. obind (index data 4) (\<lambda>l3.
     let len = unat (u32_from_be_bytes [0, l1, l2, l3]) in
     if BLOB_MAX_DATA_SIZE < len then Err (DecInvalidLength len)
     else
     let output = replicate BLOB_MAX_DATA_SIZE 0 in
     obind (slice data 5 32) (\<lambda>src.
     obind (copy_from_slice output 0 27 src) (\<lambda>output.
     obind (index data 0) (\<lambda>e0.
     obind (decode_field_elements 3 data 28 32 output) (\<lambda>(es, output_pos, input_pos, output).
     obind (reassemble_bytes output_pos (e0 # es) output) (\<lambda>(output_pos, output).
     obind (decode_rounds (BLOB_ENCODING_ROUNDS - 1) data len output_pos input_pos output)
       (\<lambda>(input_pos, output).
     case first_nonzero len (drop len output) of
       Some i \<Rightarrow> Err (NonZeroPadding i)
     | None \<Rightarrow>
       (case first_nonzero input_pos (drop input_pos data) of
          Some i \<Rightarrow> Err (NonZeroPadding i)
        | None \<Rightarrow> Ok (take len output))))))))))))"

section \<open>Decoder of the derivation pipeline\<close>

record blob_data =
  bd_data :: "bytes option"
  bd_calldata :: "bytes option"

definition bd_decode_field_element ::
    "blob_data \<Rightarrow> nat \<Rightarrow> nat \<Rightarrow> bytes \<Rightarrow> (blob_decoding_error, u8 \<times> nat \<times> nat \<times> bytes) outcome" where
  "bd_decode_field_element s output_pos input_pos output =
     obind (ok_or MissingData (bd_data s)) (\<lambda>data.
     obind (index data input_pos) (\<lambda>b.
     if b AND 0xC0 \<noteq> 0 then Err InvalidFieldElement
     else obind (slice data (input_pos + 1) (input_pos + 32)) (\<lambda>src.
          obind (copy_from_slice output output_pos (output_pos + 31) src) (\<lambda>output.
          Ok (b, output_pos + 32, input_pos + 32, output)))))"

definition bd_reassemble_bytes :: "nat \<Rightarrow> u8 list \<Rightarrow> bytes \<Rightarrow> ('e, nat \<times> bytes) outcome" where
  "bd_reassemble_bytes output_pos encoded_byte output =
     (if output_pos < 1 + 32 * 3 then Panic
      else let output_pos = output_pos - 1 in
       obind (index encoded_byte 0) (\<lambda>e0.
       obind (index encoded_byte 1) (\<lambda>e1.
       obind (index encoded_byte 2) (\<lambda>e2.
       obind (index encoded_byte 3) (\<lambda>e3.
       let x = (e0 AND 0x3F) OR push_bit 2 (e1 AND 0x30);
           y = (e1 AND 0x0F) OR push_bit 4 (e3 AND 0x0F);
           z = (e2 AND 0x3F) OR push_bit 2 (e3 AND 0x30)
       in obind (set_at output (output_pos - 32) z) (\<lambda>output.
          obind (set_at output (output_pos - 32 * 2) y) (\<lambda>output.
          obind (set_at output (output_pos - 32 * 3) x) (\<lambda>output.
          Ok (output_pos, output)))))))))"

primrec bd_decode_field_elements ::
    "nat \<Rightarrow> blob_data \<Rightarrow> nat \<Rightarrow> nat \<Rightarrow> bytes \<Rightarrow> (blob_decoding_error, u8 list \<times> nat \<times> nat \<times> bytes) outcome" where
  "bd_decode_field_elements 0 s output_pos input_pos output = Ok ([], output_pos, input_pos, output)"
| "bd_decode_field_elements (Suc n) s output_pos input_pos output =
     obind (bd_decode_field_element s output_pos input_pos output) (\<lambda>(b, output_pos, input_pos, output).
     obind (bd_decode_field_elements n s output_pos input_pos output) (\<lambda>(bs, output_pos, input_pos, output).
     Ok (b # bs, output_pos, input_pos, output)))"

primrec bd_decode_rounds ::
    "nat \<Rightarrow> blob_data \<Rightarrow> nat \<Rightarrow> nat \<Rightarrow> nat \<Rightarrow> bytes \<Rightarrow> (blob_decoding_error, nat \<times> bytes) outcome" where
  "bd_decode_rounds 0 s len output_pos input_pos output = Ok (input_pos, output)"
| "bd_decode_rounds (Suc n) s len output_pos input_pos output =
     (if len \<le> output_pos then Ok (input_pos, output)
      else obind (bd_decode_field_elements 4 s output_pos input_pos output)
             (\<lambda>(encoded_byte, output_pos, input_pos, output).
           obind (bd_reassemble_bytes output_pos encoded_byte output) (\<lambda>(output_pos, output).
           bd_decode_rounds n s len output_pos input_pos output)))"

text \<open>The scan of \<open>data[i]\<close> for \<open>i\<close> in \<open>input_pos..BYTES_PER_BLOB\<close>, on \<open>n\<close> remaining indices.\<close>

primrec all_zero_from :: "nat \<Rightarrow> bytes \<Rightarrow> nat \<Rightarrow> (blob_decoding_error, unit) outcome" where
  "all_zero_from 0 data i = Ok ()"
| "all_zero_from (Suc n) data i =
     obind (index data i) (\<lambda>b. if b \<noteq> 0 then Err InvalidFieldElement else all_zero_from n data (i + 1))"

definition bd_decode :: "blob_data \<Rightarrow> (blob_decoding_error, bytes) outcome" where
  "bd_decode s =
     obind (ok_or MissingData (bd_data s)) (\<lambda>data.
     obind (index data VERSIONED_HASH_VERSION_KZG) (\<lambda>version.
     if version \<noteq> BLOB_ENCODING_VERSION then Err InvalidEncodingVersion
     else
     obind (index data 2) (\<lambda>l1. obind (index data 3) (\<lambda>l2. obind (index data 4) (\<lambda>l3.
     let len = unat (u32_from_be_bytes [0, l1, l2, l3]) in
     if BLOB_MAX_DATA_SIZE < len then Err InvalidLength
     else
     let output = replicate BLOB_MAX_DATA_SIZE 0 in
     obind (slice data 5 32) (\<lambda>src.
     obind (copy_from_slice output 0 27 src) (\<lambda>output.
     obind (index data 0) (\<lambda>e0.
     obind (bd_decode_field_elements 3 s 28 32 output) (\<lambda>(es, output_pos, input_pos, output).
     obind (bd_reassemble_bytes output_pos (e0 # es) output) (\<lambda>(output_pos, output).
     obind (bd_decode_rounds (BLOB_ENCODING_ROUNDS - 1) s len output_pos input_pos output)
       (\<lambda>(input_pos, output).
     if \<exists>b \<in> set (drop len output). b \<noteq> 0 then Err InvalidFieldElement
     else obind (all_zero_from (BYTES_PER_BLOB - input_pos) data input_pos) (\<lambda>_.
          Ok (take len output)))))))))))))"

section \<open>Groups of four field elements\<close>

definition pack :: "bytes \<Rightarrow> bytes" where
  "pack c = (case enc_high (c ! 31) (c ! 63) (c ! 95) of (h0, h1, h2, h3) \<Rightarrow>
     h0 # take 31 c @ h1 # take 31 (drop 32 c) @ h2 # take 31 (drop 64 c) @ h3 # take 31 (drop 96 c))"

lemma length_pack: "length c = 127 \<Longrightarrow> length (pack c) = 128"
  by (simp add: pack_def enc_high_def)

lemma split_31: "length l = 32 + n \<Longrightarrow> \<exists>a x r. l = a @ x # r \<and> length a = 31 \<and> length r = n"
  by (rule exI [of _ "take 31 l"], rule exI [of _ "l ! 31"], rule exI [of _ "drop 32 l"])
     (use id_take_nth_drop [of 31 l] in simp)

lemma split_chunk:
  assumes "length c = 127"
  obtains c0 x c1 y c2 z c3 where "c = c0 @ x # c1 @ y # c2 @ z # c3"
    "length c0 = 31" "length c1 = 31" "length c2 = 31" "length c3 = 31"
proof -
  obtain c0 x r where 0: "c = c0 @ x # r" "length c0 = 31" "length r = 95"
    using split_31 [of c 95] assms by auto
  obtain c1 y r' where 1: "r = c1 @ y # r'" "length c1 = 31" "length r' = 63"
    using split_31 [of r 63] 0 by auto
  obtain c2 z c3 where 2: "r' = c2 @ z # c3" "length c2 = 31" "length c3 = 31"
    using split_31 [of r' 31] 1 by auto
  show thesis
    using that [of c0 x c1 y c2 z c3] 0 1 2 by simp
qed

lemma pack_parts:
  assumes "length c0 = 31" "length c1 = 31" "length c2 = 31" "length c3 = 31"
    and "enc_high x y z = (h0, h1, h2, h3)"
  shows "pack (c0 @ x # c1 @ y # c2 @ z # c3) = h0 # c0 @ h1 # c1 @ h2 # c2 @ h3 # c3"
  using assms by (simp add: pack_def nth_append)

lemma encode_round_pack:
  assumes "length c = 127" "length w = 128"
  shows "encode_round (a @ c @ b) (out @ w @ r) (length a) (length out)
    = Ok (out @ pack c @ r, length a + 127, length out + 128)"
proof -
  obtain c0 x c1 y c2 z c3 where c: "c = c0 @ x # c1 @ y # c2 @ z # c3"
    and lc: "length c0 = 31" "length c1 = 31" "length c2 = 31" "length c3 = 31"
    by (rule split_chunk [OF assms(1)])
  obtain w0 w' where w0: "w = w0 # w'" "length w' = 127"
    using assms(2) by (cases w) auto
  obtain v0 w1 v1 w2 v2 w3 v3 where w: "w' = v0 @ w1 # v1 @ w2 # v2 @ w3 # v3"
    and lw: "length v0 = 31" "length v1 = 31" "length v2 = 31" "length v3 = 31"
    by (rule split_chunk [OF w0(2)])
  obtain h0 h1 h2 h3 where h: "enc_high x y z = (h0, h1, h2, h3)"
    by (metis prod_cases4)
  show ?thesis
    by (simp add: encode_round_def c w0 w lc lw pack_parts h Let_def slice_def index_def copy_from_slice_def
        nth_append write_high_def set_at_def list_update_append)
qed

lemma u8_eqI:
  assumes "\<And>n. n \<in> {0, 1, 2, 3, 4, 5, 6, 7} \<Longrightarrow> bit (a :: u8) n = bit b n"
  shows "a = b"
proof (rule bit_word_eqI)
  fix n :: nat
  assume "n < LENGTH(8)"
  then have "n \<in> {0, 1, 2, 3, 4, 5, 6, 7}"
    by auto
  then show "bit a n = bit b n"
    by (rule assms)
qed

lemma high_bytes:
  assumes "enc_high x y z = (h0, h1, h2, h3)"
  shows "(h0 AND 0x3F) OR push_bit 2 (h1 AND 0x30) = x"
    "(h1 AND 0x0F) OR push_bit 4 (h3 AND 0x0F) = y"
    "(h2 AND 0x3F) OR push_bit 2 (h3 AND 0x30) = z"
    "h0 AND 0xC0 = 0" "h1 AND 0xC0 = 0" "h2 AND 0xC0 = 0" "h3 AND 0xC0 = 0"
proof -
  have h: "h0 = x AND 0x3F" "h1 = push_bit 4 (drop_bit 6 x AND 0x03) OR (y AND 0x0F)"
      "h2 = z AND 0x3F" "h3 = (drop_bit 4 y AND 0x0F) OR push_bit 4 (drop_bit 6 z AND 0x03)"
    using assms by (simp_all add: enc_high_def)
  show "(h0 AND 0x3F) OR push_bit 2 (h1 AND 0x30) = x"
    unfolding h by (rule u8_eqI) (auto simp: bit_simps)
  show "(h1 AND 0x0F) OR push_bit 4 (h3 AND 0x0F) = y"
    unfolding h by (rule u8_eqI) (auto simp: bit_simps)
  show "(h2 AND 0x3F) OR push_bit 2 (h3 AND 0x30) = z"
    unfolding h by (rule u8_eqI) (auto simp: bit_simps)
  show "h0 AND 0xC0 = 0" "h2 AND 0xC0 = 0"
    unfolding h by (rule u8_eqI, auto simp: bit_simps)+
  show "h1 AND 0xC0 = 0" "h3 AND 0xC0 = 0"
    unfolding h by (rule u8_eqI, auto simp: bit_simps)+
qed

lemma decode_element:
  assumes "h AND 0xC0 = 0" "length p = 31" "length v = 31" "ipos = length a" "opos = length out"
  shows "decode_field_element (a @ h # p @ b) opos ipos (out @ v @ r)
    = Ok (h, opos + 32, ipos + 32, out @ p @ r)"
  using assms
  by (simp add: decode_field_element_def slice_def index_def copy_from_slice_def nth_append)

text \<open>Three field elements, the common part of the first and of the later rounds.\<close>

lemma decode_three:
  assumes h: "h1 AND 0xC0 = 0" "h2 AND 0xC0 = 0" "h3 AND 0xC0 = 0"
    and lc: "length c1 = 31" "length c2 = 31" "length c3 = 31"
    and lv: "length v1 = 31" "length v2 = 31" "length v3 = 31"
    and pos: "ipos = length a" "opos = length out"
  shows "decode_field_elements 3 (a @ h1 # c1 @ h2 # c2 @ h3 # c3 @ b) opos ipos
      (out @ v1 @ w2 # v2 @ w3 # v3 @ r)
    = Ok ([h1, h2, h3], opos + 96, ipos + 96, out @ c1 @ w2 # c2 @ w3 # c3 @ r)"
proof -
  note e1 = decode_element [OF h(1) lc(1) lv(1) pos, of "h2 # c2 @ h3 # c3 @ b" "w2 # v2 @ w3 # v3 @ r"]
  note e2 = decode_element [OF h(2) lc(2) lv(2), of "ipos + 32" "a @ h1 # c1" "opos + 32" "out @ c1 @ [w2]"
      "h3 # c3 @ b" "w3 # v3 @ r"]
  note e3 = decode_element [OF h(3) lc(3) lv(3), of "ipos + 32 + 32" "a @ h1 # c1 @ h2 # c2" "opos + 32 + 32"
      "out @ c1 @ w2 # c2 @ [w3]" b r]
  show ?thesis
    using e1 e2 e3 by (simp add: numeral_3_eq_3 pos lc)
qed

lemma decode_four:
  "decode_field_elements 4 data opos ipos output =
     obind (decode_field_element data opos ipos output) (\<lambda>(b, opos, ipos, output).
     obind (decode_field_elements 3 data opos ipos output) (\<lambda>(bs, opos, ipos, output).
     Ok (b # bs, opos, ipos, output)))"
  using decode_field_elements.simps(2) [of 3] by simp

lemma reassemble_parts:
  assumes lc: "length c1 = 31" "length c2 = 31" "length c3 = 31"
    and h: "enc_high x y z = (h0, h1, h2, h3)"
    and pos: "opos = length out + 97"
  shows "reassemble_bytes opos [h0, h1, h2, h3] (out @ w1 # c1 @ w2 # c2 @ w3 # c3 @ r)
    = Ok (length out + 96, out @ x # c1 @ y # c2 @ z # c3 @ r)"
  using lc high_bytes [OF h]
  by (simp add: reassemble_bytes_def pos index_def set_at_def list_update_append)

lemma decode_round_unpack:
  assumes "length c = 127" "length w = 127"
  shows "obind (decode_field_elements 4 (a @ pack c @ b) (length out) (length a) (out @ w @ r))
      (\<lambda>(es, output_pos, input_pos, output).
       obind (reassemble_bytes output_pos es output) (\<lambda>(output_pos, output). f output_pos input_pos output))
    = f (length out + 127) (length a + 128) (out @ c @ r)"
proof -
  obtain c0 x c1 y c2 z c3 where c: "c = c0 @ x # c1 @ y # c2 @ z # c3"
    and lc: "length c0 = 31" "length c1 = 31" "length c2 = 31" "length c3 = 31"
    by (rule split_chunk [OF assms(1)])
  obtain v0 w1 v1 w2 v2 w3 v3 where w: "w = v0 @ w1 # v1 @ w2 # v2 @ w3 # v3"
    and lw: "length v0 = 31" "length v1 = 31" "length v2 = 31" "length v3 = 31"
    by (rule split_chunk [OF assms(2)])
  obtain h0 h1 h2 h3 where h: "enc_high x y z = (h0, h1, h2, h3)"
    by (metis prod_cases4)
  note h' = high_bytes [OF h]
  note e0 = decode_element [OF h'(4) lc(1) lw(1) refl refl,
      of a "h1 # c1 @ h2 # c2 @ h3 # c3 @ b" out "w1 # v1 @ w2 # v2 @ w3 # v3 @ r"]
  note es = decode_three [OF h'(5) h'(6) h'(7) lc(2-4) lw(2-4), of "length a + 32" "a @ h0 # c0" "length out + 32"
      "out @ c0 @ [w1]" b w2 w3 r]
  have "decode_field_elements 4 (a @ pack c @ b) (length out) (length a) (out @ w @ r)
    = Ok ([h0, h1, h2, h3], length out + 128, length a + 128, out @ c0 @ w1 # c1 @ w2 # c2 @ w3 # c3 @ r)"
    using e0 es by (simp add: decode_four c w pack_parts [OF lc h] lc add.commute)
  then show ?thesis
    using reassemble_parts [OF lc(2-4) h, of "length out + 128" "out @ c0" w1 w2 w3 r,
        where ?'a = blob_decode_error] lc(1) by (simp add: c add.commute)
qed

section \<open>Whole blobs\<close>

primrec packs :: "nat \<Rightarrow> bytes \<Rightarrow> bytes" where
  "packs 0 cs = []"
| "packs (Suc n) cs = pack (take 127 cs) @ packs n (drop 127 cs)"

lemma length_packs: "length cs = 127 * n \<Longrightarrow> length (packs n cs) = 128 * n"
  by (induction n arbitrary: cs) (simp_all add: length_pack)

lemma pack_zero: "pack (replicate 127 0) = replicate 128 0"
proof -
  have "enc_high 0 0 0 = (0, 0, 0, 0)"
    by (simp add: enc_high_def)
  then have "pack (replicate 127 0) =
      0 # replicate 31 0 @ 0 # replicate 31 0 @ 0 # replicate 31 0 @ 0 # replicate 31 (0 :: u8)"
    by (simp add: pack_def)
  also have "\<dots> = replicate 128 0"
    by (simp add: replicate_app_Cons_same replicate_add [symmetric] flip: replicate_Suc)
  finally show ?thesis .
qed

lemma packs_zero: "packs n (replicate (127 * n) 0) = replicate (128 * n) 0"
proof (induction n)
  case (Suc n)
  have "packs (Suc n) (replicate (127 * Suc n) 0) = replicate 128 0 @ packs n (replicate (127 * n) 0)"
    by (simp add: pack_zero)
  then show ?case
    by (simp add: Suc.IH replicate_add)
qed simp

definition zero_from :: "nat \<Rightarrow> bytes \<Rightarrow> bool" where
  "zero_from k cs \<longleftrightarrow> (\<forall>i < length cs. k \<le> i \<longrightarrow> cs ! i = 0)"

lemma zero_from_all: "zero_from 0 cs \<Longrightarrow> cs = replicate (length cs) 0"
  by (auto simp: zero_from_def list_eq_iff_nth_eq)

lemma zero_from_drop: "zero_from k cs \<Longrightarrow> zero_from (k - n) (drop n cs)"
  by (auto simp: zero_from_def)

lemma first_nonzero_None: "first_nonzero i bs = None \<longleftrightarrow> (\<forall>b \<in> set bs. b = 0)"
  by (induction i bs rule: first_nonzero.induct) auto

lemma split_round:
  assumes "length cs = 127 * Suc n"
  obtains c cs' where "cs = c @ cs'" "length c = 127" "length cs' = 127 * n"
    "take 127 cs = c" "drop 127 cs = cs'"
  using assms that [of "take 127 cs" "drop 127 cs"] by simp

lemma encode_rounds_packs:
  assumes "length cs = 127 * n" and "zero_from (len - length a) cs"
  shows "encode_rounds n len (a @ cs) (out @ replicate (128 * n) 0) (length a) (length out)
    = Ok (out @ packs n cs)"
  using assms
proof (induction n arbitrary: a cs out)
  case (Suc n)
  obtain c cs' where cs: "cs = c @ cs'" "length c = 127" "length cs' = 127 * n"
      "take 127 cs = c" "drop 127 cs = cs'"
    by (rule split_round [OF Suc.prems(1)])
  show ?case
  proof (cases "len \<le> length a")
    case True
    then have "cs = replicate (127 * Suc n) 0"
      using Suc.prems zero_from_all [of cs] by simp
    then show ?thesis
      using True packs_zero [of "Suc n"] by simp
  next
    case False
    have "zero_from (len - length (a @ c)) cs'"
      using zero_from_drop [OF Suc.prems(2), of 127] cs by (simp add: diff_diff_left)
    from Suc.IH [OF cs(3) this, of "out @ pack c"] show ?thesis
      using False by (simp add: replicate_add cs encode_round_pack length_pack)
  qed
qed simp

lemma decode_rounds_packs:
  assumes "length cs = 127 * n" and "zero_from (len - length out) cs"
  shows "\<exists>ip. decode_rounds n (a @ packs n cs) len (length out) (length a) (out @ replicate (127 * n) 0)
      = Ok (ip, out @ cs) \<and> (\<forall>b \<in> set (drop ip (a @ packs n cs)). b = 0)"
  using assms
proof (induction n arbitrary: a cs out)
  case (Suc n)
  obtain c cs' where cs: "cs = c @ cs'" "length c = 127" "length cs' = 127 * n"
      "take 127 cs = c" "drop 127 cs = cs'"
    by (rule split_round [OF Suc.prems(1)])
  show ?case
  proof (cases "len \<le> length out")
    case True
    then have "cs = replicate (127 * Suc n) 0"
      using Suc.prems zero_from_all [of cs] by simp
    then show ?thesis
      using True packs_zero [of "Suc n"] by simp
  next
    case False
    have "zero_from (len - length (out @ c)) cs'"
      using zero_from_drop [OF Suc.prems(2), of 127] cs by (simp add: diff_diff_left)
    from Suc.IH [OF cs(3) this, of "a @ pack c"] show ?thesis
      using False by (simp add: replicate_add cs decode_round_unpack length_pack)
  qed
qed simp

lemma split_head: "length v = 4 + n \<Longrightarrow> \<exists>a b c d v'. v = a # b # c # d # v' \<and> length v' = n"
  by (auto simp: length_Suc_conv numeral_eq_Suc)

lemma split_first_chunk:
  assumes "length d = 123"
  obtains d0 x c1 y c2 z c3 where "d = d0 @ x # c1 @ y # c2 @ z # c3"
    "length d0 = 27" "length c1 = 31" "length c2 = 31" "length c3 = 31"
    "\<And>p h0 h1 h2 h3. length p = 4 \<Longrightarrow> enc_high x y z = (h0, h1, h2, h3) \<Longrightarrow>
       pack (p @ d) = h0 # p @ d0 @ h1 # c1 @ h2 # c2 @ h3 # c3"
proof -
  have "length (replicate 4 0 @ d) = 127"
    using assms by simp
  from split_chunk [OF this] obtain c0 x c1 y c2 z c3
    where c: "replicate 4 0 @ d = c0 @ x # c1 @ y # c2 @ z # c3"
      and l: "length c0 = 31" "length c1 = 31" "length c2 = 31" "length c3 = 31"
    by metis
  define d0 where "d0 = drop 4 c0"
  have d: "d = d0 @ x # c1 @ y # c2 @ z # c3"
    using arg_cong [OF c, of "drop 4"] l by (simp add: d0_def)
  have l0: "length d0 = 27"
    using l by (simp add: d0_def)
  have "pack (p @ d) = h0 # p @ d0 @ h1 # c1 @ h2 # c2 @ h3 # c3"
    if "length p = 4" "enc_high x y z = (h0, h1, h2, h3)" for p h0 h1 h2 h3
    using pack_parts [of "p @ d0" c1 c2 c3 x y z] that l l0 by (simp add: d)
  with d l0 l that show thesis
    by blast
qed

lemma encode_round_0_pack:
  assumes "length d = 123" "length w = 128" "u32_to_be_bytes (word_of_nat n) = [l0, l1, l2, l3]"
  shows "encode_round_0 (d @ b) n (w @ r) = Ok (pack ([0, l1, l2, l3] @ d) @ r, 123)"
proof -
  obtain d0 x c1 y c2 z c3 where d: "d = d0 @ x # c1 @ y # c2 @ z # c3"
    and lc: "length d0 = 27" "length c1 = 31" "length c2 = 31" "length c3 = 31"
    and pk: "\<And>p h0 h1 h2 h3. length p = 4 \<Longrightarrow> enc_high x y z = (h0, h1, h2, h3) \<Longrightarrow>
       pack (p @ d) = h0 # p @ d0 @ h1 # c1 @ h2 # c2 @ h3 # c3"
    by (rule split_first_chunk [OF assms(1)]) blast
  obtain w0 w' where w0: "w = w0 # w'" "length w' = 127"
    using assms(2) by (cases w) auto
  obtain v w1 v1 w2 v2 w3 v3 where w: "w' = v @ w1 # v1 @ w2 # v2 @ w3 # v3"
    and lw: "length v = 31" "length v1 = 31" "length v2 = 31" "length v3 = 31"
    by (rule split_chunk [OF w0(2)])
  obtain p1 p2 p3 p4 v0 where v: "v = p1 # p2 # p3 # p4 # v0" "length v0 = 27"
    using split_head [of v 27] lw(1) by auto
  obtain h0 h1 h2 h3 where h: "enc_high x y z = (h0, h1, h2, h3)"
    by (metis prod_cases4)
  have pk': "pack ([0, l1, l2, l3] @ d) = h0 # [0, l1, l2, l3] @ d0 @ h1 # c1 @ h2 # c2 @ h3 # c3"
    by (rule pk [OF _ h]) simp
  show ?thesis
    unfolding pk' unfolding d
    by (simp add: encode_round_0_def assms(3) w0 w v lc lw h Let_def slice_def index_def
        copy_from_slice_def nth_append write_high_def set_at_def list_update_append
        VERSIONED_HASH_VERSION_KZG_def BLOB_ENCODING_VERSION_def)
qed

lemma packs_1024:
  assumes "length p = 4" "length d = 123"
  shows "packs 1024 (p @ d @ cs) = pack (p @ d) @ packs 1023 cs"
  using packs.simps(2) [of 1023 "p @ d @ cs"] assms by simp

lemma blob_decode_packs:
  assumes cs: "length cs = BLOB_MAX_DATA_SIZE" "zero_from len cs"
    and len: "unat (u32_from_be_bytes [0, l1, l2, l3]) = len" "len \<le> BLOB_MAX_DATA_SIZE"
  shows "blob_decode (packs 1024 ([0, l1, l2, l3] @ cs)) = Ok (take len cs)"
proof -
  define d cs' where "d = take 123 cs" and "cs' = drop 123 cs"
  have split: "cs = d @ cs'" "length d = 123" "length cs' = 127 * 1023"
    using cs by (simp_all add: d_def cs'_def BLOB_MAX_DATA_SIZE_def)
  obtain d0 x c1 y c2 z c3 where d: "d = d0 @ x # c1 @ y # c2 @ z # c3"
    and lc: "length d0 = 27" "length c1 = 31" "length c2 = 31" "length c3 = 31"
    and pk: "\<And>p h0 h1 h2 h3. length p = 4 \<Longrightarrow> enc_high x y z = (h0, h1, h2, h3) \<Longrightarrow>
       pack (p @ d) = h0 # p @ d0 @ h1 # c1 @ h2 # c2 @ h3 # c3"
    by (rule split_first_chunk [OF split(2)]) blast
  obtain h0 h1 h2 h3 where h: "enc_high x y z = (h0, h1, h2, h3)"
    by (metis prod_cases4)
  note h' = high_bytes [OF h]
  let ?b = "packs 1023 cs'" and ?r = "replicate (127 * 1023) (0 :: u8)"
  have pk': "pack ([0, l1, l2, l3] @ d) = h0 # [0, l1, l2, l3] @ d0 @ h1 # c1 @ h2 # c2 @ h3 # c3"
    by (rule pk [OF _ h]) simp
  have data: "packs 1024 ([0, l1, l2, l3] @ cs) =
      (h0 # 0 # l1 # l2 # l3 # d0) @ h1 # c1 @ h2 # c2 @ h3 # c3 @ ?b" (is "_ = ?data")
    using packs_1024 [of "[0, l1, l2, l3]" d cs'] split pk' by simp
  have out: "copy_from_slice (replicate BLOB_MAX_DATA_SIZE 0) 0 27 d0
      = Ok ((d0 @ [0]) @ replicate 31 0 @ 0 # replicate 31 0 @ 0 # replicate 31 0 @ ?r)"
    using lc by (simp add: copy_from_slice_def BLOB_MAX_DATA_SIZE_def replicate_add [symmetric]
        flip: replicate_Suc replicate_app_Cons_same)
  have three: "decode_field_elements 3 ?data 28 32
        ((d0 @ [0]) @ replicate 31 0 @ 0 # replicate 31 0 @ 0 # replicate 31 0 @ ?r)
      = Ok ([h1, h2, h3], 124, 128, (d0 @ [0]) @ c1 @ 0 # c2 @ 0 # c3 @ ?r)"
  proof -
    have nums: "(28 :: nat) + 96 = 124" "(32 :: nat) + 96 = 128"
      by simp_all
    show ?thesis
      unfolding nums [symmetric] by (rule decode_three) (use h' lc in simp_all)
  qed
  have reassemble: "reassemble_bytes 124 [h0, h1, h2, h3] ((d0 @ [0]) @ c1 @ 0 # c2 @ 0 # c3 @ ?r)
      = Ok (123, d @ ?r)"
    using reassemble_parts [OF lc(2-4) h, of 124 d0 0 0 0 ?r] lc(1) by (simp add: d)
  have "zero_from (len - length d) cs'"
    using zero_from_drop [OF cs(2), of 123] split by simp
  note decode_rounds_packs [OF split(3) this, of "(h0 # 0 # l1 # l2 # l3 # d0) @ h1 # c1 @ h2 # c2 @ h3 # c3"]
  moreover have "length ((h0 # 0 # l1 # l2 # l3 # d0) @ h1 # c1 @ h2 # c2 @ h3 # c3) = 128"
    using lc by simp
  ultimately obtain ip where rounds: "decode_rounds 1023 ?data len 123 128 (d @ ?r) = Ok (ip, cs)"
    and rest: "\<forall>b \<in> set (drop ip ?data). b = 0"
    unfolding split(2) split(1) [symmetric] append_assoc append_Cons append_Nil by metis
  have "\<forall>b \<in> set (drop len cs). b = 0"
    using cs(2) by (auto simp: zero_from_def in_set_conv_nth)
  then have zero: "first_nonzero len (drop len cs) = None" "first_nonzero ip (drop ip ?data) = None"
    using rest by (simp_all only: first_nonzero_None)
  have diff_rounds: "1024 - 1 = (1023 :: nat)" and len_ok: "(BLOB_MAX_DATA_SIZE < len) = False"
    using len(2) by simp_all
  have heads: "index ?data 0 = Ok h0" "index ?data 1 = Ok 0" "index ?data 2 = Ok l1"
      "index ?data 3 = Ok l2" "index ?data 4 = Ok l3" "slice ?data 5 32 = Ok d0"
    using lc by (simp_all add: index_def slice_def)
  show ?thesis
    unfolding data blob_decode_def VERSIONED_HASH_VERSION_KZG_def BLOB_ENCODING_ROUNDS_def
    using len
    by (simp only: heads obind_simps out three reassemble Let_def prod.case rounds zero option.case
        diff_rounds not_less not_False_eq_True simp_thms if_True if_False len_ok)
qed

lemma len_bytes:
  assumes "n \<le> BLOB_MAX_DATA_SIZE"
  obtains l1 l2 l3 where "u32_to_be_bytes (word_of_nat n) = [0, l1, l2, l3]"
    "unat (u32_from_be_bytes [0, l1, l2, l3]) = n"
proof -
  have n: "n < 256 ^ 3"
    using assms by (simp add: BLOB_MAX_DATA_SIZE_def)
  then have u: "unat (word_of_nat n :: u32) = n"
    by (simp add: unat_of_nat)
  obtain l0 l1 l2 l3 where l: "u32_to_be_bytes (word_of_nat n) = [l0, l1, l2, l3]"
    using split_head [of "u32_to_be_bytes (word_of_nat n)" 0] by auto
  have four: "(4 :: nat) = Suc (Suc (Suc (Suc 0)))" by simp
  have "l0 = word_of_nat (n div 256 div 256 div 256)"
    using l u by (simp add: u32_to_be_bytes_def four)
  also have "n div 256 div 256 div 256 = 0"
    using n by (simp add: div_mult2_eq [symmetric])
  finally have "l0 = 0" by simp
  with l have "u32_to_be_bytes (word_of_nat n) = [0, l1, l2, l3]" by simp
  moreover from this have "unat (u32_from_be_bytes [0, l1, l2, l3]) = n"
    using u32_from_to_be [of "word_of_nat n"] u by simp
  ultimately show thesis by (rule that)
qed

lemma blob_encode_packs:
  assumes len: "length data \<le> BLOB_MAX_DATA_SIZE"
    and l: "u32_to_be_bytes (word_of_nat (length data)) = [0, l1, l2, l3]"
  shows "blob_encode data
    = Ok (packs 1024 ([0, l1, l2, l3] @ data @ replicate (BLOB_MAX_DATA_SIZE - length data) 0))"
proof -
  define cs where "cs = data @ replicate (BLOB_MAX_DATA_SIZE - length data) 0"
  define d cs' where "d = take 123 cs" and "cs' = drop 123 cs"
  have split: "cs = d @ cs'" "length d = 123" "length cs' = 127 * 1023"
    using len by (simp add: d_def cs'_def, simp_all add: cs_def d_def cs'_def BLOB_MAX_DATA_SIZE_def)
  have input: "copy_from_slice (replicate BLOB_MAX_DATA_SIZE 0) 0 (length data) data = Ok (d @ cs')"
    using len split(1) by (simp add: copy_from_slice_def cs_def)
  have blob: "replicate BYTES_PER_BLOB (0 :: u8) = replicate 128 0 @ replicate (128 * 1023) 0"
    by (simp add: BYTES_PER_BLOB_def replicate_add [symmetric])
  have "zero_from (length data) cs"
    by (simp add: cs_def zero_from_def nth_append)
  then have "zero_from (length data - length d) cs'"
    using zero_from_drop [of "length data" cs 123] split by simp
  note rounds = encode_rounds_packs [OF split(3) this, of "pack ([0, l1, l2, l3] @ d)"]
  have pos: "length (pack ([0, l1, l2, l3] @ d)) = 128"
    using split(2) by (intro length_pack) simp
  have r0: "encode_round_0 (d @ cs') (length data) (replicate 128 0 @ replicate (128 * 1023) 0)
      = Ok (pack ([0, l1, l2, l3] @ d) @ replicate (128 * 1023) 0, 123)"
    by (rule encode_round_0_pack [OF split(2) _ l]) simp
  have p: "packs 1024 ([0, l1, l2, l3] @ cs) = pack ([0, l1, l2, l3] @ d) @ packs 1023 cs'"
    unfolding split(1) by (rule packs_1024) (simp_all add: split)
  have diff_rounds: "1024 - 1 = (1023 :: nat)" and len_ok: "(BLOB_MAX_DATA_SIZE < length data) = False"
    using len by simp_all
  show ?thesis
    unfolding cs_def [symmetric] p
    by (simp only: blob_encode_def BLOB_ENCODING_ROUNDS_def diff_rounds len_ok if_False input obind_simps
        blob r0 prod.case rounds [unfolded split(2) pos])
qed

lemma blob_codec_roundtrip:
  assumes "length data \<le> BLOB_MAX_DATA_SIZE"
  shows "\<exists>blob. blob_encode data = Ok blob \<and> length blob = BYTES_PER_BLOB \<and> blob_decode blob = Ok data"
proof -
  obtain l1 l2 l3 where l: "u32_to_be_bytes (word_of_nat (length data)) = [0, l1, l2, l3]"
      "unat (u32_from_be_bytes [0, l1, l2, l3]) = length data"
    by (rule len_bytes [OF assms])
  let ?cs = "data @ replicate (BLOB_MAX_DATA_SIZE - length data) 0"
  have "length ([0, l1, l2, l3] @ ?cs) = 127 * 1024"
    using assms by (simp add: BLOB_MAX_DATA_SIZE_def)
  from length_packs [OF this] have "length (packs 1024 ([0, l1, l2, l3] @ ?cs)) = BYTES_PER_BLOB"
    by (simp add: BYTES_PER_BLOB_def)
  moreover have "blob_decode (packs 1024 ([0, l1, l2, l3] @ ?cs)) = Ok (take (length data) ?cs)"
    using assms l(2) by (intro blob_decode_packs) (simp_all add: zero_from_def nth_append)
  ultimately show ?thesis
    using blob_encode_packs [OF assms l(1)] by simp
qed

section \<open>The two decoders\<close>

text \<open>What the pipeline keeps of an error of the batcher's decoder.\<close>

primrec decoding_error :: "blob_decode_error \<Rightarrow> blob_decoding_error" where
  "decoding_error (DecInvalidFieldElement offset) = InvalidFieldElement"
| "decoding_error (DecInvalidEncodingVersion version) = InvalidEncodingVersion"
| "decoding_error (DecInvalidLength len) = InvalidLength"
| "decoding_error (NonZeroPadding offset) = InvalidFieldElement"

lemma map_err_obind: "map_err g (obind m f) = obind (map_err g m) (\<lambda>x. map_err g (f x))"
  by (cases m) simp_all

lemma map_err_access [simp]:
  "map_err g (index xs i) = index xs i" "map_err g (slice xs a b) = slice xs a b"
  "map_err g (copy_from_slice xs a b src) = copy_from_slice xs a b src"
  "map_err g (set_at xs i v) = set_at xs i v"
  by (simp_all add: index_def slice_def copy_from_slice_def set_at_def)

lemma bd_reassemble_eq:
  "bd_reassemble_bytes opos es outb = map_err g (reassemble_bytes opos es outb)"
  by (simp add: bd_reassemble_bytes_def reassemble_bytes_def map_err_obind Let_def)

lemma bd_element_eq:
  "bd_data s = Some data \<Longrightarrow>
   bd_decode_field_element s opos ipos outb
     = map_err decoding_error (decode_field_element data opos ipos outb)"
  by (simp add: bd_decode_field_element_def decode_field_element_def map_err_obind
      if_distrib [of "map_err decoding_error"] cong: if_cong)

lemma bd_elements_eq:
  "bd_data s = Some data \<Longrightarrow>
   bd_decode_field_elements n s opos ipos outb
     = map_err decoding_error (decode_field_elements n data opos ipos outb)"
  by (induction n arbitrary: opos ipos outb)
     (simp_all add: map_err_obind bd_element_eq case_prod_unfold)

lemma bd_rounds_eq:
  assumes "bd_data s = Some data"
  shows "bd_decode_rounds n s len opos ipos outb
     = map_err decoding_error (decode_rounds n data len opos ipos outb)"
proof (induction n arbitrary: opos ipos outb)
  case (Suc n)
  show ?case
    by (simp add: map_err_obind bd_elements_eq [OF assms] case_prod_unfold Suc.IH
        bd_reassemble_eq [where g = decoding_error])
qed simp

lemma all_zero_from_eq:
  "length data - i = n \<Longrightarrow> all_zero_from n data i
     = (case first_nonzero i (drop i data) of None \<Rightarrow> Ok () | Some _ \<Rightarrow> Err InvalidFieldElement)"
proof (induction n arbitrary: i)
  case (Suc n)
  then have i: "i < length data" by linarith
  have "all_zero_from n data (Suc i) = (case first_nonzero (Suc i) (drop (Suc i) data) of
      None \<Rightarrow> Ok () | Some _ \<Rightarrow> Err InvalidFieldElement)"
    using Suc by (intro Suc.IH) linarith
  with i show ?case
    by (simp add: Cons_nth_drop_Suc [symmetric])
qed simp

lemma bd_decode_eq:
  assumes "bd_data s = Some data" and len: "length data = BYTES_PER_BLOB"
  shows "bd_decode s = map_err decoding_error (blob_decode data)"
proof -
  have scan: "(if \<exists>b \<in> set (drop n outb). b \<noteq> 0 then Err InvalidFieldElement
        else obind (all_zero_from (BYTES_PER_BLOB - ipos) data ipos) (\<lambda>_. Ok r))
      = map_err decoding_error (case first_nonzero n (drop n outb) of
          Some i \<Rightarrow> Err (NonZeroPadding i)
        | None \<Rightarrow> (case first_nonzero ipos (drop ipos data) of
            Some i \<Rightarrow> Err (NonZeroPadding i) | None \<Rightarrow> Ok r))" for n outb ipos r
    using all_zero_from_eq [of data ipos, OF refl] first_nonzero_None [of n "drop n outb"] len
    by (auto split: option.split)
  show ?thesis
    unfolding bd_decode_def blob_decode_def assms(1)
    by (simp add: map_err_obind bd_elements_eq [OF assms(1)] bd_rounds_eq [OF assms(1)] case_prod_unfold
        bd_reassemble_eq [where g = decoding_error] scan BLOB_ENCODING_VERSION_def Let_def
        if_distrib [of "map_err decoding_error"] cong: if_cong)
qed

section \<open>Safety\<close>

lemma decode_element_cases:
  assumes "ipos + 32 \<le> length data" "opos + 31 \<le> length outb"
  shows "decode_field_element data opos ipos outb = Err (DecInvalidFieldElement ipos)
    \<or> (\<exists>b outb'. decode_field_element data opos ipos outb = Ok (b, opos + 32, ipos + 32, outb')
        \<and> length outb' = length outb)"
  using assms by (auto simp: decode_field_element_def copy_from_slice_def slice_def index_def)

lemma decode_elements_cases:
  assumes "ipos + 32 * n \<le> length data" "opos + 32 * n \<le> length outb + 1"
  shows "(\<exists>e. decode_field_elements n data opos ipos outb = Err e)
    \<or> (\<exists>es outb'. decode_field_elements n data opos ipos outb = Ok (es, opos + 32 * n, ipos + 32 * n, outb')
        \<and> length outb' = length outb \<and> length es = n)"
  using assms
proof (induction n arbitrary: opos ipos outb)
  case (Suc n)
  from Suc.prems have "ipos + 32 \<le> length data" "opos + 31 \<le> length outb" by simp_all
  from decode_element_cases [OF this] show ?case
  proof (elim disjE exE conjE)
    fix b outb'
    assume run: "decode_field_element data opos ipos outb = Ok (b, opos + 32, ipos + 32, outb')"
      and l: "length outb' = length outb"
    from Suc.IH [of "ipos + 32" "opos + 32" outb'] Suc.prems l show ?thesis
      by (auto simp: run algebra_simps)
  qed simp
qed simp

lemma reassemble_ok:
  assumes "length es = 4" "97 \<le> opos" "opos \<le> length outb + 1"
  shows "\<exists>outb'. reassemble_bytes opos es outb = Ok (opos - 1, outb') \<and> length outb' = length outb"
  using assms by (auto simp: reassemble_bytes_def index_def set_at_def Let_def)

lemma decode_rounds_cases:
  assumes "ipos + 128 * n \<le> length data" "opos + 127 * n \<le> length outb" "ipos \<le> length data"
  shows "(\<exists>e. decode_rounds n data len opos ipos outb = Err e)
    \<or> (\<exists>ipos' outb'. decode_rounds n data len opos ipos outb = Ok (ipos', outb')
        \<and> length outb' = length outb)"
  using assms
proof (induction n arbitrary: opos ipos outb)
  case (Suc n)
  from Suc.prems have b: "ipos + 32 * 4 \<le> length data" "opos + 32 * 4 \<le> length outb + 1" by simp_all
  from decode_elements_cases [OF b] show ?case
  proof (elim disjE exE conjE)
    fix es outb'
    assume run: "decode_field_elements 4 data opos ipos outb = Ok (es, opos + 32 * 4, ipos + 32 * 4, outb')"
      and l: "length outb' = length outb" "length es = 4"
    obtain outb'' where
      re: "(reassemble_bytes (opos + 128) es outb' :: (blob_decode_error, _) outcome) = Ok (opos + 127, outb'')"
        "length outb'' = length outb"
      using reassemble_ok [of es "opos + 128" outb', where ?'a = blob_decode_error] l b
      by (auto simp: add.commute)
    from Suc.IH [of "ipos + 128" "opos + 127" outb''] Suc.prems re show ?thesis
      by (simp add: run)
  qed auto
qed simp

lemma blob_decode_cases:
  assumes "length data = BYTES_PER_BLOB"
  shows "(\<exists>e. blob_decode data = Err e)
    \<or> (\<exists>d. blob_decode data = Ok d \<and> length d \<le> BLOB_MAX_DATA_SIZE)"
proof -
  define len where "len = unat (u32_from_be_bytes [0, data ! 2, data ! 3, data ! 4])"
  define out0 where "out0 = take 27 (drop 5 data) @ replicate (BLOB_MAX_DATA_SIZE - 27) 0"
  have l: "length data = 131072" "length out0 = 130044"
    using assms by (simp_all add: BYTES_PER_BLOB_def BLOB_MAX_DATA_SIZE_def out0_def)
  have heads: "index data 0 = Ok (data ! 0)" "index data 1 = Ok (data ! 1)" "index data 2 = Ok (data ! 2)"
      "index data 3 = Ok (data ! 3)" "index data 4 = Ok (data ! 4)"
      "slice data 5 32 = Ok (take 27 (drop 5 data))"
      "copy_from_slice (replicate BLOB_MAX_DATA_SIZE 0) 0 27 (take 27 (drop 5 data)) = Ok out0"
    using l by (simp_all add: copy_from_slice_def out0_def BLOB_MAX_DATA_SIZE_def)
  have run: "blob_decode data = (if data ! 1 \<noteq> 0 then Err (DecInvalidEncodingVersion (data ! 1))
      else if BLOB_MAX_DATA_SIZE < len then Err (DecInvalidLength len)
      else obind (decode_field_elements 3 data 28 32 out0) (\<lambda>(es, output_pos, input_pos, output).
        obind (reassemble_bytes output_pos (data ! 0 # es) output) (\<lambda>(output_pos, output).
        obind (decode_rounds 1023 data len output_pos input_pos output) (\<lambda>(input_pos, output).
        case first_nonzero len (drop len output) of Some i \<Rightarrow> Err (NonZeroPadding i)
        | None \<Rightarrow> (case first_nonzero input_pos (drop input_pos data) of Some i \<Rightarrow> Err (NonZeroPadding i)
          | None \<Rightarrow> Ok (take len output))))))"
    unfolding blob_decode_def VERSIONED_HASH_VERSION_KZG_def
    by (simp only: heads obind_simps Let_def len_def [symmetric]) (simp add: BLOB_ENCODING_ROUNDS_def)
  consider e where "decode_field_elements 3 data 28 32 out0 = Err e"
    | es outb where "decode_field_elements 3 data 28 32 out0 = Ok (es, 124, 128, outb)"
        "length outb = 130044" "length es = 3"
    using decode_elements_cases [of 32 3 data 28 out0] l by auto
  then show ?thesis
  proof cases
    case 1
    then show ?thesis
      by (simp add: run)
  next
    case (2 es outb)
    obtain outb' where re: "(reassemble_bytes 124 (data ! 0 # es) outb :: (blob_decode_error, _) outcome) = Ok (123, outb')"
        "length outb' = 130044"
      using reassemble_ok [of "data ! 0 # es" 124 outb, where ?'a = blob_decode_error] 2 by auto
    have "(\<exists>e. decode_rounds 1023 data len 123 128 outb' = Err e)
      \<or> (\<exists>ipos outb''. decode_rounds 1023 data len 123 128 outb' = Ok (ipos, outb'') \<and> length outb'' = 130044)"
      using decode_rounds_cases [of 128 1023 data 123 outb'] l re by simp
    then show ?thesis
      by (cases "data ! 1 \<noteq> 0 \<or> BLOB_MAX_DATA_SIZE < len")
         (auto simp: run 2 re split: option.split_asm option.splits)
  qed
qed

section \<open>Properties\<close>

text \<open>C22. The blob codec is lossless: every payload of at most \<open>BLOB_MAX_DATA_SIZE\<close> bytes encodes to a
  full-size blob, and both the batcher's decoder and the decoder of the derivation pipeline read
  the payload back from it; a larger payload is refused.\<close>

theorem blob_roundtrip:
  "if length data \<le> BLOB_MAX_DATA_SIZE
   then \<exists>blob. blob_encode data = Ok blob \<and> length blob = BYTES_PER_BLOB
     \<and> blob_decode blob = Ok data
     \<and> bd_decode \<lparr>bd_data = Some blob, bd_calldata = calldata\<rparr> = Ok data
   else blob_encode data = Err (BlobDataTooLarge (length data))"
  using blob_codec_roundtrip [of data] bd_decode_eq
  by (auto simp: blob_encode_def)

text \<open>The two decoders agree on every blob: the pipeline accepts exactly the blobs the batcher's
  decoder accepts, with the same payload, and rejects the others for the corresponding reason.  On
  a blob neither of them reads or writes out of range, and no payload exceeds the limit.\<close>

lemma blob_decoders_agree:
  assumes "length blob = BYTES_PER_BLOB" "bd_data s = Some blob"
  shows "bd_decode s = map_err decoding_error (blob_decode blob)
    \<and> bd_decode s \<noteq> Panic \<and> (\<forall>d. bd_decode s = Ok d \<longrightarrow> length d \<le> BLOB_MAX_DATA_SIZE)"
  using bd_decode_eq [OF assms(2,1)] blob_decode_cases [OF assms(1)] by auto

text \<open>What the batcher packs into a blob is what derivation parses out of it: well-formed frames
  that fit are encoded, decoded by the pipeline to the batcher's payload and parsed to the same
  frames in the same order.\<close>

lemma frames_through_blob:
  assumes "fs \<noteq> []" "\<forall>f \<in> set fs. frame_wf f" "length (frames_payload fs) \<le> BLOB_MAX_DATA_SIZE"
  shows "\<exists>blob payload. encode_packed fs = Ok blob
    \<and> bd_decode \<lparr>bd_data = Some blob, bd_calldata = None\<rparr> = Ok payload \<and> parse_frames payload = Ok fs"
  using blob_codec_roundtrip [OF assms(3)] parse_payload [OF assms(1,2)] bd_decode_eq
  by (auto simp: encode_packed_def frames_payload_def)

end
