(* ===== verification/L1_Sources.thy ===== *)
theory L1_Sources
  imports L1_Traversal Frame_Queue Blob_Codec
begin

text \<open>
  The data-availability sources of crates/consensus/derive/src/sources (calldata.rs, blobs.rs,
  ethereum.rs) with their errors (errors/sources.rs), and the retrieval stage of
  stages/l1_retrieval.rs that pulls the batcher's data of each L1 block through them.  The recovery
  of a transaction's signer is the argument \<open>recover\<close>; blob fetching is a call of the provider.
\<close>

section \<open>Errors of the sources\<close>

datatype blob_provider_error =
    SidecarLengthMismatch nat nat
  | SlotDerivation
  | BlobDecoding blob_decoding_error
  | BlobNotFound u64 string
  | Backend string
  | NotEnoughBlobs nat nat
  | BlobReset reset_error

fun nat_str :: "nat \<Rightarrow> string" where
  "nat_str n = (if n < 10 then [char_of (48 + n)] else nat_str (n div 10) @ [char_of (48 + n mod 10)])"

declare nat_str.simps [simp del]

primrec blob_decoding_error_str :: "blob_decoding_error \<Rightarrow> string" where
  "blob_decoding_error_str InvalidFieldElement = ''Invalid field element''"
| "blob_decoding_error_str InvalidEncodingVersion = ''Invalid encoding version''"
| "blob_decoding_error_str InvalidLength = ''Invalid length''"
| "blob_decoding_error_str MissingData = ''Missing data''"

primrec kind_of_blob_provider_error :: "blob_provider_error \<Rightarrow> pipeline_error_kind" where
  "kind_of_blob_provider_error (SidecarLengthMismatch e g) =
     crit (Provider (''Blob sidecar length mismatch: expected '' @ nat_str e @ '', got '' @ nat_str g))"
| "kind_of_blob_provider_error SlotDerivation = crit (Provider ''Failed to derive slot'')"
| "kind_of_blob_provider_error (BlobDecoding e) =
     crit (Provider (''Blob decoding error: '' @ blob_decoding_error_str e))"
| "kind_of_blob_provider_error (BlobNotFound slot_number reason) = Reset (BlobsUnavailable slot_number)"
| "kind_of_blob_provider_error (Backend msg) = temp (Provider msg)"
| "kind_of_blob_provider_error (NotEnoughBlobs e g) = Reset (BlobsUnderFill e g)"
| "kind_of_blob_provider_error (BlobReset e) = Reset e"

section \<open>Data-availability providers\<close>

record 'd da_ops =
  da_next :: "block_info \<Rightarrow> address \<Rightarrow> ('d, bytes) action"
  da_clear :: "'d \<Rightarrow> 'd"

type_synonym 'sig signer = "'sig tx_envelope \<Rightarrow> address option"

section \<open>Calldata\<close>

record 'c calldata_source =
  cs_chain_provider :: 'c
  cs_batch_inbox_address :: address
  cs_calldata :: "bytes list"
  cs_open :: bool

definition calldata_source_new :: "'c \<Rightarrow> address \<Rightarrow> 'c calldata_source" where
  "calldata_source_new c inbox =
     \<lparr>cs_chain_provider = c, cs_batch_inbox_address = inbox, cs_calldata = [], cs_open = False\<rparr>"

primrec variant_tx :: "'sig tx_eip4844_variant \<Rightarrow> 'sig tx_4844" where
  "variant_tx (TxEip4844 t) = t"
| "variant_tx (TxEip4844WithSidecar t) = t"

primrec calldata_parts :: "'sig tx_envelope \<Rightarrow> (address option \<times> bytes) option" where
  "calldata_parts (Legacy t) = Some (tx_to t, tx_input t)"
| "calldata_parts (Eip2930 t) = Some (tx_to t, tx_input t)"
| "calldata_parts (Eip1559 t) = Some (tx_to t, tx_input t)"
| "calldata_parts (Eip4844 v) = Some (Some (tx4_to (variant_tx v)), tx4_input (variant_tx v))"
| "calldata_parts (Eip7702 t) = None"

definition batcher_calldata :: "'sig signer \<Rightarrow> address \<Rightarrow> address \<Rightarrow> 'sig tx_envelope \<Rightarrow> bytes option" where
  "batcher_calldata recover inbox batcher tx =
     (case calldata_parts tx of
        None \<Rightarrow> None
      | Some (tx_kind, data) \<Rightarrow>
         (case tx_kind of
            None \<Rightarrow> None
          | Some to \<Rightarrow>
              if to \<noteq> inbox then None
              else (case recover tx of
                      None \<Rightarrow> None
                    | Some signer \<Rightarrow> if signer \<noteq> batcher then None else Some data)))"

definition collect_calldata ::
    "'sig signer \<Rightarrow> address \<Rightarrow> 'sig tx_envelope list \<Rightarrow> ('c calldata_source, unit) action" where
  "collect_calldata recover batcher txs s =
     (Ok (), s\<lparr>cs_calldata := List.map_filter (batcher_calldata recover (cs_batch_inbox_address s) batcher) txs,
                cs_open := True\<rparr>)"

definition load_calldata ::
    "('c, 'sig) chain_provider \<Rightarrow> 'sig signer \<Rightarrow> block_info \<Rightarrow> address \<Rightarrow> ('c calldata_source, unit) action" where
  "load_calldata C recover block_ref batcher s =
     (if cs_open s then (Ok (), s)
      else abind (on_prev cs_chain_provider cs_chain_provider_update
                   (await (cp_block_info_and_transactions_by_hash C (bi_hash block_ref))))
             (\<lambda>info. collect_calldata recover batcher (snd info)) s)"

definition cs_next ::
    "('c, 'sig) chain_provider \<Rightarrow> 'sig signer \<Rightarrow> block_info \<Rightarrow> address \<Rightarrow> ('c calldata_source, bytes) action" where
  "cs_next C recover block_ref batcher =
     abind (load_calldata C recover block_ref batcher) (\<lambda>_ s.
       case cs_calldata s of
         [] \<Rightarrow> (Err (temp Eof), s)
       | d # ds \<Rightarrow> (Ok d, s\<lparr>cs_calldata := ds\<rparr>))"

definition cs_clear :: "'c calldata_source \<Rightarrow> 'c calldata_source" where
  "cs_clear s = s\<lparr>cs_calldata := [], cs_open := False\<rparr>"

section \<open>Blobs\<close>

text \<open>A fetched blob has exactly \<open>BYTES_PER_BLOB\<close> bytes.\<close>

typedef blob = "{bs :: bytes. length bs = BYTES_PER_BLOB}"
  by (rule exI [of _ "replicate BYTES_PER_BLOB 0"]) simp

lemma length_Rep_blob [simp]: "length (Rep_blob b) = BYTES_PER_BLOB"
  using Rep_blob by simp

record 'b blob_provider =
  bp_get_and_validate_blobs :: "block_info \<Rightarrow> b256 list \<Rightarrow> ('b, blob list) call"

record ('c, 'b) blob_source =
  bs_chain_provider :: 'c
  bs_blob_fetcher :: 'b
  bs_batcher_address :: address
  bs_data :: "blob_data list"
  bs_open :: bool

definition blob_source_new :: "'c \<Rightarrow> 'b \<Rightarrow> address \<Rightarrow> ('c, 'b) blob_source" where
  "blob_source_new c b addr =
     \<lparr>bs_chain_provider = c, bs_blob_fetcher = b, bs_batcher_address = addr, bs_data = [], bs_open = False\<rparr>"

definition blob_data_default :: blob_data where
  "blob_data_default = \<lparr>bd_data = None, bd_calldata = None\<rparr>"

definition bd_fill :: "blob list \<Rightarrow> nat \<Rightarrow> blob_data \<Rightarrow> (blob_provider_error, bool \<times> blob_data) outcome" where
  "bd_fill blobs i d =
     (if bd_calldata d \<noteq> None then Ok (False, d)
      else if length blobs \<le> i then Err (NotEnoughBlobs i (length blobs))
      else obind (index blobs i) (\<lambda>b.
           if Rep_blob b = [] then Err (BlobDecoding MissingData)
           else Ok (True, d\<lparr>bd_data := Some (Rep_blob b)\<rparr>)))"

primrec blob_parts :: "'sig tx_envelope \<Rightarrow> (address option \<times> bytes \<times> b256 list option) option" where
  "blob_parts (Legacy t) = Some (tx_to t, tx_input t, None)"
| "blob_parts (Eip2930 t) = Some (tx_to t, tx_input t, None)"
| "blob_parts (Eip1559 t) = Some (tx_to t, tx_input t, None)"
| "blob_parts (Eip4844 v) =
     Some (Some (tx4_to (variant_tx v)), tx4_input (variant_tx v), Some (tx4_blob_versioned_hashes (variant_tx v)))"
| "blob_parts (Eip7702 t) = None"

definition is_eip4844 :: "'sig tx_envelope \<Rightarrow> bool" where
  "is_eip4844 tx = (case tx of Eip4844 _ \<Rightarrow> True | _ \<Rightarrow> False)"

text \<open>One round of the loop of \<open>extract_blob_data\<close>: what a transaction adds.\<close>

definition extract_tx ::
    "'sig signer \<Rightarrow> address \<Rightarrow> address \<Rightarrow> 'sig tx_envelope \<Rightarrow> blob_data list \<times> b256 list \<Rightarrow> blob_data list \<times> b256 list" where
  "extract_tx recover inbox batcher tx acc =
     (case acc of (data, hashes) \<Rightarrow>
     (case blob_parts tx of
        None \<Rightarrow> (data, hashes)
      | Some (tx_kind, calldata, blob_hashes) \<Rightarrow>
         (case tx_kind of
            None \<Rightarrow> (data, hashes)
          | Some to \<Rightarrow>
              if to \<noteq> inbox then (data, hashes)
              else if (case recover tx of Some signer \<Rightarrow> signer | None \<Rightarrow> 0) \<noteq> batcher then (data, hashes)
              else if \<not> is_eip4844 tx then (data @ [\<lparr>bd_data = None, bd_calldata = Some calldata\<rparr>], hashes)
              else (case blob_hashes of
                      None \<Rightarrow> (data, hashes)
                    | Some b \<Rightarrow> (data @ map (\<lambda>_. blob_data_default) b, hashes @ b)))))"

definition extract_blob_data ::
    "'sig signer \<Rightarrow> address \<Rightarrow> 'sig tx_envelope list \<Rightarrow> address \<Rightarrow> blob_data list \<times> b256 list" where
  "extract_blob_data recover inbox txs batcher =
     fold (extract_tx recover inbox batcher) txs ([], [])"

fun fill_blobs :: "blob list \<Rightarrow> nat \<Rightarrow> blob_data list \<Rightarrow> (blob_provider_error, nat \<times> blob_data list) outcome" where
  "fill_blobs blobs i [] = Ok (i, [])"
| "fill_blobs blobs i (d # ds) =
     obind (bd_fill blobs i d) (\<lambda>(should_increment, d).
     obind (fill_blobs blobs (if should_increment then i + 1 else i) ds) (\<lambda>(j, ds). Ok (j, d # ds)))"

definition fill_data :: "blob list \<Rightarrow> blob_data list \<Rightarrow> (('c, 'b) blob_source, unit) action" where
  "fill_data blobs data s =
     (case fill_blobs blobs 0 data of
        Err e \<Rightarrow> (Err (kind_of_blob_provider_error e), s)
      | Panic \<Rightarrow> (Panic, s)
      | Ok (blob_index, data) \<Rightarrow>
          if blob_index < length blobs then (Err (Reset (BlobsOverFill blob_index (length blobs))), s)
          else (Ok (), s\<lparr>bs_open := True, bs_data := data\<rparr>))"

definition place_blobs ::
    "'b blob_provider \<Rightarrow> 'sig signer \<Rightarrow> block_info \<Rightarrow> address \<Rightarrow> 'sig tx_envelope list
       \<Rightarrow> (('c, 'b) blob_source, unit) action" where
  "place_blobs B recover block_ref batcher txs s =
     (case extract_blob_data recover (bs_batcher_address s) txs batcher of
        (data, blob_hashes) \<Rightarrow>
          if blob_hashes = [] then (Ok (), s\<lparr>bs_open := True, bs_data := data\<rparr>)
          else abind (on_prev bs_blob_fetcher bs_blob_fetcher_update
                       (await (bp_get_and_validate_blobs B block_ref blob_hashes)))
                 (\<lambda>blobs. fill_data blobs data) s)"

definition load_blobs ::
    "('c, 'sig) chain_provider \<Rightarrow> 'b blob_provider \<Rightarrow> 'sig signer \<Rightarrow> block_info \<Rightarrow> address
       \<Rightarrow> (('c, 'b) blob_source, unit) action" where
  "load_blobs C B recover block_ref batcher s =
     (if bs_open s then (Ok (), s)
      else abind (on_prev bs_chain_provider bs_chain_provider_update
                   (await (cp_block_info_and_transactions_by_hash C (bi_hash block_ref))))
             (\<lambda>info. place_blobs B recover block_ref batcher (snd info)) s)"

definition bs_next_data :: "(('c, 'b) blob_source, blob_data) action" where
  "bs_next_data s =
     (case bs_data s of [] \<Rightarrow> (Err (temp Eof), s) | d # ds \<Rightarrow> (Ok d, s\<lparr>bs_data := ds\<rparr>))"

text \<open>A blob that does not decode is skipped by calling \<open>next\<close> again: the source is open then and
  holds one element less, so this ends.\<close>

lemma load_blobs_open:
  assumes "load_blobs C B recover block_ref addr s = (Ok u, s')"
  shows "bs_open s'" "bs_open s \<Longrightarrow> s' = s"
  using assms
  by (auto simp: load_blobs_def place_blobs_def abind_def fill_data_def split: if_splits prod.splits outcome.splits)

lemma bs_next_data_length:
  "bs_next_data s = (Ok d, s') \<Longrightarrow> length (bs_data s') < length (bs_data s) \<and> bs_open s' = bs_open s"
  by (auto simp: bs_next_data_def split: list.splits)

function (sequential) bs_next ::
    "('c, 'sig) chain_provider \<Rightarrow> 'b blob_provider \<Rightarrow> 'sig signer \<Rightarrow> block_info \<Rightarrow> address
       \<Rightarrow> (('c, 'b) blob_source, bytes) action" where
  "bs_next C B recover block_ref batcher s =
     (case load_blobs C B recover block_ref batcher s of
        (Err e, s) \<Rightarrow> (Err e, s)
      | (Panic, s) \<Rightarrow> (Panic, s)
      | (Ok _, s) \<Rightarrow>
         (case bs_next_data s of
            (Err e, s) \<Rightarrow> (Err e, s)
          | (Panic, s) \<Rightarrow> (Panic, s)
          | (Ok next_data, s) \<Rightarrow>
             (case bd_calldata next_data of
                Some c \<Rightarrow> (Ok c, s)
              | None \<Rightarrow>
                 (case bd_decode next_data of
                    Ok d \<Rightarrow> (Ok d, s)
                  | Panic \<Rightarrow> (Panic, s)
                  | Err _ \<Rightarrow> bs_next C B recover block_ref batcher s))))"
  by pat_completeness auto
termination
proof (relation "measures [\<lambda>(C, B, recover, r, a, s). if bs_open s then 0 else 1,
    \<lambda>(C, B, recover, r, a, s). length (bs_data s)]", goal_cases)
  case (2 C B recover r a s ro s1 u rd s2 d e)
  then show ?case
    using load_blobs_open [of C B recover r a s u s1] bs_next_data_length [of s1 d s2]
    by (auto split: if_splits)
qed simp

declare bs_next.simps [simp del]

definition bs_clear :: "('c, 'b) blob_source \<Rightarrow> ('c, 'b) blob_source" where
  "bs_clear s = s\<lparr>bs_data := [], bs_open := False\<rparr>"

section \<open>The Ethereum data source\<close>

record ('c, 'b) ethereum_source =
  es_ecotone_timestamp :: "u64 option"
  es_blob_source :: "('c, 'b) blob_source"
  es_calldata_source :: "'c calldata_source"

definition ethereum_source_new ::
    "('c, 'b) blob_source \<Rightarrow> 'c calldata_source \<Rightarrow> rollup_config \<Rightarrow> ('c, 'b) ethereum_source" where
  "ethereum_source_new bs cs cfg =
     \<lparr>es_ecotone_timestamp = u_ecotone_time (rc_upgrades cfg), es_blob_source = bs, es_calldata_source = cs\<rparr>"

definition new_from_parts :: "'c \<Rightarrow> 'b \<Rightarrow> rollup_config \<Rightarrow> ('c, 'b) ethereum_source" where
  "new_from_parts c b cfg =
     \<lparr>es_ecotone_timestamp = u_ecotone_time (rc_upgrades cfg),
      es_blob_source = blob_source_new c b (rc_batch_inbox_address cfg),
      es_calldata_source = calldata_source_new c (rc_batch_inbox_address cfg)\<rparr>"

definition es_next ::
    "('c, 'sig) chain_provider \<Rightarrow> 'b blob_provider \<Rightarrow> 'sig signer \<Rightarrow> block_info \<Rightarrow> address
       \<Rightarrow> (('c, 'b) ethereum_source, bytes) action" where
  "es_next C B recover block_ref batcher s =
     (if (case es_ecotone_timestamp s of Some e \<Rightarrow> e \<le> bi_timestamp block_ref | None \<Rightarrow> False)
      then on_prev es_blob_source es_blob_source_update (bs_next C B recover block_ref batcher) s
      else on_prev es_calldata_source es_calldata_source_update (cs_next C recover block_ref batcher) s)"

definition es_clear :: "('c, 'b) ethereum_source \<Rightarrow> ('c, 'b) ethereum_source" where
  "es_clear s = s\<lparr>es_blob_source := bs_clear (es_blob_source s),
                  es_calldata_source := cs_clear (es_calldata_source s)\<rparr>"

definition ethereum_ops ::
    "('c, 'sig) chain_provider \<Rightarrow> 'b blob_provider \<Rightarrow> 'sig signer \<Rightarrow> ('c, 'b) ethereum_source da_ops" where
  "ethereum_ops C B recover = \<lparr>da_next = es_next C B recover, da_clear = es_clear\<rparr>"

section \<open>The retrieval stage\<close>

record ('p, 'd) l1_retrieval =
  lr_prev :: 'p
  lr_provider :: 'd
  lr_da_batcher_sender_override :: "address option"
  lr_next :: "block_info option"

definition l1_retrieval_new :: "'p \<Rightarrow> 'd \<Rightarrow> ('p, 'd) l1_retrieval" where
  "l1_retrieval_new prev provider =
     \<lparr>lr_prev = prev, lr_provider = provider, lr_da_batcher_sender_override = None, lr_next = None\<rparr>"

definition with_da_batcher_sender_override :: "address option \<Rightarrow> ('p, 'd) l1_retrieval \<Rightarrow> ('p, 'd) l1_retrieval" where
  "with_da_batcher_sender_override a s = s\<lparr>lr_da_batcher_sender_override := a\<rparr>"

definition lr_pull :: "('p, block_info option) stage \<Rightarrow> (('p, 'd) l1_retrieval, unit) action" where
  "lr_pull S s =
     (if lr_next s \<noteq> None then (Ok (), s)
      else abind (on_prev lr_prev lr_prev_update (st_next S)) (\<lambda>b s.
        case b of
          None \<Rightarrow> (Err (temp MissingL1Data), s)
        | Some b \<Rightarrow> (Ok (), s\<lparr>lr_next := Some b\<rparr>)) s)"

definition lr_next_data ::
    "('p, block_info option) stage \<Rightarrow> ('p \<Rightarrow> address) \<Rightarrow> 'd da_ops \<Rightarrow> (('p, 'd) l1_retrieval, bytes) action" where
  "lr_next_data S addr D =
     abind (lr_pull S) (\<lambda>_ s.
       case lr_next s of
         None \<Rightarrow> (Panic, s)
       | Some nxt \<Rightarrow>
           let batcher = (case lr_da_batcher_sender_override s of Some a \<Rightarrow> a | None \<Rightarrow> addr (lr_prev s))
           in case on_prev lr_provider lr_provider_update (da_next D nxt batcher) s of
                (Ok data, s) \<Rightarrow> (Ok data, s)
              | (Panic, s) \<Rightarrow> (Panic, s)
              | (Err e, s) \<Rightarrow>
                  (Err e, if e = Temporary Eof
                          then s\<lparr>lr_next := None, lr_provider := da_clear D (lr_provider s)\<rparr> else s))"

definition lr_origin :: "('p, block_info option) stage \<Rightarrow> ('p, 'd) l1_retrieval \<Rightarrow> block_info option" where
  "lr_origin S s = st_origin S (lr_prev s)"

definition lr_reopen :: "('p, block_info option) stage \<Rightarrow> 'd da_ops \<Rightarrow> unit \<Rightarrow> (('p, 'd) l1_retrieval, unit) action" where
  "lr_reopen S D _ s =
     (Ok (), s\<lparr>lr_provider := da_clear D (lr_provider s), lr_next := lr_origin S s\<rparr>)"

definition lr_advance_origin :: "('p, block_info option) stage \<Rightarrow> (('p, 'd) l1_retrieval, unit) action" where
  "lr_advance_origin S = on_prev lr_prev lr_prev_update (st_advance S)"

definition lr_reset ::
    "('p, block_info option) stage \<Rightarrow> 'd da_ops \<Rightarrow> block_num_hash \<Rightarrow> system_config
       \<Rightarrow> (('p, 'd) l1_retrieval, unit) action" where
  "lr_reset S D l1_origin cfg =
     abind (on_prev lr_prev lr_prev_update (st_reset S l1_origin cfg)) (lr_reopen S D)"

definition lr_activate ::
    "('p, block_info option) stage \<Rightarrow> 'd da_ops \<Rightarrow> (('p, 'd) l1_retrieval, unit) action" where
  "lr_activate S D = abind (on_prev lr_prev lr_prev_update (st_activate S)) (lr_reopen S D)"

definition lr_flush_channel :: "('p, block_info option) stage \<Rightarrow> (('p, 'd) l1_retrieval, unit) action" where
  "lr_flush_channel S = on_prev lr_prev lr_prev_update (st_flush S)"

definition l1_retrieval_stage ::
    "('p, block_info option) stage \<Rightarrow> ('p \<Rightarrow> address) \<Rightarrow> 'd da_ops \<Rightarrow> (('p, 'd) l1_retrieval, bytes) stage" where
  "l1_retrieval_stage S addr D =
     \<lparr>st_next = lr_next_data S addr D, st_origin = lr_origin S, st_advance = lr_advance_origin S,
      st_reset = lr_reset S D, st_activate = lr_activate S D, st_flush = lr_flush_channel S\<rparr>"

lemma l1_retrieval_stage_simps [simp]:
  "st_next (l1_retrieval_stage S addr D) = lr_next_data S addr D"
  "st_origin (l1_retrieval_stage S addr D) = lr_origin S"
  "st_advance (l1_retrieval_stage S addr D) = lr_advance_origin S"
  "st_reset (l1_retrieval_stage S addr D) = lr_reset S D"
  "st_activate (l1_retrieval_stage S addr D) = lr_activate S D"
  "st_flush (l1_retrieval_stage S addr D) = lr_flush_channel S"
  by (simp_all add: l1_retrieval_stage_def)

section \<open>Contracts\<close>

text \<open>A data-availability provider never panics on a block and keeps its invariant.\<close>

locale da_source =
  fixes D :: "'d da_ops" and dgood :: "'d \<Rightarrow> bool"
  assumes da_next_safe: "safe_action dgood (da_next D block_ref batcher)"
    and da_clear_good: "dgood d \<Longrightarrow> dgood (da_clear D d)"

definition bs_good :: "('c, 'b) blob_source \<Rightarrow> bool" where
  "bs_good s \<longleftrightarrow> (\<forall>d \<in> set (bs_data s). \<forall>b. bd_data d = Some b \<longrightarrow> length b = BYTES_PER_BLOB)"

lemma bd_decode_no_panic:
  assumes "\<forall>b. bd_data d = Some b \<longrightarrow> length b = BYTES_PER_BLOB"
  shows "bd_decode d \<noteq> Panic"
proof (cases "bd_data d")
  case (Some b)
  with assms have "length b = BYTES_PER_BLOB" by simp
  with bd_decode_eq [OF Some this] blob_decode_cases [OF this] show ?thesis
    by auto
qed (simp add: bd_decode_def)

lemma bd_fill_cases:
  "(\<exists>e. bd_fill blobs i d = Err e) \<or> bd_fill blobs i d = Ok (False, d)
   \<or> (i < length blobs \<and> bd_fill blobs i d = Ok (True, d\<lparr>bd_data := Some (Rep_blob (blobs ! i))\<rparr>))"
  by (auto simp: bd_fill_def)

definition blob_sized :: "blob_data \<Rightarrow> bool" where
  "blob_sized d \<longleftrightarrow> (\<forall>b. bd_data d = Some b \<longrightarrow> length b = BYTES_PER_BLOB)"

lemma bs_good_alt: "bs_good s \<longleftrightarrow> list_all blob_sized (bs_data s)"
  by (simp add: bs_good_def blob_sized_def list_all_iff)

lemma fill_blobs_cases:
  "list_all blob_sized ds \<Longrightarrow>
   (\<exists>e. fill_blobs blobs i ds = Err e) \<or> (\<exists>j ds'. fill_blobs blobs i ds = Ok (j, ds') \<and> list_all blob_sized ds')"
proof (induction blobs i ds rule: fill_blobs.induct)
  case (2 blobs i d ds)
  consider e where "bd_fill blobs i d = Err e"
    | inc d' where "bd_fill blobs i d = Ok (inc, d')" "blob_sized d'"
    using bd_fill_cases [of blobs i d] "2.prems" by (auto simp: blob_sized_def)
  then show ?case
  proof cases
    case (2 inc d')
    with "2.IH" [OF this(1) refl] "2.prems" show ?thesis by auto
  qed auto
qed simp

lemma extract_sized:
  "list_all blob_sized (fst acc) \<Longrightarrow> list_all blob_sized (fst (fold (extract_tx recover inbox batcher) txs acc))"
proof (induction txs arbitrary: acc)
  case (Cons tx txs)
  have "list_all blob_sized (fst (extract_tx recover inbox batcher tx acc))"
    using Cons.prems
    by (auto simp: extract_tx_def blob_sized_def blob_data_default_def list_all_iff
        split: prod.split option.split)
  with Cons.IH show ?case by simp
qed simp

lemma fill_data_safe: "list_all blob_sized data \<Longrightarrow> safe_action bs_good (fill_data blobs data)"
  using fill_blobs_cases [of data blobs 0]
  by (auto simp: safe_action_def fill_data_def bs_good_alt split: if_splits)

lemma bs_on_prev_safe:
  "safe_action bs_good (on_prev bs_blob_fetcher bs_blob_fetcher_update (await f))"
  "safe_action bs_good (on_prev bs_chain_provider bs_chain_provider_update (await g))"
  by (simp_all add: safe_action_def bs_good_def)

lemma place_blobs_safe:
  "safe_action (bs_good :: ('c, 'b) blob_source \<Rightarrow> bool) (place_blobs B recover r batcher txs)"
proof -
  have sized: "list_all blob_sized (fst (extract_blob_data recover inbox txs batcher))" for inbox
    using extract_sized [of "([], [])" recover inbox batcher txs] by (simp add: extract_blob_data_def)
  have "fst (place_blobs B recover r batcher txs s) \<noteq> Panic \<and> bs_good (snd (place_blobs B recover r batcher txs s))"
    if s: "bs_good s" for s :: "('c, 'b) blob_source"
  proof -
    obtain data hashes where ex: "extract_blob_data recover (bs_batcher_address s) txs batcher = (data, hashes)"
      by fastforce
    then have data: "list_all blob_sized data"
      using sized [of "bs_batcher_address s"] by simp
    have "safe_action (bs_good :: ('c, 'b) blob_source \<Rightarrow> bool) (abind (on_prev bs_blob_fetcher bs_blob_fetcher_update
        (await (bp_get_and_validate_blobs B r hashes))) (\<lambda>blobs. fill_data blobs data))"
      by (rule safe_abind [OF bs_on_prev_safe(1) fill_data_safe [OF data]])
    note fill = safe_actionD [OF this s]
    have "bs_good (s\<lparr>bs_open := True, bs_data := data\<rparr>)"
      using data by (simp add: bs_good_alt)
    with fill show ?thesis
      by (simp add: place_blobs_def ex)
  qed
  then show ?thesis by (simp add: safe_action_def)
qed

lemma load_blobs_safe:
  "safe_action (bs_good :: ('c, 'b) blob_source \<Rightarrow> bool) (load_blobs C B recover r batcher)"
proof -
  have "safe_action (bs_good :: ('c, 'b) blob_source \<Rightarrow> bool)
      (abind (on_prev bs_chain_provider bs_chain_provider_update
        (await (cp_block_info_and_transactions_by_hash C (bi_hash r))))
        (\<lambda>info. place_blobs B recover r batcher (snd info)))"
    by (rule safe_abind [OF bs_on_prev_safe(2) place_blobs_safe])
  then show ?thesis
    by (simp add: safe_action_def load_blobs_def)
qed

lemma bs_next_safe:
  "safe_action (bs_good :: ('c, 'b) blob_source \<Rightarrow> bool) (bs_next C B recover r batcher)"
proof -
  have "bs_good s \<Longrightarrow> fst (bs_next C B recover r batcher s) \<noteq> Panic \<and> bs_good (snd (bs_next C B recover r batcher s))"
    for s :: "('c, 'b) blob_source"
  proof (induction C B recover r batcher s rule: bs_next.induct)
    case (1 C B recover r batcher s)
    obtain x s1 where load: "load_blobs C B recover r batcher s = (x, s1)"
      by fastforce
    have s1: "x \<noteq> Panic" "bs_good s1"
      using safe_actionD [OF load_blobs_safe "1.prems", of C B recover r batcher] load by simp_all
    show ?case
    proof (cases x)
      case (Ok u)
      show ?thesis
      proof (cases "bs_data s1")
        case (Cons d ds)
        let ?s2 = "s1\<lparr>bs_data := ds\<rparr>"
        have pop: "bs_next_data s1 = (Ok d, ?s2)"
          by (simp add: bs_next_data_def Cons)
        have s2: "bs_good ?s2" "bd_decode d \<noteq> Panic"
          using s1(2) Cons bd_decode_no_panic [of d] by (auto simp: bs_good_def)
        show ?thesis
          using "1.IH" [OF load [symmetric] Ok pop [symmetric] refl] s2
          by (auto simp: bs_next.simps [of C B recover r batcher s] load Ok pop split: option.split outcome.split)
      qed (use Ok s1 in \<open>simp add: bs_next.simps [of C B recover r batcher s] load bs_next_data_def\<close>)
    qed (use s1 in \<open>simp_all add: bs_next.simps [of C B recover r batcher s] load\<close>)
  qed
  then show ?thesis by (simp add: safe_action_def)
qed

lemma load_calldata_safe: "safe_action (\<lambda>_. True) (load_calldata C recover r batcher)"
  by (simp add: safe_action_def load_calldata_def collect_calldata_def abind_def on_prev_def await_def
      split: prod.split sum.split)

lemma cs_next_safe: "safe_action (\<lambda>_. True) (cs_next C recover r batcher)"
  unfolding cs_next_def
  by (rule safe_abind [OF load_calldata_safe]) (auto simp: safe_action_def split: list.split)

definition es_good :: "('c, 'b) ethereum_source \<Rightarrow> bool" where
  "es_good s \<longleftrightarrow> bs_good (es_blob_source s)"

interpretation ethereum: da_source "ethereum_ops C B recover" es_good
  for C :: "('c, 'sig) chain_provider" and B :: "'b blob_provider" and recover :: "'sig signer"
proof unfold_locales
  show "safe_action es_good (da_next (ethereum_ops C B recover) r batcher)" for r batcher
    using bs_next_safe [of C B recover r batcher] cs_next_safe [of C recover r batcher]
    by (simp add: safe_action_def ethereum_ops_def es_next_def es_good_def)
  show "es_good d \<Longrightarrow> es_good (da_clear (ethereum_ops C B recover) d)" for d
    by (simp add: ethereum_ops_def es_clear_def es_good_def bs_clear_def bs_good_def)
qed

definition lr_good :: "('p \<Rightarrow> bool) \<Rightarrow> ('d \<Rightarrow> bool) \<Rightarrow> ('p, 'd) l1_retrieval \<Rightarrow> bool" where
  "lr_good good dgood s \<longleftrightarrow> good (lr_prev s) \<and> dgood (lr_provider s)"

locale retrieval = block_source S good + da_source D dgood
  for S :: "('p, block_info option) stage" and good :: "'p \<Rightarrow> bool"
    and D :: "'d da_ops" and dgood :: "'d \<Rightarrow> bool" +
  fixes addr :: "'p \<Rightarrow> address"
begin

lemma lr_on_prev_safe: "safe_action good act \<Longrightarrow> safe_action (lr_good good dgood) (on_prev lr_prev lr_prev_update act)"
  by (auto simp: safe_action_def lr_good_def)

lemma lr_on_prev_keeps:
  "keeps good (st_origin S) act \<Longrightarrow> keeps (lr_good good dgood) (lr_origin S) (on_prev lr_prev lr_prev_update act)"
  by (auto simp: keeps_def lr_good_def lr_origin_def)

lemma lr_reopen_safe: "safe_action (lr_good good dgood) (lr_reopen S D u)"
  by (auto simp: safe_action_def lr_reopen_def lr_good_def da_clear_good)

lemma lr_pull_safe: "safe_action (lr_good good dgood) (lr_pull S)" and lr_pull_origin: "keeps (lr_good good dgood) (lr_origin S) (lr_pull S)"
proof -
  note prev = lr_on_prev_safe [OF next_safe] lr_on_prev_keeps [OF next_origin]
  define f :: "block_info option \<Rightarrow> (('p, 'd) l1_retrieval, unit) action" where
    "f = (\<lambda>b s. case b of None \<Rightarrow> (Err (temp MissingL1Data), s) | Some b \<Rightarrow> (Ok (), s\<lparr>lr_next := Some b\<rparr>))"
  have f: "safe_action (lr_good good dgood) (f b)" "keeps (lr_good good dgood) (lr_origin S) (f b)" for b
    by (auto simp: f_def safe_action_def keeps_def lr_good_def lr_origin_def split: option.split)
  note run = safe_abind [OF prev(1), of f, OF f(1)] keeps_abind [OF prev, of f, OF f(2)]
  show "safe_action (lr_good good dgood) (lr_pull S)" "keeps (lr_good good dgood) (lr_origin S) (lr_pull S)"
    using run by (simp_all add: safe_action_def keeps_def lr_pull_def f_def)
qed

lemma lr_pull_next: "lr_pull S s = (Ok u, s') \<Longrightarrow> lr_next s' \<noteq> None"
  by (auto simp: lr_pull_def abind_def split: if_splits prod.splits outcome.splits option.splits)

lemma lr_next_data_run:
  assumes "lr_good good dgood s"
  shows "fst (lr_next_data S addr D s) \<noteq> Panic \<and> (lr_good good dgood) (snd (lr_next_data S addr D s))
    \<and> lr_origin S (snd (lr_next_data S addr D s)) = lr_origin S s"
proof -
  obtain r s1 where pull: "lr_pull S s = (r, s1)" by fastforce
  have s1: "r \<noteq> Panic" "(lr_good good dgood) s1" "lr_origin S s1 = lr_origin S s"
    using safe_actionD [OF lr_pull_safe assms] keepsD [OF lr_pull_origin assms] pull by simp_all
  show ?thesis
  proof (cases r)
    case (Ok u)
    with lr_pull_next pull obtain nxt where nxt: "lr_next s1 = Some nxt" by fastforce
    define batcher where
      "batcher = (case lr_da_batcher_sender_override s1 of Some a \<Rightarrow> a | None \<Rightarrow> addr (lr_prev s1))"
    obtain x d where run: "da_next D nxt batcher (lr_provider s1) = (x, d)" by fastforce
    have d: "x \<noteq> Panic" "dgood d"
      using safe_actionD [OF da_next_safe, of "lr_provider s1" nxt batcher] s1(2) run by (simp_all add: lr_good_def)
    show ?thesis
      using pull Ok nxt run d s1
      by (auto simp: lr_next_data_def abind_def on_prev_def batcher_def [symmetric] lr_good_def lr_origin_def
          da_clear_good split: outcome.split)
  qed (use pull s1 in \<open>simp_all add: lr_next_data_def abind_def\<close>)
qed

end

sublocale retrieval \<subseteq> l1: data_source "l1_retrieval_stage S addr D" "lr_good good dgood"
proof unfold_locales
  show "safe_action (lr_good good dgood) (st_next (l1_retrieval_stage S addr D))"
    "keeps (lr_good good dgood) (st_origin (l1_retrieval_stage S addr D)) (st_next (l1_retrieval_stage S addr D))"
    using lr_next_data_run by (simp_all add: safe_action_def keeps_def)
  show "safe_action (lr_good good dgood) (st_advance (l1_retrieval_stage S addr D))"
    by (simp add: lr_advance_origin_def lr_on_prev_safe advance_safe)
  show "safe_action (lr_good good dgood) (st_reset (l1_retrieval_stage S addr D) l1_origin cfg)" for l1_origin cfg
    by (simp add: lr_reset_def safe_abind lr_on_prev_safe reset_safe lr_reopen_safe)
  show "safe_action (lr_good good dgood) (st_activate (l1_retrieval_stage S addr D))"
    by (simp add: lr_activate_def safe_abind lr_on_prev_safe activate_safe lr_reopen_safe)
  show "safe_action (lr_good good dgood) (st_flush (l1_retrieval_stage S addr D))"
    "keeps (lr_good good dgood) (st_origin (l1_retrieval_stage S addr D)) (st_flush (l1_retrieval_stage S addr D))"
    by (simp_all add: lr_flush_channel_def lr_on_prev_safe lr_on_prev_keeps flush_safe flush_origin)
qed

interpretation eth_retrieval: retrieval "polling_traversal_stage A C" "\<lambda>_. True" "ethereum_ops C' B recover" es_good batcher_addr
  for A :: abi_codec and C :: "('c, 'sig) chain_provider"
    and C' :: "('e, 'tx) chain_provider" and B :: "'b blob_provider" and recover :: "'tx signer"
  by unfold_locales

section \<open>What a source delivers\<close>

definition payload_of :: "blob_data \<Rightarrow> bytes option" where
  "payload_of d = (case bd_calldata d of Some c \<Rightarrow> Some c
     | None \<Rightarrow> (case bd_decode d of Ok bs \<Rightarrow> Some bs | _ \<Rightarrow> None))"

definition payloads :: "blob_data list \<Rightarrow> bytes list" where
  "payloads = List.map_filter payload_of"

lemma payloads_simps [simp]:
  "payloads [] = []"
  "payloads (d # ds) = (case payload_of d of Some p \<Rightarrow> p # payloads ds | None \<Rightarrow> payloads ds)"
  by (simp_all add: payloads_def map_filter_simps split: option.split)

lemma payloads_append [simp]: "payloads (ds @ ds') = payloads ds @ payloads ds'"
  by (induction ds) (auto split: option.split)

lemma bs_next_open:
  assumes "bs_open s" "list_all blob_sized (bs_data s)"
  shows "case payloads (bs_data s) of
      [] \<Rightarrow> bs_next C B recover r batcher s = (Err (Temporary Eof), s\<lparr>bs_data := []\<rparr>)
    | p # ps \<Rightarrow> \<exists>ds. bs_next C B recover r batcher s = (Ok p, s\<lparr>bs_data := ds\<rparr>)
        \<and> payloads ds = ps \<and> list_all blob_sized ds"
  using assms
proof (induction "bs_data s" arbitrary: s)
  case Nil
  then show ?case
    by (simp add: bs_next.simps [of C B recover r batcher s] load_blobs_def bs_next_data_def)
next
  case (Cons d ds)
  let ?s = "s\<lparr>bs_data := ds\<rparr>"
  have pop: "load_blobs C B recover r batcher s = (Ok (), s)" "bs_next_data s = (Ok d, ?s)"
    using Cons.prems(1) Cons.hyps(2) by (simp_all add: load_blobs_def bs_next_data_def flip: Cons.hyps(2))
  have sized: "blob_sized d" "list_all blob_sized ds"
    using Cons.prems(2) by (simp_all flip: Cons.hyps(2))
  have dec: "bd_decode d \<noteq> Panic"
    using sized(1) by (intro bd_decode_no_panic) (simp add: blob_sized_def)
  have IH: "case payloads ds of
      [] \<Rightarrow> bs_next C B recover r batcher ?s = (Err (Temporary Eof), s\<lparr>bs_data := []\<rparr>)
    | p # ps \<Rightarrow> \<exists>ds. bs_next C B recover r batcher ?s = (Ok p, s\<lparr>bs_data := ds\<rparr>)
        \<and> payloads ds = ps \<and> list_all blob_sized ds"
    using Cons.hyps(1) [of ?s] Cons.prems(1) sized(2) by (cases "payloads ds") simp_all
  show ?case
  proof (cases "payload_of d")
    case None
    with dec have "bs_next C B recover r batcher s = bs_next C B recover r batcher ?s"
      by (auto simp: payload_of_def bs_next.simps [of C B recover r batcher s] pop
          split: option.splits outcome.splits)
    with IH None show ?thesis by (cases "payloads ds") (simp_all flip: Cons.hyps(2))
  next
    case (Some p)
    with dec have "bs_next C B recover r batcher s = (Ok p, ?s)"
      by (auto simp: payload_of_def bs_next.simps [of C B recover r batcher s] pop
          split: option.splits outcome.splits)
    with Some sized(2) show ?thesis by (auto simp flip: Cons.hyps(2))
  qed
qed

lemma run_calls_open:
  assumes "bs_open s" "list_all blob_sized (bs_data s)"
  shows "fst (run_calls n (bs_next C B recover r batcher) s)
    = map Ok (take n (payloads (bs_data s)))
      @ replicate (n - length (payloads (bs_data s))) (Err (Temporary Eof))"
  using assms
proof (induction n arbitrary: s)
  case (Suc n)
  show ?case
  proof (cases "payloads (bs_data s)")
    case Nil
    with bs_next_open [OF Suc.prems, of C B recover r batcher]
    have "bs_next C B recover r batcher s = (Err (Temporary Eof), s\<lparr>bs_data := []\<rparr>)" by simp
    with Nil Suc.IH [of "s\<lparr>bs_data := []\<rparr>"] Suc.prems show ?thesis
      by (simp add: Let_def case_prod_unfold)
  next
    case (Cons p ps)
    with bs_next_open [OF Suc.prems, of C B recover r batcher] obtain ds
      where "bs_next C B recover r batcher s = (Ok p, s\<lparr>bs_data := ds\<rparr>)" "payloads ds = ps" "list_all blob_sized ds"
      by auto
    with Cons Suc.IH [of "s\<lparr>bs_data := ds\<rparr>"] Suc.prems show ?thesis
      by (simp add: Let_def case_prod_unfold)
  qed
qed simp

text \<open>The transactions of a block that count, the blobs they reference, and the payloads they carry
  once the blobs are there.\<close>

definition batcher_tx :: "'sig signer \<Rightarrow> address \<Rightarrow> address \<Rightarrow> 'sig tx_envelope \<Rightarrow> bool" where
  "batcher_tx recover inbox batcher tx \<longleftrightarrow>
     (case blob_parts tx of Some (Some to, _) \<Rightarrow> to = inbox | _ \<Rightarrow> False)
     \<and> (case recover tx of Some signer \<Rightarrow> signer | None \<Rightarrow> 0) = batcher"

fun tx_hashes :: "'sig tx_envelope \<Rightarrow> b256 list" where
  "tx_hashes (Eip4844 v) = tx4_blob_versioned_hashes (variant_tx v)"
| "tx_hashes tx = []"

fun tx_calldata :: "'sig tx_envelope \<Rightarrow> bytes" where
  "tx_calldata (Legacy t) = tx_input t"
| "tx_calldata (Eip2930 t) = tx_input t"
| "tx_calldata (Eip1559 t) = tx_input t"
| "tx_calldata tx = []"

definition batcher_hashes :: "'sig signer \<Rightarrow> address \<Rightarrow> address \<Rightarrow> 'sig tx_envelope list \<Rightarrow> b256 list" where
  "batcher_hashes recover inbox batcher txs = concat (map tx_hashes (filter (batcher_tx recover inbox batcher) txs))"

fun inbox_payloads :: "'sig signer \<Rightarrow> address \<Rightarrow> address \<Rightarrow> 'sig tx_envelope list \<Rightarrow> blob list \<Rightarrow> bytes list" where
  "inbox_payloads recover inbox batcher [] blobs = []"
| "inbox_payloads recover inbox batcher (tx # txs) blobs =
     (if \<not> batcher_tx recover inbox batcher tx then inbox_payloads recover inbox batcher txs blobs
      else if is_eip4844 tx
      then let k = length (tx_hashes tx) in
           List.map_filter (\<lambda>b. case blob_decode (Rep_blob b) of Ok d \<Rightarrow> Some d | _ \<Rightarrow> None) (take k blobs)
           @ inbox_payloads recover inbox batcher txs (drop k blobs)
      else tx_calldata tx # inbox_payloads recover inbox batcher txs blobs)"

definition tx_slots :: "'sig tx_envelope \<Rightarrow> blob_data list" where
  "tx_slots tx = (if is_eip4844 tx then map (\<lambda>_. blob_data_default) (tx_hashes tx)
     else [\<lparr>bd_data = None, bd_calldata = Some (tx_calldata tx)\<rparr>])"

lemma extract_tx_slots:
  "extract_tx recover inbox batcher tx (data, hashes) =
     (if batcher_tx recover inbox batcher tx then (data @ tx_slots tx, hashes @ tx_hashes tx) else (data, hashes))"
  by (cases tx) (auto simp: extract_tx_def batcher_tx_def tx_slots_def is_eip4844_def split: option.split)

lemma extract_slots:
  "fold (extract_tx recover inbox batcher) txs (data, hashes) =
     (data @ concat (map tx_slots (filter (batcher_tx recover inbox batcher) txs)),
      hashes @ batcher_hashes recover inbox batcher txs)"
  by (induction txs arbitrary: data hashes) (simp_all add: extract_tx_slots batcher_hashes_def)

lemma fill_defaults:
  assumes "i + length hs \<le> length blobs"
  shows "fill_blobs blobs i (map (\<lambda>_. blob_data_default) hs @ ds) =
    obind (fill_blobs blobs (i + length hs) ds) (\<lambda>(j, ds').
      Ok (j, map (\<lambda>b. \<lparr>bd_data = Some (Rep_blob b), bd_calldata = None\<rparr>) (take (length hs) (drop i blobs)) @ ds'))"
  using assms
proof (induction hs arbitrary: i)
  case Nil
  then show ?case by (cases "fill_blobs blobs i ds") auto
next
  case (Cons h hs)
  then have i: "i < length blobs" by simp
  have ne: "Rep_blob (blobs ! i) \<noteq> []"
    by (metis length_Rep_blob BYTES_PER_BLOB_def list.size(3) zero_neq_numeral)
  have "bd_fill blobs i blob_data_default
      = Ok (True, \<lparr>bd_data = Some (Rep_blob (blobs ! i)), bd_calldata = None\<rparr>)"
    using i ne by (simp add: bd_fill_def blob_data_default_def)
  moreover have "take (Suc (length hs)) (drop i blobs) = blobs ! i # take (length hs) (drop (Suc i) blobs)"
    using i by (simp add: take_Suc_conv_app_nth Cons_nth_drop_Suc [symmetric])
  ultimately show ?case
    using Cons.IH [of "Suc i"] Cons.prems by (cases "fill_blobs blobs (Suc (i + length hs)) ds") auto
qed

lemma fill_slots:
  assumes "i + length (batcher_hashes recover inbox batcher txs) \<le> length blobs"
  shows "\<exists>ds. fill_blobs blobs i (concat (map tx_slots (filter (batcher_tx recover inbox batcher) txs)))
      = Ok (i + length (batcher_hashes recover inbox batcher txs), ds)
    \<and> payloads ds = inbox_payloads recover inbox batcher txs (drop i blobs) \<and> list_all blob_sized ds"
  using assms
proof (induction txs arbitrary: i)
  case (Cons tx txs)
  let ?B = "batcher_tx recover inbox batcher" and ?H = "batcher_hashes recover inbox batcher"
  show ?case
  proof (cases "?B tx")
    case True
    have blob: "payload_of \<lparr>bd_data = Some (Rep_blob b), bd_calldata = None\<rparr>
        = (case blob_decode (Rep_blob b) of Ok d \<Rightarrow> Some d | _ \<Rightarrow> None)" for b
      using bd_decode_eq [of "\<lparr>bd_data = Some (Rep_blob b), bd_calldata = None\<rparr>" "Rep_blob b"]
      by (cases "blob_decode (Rep_blob b)") (simp_all add: payload_of_def)
    have blobs: "payloads (map (\<lambda>b. \<lparr>bd_data = Some (Rep_blob b), bd_calldata = None\<rparr>) bl)
        = List.map_filter (\<lambda>b. case blob_decode (Rep_blob b) of Ok d \<Rightarrow> Some d | _ \<Rightarrow> None) bl" for bl
      by (induction bl) (simp_all add: blob map_filter_simps split: outcome.split)
    have H: "?H (tx # txs) = tx_hashes tx @ ?H txs"
      using True by (simp add: batcher_hashes_def)
    show ?thesis
    proof (cases "is_eip4844 tx")
      case blob_tx: True
      let ?k = "length (tx_hashes tx)"
      from Cons.IH [of "i + ?k"] Cons.prems H obtain ds where
        ds: "fill_blobs blobs (i + ?k) (concat (map tx_slots (filter ?B txs))) = Ok (i + ?k + length (?H txs), ds)"
          "payloads ds = inbox_payloads recover inbox batcher txs (drop (i + ?k) blobs)" "list_all blob_sized ds"
        by auto
      with fill_defaults [of i "tx_hashes tx" blobs "concat (map tx_slots (filter ?B txs))"] Cons.prems H
      show ?thesis
        using True blob_tx
        by (intro exI [of _ "map (\<lambda>b. \<lparr>bd_data = Some (Rep_blob b), bd_calldata = None\<rparr>)
              (take ?k (drop i blobs)) @ ds"])
           (auto simp: tx_slots_def [of tx] blobs Let_def add.commute add.left_commute list_all_iff blob_sized_def)
    next
      case False
      then have "tx_hashes tx = []" by (cases tx) (simp_all add: is_eip4844_def)
      with Cons.IH [of i] Cons.prems H True False show ?thesis
        by (auto simp: tx_slots_def [of tx] bd_fill_def payload_of_def blob_sized_def)
    qed
  next
    case False
    with Cons show ?thesis by (simp add: batcher_hashes_def)
  qed
qed (simp add: batcher_hashes_def)

lemma calldata_slots:
  "batcher_hashes recover inbox batcher txs = [] \<Longrightarrow>
   payloads (concat (map tx_slots (filter (batcher_tx recover inbox batcher) txs)))
     = inbox_payloads recover inbox batcher txs blobs"
  by (induction txs) (auto simp: batcher_hashes_def tx_slots_def payload_of_def map_filter_simps)

section \<open>Properties\<close>

text \<open>C40. The blob source delivers a block's batcher data completely and in order: when the providers
  answer with the block's transactions and one blob per referenced hash, successive calls of
  \<open>next\<close> return the calldata of the batcher's ordinary transactions and the decoded blobs of its
  blob transactions in the order of the block, leave out exactly the blobs that do not decode, and
  report the end of the data from then on.\<close>

theorem blob_source_delivers:
  assumes "\<not> bs_open s"
    and "cp_block_info_and_transactions_by_hash C (bi_hash r) (bs_chain_provider s) = (Inr (info, txs), c)"
    and "bp_get_and_validate_blobs B r (batcher_hashes recover (bs_batcher_address s) batcher txs) (bs_blob_fetcher s)
      = (Inr blobs, b)"
    and "length blobs = length (batcher_hashes recover (bs_batcher_address s) batcher txs)"
  shows "fst (run_calls n (bs_next C B recover r batcher) s)
    = (let ps = inbox_payloads recover (bs_batcher_address s) batcher txs blobs
       in map Ok (take n ps) @ replicate (n - length ps) (Err (Temporary Eof)))"
proof (cases n)
  case (Suc m)
  let ?H = "batcher_hashes recover (bs_batcher_address s) batcher txs"
    and ?D = "concat (map tx_slots (filter (batcher_tx recover (bs_batcher_address s) batcher) txs))"
  have ex: "extract_blob_data recover (bs_batcher_address s') txs batcher = (?D, ?H)"
    if "bs_batcher_address s' = bs_batcher_address s" for s' :: "('a, 'd) blob_source"
    by (simp add: extract_blob_data_def extract_slots that)
  obtain ds where fill: "fill_blobs blobs 0 ?D = Ok (length blobs, ds)"
      "payloads ds = inbox_payloads recover (bs_batcher_address s) batcher txs blobs" "list_all blob_sized ds"
    using fill_slots [of 0 recover "bs_batcher_address s" batcher txs blobs] assms(4) by auto
  have "\<exists>s' data. load_blobs C B recover r batcher s = (Ok (), s') \<and> bs_open s' \<and> bs_data s' = data
      \<and> payloads data = inbox_payloads recover (bs_batcher_address s) batcher txs blobs \<and> list_all blob_sized data"
  proof (cases "?H = []")
    case True
    have "list_all blob_sized ?D"
      using extract_sized [of "([], [])" recover "bs_batcher_address s" batcher txs]
      by (simp add: extract_slots)
    with True calldata_slots [OF True, of blobs] show ?thesis
      using assms(1,2) by (simp add: load_blobs_def abind_def on_prev_def await_def place_blobs_def ex)
  next
    case False
    then show ?thesis
      using assms fill by (simp add: load_blobs_def abind_def on_prev_def await_def place_blobs_def ex fill_data_def)
  qed
  then obtain s' where s': "load_blobs C B recover r batcher s = (Ok (), s')" "bs_open s'"
      "payloads (bs_data s') = inbox_payloads recover (bs_batcher_address s) batcher txs blobs"
      "list_all blob_sized (bs_data s')"
    by blast
  have "bs_next C B recover r batcher s = bs_next C B recover r batcher s'"
    using s' by (simp add: bs_next.simps [of C B recover r batcher s] bs_next.simps [of C B recover r batcher s']
        load_blobs_def [of C B recover r batcher s'])
  then have "run_calls n (bs_next C B recover r batcher) s = run_calls n (bs_next C B recover r batcher) s'"
    by (simp add: Suc)
  then show ?thesis
    using run_calls_open [OF s'(2,4), of n C B recover r batcher] s'(3) by (simp add: Let_def)
qed simp

definition one_block :: "('c, unit) chain_provider" where
  "one_block = \<lparr>cp_block_info_by_number = (\<lambda>n c. (Inr block_info_default, c)),
     cp_receipts_by_hash = (\<lambda>h c. (Inr [], c)),
     cp_block_info_and_transactions_by_hash = (\<lambda>h c. (Inr (block_info_default,
       [Legacy \<lparr>tx_to = Some 5, tx_input = [7], tx_rest = ()\<rparr>,
        Eip1559 \<lparr>tx_to = Some 6, tx_input = [8], tx_rest = ()\<rparr>]), c))\<rparr>"

definition no_blobs :: "'b blob_provider" where
  "no_blobs = \<lparr>bp_get_and_validate_blobs = (\<lambda>r hs b. (Inr [], b))\<rparr>"

theorem blob_source_delivers_witness:
  "fst (run_calls 2 (bs_next one_block no_blobs (\<lambda>_. Some 9) block_info_default 9) (blob_source_new () () 5))
    = [Ok [7], Err (Temporary Eof)]"
  using blob_source_delivers [of "blob_source_new () () 5" one_block block_info_default block_info_default
      "[Legacy \<lparr>tx_to = Some 5, tx_input = [7], tx_rest = ()\<rparr>,
        Eip1559 \<lparr>tx_to = Some 6, tx_input = [8], tx_rest = ()\<rparr>]" "()" no_blobs "\<lambda>_. Some 9" 9 "[]" "()" 2]
  by (simp add: blob_source_new_def one_block_def no_blobs_def batcher_hashes_def batcher_tx_def
      is_eip4844_def Let_def)

text \<open>After a reset the data of the new origin is read twice: resetting the retrieval stage over the
  traversal stage schedules the origin the provider returned, with cleared buffers, and leaves the
  traversal stage armed, so that once this block is exhausted the next pull schedules the same block
  again before the stage runs dry.\<close>

lemma reset_schedules_origin_twice:
  assumes "lr_reset (polling_traversal_stage A C) D l1_origin cfg s = (Ok (), s0)"
  shows "\<exists>b. lr_next s0 = Some b \<and> lr_origin (polling_traversal_stage A C) s0 = Some b
    \<and> lr_provider s0 = da_clear D (lr_provider s)
    \<and> pt_system_config (lr_prev s0) = cfg
    \<and> (\<exists>s1. lr_pull (polling_traversal_stage A C) (s0\<lparr>lr_next := None\<rparr>) = (Ok (), s1) \<and> lr_next s1 = Some b
        \<and> lr_pull (polling_traversal_stage A C) (s1\<lparr>lr_next := None\<rparr>)
            = (Err (Temporary Eof), s1\<lparr>lr_next := None\<rparr>))"
proof -
  from assms obtain b where s0: "lr_next s0 = Some b" "pt_block (lr_prev s0) = Some b" "\<not> pt_done (lr_prev s0)"
      "lr_provider s0 = da_clear D (lr_provider s)" "pt_system_config (lr_prev s0) = cfg"
    by (auto simp: lr_reset_def abind_def on_prev_def pt_reset_def on_source_def await_def update_origin_def
        lr_reopen_def lr_origin_def split: prod.splits sum.splits outcome.splits)
  define s1 where "s1 = s0\<lparr>lr_prev := (lr_prev s0)\<lparr>pt_done := True\<rparr>\<rparr>"
  have "lr_pull (polling_traversal_stage A C) (s0\<lparr>lr_next := None\<rparr>) = (Ok (), s1)" "lr_next s1 = Some b"
    using s0 by (simp_all add: lr_pull_def abind_def on_prev_def next_l1_block_def s1_def)
  moreover have "lr_pull (polling_traversal_stage A C) (s1\<lparr>lr_next := None\<rparr>)
      = (Err (Temporary Eof), s1\<lparr>lr_next := None\<rparr>)"
    by (simp add: lr_pull_def abind_def on_prev_def next_l1_block_def s1_def)
  ultimately show ?thesis
    using s0 by (simp add: lr_origin_def)
qed

end
