(* ===== verification/Derivation_Pipeline.thy ===== *)
theory Derivation_Pipeline
  imports Attributes_Queue L1_Sources
begin

text \<open>
  The derivation pipeline (crates/consensus/derive/src/pipeline/core.rs): the queue of prepared
  attributes in front of the stages, the step that pulls attributes or advances the L1 origin, the
  signals of types/signals.rs, and the walk back along the L2 chain that a reset starts with.  The
  stages are composed as in pipeline/builder.rs.  The walk back may run forever on a provider that
  answers with the wrong blocks, so it is a partial function and not returning is \<open>None\<close>.
\<close>

section \<open>State\<close>

text \<open>The L2 chain as the pipeline sees it.\<close>

record 'l l2_chain_provider =
  lc_l2_block_info_by_number :: "u64 \<Rightarrow> ('l, l2_block_info) call"
  lc_system_config_by_number :: "u64 \<Rightarrow> rollup_config \<Rightarrow> ('l, system_config) call"

record ('s, 'l) derivation_pipeline =
  dp_attributes :: 's
  dp_prepared :: "attributes_with_parent list"
  dp_rollup_config :: rollup_config
  dp_l2_chain_provider :: 'l

definition derivation_pipeline_new :: "'s \<Rightarrow> rollup_config \<Rightarrow> 'l \<Rightarrow> ('s, 'l) derivation_pipeline" where
  "derivation_pipeline_new attributes rollup_config l2_chain_provider =
     \<lparr>dp_attributes = attributes, dp_prepared = [], dp_rollup_config = rollup_config,
      dp_l2_chain_provider = l2_chain_provider\<rparr>"

datatype signal = SignalReset l2_block_info | SignalActivation l2_block_info | FlushChannel

datatype step_result =
    PreparedAttributes
  | AdvancedOrigin
  | OriginAdvanceErr pipeline_error_kind
  | StepFailed pipeline_error_kind

section \<open>The initial reset\<close>

partial_function (option) walk_back ::
    "'l l2_chain_provider \<Rightarrow> u64 \<Rightarrow> u64 \<Rightarrow> u64 \<Rightarrow> l2_block_info \<Rightarrow> 'l
       \<Rightarrow> ((pipeline_error_kind + l2_block_info) \<times> 'l) option" where
  "walk_back L genesis timeout l1_origin_number current c =
     (if bi_number (l2_block current) = genesis then Some (Inr current, c)
      else if nh_number (l2_l1_origin current) + timeout \<le> l1_origin_number then Some (Inr current, c)
      else (case lc_l2_block_info_by_number L (bi_number (l2_block current) - 1) c of
              (Inl e, c) \<Rightarrow> Some (Inl e, c)
            | (Inr block, c) \<Rightarrow> walk_back L genesis timeout l1_origin_number block c))"

definition reset_timeout :: "rollup_config \<Rightarrow> l2_block_info \<Rightarrow> u64" where
  "reset_timeout cfg safe =
     (let safe_ts = bi_timestamp (l2_block safe);
          l1_origin_ts_lower_bound = saturating_sub safe_ts (max_sequencer_drift cfg safe_ts)
      in channel_timeout cfg l1_origin_ts_lower_bound)"

definition initial_reset ::
    "'l l2_chain_provider \<Rightarrow> rollup_config \<Rightarrow> l2_block_info \<Rightarrow> 'l
       \<Rightarrow> ((pipeline_error_kind + block_num_hash \<times> system_config) \<times> 'l) option" where
  "initial_reset L cfg l2_safe_head c =
     (case walk_back L (nh_number (g_l2 (rc_genesis cfg))) (reset_timeout cfg l2_safe_head)
             (nh_number (l2_l1_origin l2_safe_head)) l2_safe_head c of
        None \<Rightarrow> None
      | Some (Inl e, c) \<Rightarrow> Some (Inl e, c)
      | Some (Inr current, c) \<Rightarrow>
          Some (case lc_system_config_by_number L (bi_number (l2_block current)) cfg c of
                  (Inl e, c) \<Rightarrow> (Inl e, c)
                | (Inr system_config, c) \<Rightarrow> (Inr (l2_l1_origin current, system_config), c)))"

section \<open>Operations\<close>

definition dp_origin ::
    "('s, l2_block_info, attributes_with_parent) query_stage \<Rightarrow> ('s, 'l) derivation_pipeline \<Rightarrow> block_info option" where
  "dp_origin S s = qs_origin S (dp_attributes s)"

definition dp_next :: "('s, 'l) derivation_pipeline \<Rightarrow> attributes_with_parent option \<times> ('s, 'l) derivation_pipeline" where
  "dp_next s =
     (case dp_prepared s of
        [] \<Rightarrow> (None, s)
      | a # as \<Rightarrow> (Some a, s\<lparr>dp_prepared := as\<rparr>))"

definition dp_peek :: "('s, 'l) derivation_pipeline \<Rightarrow> attributes_with_parent option" where
  "dp_peek s = (case dp_prepared s of [] \<Rightarrow> None | a # _ \<Rightarrow> Some a)"

text \<open>Resetting and activating ignore an end-of-file from the stages.\<close>

definition ignore_eof :: "('s, unit) action \<Rightarrow> ('s, unit) action" where
  "ignore_eof act s =
     (case act s of
        (Err e, s) \<Rightarrow> (if e = Temporary Eof then (Ok (), s) else (Err e, s))
      | (r, s) \<Rightarrow> (r, s))"

definition on_stages :: "('s, 'a) action \<Rightarrow> (('s, 'l) derivation_pipeline, 'a) action" where
  "on_stages = on_prev dp_attributes dp_attributes_update"

definition dp_signal ::
    "'l l2_chain_provider \<Rightarrow> ('s, l2_block_info, attributes_with_parent) query_stage \<Rightarrow> signal
       \<Rightarrow> ('s, 'l) derivation_pipeline \<Rightarrow> (unit presult \<times> ('s, 'l) derivation_pipeline) option" where
  "dp_signal L S sig s =
     (case sig of
        SignalReset l2_safe_head \<Rightarrow>
         (case initial_reset L (dp_rollup_config s) l2_safe_head (dp_l2_chain_provider s) of
            None \<Rightarrow> None
          | Some (Inl e, c) \<Rightarrow> Some (Err e, s\<lparr>dp_l2_chain_provider := c\<rparr>)
          | Some (Inr (l1_origin, system_config), c) \<Rightarrow>
              Some (on_stages (ignore_eof (qs_reset S l1_origin system_config)) (s\<lparr>dp_l2_chain_provider := c\<rparr>)))
      | SignalActivation _ \<Rightarrow> Some (on_stages (ignore_eof (qs_activate S)) s)
      | FlushChannel \<Rightarrow> Some (on_stages (qs_flush S) s))"

definition dp_advance ::
    "('s, l2_block_info, attributes_with_parent) query_stage \<Rightarrow> ('s, 'l) derivation_pipeline
       \<Rightarrow> (unit, step_result) outcome \<times> ('s, 'l) derivation_pipeline" where
  "dp_advance S s =
     (case on_stages (qs_advance S) s of
        (Ok _, s) \<Rightarrow> (Ok AdvancedOrigin, s)
      | (Err e, s) \<Rightarrow> (Ok (OriginAdvanceErr e), s)
      | (Panic, s) \<Rightarrow> (Panic, s))"

definition dp_step ::
    "('s, l2_block_info, attributes_with_parent) query_stage \<Rightarrow> l2_block_info \<Rightarrow> ('s, 'l) derivation_pipeline
       \<Rightarrow> (unit, step_result) outcome \<times> ('s, 'l) derivation_pipeline" where
  "dp_step S cursor s =
     (case on_stages (qs_next S cursor) s of
        (Ok a, s) \<Rightarrow> (Ok PreparedAttributes, s\<lparr>dp_prepared := dp_prepared s @ [a]\<rparr>)
      | (Err e, s) \<Rightarrow> (if e = Temporary Eof then dp_advance S s else (Ok (StepFailed e), s))
      | (Panic, s) \<Rightarrow> (Panic, s))"

section \<open>The composed pipeline\<close>

record ('d, 'c, 'f, 'ab) pipeline_builder =
  pb_l2_chain_provider :: 'f
  pb_dap_source :: 'd
  pb_chain_provider :: 'c
  pb_builder :: 'ab
  pb_origin :: block_info
  pb_rollup_config :: rollup_config
  pb_da_batcher_sender_override :: "address option"

type_synonym ('d, 'c, 'f) batch_provider_state =
  "(((('c polling_traversal, 'd) l1_retrieval frame_queue channel_provider channel_reader, 'f) batch_stream), 'f) batch_provider"

type_synonym ('d, 'c, 'f, 'ab) stages = "(('d, 'c, 'f) batch_provider_state, 'ab) attributes_queue"

definition build_traversal :: "('d, 'c, 'f, 'ab) pipeline_builder \<Rightarrow> 'c polling_traversal" where
  "build_traversal b =
     (let cfg = pb_rollup_config b;
          l1_traversal = (polling_traversal_new (pb_chain_provider b) cfg)\<lparr>pt_block := Some (pb_origin b)\<rparr>
      in case g_system_config (rc_genesis cfg) of
           None \<Rightarrow> l1_traversal
         | Some system_config \<Rightarrow> l1_traversal\<lparr>pt_system_config := system_config\<rparr>)"

definition build_polled ::
    "('d, 'c, 'f, 'ab) pipeline_builder \<Rightarrow> (('d, 'c, 'f, 'ab) stages, 'f) derivation_pipeline" where
  "build_polled b =
     (let cfg = pb_rollup_config b;
          l1_retrieval = (l1_retrieval_new (build_traversal b) (pb_dap_source b))
            \<lparr>lr_da_batcher_sender_override := pb_da_batcher_sender_override b\<rparr>;
          frame_queue = frame_queue_new l1_retrieval cfg;
          channel_provider = channel_provider_new cfg frame_queue;
          channel_reader = channel_reader_new channel_provider cfg;
          batch_stream = batch_stream_new channel_reader cfg (pb_l2_chain_provider b);
          batch_provider = batch_provider_new cfg batch_stream (pb_l2_chain_provider b);
          attributes = attributes_queue_new cfg batch_provider (pb_builder b)
      in derivation_pipeline_new attributes cfg (pb_l2_chain_provider b))"

text \<open>The operations of the composed stages, over the operations of the external parts.\<close>

definition batch_feed_ops ::
    "('c polling_traversal, block_info option) stage \<Rightarrow> 'd da_ops \<Rightarrow> 'b channel_codec \<Rightarrow> 'td wire
       \<Rightarrow> ('f, 'blk) validation_provider
       \<Rightarrow> (('c polling_traversal, 'd) l1_retrieval frame_queue channel_provider channel_reader, 'f) batch_stream batch_ops" where
  "batch_feed_ops T D K W F =
     batch_stream_ops F
       (channel_reader_source K W
         (channel_provider_stage (frame_queue_stage (l1_retrieval_stage T batcher_addr D))))"

definition polled_attributes_queue_stage ::
    "('c polling_traversal, block_info option) stage \<Rightarrow> 'd da_ops \<Rightarrow> 'b channel_codec \<Rightarrow> 'td wire
       \<Rightarrow> ('f, 'blk) validation_provider \<Rightarrow> 'ab attributes_builder
       \<Rightarrow> (('d, 'c, 'f, 'ab) stages, l2_block_info, attributes_with_parent) query_stage" where
  "polled_attributes_queue_stage T D K W F AB =
     attributes_queue_stage AB (batch_provider_ops F (batch_feed_ops T D K W F))"

section \<open>The walk back returns\<close>

text \<open>A chain that answers a query by number with the block of that number.\<close>

definition chain_numbered :: "'l l2_chain_provider \<Rightarrow> bool" where
  "chain_numbered L \<longleftrightarrow>
     (\<forall>n c b c'. lc_l2_block_info_by_number L n c = (Inr b, c') \<longrightarrow> bi_number (l2_block b) = n)"

text \<open>Where the walk back ends.\<close>

definition walk_end :: "u64 \<Rightarrow> u64 \<Rightarrow> u64 \<Rightarrow> l2_block_info \<Rightarrow> bool" where
  "walk_end genesis timeout l1_origin_number b \<longleftrightarrow>
     bi_number (l2_block b) = genesis \<or> nh_number (l2_l1_origin b) + timeout \<le> l1_origin_number"

lemma walk_back_returns:
  assumes "chain_numbered L" "genesis \<le> bi_number (l2_block current)"
  shows "\<exists>r c'. walk_back L genesis timeout l1_origin_number current c = Some (r, c')
    \<and> (\<forall>b. r = Inr b \<longrightarrow> walk_end genesis timeout l1_origin_number b
         \<and> genesis \<le> bi_number (l2_block b) \<and> bi_number (l2_block b) \<le> bi_number (l2_block current))"
  using assms(2)
proof (induction "unat (bi_number (l2_block current))" arbitrary: current c rule: less_induct)
  case less
  show ?case
  proof (cases "walk_end genesis timeout l1_origin_number current")
    case True
    then show ?thesis
      using less(2) by (auto simp: walk_back.simps [of L _ _ _ current] walk_end_def)
  next
    case False
    obtain r c1 where q: "lc_l2_block_info_by_number L (bi_number (l2_block current) - 1) c = (r, c1)"
      by fastforce
    have step: "walk_back L genesis timeout l1_origin_number current c =
        (case r of Inl e \<Rightarrow> Some (Inl e, c1) | Inr b \<Rightarrow> walk_back L genesis timeout l1_origin_number b c1)"
      using False q by (simp add: walk_back.simps [of L _ _ _ current] walk_end_def split: sum.split)
    show ?thesis
    proof (cases r)
      case (Inr b)
      have n: "bi_number (l2_block b) = bi_number (l2_block current) - 1"
        using assms(1) q Inr unfolding chain_numbered_def by blast
      have "genesis < bi_number (l2_block current)"
        using less(2) False by (auto simp: walk_end_def order.strict_iff_order)
      then have "unat (bi_number (l2_block b)) < unat (bi_number (l2_block current))"
          "genesis \<le> bi_number (l2_block b)"
        unfolding n by (auto simp: word_less_nat_alt word_le_nat_alt unat_sub_if')
      then show ?thesis
        using less(1) [of b c1] step Inr by (fastforce simp: word_le_nat_alt)
    qed (use step in simp)
  qed
qed

section \<open>Runs of the pipeline\<close>

text \<open>The epoch below which the pipeline may not be asked: a reset that reaches the stages lifts it.\<close>

definition dp_floor ::
    "'l l2_chain_provider \<Rightarrow> ('s, l2_block_info, attributes_with_parent) query_stage \<Rightarrow> signal
       \<Rightarrow> ('s, 'l) derivation_pipeline \<Rightarrow> nat \<Rightarrow> nat" where
  "dp_floor L S sig s m =
     (case sig of
        SignalReset l2_safe_head \<Rightarrow>
         (case initial_reset L (dp_rollup_config s) l2_safe_head (dp_l2_chain_provider s) of
            Some (Inr (l1_origin, system_config), _) \<Rightarrow>
              if fst (qs_reset S l1_origin system_config (dp_attributes s)) = Ok () then 0 else m
          | _ \<Rightarrow> m)
      | _ \<Rightarrow> m)"

definition signal_ok :: "rollup_config \<Rightarrow> signal \<Rightarrow> bool" where
  "signal_ok cfg sig \<longleftrightarrow>
     (case sig of SignalReset head \<Rightarrow> nh_number (g_l2 (rc_genesis cfg)) \<le> bi_number (l2_block head) | _ \<Rightarrow> True)"

text \<open>The states the pipeline can get into when it is stepped on heads on the block schedule whose epochs
  do not go back without a reset, signalled, and drained, in any order.  \<open>m\<close> is the epoch of the last
  head since the last reset.\<close>

inductive reaches ::
    "'l l2_chain_provider \<Rightarrow> ('s, l2_block_info, attributes_with_parent) query_stage \<Rightarrow> rollup_config
       \<Rightarrow> ('s, 'l) derivation_pipeline \<Rightarrow> nat \<Rightarrow> ('s, 'l) derivation_pipeline \<Rightarrow> bool"
  for L S cfg s0 where
  reaches_init: "reaches L S cfg s0 0 s0"
| reaches_step: "reaches L S cfg s0 m s \<Longrightarrow> head_ok cfg cursor \<Longrightarrow> m \<le> head_epoch cursor \<Longrightarrow>
    dp_step S cursor s = (r, s') \<Longrightarrow> reaches L S cfg s0 (head_epoch cursor) s'"
| reaches_signal: "reaches L S cfg s0 m s \<Longrightarrow> signal_ok cfg sig \<Longrightarrow>
    dp_signal L S sig s = Some (r, s') \<Longrightarrow> reaches L S cfg s0 (dp_floor L S sig s m) s'"
| reaches_next: "reaches L S cfg s0 m s \<Longrightarrow> dp_next s = (a, s') \<Longrightarrow> reaches L S cfg s0 m s'"

inductive_cases reachesE: "reaches L S cfg s0 m s"

text \<open>What is prepared was asked for on a head on the schedule, and takes nothing from the pool.\<close>

definition prepared_ok :: "rollup_config \<Rightarrow> attributes_with_parent list \<Rightarrow> bool" where
  "prepared_ok cfg as \<longleftrightarrow>
     (\<forall>a \<in> set as. head_ok cfg (aw_parent a) \<and> pa_no_tx_pool (aw_attributes a) = Some True)"

definition dp_good :: "(nat \<Rightarrow> 's \<Rightarrow> bool) \<Rightarrow> rollup_config \<Rightarrow> nat \<Rightarrow> ('s, 'l) derivation_pipeline \<Rightarrow> bool" where
  "dp_good good cfg m s \<longleftrightarrow>
     good m (dp_attributes s) \<and> dp_rollup_config s = cfg \<and> prepared_ok cfg (dp_prepared s)"

lemma initial_reset_returns:
  assumes "chain_numbered L" "nh_number (g_l2 (rc_genesis cfg)) \<le> bi_number (l2_block head)"
  shows "\<exists>r. initial_reset L cfg head c = Some r"
  using walk_back_returns [OF assms, of "reset_timeout cfg head" "nh_number (l2_l1_origin head)" c]
  by (auto simp: initial_reset_def split: sum.split)

lemma ignore_eof_simps:
  "snd (ignore_eof act s) = snd (act s)" "fst (ignore_eof act s) = Panic \<longleftrightarrow> fst (act s) = Panic"
  by (cases "act s"; cases "fst (act s)"; auto simp: ignore_eof_def)+

context attributes_feed
begin

lemma dp_advance_ok:
  assumes "dp_good good cfg m s"
  shows "fst (dp_advance S s) \<noteq> Panic \<and> dp_good good cfg m (snd (dp_advance S s))"
  using safe_actionD [OF advance_safe, of m "dp_attributes s"] assms
  by (cases "qs_advance S (dp_attributes s)"; cases "fst (qs_advance S (dp_attributes s))")
     (auto simp: dp_advance_def on_stages_def on_prev_def dp_good_def)

lemma dp_step_ok:
  assumes "head_ok cfg cursor" "m \<le> head_epoch cursor" "dp_good good cfg m s"
  shows "fst (dp_step S cursor s) \<noteq> Panic \<and> dp_good good cfg (head_epoch cursor) (snd (dp_step S cursor s))"
proof -
  obtain r p where run: "qs_next S cursor (dp_attributes s) = (r, p)"
    by fastforce
  let ?s = "s\<lparr>dp_attributes := p\<rparr>"
  have p: "r \<noteq> Panic" "dp_good good cfg (head_epoch cursor) ?s"
    using next_safe [OF assms(1,2), of "dp_attributes s"] assms(3) run by (simp_all add: dp_good_def)
  have a: "aw_parent a = cursor \<and> pa_no_tx_pool (aw_attributes a) = Some True" if "r = Ok a" for a
    using next_parent [OF assms(1,2), of "dp_attributes s"] assms(3) run that by (auto simp: dp_good_def)
  have "dp_good good cfg (head_epoch cursor) (?s\<lparr>dp_prepared := dp_prepared s @ [a]\<rparr>)" if "r = Ok a" for a
    using p(2) a [OF that] assms(1) by (auto simp: dp_good_def prepared_ok_def)
  then show ?thesis
    using p dp_advance_ok [OF p(2)] run by (cases r) (auto simp: dp_step_def on_stages_def on_prev_def)
qed

lemma on_stages_ok:
  assumes "safe_action (good m) act" "dp_good good cfg m s"
  shows "fst (on_stages act s) \<noteq> Panic \<and> dp_good good cfg m (snd (on_stages act s))"
  using safe_actionD [OF assms(1), of "dp_attributes s"] assms(2) by (simp add: on_stages_def dp_good_def)

lemma ignore_eof_safe: "safe_action (good m) act \<Longrightarrow> safe_action (good m) (ignore_eof act)"
  by (simp add: safe_action_def ignore_eof_simps)

lemma dp_signal_ok:
  assumes "chain_numbered L" "signal_ok cfg sig" "dp_good good cfg m s"
  shows "\<exists>r s'. dp_signal L S sig s = Some (r, s') \<and> r \<noteq> Panic \<and> dp_good good cfg (dp_floor L S sig s m) s'"
proof (cases sig)
  case (SignalReset head)
  have cfg: "dp_rollup_config s = cfg"
    using assms(3) by (simp add: dp_good_def)
  obtain x c where x: "initial_reset L cfg head (dp_l2_chain_provider s) = Some (x, c)"
    using initial_reset_returns [OF assms(1)] assms(2) SignalReset by (fastforce simp: signal_ok_def)
  let ?s = "s\<lparr>dp_l2_chain_provider := c\<rparr>"
  have s: "dp_good good cfg m ?s"
    using assms(3) by (simp add: dp_good_def)
  show ?thesis
  proof (cases x)
    case (Inr y)
    obtain l1 sc where y: "y = (l1, sc)"
      by fastforce
    obtain r p where run: "qs_reset S l1 sc (dp_attributes s) = (r, p)"
      by fastforce
    have "good 0 p" if "r = Ok ()"
      using reset_restarts [of m "dp_attributes s"] assms(3) run that by (simp add: dp_good_def)
    then show ?thesis
      using SignalReset x Inr y run cfg on_stages_ok [OF ignore_eof_safe [OF reset_safe] s, of l1 sc] assms(3)
      by (cases r) (auto simp: dp_signal_def dp_floor_def on_stages_def on_prev_def ignore_eof_def dp_good_def
          split: if_splits)
  qed (use SignalReset x s cfg in \<open>simp add: dp_signal_def dp_floor_def\<close>)
next
  case (SignalActivation head)
  then show ?thesis
    using on_stages_ok [OF ignore_eof_safe [OF activate_safe] assms(3)]
    by (cases "on_stages (ignore_eof (qs_activate S)) s") (simp add: dp_signal_def dp_floor_def)
next
  case FlushChannel
  then show ?thesis
    using on_stages_ok [OF flush_safe assms(3)]
    by (cases "on_stages (qs_flush S) s") (simp add: dp_signal_def dp_floor_def)
qed

lemma reaches_good:
  assumes "reaches L S cfg s0 m s" "chain_numbered L" "dp_good good cfg 0 s0"
  shows "dp_good good cfg m s"
  using assms(1)
proof induction
  case (reaches_step m s cursor r s')
  then show ?case
    using dp_step_ok by (metis snd_conv)
next
  case (reaches_signal m s sig r s')
  then show ?case
    using dp_signal_ok [OF assms(2) reaches_signal(2,4)] by auto
next
  case (reaches_next m s a s')
  then show ?case
    by (auto simp: dp_next_def dp_good_def prepared_ok_def split: list.splits)
qed (rule assms(3))

end

section \<open>The composed pipeline is in order\<close>

text \<open>The external parts of the composed pipeline and what is required of them: blocks of the L2 chain
  carry the number they are asked for by, and the attributes builder does not panic.\<close>

locale derivation_parts = safe_builder AB bgood
  for AB :: "'ab attributes_builder" and bgood :: "'ab \<Rightarrow> bool" +
  fixes cfg :: rollup_config and F :: "('f, 'blk) validation_provider" and L :: "'f l2_chain_provider"
    and A :: abi_codec and C :: "('c, 'sig) chain_provider" and C' :: "('e, 'tx) chain_provider"
    and B :: "'b blob_provider" and recover :: "'tx signer" and K :: "'k channel_codec" and W :: "'td wire"
  assumes block_time: "rc_block_time cfg \<noteq> 0" and blocks_numbered: "numbered F" and chain: "chain_numbered L"

definition batch_feed_good ::
    "rollup_config \<Rightarrow> (('c polling_traversal, ('e, 'b) ethereum_source) l1_retrieval frame_queue channel_provider channel_reader, 'f)
       batch_stream \<Rightarrow> bool" where
  "batch_feed_good cfg = bst_good cfg (cr_good cfg (cp_good (fq_good (lr_good (\<lambda>_. True) es_good))))"

context frame_source
begin

lemma provider_source: "channel_source (channel_provider_stage S) (cp_good good)"
  by unfold_locales

end

context channel_source
begin

lemma reader_supply: "batch_supply (channel_reader_source K W S) (cr_good cfg good) cfg"
  by unfold_locales

end

sublocale derivation_parts \<subseteq> reader: timed_batch_supply
    "channel_reader_source K W (channel_provider_stage (frame_queue_stage
       (l1_retrieval_stage (polling_traversal_stage A C) batcher_addr (ethereum_ops C' B recover))))"
    "cr_good cfg (cp_good (fq_good (lr_good (\<lambda>_. True) es_good)))" cfg
proof (intro timed_batch_supply.intro timed_batch_supply_axioms.intro block_time)
  show "batch_supply (channel_reader_source K W (channel_provider_stage (frame_queue_stage
       (l1_retrieval_stage (polling_traversal_stage A C) batcher_addr (ethereum_ops C' B recover)))))
     (cr_good cfg (cp_good (fq_good (lr_good (\<lambda>_. True) es_good)))) cfg"
    by (intro channel_source.reader_supply frame_source.provider_source eth_retrieval.l1.fq.frame_source_axioms)
qed

sublocale derivation_parts \<subseteq> feed: queue_feed
    "batch_feed_ops (polling_traversal_stage A C) (ethereum_ops C' B recover) K W F" "batch_feed_good cfg" cfg F
  unfolding batch_feed_ops_def batch_feed_good_def
  by unfold_locales (rule block_time, rule blocks_numbered)

sublocale derivation_parts \<subseteq> stack: attributes_stack
    "batch_provider_ops F (batch_feed_ops (polling_traversal_stage A C) (ethereum_ops C' B recover) K W F)"
    "bp_good cfg (batch_feed_good cfg)" cfg AB bgood
  by unfold_locales

context derivation_parts
begin

lemma composed_source:
  "attributes_source
     (batch_provider_ops F (batch_feed_ops (polling_traversal_stage A C) (ethereum_ops C' B recover) K W F))
     (bp_good cfg (batch_feed_good cfg)) cfg"
  by unfold_locales

lemma composed_feed:
  "attributes_feed
     (attributes_queue_stage AB
       (batch_provider_ops F (batch_feed_ops (polling_traversal_stage A C) (ethereum_ops C' B recover) K W F)))
     (aq_good (bp_good cfg (batch_feed_good cfg)) bgood) cfg"
  by unfold_locales

end

lemma build_polled_good:
  assumes "bgood (pb_builder b)" "es_good (pb_dap_source b)"
  shows "dp_good (aq_good (bp_good (pb_rollup_config b) (batch_feed_good (pb_rollup_config b))) bgood)
    (pb_rollup_config b) 0 (build_polled b)"
  using assms
  by (simp add: build_polled_def Let_def derivation_pipeline_new_def dp_good_def aq_good_def attributes_queue_new_def
      bp_good_def batch_provider_new_def batch_feed_good_def bst_good_def batch_stream_new_def cr_good_def
      channel_reader_new_def cp_good_def channel_provider_new_def fq_good_def frame_queue_new_def lr_good_def
      l1_retrieval_new_def prepared_ok_def)

lemma derivation_parts_intro:
  assumes "\<And>parent epoch. safe_action bgood (ab_prepare AB parent epoch)" "rc_block_time cfg \<noteq> 0" "numbered F"
    "chain_numbered L"
  shows "derivation_parts AB bgood cfg F L"
  by (intro derivation_parts.intro safe_builder.intro derivation_parts_axioms.intro assms)

lemma composed_good:
  assumes "\<And>parent epoch. safe_action bgood (ab_prepare AB parent epoch)" "bgood (pb_builder b)"
    and "rc_block_time (pb_rollup_config b) \<noteq> 0" "numbered F" "chain_numbered L" "es_good (pb_dap_source b)"
    and "reaches L (polled_attributes_queue_stage (polling_traversal_stage A C) (ethereum_ops C' B recover) K W F AB)
      (pb_rollup_config b) (build_polled b) m s"
  shows "attributes_feed (polled_attributes_queue_stage (polling_traversal_stage A C) (ethereum_ops C' B recover) K W F AB)
      (aq_good (bp_good (pb_rollup_config b) (batch_feed_good (pb_rollup_config b))) bgood) (pb_rollup_config b)"
    "attributes_source (batch_provider_ops F (batch_feed_ops (polling_traversal_stage A C) (ethereum_ops C' B recover) K W F))
      (bp_good (pb_rollup_config b) (batch_feed_good (pb_rollup_config b))) (pb_rollup_config b)"
    "dp_good (aq_good (bp_good (pb_rollup_config b) (batch_feed_good (pb_rollup_config b))) bgood) (pb_rollup_config b) m s"
proof -
  note parts = derivation_parts_intro [OF assms(1,3-5)]
  show feed: "attributes_feed (polled_attributes_queue_stage (polling_traversal_stage A C) (ethereum_ops C' B recover) K W F AB)
      (aq_good (bp_good (pb_rollup_config b) (batch_feed_good (pb_rollup_config b))) bgood) (pb_rollup_config b)"
    unfolding polled_attributes_queue_stage_def by (rule derivation_parts.composed_feed [OF parts])
  show "attributes_source (batch_provider_ops F (batch_feed_ops (polling_traversal_stage A C) (ethereum_ops C' B recover) K W F))
      (bp_good (pb_rollup_config b) (batch_feed_good (pb_rollup_config b))) (pb_rollup_config b)"
    by (rule derivation_parts.composed_source [OF parts])
  show "dp_good (aq_good (bp_good (pb_rollup_config b) (batch_feed_good (pb_rollup_config b))) bgood) (pb_rollup_config b) m s"
    by (rule attributes_feed.reaches_good [OF feed assms(7,5) build_polled_good [where bgood = bgood, OF assms(2,6)]])
qed

section \<open>Properties\<close>

text \<open>A pipeline over an empty L2 chain and an L1 chain of one block.\<close>

definition no_chain :: "unit l2_chain_provider" where
  "no_chain = \<lparr>lc_l2_block_info_by_number = (\<lambda>_ c. (Inl (Temporary Eof), c)),
     lc_system_config_by_number = (\<lambda>_ _ c. (Inr system_config_default, c))\<rparr>"

definition sample_pipeline :: "((unit, unit) ethereum_source, unit, unit, unit) pipeline_builder" where
  "sample_pipeline = \<lparr>pb_l2_chain_provider = (), pb_dap_source = new_from_parts () () span_config,
     pb_chain_provider = (), pb_builder = (), pb_origin = block_info_default, pb_rollup_config = span_config,
     pb_da_batcher_sender_override = None\<rparr>"

lemma sample_parts:
  "numbered no_blocks" "chain_numbered no_chain" "safe_action (\<lambda>_. True) (ab_prepare no_builder parent epoch)"
  "es_good (pb_dap_source sample_pipeline)" "pb_rollup_config sample_pipeline = span_config" "rc_block_time span_config \<noteq> 0"
  "head_ok span_config genesis_head" "nh_number (g_l2 (rc_genesis span_config)) \<le> bi_number (l2_block genesis_head)"
proof -
  show "head_ok span_config genesis_head"
    using one_block_span_accepted(2)
    by (simp add: head_ok_def genesis_head_def block_info_default_def span_config_def)
  show "es_good (pb_dap_source sample_pipeline)"
    by (simp add: sample_pipeline_def es_good_def new_from_parts_def blob_source_new_def bs_good_def)
qed (simp_all add: numbered_def no_blocks_def chain_numbered_def no_chain_def no_builder_def safe_areturn
    sample_pipeline_def span_config_def genesis_head_def block_info_default_def rollup_config_default_def
    chain_genesis_default_def)

text \<open>C1. The composed pipeline never panics.  Over the blob and calldata sources, any L1 and L2 chain whose
  blocks carry the number they are asked for by, a non-zero block time and an attributes builder that
  does not panic, take any state that steps, signals and drains reach in any order, the heads being on
  the block schedule and their epochs not going back without a reset.  Then the next step does not
  panic, every signal returns, and whatever is prepared was asked for on a head on the schedule and
  takes nothing from the transaction pool.\<close>

theorem pipeline_never_panics:
  assumes "\<And>parent epoch. safe_action bgood (ab_prepare AB parent epoch)" "bgood (pb_builder b)"
    and "rc_block_time (pb_rollup_config b) \<noteq> 0" "numbered F" "chain_numbered L" "es_good (pb_dap_source b)"
    and "reaches L (polled_attributes_queue_stage (polling_traversal_stage A C) (ethereum_ops C' B recover) K W F AB)
      (pb_rollup_config b) (build_polled b) m s"
  shows "(\<forall>cursor. head_ok (pb_rollup_config b) cursor \<longrightarrow> m \<le> head_epoch cursor \<longrightarrow>
      fst (dp_step (polled_attributes_queue_stage (polling_traversal_stage A C) (ethereum_ops C' B recover) K W F AB)
        cursor s) \<noteq> Panic)
    \<and> (\<forall>sig. signal_ok (pb_rollup_config b) sig \<longrightarrow> (\<exists>r s'. dp_signal L
        (polled_attributes_queue_stage (polling_traversal_stage A C) (ethereum_ops C' B recover) K W F AB) sig s
          = Some (r, s') \<and> r \<noteq> Panic))
    \<and> prepared_ok (pb_rollup_config b) (dp_prepared s)"
proof -
  note good = composed_good [where bgood = bgood, OF assms]
  show ?thesis
    using attributes_feed.dp_step_ok [OF good(1) _ _ good(3)] attributes_feed.dp_signal_ok [OF good(1) assms(5) _ good(3)]
      good(3) unfolding dp_good_def by blast
qed

theorem pipeline_never_panics_witness:
  "fst (dp_step (polled_attributes_queue_stage (polling_traversal_stage abi_ref one_block)
      (ethereum_ops one_block no_blobs (\<lambda>_. Some 9)) stored_codec leb_wire no_blocks no_builder)
      genesis_head (build_polled sample_pipeline)) \<noteq> Panic"
  using pipeline_never_panics [of "\<lambda>_. True" no_builder sample_pipeline no_blocks no_chain abi_ref one_block one_block
      no_blobs "\<lambda>_. Some 9" stored_codec leb_wire 0 "build_polled sample_pipeline"] sample_parts
  by (simp add: reaches_init)



end
