(* ===== verification/Pipeline_Run.thy ===== *)
theory Pipeline_Run
  imports Derivation_Pipeline
begin

text \<open>A run of the composed pipeline on concrete data, and what it says about the batches the pipeline
  derives.  The L1 chain has two blocks without batcher transactions and the sequencing window is zero,
  so the first step runs out of data and advances the origin, and the second call for a batch returns the
  forced empty batch of the first epoch.\<close>

section \<open>The run\<close>

definition second_block :: block_info where
  "second_block = \<lparr>bi_hash = 5, bi_number = 1, bi_parent_hash = 0, bi_timestamp = 12\<rparr>"

definition two_blocks :: "(unit, unit) chain_provider" where
  "two_blocks =
     \<lparr>cp_block_info_by_number = (\<lambda>n c. (Inr (if n = 1 then second_block else block_info_default), c)),
      cp_receipts_by_hash = (\<lambda>h c. (Inr [], c)),
      cp_block_info_and_transactions_by_hash = (\<lambda>h c. (Inr (block_info_default, []), c))\<rparr>"

abbreviation run_traversal :: "(unit polling_traversal, block_info option) stage" where
  "run_traversal \<equiv> polling_traversal_stage abi_ref two_blocks"

abbreviation run_source :: "(unit, unit) ethereum_source da_ops" where
  "run_source \<equiv> ethereum_ops two_blocks no_blobs (\<lambda>_. Some 9)"

abbreviation run_frames ::
    "((unit polling_traversal, (unit, unit) ethereum_source) l1_retrieval frame_queue, frame) stage" where
  "run_frames \<equiv> frame_queue_stage (l1_retrieval_stage run_traversal batcher_addr run_source)"

abbreviation run_reader where
  "run_reader \<equiv> channel_reader_source stored_codec leb_wire (channel_provider_stage run_frames)"

abbreviation run_feed where
  "run_feed \<equiv> batch_stream_ops no_blocks run_reader"

text \<open>The states of the stages at the L1 block \<open>b\<close>; \<open>dn\<close> says whether the traversal has handed it out.\<close>

definition retrieval_at :: "block_info \<Rightarrow> bool \<Rightarrow> (unit polling_traversal, (unit, unit) ethereum_source) l1_retrieval" where
  "retrieval_at b dn =
     \<lparr>lr_prev = \<lparr>pt_block = Some b, pt_data_source = (), pt_done = dn, pt_system_config = system_config_default,
        pt_rollup_config = span_config\<rparr>,
      lr_provider = new_from_parts () () span_config, lr_da_batcher_sender_override = None, lr_next = None\<rparr>"

definition frames_at where
  "frames_at b dn = frame_queue_new (retrieval_at b dn) span_config"

definition fresh_at where
  "fresh_at b dn = channel_provider_new span_config (frames_at b dn)"

definition bank_at where
  "bank_at b dn = (fresh_at b dn)\<lparr>cp_prev := None, cp_channel_bank := Some (channel_bank_new span_config (frames_at b dn))\<rparr>"

definition stream_of where
  "stream_of p = batch_stream_new (channel_reader_new p span_config) span_config ()"

definition queue_at where
  "queue_at b dn origin l1_blocks =
     \<lparr>bq_cfg = span_config, bq_prev = stream_of (bank_at b dn), bq_origin = Some origin, bq_l1_blocks = l1_blocks,
      bq_batches = [], bq_next_spans = [], bq_fetcher = ()\<rparr>"

definition provider_at where
  "provider_at b dn origin l1_blocks =
     \<lparr>bp_cfg = span_config, bp_provider = (), bp_prev = None,
      bp_batch_queue = Some (queue_at b dn origin l1_blocks), bp_batch_validator = None\<rparr>"

definition fresh_provider where
  "fresh_provider = batch_provider_new span_config (stream_of (fresh_at block_info_default False)) ()"

lemmas run_config = span_config_forks one_block_span_accepted(2)

lemma span_config_bare:
  "rc_seq_window_size span_config = 0" "u_ecotone_time (rc_upgrades span_config) = None"
  "g_system_config (rc_genesis span_config) = None"
  by (simp_all add: span_config_def rollup_config_default_def chain_genesis_default_def upgrade_config_default_def)

lemma run_blocks:
  "l2_l1_origin genesis_head = block_id block_info_default" "nh_number (block_id block_info_default) = 0"
  "bi_number block_info_default = 0" "nh_hash (block_id block_info_default) = 0" "bi_hash block_info_default = 0"
  "bi_hash (l2_block genesis_head) = 0" "bi_parent_hash second_block = 0" "bi_number second_block = 1"
  "bi_timestamp second_block = 12" "block_info_default \<noteq> second_block"
  by (simp_all add: genesis_head_def block_info_default_def block_id_def second_block_def)

section \<open>Stage by stage\<close>

lemma retrieval_out_of_data:
  "lr_next_data run_traversal batcher_addr run_source (retrieval_at b False) = (Err (Temporary Eof), retrieval_at b True)"
  by (simp add: retrieval_at_def lr_next_data_def lr_pull_def next_l1_block_def abind_def on_prev_def areturn_def
      polling_traversal_stage_def ethereum_ops_def es_next_def cs_next_def load_calldata_def await_def two_blocks_def
      new_from_parts_def blob_source_new_def calldata_source_new_def collect_calldata_def span_config_bare Let_def
      cs_clear_def es_clear_def bs_clear_def)

lemma frames_out_of_data: "st_next run_frames (frames_at b False) = (Err (Temporary Eof), frames_at b True)"
  by (simp add: frames_at_def frame_queue_new_def next_frame_def load_frames_def abind_def on_prev_def
      retrieval_out_of_data)

lemma frames_origin: "st_origin run_frames (frames_at b dn) = Some b"
  by (simp add: frames_at_def frame_queue_new_def fq_origin_def lr_origin_def retrieval_at_def polling_traversal_stage_def)

lemma bank_origin:
  "cp_origin run_frames (bank_at b dn) = Some b" "cp_origin run_frames (fresh_at b dn) = Some b"
  using frames_origin
  by (simp_all add: bank_at_def fresh_at_def channel_provider_new_def cp_origin_def cb_origin_def channel_bank_new_def)

lemma bank_selected:
  "cp_attempt_update run_frames (bank_at b dn) = (Ok (), bank_at b dn)"
  "cp_attempt_update run_frames (fresh_at b dn) = (Ok (), bank_at b dn)"
  unfolding cp_attempt_update_def bank_origin
  by (simp_all add: bank_at_def fresh_at_def channel_provider_new_def cp_select_def run_config)

lemma bank_out_of_data:
  "cp_next_data run_frames (bank_at b False) = (Err (Temporary Eof), bank_at b True)"
  "cp_next_data run_frames (fresh_at b False) = (Err (Temporary Eof), bank_at b True)"
  by (simp_all add: cp_next_data_def abind_def bank_selected)
    (simp_all add: bank_at_def fresh_at_def channel_provider_new_def cp_dispatch_def cb_next_data_def cb_read_def
      abind_def cb_load_def channel_bank_new_def on_prev_def frames_out_of_data [simplified])

lemma stream_origin:
  "bst_origin run_reader (stream_of (bank_at b dn)) = Some b" "bst_origin run_reader (stream_of (fresh_at b dn)) = Some b"
  by (simp_all add: stream_of_def batch_stream_new_def bst_origin_def channel_reader_source_def cr_origin_def
      channel_reader_new_def bank_origin)

lemma stream_out_of_data:
  "bst_next no_blocks run_reader (parent, l1_blocks) (stream_of (bank_at b False)) = (Err (Temporary Eof), stream_of (bank_at b True))"
  "bst_next no_blocks run_reader (parent, l1_blocks) (stream_of (fresh_at b False)) = (Err (Temporary Eof), stream_of (bank_at b True))"
  by (simp_all add: bst_next_def abind_def bst_is_active_def stream_origin)
    (simp_all add: stream_of_def batch_stream_new_def run_config bst_pull_def on_prev_def channel_reader_source_def
      cr_next_def set_batch_reader_def channel_reader_new_def abind_def next_channel_def bank_out_of_data)

lemmas queue_call = bp_next_def abind_def bp_attempt_update_def bp_origin_def batch_stream_ops_def bq_stage_origin_def
  bp_select_def bp_dispatch_def bq_next_def bq_update_origins_def sync_origin_def advance_epoch_def origin_behind_def
  bq_load_def on_prev_def Let_def bq_derive_def derive_next_batch_def bq_scan_def bq_force_empty_def

lemma first_call:
  "bp_next no_blocks run_feed genesis_head fresh_provider =
     (Err (Temporary Eof), provider_at block_info_default True block_info_default [block_info_default])"
  by (simp add: fresh_provider_def batch_provider_new_def batch_queue_new_def queue_call stream_origin
      stream_out_of_data run_config run_blocks span_config_bare provider_at_def queue_at_def)

lemma second_call:
  "bp_next no_blocks run_feed genesis_head (provider_at second_block False block_info_default [block_info_default]) =
     (Ok empty_batch, provider_at second_block True second_block [block_info_default, second_block])"
  by (simp add: provider_at_def queue_at_def queue_call stream_origin stream_out_of_data run_config run_blocks
      span_config_bare bq_emit_def empty_batch_def)

section \<open>Advancing the origin\<close>

lemma retrieval_advances:
  "lr_advance_origin run_traversal (retrieval_at block_info_default True) = (Ok (), retrieval_at second_block False)"
  by (simp add: lr_advance_origin_def on_prev_def retrieval_at_def polling_traversal_stage_def pt_advance_origin_def
      abind_def on_source_def two_blocks_def run_blocks run_config await_def update_config_ok update_origin_def
      config_update_logs_def applied_updates_def)

lemma bank_advances:
  "cp_advance_origin run_frames (bank_at block_info_default True) = (Ok (), bank_at second_block False)"
  by (simp add: cp_advance_origin_def abind_def bank_selected)
    (simp add: bank_at_def fresh_at_def channel_provider_new_def cp_dispatch_def cb_advance_origin_def
      channel_bank_new_def on_prev_def fq_advance_origin_def frames_at_def frame_queue_new_def retrieval_advances)

lemma provider_advances:
  "bp_advance_origin run_feed (provider_at block_info_default True origin l1_blocks) =
     (Ok (), provider_at second_block False origin l1_blocks)"
  by (simp add: bp_advance_origin_def abind_def bp_attempt_update_def bp_origin_def provider_at_def queue_at_def
      batch_stream_ops_def bq_stage_origin_def stream_origin bp_select_def run_config bp_dispatch_def
      bq_advance_origin_def on_prev_def)
    (simp add: bst_advance_origin_def on_prev_def stream_of_def batch_stream_new_def channel_reader_source_def
      cr_advance_origin_def channel_reader_new_def bank_advances)

abbreviation run_stage where
  "run_stage \<equiv> polled_attributes_queue_stage run_traversal run_source stored_codec leb_wire no_blocks no_builder"

lemma run_starts:
  "build_polled sample_pipeline =
     \<lparr>dp_attributes = attributes_queue_new span_config fresh_provider (), dp_prepared = [],
      dp_rollup_config = span_config, dp_l2_chain_provider = ()\<rparr>"
  by (simp add: build_polled_def build_traversal_def derivation_pipeline_new_def sample_pipeline_def
      polling_traversal_new_def l1_retrieval_new_def fresh_provider_def stream_of_def fresh_at_def frames_at_def
      retrieval_at_def span_config_bare Let_def)

lemma run_step:
  "\<exists>s. dp_step run_stage genesis_head (build_polled sample_pipeline) = (Ok AdvancedOrigin, s)
     \<and> aq_prev (dp_attributes s) = provider_at second_block False block_info_default [block_info_default]"
  by (simp add: run_starts dp_step_def on_stages_def polled_attributes_queue_stage_def attributes_queue_stage_def
      next_attributes_def abind_def load_batch_def attributes_queue_new_def on_prev_def batch_provider_ops_def
      batch_feed_ops_def first_call dp_advance_def aq_advance_origin_def provider_advances)

section \<open>Properties\<close>

text \<open>C2. Every batch the composed pipeline derives extends the safe head it is asked for: in every reachable
  state, whatever mixture of singular batches, span batches and forced empty batches is being derived,
  before and after Holocene, a batch returned for a head has the hash of that head as its parent hash
  and the timestamp of the next block on the schedule.\<close>

theorem derived_batches_extend_head:
  assumes "\<And>parent epoch. safe_action bgood (ab_prepare AB parent epoch)" "bgood (pb_builder b)"
    and "rc_block_time (pb_rollup_config b) \<noteq> 0" "numbered F" "chain_numbered L" "es_good (pb_dap_source b)"
    and "reaches L (polled_attributes_queue_stage (polling_traversal_stage A C) (ethereum_ops C' B recover) K W F AB)
      (pb_rollup_config b) (build_polled b) m s"
    and "head_ok (pb_rollup_config b) cursor" "m \<le> head_epoch cursor"
    and "bp_next F (batch_feed_ops (polling_traversal_stage A C) (ethereum_ops C' B recover) K W F) cursor
      (aq_prev (dp_attributes s)) = (Ok sb, p')"
  shows "sb_parent_hash sb = bi_hash (l2_block cursor)
    \<and> l2_block_timestamp (pb_rollup_config b) (bi_number (l2_block cursor) + 1) = Some (sb_timestamp sb)"
proof -
  note good = composed_good [where bgood = bgood, OF assms(1-7)]
  have "bp_good (pb_rollup_config b) (batch_feed_good (pb_rollup_config b)) m (aq_prev (dp_attributes s))"
    using good(3) by (simp add: dp_good_def aq_good_def)
  from attributes_source.next_extends [OF good(2) assms(8,9) this] show ?thesis
    using assms(10) by (auto simp: extends_def)
qed

theorem derived_batches_extend_head_witness:
  "\<exists>s p'. bp_next no_blocks run_feed genesis_head (aq_prev (dp_attributes s)) = (Ok empty_batch, p')
     \<and> snd (dp_step run_stage genesis_head (build_polled sample_pipeline)) = s
     \<and> sb_parent_hash empty_batch = bi_hash (l2_block genesis_head)
     \<and> l2_block_timestamp span_config (bi_number (l2_block genesis_head) + 1) = Some (sb_timestamp empty_batch)"
proof -
  obtain s where s: "dp_step run_stage genesis_head (build_polled sample_pipeline) = (Ok AdvancedOrigin, s)"
    "aq_prev (dp_attributes s) = provider_at second_block False block_info_default [block_info_default]"
    using run_step by blast
  have "reaches no_chain run_stage span_config (build_polled sample_pipeline) (head_epoch genesis_head) s"
    by (rule reaches_step [OF reaches_init sample_parts(7) _ s(1)]) simp
  with derived_batches_extend_head [of "\<lambda>_. True" no_builder sample_pipeline no_blocks no_chain abi_ref two_blocks
      two_blocks no_blobs "\<lambda>_. Some 9" stored_codec leb_wire "head_epoch genesis_head" s genesis_head empty_batch]
    second_call sample_parts s
  show ?thesis
    by (simp add: batch_feed_ops_def)
qed

end
