(* ===== verification/Word_Bytes.thy ===== *)
theory Word_Bytes
  imports Prelude
begin

text \<open>
  Big-endian encodings of words of any width, padded with zero bytes on the left as in the 32-byte
  words of the Ethereum ABI, and the lemmas that let simplification read a fixed layout back field
  by field.
\<close>

type_synonym u128 = "128 word"

section \<open>Encoding and decoding\<close>

definition be_bytes :: "nat \<Rightarrow> 'a::len word \<Rightarrow> bytes" where
  "be_bytes k w = nat_to_be k (unat w)"

definition from_be :: "bytes \<Rightarrow> 'a::len word" where
  "from_be bs = word_of_nat (nat_from_be bs)"

lemma length_be_bytes [simp, codec_simps]: "length (be_bytes k w) = k"
  by (simp add: be_bytes_def)

lemma drop_nat_to_be [simp]: "j \<le> k \<Longrightarrow> drop j (nat_to_be k n) = nat_to_be (k - j) n"
proof (induction k arbitrary: n)
  case (Suc k)
  then show ?case
    by (cases "j = Suc k") (simp_all add: Suc_diff_le)
qed simp

lemma drop_be_bytes [simp]: "j \<le> k \<Longrightarrow> drop j (be_bytes k w) = be_bytes (k - j) w"
  by (simp add: be_bytes_def)

lemma from_be_bytes [simp]:
  assumes "LENGTH('a::len) \<le> 8 * k"
  shows "from_be (be_bytes k (w :: 'a word)) = w"
proof -
  have "(2::nat) ^ LENGTH('a) \<le> 2 ^ (8 * k)"
    using assms by (intro power_increasing) simp_all
  also have "\<dots> = 256 ^ k"
    by (simp add: power_mult)
  finally have "unat w < 256 ^ k"
    using unat_less_pow [of w] by linarith
  then show ?thesis
    by (simp add: from_be_def be_bytes_def nat_from_to_be)
qed

lemma be_bytes_native: "u16_to_be_bytes w = be_bytes 2 w" "u32_to_be_bytes v = be_bytes 4 v" "u64_to_be_bytes u = be_bytes 8 u"
  by (simp_all add: u16_to_be_bytes_def u32_to_be_bytes_def u64_to_be_bytes_def be_bytes_def)

lemma from_be_native: "u16_from_be_bytes = from_be" "u32_from_be_bytes = from_be" "u64_from_be_bytes = from_be"
  by (simp_all add: fun_eq_iff u16_from_be_bytes_def u32_from_be_bytes_def u64_from_be_bytes_def from_be_def)

lemma be_from_be:
  assumes "8 * length bs \<le> LENGTH('a::len)"
  shows "be_bytes (length bs) (from_be bs :: 'a word) = bs"
proof -
  have "256 ^ length bs = (2::nat) ^ (8 * length bs)"
    by (simp add: power_mult)
  also have "\<dots> \<le> 2 ^ LENGTH('a)"
    using assms by (intro power_increasing) simp_all
  finally have "nat_from_be bs < 2 ^ LENGTH('a)"
    using nat_from_be_less [of bs] by linarith
  then show ?thesis
    by (simp add: be_bytes_def from_be_def unat_of_nat_small nat_to_from_be)
qed

lemma nat_to_be_0: "nat_to_be k 0 = replicate k 0"
  by (induction k) (simp_all add: replicate_append_same)

text \<open>The bytes in front of a value that fits the shorter width are zero.\<close>

lemma take_nat_to_be:
  assumes "n < 256 ^ b" "a + b = k"
  shows "take a (nat_to_be k n) = replicate a 0"
  using assms nat_to_be_append [of a b n] by (simp add: nat_to_be_0)

end
