(* ===== verification/Deposit_Tx.thy ===== *)
theory Deposit_Tx
  imports Word_Bytes Batch_Codec
begin

text \<open>
  Deposit transactions: \<open>TxDeposit\<close> of crates/common/consensus/src/transaction/deposit.rs with its
  EIP-2718 encoding, and the source hashes of .../source.rs that identify where a deposit comes from.
  The RLP encoders and decoders of the single fields belong to the alloy-rlp package; they are the
  fields of an \<open>rlp_codec\<close> argument, and \<open>rlp_laws\<close> is what the package documents of them: a decoder
  reads back what the encoder wrote and leaves the rest of the buffer.  So is the hash function.
\<close>

section \<open>The RLP package\<close>

datatype rlp_error = UnexpectedString | InputTooShort | UnexpectedLength | OtherRlpError string

type_synonym 'a decoder = "bytes \<Rightarrow> rlp_error + 'a \<times> bytes"

record 'a field_codec =
  fc_encode :: "'a \<Rightarrow> bytes"
  fc_decode :: "'a decoder"

datatype tx_kind = TxCreate | TxCall address

record rlp_codec =
  rlp_header_encode :: "bool \<Rightarrow> nat \<Rightarrow> bytes"
  rlp_header_decode :: "(bool \<times> nat) decoder"
  rlp_b256 :: "b256 field_codec"
  rlp_address :: "address field_codec"
  rlp_kind :: "tx_kind field_codec"
  rlp_u128 :: "u128 field_codec"
  rlp_u256 :: "u256 field_codec"
  rlp_u64 :: "u64 field_codec"
  rlp_bool :: "bool field_codec"
  rlp_bytes :: "bytes field_codec"

definition dbind :: "'a decoder \<Rightarrow> ('a \<Rightarrow> 'b decoder) \<Rightarrow> 'b decoder" where
  "dbind d f r = (case d r of Inl e \<Rightarrow> Inl e | Inr (x, r') \<Rightarrow> f x r')"

section \<open>Deposit transactions\<close>

record tx_deposit =
  dep_source_hash :: b256
  dep_from :: address
  dep_to :: tx_kind
  dep_mint :: u128
  dep_value :: u256
  dep_gas_limit :: u64
  dep_is_system_transaction :: bool
  dep_input :: bytes

definition tx_deposit_default :: tx_deposit where
  "tx_deposit_default =
     \<lparr>dep_source_hash = 0, dep_from = 0, dep_to = TxCreate, dep_mint = 0, dep_value = 0, dep_gas_limit = 0,
      dep_is_system_transaction = False, dep_input = []\<rparr>"

definition DEPOSIT_TX_TYPE :: u8 where
  "DEPOSIT_TX_TYPE = 0x7E"

definition rlp_decode_fields :: "rlp_codec \<Rightarrow> tx_deposit decoder" where
  "rlp_decode_fields R =
     dbind (fc_decode (rlp_b256 R)) (\<lambda>source_hash.
     dbind (fc_decode (rlp_address R)) (\<lambda>from_addr.
     dbind (fc_decode (rlp_kind R)) (\<lambda>to_kind.
     dbind (fc_decode (rlp_u128 R)) (\<lambda>mint.
     dbind (fc_decode (rlp_u256 R)) (\<lambda>val.
     dbind (fc_decode (rlp_u64 R)) (\<lambda>gas_limit.
     dbind (fc_decode (rlp_bool R)) (\<lambda>is_system_transaction.
     dbind (fc_decode (rlp_bytes R)) (\<lambda>input r.
       Inr (\<lparr>dep_source_hash = source_hash, dep_from = from_addr, dep_to = to_kind, dep_mint = mint,
             dep_value = val, dep_gas_limit = gas_limit,
             dep_is_system_transaction = is_system_transaction, dep_input = input\<rparr>, r)))))))))"

definition rlp_decode :: "rlp_codec \<Rightarrow> tx_deposit decoder" where
  "rlp_decode R r =
     (case rlp_header_decode R r of
        Inl e \<Rightarrow> Inl e
      | Inr ((list, payload_length), r) \<Rightarrow>
          if \<not> list then Inl UnexpectedString
          else if payload_length > length r then Inl InputTooShort
          else (case rlp_decode_fields R r of
             Inl e \<Rightarrow> Inl e
           | Inr (tx, r') \<Rightarrow>
               if length r' + payload_length \<noteq> length r then Inl UnexpectedLength else Inr (tx, r')))"

definition rlp_encode_fields :: "rlp_codec \<Rightarrow> tx_deposit \<Rightarrow> bytes" where
  "rlp_encode_fields R tx =
     fc_encode (rlp_b256 R) (dep_source_hash tx) @ fc_encode (rlp_address R) (dep_from tx)
     @ fc_encode (rlp_kind R) (dep_to tx) @ fc_encode (rlp_u128 R) (dep_mint tx)
     @ fc_encode (rlp_u256 R) (dep_value tx) @ fc_encode (rlp_u64 R) (dep_gas_limit tx)
     @ fc_encode (rlp_bool R) (dep_is_system_transaction tx) @ fc_encode (rlp_bytes R) (dep_input tx)"

definition rlp_encoded_fields_length :: "rlp_codec \<Rightarrow> tx_deposit \<Rightarrow> nat" where
  "rlp_encoded_fields_length R tx =
     length (fc_encode (rlp_b256 R) (dep_source_hash tx)) + length (fc_encode (rlp_address R) (dep_from tx))
     + length (fc_encode (rlp_kind R) (dep_to tx)) + length (fc_encode (rlp_u128 R) (dep_mint tx))
     + length (fc_encode (rlp_u256 R) (dep_value tx)) + length (fc_encode (rlp_u64 R) (dep_gas_limit tx))
     + length (fc_encode (rlp_bool R) (dep_is_system_transaction tx)) + length (fc_encode (rlp_bytes R) (dep_input tx))"

definition rlp_encode :: "rlp_codec \<Rightarrow> tx_deposit \<Rightarrow> bytes" where
  "rlp_encode R tx = rlp_header_encode R True (rlp_encoded_fields_length R tx) @ rlp_encode_fields R tx"

definition encode_2718 :: "rlp_codec \<Rightarrow> tx_deposit \<Rightarrow> bytes" where
  "encode_2718 R tx = DEPOSIT_TX_TYPE # rlp_encode R tx"

text \<open>The provided method \<open>decode_2718\<close> of the trait reads the type byte and dispatches to
  \<open>typed_decode\<close>; a first byte above 0x7f goes to \<open>fallback_decode\<close>.\<close>

datatype eip2718_error = RlpError rlp_error | UnexpectedType u8

definition typed_decode :: "rlp_codec \<Rightarrow> u8 \<Rightarrow> bytes \<Rightarrow> eip2718_error + tx_deposit \<times> bytes" where
  "typed_decode R ty data =
     (if tx_type_of ty \<noteq> Some TyDeposit then Inl (UnexpectedType ty)
      else (case rlp_decode R data of Inl e \<Rightarrow> Inl (RlpError e) | Inr res \<Rightarrow> Inr res))"

definition deposit_decode_2718 :: "rlp_codec \<Rightarrow> bytes \<Rightarrow> eip2718_error + tx_deposit \<times> bytes" where
  "deposit_decode_2718 R data =
     (case data of
        [] \<Rightarrow> Inl (RlpError InputTooShort)
      | ty # rest \<Rightarrow> if ty \<le> 0x7F then typed_decode R ty rest else Inl (UnexpectedType DEPOSIT_TX_TYPE))"

section \<open>Source hashes\<close>

type_synonym keccak = "bytes \<Rightarrow> b256"

datatype deposit_source =
    UserSource (us_l1_block_hash: b256) (us_log_index: u64)
  | L1InfoSource (ls_l1_block_hash: b256) (ls_seq_number: u64)
  | UpgradeSource (up_intent: string)
  | BaseTimeSource (bt_block_number: u64)

fun source_domain :: "deposit_source \<Rightarrow> u64" where
  "source_domain (UserSource _ _) = 0"
| "source_domain (L1InfoSource _ _) = 1"
| "source_domain (UpgradeSource _) = 2"
| "source_domain (BaseTimeSource _) = 3"

definition string_bytes :: "string \<Rightarrow> bytes" where
  "string_bytes s = map of_char s"

fun deposit_id_input :: "deposit_source \<Rightarrow> bytes" where
  "deposit_id_input (UserSource h i) = be_bytes 32 h @ replicate 24 0 @ u64_to_be_bytes i"
| "deposit_id_input (L1InfoSource h n) = be_bytes 32 h @ replicate 24 0 @ u64_to_be_bytes n"
| "deposit_id_input (UpgradeSource intent) = string_bytes intent"
| "deposit_id_input (BaseTimeSource n) = replicate 24 0 @ u64_to_be_bytes n"

definition source_hash :: "keccak \<Rightarrow> deposit_source \<Rightarrow> b256" where
  "source_hash kk s =
     kk (replicate 24 0 @ u64_to_be_bytes (source_domain s) @ be_bytes 32 (kk (deposit_id_input s)))"

section \<open>What the package documents\<close>

definition field_law :: "('a \<Rightarrow> bool) \<Rightarrow> 'a field_codec \<Rightarrow> bool" where
  "field_law ok f \<longleftrightarrow> (\<forall>x r. ok x \<longrightarrow> fc_decode f (fc_encode f x @ r) = Inr (x, r))"

definition in_memory :: "'a list \<Rightarrow> bool" where
  "in_memory xs \<longleftrightarrow> length xs < 2 ^ 64"

locale rlp_laws =
  fixes R :: rlp_codec
  assumes header_law: "n \<le> length r \<Longrightarrow> n < 2 ^ 64 \<Longrightarrow>
      rlp_header_decode R (rlp_header_encode R list n @ r) = Inr ((list, n), r)"
    and word_laws: "field_law (\<lambda>_. True) (rlp_b256 R)" "field_law (\<lambda>_. True) (rlp_address R)"
      "field_law (\<lambda>_. True) (rlp_kind R)" "field_law (\<lambda>_. True) (rlp_u128 R)" "field_law (\<lambda>_. True) (rlp_u256 R)"
      "field_law (\<lambda>_. True) (rlp_u64 R)" "field_law (\<lambda>_. True) (rlp_bool R)"
    and bytes_law: "field_law in_memory (rlp_bytes R)" "length x \<le> length (fc_encode (rlp_bytes R) x)"
begin

lemma decode_fields:
  assumes "in_memory (rlp_encode_fields R tx)"
  shows "rlp_decode_fields R (rlp_encode_fields R tx @ r) = Inr (tx, r)"
proof -
  have "in_memory (dep_input tx)"
    using assms bytes_law(2) [of "dep_input tx"] by (simp add: in_memory_def rlp_encode_fields_def)
  then show ?thesis
    using word_laws bytes_law(1)
    by (simp add: rlp_decode_fields_def rlp_encode_fields_def dbind_def field_law_def)
qed

lemma decode_encode:
  assumes "in_memory (rlp_encode_fields R tx)"
  shows "rlp_decode R (rlp_encode R tx @ r) = Inr (tx, r)"
proof -
  have len: "rlp_encoded_fields_length R tx = length (rlp_encode_fields R tx)"
    by (simp add: rlp_encoded_fields_length_def rlp_encode_fields_def)
  have "rlp_header_decode R (rlp_encode R tx @ r)
      = Inr ((True, length (rlp_encode_fields R tx)), rlp_encode_fields R tx @ r)"
    using header_law [of "length (rlp_encode_fields R tx)" "rlp_encode_fields R tx @ r" True] assms
    by (simp add: rlp_encode_def len in_memory_def)
  then show ?thesis
    by (simp add: rlp_decode_def decode_fields [OF assms])
qed

lemma decode_encode_2718:
  "in_memory (rlp_encode_fields R tx) \<Longrightarrow> deposit_decode_2718 R (encode_2718 R tx @ r) = Inr (tx, r)"
  by (simp add: deposit_decode_2718_def encode_2718_def typed_decode_def decode_encode DEPOSIT_TX_TYPE_def tx_type_of_def)

end

text \<open>An encoding is not much longer than the input it carries.\<close>

locale rlp_bounded = rlp_laws +
  assumes fields_bound: "length (dep_input tx) < 2 ^ 63 \<Longrightarrow> length (rlp_encode_fields R tx) \<le> 300 + length (dep_input tx)"
begin

lemma decode_small: "length (dep_input tx) < 2 ^ 63 \<Longrightarrow> deposit_decode_2718 R (encode_2718 R tx @ r) = Inr (tx, r)"
  using fields_bound [of tx] by (intro decode_encode_2718) (simp add: in_memory_def)

end

section \<open>A reference codec\<close>

text \<open>Canonical RLP: short and long headers, integers in their shortest big-endian form.\<close>

fun min_be :: "nat \<Rightarrow> bytes" where
  "min_be n = (if n = 0 then [] else min_be (n div 256) @ [word_of_nat n])"

declare min_be.simps [simp del]

definition ref_header_encode :: "bool \<Rightarrow> nat \<Rightarrow> bytes" where
  "ref_header_encode list n =
     (let base = (if list then 192 else 128) in
      if n < 56 then [word_of_nat (base + n)] else word_of_nat (base + 55 + length (min_be n)) # min_be n)"

definition ref_payload :: "bool \<Rightarrow> nat \<Rightarrow> bytes \<Rightarrow> rlp_error + (bool \<times> nat) \<times> bytes" where
  "ref_payload list n r = (if length r < n then Inl InputTooShort else Inr ((list, n), r))"

definition ref_header_decode :: "(bool \<times> nat) decoder" where
  "ref_header_decode r =
     (case r of
        [] \<Rightarrow> Inl InputTooShort
      | b # rest \<Rightarrow>
          if unat b < 128 then Inr ((False, 1), r)
          else let list = 192 \<le> unat b; y = unat b - (if list then 192 else 128) in
            if y < 56 then ref_payload list y rest
            else if length rest < y - 55 then Inl InputTooShort
            else ref_payload list (nat_from_be (take (y - 55) rest)) (drop (y - 55) rest))"

definition ref_str_encode :: "bytes \<Rightarrow> bytes" where
  "ref_str_encode bs = (if length bs = 1 \<and> unat (hd bs) < 128 then bs else ref_header_encode False (length bs) @ bs)"

definition ref_str_decode :: "bytes decoder" where
  "ref_str_decode = dbind ref_header_decode (\<lambda>(list, n) r.
     if list then Inl (OtherRlpError ''unexpected list'') else Inr (take n r, drop n r))"

definition ref_field :: "('a \<Rightarrow> bytes) \<Rightarrow> (bytes \<Rightarrow> 'a option) \<Rightarrow> 'a field_codec" where
  "ref_field enc dec =
     \<lparr>fc_encode = (\<lambda>x. ref_str_encode (enc x)),
      fc_decode = dbind ref_str_decode (\<lambda>bs r.
        case dec bs of Some x \<Rightarrow> Inr (x, r) | None \<Rightarrow> Inl (OtherRlpError ''malformed field''))\<rparr>"

definition ref_fixed :: "nat \<Rightarrow> 'a::len word field_codec" where
  "ref_fixed k = ref_field (be_bytes k) (\<lambda>bs. if length bs = k then Some (from_be bs) else None)"

definition ref_uint :: "nat \<Rightarrow> 'a::len word field_codec" where
  "ref_uint k = ref_field (\<lambda>w. min_be (unat w))
     (\<lambda>bs. if length bs \<le> k \<and> (bs \<noteq> [] \<longrightarrow> hd bs \<noteq> 0) then Some (from_be bs) else None)"

definition ref_kind :: "tx_kind field_codec" where
  "ref_kind = ref_field (\<lambda>k. case k of TxCreate \<Rightarrow> [] | TxCall a \<Rightarrow> be_bytes 20 a)
     (\<lambda>bs. if bs = [] then Some TxCreate else if length bs = 20 then Some (TxCall (from_be bs)) else None)"

definition ref_bool :: "bool field_codec" where
  "ref_bool = ref_field (\<lambda>b. if b then [1] else [])
     (\<lambda>bs. if bs = [] then Some False else if bs = [1] then Some True else None)"

definition rlp_ref :: rlp_codec where
  "rlp_ref =
     \<lparr>rlp_header_encode = ref_header_encode, rlp_header_decode = ref_header_decode,
      rlp_b256 = ref_fixed 32, rlp_address = ref_fixed 20, rlp_kind = ref_kind, rlp_u128 = ref_uint 16,
      rlp_u256 = ref_uint 32, rlp_u64 = ref_uint 8, rlp_bool = ref_bool,
      rlp_bytes = ref_field (\<lambda>bs. bs) Some\<rparr>"

lemma nat_from_min_be [simp]: "nat_from_be (min_be n) = n"
proof (induction n rule: min_be.induct)
  case (1 n)
  then show ?case
    by (subst min_be.simps) (simp add: of_nat_mod)
qed

lemma length_min_be: "n < 256 ^ k \<Longrightarrow> length (min_be n) \<le> k"
proof (induction k arbitrary: n)
  case 0
  then show ?case by (simp add: min_be.simps)
next
  case (Suc k)
  then have "n div 256 < 256 ^ k"
    by (simp add: less_mult_imp_div_less mult.commute)
  with Suc.IH [of "n div 256"] show ?case
    by (subst min_be.simps) simp
qed

lemma min_be_hd: "min_be n \<noteq> [] \<Longrightarrow> hd (min_be n) \<noteq> 0"
proof (induction n rule: min_be.induct)
  case (1 n)
  show ?case
  proof (cases "n div 256 = 0")
    case True
    then have "n < 256"
      by (simp add: div_eq_0_iff)
    then have "n \<noteq> 0 \<Longrightarrow> (word_of_nat n :: u8) \<noteq> 0"
      by (metis unat_0 mod_less unat_u8_of_nat)
    with True 1(2) show ?thesis
      by (subst min_be.simps, subst (asm) min_be.simps) (auto simp: min_be.simps [of 0] split: if_splits)
  next
    case False
    then have "n \<noteq> 0" "min_be (n div 256) \<noteq> []"
      by (auto simp: min_be.simps [of "n div 256"])
    with 1(1) show ?thesis
      by (subst min_be.simps) simp
  qed
qed

lemma ref_header_law:
  assumes "n \<le> length r" "n < 2 ^ 64"
  shows "ref_header_decode (ref_header_encode list n @ r) = Inr ((list, n), r)"
proof -
  have "n < 256 ^ 8" using assms(2) by simp
  note len = length_min_be [OF this]
  show ?thesis
  proof (cases "n < 56")
    case True
    with assms show ?thesis
      by (auto simp: ref_header_encode_def ref_header_decode_def ref_payload_def Let_def simp del: of_nat_add)
  next
    case False
    define k where "k = length (min_be n)"
    have "min_be n \<noteq> []"
      using False by (subst min_be.simps) simp
    then have k: "0 < k" "k \<le> 8" "length (min_be n) = k"
      using len by (simp_all add: k_def)
    have byte: "unat (word_of_nat (183 + k) :: u8) = 183 + k" "unat (word_of_nat (247 + k) :: u8) = 247 + k"
      using k(2) unat_u8_of_nat [of "183 + k"] unat_u8_of_nat [of "247 + k"] by (simp_all del: of_nat_add unat_u8_of_nat)
    show ?thesis
      using False assms k by (cases list) (simp_all add: ref_header_encode_def ref_header_decode_def ref_payload_def Let_def byte
          del: of_nat_add unat_u8_of_nat)
  qed
qed

lemma ref_str_law: "in_memory bs \<Longrightarrow> ref_str_decode (ref_str_encode bs @ r) = Inr (bs, r)"
proof (cases "length bs = 1 \<and> unat (hd bs) < 128")
  case True
  then obtain b where "bs = [b]" "unat b < 128"
    by (cases bs) auto
  then show ?thesis
    by (simp add: ref_str_encode_def ref_str_decode_def dbind_def ref_header_decode_def)
next
  case False
  moreover assume "in_memory bs"
  ultimately show ?thesis
    using ref_header_law [of "length bs" "bs @ r" False]
    by (auto simp: ref_str_encode_def ref_str_decode_def dbind_def in_memory_def)
qed

lemma ref_field_law:
  assumes "\<And>x. ok x \<Longrightarrow> in_memory (enc x) \<and> dec (enc x) = Some x"
  shows "field_law ok (ref_field enc dec)"
  using assms ref_str_law by (simp add: field_law_def ref_field_def dbind_def)

lemma ref_fixed_law: "LENGTH('a) \<le> 8 * k \<Longrightarrow> k < 2 ^ 64 \<Longrightarrow> field_law (\<lambda>_. True) (ref_fixed k :: 'a::len word field_codec)"
  by (auto simp: ref_fixed_def in_memory_def intro!: ref_field_law)

lemma ref_uint_law:
  assumes "LENGTH('a::len) = 8 * k" "k < 2 ^ 64"
  shows "field_law (\<lambda>_. True) (ref_uint k :: 'a word field_codec)"
proof -
  have "unat (w :: 'a word) < 256 ^ k" for w
    using unat_less_pow [of w] by (simp add: assms(1) power_mult)
  then have len: "length (min_be (unat (w :: 'a word))) \<le> k" for w
    by (rule length_min_be)
  show ?thesis
    unfolding ref_uint_def
    by (intro ref_field_law)
      (simp add: in_memory_def from_be_def min_be_hd len le_less_trans [OF len, of "2 ^ 64", OF assms(2), simplified])
qed

lemma ref_bytes_law: "field_law in_memory (ref_field (\<lambda>bs. bs) Some)"
  by (rule ref_field_law) simp

lemma ref_str_length: "length x \<le> length (ref_str_encode x)"
  by (simp add: ref_str_encode_def)

interpretation ref: rlp_laws rlp_ref
proof
  show "field_law (\<lambda>_. True) (rlp_kind rlp_ref)" "field_law (\<lambda>_. True) (rlp_bool rlp_ref)"
    by (auto simp: rlp_ref_def ref_kind_def ref_bool_def in_memory_def intro!: ref_field_law split: tx_kind.split)
      (metis length_be_bytes list.size(3) zero_neq_numeral)
  show "field_law in_memory (rlp_bytes rlp_ref)"
    using ref_bytes_law by (simp add: rlp_ref_def)
qed (simp_all add: rlp_ref_def ref_header_law ref_fixed_law ref_uint_law ref_field_def ref_str_length)

lemma ref_str_bound:
  assumes "length bs < 2 ^ 64"
  shows "length (ref_str_encode bs) \<le> length bs + 9"
  using length_min_be [of "length bs" 8] assms by (simp add: ref_str_encode_def ref_header_encode_def)

lemma ref_uint_bound:
  assumes "LENGTH('a::len) = 8 * k" "k < 2 ^ 63"
  shows "length (fc_encode (ref_uint k) (w :: 'a word)) \<le> k + 9"
proof -
  have "unat w < 256 ^ k"
    using unat_less_pow [of w] by (simp add: assms(1) power_mult)
  then have "length (min_be (unat w)) \<le> k"
    by (rule length_min_be)
  with ref_str_bound [of "min_be (unat w)"] assms(2) show ?thesis
    by (simp add: ref_uint_def ref_field_def)
qed

lemma ref_fixed_bound: "k < 2 ^ 63 \<Longrightarrow> length (fc_encode (ref_fixed k) (w :: 'a::len word)) \<le> k + 9"
  using ref_str_bound [of "be_bytes k w"] by (simp add: ref_fixed_def ref_field_def)

interpretation ref: rlp_bounded rlp_ref
proof
  fix tx :: tx_deposit
  assume input: "length (dep_input tx) < 2 ^ 63"
  have "length (fc_encode ref_kind (dep_to tx)) \<le> 29"
    using ref_str_bound [of "[]"] ref_str_bound [of "be_bytes 20 a" for a :: address]
    by (cases "dep_to tx") (simp_all add: ref_kind_def ref_field_def)
  moreover have "length (fc_encode ref_bool (dep_is_system_transaction tx)) \<le> 10"
    using ref_str_bound [of "[]"] ref_str_bound [of "[1]"] by (simp add: ref_bool_def ref_field_def)
  moreover have "length (ref_str_encode (dep_input tx)) \<le> length (dep_input tx) + 9"
    using input by (intro ref_str_bound) simp
  ultimately show "length (rlp_encode_fields rlp_ref tx) \<le> 300 + length (dep_input tx)"
    using ref_fixed_bound [of 32 "dep_source_hash tx"] ref_fixed_bound [of 20 "dep_from tx"]
      ref_uint_bound [of 16 "dep_mint tx"] ref_uint_bound [of 32 "dep_value tx"] ref_uint_bound [of 8 "dep_gas_limit tx"]
    by (simp add: rlp_encode_fields_def rlp_ref_def ref_field_def)
qed

section \<open>Properties\<close>

text \<open>Deposit transactions survive their wire format: over RLP field codecs that read back what they
  write, decoding the EIP-2718 encoding of any deposit whose encoding fits into memory gives the same
  deposit, whatever follows it in the buffer.\<close>

lemma deposit_tx_roundtrip:
  assumes "rlp_laws R" "in_memory (rlp_encode_fields R tx)"
  shows "deposit_decode_2718 R (encode_2718 R tx @ r) = Inr (tx, r)"
  using rlp_laws.decode_encode_2718 [OF assms] .

end
