(* ===== verification/Upgrade_Txs.thy ===== *)
theory Upgrade_Txs
  imports Deposit_Tx
begin

text \<open>
  The deposits that carry out a network upgrade, of crates/consensus/upgrades/src, with the system
  addresses of crates/common/consensus/src/predeploys.rs.  The bytecode of the contracts is read from
  hex files at build time and is an argument, as are the hash function and the address derivation of
  the alloy-primitives package.
\<close>

section \<open>Addresses\<close>

definition SEQUENCER_FEE_VAULT :: address where
  "SEQUENCER_FEE_VAULT = 0x4200000000000000000000000000000000000011"

definition PREDEPLOY_GAS_PRICE_ORACLE :: address where
  "PREDEPLOY_GAS_PRICE_ORACLE = 0x420000000000000000000000000000000000000F"

definition L1_BLOCK_INFO :: address where
  "L1_BLOCK_INFO = 0x4200000000000000000000000000000000000015"

definition PREDEPLOY_OPERATOR_FEE_VAULT :: address where
  "PREDEPLOY_OPERATOR_FEE_VAULT = 0x420000000000000000000000000000000000001B"

definition BASE_TIME :: address where
  "BASE_TIME = 0x4200000000000000000000000000000000000030"

definition DEPOSITOR_ACCOUNT :: address where
  "DEPOSITOR_ACCOUNT = 0xDeaDDEaDDeAdDeAdDEAdDEaddeAddEAdDEAd0001"

definition ECOTONE_L1_BLOCK_DEPLOYER :: address where
  "ECOTONE_L1_BLOCK_DEPLOYER = 0x4210000000000000000000000000000000000000"

definition ECOTONE_GAS_PRICE_ORACLE_DEPLOYER :: address where
  "ECOTONE_GAS_PRICE_ORACLE_DEPLOYER = 0x4210000000000000000000000000000000000001"

definition FJORD_GAS_PRICE_ORACLE_DEPLOYER :: address where
  "FJORD_GAS_PRICE_ORACLE_DEPLOYER = 0x4210000000000000000000000000000000000002"

definition ISTHMUS_L1_BLOCK_DEPLOYER :: address where
  "ISTHMUS_L1_BLOCK_DEPLOYER = 0x4210000000000000000000000000000000000003"

definition ISTHMUS_GAS_PRICE_ORACLE_DEPLOYER :: address where
  "ISTHMUS_GAS_PRICE_ORACLE_DEPLOYER = 0x4210000000000000000000000000000000000004"

definition ISTHMUS_OPERATOR_FEE_VAULT_DEPLOYER :: address where
  "ISTHMUS_OPERATOR_FEE_VAULT_DEPLOYER = 0x4210000000000000000000000000000000000005"

definition JOVIAN_L1_BLOCK_DEPLOYER :: address where
  "JOVIAN_L1_BLOCK_DEPLOYER = 0x4210000000000000000000000000000000000006"

definition JOVIAN_GAS_PRICE_ORACLE_DEPLOYER :: address where
  "JOVIAN_GAS_PRICE_ORACLE_DEPLOYER = 0x4210000000000000000000000000000000000007"

section \<open>Building blocks\<close>

record upgrade_env =
  ue_keccak :: keccak
  ue_create :: "address \<Rightarrow> u64 \<Rightarrow> address"
  ue_bytecode :: "string \<Rightarrow> bytes"

definition UPGRADE_SELECTOR :: bytes where
  "UPGRADE_SELECTOR = [0x36, 0x59, 0xcf, 0xe6]"

definition upgrade_calldata :: "address \<Rightarrow> bytes" where
  "upgrade_calldata addr = UPGRADE_SELECTOR @ be_bytes 32 addr"

definition upgrade_source :: "upgrade_env \<Rightarrow> string \<Rightarrow> b256" where
  "upgrade_source E intent = source_hash (ue_keccak E) (UpgradeSource intent)"

definition upgrade_deposit :: "upgrade_env \<Rightarrow> string \<Rightarrow> address \<Rightarrow> tx_kind \<Rightarrow> u64 \<Rightarrow> bytes \<Rightarrow> tx_deposit" where
  "upgrade_deposit E intent from_addr to_kind gas input =
     \<lparr>dep_source_hash = upgrade_source E intent, dep_from = from_addr, dep_to = to_kind, dep_mint = 0,
      dep_value = 0, dep_gas_limit = gas, dep_is_system_transaction = False, dep_input = input\<rparr>"

section \<open>The upgrades\<close>

definition ecotone_deposits :: "upgrade_env \<Rightarrow> tx_deposit list" where
  "ecotone_deposits E =
    [upgrade_deposit E ''Ecotone: L1 Block Deployment'' ECOTONE_L1_BLOCK_DEPLOYER TxCreate 375000
       (ue_bytecode E ''l1_block_ecotone''),
     upgrade_deposit E ''Ecotone: Gas Price Oracle Deployment'' ECOTONE_GAS_PRICE_ORACLE_DEPLOYER TxCreate 1000000
       (ue_bytecode E ''gpo_ecotone''),
     upgrade_deposit E ''Ecotone: L1 Block Proxy Update'' 0 (TxCall L1_BLOCK_INFO) 50000
       (upgrade_calldata 0x07dbe8500fc591d1852b76fee44d5a05e13097ff),
     upgrade_deposit E ''Ecotone: Gas Price Oracle Proxy Update'' 0 (TxCall PREDEPLOY_GAS_PRICE_ORACLE) 50000
       (upgrade_calldata 0xb528d11cc114e026f138fe568744c6d45ce6da7a),
     upgrade_deposit E ''Ecotone: Gas Price Oracle Set Ecotone'' DEPOSITOR_ACCOUNT (TxCall PREDEPLOY_GAS_PRICE_ORACLE) 80000
       [0x22, 0xb9, 0x0a, 0xb3],
     upgrade_deposit E ''Ecotone: beacon block roots contract deployment'' 0x0B799C86a49DEeb90402691F1041aa3AF2d3C875
       TxCreate 250000 (ue_bytecode E ''eip4788_ecotone'')]"

definition fjord_deposits :: "upgrade_env \<Rightarrow> tx_deposit list" where
  "fjord_deposits E =
    [upgrade_deposit E ''Fjord: Gas Price Oracle Deployment'' FJORD_GAS_PRICE_ORACLE_DEPLOYER TxCreate 1450000
       (ue_bytecode E ''gpo_fjord''),
     upgrade_deposit E ''Fjord: Gas Price Oracle Proxy Update'' 0 (TxCall PREDEPLOY_GAS_PRICE_ORACLE) 50000
       (upgrade_calldata 0xa919894851548179a0750865e7974da599c0fac7),
     upgrade_deposit E ''Fjord: Gas Price Oracle Set Fjord'' DEPOSITOR_ACCOUNT (TxCall PREDEPLOY_GAS_PRICE_ORACLE) 90000
       [0x8e, 0x98, 0xb1, 0x06]]"

definition isthmus_deposits :: "upgrade_env \<Rightarrow> tx_deposit list" where
  "isthmus_deposits E =
    [upgrade_deposit E ''Isthmus: L1 Block Deployment'' ISTHMUS_L1_BLOCK_DEPLOYER TxCreate 425000
       (ue_bytecode E ''l1_block_isthmus''),
     upgrade_deposit E ''Isthmus: Gas Price Oracle Deployment'' ISTHMUS_GAS_PRICE_ORACLE_DEPLOYER TxCreate 1625000
       (ue_bytecode E ''gpo_isthmus''),
     upgrade_deposit E ''Isthmus: Operator Fee Vault Deployment'' ISTHMUS_OPERATOR_FEE_VAULT_DEPLOYER TxCreate 500000
       (ue_bytecode E ''ofv_isthmus''),
     upgrade_deposit E ''Isthmus: L1 Block Proxy Update'' 0 (TxCall L1_BLOCK_INFO) 50000
       (upgrade_calldata 0xff256497d61dcd71a9e9ff43967c13fde1f72d12),
     upgrade_deposit E ''Isthmus: Gas Price Oracle Proxy Update'' 0 (TxCall PREDEPLOY_GAS_PRICE_ORACLE) 50000
       (upgrade_calldata 0x93e57a196454cb919193fa9946f14943cf733845),
     upgrade_deposit E ''Isthmus: Operator Fee Vault Proxy Update'' 0 (TxCall PREDEPLOY_OPERATOR_FEE_VAULT) 50000
       (upgrade_calldata 0x4fa2be8cd41504037f1838bce3bcc93bc68ff537),
     upgrade_deposit E ''Isthmus: Gas Price Oracle Set Isthmus'' DEPOSITOR_ACCOUNT (TxCall PREDEPLOY_GAS_PRICE_ORACLE) 90000
       [0x29, 0x1b, 0x03, 0x83],
     upgrade_deposit E ''Isthmus: EIP-2935 Contract Deployment'' 0x3462413Af4609098e1E27A490f554f260213D685
       TxCreate 250000 (ue_bytecode E ''eip2935_isthmus'')]"

definition jovian_deposits :: "upgrade_env \<Rightarrow> tx_deposit list" where
  "jovian_deposits E =
    [upgrade_deposit E ''Jovian: L1 Block Deployment'' JOVIAN_L1_BLOCK_DEPLOYER TxCreate 447315
       (ue_bytecode E ''jovian-l1-block-deployment''),
     upgrade_deposit E ''Jovian: L1 Block Proxy Update'' 0 (TxCall L1_BLOCK_INFO) 50000
       (upgrade_calldata (ue_create E JOVIAN_L1_BLOCK_DEPLOYER 0)),
     upgrade_deposit E ''Jovian: Gas Price Oracle Deployment'' JOVIAN_GAS_PRICE_ORACLE_DEPLOYER TxCreate 1750714
       (ue_bytecode E ''jovian-gas-price-oracle-deployment''),
     upgrade_deposit E ''Jovian: Gas Price Oracle Proxy Update'' 0 (TxCall PREDEPLOY_GAS_PRICE_ORACLE) 50000
       (upgrade_calldata (ue_create E JOVIAN_GAS_PRICE_ORACLE_DEPLOYER 0)),
     upgrade_deposit E ''Jovian: Gas Price Oracle Set Jovian'' DEPOSITOR_ACCOUNT (TxCall PREDEPLOY_GAS_PRICE_ORACLE) 90000
       (take 4 (be_bytes 32 (ue_keccak E (string_bytes ''setJovian()''))))]"

definition upgrade_txs :: "rlp_codec \<Rightarrow> tx_deposit list \<Rightarrow> bytes list" where
  "upgrade_txs R deposits = map (encode_2718 R) deposits"

text \<open>Upgrade deposits create no ether, move none, and are ordinary transactions.\<close>

lemma upgrade_deposits_plain:
  assumes "tx \<in> set (ecotone_deposits E @ fjord_deposits E @ isthmus_deposits E @ jovian_deposits E)"
  shows "dep_mint tx = 0 \<and> dep_value tx = 0 \<and> \<not> dep_is_system_transaction tx"
  using assms
  by (auto simp: ecotone_deposits_def fjord_deposits_def isthmus_deposits_def jovian_deposits_def upgrade_deposit_def)

end
