(* ===== verification/L1_Info.thy ===== *)
theory L1_Info
  imports Upgrade_Txs Rollup_Config
begin

text \<open>
  The L1 block info transaction of crates/consensus/protocol/src/info: the calldata formats of the four
  hardforks, their encoders and decoders, the choice of the format for a block, and the deposit
  transaction that carries it at the top of every L2 block.  The header hash, the blob fee and the blob
  schedule of the L1 chain configuration are functions of the alloy packages and fields of an
  \<open>l1_env\<close> argument.
\<close>

section \<open>Fields\<close>

record l1_block_info_bedrock_base =
  bb_number :: u64
  bb_time :: u64
  bb_base_fee :: u64
  bb_block_hash :: b256
  bb_sequence_number :: u64
  bb_batcher_address :: address

record l1_block_info_bedrock =
  lb_base :: l1_block_info_bedrock_base
  lb_l1_fee_overhead :: u256
  lb_l1_fee_scalar :: u256

record l1_block_info_ecotone_base =
  eb_base :: l1_block_info_bedrock_base
  eb_blob_base_fee :: u128
  eb_blob_base_fee_scalar :: u32
  eb_base_fee_scalar :: u32

record l1_block_info_ecotone =
  le_base :: l1_block_info_ecotone_base
  le_empty_scalars :: bool
  le_l1_fee_overhead :: u256

record l1_block_info_isthmus =
  li_base :: l1_block_info_ecotone_base
  li_operator_fee_scalar :: u32
  li_operator_fee_constant :: u64

record l1_block_info_jovian =
  lj_base :: l1_block_info_isthmus
  lj_da_footprint_gas_scalar :: u16

datatype l1_block_info_tx =
    InfoBedrock l1_block_info_bedrock
  | InfoEcotone l1_block_info_ecotone
  | InfoIsthmus l1_block_info_isthmus
  | InfoJovian l1_block_info_jovian

datatype decode_error =
    MissingSelector
  | InvalidSelector
  | InvalidBedrockLength nat nat
  | InvalidEcotoneLength nat nat
  | InvalidIsthmusLength nat nat
  | InvalidJovianLength nat nat

fun info_base :: "l1_block_info_tx \<Rightarrow> l1_block_info_bedrock_base" where
  "info_base (InfoBedrock i) = lb_base i"
| "info_base (InfoEcotone i) = eb_base (le_base i)"
| "info_base (InfoIsthmus i) = eb_base (li_base i)"
| "info_base (InfoJovian i) = eb_base (li_base (lj_base i))"

definition info_id :: "l1_block_info_tx \<Rightarrow> block_num_hash" where
  "info_id i = \<lparr>nh_number = bb_number (info_base i), nh_hash = bb_block_hash (info_base i)\<rparr>"

definition info_sequence_number :: "l1_block_info_tx \<Rightarrow> u64" where
  "info_sequence_number i = bb_sequence_number (info_base i)"

fun info_operator_fee_scalar :: "l1_block_info_tx \<Rightarrow> u32" where
  "info_operator_fee_scalar (InfoJovian i) = li_operator_fee_scalar (lj_base i)"
| "info_operator_fee_scalar (InfoIsthmus i) = li_operator_fee_scalar i"
| "info_operator_fee_scalar _ = 0"

fun info_operator_fee_constant :: "l1_block_info_tx \<Rightarrow> u64" where
  "info_operator_fee_constant (InfoJovian i) = li_operator_fee_constant (lj_base i)"
| "info_operator_fee_constant (InfoIsthmus i) = li_operator_fee_constant i"
| "info_operator_fee_constant _ = 0"

fun info_da_footprint :: "l1_block_info_tx \<Rightarrow> u16 option" where
  "info_da_footprint (InfoJovian i) = Some (lj_da_footprint_gas_scalar i)"
| "info_da_footprint _ = None"

fun info_l1_fee_overhead :: "l1_block_info_tx \<Rightarrow> u256" where
  "info_l1_fee_overhead (InfoBedrock i) = lb_l1_fee_overhead i"
| "info_l1_fee_overhead (InfoEcotone i) = le_l1_fee_overhead i"
| "info_l1_fee_overhead _ = 0"

section \<open>Calldata\<close>

definition BEDROCK_SELECTOR :: bytes where
  "BEDROCK_SELECTOR = [0x01, 0x5d, 0x8e, 0xb9]"

definition ECOTONE_SELECTOR :: bytes where
  "ECOTONE_SELECTOR = [0x44, 0x0a, 0x5e, 0x20]"

definition ISTHMUS_SELECTOR :: bytes where
  "ISTHMUS_SELECTOR = [0x09, 0x89, 0x99, 0xbe]"

definition JOVIAN_SELECTOR :: bytes where
  "JOVIAN_SELECTOR = [0x3d, 0xb6, 0xbe, 0x2b]"

definition BEDROCK_LEN :: nat where
  "BEDROCK_LEN = 4 + 32 * 8"

definition ECOTONE_LEN :: nat where
  "ECOTONE_LEN = 4 + 32 * 5"

definition ISTHMUS_LEN :: nat where
  "ISTHMUS_LEN = 4 + 32 * 5 + 4 + 8"

definition JOVIAN_LEN :: nat where
  "JOVIAN_LEN = 4 + 32 * 5 + 4 + 8 + 2"

definition JOVIAN_DEFAULT_DA_FOOTPRINT_GAS_SCALAR :: u16 where
  "JOVIAN_DEFAULT_DA_FOOTPRINT_GAS_SCALAR = 400"

definition bedrock_encode_calldata :: "l1_block_info_bedrock \<Rightarrow> bytes" where
  "bedrock_encode_calldata i =
     BEDROCK_SELECTOR @ be_bytes 32 (bb_number (lb_base i)) @ be_bytes 32 (bb_time (lb_base i))
     @ be_bytes 32 (bb_base_fee (lb_base i)) @ be_bytes 32 (bb_block_hash (lb_base i))
     @ be_bytes 32 (bb_sequence_number (lb_base i)) @ be_bytes 32 (bb_batcher_address (lb_base i))
     @ be_bytes 32 (lb_l1_fee_overhead i) @ be_bytes 32 (lb_l1_fee_scalar i)"

definition bedrock_decode_calldata :: "bytes \<Rightarrow> (decode_error, l1_block_info_bedrock) outcome" where
  "bedrock_decode_calldata r =
     (if length r \<noteq> BEDROCK_LEN then Err (InvalidBedrockLength BEDROCK_LEN (length r))
      else
        obind (slice r 28 36) (\<lambda>number.
        obind (slice r 60 68) (\<lambda>time.
        obind (slice r 92 100) (\<lambda>base_fee.
        obind (slice r 100 132) (\<lambda>block_hash.
        obind (slice r 156 164) (\<lambda>sequence_number.
        obind (slice r 176 196) (\<lambda>batcher_address.
        obind (slice r 196 228) (\<lambda>l1_fee_overhead.
        obind (slice r 228 260) (\<lambda>l1_fee_scalar.
          Ok \<lparr>lb_base = \<lparr>bb_number = u64_from_be_bytes number, bb_time = u64_from_be_bytes time,
                bb_base_fee = u64_from_be_bytes base_fee, bb_block_hash = from_be block_hash,
                bb_sequence_number = u64_from_be_bytes sequence_number,
                bb_batcher_address = from_be batcher_address\<rparr>,
              lb_l1_fee_overhead = from_be l1_fee_overhead, lb_l1_fee_scalar = from_be l1_fee_scalar\<rparr>)))))))))"

definition ecotone_body :: "l1_block_info_ecotone_base \<Rightarrow> bytes" where
  "ecotone_body b =
     u32_to_be_bytes (eb_base_fee_scalar b) @ u32_to_be_bytes (eb_blob_base_fee_scalar b)
     @ u64_to_be_bytes (bb_sequence_number (eb_base b)) @ u64_to_be_bytes (bb_time (eb_base b))
     @ u64_to_be_bytes (bb_number (eb_base b)) @ be_bytes 32 (bb_base_fee (eb_base b))
     @ be_bytes 32 (eb_blob_base_fee b) @ be_bytes 32 (bb_block_hash (eb_base b))
     @ be_bytes 32 (bb_batcher_address (eb_base b))"

definition ecotone_decode_body :: "bytes \<Rightarrow> (decode_error, l1_block_info_ecotone_base) outcome" where
  "ecotone_decode_body r =
     obind (slice r 4 8) (\<lambda>base_fee_scalar.
     obind (slice r 8 12) (\<lambda>blob_base_fee_scalar.
     obind (slice r 12 20) (\<lambda>sequence_number.
     obind (slice r 20 28) (\<lambda>time.
     obind (slice r 28 36) (\<lambda>number.
     obind (slice r 60 68) (\<lambda>base_fee.
     obind (slice r 84 100) (\<lambda>blob_base_fee.
     obind (slice r 100 132) (\<lambda>block_hash.
     obind (slice r 144 164) (\<lambda>batcher_address.
       Ok \<lparr>eb_base = \<lparr>bb_number = u64_from_be_bytes number, bb_time = u64_from_be_bytes time,
             bb_base_fee = u64_from_be_bytes base_fee, bb_block_hash = from_be block_hash,
             bb_sequence_number = u64_from_be_bytes sequence_number,
             bb_batcher_address = from_be batcher_address\<rparr>,
           eb_blob_base_fee = from_be blob_base_fee,
           eb_blob_base_fee_scalar = u32_from_be_bytes blob_base_fee_scalar,
           eb_base_fee_scalar = u32_from_be_bytes base_fee_scalar\<rparr>)))))))))"

definition ecotone_encode_calldata :: "l1_block_info_ecotone \<Rightarrow> bytes" where
  "ecotone_encode_calldata i = ECOTONE_SELECTOR @ ecotone_body (le_base i)"

definition ecotone_decode_calldata :: "bytes \<Rightarrow> (decode_error, l1_block_info_ecotone) outcome" where
  "ecotone_decode_calldata r =
     (if length r \<noteq> ECOTONE_LEN then Err (InvalidEcotoneLength ECOTONE_LEN (length r))
      else obind (ecotone_decode_body r) (\<lambda>base.
        Ok \<lparr>le_base = base, le_empty_scalars = False, le_l1_fee_overhead = 0\<rparr>))"

definition isthmus_body :: "l1_block_info_isthmus \<Rightarrow> bytes" where
  "isthmus_body i =
     ecotone_body (li_base i) @ u32_to_be_bytes (li_operator_fee_scalar i)
     @ u64_to_be_bytes (li_operator_fee_constant i)"

definition isthmus_decode_body :: "bytes \<Rightarrow> (decode_error, l1_block_info_isthmus) outcome" where
  "isthmus_decode_body r =
     obind (ecotone_decode_body r) (\<lambda>base.
     obind (slice r 164 168) (\<lambda>operator_fee_scalar.
     obind (slice r 168 176) (\<lambda>operator_fee_constant.
       Ok \<lparr>li_base = base, li_operator_fee_scalar = u32_from_be_bytes operator_fee_scalar,
           li_operator_fee_constant = u64_from_be_bytes operator_fee_constant\<rparr>)))"

definition isthmus_encode_calldata :: "l1_block_info_isthmus \<Rightarrow> bytes" where
  "isthmus_encode_calldata i = ISTHMUS_SELECTOR @ isthmus_body i"

definition isthmus_decode_calldata :: "bytes \<Rightarrow> (decode_error, l1_block_info_isthmus) outcome" where
  "isthmus_decode_calldata r =
     (if length r \<noteq> ISTHMUS_LEN then Err (InvalidIsthmusLength ISTHMUS_LEN (length r))
      else isthmus_decode_body r)"

definition jovian_body :: "l1_block_info_jovian \<Rightarrow> bytes" where
  "jovian_body i = isthmus_body (lj_base i) @ u16_to_be_bytes (lj_da_footprint_gas_scalar i)"

definition jovian_decode_body :: "bytes \<Rightarrow> (decode_error, l1_block_info_jovian) outcome" where
  "jovian_decode_body r =
     obind (isthmus_decode_body r) (\<lambda>base.
     obind (slice r 176 178) (\<lambda>scalar.
       let da_footprint_gas_scalar = u16_from_be_bytes scalar in
       Ok \<lparr>lj_base = base, lj_da_footprint_gas_scalar =
             (if da_footprint_gas_scalar = 0 then JOVIAN_DEFAULT_DA_FOOTPRINT_GAS_SCALAR else da_footprint_gas_scalar)\<rparr>))"

definition jovian_encode_calldata :: "l1_block_info_jovian \<Rightarrow> bytes" where
  "jovian_encode_calldata i = JOVIAN_SELECTOR @ jovian_body i"

definition jovian_decode_calldata :: "bytes \<Rightarrow> (decode_error, l1_block_info_jovian) outcome" where
  "jovian_decode_calldata r =
     (if length r \<noteq> JOVIAN_LEN then Err (InvalidJovianLength JOVIAN_LEN (length r)) else jovian_decode_body r)"

fun encode_calldata :: "l1_block_info_tx \<Rightarrow> bytes" where
  "encode_calldata (InfoBedrock i) = bedrock_encode_calldata i"
| "encode_calldata (InfoEcotone i) = ecotone_encode_calldata i"
| "encode_calldata (InfoIsthmus i) = isthmus_encode_calldata i"
| "encode_calldata (InfoJovian i) = jovian_encode_calldata i"

definition map_ok :: "('a \<Rightarrow> 'b) \<Rightarrow> ('e, 'a) outcome \<Rightarrow> ('e, 'b) outcome" where
  "map_ok f m = obind m (\<lambda>x. Ok (f x))"

definition decode_calldata :: "bytes \<Rightarrow> (decode_error, l1_block_info_tx) outcome" where
  "decode_calldata r =
     (if length r < 4 then Err MissingSelector
      else obind (slice r 0 4) (\<lambda>selector.
        if selector = BEDROCK_SELECTOR then map_ok InfoBedrock (bedrock_decode_calldata r)
        else if selector = ECOTONE_SELECTOR then map_ok InfoEcotone (ecotone_decode_calldata r)
        else if selector = ISTHMUS_SELECTOR then map_ok InfoIsthmus (isthmus_decode_calldata r)
        else if selector = JOVIAN_SELECTOR then map_ok InfoJovian (jovian_decode_calldata r)
        else Err InvalidSelector))"

section \<open>Round trips\<close>

lemmas selector_defs = BEDROCK_SELECTOR_def ECOTONE_SELECTOR_def ISTHMUS_SELECTOR_def JOVIAN_SELECTOR_def

lemmas calldata_lens = BEDROCK_LEN_def ECOTONE_LEN_def ISTHMUS_LEN_def JOVIAN_LEN_def

lemma map_ok_simps [simp]: "map_ok f (Ok x) = Ok (f x)" "map_ok f (Err e) = Err e" "map_ok f Panic = Panic"
  by (simp_all add: map_ok_def)

lemma length_bodies [codec_simps]:
  "length (ecotone_body b) = 160" "length (isthmus_body i) = 172" "length (jovian_body j) = 174"
  by (simp_all add: ecotone_body_def isthmus_body_def jovian_body_def)

lemma bedrock_back: "bedrock_decode_calldata (bedrock_encode_calldata i) = Ok i"
  by (simp add: bedrock_decode_calldata_def bedrock_encode_calldata_def selector_defs calldata_lens from_be_native)

lemma ecotone_body_back: "length sel = 4 \<Longrightarrow> ecotone_decode_body (sel @ ecotone_body b @ rest) = Ok b"
  by (simp add: ecotone_decode_body_def ecotone_body_def be_bytes_native from_be_native)

lemma isthmus_body_back: "length sel = 4 \<Longrightarrow> isthmus_decode_body (sel @ isthmus_body i @ rest) = Ok i"
  using ecotone_body_back [of sel "li_base i" "u32_to_be_bytes (li_operator_fee_scalar i)
      @ u64_to_be_bytes (li_operator_fee_constant i) @ rest"]
  by (simp add: isthmus_decode_body_def isthmus_body_def codec_simps)

definition jovian_normal :: "l1_block_info_jovian \<Rightarrow> l1_block_info_jovian" where
  "jovian_normal i =
     (if lj_da_footprint_gas_scalar i = 0
      then i\<lparr>lj_da_footprint_gas_scalar := JOVIAN_DEFAULT_DA_FOOTPRINT_GAS_SCALAR\<rparr> else i)"

lemma jovian_body_back: "length sel = 4 \<Longrightarrow> jovian_decode_body (sel @ jovian_body i) = Ok (jovian_normal i)"
  using isthmus_body_back [of sel "lj_base i" "u16_to_be_bytes (lj_da_footprint_gas_scalar i)"]
  by (simp add: jovian_decode_body_def jovian_body_def jovian_normal_def codec_simps Let_def)

text \<open>What the calldata does not carry comes back as its default.\<close>

fun info_normal :: "l1_block_info_tx \<Rightarrow> l1_block_info_tx" where
  "info_normal (InfoBedrock i) = InfoBedrock i"
| "info_normal (InfoEcotone i) = InfoEcotone (i\<lparr>le_empty_scalars := False, le_l1_fee_overhead := 0\<rparr>)"
| "info_normal (InfoIsthmus i) = InfoIsthmus i"
| "info_normal (InfoJovian i) = InfoJovian (jovian_normal i)"

lemma info_normal_base [simp]: "info_base (info_normal i) = info_base i"
  by (cases i) (simp_all add: jovian_normal_def)

lemma decode_encode_calldata: "decode_calldata (encode_calldata i) = Ok (info_normal i)"
proof (cases i)
  case (InfoBedrock b)
  then show ?thesis
    by (simp add: decode_calldata_def bedrock_back) (simp add: bedrock_encode_calldata_def selector_defs)
next
  case (InfoEcotone e)
  then show ?thesis
    using ecotone_body_back [of ECOTONE_SELECTOR "le_base e" "[]"]
    by (simp add: decode_calldata_def ecotone_encode_calldata_def ecotone_decode_calldata_def selector_defs
        calldata_lens codec_simps)
next
  case (InfoIsthmus e)
  then show ?thesis
    using isthmus_body_back [of ISTHMUS_SELECTOR e "[]"]
    by (simp add: decode_calldata_def isthmus_encode_calldata_def isthmus_decode_calldata_def selector_defs
        calldata_lens codec_simps)
next
  case (InfoJovian e)
  then show ?thesis
    using jovian_body_back [of JOVIAN_SELECTOR e]
    by (simp add: decode_calldata_def jovian_encode_calldata_def jovian_decode_calldata_def selector_defs
        calldata_lens codec_simps)
qed

lemma ecotone_decode_total: "164 \<le> length r \<Longrightarrow> \<exists>b. ecotone_decode_body r = Ok b"
  by (simp add: ecotone_decode_body_def)

lemma isthmus_decode_total: "176 \<le> length r \<Longrightarrow> \<exists>i. isthmus_decode_body r = Ok i"
  using ecotone_decode_total [of r] by (auto simp: isthmus_decode_body_def)

lemma decode_calldata_safe: "decode_calldata r \<noteq> Panic"
proof -
  have "bedrock_decode_calldata r \<noteq> Panic"
    by (simp add: bedrock_decode_calldata_def calldata_lens)
  moreover have "ecotone_decode_calldata r \<noteq> Panic"
    using ecotone_decode_total [of r] by (auto simp: ecotone_decode_calldata_def calldata_lens)
  moreover have "isthmus_decode_calldata r \<noteq> Panic"
    using isthmus_decode_total [of r] by (auto simp: isthmus_decode_calldata_def calldata_lens)
  moreover have "jovian_decode_calldata r \<noteq> Panic"
    using isthmus_decode_total [of r] by (auto simp: jovian_decode_calldata_def jovian_decode_body_def calldata_lens Let_def)
  ultimately show ?thesis
    by (auto simp: decode_calldata_def map_ok_def obind_eq_Panic)
qed

section \<open>The info of a block\<close>

record header =
  hd_parent_hash :: b256
  hd_number :: u64
  hd_timestamp :: u64
  hd_mix_hash :: b256
  hd_gas_limit :: u64
  hd_extra_data :: bytes
  hd_base_fee_per_gas :: "u64 option"
  hd_parent_beacon_block_root :: "b256 option"
  hd_excess_blob_gas :: "u64 option"
  hd_other :: bytes

text \<open>\<open>hd_other\<close> stands for the header fields that are only hashed.\<close>

record 'bp l1_env =
  ev_keccak :: keccak
  ev_hash_slow :: "header \<Rightarrow> b256"
  ev_blob_fee :: "header \<Rightarrow> 'bp \<Rightarrow> u128 option"
  ev_scheduled_params :: "u64 \<Rightarrow> 'bp option"
  ev_osaka_time :: "u64 option"
  ev_prague_time :: "u64 option"
  ev_osaka :: 'bp
  ev_prague :: 'bp
  ev_cancun :: 'bp

datatype block_info_error =
    BadL1BlobBaseFeeScalar | BadBaseFeeScalar | BadEip1559Denominator | BadEip1559Elasticity
  | BadOperatorFeeScalar | BadOperatorFeeConstant

definition is_first_block :: "(rollup_config \<Rightarrow> u64 \<Rightarrow> bool) \<Rightarrow> rollup_config \<Rightarrow> u64 \<Rightarrow> u64 \<Rightarrow> bool" where
  "is_first_block active c timestamp parent_timestamp \<longleftrightarrow> active c timestamp \<and> \<not> active c parent_timestamp"

abbreviation unwrap_or :: "'a \<Rightarrow> 'a option \<Rightarrow> 'a" where
  "unwrap_or d x \<equiv> case x of Some y \<Rightarrow> y | None \<Rightarrow> d"

definition u32_of_slice :: "'e \<Rightarrow> bytes \<Rightarrow> ('e, u32) outcome" where
  "u32_of_slice e bs = (if length bs = 4 then Ok (u32_from_be_bytes bs) else Err e)"

definition L1_SCALAR :: u8 where
  "L1_SCALAR = 1"

definition blob_fee_config :: "rollup_config \<Rightarrow> 'bp l1_env \<Rightarrow> u64 \<Rightarrow> 'bp" where
  "blob_fee_config cfg E timestamp =
     (case ev_scheduled_params E timestamp of
        Some p \<Rightarrow> p
      | None \<Rightarrow>
          if active_at (ev_osaka_time E) timestamp then ev_osaka E
          else if active_at (ev_prague_time E) timestamp
            \<and> (upgrade_activation_timestamp cfg PectraBlobSchedule = None
               \<or> is_pectra_blob_schedule_active cfg timestamp)
          then ev_prague E
          else ev_cancun E)"

definition info_base_new :: "'bp l1_env \<Rightarrow> header \<Rightarrow> u64 \<Rightarrow> system_config \<Rightarrow> l1_block_info_bedrock_base" where
  "info_base_new E l1_header sequence_number sc =
     \<lparr>bb_number = hd_number l1_header, bb_time = hd_timestamp l1_header,
      bb_base_fee = unwrap_or 0 (hd_base_fee_per_gas l1_header), bb_block_hash = ev_hash_slow E l1_header,
      bb_sequence_number = sequence_number, bb_batcher_address = sc_batcher_address sc\<rparr>"

definition try_new ::
    "rollup_config \<Rightarrow> 'bp l1_env \<Rightarrow> system_config \<Rightarrow> u64 \<Rightarrow> header \<Rightarrow> u64 \<Rightarrow> u64
       \<Rightarrow> (block_info_error, l1_block_info_tx) outcome" where
  "try_new cfg E sc sequence_number l1_header l2_parent_block_time l2_block_time =
     (let base = info_base_new E l1_header sequence_number sc in
      if \<not> is_ecotone_active cfg l2_block_time
         \<or> is_first_block is_ecotone_active cfg l2_block_time l2_parent_block_time
      then Ok (InfoBedrock \<lparr>lb_base = base, lb_l1_fee_overhead = sc_overhead sc, lb_l1_fee_scalar = sc_scalar sc\<rparr>)
      else
        let scalar = be_bytes 32 (sc_scalar sc) in
        obind (index scalar 0) (\<lambda>version.
        obind (if version = L1_SCALAR then obind (slice scalar 24 28) (u32_of_slice BadL1BlobBaseFeeScalar) else Ok 0)
          (\<lambda>blob_base_fee_scalar.
        obind (obind (slice scalar 28 32) (u32_of_slice BadBaseFeeScalar)) (\<lambda>base_fee_scalar.
          let eb = \<lparr>eb_base = base,
                eb_blob_base_fee = unwrap_or 1 (ev_blob_fee E l1_header (blob_fee_config cfg E (hd_timestamp l1_header))),
                eb_blob_base_fee_scalar = blob_base_fee_scalar, eb_base_fee_scalar = base_fee_scalar\<rparr>;
              ib = \<lparr>li_base = eb, li_operator_fee_scalar = unwrap_or 0 (sc_operator_fee_scalar sc),
                li_operator_fee_constant = unwrap_or 0 (sc_operator_fee_constant sc)\<rparr>;
              da = unwrap_or JOVIAN_DEFAULT_DA_FOOTPRINT_GAS_SCALAR (sc_da_footprint_gas_scalar sc)
          in if is_jovian_active cfg l2_block_time
               \<and> \<not> is_first_block is_jovian_active cfg l2_block_time l2_parent_block_time
             then Ok (InfoJovian \<lparr>lj_base = ib,
               lj_da_footprint_gas_scalar = (if da = 0 then JOVIAN_DEFAULT_DA_FOOTPRINT_GAS_SCALAR else da)\<rparr>)
             else if is_isthmus_active cfg l2_block_time
               \<and> \<not> is_first_block is_isthmus_active cfg l2_block_time l2_parent_block_time
             then Ok (InfoIsthmus ib)
             else Ok (InfoEcotone \<lparr>le_base = eb, le_empty_scalars = False, le_l1_fee_overhead = 0\<rparr>)))))"

definition REGOLITH_SYSTEM_TX_GAS :: u64 where
  "REGOLITH_SYSTEM_TX_GAS = 1000000"

definition into_deposit_tx :: "keccak \<Rightarrow> rollup_config \<Rightarrow> u64 \<Rightarrow> l1_block_info_tx \<Rightarrow> tx_deposit" where
  "into_deposit_tx kk cfg l2_block_time info =
     (let regolith = is_regolith_active cfg l2_block_time in
      \<lparr>dep_source_hash = source_hash kk (L1InfoSource (nh_hash (info_id info)) (info_sequence_number info)),
       dep_from = DEPOSITOR_ACCOUNT, dep_to = TxCall L1_BLOCK_INFO, dep_mint = 0, dep_value = 0,
       dep_gas_limit = (if regolith then REGOLITH_SYSTEM_TX_GAS else 150000000),
       dep_is_system_transaction = (\<not> regolith), dep_input = encode_calldata info\<rparr>)"

definition try_new_with_deposit_tx ::
    "rollup_config \<Rightarrow> 'bp l1_env \<Rightarrow> system_config \<Rightarrow> u64 \<Rightarrow> header \<Rightarrow> u64 \<Rightarrow> u64
       \<Rightarrow> (block_info_error, l1_block_info_tx \<times> tx_deposit) outcome" where
  "try_new_with_deposit_tx cfg E sc sequence_number l1_header l2_parent_block_time l2_block_time =
     obind (try_new cfg E sc sequence_number l1_header l2_parent_block_time l2_block_time)
       (\<lambda>l1_info. Ok (l1_info, into_deposit_tx (ev_keccak E) cfg l2_block_time l1_info))"

text \<open>The constructor never fails, and the info carries the identity of the L1 block.\<close>

lemma try_new_ok:
  "\<exists>info. try_new cfg E sc n h parent_time time = Ok info \<and> info_base info = info_base_new E h n sc
     \<and> info_normal info = info"
  by (auto simp: try_new_def Let_def u32_of_slice_def JOVIAN_DEFAULT_DA_FOOTPRINT_GAS_SCALAR_def jovian_normal_def)

end
