(* ===== verification/Block_Info.thy ===== *)
theory Block_Info
  imports L1_Info L1_Traversal
begin

text \<open>
  Reading an L2 block back: the block reference of crates/consensus/protocol/src/block.rs, the system
  configuration of .../utils.rs, and the EIP-1559 parameters in the extra data of the header, of
  crates/common/consensus/src/extra.
\<close>

section \<open>Extra data\<close>

datatype eip1559_param_error =
    InvalidVersion u8 | NoEIP1559Params | DenominatorOverflow | ElasticityOverflow | InvalidExtraDataLength
  | InvalidParams | MinBaseFeeMustBeNone | MinBaseFeeNotSet

record base_fee_params =
  bf_max_change_denominator :: u128
  bf_elasticity_multiplier :: u128

definition u32_try_from :: "'e \<Rightarrow> u128 \<Rightarrow> ('e, u32) outcome" where
  "u32_try_from e w = (if unat w < 2 ^ 32 then Ok (ucast w) else Err e)"

definition decode_params :: "bytes \<Rightarrow> ('e, u32 \<times> u32) outcome" where
  "decode_params params =
     obind (slice params 0 4) (\<lambda>denominator.
     obind (slice params 4 8) (\<lambda>elasticity.
       Ok (u32_from_be_bytes elasticity, u32_from_be_bytes denominator)))"

definition write_params :: "u32 \<Rightarrow> u32 \<Rightarrow> bytes \<Rightarrow> bytes" where
  "write_params denominator elasticity extra =
     take 1 extra @ u32_to_be_bytes denominator @ u32_to_be_bytes elasticity @ drop 9 extra"

definition eip1559_encode ::
    "bytes \<Rightarrow> base_fee_params \<Rightarrow> bytes \<Rightarrow> (eip1559_param_error, bytes) outcome" where
  "eip1559_encode params defaults extra =
     (if length extra < 9 then Err InvalidExtraDataLength
      else if \<forall>b \<in> set params. b = 0
      then obind (u32_try_from DenominatorOverflow (bf_max_change_denominator defaults)) (\<lambda>denominator.
           obind (u32_try_from ElasticityOverflow (bf_elasticity_multiplier defaults)) (\<lambda>elasticity.
             Ok (write_params denominator elasticity extra)))
      else obind (decode_params params) (\<lambda>(elasticity, denominator).
             Ok (write_params denominator elasticity extra)))"

definition holocene_encode :: "bytes \<Rightarrow> base_fee_params \<Rightarrow> (eip1559_param_error, bytes) outcome" where
  "holocene_encode params defaults = eip1559_encode params defaults (replicate 9 0)"

definition holocene_decode :: "bytes \<Rightarrow> (eip1559_param_error, u32 \<times> u32) outcome" where
  "holocene_decode extra =
     (if length extra \<noteq> 9 then Err InvalidExtraDataLength
      else obind (index extra 0) (\<lambda>version.
        if version \<noteq> 0 then Err (InvalidVersion version) else obind (slice extra 1 9) decode_params))"

definition jovian_encode :: "bytes \<Rightarrow> base_fee_params \<Rightarrow> u64 \<Rightarrow> (eip1559_param_error, bytes) outcome" where
  "jovian_encode params defaults min_fee =
     obind (eip1559_encode params defaults (1 # replicate 16 0)) (\<lambda>extra.
       Ok (take 9 extra @ u64_to_be_bytes min_fee))"

definition jovian_decode :: "bytes \<Rightarrow> (eip1559_param_error, u32 \<times> u32 \<times> u64) outcome" where
  "jovian_decode extra =
     (if length extra \<noteq> 17 then Err InvalidExtraDataLength
      else obind (index extra 0) (\<lambda>version.
        if version \<noteq> 1 then Err (InvalidVersion version)
        else obind (slice extra 1 5) (\<lambda>denominator.
             obind (slice extra 5 9) (\<lambda>elasticity.
             obind (slice extra 9 17) (\<lambda>min_base_fee.
               Ok (u32_from_be_bytes elasticity, u32_from_be_bytes denominator, u64_from_be_bytes min_base_fee))))))"

section \<open>Blocks\<close>

text \<open>A transaction that is not a deposit is its type and its EIP-2718 encoding.\<close>

datatype base_tx_envelope = EnvDeposit tx_deposit | EnvOther op_tx_type bytes

record l2_block_data =
  blk_header :: header
  blk_transactions :: "base_tx_envelope list"

datatype from_block_error =
    FromInvalidGenesisHash
  | MissingL1InfoDeposit b256
  | FirstTxNonDeposit u8
  | BlockInfoDecodeError decode_error

definition block_info_of :: "(header \<Rightarrow> b256) \<Rightarrow> l2_block_data \<Rightarrow> block_info" where
  "block_info_of hash_slow block =
     \<lparr>bi_hash = hash_slow (blk_header block), bi_number = hd_number (blk_header block),
      bi_parent_hash = hd_parent_hash (blk_header block), bi_timestamp = hd_timestamp (blk_header block)\<rparr>"

definition from_block_and_genesis ::
    "(header \<Rightarrow> b256) \<Rightarrow> l2_block_data \<Rightarrow> chain_genesis \<Rightarrow> (from_block_error, l2_block_info) outcome" where
  "from_block_and_genesis hash_slow block genesis =
     (let block_info = block_info_of hash_slow block in
      if bi_number block_info = nh_number (g_l2 genesis)
      then if bi_hash block_info \<noteq> nh_hash (g_l2 genesis) then Err FromInvalidGenesisHash
           else Ok \<lparr>l2_block = block_info, l2_l1_origin = g_l1 genesis, l2_seq_num = 0\<rparr>
      else case blk_transactions block of
          [] \<Rightarrow> Err (MissingL1InfoDeposit (bi_hash block_info))
        | EnvOther ty _ # _ \<Rightarrow> Err (FirstTxNonDeposit (tx_type_byte ty))
        | EnvDeposit tx # _ \<Rightarrow>
            obind (map_err BlockInfoDecodeError (decode_calldata (dep_input tx))) (\<lambda>l1_info.
              Ok \<lparr>l2_block = block_info, l2_l1_origin = info_id l1_info,
                  l2_seq_num = info_sequence_number l1_info\<rparr>))"

section \<open>The system configuration of a block\<close>

datatype block_conversion_error =
    InvalidGenesisHash b256 b256
  | InvalidTxType u8
  | InvalidTransactionEncoding string
  | L1InfoError decode_error
  | MissingSystemConfigGenesis
  | EmptyTransactions b256
  | Eip1559DecodeError eip1559_param_error

definition encode_scalar :: "u32 \<Rightarrow> u32 \<Rightarrow> u256" where
  "encode_scalar blob_base_fee_scalar base_fee_scalar =
     from_be ([1] @ replicate 23 0 @ u32_to_be_bytes blob_base_fee_scalar @ u32_to_be_bytes base_fee_scalar)"

fun info_scalar :: "l1_block_info_tx \<Rightarrow> u256" where
  "info_scalar (InfoBedrock i) = lb_l1_fee_scalar i"
| "info_scalar (InfoEcotone i) = encode_scalar (eb_blob_base_fee_scalar (le_base i)) (eb_base_fee_scalar (le_base i))"
| "info_scalar (InfoIsthmus i) = encode_scalar (eb_blob_base_fee_scalar (li_base i)) (eb_base_fee_scalar (li_base i))"
| "info_scalar (InfoJovian i) =
     encode_scalar (eb_blob_base_fee_scalar (li_base (lj_base i))) (eb_base_fee_scalar (li_base (lj_base i)))"

definition system_config_from_transaction ::
    "base_tx_envelope \<Rightarrow> u64 \<Rightarrow> u64 \<Rightarrow> bytes \<Rightarrow> rollup_config \<Rightarrow> (block_conversion_error, system_config) outcome" where
  "system_config_from_transaction first_tx timestamp gas extra cfg =
     (case first_tx of
        EnvOther ty _ \<Rightarrow> Err (InvalidTxType (tx_type_byte ty))
      | EnvDeposit tx \<Rightarrow>
         obind (map_err L1InfoError (decode_calldata (dep_input tx))) (\<lambda>l1_info.
         let sc = system_config_default\<lparr>sc_batcher_address := bb_batcher_address (info_base l1_info),
               sc_overhead := info_l1_fee_overhead l1_info, sc_scalar := info_scalar l1_info, sc_gas_limit := gas\<rparr>
         in obind
             (if is_jovian_active cfg timestamp
              then obind (map_err Eip1559DecodeError (jovian_decode extra)) (\<lambda>(elasticity, denominator, min_base_fee).
                Ok (sc\<lparr>sc_eip1559_denominator := Some denominator, sc_eip1559_elasticity := Some elasticity,
                       sc_min_base_fee := Some min_base_fee\<rparr>))
              else if is_holocene_active cfg timestamp
              then obind (map_err Eip1559DecodeError (holocene_decode extra)) (\<lambda>(elasticity, denominator).
                Ok (sc\<lparr>sc_eip1559_denominator := Some denominator, sc_eip1559_elasticity := Some elasticity\<rparr>))
              else Ok sc) (\<lambda>sc.
         let sc = (if is_isthmus_active cfg timestamp
               then sc\<lparr>sc_operator_fee_scalar := Some (info_operator_fee_scalar l1_info),
                       sc_operator_fee_constant := Some (info_operator_fee_constant l1_info)\<rparr> else sc)
         in Ok (case info_da_footprint l1_info of
                  Some da \<Rightarrow> sc\<lparr>sc_da_footprint_gas_scalar := Some da\<rparr> | None \<Rightarrow> sc))))"

definition genesis_system_config ::
    "u64 \<Rightarrow> b256 \<Rightarrow> rollup_config \<Rightarrow> (block_conversion_error, system_config option) outcome" where
  "genesis_system_config block_number block_hash cfg =
     (if block_number \<noteq> nh_number (g_l2 (rc_genesis cfg)) then Ok None
      else if block_hash \<noteq> nh_hash (g_l2 (rc_genesis cfg))
      then Err (InvalidGenesisHash (nh_hash (g_l2 (rc_genesis cfg))) block_hash)
      else ok_or MissingSystemConfigGenesis (map_option Some (g_system_config (rc_genesis cfg))))"

definition to_system_config ::
    "(header \<Rightarrow> b256) \<Rightarrow> l2_block_data \<Rightarrow> rollup_config \<Rightarrow> (block_conversion_error, system_config) outcome" where
  "to_system_config hash_slow block cfg =
     (let hd = blk_header block; block_hash = hash_slow hd in
      obind (genesis_system_config (hd_number hd) block_hash cfg) (\<lambda>g.
        case g of
          Some config \<Rightarrow> Ok config
        | None \<Rightarrow>
           (case blk_transactions block of
              [] \<Rightarrow> Err (EmptyTransactions block_hash)
            | first_tx # _ \<Rightarrow>
                system_config_from_transaction first_tx (hd_timestamp hd) (hd_gas_limit hd) (hd_extra_data hd) cfg)))"

section \<open>Extra data round trips\<close>

lemma decode_params_written:
  "decode_params (u32_to_be_bytes denominator @ u32_to_be_bytes elasticity) = Ok (elasticity, denominator)"
  by (simp add: decode_params_def)

definition eip1559_choice :: "bytes \<Rightarrow> base_fee_params \<Rightarrow> u32 \<times> u32" where
  "eip1559_choice params defaults =
     (if \<forall>b \<in> set params. b = 0 then (ucast (bf_elasticity_multiplier defaults), ucast (bf_max_change_denominator defaults))
      else (u32_from_be_bytes (drop 4 params), u32_from_be_bytes (take 4 params)))"

definition params_ok :: "bytes \<Rightarrow> base_fee_params \<Rightarrow> bool" where
  "params_ok params defaults \<longleftrightarrow> length params = 8
     \<and> unat (bf_max_change_denominator defaults) < 2 ^ 32 \<and> unat (bf_elasticity_multiplier defaults) < 2 ^ 32"

lemma eip1559_encode_ok:
  assumes "params_ok params defaults" "9 \<le> length extra"
  shows "eip1559_encode params defaults extra = Ok (write_params (snd (eip1559_choice params defaults))
    (fst (eip1559_choice params defaults)) extra)"
  using assms
  by (auto simp: params_ok_def eip1559_encode_def u32_try_from_def eip1559_choice_def decode_params_def)

lemma holocene_back:
  "params_ok params defaults \<Longrightarrow>
     obind (holocene_encode params defaults) holocene_decode = Ok (eip1559_choice params defaults)"
  by (simp add: holocene_encode_def eip1559_encode_ok holocene_decode_def write_params_def decode_params_written)

lemma jovian_back:
  "params_ok params defaults \<Longrightarrow>
     obind (jovian_encode params defaults fee) jovian_decode
       = Ok (fst (eip1559_choice params defaults), snd (eip1559_choice params defaults), fee)"
  by (simp add: jovian_encode_def eip1559_encode_ok jovian_decode_def write_params_def)

section \<open>Reading a block back\<close>

text \<open>A system configuration as a block at time \<open>t\<close> can carry it.\<close>

definition config_format :: "rollup_config \<Rightarrow> u64 \<Rightarrow> system_config \<Rightarrow> bool" where
  "config_format cfg t sc \<longleftrightarrow>
     sc_base_fee_scalar sc = None \<and> sc_blob_base_fee_scalar sc = None
     \<and> (is_ecotone_active cfg t \<longrightarrow> sc_overhead sc = 0 \<and> (\<exists>b f. sc_scalar sc = encode_scalar b f))
     \<and> (if is_holocene_active cfg t
        then \<exists>d e. sc_eip1559_denominator sc = Some d \<and> sc_eip1559_elasticity sc = Some e \<and> (d \<noteq> 0 \<or> e \<noteq> 0)
        else sc_eip1559_denominator sc = None \<and> sc_eip1559_elasticity sc = None)
     \<and> (sc_operator_fee_scalar sc \<noteq> None \<longleftrightarrow> is_isthmus_active cfg t)
     \<and> (sc_operator_fee_constant sc \<noteq> None \<longleftrightarrow> is_isthmus_active cfg t)
     \<and> (sc_min_base_fee sc \<noteq> None \<longleftrightarrow> is_jovian_active cfg t)
     \<and> (if is_jovian_active cfg t then \<exists>s. sc_da_footprint_gas_scalar sc = Some s \<and> s \<noteq> 0
        else sc_da_footprint_gas_scalar sc = None)"

definition settled :: "rollup_config \<Rightarrow> u64 \<Rightarrow> u64 \<Rightarrow> bool" where
  "settled cfg parent_time t \<longleftrightarrow>
     \<not> is_first_block is_ecotone_active cfg t parent_time \<and> \<not> is_first_block is_holocene_active cfg t parent_time
     \<and> \<not> is_first_block is_isthmus_active cfg t parent_time \<and> \<not> is_first_block is_jovian_active cfg t parent_time"

text \<open>The extra data the execution layer writes for the parameters of the attributes.\<close>

definition block_extra ::
    "rollup_config \<Rightarrow> system_config \<Rightarrow> base_fee_params \<Rightarrow> u64 \<Rightarrow> u64 \<Rightarrow> (eip1559_param_error, bytes) outcome" where
  "block_extra cfg sc defaults parent_time t =
     (case eip_1559_params sc cfg parent_time t of
        None \<Rightarrow> Ok []
      | Some params \<Rightarrow>
          if is_jovian_active cfg t then jovian_encode params defaults (unwrap_or 0 (sc_min_base_fee sc))
          else holocene_encode params defaults)"

lemma forks_below:
  "is_jovian_active cfg t \<Longrightarrow> is_isthmus_active cfg t" "is_isthmus_active cfg t \<Longrightarrow> is_holocene_active cfg t"
  "is_holocene_active cfg t \<Longrightarrow> is_ecotone_active cfg t"
  by (simp_all add: is_isthmus_active_def is_holocene_active_def is_ecotone_active_def is_fjord_active_def
      is_granite_active_def)

lemma scalar_bytes:
  "be_bytes 32 (encode_scalar b f) = [1] @ replicate 23 0 @ u32_to_be_bytes b @ u32_to_be_bytes f"
  using be_from_be [of "[1] @ replicate 23 0 @ u32_to_be_bytes b @ u32_to_be_bytes f", where 'a = 256]
  by (simp add: encode_scalar_def)

lemma try_new_settled:
  assumes "settled cfg parent_time t" "is_ecotone_active cfg t" "sc_scalar sc = encode_scalar b f"
    "is_jovian_active cfg t \<Longrightarrow> \<exists>s. sc_da_footprint_gas_scalar sc = Some s \<and> s \<noteq> 0"
  shows "\<exists>info. try_new cfg E sc n h parent_time t = Ok info \<and> info_normal info = info
    \<and> info_base info = info_base_new E h n sc \<and> info_scalar info = sc_scalar sc \<and> info_l1_fee_overhead info = 0
    \<and> (is_isthmus_active cfg t \<longrightarrow> info_operator_fee_scalar info = unwrap_or 0 (sc_operator_fee_scalar sc)
        \<and> info_operator_fee_constant info = unwrap_or 0 (sc_operator_fee_constant sc))
    \<and> info_da_footprint info = (if is_jovian_active cfg t then sc_da_footprint_gas_scalar sc else None)"
  using assms forks_below [of cfg t]
  by (auto simp: try_new_def Let_def settled_def scalar_bytes u32_of_slice_def L1_SCALAR_def jovian_normal_def)

lemma params_written:
  assumes "sc_eip1559_denominator sc = Some d" "sc_eip1559_elasticity sc = Some e" "d \<noteq> 0 \<or> e \<noteq> 0"
    "is_holocene_active cfg t" "\<not> is_first_block is_holocene_active cfg t parent_time"
  shows "\<exists>params. eip_1559_params sc cfg parent_time t = Some params \<and> length params = 8
    \<and> eip1559_choice params defaults = (e, d)"
proof -
  let ?p = "u32_to_be_bytes d @ u32_to_be_bytes e"
  have "\<not> (\<forall>b \<in> set ?p. b = 0)"
  proof
    assume "\<forall>b \<in> set ?p. b = 0"
    then have "u32_to_be_bytes d = replicate 4 0" "u32_to_be_bytes e = replicate 4 0"
      by (metis length_u32_to_be replicate_length_same Un_iff set_append)+
    then have "d = u32_from_be_bytes (replicate 4 0)" "e = u32_from_be_bytes (replicate 4 0)"
      by (metis u32_from_to_be)+
    with assms(3) show False
      by (simp add: u32_from_be_bytes_def nat_from_be_def numeral_eq_Suc)
  qed
  with assms show ?thesis
    by (auto simp: eip_1559_params_def is_first_block_def eip1559_choice_def Let_def)
qed

lemma extra_read_back:
  assumes "config_format cfg t sc" "settled cfg parent_time t" "is_holocene_active cfg t"
    "unat (bf_max_change_denominator defaults) < 2 ^ 32" "unat (bf_elasticity_multiplier defaults) < 2 ^ 32"
    "block_extra cfg sc defaults parent_time t = Ok extra"
  shows "if is_jovian_active cfg t
    then jovian_decode extra = Ok (the (sc_eip1559_elasticity sc), the (sc_eip1559_denominator sc), the (sc_min_base_fee sc))
    else holocene_decode extra = Ok (the (sc_eip1559_elasticity sc), the (sc_eip1559_denominator sc))"
proof -
  obtain d e where sc: "sc_eip1559_denominator sc = Some d" "sc_eip1559_elasticity sc = Some e" "d \<noteq> 0 \<or> e \<noteq> 0"
    using assms(1,3) unfolding config_format_def by auto
  obtain params where p: "eip_1559_params sc cfg parent_time t = Some params" "length params = 8"
      "eip1559_choice params defaults = (e, d)"
    using params_written [OF sc assms(3)] assms(2) by (auto simp: settled_def)
  have ok: "params_ok params defaults"
    using p(2) assms(4,5) by (simp add: params_ok_def)
  show ?thesis
    using holocene_back [OF ok] jovian_back [OF ok, of "the (sc_min_base_fee sc)"] assms(1,6) sc
    by (auto simp: block_extra_def p config_format_def split: if_splits)
qed

lemma try_new_format:
  assumes "config_format cfg t sc" "settled cfg parent_time t"
  shows "\<exists>info. try_new cfg E sc n h parent_time t = Ok info \<and> info_normal info = info
    \<and> info_base info = info_base_new E h n sc \<and> info_scalar info = sc_scalar sc
    \<and> info_l1_fee_overhead info = sc_overhead sc
    \<and> (is_isthmus_active cfg t \<longrightarrow> Some (info_operator_fee_scalar info) = sc_operator_fee_scalar sc
        \<and> Some (info_operator_fee_constant info) = sc_operator_fee_constant sc)
    \<and> info_da_footprint info = sc_da_footprint_gas_scalar sc"
proof (cases "is_ecotone_active cfg t")
  case True
  obtain b f where scalar: "sc_scalar sc = encode_scalar b f" "sc_overhead sc = 0"
    using assms(1) True by (auto simp: config_format_def)
  have da: "is_jovian_active cfg t \<Longrightarrow> \<exists>s. sc_da_footprint_gas_scalar sc = Some s \<and> s \<noteq> 0"
    "\<not> is_jovian_active cfg t \<Longrightarrow> sc_da_footprint_gas_scalar sc = None"
    and ops: "is_isthmus_active cfg t \<Longrightarrow> sc_operator_fee_scalar sc \<noteq> None \<and> sc_operator_fee_constant sc \<noteq> None"
    using assms(1) by (auto simp: config_format_def)
  from try_new_settled [OF assms(2) True scalar(1) da(1), of E n h] ops da(2) show ?thesis
    unfolding scalar(2) by (auto split: if_splits option.splits)
next
  case False
  with assms(1) forks_below [of cfg t] show ?thesis
    by (auto simp: try_new_def Let_def config_format_def)
qed

lemma config_read_back:
  assumes format: "config_format cfg t sc" "settled cfg parent_time t"
    and defaults: "unat (bf_max_change_denominator defaults) < 2 ^ 32" "unat (bf_elasticity_multiplier defaults) < 2 ^ 32"
    and built: "try_new_with_deposit_tx cfg E sc n h parent_time t = Ok (info, tx)"
      "block_extra cfg sc defaults parent_time t = Ok extra"
  shows "system_config_from_transaction (EnvDeposit tx) t (sc_gas_limit sc) extra cfg = Ok sc"
proof -
  have new: "try_new cfg E sc n h parent_time t = Ok info" "dep_input tx = encode_calldata info"
    using built(1) by (auto simp: try_new_with_deposit_tx_def obind_eq_Ok into_deposit_tx_def Let_def)
  note info = try_new_format [OF format, of E n h, unfolded new(1), simplified]
  have dec: "decode_calldata (dep_input tx) = Ok info"
    using info by (simp add: new(2) decode_encode_calldata)
  note extra = extra_read_back [OF format _ defaults built(2)]
  consider "is_jovian_active cfg t" "is_isthmus_active cfg t" "is_holocene_active cfg t"
    | "\<not> is_jovian_active cfg t" "is_isthmus_active cfg t" "is_holocene_active cfg t"
    | "\<not> is_jovian_active cfg t" "\<not> is_isthmus_active cfg t" "is_holocene_active cfg t"
    | "\<not> is_jovian_active cfg t" "\<not> is_isthmus_active cfg t" "\<not> is_holocene_active cfg t"
    using forks_below by metis
  then show ?thesis
    using info format(1) extra
    by cases (auto simp: system_config_from_transaction_def dec info_base_new_def config_format_def system_config_default_def
        intro!: system_config.equality split: option.splits)
qed

section \<open>Properties\<close>

text \<open>C26. The calldata of the L1 info transaction is lossless and its decoder total: in every one of the four
  formats decoding an encoded info gives it back, apart from the fields the calldata does not carry, and
  no input makes the decoder index out of range.\<close>

theorem l1_info_roundtrip:
  "decode_calldata (encode_calldata i) = Ok (info_normal i) \<and> info_base (info_normal i) = info_base i
   \<and> decode_calldata r \<noteq> Panic"
  by (simp add: decode_encode_calldata decode_calldata_safe)

text \<open>C13. The system configuration survives a block: when the L1 info transaction and the extra data of a
  block are built from a configuration in the format of the block's hardforks, and the block is not the
  first one of a hardfork that changes the format, then reading the configuration back from the block
  gives exactly the configuration it was built from.\<close>

theorem system_config_survives_block:
  assumes "config_format cfg t sc" "settled cfg parent_time t"
    and "unat (bf_max_change_denominator defaults) < 2 ^ 32" "unat (bf_elasticity_multiplier defaults) < 2 ^ 32"
    and "try_new_with_deposit_tx cfg E sc n h parent_time t = Ok (info, tx)"
      "block_extra cfg sc defaults parent_time t = Ok extra"
  shows "system_config_from_transaction (EnvDeposit tx) t (sc_gas_limit sc) extra cfg = Ok sc"
  using assms by (rule config_read_back)

definition jovian_config :: rollup_config where
  "jovian_config = rollup_config_default\<lparr>rc_block_time := 2,
     rc_upgrades := upgrade_config_default\<lparr>u_jovian_time := Some 0\<rparr>\<rparr>"

definition jovian_system_config :: system_config where
  "jovian_system_config = system_config_default\<lparr>sc_batcher_address := 7, sc_scalar := encode_scalar 3 4,
     sc_gas_limit := 30000000, sc_eip1559_denominator := Some 250, sc_eip1559_elasticity := Some 6,
     sc_operator_fee_scalar := Some 1, sc_operator_fee_constant := Some 2, sc_min_base_fee := Some 5,
     sc_da_footprint_gas_scalar := Some 400\<rparr>"

definition sample_env :: "unit l1_env" where
  "sample_env = \<lparr>ev_keccak = (\<lambda>bs. word_of_nat (length bs)), ev_hash_slow = (\<lambda>h. ucast (hd_number h) + 1),
     ev_blob_fee = (\<lambda>_ _. Some 1), ev_scheduled_params = (\<lambda>_. None), ev_osaka_time = None, ev_prague_time = None,
     ev_osaka = (), ev_prague = (), ev_cancun = ()\<rparr>"

definition sample_header :: header where
  "sample_header = \<lparr>hd_parent_hash = 1, hd_number = 1, hd_timestamp = 12, hd_mix_hash = 0, hd_gas_limit = 0,
     hd_extra_data = [], hd_base_fee_per_gas = Some 9, hd_parent_beacon_block_root = None,
     hd_excess_blob_gas = None, hd_other = []\<rparr>"

lemma jovian_config_forks: "is_jovian_active jovian_config t"
  by (simp add: jovian_config_def is_jovian_active_def active_at_def upgrade_activation_timestamp_eq
      rollup_config_default_def upgrade_config_default_def registry_activation_def)

lemma jovian_format:
  "config_format jovian_config 12 jovian_system_config" "settled jovian_config 10 12"
proof -
  have "is_jovian_active jovian_config t" "is_isthmus_active jovian_config t" "is_holocene_active jovian_config t"
    "is_ecotone_active jovian_config t" for t
    using jovian_config_forks forks_below by blast+
  then show "config_format jovian_config 12 jovian_system_config" "settled jovian_config 10 12"
    by (auto simp: config_format_def settled_def is_first_block_def jovian_system_config_def system_config_default_def)
qed

lemma jovian_built:
  "\<exists>info tx extra. try_new_with_deposit_tx jovian_config sample_env jovian_system_config 3 sample_header 10 12 = Ok (info, tx)
     \<and> block_extra jovian_config jovian_system_config \<lparr>bf_max_change_denominator = 50, bf_elasticity_multiplier = 6\<rparr> 10 12 = Ok extra"
proof -
  have "is_holocene_active jovian_config t" for t
    using jovian_config_forks forks_below by blast
  then have "\<exists>extra. block_extra jovian_config jovian_system_config
      \<lparr>bf_max_change_denominator = 50, bf_elasticity_multiplier = 6\<rparr> 10 12 = Ok extra"
    by (simp add: block_extra_def eip_1559_params_def jovian_config_forks jovian_encode_def eip1559_encode_ok params_ok_def Let_def)
  then show ?thesis
    using try_new_ok [of jovian_config sample_env jovian_system_config 3 sample_header 10 12]
    by (auto simp: try_new_with_deposit_tx_def)
qed

lemma jovian_sample:
  "\<exists>info tx extra. try_new_with_deposit_tx jovian_config sample_env jovian_system_config 3 sample_header 10 12 = Ok (info, tx)
     \<and> block_extra jovian_config jovian_system_config \<lparr>bf_max_change_denominator = 50, bf_elasticity_multiplier = 6\<rparr> 10 12 = Ok extra
     \<and> system_config_from_transaction (EnvDeposit tx) 12 30000000 extra jovian_config = Ok jovian_system_config"
proof -
  obtain info tx extra where
    built: "try_new_with_deposit_tx jovian_config sample_env jovian_system_config 3 sample_header 10 12 = Ok (info, tx)"
    and extra: "block_extra jovian_config jovian_system_config
      \<lparr>bf_max_change_denominator = 50, bf_elasticity_multiplier = 6\<rparr> 10 12 = Ok extra"
    using jovian_built by blast
  from config_read_back [OF jovian_format _ _ built extra] built extra show ?thesis
    by (simp add: jovian_system_config_def)
qed

theorem system_config_survives_block_witness:
  "\<exists>info tx extra. try_new_with_deposit_tx jovian_config sample_env jovian_system_config 3 sample_header 10 12 = Ok (info, tx)
     \<and> block_extra jovian_config jovian_system_config \<lparr>bf_max_change_denominator = 50, bf_elasticity_multiplier = 6\<rparr> 10 12 = Ok extra
     \<and> system_config_from_transaction (EnvDeposit tx) 12 30000000 extra jovian_config = Ok jovian_system_config"
proof -
  obtain info tx extra where
    built: "try_new_with_deposit_tx jovian_config sample_env jovian_system_config 3 sample_header 10 12 = Ok (info, tx)"
    and extra: "block_extra jovian_config jovian_system_config
      \<lparr>bf_max_change_denominator = 50, bf_elasticity_multiplier = 6\<rparr> 10 12 = Ok extra"
    using jovian_built by blast
  from system_config_survives_block [OF jovian_format _ _ built extra] built extra show ?thesis
    by (simp add: jovian_system_config_def)
qed

end
