(* ===== verification/Encoder_Config.thy ===== *)
theory Encoder_Config
  imports Block_Info Frames
begin

text \<open>
  The settings and the compressor of the batcher: the encoder configuration with its validation
  (crates/batcher/encoder/src/config.rs), the submission types (submission.rs), the Brotli levels
  (crates/batcher/comp/src/types.rs) and the compression stream of a channel (stream.rs).  The Brotli
  writer is third-party code and comes as the record \<open>brotli_writer\<close>; the locale \<open>vec_writer\<close> states what the
  batcher relies on.
\<close>

section \<open>Arithmetic on lengths\<close>

text \<open>A \<open>usize\<close> saturates at the largest 64-bit value.\<close>

definition USIZE_MAX :: nat where
  "USIZE_MAX = 2 ^ 64 - 1"

definition usize_saturating_add :: "nat \<Rightarrow> nat \<Rightarrow> nat" where
  "usize_saturating_add a b = min (a + b) USIZE_MAX"

definition usize_saturating_mul :: "nat \<Rightarrow> nat \<Rightarrow> nat" where
  "usize_saturating_mul a b = min (a * b) USIZE_MAX"

definition usize_div_ceil :: "nat \<Rightarrow> nat \<Rightarrow> nat" where
  "usize_div_ceil a b = (if a mod b = 0 then a div b else a div b + 1)"

section \<open>Submissions\<close>

datatype da_type = DaBlob | DaCalldata

record blob_payload =
  bp_frames :: "frame list"

definition blob_frame_bytes :: "blob_payload \<Rightarrow> nat" where
  "blob_frame_bytes b = sum_list (map encoded_len (bp_frames b))"

datatype submission_payload = PayloadBlobs "blob_payload list" | PayloadCalldata frame

record batch_submission =
  bsub_id :: u64
  bsub_payload :: submission_payload

definition submission_da_type :: "batch_submission \<Rightarrow> da_type" where
  "submission_da_type s = (case bsub_payload s of PayloadBlobs _ \<Rightarrow> DaBlob | PayloadCalldata _ \<Rightarrow> DaCalldata)"

definition submission_frame_count :: "batch_submission \<Rightarrow> nat" where
  "submission_frame_count s =
     (case bsub_payload s of
        PayloadBlobs blobs \<Rightarrow> sum_list (map (\<lambda>b. length (bp_frames b)) blobs)
      | PayloadCalldata _ \<Rightarrow> 1)"

definition submission_blob_count :: "batch_submission \<Rightarrow> nat" where
  "submission_blob_count s = (case bsub_payload s of PayloadBlobs blobs \<Rightarrow> length blobs | PayloadCalldata _ \<Rightarrow> 0)"

definition submission_frame_bytes :: "batch_submission \<Rightarrow> nat" where
  "submission_frame_bytes s =
     (case bsub_payload s of
        PayloadBlobs blobs \<Rightarrow> sum_list (map (\<lambda>f. length (f_data f)) (concat (map bp_frames blobs)))
      | PayloadCalldata f \<Rightarrow> length (f_data f))"

definition to_calldata :: "frame \<Rightarrow> bytes" where
  "to_calldata f = DERIVATION_VERSION_0 # encode f"

section \<open>Brotli levels\<close>

datatype brotli_level =
    Brotli0 | Brotli1 | Brotli2 | Brotli3 | Brotli4 | Brotli5
  | Brotli6 | Brotli7 | Brotli8 | Brotli9 | Brotli10 | Brotli11

definition BROTLI_LEVEL_DEFAULT :: brotli_level where
  "BROTLI_LEVEL_DEFAULT = Brotli10"

definition BROTLI_CHANNEL_VERSION :: u8 where
  "BROTLI_CHANNEL_VERSION = 1"

fun as_u32 :: "brotli_level \<Rightarrow> u32" where
  "as_u32 Brotli0 = 0"
| "as_u32 Brotli1 = 1"
| "as_u32 Brotli2 = 2"
| "as_u32 Brotli3 = 3"
| "as_u32 Brotli4 = 4"
| "as_u32 Brotli5 = 5"
| "as_u32 Brotli6 = 6"
| "as_u32 Brotli7 = 7"
| "as_u32 Brotli8 = 8"
| "as_u32 Brotli9 = 9"
| "as_u32 Brotli10 = 10"
| "as_u32 Brotli11 = 11"

definition from_u8 :: "u8 \<Rightarrow> brotli_level option" where
  "from_u8 quality =
     (if quality = 0 then Some Brotli0 else if quality = 1 then Some Brotli1
      else if quality = 2 then Some Brotli2 else if quality = 3 then Some Brotli3
      else if quality = 4 then Some Brotli4 else if quality = 5 then Some Brotli5
      else if quality = 6 then Some Brotli6 else if quality = 7 then Some Brotli7
      else if quality = 8 then Some Brotli8 else if quality = 9 then Some Brotli9
      else if quality = 10 then Some Brotli10 else if quality = 11 then Some Brotli11
      else None)"

lemma from_u8_as_u32: "from_u8 (ucast (as_u32 level)) = Some level"
  by (cases level) (simp_all add: from_u8_def)

section \<open>The compression stream\<close>

text \<open>\<open>bw_new\<close> is the constructor of the Brotli writer over an output buffer, with the buffer size, the quality and
  the window; \<open>bw_write_all\<close> writes input to it; \<open>bw_take\<close> takes the bytes out of its output buffer;
  \<open>bw_into_inner\<close> ends the stream and returns what is left in the buffer; \<open>bw_max_compressed_size\<close> is the
  bound of the package on the size of a compressed stream.\<close>

record 'z brotli_writer =
  bw_new :: "bytes \<Rightarrow> nat \<Rightarrow> u32 \<Rightarrow> u32 \<Rightarrow> 'z"
  bw_write_all :: "bytes \<Rightarrow> 'z \<Rightarrow> (string + unit) \<times> 'z"
  bw_take :: "'z \<Rightarrow> bytes \<times> 'z"
  bw_into_inner :: "'z \<Rightarrow> bytes"
  bw_max_compressed_size :: "nat \<Rightarrow> nat"

datatype compression_error = BrotliIo string

record 'z compression_stream =
  cs_compressor :: 'z
  cs_output_size :: nat

definition BROTLI_BUFFER_SIZE :: nat where
  "BROTLI_BUFFER_SIZE = 4096"

definition BROTLI_LGWIN :: u32 where
  "BROTLI_LGWIN = 22"

definition cs_new :: "'z brotli_writer \<Rightarrow> brotli_level \<Rightarrow> 'z compression_stream" where
  "cs_new Z level =
     \<lparr>cs_compressor = bw_new Z [BROTLI_CHANNEL_VERSION] BROTLI_BUFFER_SIZE (as_u32 level) BROTLI_LGWIN,
      cs_output_size = 0\<rparr>"

definition cs_append ::
    "'z brotli_writer \<Rightarrow> bytes \<Rightarrow> 'z compression_stream
       \<Rightarrow> (compression_error, bytes) outcome \<times> 'z compression_stream" where
  "cs_append Z input cs =
     (case bw_write_all Z input (cs_compressor cs) of
        (Inl e, z) \<Rightarrow> (Err (BrotliIo e), cs\<lparr>cs_compressor := z\<rparr>)
      | (Inr _, z) \<Rightarrow>
          let (output, z) = bw_take Z z
          in (Ok output, \<lparr>cs_compressor = z, cs_output_size = cs_output_size cs + length output\<rparr>))"

definition cs_max_output_size :: "'z brotli_writer \<Rightarrow> nat \<Rightarrow> nat" where
  "cs_max_output_size Z input_size = usize_saturating_add (bw_max_compressed_size Z input_size) 1"

definition cs_finish :: "'z brotli_writer \<Rightarrow> 'z compression_stream \<Rightarrow> (compression_error, bytes) outcome" where
  "cs_finish Z cs = Ok (bw_into_inner Z (cs_compressor cs))"

text \<open>The bytes a stream has returned after it was given the chunks one by one, and the stream then.\<close>

primrec cs_run ::
    "'z brotli_writer \<Rightarrow> 'z compression_stream \<Rightarrow> bytes list \<Rightarrow> (compression_error, bytes \<times> 'z compression_stream) outcome" where
  "cs_run Z cs [] = Ok ([], cs)"
| "cs_run Z cs (chunk # chunks) =
     (case cs_append Z chunk cs of
        (Ok output, cs) \<Rightarrow> obind (cs_run Z cs chunks) (\<lambda>(rest, cs). Ok (output @ rest, cs))
      | (Err e, _) \<Rightarrow> Err e
      | (Panic, _) \<Rightarrow> Panic)"

text \<open>The finished stream of a channel that was given the chunks.\<close>

definition compressed_stream :: "'z brotli_writer \<Rightarrow> brotli_level \<Rightarrow> bytes list \<Rightarrow> bytes \<Rightarrow> bool" where
  "compressed_stream Z level chunks out \<longleftrightarrow>
     (\<exists>emitted cs tail. cs_run Z (cs_new Z level) chunks = Ok (emitted, cs) \<and> cs_finish Z cs = Ok tail \<and> out = emitted @ tail)"

lemma cs_run_snoc:
  "cs_run Z cs (chunks @ [chunk]) =
     obind (cs_run Z cs chunks) (\<lambda>(emitted, cs').
       case cs_append Z chunk cs' of
         (Ok output, cs'') \<Rightarrow> Ok (emitted @ output, cs'')
       | (Err e, _) \<Rightarrow> Err e
       | (Panic, _) \<Rightarrow> Panic)"
proof (induction chunks arbitrary: cs)
  case (Cons c chunks)
  then show ?case
    by (auto simp: obind_def split: prod.splits outcome.splits)
qed (auto split: prod.splits outcome.splits)

text \<open>What the batcher relies on of the writer: writing to a buffer in memory does not fail, and the finished
  stream of an input below 4 GiB is within the bound of the package.\<close>

locale vec_writer =
  fixes Z :: "'z brotli_writer"
  assumes write_ok: "\<exists>z'. bw_write_all Z input z = (Inr (), z')"
    and stream_bound: "compressed_stream Z level chunks out \<Longrightarrow> length (concat chunks) < 2 ^ 32 \<Longrightarrow>
      length out \<le> cs_max_output_size Z (length (concat chunks))"
begin

lemma append_ok: "\<exists>output cs'. cs_append Z input cs = (Ok output, cs')"
  using write_ok [of input "cs_compressor cs"] by (auto simp: cs_append_def Let_def split: prod.splits)

lemma run_ok: "\<exists>emitted cs'. cs_run Z cs chunks = Ok (emitted, cs')"
proof (induction chunks arbitrary: cs)
  case (Cons chunk chunks)
  obtain out1 cs1 where app: "cs_append Z chunk cs = (Ok out1, cs1)"
    using append_ok by blast
  then show ?case
    using Cons [of cs1] by auto
qed simp

end

section \<open>Configuration\<close>

record encoder_config =
  ec_compressed_size_target :: "nat option"
  ec_max_frame_size :: nat
  ec_max_channel_duration :: u64
  ec_sub_safety_margin :: u64
  ec_max_blobs_per_tx :: nat
  ec_da_type :: da_type
  ec_brotli_level :: brotli_level

definition MAX_BLOBS_PER_TX :: nat where
  "MAX_BLOBS_PER_TX = 6"

definition BLOB_DERIVATION_PREFIX_SIZE :: nat where
  "BLOB_DERIVATION_PREFIX_SIZE = 1"

definition encoder_config_default :: encoder_config where
  "encoder_config_default =
     \<lparr>ec_compressed_size_target = None, ec_max_frame_size = MAX_BLOB_FRAME_SIZE, ec_max_channel_duration = 2,
      ec_sub_safety_margin = 0, ec_max_blobs_per_tx = 6, ec_da_type = DaBlob, ec_brotli_level = BROTLI_LEVEL_DEFAULT\<rparr>"

datatype encoder_config_error =
    SafetyMarginTooLarge u64 u64
  | FrameSizeTooSmall nat nat
  | FrameSizeTooLarge nat nat
  | CompressedTargetZero
  | MaxBlobsPerTxZero
  | TooManyBlobsPerTx nat nat
  | FrameExceedsBlobPackingLimit nat nat
  | BrotliRequiresFjord u64
  | ChannelDurationExceedsTimeout u64 u64 u64 u64

definition config_validate :: "encoder_config \<Rightarrow> (encoder_config_error, unit) outcome" where
  "config_validate c =
     (let min_frame_size = FRAME_ENCODED_OVERHEAD + 1;
          max_protocol_frame_size = FRAME_ENCODED_OVERHEAD + FRAME_MAX_LEN
      in if ec_max_channel_duration c \<le> ec_sub_safety_margin c
         then Err (SafetyMarginTooLarge (ec_sub_safety_margin c) (ec_max_channel_duration c))
         else if ec_max_frame_size c < min_frame_size
         then Err (FrameSizeTooSmall (ec_max_frame_size c) min_frame_size)
         else if max_protocol_frame_size < ec_max_frame_size c
         then Err (FrameSizeTooLarge (ec_max_frame_size c) max_protocol_frame_size)
         else if ec_compressed_size_target c = Some 0 then Err CompressedTargetZero
         else if ec_max_blobs_per_tx c = 0 then Err MaxBlobsPerTxZero
         else if MAX_BLOBS_PER_TX < ec_max_blobs_per_tx c
         then Err (TooManyBlobsPerTx (ec_max_blobs_per_tx c) MAX_BLOBS_PER_TX)
         else if MAX_BLOB_FRAME_SIZE < ec_max_frame_size c
         then Err (FrameExceedsBlobPackingLimit (ec_max_frame_size c) MAX_BLOB_FRAME_SIZE)
         else Ok ())"

definition confirmation_channel_timeout :: "rollup_config \<Rightarrow> u64" where
  "confirmation_channel_timeout cfg =
     (let pre_granite = channel_timeout cfg 0; post_granite = channel_timeout cfg (- 1)
      in if pre_granite = 0 then post_granite
         else if post_granite = 0 then pre_granite
         else min pre_granite post_granite)"

definition validate_for_rollup_config ::
    "encoder_config \<Rightarrow> rollup_config \<Rightarrow> u64 \<Rightarrow> (encoder_config_error, unit) outcome" where
  "validate_for_rollup_config c cfg next_l2_timestamp =
     obind (config_validate c) (\<lambda>_.
       if \<not> is_fjord_active cfg next_l2_timestamp then Err (BrotliRequiresFjord next_l2_timestamp)
       else let timeout = confirmation_channel_timeout cfg;
                effective = ec_max_channel_duration c - ec_sub_safety_margin c
            in if 0 < timeout \<and> timeout \<le> effective
               then Err (ChannelDurationExceedsTimeout (ec_max_channel_duration c) (ec_sub_safety_margin c) effective timeout)
               else Ok ())"

text \<open>What validation leaves.\<close>

lemma config_validate_Ok:
  "config_validate c = Ok u \<longleftrightarrow>
     ec_sub_safety_margin c < ec_max_channel_duration c
     \<and> FRAME_ENCODED_OVERHEAD < ec_max_frame_size c \<and> ec_max_frame_size c \<le> MAX_BLOB_FRAME_SIZE
     \<and> ec_compressed_size_target c \<noteq> Some 0 \<and> 0 < ec_max_blobs_per_tx c \<and> ec_max_blobs_per_tx c \<le> MAX_BLOBS_PER_TX"
  by (auto simp: config_validate_def Let_def MAX_BLOB_FRAME_SIZE_def BLOB_MAX_DATA_SIZE_def FRAME_MAX_LEN_def
      FRAME_ENCODED_OVERHEAD_def not_le)

lemma default_config_valid: "config_validate encoder_config_default = Ok ()"
  unfolding config_validate_Ok
  by (simp add: encoder_config_default_def MAX_BLOB_FRAME_SIZE_def BLOB_MAX_DATA_SIZE_def FRAME_ENCODED_OVERHEAD_def
      MAX_BLOBS_PER_TX_def)

lemma validate_for_rollup_config_Ok:
  "validate_for_rollup_config c cfg t = Ok () \<longleftrightarrow>
     config_validate c = Ok () \<and> is_fjord_active cfg t
     \<and> (confirmation_channel_timeout cfg = 0
        \<or> ec_max_channel_duration c - ec_sub_safety_margin c < confirmation_channel_timeout cfg)"
  by (auto simp: validate_for_rollup_config_def Let_def obind_eq_Ok not_le word_gt_0)

end
