(* ===== verification/Encoder_Channel.thy ===== *)
theory Encoder_Channel
  imports Encoder_Config Reassembly
begin

text \<open>
  One channel of the batcher (crates/batcher/encoder/src/channel.rs) and the batch of a block
  (composer.rs): admission of batches under the limits of derivation, closing, and the cutting of
  numbered frames off the compressed output.  The lemmas tie a channel to the frames that were cut
  from it and to the blocks it was given: \<open>framed\<close> says that the frames and the remaining output are the
  compressed stream, \<open>streamed\<close> that the stream is what the compressor made of the batches.
\<close>

section \<open>Composition of a batch\<close>

text \<open>The environment of the batcher: the Brotli writer, the RLP header and the derived RLP encoding of singular
  batches, the hash of a header, and the generator of channel ids.\<close>

record ('z, 'r) batcher_env =
  bt_writer :: "'z brotli_writer"
  bt_rlp_header :: "bool \<Rightarrow> nat \<Rightarrow> bytes"
  bt_rlp_single :: "single_batch \<Rightarrow> bytes"
  bt_hash_slow :: "header \<Rightarrow> b256"
  bt_fill_id :: "'r \<Rightarrow> bytes \<times> 'r"

datatype batch_compose_error = EmptyBlock | NotDepositTx | L1InfoDecode

fun user_tx :: "base_tx_envelope \<Rightarrow> bytes option" where
  "user_tx (EnvDeposit _) = None"
| "user_tx (EnvOther ty encoded) = Some encoded"

definition block_to_single_batch :: "l2_block_data \<Rightarrow> (batch_compose_error, single_batch) outcome" where
  "block_to_single_batch block =
     (case blk_transactions block of
        [] \<Rightarrow> Err EmptyBlock
      | EnvOther _ _ # _ \<Rightarrow> Err NotDepositTx
      | EnvDeposit deposit # _ \<Rightarrow>
          obind (map_err (\<lambda>_. L1InfoDecode) (decode_calldata (dep_input deposit))) (\<lambda>l1_info.
          let epoch = info_id l1_info in
          Ok \<lparr>sb_parent_hash = hd_parent_hash (blk_header block), sb_epoch_num = nh_number epoch,
              sb_epoch_hash = nh_hash epoch, sb_timestamp = hd_timestamp (blk_header block),
              sb_transactions = List.map_filter user_tx (blk_transactions block)\<rparr>))"

text \<open>The wire form of a singular batch in a channel: an RLP string of the type byte and the encoded batch.\<close>

definition batch_wire :: "('z, 'r) batcher_env \<Rightarrow> single_batch \<Rightarrow> bytes" where
  "batch_wire V b = bt_rlp_header V False (1 + length (bt_rlp_single V b)) @ [0] @ bt_rlp_single V b"

section \<open>Data\<close>

datatype channel_limit =
    LimitRlpBytes u64 u64
  | LimitFrameCount nat nat
  | LimitAssembledBytes u64 u64

datatype channel_add_outcome = Accepted | TargetReached | Rejected channel_limit

datatype encoder_channel_error =
    ChCompression compression_error
  | ChClosed
  | OutputUnderflow nat nat
  | TooManyFrames nat nat
  | InvalidTerminalTransition

record 'z enc_channel =
  ch_id :: bytes
  ch_rollup_config :: rollup_config
  ch_compressor :: "'z compression_stream option"
  ch_output :: "bytes list"
  ch_available_output :: nat
  ch_compressed_bytes :: u64
  ch_max_frame_size :: nat
  ch_compressed_size_target :: "nat option"
  ch_input_bytes :: u64
  ch_candidate_scratch :: bytes
  ch_block_start :: nat
  ch_blocks_added :: nat
  ch_da_backlog_bytes :: u64
  ch_opened_l1_block :: u64
  ch_deadline_l1_block :: u64
  ch_next_frame_number :: nat
  ch_terminal_pending :: bool
  ch_first_confirmed_l1_block :: "u64 option"
  ch_last_confirmed_l1_block :: "u64 option"

definition MAX_FRAMES :: nat where
  "MAX_FRAMES = 65535"

section \<open>Operations\<close>

definition enc_channel_new ::
    "'z brotli_writer \<Rightarrow> bytes \<Rightarrow> rollup_config \<Rightarrow> encoder_config \<Rightarrow> nat \<Rightarrow> u64
       \<Rightarrow> (encoder_config_error, 'z enc_channel) outcome" where
  "enc_channel_new Z cid cfg config block_start opened_l1_block =
     obind (config_validate config) (\<lambda>_.
       let duration_blocks = saturating_sub (ec_max_channel_duration config) (ec_sub_safety_margin config) in
       Ok \<lparr>ch_id = cid, ch_rollup_config = cfg, ch_compressor = Some (cs_new Z (ec_brotli_level config)), ch_output = [],
           ch_available_output = 0, ch_compressed_bytes = 0, ch_max_frame_size = ec_max_frame_size config,
           ch_compressed_size_target = ec_compressed_size_target config, ch_input_bytes = 0, ch_candidate_scratch = [],
           ch_block_start = block_start, ch_blocks_added = 0, ch_da_backlog_bytes = 0,
           ch_opened_l1_block = opened_l1_block, ch_deadline_l1_block = saturating_add opened_l1_block duration_blocks,
           ch_next_frame_number = 0, ch_terminal_pending = False, ch_first_confirmed_l1_block = None,
           ch_last_confirmed_l1_block = None\<rparr>)"

definition ch_is_open :: "'z enc_channel \<Rightarrow> bool" where
  "ch_is_open c \<longleftrightarrow> ch_compressor c \<noteq> None"

definition ch_is_empty :: "'z enc_channel \<Rightarrow> bool" where
  "ch_is_empty c \<longleftrightarrow> ch_blocks_added c = 0"

definition max_frame_data :: "'z enc_channel \<Rightarrow> nat" where
  "max_frame_data c = ch_max_frame_size c - FRAME_ENCODED_OVERHEAD"

definition deadline_due :: "u64 \<Rightarrow> 'z enc_channel \<Rightarrow> bool" where
  "deadline_due l1_head c \<longleftrightarrow> ch_deadline_l1_block c \<le> l1_head"

definition release_at :: "u64 \<Rightarrow> 'z enc_channel \<Rightarrow> 'z enc_channel" where
  "release_at l1_head c = c\<lparr>ch_deadline_l1_block := min (ch_deadline_l1_block c) l1_head\<rparr>"

definition block_range_end :: "'z enc_channel \<Rightarrow> nat" where
  "block_range_end c = ch_block_start c + ch_blocks_added c"

definition framing_complete :: "'z enc_channel \<Rightarrow> bool" where
  "framing_complete c \<longleftrightarrow> ch_compressor c = None \<and> \<not> ch_terminal_pending c"

definition push_output :: "bytes \<Rightarrow> 'z enc_channel \<Rightarrow> 'z enc_channel" where
  "push_output output c =
     (if output = [] then c
      else c\<lparr>ch_available_output := ch_available_output c + length output,
             ch_compressed_bytes := ch_compressed_bytes c + word_of_nat (length output),
             ch_output := ch_output c @ [output]\<rparr>)"

text \<open>The projection of \<open>ch_add_batch\<close>: the frames a channel of the given compressed size may need.\<close>

definition max_total_frames :: "nat \<Rightarrow> nat \<Rightarrow> nat" where
  "max_total_frames max_compressed_bytes max_data =
     (let max_frame_count = usize_div_ceil max_compressed_bytes max_data;
          blob_payload_capacity = BLOB_MAX_DATA_SIZE - BLOB_DERIVATION_PREFIX_SIZE;
          max_blob_boundary_frames =
            usize_saturating_add (usize_div_ceil max_compressed_bytes (blob_payload_capacity - FRAME_ENCODED_OVERHEAD)) 1
      in usize_saturating_add max_frame_count max_blob_boundary_frames)"

definition ch_add_batch ::
    "('z, 'r) batcher_env \<Rightarrow> single_batch \<Rightarrow> u64 \<Rightarrow> 'z enc_channel
       \<Rightarrow> (encoder_channel_error, channel_add_outcome) outcome \<times> 'z enc_channel" where
  "ch_add_batch V batch da_backlog_bytes c =
     (let max_channel_bytes = max_rlp_bytes_per_channel (ch_rollup_config c) (sb_timestamp batch);
          max_data = max_frame_data c
      in case ch_compressor c of
           None \<Rightarrow> (Err ChClosed, c)
         | Some compressor \<Rightarrow>
             let scratch = batch_wire V batch;
                 c = c\<lparr>ch_candidate_scratch := scratch\<rparr>;
                 next_input_bytes = saturating_add (ch_input_bytes c) (word_of_nat (length scratch))
             in if max_channel_bytes < next_input_bytes
                then (Ok (Rejected (LimitRlpBytes next_input_bytes max_channel_bytes)), c)
                else if max_data = 0 then (Panic, c)
                else
                  let max_compressed_bytes = cs_max_output_size (bt_writer V) (unat next_input_bytes);
                      total_frames = max_total_frames max_compressed_bytes max_data;
                      max_assembled_bytes = word_of_nat
                        (usize_saturating_add max_compressed_bytes (usize_saturating_mul total_frames FRAME_OVERHEAD))
                  in if MAX_FRAMES < total_frames
                     then (Ok (Rejected (LimitFrameCount total_frames MAX_FRAMES)), c)
                     else if max_channel_bytes < max_assembled_bytes
                     then (Ok (Rejected (LimitAssembledBytes max_assembled_bytes max_channel_bytes)), c)
                     else (case cs_append (bt_writer V) scratch compressor of
                             (Ok output, compressor) \<Rightarrow>
                               let total_output = cs_output_size compressor;
                                   c = push_output output (c\<lparr>ch_compressor := Some compressor\<rparr>);
                                   c = c\<lparr>ch_input_bytes := next_input_bytes,
                                         ch_blocks_added := ch_blocks_added c + 1,
                                         ch_da_backlog_bytes := ch_da_backlog_bytes c + da_backlog_bytes\<rparr>
                               in (Ok (case ch_compressed_size_target c of
                                         Some target \<Rightarrow> if target \<le> total_output then TargetReached else Accepted
                                       | None \<Rightarrow> Accepted), c)
                           | (Err e, compressor) \<Rightarrow> (Err (ChCompression e), c\<lparr>ch_compressor := Some compressor\<rparr>)
                           | (Panic, compressor) \<Rightarrow> (Panic, c\<lparr>ch_compressor := Some compressor\<rparr>)))"

definition ch_close ::
    "'z brotli_writer \<Rightarrow> 'z enc_channel \<Rightarrow> (encoder_channel_error, unit) outcome \<times> 'z enc_channel" where
  "ch_close Z c =
     (case ch_compressor c of
        None \<Rightarrow> (Ok (), c)
      | Some compressor \<Rightarrow>
          let c = c\<lparr>ch_compressor := None, ch_terminal_pending := True, ch_candidate_scratch := []\<rparr>
          in case cs_finish Z compressor of
               Ok output \<Rightarrow> (Ok (), push_output output c)
             | Err e \<Rightarrow> (Err (ChCompression e), c)
             | Panic \<Rightarrow> (Panic, c))"

text \<open>The loop of \<open>take_output\<close>: whole chunks off the front of the queue, then the front of the next one.  The panic of
  an empty queue is the value \<open>None\<close>.\<close>

function take_chunks :: "nat \<Rightarrow> bytes list \<Rightarrow> bytes \<Rightarrow> (bytes \<times> bytes list) option" where
  "take_chunks remaining chunks output =
     (if remaining = 0 then Some (output, chunks)
      else case chunks of
             [] \<Rightarrow> None
           | chunk # rest \<Rightarrow>
               let consumed = min remaining (length chunk)
               in take_chunks (remaining - consumed)
                    (if consumed < length chunk then drop consumed chunk # rest else rest) (output @ take consumed chunk))"
  by pat_completeness auto

termination
  by (relation "measure (\<lambda>(remaining, chunks, output). remaining + length chunks)") auto

declare take_chunks.simps [simp del]

definition take_output :: "nat \<Rightarrow> 'z enc_channel \<Rightarrow> (bytes \<times> 'z enc_channel) option" where
  "take_output len c =
     map_option (\<lambda>(output, chunks).
        (output, c\<lparr>ch_output := chunks, ch_available_output := ch_available_output c - len\<rparr>))
      (take_chunks len (ch_output c) [])"

definition take_frame ::
    "nat \<Rightarrow> bool \<Rightarrow> 'z enc_channel \<Rightarrow> (encoder_channel_error, frame \<times> 'z enc_channel) outcome" where
  "take_frame data_len is_last c =
     (if ch_available_output c < data_len then Err (OutputUnderflow data_len (ch_available_output c))
      else if MAX_FRAMES \<le> ch_next_frame_number c then Err (TooManyFrames (ch_next_frame_number c + 1) MAX_FRAMES)
      else if is_last \<and> (ch_compressor c \<noteq> None \<or> data_len \<noteq> ch_available_output c \<or> \<not> ch_terminal_pending c)
      then Err InvalidTerminalTransition
      else let number = word_of_nat (ch_next_frame_number c) in
           case take_output data_len c of
             None \<Rightarrow> Panic
           | Some (data, c) \<Rightarrow>
               let c = c\<lparr>ch_next_frame_number := ch_next_frame_number c + 1\<rparr>;
                   c = (if is_last then c\<lparr>ch_terminal_pending := False\<rparr> else c)
               in Ok (\<lparr>f_id = ch_id c, f_number = number, f_data = data, f_is_last = is_last\<rparr>, c))"

definition record_confirmation :: "u64 \<Rightarrow> 'z enc_channel \<Rightarrow> 'z enc_channel" where
  "record_confirmation l1_block c =
     c\<lparr>ch_first_confirmed_l1_block :=
         Some (case ch_first_confirmed_l1_block c of None \<Rightarrow> l1_block | Some x \<Rightarrow> min x l1_block),
       ch_last_confirmed_l1_block :=
         Some (case ch_last_confirmed_l1_block c of None \<Rightarrow> l1_block | Some x \<Rightarrow> max x l1_block)\<rparr>"

definition rebase_after_prune :: "nat \<Rightarrow> 'z enc_channel \<Rightarrow> 'z enc_channel" where
  "rebase_after_prune prune_count c =
     (let old_end = ch_block_start c + ch_blocks_added c;
          c = c\<lparr>ch_block_start := ch_block_start c - prune_count\<rparr>
      in c\<lparr>ch_blocks_added := old_end - prune_count - ch_block_start c\<rparr>)"

section \<open>Frames and output\<close>

lemma take_chunks_spec:
  "n \<le> length (concat chunks) \<Longrightarrow>
     \<exists>rest. take_chunks n chunks out = Some (out @ take n (concat chunks), rest) \<and> concat rest = drop n (concat chunks)"
proof (induction n chunks out rule: take_chunks.induct)
  case (1 n chunks out)
  show ?case
  proof (cases "n = 0")
    case False
    with 1(2) obtain chunk rest where chunks: "chunks = chunk # rest"
      by (cases chunks) auto
    let ?k = "min n (length chunk)"
    let ?rest = "if ?k < length chunk then drop ?k chunk # rest else rest"
    have eq: "take_chunks n chunks out = take_chunks (n - ?k) ?rest (out @ take ?k chunk)"
      using False by (simp add: take_chunks.simps [of n] chunks Let_def)
    have rest: "concat ?rest = drop ?k (concat chunks)" and len: "n - ?k \<le> length (concat ?rest)"
      using 1(2) by (auto simp: chunks min_def)
    obtain r where "take_chunks (n - ?k) ?rest (out @ take ?k chunk)
        = Some ((out @ take ?k chunk) @ take (n - ?k) (concat ?rest), r)" "concat r = drop (n - ?k) (concat ?rest)"
      using 1(1) [OF False chunks refl len] by blast
    moreover have "take ?k chunk @ take (n - ?k) (concat ?rest) = take n (concat chunks)"
      unfolding rest by (auto simp: chunks min_def)
    moreover have "drop (n - ?k) (concat ?rest) = drop n (concat chunks)"
      unfolding rest by (auto simp: chunks min_def)
    ultimately show ?thesis
      using eq by auto
  qed (simp add: take_chunks.simps)
qed

text \<open>The frames cut from a channel and the output it still holds: together they are its compressed stream, the
  frames are numbered from zero, and the last one is marked once the framing is complete.\<close>

definition framed :: "frame list \<Rightarrow> bytes \<Rightarrow> 'z enc_channel \<Rightarrow> bool" where
  "framed fs stream c \<longleftrightarrow>
     channel_data fs @ concat (ch_output c) = stream
     \<and> ch_available_output c = length (concat (ch_output c))
     \<and> ch_next_frame_number c = length fs \<and> length fs \<le> MAX_FRAMES
     \<and> (\<forall>i < length fs. f_number (fs ! i) = word_of_nat i \<and> f_id (fs ! i) = ch_id c
          \<and> length (f_data (fs ! i)) \<le> max_frame_data c
          \<and> (f_is_last (fs ! i) \<longleftrightarrow> Suc i = length fs \<and> framing_complete c))
     \<and> (framing_complete c \<longrightarrow> fs \<noteq> [] \<and> concat (ch_output c) = [])
     \<and> (ch_is_open c \<longrightarrow> \<not> ch_terminal_pending c)"

text \<open>The fields a frame is read from.  Everything else about a channel may change freely.\<close>

lemma framing_complete_iff: "framing_complete c \<longleftrightarrow> \<not> ch_is_open c \<and> \<not> ch_terminal_pending c"
  by (simp add: framing_complete_def ch_is_open_def)

lemma framed_cong:
  "ch_output c = ch_output c' \<Longrightarrow> ch_available_output c = ch_available_output c' \<Longrightarrow>
   ch_next_frame_number c = ch_next_frame_number c' \<Longrightarrow> ch_id c = ch_id c' \<Longrightarrow>
   ch_max_frame_size c = ch_max_frame_size c' \<Longrightarrow> ch_terminal_pending c = ch_terminal_pending c' \<Longrightarrow>
   ch_is_open c = ch_is_open c' \<Longrightarrow> framed fs stream c = framed fs stream c'"
  by (simp add: framed_def framing_complete_iff max_frame_data_def)

lemma framed_new:
  "enc_channel_new Z cid cfg config start l1 = Ok c \<Longrightarrow> framed [] [] c"
  by (auto simp: enc_channel_new_def obind_eq_Ok framed_def channel_data_def framing_complete_def)

lemma push_output_fields [simp]:
  "ch_id (push_output out c) = ch_id c" "ch_compressor (push_output out c) = ch_compressor c"
  "ch_next_frame_number (push_output out c) = ch_next_frame_number c"
  "ch_max_frame_size (push_output out c) = ch_max_frame_size c"
  "ch_terminal_pending (push_output out c) = ch_terminal_pending c"
  "ch_blocks_added (push_output out c) = ch_blocks_added c" "ch_block_start (push_output out c) = ch_block_start c"
  "ch_input_bytes (push_output out c) = ch_input_bytes c" "ch_da_backlog_bytes (push_output out c) = ch_da_backlog_bytes c"
  "ch_compressed_size_target (push_output out c) = ch_compressed_size_target c"
  "ch_rollup_config (push_output out c) = ch_rollup_config c"
  "ch_deadline_l1_block (push_output out c) = ch_deadline_l1_block c"
  "concat (ch_output (push_output out c)) = concat (ch_output c) @ out"
  "ch_available_output (push_output out c) = ch_available_output c + length out"
  "ch_is_open (push_output out c) = ch_is_open c" "max_frame_data (push_output out c) = max_frame_data c"
  by (auto simp: push_output_def ch_is_open_def max_frame_data_def)

lemma framed_push:
  assumes "framed fs stream c" "\<not> framing_complete c"
  shows "framed fs (stream @ out) (push_output out c)"
  using assms by (auto simp: framed_def framing_complete_def)

lemma framed_close:
  assumes "framed fs stream c" "ch_is_open c" "ch_close Z c = (r, c')"
  shows "\<exists>tail. r = Ok () \<and> framed fs (stream @ tail) c' \<and> \<not> ch_is_open c' \<and> ch_terminal_pending c'
      \<and> (\<exists>cs. ch_compressor c = Some cs \<and> cs_finish Z cs = Ok tail)"
  using assms by (auto simp: framed_def ch_close_def ch_is_open_def cs_finish_def framing_complete_def max_frame_data_def Let_def)

lemma take_frame_framed:
  assumes "framed fs stream c" "\<not> framing_complete c" "length fs < MAX_FRAMES"
    and "n \<le> ch_available_output c" "n \<le> max_frame_data c"
    and fin: "fin \<Longrightarrow> \<not> ch_is_open c \<and> n = ch_available_output c"
  shows "\<exists>f c'. take_frame n fin c = Ok (f, c') \<and> framed (fs @ [f]) stream c' \<and> f_id f = ch_id c
     \<and> length (f_data f) = n \<and> f_is_last f = fin
     \<and> (\<exists>chunks. c' = c\<lparr>ch_output := chunks, ch_available_output := ch_available_output c - n,
          ch_next_frame_number := ch_next_frame_number c + 1, ch_terminal_pending := ch_terminal_pending c \<and> \<not> fin\<rparr>)"
proof -
  let ?avail = "concat (ch_output c)"
  have fr: "channel_data fs @ ?avail = stream" "ch_available_output c = length ?avail" "ch_next_frame_number c = length fs"
    using assms(1) by (simp_all add: framed_def)
  obtain rest where chunks: "take_chunks n (ch_output c) [] = Some (take n ?avail, rest)" "concat rest = drop n ?avail"
    using take_chunks_spec [of n "ch_output c" "[]"] assms(4) fr(2) by auto
  let ?f = "\<lparr>f_id = ch_id c, f_number = word_of_nat (length fs), f_data = take n ?avail, f_is_last = fin\<rparr>"
  let ?c = "c\<lparr>ch_output := rest, ch_available_output := ch_available_output c - n,
    ch_next_frame_number := ch_next_frame_number c + 1, ch_terminal_pending := ch_terminal_pending c \<and> \<not> fin\<rparr>"
  have pending: "fin \<Longrightarrow> ch_terminal_pending c"
    using fin assms(2) by (auto simp: framing_complete_def ch_is_open_def)
  have tf: "take_frame n fin c = Ok (?f, ?c)"
    using assms(3,4) fin pending chunks(1) fr
    by (auto simp: take_frame_def take_output_def ch_is_open_def Let_def)
  have fc: "framing_complete ?c \<longleftrightarrow> fin"
    using assms(2) fin by (auto simp: framing_complete_iff ch_is_open_def)
  have old: "f_number (fs ! i) = word_of_nat i \<and> f_id (fs ! i) = ch_id c \<and> length (f_data (fs ! i)) \<le> max_frame_data c
      \<and> \<not> f_is_last (fs ! i)" if "i < length fs" for i
    using assms(1,2) that by (simp add: framed_def)
  have "framed (fs @ [?f]) stream ?c"
    unfolding framed_def fc
  proof (intro conjI allI impI)
    show "channel_data (fs @ [?f]) @ concat (ch_output ?c) = stream"
      using fr(1) chunks(2) by (simp add: channel_data_def)
    show "f_is_last ((fs @ [?f]) ! i) \<longleftrightarrow> Suc i = length (fs @ [?f]) \<and> fin" if "i < length (fs @ [?f])" for i
      using old that by (auto simp: nth_append less_Suc_eq)
    show "fin \<Longrightarrow> concat (ch_output ?c) = []"
      using fin fr(2) chunks(2) by simp
    show "ch_is_open ?c \<Longrightarrow> \<not> ch_terminal_pending ?c"
      using assms(1) by (simp add: framed_def ch_is_open_def)
  qed (use assms(3-5) fr chunks(2) old in \<open>auto simp: nth_append less_Suc_eq max_frame_data_def\<close>)
  then show ?thesis
    using tf assms(4) fr(2) by (intro exI [of _ ?f] exI [of _ ?c]) auto
qed

text \<open>A completely framed channel is whole: derivation reassembles its compressed stream.\<close>

lemma framed_whole:
  assumes "framed fs stream c" "framing_complete c"
  shows "whole_channel (ch_id c) fs" "channel_data fs = stream" "length fs \<le> 65535"
  using assms by (auto simp: framed_def whole_channel_def MAX_FRAMES_def)

section \<open>Batches and the stream\<close>

text \<open>The compressed stream of a channel is what the compressor made of the chunks it was given.\<close>

definition streamed :: "'z brotli_writer \<Rightarrow> brotli_level \<Rightarrow> bytes list \<Rightarrow> bytes \<Rightarrow> 'z enc_channel \<Rightarrow> bool" where
  "streamed Z level chunks stream c \<longleftrightarrow>
     (case ch_compressor c of
        Some cs \<Rightarrow> cs_run Z (cs_new Z level) chunks = Ok (stream, cs)
      | None \<Rightarrow> compressed_stream Z level chunks stream)"

text \<open>The admitted input and its projection stay within the limits.\<close>

definition admitted :: "'z brotli_writer \<Rightarrow> bytes list \<Rightarrow> 'z enc_channel \<Rightarrow> bool" where
  "admitted Z chunks c \<longleftrightarrow>
     unat (ch_input_bytes c) = length (concat chunks) \<and> length (concat chunks) \<le> 100000000
     \<and> (chunks \<noteq> [] \<longrightarrow> cs_max_output_size Z (length (concat chunks)) \<le> 100000000
          \<and> max_total_frames (cs_max_output_size Z (length (concat chunks))) (max_frame_data c) \<le> MAX_FRAMES)"

lemma max_rlp_bound: "unat (max_rlp_bytes_per_channel cfg t) \<le> 100000000"
  by (simp add: max_rlp_bytes_per_channel_def MAX_RLP_BYTES_PER_CHANNEL_FJORD_def MAX_RLP_BYTES_PER_CHANNEL_BEDROCK_def)

lemma add_batch_open:
  assumes "ch_compressor c = Some cs" "cs_append (bt_writer V) (batch_wire V b) cs = (Ok out, cs')" "0 < max_frame_data c"
  shows "ch_add_batch V b n c =
    (let mx = max_rlp_bytes_per_channel (ch_rollup_config c) (sb_timestamp b);
         nxt = saturating_add (ch_input_bytes c) (word_of_nat (length (batch_wire V b)));
         compressed = cs_max_output_size (bt_writer V) (unat nxt);
         total = max_total_frames compressed (max_frame_data c);
         assembled = word_of_nat (usize_saturating_add compressed (usize_saturating_mul total FRAME_OVERHEAD));
         rejected = c\<lparr>ch_candidate_scratch := batch_wire V b\<rparr>
     in if mx < nxt then (Ok (Rejected (LimitRlpBytes nxt mx)), rejected)
        else if MAX_FRAMES < total then (Ok (Rejected (LimitFrameCount total MAX_FRAMES)), rejected)
        else if mx < assembled then (Ok (Rejected (LimitAssembledBytes assembled mx)), rejected)
        else (Ok (case ch_compressed_size_target c of
                    Some target \<Rightarrow> if target \<le> cs_output_size cs' then TargetReached else Accepted | None \<Rightarrow> Accepted),
              (push_output out c)\<lparr>ch_candidate_scratch := batch_wire V b, ch_compressor := Some cs', ch_input_bytes := nxt,
                 ch_blocks_added := ch_blocks_added c + 1, ch_da_backlog_bytes := ch_da_backlog_bytes c + n\<rparr>))"
proof -
  have push: "push_output out (c\<lparr>ch_candidate_scratch := w, ch_compressor := z\<rparr>)
      = (push_output out c)\<lparr>ch_candidate_scratch := w, ch_compressor := z\<rparr>" for w z
    by (simp add: push_output_def)
  have "max_frame_data c \<noteq> 0"
    using assms(3) by simp
  then show ?thesis
    unfolding ch_add_batch_def Let_def by (simp add: assms(1,2) push cong: if_cong split del: if_split)
qed

lemma add_batch_cases:
  assumes "vec_writer (bt_writer V)" "ch_is_open c" "0 < max_frame_data c" "length (batch_wire V b) < 2 ^ 64"
    and "streamed (bt_writer V) level chunks stream c" "admitted (bt_writer V) chunks c"
  obtains limit where "ch_add_batch V b n c = (Ok (Rejected limit), c\<lparr>ch_candidate_scratch := batch_wire V b\<rparr>)"
  | out cs' nxt r c' where "ch_add_batch V b n c = (Ok r, c')" "r = Accepted \<or> r = TargetReached"
      "c' = (push_output out c)\<lparr>ch_candidate_scratch := batch_wire V b, ch_compressor := Some cs', ch_input_bytes := nxt,
         ch_blocks_added := ch_blocks_added c + 1, ch_da_backlog_bytes := ch_da_backlog_bytes c + n\<rparr>"
      "streamed (bt_writer V) level (chunks @ [batch_wire V b]) (stream @ out) c'"
      "admitted (bt_writer V) (chunks @ [batch_wire V b]) c'"
proof -
  let ?Z = "bt_writer V" and ?wire = "batch_wire V b"
  obtain cs where cs: "ch_compressor c = Some cs"
    using assms(2) by (auto simp: ch_is_open_def)
  obtain out cs' where app: "cs_append ?Z ?wire cs = (Ok out, cs')"
    using vec_writer.append_ok [OF assms(1)] by blast
  have run: "cs_run ?Z (cs_new ?Z level) (chunks @ [?wire]) = Ok (stream @ out, cs')"
    using assms(5) cs app by (simp add: streamed_def cs_run_snoc)
  define mx where "mx = max_rlp_bytes_per_channel (ch_rollup_config c) (sb_timestamp b)"
  define nxt where "nxt = saturating_add (ch_input_bytes c) (word_of_nat (length ?wire))"
  define total where "total = max_total_frames (cs_max_output_size ?Z (unat nxt)) (max_frame_data c)"
  let ?c = "(push_output out c)\<lparr>ch_candidate_scratch := ?wire, ch_compressor := Some cs', ch_input_bytes := nxt,
    ch_blocks_added := ch_blocks_added c + 1, ch_da_backlog_bytes := ch_da_backlog_bytes c + n\<rparr>"
  define assembled :: u64 where "assembled = word_of_nat (usize_saturating_add (cs_max_output_size ?Z (unat nxt))
    (usize_saturating_mul total FRAME_OVERHEAD))"
  let ?r = "case ch_compressed_size_target c of
    Some target \<Rightarrow> if target \<le> cs_output_size cs' then TargetReached else Accepted | None \<Rightarrow> Accepted"
  note add = add_batch_open [OF cs app assms(3), of n, unfolded Let_def, folded mx_def nxt_def, folded total_def,
      folded assembled_def]
  have "(\<exists>limit. ch_add_batch V b n c = (Ok (Rejected limit), c\<lparr>ch_candidate_scratch := ?wire\<rparr>))
      \<or> nxt \<le> mx \<and> total \<le> MAX_FRAMES \<and> assembled \<le> mx \<and> ch_add_batch V b n c = (Ok ?r, ?c)"
    unfolding add by (cases "mx < nxt"; cases "MAX_FRAMES < total"; cases "mx < assembled") auto
  then show thesis
  proof (elim disjE exE conjE)
    assume ok: "nxt \<le> mx" "total \<le> MAX_FRAMES" "ch_add_batch V b n c = (Ok ?r, ?c)" and fits: "assembled \<le> mx"
    have small: "unat nxt \<le> 100000000"
      using ok(1) max_rlp_bound [of "ch_rollup_config c" "sb_timestamp b"] by (simp add: word_le_nat_alt mx_def)
    then have sum: "unat nxt = length (concat (chunks @ [?wire]))"
      using assms(4,6) by (auto simp: nxt_def unat_saturating_add admitted_def unat_of_nat_small min_def split: if_splits)
    have "cs_max_output_size ?Z (unat nxt) \<le> 100000000"
    proof -
      have "unat assembled = usize_saturating_add (cs_max_output_size ?Z (unat nxt)) (usize_saturating_mul total FRAME_OVERHEAD)"
        unfolding assembled_def by (rule unat_of_nat_small) (simp add: usize_saturating_add_def USIZE_MAX_def)
      moreover have "unat assembled \<le> 100000000"
        using fits max_rlp_bound [of "ch_rollup_config c" "sb_timestamp b"] by (simp add: word_le_nat_alt mx_def)
      ultimately show ?thesis
        by (simp add: usize_saturating_add_def USIZE_MAX_def min_def split: if_splits)
    qed
    then have "streamed ?Z level (chunks @ [?wire]) (stream @ out) ?c" "admitted ?Z (chunks @ [?wire]) ?c"
      using sum ok(2) small run by (simp_all add: admitted_def streamed_def total_def max_frame_data_def)
    moreover have "?r = Accepted \<or> ?r = TargetReached"
      by (auto split: option.split)
    ultimately show thesis
      using that(2) [OF ok(3) _ refl] by blast
  qed (rule that(1))
qed

text \<open>The stream of a channel stays below the limit of derivation.\<close>

lemma stream_small:
  assumes "vec_writer (bt_writer V)" "streamed (bt_writer V) level chunks stream c" "admitted (bt_writer V) chunks c" "chunks \<noteq> []"
  shows "length stream \<le> 100000000"
proof -
  have "\<exists>tail. compressed_stream (bt_writer V) level chunks (stream @ tail)"
    using assms(2) by (cases "ch_compressor c") (auto simp: streamed_def compressed_stream_def cs_finish_def intro: exI [of _ "[]"])
  then obtain tail where "length (stream @ tail) \<le> cs_max_output_size (bt_writer V) (length (concat chunks))"
    using vec_writer.stream_bound [OF assms(1)] assms(3) by (fastforce simp: admitted_def)
  then show ?thesis
    using assms(3,4) by (simp add: admitted_def)
qed

end
