(* ===== verification/Da_Egress.thy ===== *)
theory Da_Egress
  imports Encoder_Channel
begin

text \<open>
  The way of the batcher's frames to L1 (crates/batcher/encoder/src/artifact.rs and egress.rs): plans that cut
  frames off the channels, immutable artifacts in a ledger, and the leases of artifacts to submissions.  A
  \<open>HashMap\<close> is an association list; nothing depends on its order.
\<close>

section \<open>Artifacts\<close>

datatype artifact_state = Ready | Pending | Confirmed

datatype da_artifact_payload = ArBlob blob_payload | ArCalldata frame

fun payload_frames :: "da_artifact_payload \<Rightarrow> frame list" where
  "payload_frames (ArBlob b) = bp_frames b"
| "payload_frames (ArCalldata f) = [f]"

fun payload_is_blob :: "da_artifact_payload \<Rightarrow> bool" where
  "payload_is_blob (ArBlob b) = True"
| "payload_is_blob (ArCalldata f) = False"

fun payload_frame_count :: "da_artifact_payload \<Rightarrow> nat" where
  "payload_frame_count (ArBlob b) = length (bp_frames b)"
| "payload_frame_count (ArCalldata f) = 1"

record da_artifact =
  ar_id :: u64
  ar_payload :: da_artifact_payload
  ar_channel_ids :: "bytes list"
  ar_state :: artifact_state

record da_artifacts =
  das_artifacts :: "da_artifact list"
  das_next_id :: u64

definition das_new :: da_artifacts where
  "das_new = \<lparr>das_artifacts = [], das_next_id = 0\<rparr>"

definition das_push :: "da_artifact_payload \<Rightarrow> bytes list \<Rightarrow> da_artifacts \<Rightarrow> u64 \<times> da_artifacts" where
  "das_push pl channel_ids L =
     (das_next_id L,
      \<lparr>das_artifacts = das_artifacts L
         @ [\<lparr>ar_id = das_next_id L, ar_payload = pl, ar_channel_ids = channel_ids, ar_state = Ready\<rparr>],
       das_next_id = das_next_id L + 1\<rparr>)"

definition has_ready :: "da_artifacts \<Rightarrow> bool" where
  "has_ready L \<longleftrightarrow> list_ex (\<lambda>a. ar_state a = Ready) (das_artifacts L)"

definition ready :: "da_artifacts \<Rightarrow> da_artifact list" where
  "ready L = filter (\<lambda>a. ar_state a = Ready) (das_artifacts L)"

definition ready_blob_count :: "da_artifacts \<Rightarrow> nat" where
  "ready_blob_count L = length (filter (\<lambda>a. payload_is_blob (ar_payload a)) (ready L))"

definition ready_frame_count :: "da_artifacts \<Rightarrow> nat" where
  "ready_frame_count L = sum_list (map (\<lambda>a. payload_frame_count (ar_payload a)) (ready L))"

text \<open>\<open>position\<close> of the standard library.\<close>

fun find_index :: "('a \<Rightarrow> bool) \<Rightarrow> 'a list \<Rightarrow> nat option" where
  "find_index P [] = None"
| "find_index P (x # xs) = (if P x then Some 0 else map_option Suc (find_index P xs))"

definition lease_one :: "nat \<Rightarrow> da_artifact list \<Rightarrow> da_artifact list" where
  "lease_one i artifacts = artifacts[i := (artifacts ! i)\<lparr>ar_state := Pending\<rparr>]"

text \<open>\<open>unreachable!\<close> in the two leases is a panic.\<close>

definition lease_blobs ::
    "nat \<Rightarrow> nat \<Rightarrow> u64 \<Rightarrow> da_artifacts \<Rightarrow> (unit, (batch_submission \<times> u64 list) \<times> da_artifacts) outcome" where
  "lease_blobs first_ready maximum submission_id L =
     (let artifacts = das_artifacts L;
          indexes = take maximum (takeWhile (\<lambda>i. payload_is_blob (ar_payload (artifacts ! i)))
            (filter (\<lambda>i. ar_state (artifacts ! i) = Ready) [first_ready..<length artifacts]))
      in if list_all (\<lambda>i. payload_is_blob (ar_payload (artifacts ! i))) indexes
         then Ok ((\<lparr>bsub_id = submission_id,
                    bsub_payload = PayloadBlobs (map (\<lambda>i. case ar_payload (artifacts ! i) of ArBlob b \<Rightarrow> b) indexes)\<rparr>,
                   map (\<lambda>i. ar_id (artifacts ! i)) indexes),
                  L\<lparr>das_artifacts := fold lease_one indexes artifacts\<rparr>)
         else Panic)"

definition lease_calldata ::
    "nat \<Rightarrow> u64 \<Rightarrow> da_artifacts \<Rightarrow> (unit, (batch_submission \<times> u64 list) \<times> da_artifacts) outcome" where
  "lease_calldata i submission_id L =
     (case ar_payload (das_artifacts L ! i) of
        ArBlob _ \<Rightarrow> Panic
      | ArCalldata frame \<Rightarrow>
          Ok ((\<lparr>bsub_id = submission_id, bsub_payload = PayloadCalldata frame\<rparr>, [ar_id (das_artifacts L ! i)]),
              L\<lparr>das_artifacts := lease_one i (das_artifacts L)\<rparr>))"

definition das_lease ::
    "u64 \<Rightarrow> nat \<Rightarrow> da_artifacts \<Rightarrow> (unit, (batch_submission \<times> u64 list) option \<times> da_artifacts) outcome" where
  "das_lease submission_id max_blobs L =
     (case find_index (\<lambda>a. ar_state a = Ready) (das_artifacts L) of
        None \<Rightarrow> Ok (None, L)
      | Some first_ready \<Rightarrow>
          obind (case ar_payload (das_artifacts L ! first_ready) of
                   ArBlob _ \<Rightarrow> lease_blobs first_ready max_blobs submission_id L
                 | ArCalldata _ \<Rightarrow> lease_calldata first_ready submission_id L)
            (\<lambda>(lease, L). Ok (Some lease, L)))"

definition all_pending :: "u64 list \<Rightarrow> da_artifacts \<Rightarrow> bool" where
  "all_pending artifact_ids L \<longleftrightarrow>
     list_all (\<lambda>i. list_ex (\<lambda>a. ar_id a = i \<and> ar_state a = Pending) (das_artifacts L)) artifact_ids"

text \<open>Elements that are not in the list yet, pushed one by one.\<close>

definition push_new :: "'a list \<Rightarrow> 'a list \<Rightarrow> 'a list" where
  "push_new xs acc = foldl (\<lambda>acc x. if x \<in> set acc then acc else acc @ [x]) acc xs"

definition das_confirm :: "u64 list \<Rightarrow> da_artifacts \<Rightarrow> bytes list \<times> da_artifacts" where
  "das_confirm artifact_ids L =
     (foldl (\<lambda>acc a. if ar_id a \<in> set artifact_ids then push_new (ar_channel_ids a) acc else acc) [] (das_artifacts L),
      L\<lparr>das_artifacts := map (\<lambda>a. if ar_id a \<in> set artifact_ids then a\<lparr>ar_state := Confirmed\<rparr> else a) (das_artifacts L)\<rparr>)"

definition das_requeue :: "u64 list \<Rightarrow> da_artifacts \<Rightarrow> nat \<times> da_artifacts" where
  "das_requeue artifact_ids L =
     (sum_list (map (\<lambda>a. payload_frame_count (ar_payload a)) (filter (\<lambda>a. ar_id a \<in> set artifact_ids) (das_artifacts L))),
      L\<lparr>das_artifacts := map (\<lambda>a. if ar_id a \<in> set artifact_ids then a\<lparr>ar_state := Ready\<rparr> else a) (das_artifacts L)\<rparr>)"

definition all_confirmed_for :: "bytes \<Rightarrow> da_artifacts \<Rightarrow> bool" where
  "all_confirmed_for cid L \<longleftrightarrow>
     (let artifacts = filter (\<lambda>a. cid \<in> set (ar_channel_ids a)) (das_artifacts L)
      in artifacts \<noteq> [] \<and> list_all (\<lambda>a. ar_state a = Confirmed) artifacts)"

definition das_prune_channels :: "bytes list \<Rightarrow> da_artifacts \<Rightarrow> da_artifacts" where
  "das_prune_channels channel_ids L =
     L\<lparr>das_artifacts := filter (\<lambda>a. ar_channel_ids a \<noteq> [])
        (map (\<lambda>a. a\<lparr>ar_channel_ids := filter (\<lambda>cid. cid \<notin> set channel_ids) (ar_channel_ids a)\<rparr>) (das_artifacts L))\<rparr>"

definition das_invalidate :: "u64 list \<Rightarrow> da_artifacts \<Rightarrow> da_artifacts" where
  "das_invalidate artifact_ids L =
     L\<lparr>das_artifacts := filter (\<lambda>a. ar_id a \<notin> set artifact_ids) (das_artifacts L)\<rparr>"

definition das_contains :: "u64 \<Rightarrow> da_artifacts \<Rightarrow> bool" where
  "das_contains i L \<longleftrightarrow> list_ex (\<lambda>a. ar_id a = i) (das_artifacts L)"

definition das_clear :: "da_artifacts \<Rightarrow> da_artifacts" where
  "das_clear L = L\<lparr>das_artifacts := []\<rparr>"

section \<open>Plans\<close>

definition BLOB_CAPACITY :: nat where
  "BLOB_CAPACITY = BLOB_MAX_DATA_SIZE - BLOB_DERIVATION_PREFIX_SIZE"

type_synonym planned = "bytes \<times> nat \<times> bool"

text \<open>The loop of \<open>plan_channel_frames\<close>: what is left of the output, whether the terminal frame is still to come, the
  space left in the blob, and the planned frames.\<close>

function plan_loop :: "bytes \<Rightarrow> nat \<Rightarrow> nat \<Rightarrow> bool \<Rightarrow> nat \<Rightarrow> planned list \<Rightarrow> nat \<times> bool \<times> nat \<times> planned list" where
  "plan_loop cid max_data available terminal_pending remaining frames =
     (if 0 < available \<and> FRAME_ENCODED_OVERHEAD < remaining
      then let data_capacity = min (remaining - FRAME_ENCODED_OVERHEAD) max_data;
               data_len = min available data_capacity;
               is_last = (data_len = available \<and> terminal_pending);
               frames = frames @ [(cid, data_len, is_last)];
               available = available - data_len;
               remaining = remaining - (FRAME_ENCODED_OVERHEAD + data_len)
           in if is_last then (available, False, remaining, frames)
              else plan_loop cid max_data available terminal_pending remaining frames
      else (available, terminal_pending, remaining, frames))"
  by pat_completeness auto

termination
  by (relation "measure (\<lambda>(cid, max_data, available, terminal_pending, remaining, frames). remaining)")
    (simp, simp only: in_measure prod.case, rule diff_less, simp add: FRAME_ENCODED_OVERHEAD_def,
      elim conjE, erule le_less_trans [rotated], rule le0)

declare plan_loop.simps [simp del]

definition plan_channel_frames ::
    "'z enc_channel \<Rightarrow> nat \<Rightarrow> planned list \<Rightarrow> bool \<times> nat \<times> planned list" where
  "plan_channel_frames c remaining frames =
     (let (available, terminal_pending, remaining, frames) =
            plan_loop (ch_id c) (max_frame_data c) (ch_available_output c) (ch_terminal_pending c) remaining frames;
          (terminal_pending, remaining, frames) =
            (if available = 0 \<and> terminal_pending \<and> FRAME_ENCODED_OVERHEAD \<le> remaining
             then (False, remaining - FRAME_ENCODED_OVERHEAD, frames @ [(ch_id c, 0, True)])
             else (terminal_pending, remaining, frames))
      in (\<not> ch_is_open c \<and> available = 0 \<and> \<not> terminal_pending, remaining, frames))"

fun plan_channels ::
    "u64 \<Rightarrow> 'z enc_channel list \<Rightarrow> nat \<Rightarrow> planned list \<Rightarrow> bool \<Rightarrow> nat \<times> planned list \<times> bool" where
  "plan_channels l1_head [] remaining frames release_due = (remaining, frames, release_due)"
| "plan_channels l1_head (c # cs) remaining frames release_due =
     (if framing_complete c then plan_channels l1_head cs remaining frames release_due
      else let first_frame = length frames;
               (channel_complete, remaining, frames) = plan_channel_frames c remaining frames;
               release_due = (release_due
                 \<or> (first_frame < length frames \<and> \<not> ch_is_open c \<and> deadline_due l1_head c))
           in if channel_complete then plan_channels l1_head cs remaining frames release_due
              else (remaining, frames, release_due))"

definition plan_blob :: "'z enc_channel list \<Rightarrow> u64 \<Rightarrow> planned list option" where
  "plan_blob channels l1_head =
     (let (remaining, frames, release_due) = plan_channels l1_head channels BLOB_CAPACITY [] False
      in if frames = [] then None
         else let saturated = remaining < FRAME_ENCODED_OVERHEAD + 1
              in if saturated \<or> release_due then Some frames else None)"

fun plan_calldata :: "'z enc_channel list \<Rightarrow> planned option" where
  "plan_calldata [] = None"
| "plan_calldata (c # cs) =
     (if framing_complete c then plan_calldata cs
      else let available = ch_available_output c
           in if max_frame_data c \<le> available
              then Some (ch_id c, max_frame_data c, max_frame_data c = available \<and> ch_terminal_pending c)
              else if ch_terminal_pending c then Some (ch_id c, available, True)
              else None)"

section \<open>Egress\<close>

record da_egress =
  eg_artifacts :: da_artifacts
  eg_pending :: "(u64 \<times> u64 list) list"

definition egress_new :: da_egress where
  "egress_new = \<lparr>eg_artifacts = das_new, eg_pending = []\<rparr>"

text \<open>The channel of a planned frame is looked up by its id; a frame that cannot be cut is a panic.\<close>

fun cut_frame :: "planned \<Rightarrow> 'z enc_channel list \<Rightarrow> (unit, frame \<times> 'z enc_channel list) outcome" where
  "cut_frame (cid, n, is_last) [] = Panic"
| "cut_frame (cid, n, is_last) (c # cs) =
     (if ch_id c = cid
      then (case take_frame n is_last c of Ok (f, c) \<Rightarrow> Ok (f, c # cs) | _ \<Rightarrow> Panic)
      else obind (cut_frame (cid, n, is_last) cs) (\<lambda>(f, cs). Ok (f, c # cs)))"

primrec cut_frames ::
    "planned list \<Rightarrow> frame list \<Rightarrow> bytes list \<Rightarrow> 'z enc_channel list
       \<Rightarrow> (unit, frame list \<times> bytes list \<times> 'z enc_channel list) outcome" where
  "cut_frames [] frames channel_ids channels = Ok (frames, channel_ids, channels)"
| "cut_frames (p # plan) frames channel_ids channels =
     obind (cut_frame p channels) (\<lambda>(f, channels).
       cut_frames plan (frames @ [f]) (push_new [fst p] channel_ids) channels)"

definition commit_blob ::
    "planned list \<Rightarrow> 'z enc_channel list \<Rightarrow> da_egress \<Rightarrow> (unit, 'z enc_channel list \<times> da_egress) outcome" where
  "commit_blob plan channels eg =
     obind (cut_frames plan [] [] channels) (\<lambda>(frames, channel_ids, channels).
       Ok (channels, eg\<lparr>eg_artifacts := snd (das_push (ArBlob \<lparr>bp_frames = frames\<rparr>) channel_ids (eg_artifacts eg))\<rparr>))"

definition commit_calldata ::
    "planned \<Rightarrow> 'z enc_channel list \<Rightarrow> da_egress \<Rightarrow> (unit, 'z enc_channel list \<times> da_egress) outcome" where
  "commit_calldata plan channels eg =
     obind (cut_frame plan channels) (\<lambda>(frame, channels).
       Ok (channels, eg\<lparr>eg_artifacts := snd (das_push (ArCalldata frame) [fst plan] (eg_artifacts eg))\<rparr>))"

lemma ready_blob_count_commit:
  "commit_blob plan channels eg = Ok (channels', eg') \<Longrightarrow>
     ready_blob_count (eg_artifacts eg') = ready_blob_count (eg_artifacts eg) + 1"
  by (auto simp: commit_blob_def obind_eq_Ok das_push_def ready_blob_count_def ready_def)

function build_blobs ::
    "u64 \<Rightarrow> nat \<Rightarrow> 'z enc_channel list \<Rightarrow> da_egress \<Rightarrow> (unit, 'z enc_channel list \<times> da_egress) outcome" where
  "build_blobs l1_head max_blobs channels eg =
     (if ready_blob_count (eg_artifacts eg) < max_blobs
      then case plan_blob channels l1_head of
             None \<Rightarrow> Ok (channels, eg)
           | Some plan \<Rightarrow>
               obind (commit_blob plan channels eg) (\<lambda>(channels, eg). build_blobs l1_head max_blobs channels eg)
      else Ok (channels, eg))"
  by pat_completeness auto

termination
  by (relation "measure (\<lambda>(l1_head, max_blobs, channels, eg). max_blobs - ready_blob_count (eg_artifacts eg))")
    (auto dest: ready_blob_count_commit)

declare build_blobs.simps [simp del]

definition build_ready_artifacts ::
    "da_type \<Rightarrow> u64 \<Rightarrow> nat \<Rightarrow> 'z enc_channel list \<Rightarrow> da_egress \<Rightarrow> (unit, 'z enc_channel list \<times> da_egress) outcome" where
  "build_ready_artifacts da l1_head max_blobs channels eg =
     (case da of
        DaBlob \<Rightarrow> build_blobs l1_head max_blobs channels eg
      | DaCalldata \<Rightarrow>
          (case plan_calldata channels of
             None \<Rightarrow> Ok (channels, eg)
           | Some plan \<Rightarrow> commit_calldata plan channels eg))"

definition eg_has_ready_submission :: "'z enc_channel list \<Rightarrow> da_type \<Rightarrow> u64 \<Rightarrow> da_egress \<Rightarrow> bool" where
  "eg_has_ready_submission channels da l1_head eg \<longleftrightarrow>
     has_ready (eg_artifacts eg)
     \<or> (case da of DaBlob \<Rightarrow> plan_blob channels l1_head \<noteq> None | DaCalldata \<Rightarrow> plan_calldata channels \<noteq> None)"

definition eg_next_submission ::
    "da_type \<Rightarrow> u64 \<Rightarrow> nat \<Rightarrow> u64 \<Rightarrow> 'z enc_channel list \<Rightarrow> da_egress
       \<Rightarrow> (unit, batch_submission option \<times> 'z enc_channel list \<times> da_egress) outcome" where
  "eg_next_submission da l1_head max_blobs_per_tx sid channels eg =
     obind (if has_ready (eg_artifacts eg) then Ok (channels, eg)
            else build_ready_artifacts da l1_head max_blobs_per_tx channels eg) (\<lambda>(channels, eg).
     obind (das_lease sid max_blobs_per_tx (eg_artifacts eg)) (\<lambda>(lease, L).
       case lease of
         None \<Rightarrow> Ok (None, channels, eg\<lparr>eg_artifacts := L\<rparr>)
       | Some (submission, artifact_ids) \<Rightarrow>
           Ok (Some submission, channels,
               eg\<lparr>eg_artifacts := L, eg_pending := AList.update sid artifact_ids (eg_pending eg)\<rparr>)))"

definition eg_confirm :: "u64 \<Rightarrow> da_egress \<Rightarrow> bytes list option \<times> da_egress" where
  "eg_confirm sid eg =
     (case map_of (eg_pending eg) sid of
        None \<Rightarrow> (None, eg)
      | Some artifact_ids \<Rightarrow>
          let eg = eg\<lparr>eg_pending := AList.delete sid (eg_pending eg)\<rparr>
          in if \<not> all_pending artifact_ids (eg_artifacts eg) then (None, eg)
             else let (channel_ids, L) = das_confirm artifact_ids (eg_artifacts eg)
                  in (Some channel_ids, eg\<lparr>eg_artifacts := L\<rparr>))"

definition eg_requeue :: "u64 \<Rightarrow> da_egress \<Rightarrow> nat option \<times> da_egress" where
  "eg_requeue sid eg =
     (case map_of (eg_pending eg) sid of
        None \<Rightarrow> (None, eg)
      | Some artifact_ids \<Rightarrow>
          let eg = eg\<lparr>eg_pending := AList.delete sid (eg_pending eg)\<rparr>
          in if \<not> all_pending artifact_ids (eg_artifacts eg) then (None, eg)
             else let (frame_count, L) = das_requeue artifact_ids (eg_artifacts eg)
                  in (Some frame_count, eg\<lparr>eg_artifacts := L\<rparr>))"

definition channel_fully_confirmed :: "'z enc_channel \<Rightarrow> da_egress \<Rightarrow> bool" where
  "channel_fully_confirmed c eg \<longleftrightarrow> framing_complete c \<and> all_confirmed_for (ch_id c) (eg_artifacts eg)"

definition retain_existing_pending_artifacts :: "da_egress \<Rightarrow> da_egress" where
  "retain_existing_pending_artifacts eg =
     eg\<lparr>eg_pending := filter (\<lambda>(_, pending). pending \<noteq> [])
       (map (\<lambda>(sid, pending). (sid, filter (\<lambda>i. das_contains i (eg_artifacts eg)) pending)) (eg_pending eg))\<rparr>"

definition eg_prune_channels :: "bytes list \<Rightarrow> da_egress \<Rightarrow> da_egress" where
  "eg_prune_channels channel_ids eg =
     retain_existing_pending_artifacts (eg\<lparr>eg_artifacts := das_prune_channels channel_ids (eg_artifacts eg)\<rparr>)"

definition invalidate_artifacts :: "u64 list \<Rightarrow> da_egress \<Rightarrow> da_egress" where
  "invalidate_artifacts artifact_ids eg =
     eg\<lparr>eg_artifacts := das_invalidate artifact_ids (eg_artifacts eg),
        eg_pending := filter (\<lambda>(_, pending). \<not> list_ex (\<lambda>i. i \<in> set artifact_ids) pending) (eg_pending eg)\<rparr>"

definition extend_with_submission_artifacts :: "da_egress \<Rightarrow> u64 list \<Rightarrow> u64 list" where
  "extend_with_submission_artifacts eg affected =
     foldl (\<lambda>affected artifact_ids.
        if list_ex (\<lambda>i. i \<in> set affected) artifact_ids then push_new artifact_ids affected else affected)
       affected (map snd (eg_pending eg))"

definition egress_reset :: "da_egress \<Rightarrow> da_egress" where
  "egress_reset eg = eg\<lparr>eg_artifacts := das_clear (eg_artifacts eg), eg_pending := []\<rparr>"

end
