(* ===== verification/Batch_Encoder.thy ===== *)
theory Batch_Encoder
  imports Da_Egress
begin

text \<open>
  The encoding pipeline of the batcher (crates/batcher/encoder/src/encoder.rs, with the types of pipeline.rs): a
  queue of L2 blocks, a queue of channels of which at most the last is open, and the egress.  Every method of
  the pipeline trait is a function of the encoder.  Logging, metrics and the reasons that are only logged are left
  out.
\<close>

section \<open>Data\<close>

datatype enc_step_result = BlockEncoded | ChannelClosed | Idle

datatype step_error =
    CompositionFailed nat batch_compose_error
  | BlockExceedsChannelLimit nat channel_limit
  | StepChannel encoder_channel_error

datatype reorg_error = ParentMismatch b256 b256

datatype derivation_reconciliation = Consistent | SafeHeadMismatch | StalledChannel

record ('z, 'r) batch_encoder =
  en_rollup_config :: rollup_config
  en_config :: encoder_config
  en_l1_head :: u64
  en_blocks :: "l2_block_data list"
  en_block_cursor :: nat
  en_tip :: "b256 option"
  en_channels :: "'z enc_channel list"
  en_egress :: da_egress
  en_next_id :: u64
  en_rng :: 'r
  en_blob_override :: bool
  en_deferred_step_error :: "step_error option"

text \<open>\<open>rng\<close> is the state of the generator seeded from the operating system.\<close>

definition batch_encoder_new ::
    "rollup_config \<Rightarrow> encoder_config \<Rightarrow> 'r \<Rightarrow> (encoder_config_error, ('z, 'r) batch_encoder) outcome" where
  "batch_encoder_new cfg config rng =
     obind (config_validate config) (\<lambda>_.
       Ok \<lparr>en_rollup_config = cfg, en_config = config, en_l1_head = 0, en_blocks = [], en_block_cursor = 0, en_tip = None,
           en_channels = [], en_egress = egress_new, en_next_id = 0, en_rng = rng, en_blob_override = False,
           en_deferred_step_error = None\<rparr>)"

section \<open>Encoding\<close>

definition block_da_backlog_bytes :: "l2_block_data \<Rightarrow> u64" where
  "block_da_backlog_bytes block =
     sum_list (map (\<lambda>encoded. word_of_nat (length encoded)) (List.map_filter user_tx (blk_transactions block)))"

definition close_current_channel ::
    "('z, 'r) batcher_env \<Rightarrow> ('z, 'r) batch_encoder \<Rightarrow> (step_error, unit) outcome \<times> ('z, 'r) batch_encoder" where
  "close_current_channel V s =
     (if en_channels s = [] \<or> \<not> ch_is_open (last (en_channels s)) then (Ok (), s)
      else if ch_is_empty (last (en_channels s)) then (Ok (), s)
      else case ch_close (bt_writer V) (last (en_channels s)) of
             (r, c) \<Rightarrow> (map_err StepChannel r, s\<lparr>en_channels := butlast (en_channels s) @ [c]\<rparr>))"

definition defer_step_error :: "step_error \<Rightarrow> ('z, 'r) batch_encoder \<Rightarrow> ('z, 'r) batch_encoder" where
  "defer_step_error e s =
     (if en_deferred_step_error s = None then s\<lparr>en_deferred_step_error := Some e\<rparr> else s)"

text \<open>A configuration that does not validate is a panic: \<open>None\<close>.\<close>

definition open_new_channel ::
    "('z, 'r) batcher_env \<Rightarrow> nat \<Rightarrow> ('z, 'r) batch_encoder \<Rightarrow> ('z, 'r) batch_encoder option" where
  "open_new_channel V block_start s =
     (let (cid, rng) = bt_fill_id V (en_rng s)
      in case enc_channel_new (bt_writer V) cid (en_rollup_config s) (en_config s) block_start (en_l1_head s) of
           Ok c \<Rightarrow> Some (s\<lparr>en_rng := rng, en_channels := en_channels s @ [c]\<rparr>)
         | _ \<Rightarrow> None)"

definition check_channel_timeout ::
    "('z, 'r) batcher_env \<Rightarrow> ('z, 'r) batch_encoder \<Rightarrow> (step_error, bool) outcome \<times> ('z, 'r) batch_encoder" where
  "check_channel_timeout V s =
     (let should_close = (en_channels s \<noteq> [] \<and> ch_is_open (last (en_channels s))
                           \<and> deadline_due (en_l1_head s) (last (en_channels s)))
      in if should_close
         then case close_current_channel V s of
                (r, s) \<Rightarrow> (obind r (\<lambda>_. Ok True), s)
         else (Ok False, s))"

definition add_block ::
    "('z, 'r) batcher_env \<Rightarrow> l2_block_data \<Rightarrow> ('z, 'r) batch_encoder
       \<Rightarrow> (reorg_error \<times> l2_block_data, unit) outcome \<times> ('z, 'r) batch_encoder" where
  "add_block V block s =
     (case en_tip s of
        Some expected \<Rightarrow>
          if hd_parent_hash (blk_header block) \<noteq> expected
          then (Err (ParentMismatch expected (hd_parent_hash (blk_header block)), block), s)
          else (Ok (), s\<lparr>en_tip := Some (bt_hash_slow V (blk_header block)), en_blocks := en_blocks s @ [block]\<rparr>)
      | None \<Rightarrow> (Ok (), s\<lparr>en_tip := Some (bt_hash_slow V (blk_header block)), en_blocks := en_blocks s @ [block]\<rparr>))"

text \<open>The part of \<open>step\<close> after a batch was composed and a channel is open: the batch goes into the last channel.\<close>

definition encode_batch ::
    "('z, 'r) batcher_env \<Rightarrow> single_batch \<Rightarrow> u64 \<Rightarrow> ('z, 'r) batch_encoder
       \<Rightarrow> (step_error, enc_step_result) outcome \<times> ('z, 'r) batch_encoder" where
  "encode_batch V batch backlog s =
     (let (r, c) = ch_add_batch V batch backlog (last (en_channels s));
          s = s\<lparr>en_channels := butlast (en_channels s) @ [c]\<rparr>
      in case r of
           Err e \<Rightarrow> (Err (StepChannel e), s)
         | Panic \<Rightarrow> (Panic, s)
         | Ok (Rejected limit) \<Rightarrow>
             if ch_is_empty c
             then (Err (BlockExceedsChannelLimit (en_block_cursor s) limit), s\<lparr>en_channels := butlast (en_channels s)\<rparr>)
             else (case close_current_channel V s of (r, s) \<Rightarrow> (obind r (\<lambda>_. Ok ChannelClosed), s))
         | Ok TargetReached \<Rightarrow>
             (case close_current_channel V (s\<lparr>en_block_cursor := en_block_cursor s + 1\<rparr>) of
                (r, s) \<Rightarrow> (obind r (\<lambda>_. Ok ChannelClosed), s))
         | Ok Accepted \<Rightarrow> (Ok BlockEncoded, s\<lparr>en_block_cursor := en_block_cursor s + 1\<rparr>))"

definition step ::
    "('z, 'r) batcher_env \<Rightarrow> ('z, 'r) batch_encoder \<Rightarrow> (step_error, enc_step_result) outcome \<times> ('z, 'r) batch_encoder" where
  "step V s =
     (case en_deferred_step_error s of
        Some e \<Rightarrow> (Err e, s\<lparr>en_deferred_step_error := None\<rparr>)
      | None \<Rightarrow>
          (case check_channel_timeout V s of
             (Err e, s) \<Rightarrow> (Err e, s)
           | (Panic, s) \<Rightarrow> (Panic, s)
           | (Ok True, s) \<Rightarrow> (Ok ChannelClosed, s)
           | (Ok False, s) \<Rightarrow>
               if length (en_blocks s) \<le> en_block_cursor s then (Ok Idle, s)
               else let block = en_blocks s ! en_block_cursor s
                    in case block_to_single_batch block of
                         Err e \<Rightarrow> (Err (CompositionFailed (en_block_cursor s) e), s)
                       | Panic \<Rightarrow> (Panic, s)
                       | Ok batch \<Rightarrow>
                           (case (if en_channels s = [] \<or> \<not> ch_is_open (last (en_channels s))
                                  then open_new_channel V (en_block_cursor s) s else Some s) of
                              None \<Rightarrow> (Panic, s)
                            | Some s \<Rightarrow> encode_batch V batch (block_da_backlog_bytes block) s)))"

definition flush_channels ::
    "('z, 'r) batcher_env \<Rightarrow> ('z, 'r) batch_encoder \<Rightarrow> (step_error, unit) outcome \<times> ('z, 'r) batch_encoder" where
  "flush_channels V s =
     (case close_current_channel V s of
        (Ok _, s) \<Rightarrow> (Ok (), s\<lparr>en_channels := map (release_at (en_l1_head s)) (en_channels s)\<rparr>)
      | (r, s) \<Rightarrow> (r, s))"

section \<open>Submissions\<close>

definition effective_da_type :: "('z, 'r) batch_encoder \<Rightarrow> da_type" where
  "effective_da_type s =
     (if en_blob_override s \<and> ec_da_type (en_config s) = DaCalldata then DaBlob else ec_da_type (en_config s))"

definition next_submission ::
    "('z, 'r) batch_encoder \<Rightarrow> (unit, batch_submission option) outcome \<times> ('z, 'r) batch_encoder" where
  "next_submission s =
     (case eg_next_submission (effective_da_type s) (en_l1_head s) (ec_max_blobs_per_tx (en_config s)) (en_next_id s)
             (en_channels s) (en_egress s) of
        Ok (submission, channels, eg) \<Rightarrow>
          let s = s\<lparr>en_channels := channels, en_egress := eg\<rparr>
          in (case submission of
                None \<Rightarrow> (Ok None, s)
              | Some sub \<Rightarrow> (Ok (Some sub), s\<lparr>en_next_id := en_next_id s + 1\<rparr>))
      | _ \<Rightarrow> (Panic, s))"

definition has_ready_submission :: "('z, 'r) batch_encoder \<Rightarrow> bool" where
  "has_ready_submission s =
     eg_has_ready_submission (en_channels s) (effective_da_type s) (en_l1_head s) (en_egress s)"

fun update_first :: "('a \<Rightarrow> bool) \<Rightarrow> ('a \<Rightarrow> 'a) \<Rightarrow> 'a list \<Rightarrow> 'a list" where
  "update_first P f [] = []"
| "update_first P f (x # xs) = (if P x then f x # xs else x # update_first P f xs)"

definition enc_confirm :: "u64 \<Rightarrow> u64 \<Rightarrow> ('z, 'r) batch_encoder \<Rightarrow> ('z, 'r) batch_encoder" where
  "enc_confirm sid l1_block s =
     (case eg_confirm sid (en_egress s) of
        (None, eg) \<Rightarrow> s\<lparr>en_egress := eg\<rparr>
      | (Some channel_ids, eg) \<Rightarrow>
          s\<lparr>en_egress := eg,
            en_channels := foldl (\<lambda>chs cid. update_first (\<lambda>c. ch_id c = cid) (record_confirmation l1_block) chs)
              (en_channels s) channel_ids\<rparr>)"

definition enc_requeue :: "u64 \<Rightarrow> ('z, 'r) batch_encoder \<Rightarrow> ('z, 'r) batch_encoder" where
  "enc_requeue sid s = s\<lparr>en_egress := snd (eg_requeue sid (en_egress s))\<rparr>"

definition da_backlog_bytes :: "('z, 'r) batch_encoder \<Rightarrow> u64" where
  "da_backlog_bytes s =
     sum_list (map block_da_backlog_bytes (drop (en_block_cursor s) (en_blocks s)))
     + sum_list (map ch_da_backlog_bytes (filter (\<lambda>c. \<not> channel_fully_confirmed c (en_egress s)) (en_channels s)))"

definition set_blob_override :: "bool \<Rightarrow> ('z, 'r) batch_encoder \<Rightarrow> ('z, 'r) batch_encoder" where
  "set_blob_override active s = s\<lparr>en_blob_override := active\<rparr>"

text \<open>Dropping everything takes a fresh generator.\<close>

definition enc_reset :: "'r \<Rightarrow> ('z, 'r) batch_encoder \<Rightarrow> ('z, 'r) batch_encoder" where
  "enc_reset rng s =
     s\<lparr>en_blocks := [], en_block_cursor := 0, en_tip := None, en_channels := [], en_egress := egress_reset (en_egress s),
       en_deferred_step_error := None, en_rng := rng\<rparr>"

section \<open>Replay\<close>

text \<open>One round of the closure in \<open>invalidate_channel\<close>: the artifacts of an affected channel and the channels of an
  affected artifact, the artifacts of the same submission, and all channels behind an affected one.\<close>

definition affected_by_artifacts :: "da_artifact list \<Rightarrow> bytes list \<times> u64 list \<Rightarrow> bytes list \<times> u64 list" where
  "affected_by_artifacts artifacts =
     (\<lambda>acc. foldl (\<lambda>(channels, affected) a.
        if list_ex (\<lambda>cid. cid \<in> set channels) (ar_channel_ids a) \<or> ar_id a \<in> set affected
        then (push_new (ar_channel_ids a) channels, push_new [ar_id a] affected)
        else (channels, affected)) acc artifacts)"

definition affected_by_order :: "'z enc_channel list \<Rightarrow> bytes list \<Rightarrow> bytes list" where
  "affected_by_order channels affected =
     (case find_index (\<lambda>c. ch_id c \<in> set affected) channels of
        None \<Rightarrow> affected
      | Some replay_idx \<Rightarrow> push_new (map ch_id (drop replay_idx channels)) affected)"

definition affected_round :: "('z, 'r) batch_encoder \<Rightarrow> bytes list \<times> u64 list \<Rightarrow> bytes list \<times> u64 list" where
  "affected_round s acc =
     (let (channels, artifacts) = affected_by_artifacts (das_artifacts (eg_artifacts (en_egress s))) acc;
          artifacts = extend_with_submission_artifacts (en_egress s) artifacts
      in (affected_by_order (en_channels s) channels, artifacts))"

text \<open>A round only adds, and only channels and artifacts the encoder knows.\<close>

definition known_channels :: "('z, 'r) batch_encoder \<Rightarrow> bytes set" where
  "known_channels s = ch_id ` set (en_channels s) \<union> (\<Union>a \<in> set (das_artifacts (eg_artifacts (en_egress s))). set (ar_channel_ids a))"

definition known_artifacts :: "('z, 'r) batch_encoder \<Rightarrow> u64 set" where
  "known_artifacts s = ar_id ` set (das_artifacts (eg_artifacts (en_egress s))) \<union> (\<Union>p \<in> snd ` set (eg_pending (en_egress s)). set p)"

definition grows :: "'a set \<Rightarrow> 'a list \<Rightarrow> 'a list \<Rightarrow> bool" where
  "grows U xs ys \<longleftrightarrow> (\<exists>zs. ys = xs @ zs \<and> set zs \<subseteq> U - set xs)"

lemma grows_refl [simp]: "grows U xs xs"
  by (simp add: grows_def)

lemma grows_trans: "grows U xs ys \<Longrightarrow> grows U ys zs \<Longrightarrow> grows U xs zs"
  by (fastforce simp: grows_def)

lemma grows_push_new: "set xs \<subseteq> U \<Longrightarrow> grows U acc (push_new xs acc)"
proof (induction xs arbitrary: acc)
  case (Cons x xs)
  have "grows U acc (if x \<in> set acc then acc else acc @ [x])"
    using Cons(2) by (auto simp: grows_def)
  moreover have "grows U (if x \<in> set acc then acc else acc @ [x]) (push_new xs (if x \<in> set acc then acc else acc @ [x]))"
    using Cons by simp
  ultimately have "grows U acc (push_new xs (if x \<in> set acc then acc else acc @ [x]))"
    by (rule grows_trans)
  then show ?case
    by (simp add: push_new_def)
qed (simp add: push_new_def)

lemma grows_measure:
  assumes "grows U xs ys" "finite U"
  shows "card (U - set ys) \<le> card (U - set xs)" "length ys \<noteq> length xs \<Longrightarrow> card (U - set ys) < card (U - set xs)"
proof -
  obtain zs where zs: "ys = xs @ zs" "set zs \<subseteq> U - set xs"
    using assms(1) by (auto simp: grows_def)
  then show "card (U - set ys) \<le> card (U - set xs)"
    using assms(2) by (intro card_mono) auto
  assume "length ys \<noteq> length xs"
  then obtain z where "z \<in> set zs"
    using zs(1) by (cases zs) auto
  then have "U - set ys \<subset> U - set xs"
    using zs by auto
  then show "card (U - set ys) < card (U - set xs)"
    using assms(2) by (intro psubset_card_mono) auto
qed

lemma affected_by_artifacts_grows:
  assumes "\<forall>a \<in> set as. set (ar_channel_ids a) \<subseteq> U \<and> ar_id a \<in> W"
  shows "grows U (fst acc) (fst (affected_by_artifacts as acc)) \<and> grows W (snd acc) (snd (affected_by_artifacts as acc))"
  using assms
proof (induction as arbitrary: acc)
  case (Cons a as)
  obtain cs is' where acc: "acc = (cs, is')"
    by fastforce
  let ?touched = "list_ex (\<lambda>cid. cid \<in> set cs) (ar_channel_ids a) \<or> ar_id a \<in> set is'"
  let ?acc = "if ?touched then (push_new (ar_channel_ids a) cs, push_new [ar_id a] is') else (cs, is')"
  have g: "grows U (fst acc) (fst ?acc)" "grows W (snd acc) (snd ?acc)"
    using Cons(2) by (auto simp: acc intro: grows_push_new)
  have eq: "affected_by_artifacts (a # as) acc = affected_by_artifacts as ?acc"
    by (simp add: affected_by_artifacts_def acc)
  have IH: "grows U (fst ?acc) (fst (affected_by_artifacts as ?acc)) \<and> grows W (snd ?acc) (snd (affected_by_artifacts as ?acc))"
    using Cons(2) by (intro Cons(1)) simp
  show ?case
    unfolding eq using grows_trans [OF g(1) conjunct1 [OF IH]] grows_trans [OF g(2) conjunct2 [OF IH]] by blast
qed (simp add: affected_by_artifacts_def)

lemma extend_grows:
  assumes "\<forall>p \<in> snd ` set (eg_pending eg). set p \<subseteq> W"
  shows "grows W acc (extend_with_submission_artifacts eg acc)"
proof -
  have "grows W acc (foldl (\<lambda>affected p. if list_ex (\<lambda>i. i \<in> set affected) p then push_new p affected else affected) acc ps)"
    if "\<forall>p \<in> set ps. set p \<subseteq> W" for ps acc
    using that
  proof (induction ps arbitrary: acc)
    case (Cons p ps)
    let ?acc = "if list_ex (\<lambda>i. i \<in> set acc) p then push_new p acc else acc"
    have "grows W acc ?acc"
      using Cons(2) by (auto intro: grows_push_new)
    from grows_trans [OF this Cons(1)] Cons(2) show ?case
      by simp
  qed simp
  from this [of "map snd (eg_pending eg)" acc] assms show ?thesis
    by (auto simp: extend_with_submission_artifacts_def)
qed

lemma affected_round_grows:
  "grows (known_channels s) (fst acc) (fst (affected_round s acc)) \<and> grows (known_artifacts s) (snd acc) (snd (affected_round s acc))"
proof -
  let ?mid = "affected_by_artifacts (das_artifacts (eg_artifacts (en_egress s))) acc"
  have mid: "grows (known_channels s) (fst acc) (fst ?mid)" "grows (known_artifacts s) (snd acc) (snd ?mid)"
    using affected_by_artifacts_grows [of "das_artifacts (eg_artifacts (en_egress s))" "known_channels s" "known_artifacts s" acc]
    by (auto simp: known_channels_def known_artifacts_def)
  have "grows (known_channels s) (fst ?mid) (affected_by_order (en_channels s) (fst ?mid))"
    by (auto simp: affected_by_order_def known_channels_def intro!: grows_push_new split: option.split) (meson imageI in_set_dropD)
  moreover have "grows (known_artifacts s) (snd ?mid) (extend_with_submission_artifacts (en_egress s) (snd ?mid))"
    by (rule extend_grows) (auto simp: known_artifacts_def)
  ultimately show ?thesis
    using grows_trans [OF mid(1)] grows_trans [OF mid(2)] by (simp add: affected_round_def case_prod_unfold Let_def)
qed

function affected_closure :: "('z, 'r) batch_encoder \<Rightarrow> bytes list \<times> u64 list \<Rightarrow> bytes list \<times> u64 list" where
  "affected_closure s acc =
     (let acc' = affected_round s acc
      in if length (fst acc') = length (fst acc) \<and> length (snd acc') = length (snd acc) then acc'
         else affected_closure s acc')"
  by pat_completeness auto

termination
proof (relation "measure (\<lambda>(s, acc). card (known_channels s - set (fst acc)) + card (known_artifacts s - set (snd acc)))")
  fix s :: "('z, 'r) batch_encoder" and acc acc' :: "bytes list \<times> u64 list"
  assume acc': "acc' = affected_round s acc"
    and "\<not> (length (fst acc') = length (fst acc) \<and> length (snd acc') = length (snd acc))"
  moreover have "finite (known_channels s)" "finite (known_artifacts s)"
    by (auto simp: known_channels_def known_artifacts_def)
  moreover note grows_measure [OF conjunct1 [OF affected_round_grows [of s acc]]]
    grows_measure [OF conjunct2 [OF affected_round_grows [of s acc]]]
  ultimately show "((s, acc'), s, acc) \<in> measure (\<lambda>(s, acc). card (known_channels s - set (fst acc))
      + card (known_artifacts s - set (snd acc)))"
    unfolding acc' by (simp del: not_less) (metis add_le_less_mono add_less_le_mono)
qed simp

declare affected_closure.simps [simp del]

definition invalidate_channel :: "nat \<Rightarrow> ('z, 'r) batch_encoder \<Rightarrow> ('z, 'r) batch_encoder" where
  "invalidate_channel channel_idx s =
     (if length (en_channels s) \<le> channel_idx then s
      else let (affected_channels, affected_artifacts) = affected_closure s ([ch_id (en_channels s ! channel_idx)], []);
               replay_idx = (case find_index (\<lambda>c. ch_id c \<in> set affected_channels) (en_channels s) of
                               Some i \<Rightarrow> i | None \<Rightarrow> channel_idx);
               replay_from = ch_block_start (en_channels s ! replay_idx)
           in s\<lparr>en_egress := invalidate_artifacts affected_artifacts (en_egress s),
                en_channels := take replay_idx (en_channels s),
                en_block_cursor := min (en_block_cursor s) replay_from\<rparr>)"

definition channel_expired :: "u64 \<Rightarrow> ('z, 'r) batch_encoder \<Rightarrow> 'z enc_channel \<Rightarrow> bool" where
  "channel_expired timeout s c =
     (case ch_first_confirmed_l1_block c of
        None \<Rightarrow> False
      | Some x \<Rightarrow>
          let inclusion_span = saturating_sub (case ch_last_confirmed_l1_block c of Some y \<Rightarrow> y | None \<Rightarrow> x) x
          in timeout < inclusion_span
             \<or> (\<not> channel_fully_confirmed c (en_egress s) \<and> saturating_add x timeout < en_l1_head s))"

definition invalidate_expired_channels :: "('z, 'r) batch_encoder \<Rightarrow> ('z, 'r) batch_encoder" where
  "invalidate_expired_channels s =
     (let timeout = confirmation_channel_timeout (en_rollup_config s)
      in case find_index (channel_expired timeout s) (en_channels s) of
           None \<Rightarrow> s
         | Some channel_idx \<Rightarrow> invalidate_channel channel_idx s)"

text \<open>Closing a channel cannot panic, see \<open>cs_finish\<close>.\<close>

definition advance_l1_head :: "('z, 'r) batcher_env \<Rightarrow> u64 \<Rightarrow> ('z, 'r) batch_encoder \<Rightarrow> ('z, 'r) batch_encoder" where
  "advance_l1_head V l1_block s =
     (let advanced = en_l1_head s < l1_block;
          s = (if advanced then s\<lparr>en_l1_head := l1_block\<rparr> else s)
      in if en_deferred_step_error s \<noteq> None then s
         else let s = (if advanced
                       then case check_channel_timeout V s of
                              (Err e, s) \<Rightarrow> defer_step_error e s
                            | (_, s) \<Rightarrow> s
                       else s)
              in invalidate_expired_channels s)"

section \<open>Reconciliation\<close>

definition rebase_after_block_prune :: "nat \<Rightarrow> ('z, 'r) batch_encoder \<Rightarrow> ('z, 'r) batch_encoder" where
  "rebase_after_block_prune prune_count s =
     s\<lparr>en_block_cursor := en_block_cursor s - prune_count,
       en_channels := map (rebase_after_prune prune_count) (en_channels s)\<rparr>"

definition prune_safe ::
    "('z, 'r) batcher_env \<Rightarrow> block_info \<Rightarrow> ('z, 'r) batch_encoder \<Rightarrow> bool \<times> ('z, 'r) batch_encoder" where
  "prune_safe V safe_l2 s =
     (case en_blocks s of
        [] \<Rightarrow> (True, s\<lparr>en_tip := Some (bi_hash safe_l2)\<rparr>)
      | oldest # _ \<Rightarrow>
          let oldest_number = hd_number (blk_header oldest);
              next_safe = bi_number safe_l2 + 1;
              prune_count = unat (next_safe - oldest_number)
          in if next_safe < oldest_number then (False, s)
             else if length (en_blocks s) < prune_count then (False, s)
             else if prune_count = 0 then (hd_parent_hash (blk_header oldest) = bi_hash safe_l2, s)
             else if bt_hash_slow V (blk_header (en_blocks s ! (prune_count - 1))) \<noteq> bi_hash safe_l2 then (False, s)
             else
               let pruned = takeWhile (\<lambda>c. block_range_end c \<le> prune_count) (en_channels s);
                   s = (if 0 < length pruned
                        then s\<lparr>en_channels := drop (length pruned) (en_channels s),
                               en_egress := eg_prune_channels (map ch_id pruned) (en_egress s)\<rparr>
                        else s);
                   s = rebase_after_block_prune prune_count (s\<lparr>en_blocks := drop prune_count (en_blocks s)\<rparr>);
                   s = (if en_blocks s = [] then s\<lparr>en_tip := Some (bi_hash safe_l2)\<rparr> else s)
               in (True, s))"

definition is_derivation_stalled :: "u64 \<Rightarrow> block_info \<Rightarrow> ('z, 'r) batch_encoder \<Rightarrow> bool" where
  "is_derivation_stalled current_l1 safe_l2 s =
     list_ex (\<lambda>c.
        channel_fully_confirmed c (en_egress s)
        \<and> (case ch_last_confirmed_l1_block c of
             None \<Rightarrow> False
           | Some last_inclusion \<Rightarrow>
               last_inclusion < current_l1
               \<and> 0 < block_range_end c \<and> block_range_end c - 1 < length (en_blocks s)
               \<and> bi_number safe_l2 < hd_number (blk_header (en_blocks s ! (block_range_end c - 1))))) (en_channels s)"

definition reconcile_derivation ::
    "('z, 'r) batcher_env \<Rightarrow> block_info \<Rightarrow> u64 option \<Rightarrow> ('z, 'r) batch_encoder
       \<Rightarrow> derivation_reconciliation \<times> ('z, 'r) batch_encoder" where
  "reconcile_derivation V safe_l2 current_l1 s =
     (case prune_safe V safe_l2 s of
        (False, s) \<Rightarrow> (SafeHeadMismatch, s)
      | (True, s) \<Rightarrow>
          if (case current_l1 of Some l1 \<Rightarrow> is_derivation_stalled l1 safe_l2 s | None \<Rightarrow> False)
          then (StalledChannel, s) else (Consistent, s))"

section \<open>Encoding everything\<close>

text \<open>The two loops may run forever on arbitrary states; \<open>None\<close> is a loop that does not return.\<close>

partial_function (option) step_until_idle ::
    "('z, 'r) batcher_env \<Rightarrow> ('z, 'r) batch_encoder \<Rightarrow> ((step_error, unit) outcome \<times> ('z, 'r) batch_encoder) option" where
  "step_until_idle V s =
     (case step V s of
        (Ok Idle, s) \<Rightarrow> Some (Ok (), s)
      | (Ok _, s) \<Rightarrow> step_until_idle V s
      | (Err e, s) \<Rightarrow> Some (Err e, s)
      | (Panic, s) \<Rightarrow> Some (Panic, s))"

partial_function (option) drain_submissions ::
    "batch_submission list \<Rightarrow> ('z, 'r) batch_encoder \<Rightarrow> ((step_error, batch_submission list) outcome \<times> ('z, 'r) batch_encoder) option" where
  "drain_submissions subs s =
     (case next_submission s of
        (Ok None, s) \<Rightarrow> Some (Ok subs, s)
      | (Ok (Some sub), s) \<Rightarrow> drain_submissions (subs @ [sub]) s
      | (_, s) \<Rightarrow> Some (Panic, s))"

definition encode_and_drain ::
    "('z, 'r) batcher_env \<Rightarrow> ('z, 'r) batch_encoder
       \<Rightarrow> ((step_error, batch_submission list) outcome \<times> ('z, 'r) batch_encoder) option" where
  "encode_and_drain V s =
     (case step_until_idle V s of
        None \<Rightarrow> None
      | Some (Err e, s) \<Rightarrow> Some (Err e, s)
      | Some (Panic, s) \<Rightarrow> Some (Panic, s)
      | Some (Ok _, s) \<Rightarrow>
          (case flush_channels V s of
             (Ok _, s) \<Rightarrow> drain_submissions [] s
           | (Err e, s) \<Rightarrow> Some (Err e, s)
           | (Panic, s) \<Rightarrow> Some (Panic, s)))"

end
