(* ===== verification/Egress_Laws.thy ===== *)
theory Egress_Laws
  imports Da_Egress
begin

text \<open>
  Facts about the egress of the batcher: a plan can always be carried out on the channels it was made for, the
  frames it cuts continue those already cut, a planned blob fits, every plan makes progress, and leases,
  confirmations and retries keep the ledger and the submissions in flight in step.
\<close>

section \<open>Cutting frames off one channel\<close>

fun cut_channel :: "(nat \<times> bool) list \<Rightarrow> 'z enc_channel \<Rightarrow> (frame list \<times> 'z enc_channel) option" where
  "cut_channel [] c = Some ([], c)"
| "cut_channel ((n, l) # ps) c =
     (case take_frame n l c of
        Ok (f, c') \<Rightarrow> map_option (\<lambda>(fs, c''). (f # fs, c'')) (cut_channel ps c')
      | _ \<Rightarrow> None)"

text \<open>What is still to be framed.\<close>

definition weight :: "'z enc_channel \<Rightarrow> nat" where
  "weight c = ch_available_output c + of_bool (ch_terminal_pending c)"

text \<open>A channel after some frames were cut from it.\<close>

definition cut_to :: "frame list \<Rightarrow> 'z enc_channel \<Rightarrow> 'z enc_channel \<Rightarrow> bool" where
  "cut_to new c c' \<longleftrightarrow>
     (\<exists>chunks avail nxt pending. c' = c\<lparr>ch_output := chunks, ch_available_output := avail, ch_next_frame_number := nxt,
        ch_terminal_pending := pending\<rparr>)
     \<and> (\<forall>fs stream. framed fs stream c \<longrightarrow> framed (fs @ new) stream c')
     \<and> weight c' + length new \<le> weight c
     \<and> (\<forall>f \<in> set new. f_id f = ch_id c)"

lemma cut_to_fields:
  assumes "cut_to new c c'"
  shows "ch_id c' = ch_id c" "ch_compressor c' = ch_compressor c" "ch_is_open c' = ch_is_open c"
    "max_frame_data c' = max_frame_data c" "ch_block_start c' = ch_block_start c" "ch_blocks_added c' = ch_blocks_added c"
    "ch_deadline_l1_block c' = ch_deadline_l1_block c" "ch_max_frame_size c' = ch_max_frame_size c"
  using assms by (auto simp: cut_to_def ch_is_open_def max_frame_data_def)

lemma cut_to_refl: "cut_to [] c c"
  unfolding cut_to_def by (intro conjI exI [of _ "ch_output c"] exI [of _ "ch_available_output c"]
      exI [of _ "ch_next_frame_number c"] exI [of _ "ch_terminal_pending c"]) simp_all

lemma cut_to_trans: "cut_to new c c' \<Longrightarrow> cut_to new' c' c'' \<Longrightarrow> cut_to (new @ new') c c''"
  unfolding cut_to_def by fastforce

lemma take_frame_cut_to:
  assumes "framed fs stream c" "\<not> framing_complete c" "length fs < MAX_FRAMES"
    and "n \<le> ch_available_output c" "n \<le> max_frame_data c" "0 < n \<or> fin"
    and fin: "fin \<Longrightarrow> \<not> ch_is_open c \<and> n = ch_available_output c"
  shows "\<exists>f c'. take_frame n fin c = Ok (f, c') \<and> cut_to [f] c c' \<and> length (f_data f) = n
    \<and> ch_available_output c' = ch_available_output c - n \<and> ch_terminal_pending c' = (ch_terminal_pending c \<and> \<not> fin)"
proof -
  have fs: "length fs' = length fs" if "framed fs' stream' c" for fs' stream'
    using assms(1) that by (simp add: framed_def)
  obtain f c' chunks where f: "take_frame n fin c = Ok (f, c')" "f_id f = ch_id c" "length (f_data f) = n"
    and c': "c' = c\<lparr>ch_output := chunks, ch_available_output := ch_available_output c - n,
      ch_next_frame_number := ch_next_frame_number c + 1, ch_terminal_pending := ch_terminal_pending c \<and> \<not> fin\<rparr>"
    using take_frame_framed [OF assms(1-5) fin] by blast
  have "framed (fs' @ [f]) stream' c'" if fr': "framed fs' stream' c" for fs' stream'
  proof -
    have "length fs' < MAX_FRAMES"
      using assms(3) fs [OF fr'] by simp
    then obtain f1 c1 where "take_frame n fin c = Ok (f1, c1)" "framed (fs' @ [f1]) stream' c1"
      using take_frame_framed [where fin = fin, OF fr' assms(2) _ assms(4,5) fin] by blast
    then show ?thesis
      using f(1) by simp
  qed
  moreover have "fin \<Longrightarrow> ch_terminal_pending c"
    using fin assms(2) by (auto simp: framing_complete_iff)
  then have "weight c' + 1 \<le> weight c"
    using assms(4,6) by (auto simp: weight_def c')
  moreover have "\<exists>chunks avail nxt pending. c' = c\<lparr>ch_output := chunks, ch_available_output := avail,
      ch_next_frame_number := nxt, ch_terminal_pending := pending\<rparr>"
    unfolding c' by blast
  ultimately have "cut_to [f] c c'"
    unfolding cut_to_def using f(2) by simp
  then show ?thesis
    using f(1,3) c' by (intro exI [of _ f] exI [of _ c']) simp
qed

section \<open>Plans\<close>

lemma plan_loop_stop:
  "\<not> (0 < a \<and> FRAME_ENCODED_OVERHEAD < r) \<Longrightarrow> plan_loop cid m a t r acc = (a, t, r, acc)"
  by (subst plan_loop.simps) auto

lemma plan_loop_go:
  assumes "0 < a" "FRAME_ENCODED_OVERHEAD < r" "n = min a (min (r - FRAME_ENCODED_OVERHEAD) m)"
  shows "plan_loop cid m a t r acc =
    (if n = a \<and> t then (0, False, r - (FRAME_ENCODED_OVERHEAD + n), acc @ [(cid, n, True)])
     else plan_loop cid m (a - n) t (r - (FRAME_ENCODED_OVERHEAD + n)) (acc @ [(cid, n, False)]))"
proof (cases "n = a \<and> t")
  case True
  then show ?thesis
    using assms(1,2) by (subst plan_loop.simps, simp only: Let_def assms(3) [symmetric]) simp
next
  case False
  then have "(n = a \<and> t) = False"
    by blast
  then show ?thesis
    using assms(1,2) by (subst plan_loop.simps, simp only: Let_def assms(3) [symmetric]) simp
qed

lemma remaining_less: "FRAME_ENCODED_OVERHEAD < r \<Longrightarrow> r - (FRAME_ENCODED_OVERHEAD + n) < r"
  by (simp add: FRAME_ENCODED_OVERHEAD_def)

lemma plan_loop_acc:
  "plan_loop cid m a t r acc = (let (a', t', r', ps) = plan_loop cid m a t r [] in (a', t', r', acc @ ps))"
proof (induction r arbitrary: a acc rule: less_induct)
  case (less r)
  show ?case
  proof (cases "0 < a \<and> FRAME_ENCODED_OVERHEAD < r")
    case True
    define n where "n = min a (min (r - FRAME_ENCODED_OVERHEAD) m)"
    note IH = less [OF remaining_less [OF conjunct2 [OF True], of n], of "a - n"]
    note go = plan_loop_go [OF conjunct1 [OF True] conjunct2 [OF True] n_def, of cid t]
    show ?thesis
      unfolding go [of acc] go [of "[]"]
      by (subst (1 2) IH) (simp add: case_prod_unfold Let_def)
  qed (simp add: plan_loop_stop)
qed

lemma plan_loop_step:
  assumes "0 < a" "FRAME_ENCODED_OVERHEAD < r" "n = min a (min (r - FRAME_ENCODED_OVERHEAD) m)"
  shows "plan_loop cid m a t r [] =
     (if n = a \<and> t then (0, False, r - (FRAME_ENCODED_OVERHEAD + n), [(cid, n, True)])
      else let (a', t', r', ps) = plan_loop cid m (a - n) t (r - (FRAME_ENCODED_OVERHEAD + n)) []
           in (a', t', r', (cid, n, False) # ps))"
  unfolding plan_loop_go [OF assms] by (subst plan_loop_acc) (simp add: case_prod_unfold Let_def)

lemma plan_loop_shape:
  "plan_loop cid m a t r [] = (a', t', r', plan) \<Longrightarrow>
     fst ` set plan \<subseteq> {cid} \<and> (a' = 0 \<or> r' \<le> FRAME_ENCODED_OVERHEAD) \<and> (t' \<longrightarrow> t) \<and> (t \<and> \<not> t' \<longrightarrow> a' = 0)"
proof (induction r arbitrary: a plan rule: less_induct)
  case (less r)
  show ?case
  proof (cases "0 < a \<and> FRAME_ENCODED_OVERHEAD < r")
    case True
    define n where "n = min a (min (r - FRAME_ENCODED_OVERHEAD) m)"
    note step = plan_loop_step [OF conjunct1 [OF True] conjunct2 [OF True] n_def, of cid t]
    show ?thesis
    proof (cases "n = a \<and> t")
      case False
      then have "(n = a \<and> t) = False"
        by blast
      with less(2) step obtain ps where "plan_loop cid m (a - n) t (r - (FRAME_ENCODED_OVERHEAD + n)) [] = (a', t', r', ps)"
          "plan = (cid, n, False) # ps"
        by (auto simp: Let_def split: prod.splits)
      with less(1) [OF remaining_less [OF conjunct2 [OF True]] this(1)] show ?thesis
        by simp
    qed (use less(2) step in auto)
  qed (use less(2) in \<open>auto simp: plan_loop_stop\<close>)
qed

lemma plan_loop_cuts:
  assumes "framed fs stream c" "\<not> framing_complete c" "0 < max_frame_data c"
    and "plan_loop (ch_id c) (max_frame_data c) (ch_available_output c) (ch_terminal_pending c) r [] = (a', t', r', plan)"
    and "length fs + length plan \<le> MAX_FRAMES"
  shows "\<exists>new c'. cut_channel (map snd plan) c = Some (new, c') \<and> cut_to new c c' \<and> length new = length plan
    \<and> ch_available_output c' = a' \<and> ch_terminal_pending c' = t' \<and> r' + sum_list (map encoded_len new) = r"
  using assms
proof (induction r arbitrary: c fs plan rule: less_induct)
  case (less r)
  show ?case
  proof (cases "0 < ch_available_output c \<and> FRAME_ENCODED_OVERHEAD < r")
    case False
    then show ?thesis
      using less(5) cut_to_refl [of c] by (auto simp: plan_loop_stop)
  next
    case True
    define n where "n = min (ch_available_output c) (min (r - FRAME_ENCODED_OVERHEAD) (max_frame_data c))"
    define fin where "fin \<longleftrightarrow> n = ch_available_output c \<and> ch_terminal_pending c"
    note step = plan_loop_step [OF conjunct1 [OF True] conjunct2 [OF True] n_def, of "ch_id c" "ch_terminal_pending c", folded fin_def]
    have n: "0 < n" "n \<le> ch_available_output c" "n \<le> max_frame_data c" "FRAME_ENCODED_OVERHEAD + n \<le> r"
      using True less(4) by (auto simp: n_def)
    have "length fs < MAX_FRAMES"
      using less(5,6) step by (auto simp: Let_def split: if_splits prod.splits)
    moreover have "fin \<Longrightarrow> \<not> ch_is_open c \<and> n = ch_available_output c"
      using less(2) by (auto simp: fin_def framed_def)
    ultimately obtain f c1 where f: "take_frame n fin c = Ok (f, c1)" "cut_to [f] c c1" "length (f_data f) = n"
        "ch_available_output c1 = ch_available_output c - n" "ch_terminal_pending c1 = (ch_terminal_pending c \<and> \<not> fin)"
      using take_frame_cut_to [OF less(2,3) _ n(2,3)] n(1) by blast
    note c1 = cut_to_fields [OF f(2)]
    have len: "encoded_len f = FRAME_ENCODED_OVERHEAD + n"
      by (simp add: encoded_len_def f(3))
    show ?thesis
    proof (cases fin)
      case True
      then show ?thesis
        using less(5) step f n len by (auto simp: fin_def)
    next
      case False
      let ?r = "r - (FRAME_ENCODED_OVERHEAD + n)"
      obtain plan' where plan: "plan = (ch_id c, n, False) # plan'"
        and rec: "plan_loop (ch_id c1) (max_frame_data c1) (ch_available_output c1) (ch_terminal_pending c1) ?r [] = (a', t', r', plan')"
        using less(5) step False f(4,5) c1 by (auto simp: Let_def split: prod.splits)
      have fr1: "framed (fs @ [f]) stream c1"
        using f(2) less(2) by (simp add: cut_to_def)
      have nc: "\<not> framing_complete c1" "0 < max_frame_data c1" "length (fs @ [f]) + length plan' \<le> MAX_FRAMES"
        using less(3,4,6) c1 False f(5) plan by (auto simp: framing_complete_iff)
      from less(1) [OF remaining_less [OF conjunct2 [OF True]] fr1 nc(1,2) rec nc(3)] obtain new c' where
          "cut_channel (map snd plan') c1 = Some (new, c')" "cut_to new c1 c'" "length new = length plan'"
          "ch_available_output c' = a'" "ch_terminal_pending c' = t'" "r' + sum_list (map encoded_len new) = ?r"
        by blast
      then show ?thesis
        using f False plan n(4) len cut_to_trans [OF f(2)] by (intro exI [of _ "f # new"] exI [of _ c']) fastforce
    qed
  qed
qed

lemma cut_channel_append:
  "cut_channel ps c = Some (new, c') \<Longrightarrow>
   cut_channel (ps @ qs) c = map_option (\<lambda>(fs, c''). (new @ fs, c'')) (cut_channel qs c')"
proof (induction ps arbitrary: c new)
  case (Cons p ps)
  obtain n l where p: "p = (n, l)"
    by fastforce
  then obtain f c1 new' where "take_frame n l c = Ok (f, c1)" "cut_channel ps c1 = Some (new', c')" "new = f # new'"
    using Cons(2) by (auto split: outcome.splits)
  with Cons(1) [OF this(2)] show ?case
    by (simp add: p option.map_comp comp_def case_prod_unfold)
qed (simp add: case_prod_unfold option.map_ident)

lemma plan_channel_acc:
  "plan_channel_frames c r acc = (let (cmp, r', ps) = plan_channel_frames c r [] in (cmp, r', acc @ ps))"
  unfolding plan_channel_frames_def by (subst plan_loop_acc) (simp add: case_prod_unfold Let_def)

lemma plan_channel_cuts:
  assumes "framed fs stream c" "\<not> framing_complete c" "0 < max_frame_data c"
    and plan: "plan_channel_frames c r [] = (cmp, r', plan)" "length fs + length plan \<le> MAX_FRAMES"
  shows "\<exists>new c'. cut_channel (map snd plan) c = Some (new, c') \<and> cut_to new c c' \<and> length new = length plan
    \<and> cmp = framing_complete c' \<and> r' + sum_list (map encoded_len new) = r"
proof -
  obtain a1 t1 r1 plan1 where loop: "plan_loop (ch_id c) (max_frame_data c) (ch_available_output c) (ch_terminal_pending c) r []
      = (a1, t1, r1, plan1)"
    by (metis prod_cases4)
  let ?extra = "a1 = 0 \<and> t1 \<and> FRAME_ENCODED_OVERHEAD \<le> r1"
  have eq: "plan = (if ?extra then plan1 @ [(ch_id c, 0, True)] else plan1)"
      "r' = (if ?extra then r1 - FRAME_ENCODED_OVERHEAD else r1)"
      "cmp \<longleftrightarrow> \<not> ch_is_open c \<and> a1 = 0 \<and> (t1 \<longrightarrow> ?extra)"
    using plan(1) loop by (auto simp: plan_channel_frames_def split: if_splits)
  have "length fs + length plan1 \<le> MAX_FRAMES"
    using plan(2) eq(1) by (auto split: if_splits)
  from plan_loop_cuts [OF assms(1-3) loop this] obtain new c1 where c1: "cut_channel (map snd plan1) c = Some (new, c1)"
      "cut_to new c c1" "length new = length plan1" "ch_available_output c1 = a1" "ch_terminal_pending c1 = t1"
      "r1 + sum_list (map encoded_len new) = r"
    by blast
  have fr1: "framed (fs @ new) stream c1"
    using c1(2) assms(1) by (simp add: cut_to_def)
  show ?thesis
  proof (cases ?extra)
    case False
    have "cmp = framing_complete c1"
      using eq(3) False c1(4,5) fr1 cut_to_fields(3) [OF c1(2)] by (auto simp: framing_complete_iff framed_def)
    with c1 eq False show ?thesis
      by auto
  next
    case True
    have "\<not> framing_complete c1" "length (fs @ new) < MAX_FRAMES"
      using True c1(3,5) plan(2) eq(1) by (auto simp: framing_complete_iff)
    moreover have "\<not> ch_is_open c1"
      using True c1(5) fr1 by (auto simp: framed_def)
    ultimately obtain f c2 where c2: "take_frame 0 True c1 = Ok (f, c2)" "cut_to [f] c1 c2" "length (f_data f) = 0"
        "ch_terminal_pending c2 = (ch_terminal_pending c1 \<and> \<not> True)"
      using take_frame_cut_to [OF fr1 _ _ le0 le0, of True] True c1(4) by fastforce
    have "cut_channel (map snd plan) c = Some (new @ [f], c2)"
      using cut_channel_append [OF c1(1), of "[(0, True)]"] c2(1) True eq(1) by simp
    moreover have "cmp" "framing_complete c2"
      using eq(3) True c2(4) \<open>\<not> ch_is_open c1\<close> cut_to_fields(3) [OF c1(2)] cut_to_fields(3) [OF c2(2)]
      by (auto simp: framing_complete_iff)
    ultimately show ?thesis
      using cut_to_trans [OF c1(2) c2(2)] c1(3,6) eq(1,2) True c2(3)
      by (intro exI [of _ "new @ [f]"] exI [of _ c2]) (simp add: encoded_len_def)
  qed
qed

lemma plan_channel_ids: "plan_channel_frames c r [] = (cmp, r', plan) \<Longrightarrow> fst ` set plan \<subseteq> {ch_id c}"
  using plan_loop_shape [of "ch_id c" "max_frame_data c" "ch_available_output c" "ch_terminal_pending c" r]
  by (fastforce simp: plan_channel_frames_def Let_def split: prod.splits if_splits)

section \<open>Carrying out a plan\<close>

lemma take_frame_id: "take_frame n l c = Ok (f, c') \<Longrightarrow> ch_id c' = ch_id c"
proof -
  assume "take_frame n l c = Ok (f, c')"
  then obtain data c1 where "take_output n c = Some (data, c1)" "ch_id c' = ch_id c1"
    by (cases "take_output n c") (auto simp: take_frame_def Let_def split: if_splits)
  then show "ch_id c' = ch_id c"
    by (auto simp: take_output_def)
qed

lemma push_new_Cons: "push_new (x # xs) acc = push_new xs (push_new [x] acc)"
  by (simp add: push_new_def)

lemma set_push_new [simp]: "set (push_new xs acc) = set acc \<union> set xs"
  unfolding push_new_def by (induction xs arbitrary: acc) auto

lemma cut_frame_at:
  "ch_id c \<notin> ch_id ` set pre \<Longrightarrow>
   cut_frame (ch_id c, n, l) (pre @ c # post) =
     (case take_frame n l c of Ok (f, c') \<Rightarrow> Ok (f, pre @ c' # post) | _ \<Rightarrow> Panic)"
  by (induction pre) (auto split: outcome.split)

lemma cut_frames_channel:
  assumes "ch_id c \<notin> ch_id ` set pre"
  shows "fst ` set plan \<subseteq> {ch_id c} \<Longrightarrow> cut_channel (map snd plan) c = Some (new, c') \<Longrightarrow>
    cut_frames (plan @ plan') fs ids (pre @ c # post) =
      cut_frames plan' (fs @ new) (push_new (map fst plan) ids) (pre @ c' # post)"
  using assms
proof (induction plan arbitrary: c fs ids new)
  case (Cons p plan)
  obtain n l where p: "p = (ch_id c, n, l)"
    using Cons(2) by (cases p) auto
  then obtain f c1 new' where f: "take_frame n l c = Ok (f, c1)" "cut_channel (map snd plan) c1 = Some (new', c')" "new = f # new'"
    using Cons(3) by (auto split: outcome.splits)
  note c1 = take_frame_id [OF f(1)]
  have "cut_frames ((p # plan) @ plan') fs ids (pre @ c # post)
      = cut_frames (plan @ plan') (fs @ [f]) (push_new [ch_id c] ids) (pre @ c1 # post)"
    using cut_frame_at [OF Cons(4), of n l post] f(1) by (simp add: p)
  also have "\<dots> = cut_frames plan' (fs @ new) (push_new (map fst (p # plan)) ids) (pre @ c' # post)"
    using Cons(1) [of c1 new' "fs @ [f]" "push_new [ch_id c] ids"] Cons(2,4) f(2,3) c1 push_new_Cons [of "ch_id c" "map fst plan" ids]
    by (simp add: p)
  finally show ?case .
qed (simp add: push_new_def)

lemma plan_channels_acc:
  "plan_channels l1 chs r acc due = (let (r', ps, due') = plan_channels l1 chs r [] due in (r', acc @ ps, due'))"
proof (induction chs arbitrary: r acc due)
  case (Cons c chs)
  obtain cmp r1 ps where p: "plan_channel_frames c r [] = (cmp, r1, ps)"
    by (metis prod_cases3)
  have acc: "plan_channel_frames c r acc = (cmp, r1, acc @ ps)"
    by (subst plan_channel_acc) (simp add: p)
  show ?case
    using Cons [of r acc due] Cons [of r1 "acc @ ps" "due \<or> ps \<noteq> [] \<and> \<not> ch_is_open c \<and> deadline_due l1 c"]
      Cons [of r1 ps "due \<or> ps \<noteq> [] \<and> \<not> ch_is_open c \<and> deadline_due l1 c"]
    by (simp add: acc p Let_def case_prod_unfold)
qed simp

lemma plan_channels_Cons:
  "plan_channels l1 (c # chs) r [] due =
     (if framing_complete c then plan_channels l1 chs r [] due
      else let (cmp, r1, ps) = plan_channel_frames c r [];
               due1 = (due \<or> ps \<noteq> [] \<and> \<not> ch_is_open c \<and> deadline_due l1 c)
           in if cmp then let (r2, qs, due2) = plan_channels l1 chs r1 [] due1 in (r2, ps @ qs, due2)
              else (r1, ps, due1))"
  by (simp add: Let_def case_prod_unfold) (subst plan_channels_acc, simp add: Let_def case_prod_unfold)

text \<open>The effect of a plan on the channels: each loses the frames with its id.\<close>

definition chans_cut :: "frame list \<Rightarrow> 'z enc_channel list \<Rightarrow> 'z enc_channel list \<Rightarrow> bool" where
  "chans_cut new = list_all2 (\<lambda>c c'. cut_to (filter (\<lambda>f. f_id f = ch_id c) new) c c')"

lemma filter_id_none: "x \<notin> f_id ` set new \<Longrightarrow> filter (\<lambda>f. f_id f = x) new = []"
  by (auto simp: filter_empty_conv)

lemma chans_cut_other: "f_id ` set new \<inter> ch_id ` set chs = {} \<Longrightarrow> chans_cut new chs chs"
proof -
  assume "f_id ` set new \<inter> ch_id ` set chs = {}"
  then have "filter (\<lambda>f. f_id f = ch_id c) new = []" if "c \<in> set chs" for c
    using that by (intro filter_id_none) blast
  then show ?thesis
    by (simp add: chans_cut_def list.rel_refl_strong cut_to_refl)
qed

lemma chans_cut_ids: "chans_cut new chs chs' \<Longrightarrow> map ch_id chs' = map ch_id chs"
  unfolding chans_cut_def by (induction rule: list_all2_induct) (auto simp: cut_to_fields(1))

lemma chans_cut_append_other:
  "chans_cut new chs chs' \<Longrightarrow> f_id ` set oth \<inter> ch_id ` set chs = {} \<Longrightarrow>
     chans_cut (oth @ new) chs chs' \<and> chans_cut (new @ oth) chs chs'"
  unfolding chans_cut_def
proof (induction rule: list_all2_induct)
  case (Cons c chs c' chs')
  then have "filter (\<lambda>f. f_id f = ch_id c) oth = []"
    by (intro filter_id_none) simp
  with Cons show ?case
    by auto
qed simp

definition room :: "planned list \<Rightarrow> 'z enc_channel \<Rightarrow> bool" where
  "room plan c \<longleftrightarrow> ch_next_frame_number c + length (filter (\<lambda>p. fst p = ch_id c) plan) \<le> MAX_FRAMES"

text \<open>Channels are framed in order: behind an unfinished channel no frame was cut.\<close>

definition fifo :: "'z enc_channel \<Rightarrow> 'z enc_channel \<Rightarrow> bool" where
  "fifo c d \<longleftrightarrow> framing_complete c \<or> ch_next_frame_number d = 0"

lemma fifo_head: "framing_complete c \<Longrightarrow> fifo c d" "\<not> framing_complete c \<Longrightarrow> fifo c d = (ch_next_frame_number d = 0)"
  "ch_next_frame_number d = 0 \<Longrightarrow> fifo c d"
  by (simp_all add: fifo_def)

definition framable :: "'z enc_channel \<Rightarrow> bool" where
  "framable c \<longleftrightarrow> (\<exists>fs stream. framed fs stream c) \<and> 0 < max_frame_data c"

lemma filter_fst_same: "fst ` set ps \<subseteq> {x} \<Longrightarrow> filter (\<lambda>p. fst p = x) ps = ps"
  by (induction ps) auto

lemma filter_fst_other: "fst ` set ps \<subseteq> X \<Longrightarrow> x \<notin> X \<Longrightarrow> filter (\<lambda>p. fst p = x) ps = []"
  by (auto simp: filter_empty_conv)

lemma plan_channels_ids: "plan_channels l1 chs r [] due = (r', plan, due') \<Longrightarrow> fst ` set plan \<subseteq> ch_id ` set chs"
proof (induction chs arbitrary: r plan due)
  case (Cons c chs)
  obtain cmp r1 ps where p: "plan_channel_frames c r [] = (cmp, r1, ps)"
    by (metis prod_cases3)
  note plan = Cons(2) [unfolded plan_channels_Cons p]
  show ?case
  proof (cases "framing_complete c")
    case True
    then have "plan_channels l1 chs r [] due = (r', plan, due')"
      using plan by simp
    from Cons(1) [OF this] show ?thesis
      by simp blast
  next
    case False
    then obtain qs where "plan = ps @ qs" "qs = [] \<or> (\<exists>due1. plan_channels l1 chs r1 [] due1 = (r', qs, due'))"
      using plan by (cases cmp) (auto simp: Let_def split: prod.splits)
    moreover have "fst ` set qs \<subseteq> ch_id ` set chs"
      using calculation(2)
    proof
      assume "\<exists>due1. plan_channels l1 chs r1 [] due1 = (r', qs, due')"
      then show ?thesis
        using Cons(1) by blast
    qed simp
    ultimately show ?thesis
      using plan_channel_ids [OF p] by (simp add: image_Un) blast
  qed
qed simp

lemma one_channel_cuts:
  assumes "framable c" "\<not> framing_complete c" "room ps c" "plan_channel_frames c r [] = (cmp, r1, ps)"
    and "ch_id c \<notin> ch_id ` set pre"
  shows "\<exists>new c'. cut_to new c c' \<and> map f_id new = map fst ps \<and> filter (\<lambda>f. f_id f = ch_id c) new = new
    \<and> cmp = framing_complete c' \<and> r1 + sum_list (map encoded_len new) = r
    \<and> (\<forall>qs fs ids post. cut_frames (ps @ qs) fs ids (pre @ c # post)
          = cut_frames qs (fs @ new) (push_new (map fst ps) ids) (pre @ c' # post))"
proof -
  obtain fs stream where fs: "framed fs stream c" "0 < max_frame_data c"
    using assms(1) by (auto simp: framable_def)
  note ids = plan_channel_ids [OF assms(4)]
  have "length fs + length ps \<le> MAX_FRAMES"
    using assms(3) fs(1) by (simp add: room_def framed_def filter_fst_same [OF ids])
  from plan_channel_cuts [OF fs(1) assms(2) fs(2) assms(4) this] obtain new c' where
      new: "cut_channel (map snd ps) c = Some (new, c')" "cut_to new c c'" "length new = length ps"
        "cmp = framing_complete c'" "r1 + sum_list (map encoded_len new) = r"
    by blast
  have fids: "f_id f = ch_id c" if "f \<in> set new" for f
    using new(2) that by (simp add: cut_to_def)
  have "map f_id new = map fst ps"
    using new(3) fids ids by (intro nth_equalityI) (auto simp: image_subset_iff)
  then show ?thesis
    using new fids cut_frames_channel [OF assms(5) ids new(1)] by (intro exI [of _ new] exI [of _ c']) (simp add: filter_id_conv)
qed

lemma subset_singleton_disjoint: "A \<subseteq> {x} \<Longrightarrow> x \<notin> B \<Longrightarrow> A \<inter> B = {}"
  by blast

lemma ids_of_map: "map f_id new = map fst plan \<Longrightarrow> f_id ` set new = fst ` set plan"
  by (metis list.set_map)

text \<open>The plan starts with the frames of the first unfinished channel.\<close>

lemma plan_channels_head:
  assumes "plan_channels l1 (c # chs) r [] due = (r', plan, due')" "\<not> framing_complete c" "plan_channel_frames c r [] = (cmp, r1, ps)"
  obtains qs where "plan = ps @ qs" "fst ` set qs \<subseteq> ch_id ` set chs"
    "if cmp then \<exists>due1. plan_channels l1 chs r1 [] due1 = (r', qs, due') else r' = r1 \<and> qs = []"
proof -
  obtain qs where qs: "plan = ps @ qs"
      "if cmp then \<exists>due1. plan_channels l1 chs r1 [] due1 = (r', qs, due') else r' = r1 \<and> qs = []"
    using assms unfolding plan_channels_Cons by (cases cmp) (auto simp: Let_def split: prod.splits)
  moreover from this(2) have "fst ` set qs \<subseteq> ch_id ` set chs"
  proof (cases cmp)
    case True
    with qs(2) obtain due1 where "plan_channels l1 chs r1 [] due1 = (r', qs, due')"
      by auto
    then show ?thesis
      by (rule plan_channels_ids)
  qed simp
  ultimately show thesis
    using that by blast
qed

lemma chans_cut_Cons:
  assumes "cut_to new c c'" "filter (\<lambda>f. f_id f = ch_id c) new = new" "f_id ` set new \<inter> ch_id ` set chs = {}"
    and "chans_cut new2 chs chs'" "f_id ` set new2 \<subseteq> ch_id ` set chs" "ch_id c \<notin> ch_id ` set chs"
  shows "chans_cut (new @ new2) (c # chs) (c' # chs')"
proof -
  have "filter (\<lambda>f. f_id f = ch_id c) new2 = []"
    using assms(5,6) by (intro filter_id_none) blast
  then show ?thesis
    using chans_cut_append_other [OF assms(4,3)] assms(1,2) by (simp add: chans_cut_def)
qed

lemma plan_channels_cuts:
  assumes "plan_channels l1 chs r [] due = (r', plan, due')" "distinct (map ch_id (pre @ chs))"
    and "\<forall>c \<in> set chs. framable c \<and> room plan c"
  shows "\<exists>new chs'. chans_cut new chs chs' \<and> map f_id new = map fst plan \<and> r' + sum_list (map encoded_len new) = r
    \<and> cut_frames plan fs ids (pre @ chs) = Ok (fs @ new, push_new (map fst plan) ids, pre @ chs')
    \<and> (sorted_wrt fifo chs \<longrightarrow> sorted_wrt fifo chs')"
  using assms
proof (induction chs arbitrary: pre r plan due fs ids)
  case (Cons c chs)
  note plan = Cons(2) [unfolded plan_channels_Cons]
  show ?case
  proof (cases "framing_complete c")
    case True
    then have rec: "plan_channels l1 chs r [] due = (r', plan, due')"
      using plan by simp
    from Cons(1) [OF rec, of "pre @ [c]" fs ids] Cons(3,4) obtain new chs' where
        new: "chans_cut new chs chs'" "map f_id new = map fst plan" "r' + sum_list (map encoded_len new) = r"
          "cut_frames plan fs ids (pre @ c # chs) = Ok (fs @ new, push_new (map fst plan) ids, pre @ c # chs')"
          "sorted_wrt fifo chs \<longrightarrow> sorted_wrt fifo chs'"
      by auto
    have "f_id ` set new \<inter> ch_id ` set [c] = {}"
      using plan_channels_ids [OF rec] ids_of_map [OF new(2)] Cons(3) by auto
    from chans_cut_other [OF this] new show ?thesis
      by (intro exI [of _ new] exI [of _ "c # chs'"]) (simp add: chans_cut_def fifo_head True)
  next
    case False
    obtain cmp r1 ps where p: "plan_channel_frames c r [] = (cmp, r1, ps)"
      by (metis prod_cases3)
    note ids = plan_channel_ids [OF p]
    have nid: "ch_id c \<notin> ch_id ` set pre" "ch_id c \<notin> ch_id ` set chs"
      using Cons(3) by auto
    obtain qs where qs: "plan = ps @ qs" "fst ` set qs \<subseteq> ch_id ` set chs"
        "if cmp then \<exists>due1. plan_channels l1 chs r1 [] due1 = (r', qs, due') else r' = r1 \<and> qs = []"
      using plan_channels_head [OF Cons(2) False p] .
    have roomy: "room ps c" "\<forall>c \<in> set chs. framable c \<and> room qs c"
      using Cons(4) by (auto simp: room_def qs(1))
    obtain new c' where new: "cut_to new c c'" "map f_id new = map fst ps" "filter (\<lambda>f. f_id f = ch_id c) new = new"
        "r1 + sum_list (map encoded_len new) = r" "cmp = framing_complete c'" "\<And>qs fs ids post. cut_frames (ps @ qs) fs ids (pre @ c # post)
          = cut_frames qs (fs @ new) (push_new (map fst ps) ids) (pre @ c' # post)"
      using one_channel_cuts [OF _ False roomy(1) p nid(1)] Cons(4) by auto
    have "f_id ` set new \<subseteq> {ch_id c}"
      using ids unfolding ids_of_map [OF new(2)] .
    note joined = chans_cut_Cons [OF new(1,3) subset_singleton_disjoint [OF this nid(2)] _ _ nid(2)]
    show ?thesis
    proof (cases cmp)
      case False
      then have "plan = ps" "r' = r1"
        using qs by simp_all
      then show ?thesis
        using joined [of "[]" chs] new(2,4) new(6) [of "[]" fs ids chs] \<open>\<not> framing_complete c\<close> chans_cut_other [of "[]" chs]
        by (intro exI [of _ new] exI [of _ "c' # chs"]) (simp add: fifo_head)
    next
      case True
      then obtain due1 where rec: "plan_channels l1 chs r1 [] due1 = (r', qs, due')"
        using qs(3) by auto
      have "distinct (map ch_id ((pre @ [c']) @ chs))"
        using Cons(3) cut_to_fields(1) [OF new(1)] by auto
      from Cons(1) [OF rec this roomy(2), of "fs @ new" "push_new (map fst ps) ids"] obtain new2 chs' where
          new2: "chans_cut new2 chs chs'" "map f_id new2 = map fst qs" "r' + sum_list (map encoded_len new2) = r1"
            "cut_frames qs (fs @ new) (push_new (map fst ps) ids) (pre @ c' # chs)
               = Ok (fs @ new @ new2, push_new (map fst qs) (push_new (map fst ps) ids), pre @ c' # chs')"
            "sorted_wrt fifo chs \<longrightarrow> sorted_wrt fifo chs'"
        by auto
      have "cut_frames plan fs ids (pre @ c # chs) = Ok (fs @ new @ new2, push_new (map fst plan) ids, pre @ c' # chs')"
        using new(6) [of qs fs ids chs] new2(4) qs(1) by (simp add: push_new_def)
      then show ?thesis
        using joined [OF new2(1)] ids_of_map [OF new2(2)] qs(1,2) new(2,4,5) new2(2,3,5) True
        by (intro exI [of _ "new @ new2"] exI [of _ "c' # chs'"]) (simp add: fifo_head)
    qed
  qed
qed (simp add: chans_cut_def push_new_def)

section \<open>Committing a plan\<close>

text \<open>The ledger after a new artifact with the given frames.\<close>

text \<open>The frames a plan cuts are the planned ones.\<close>

definition planned_of :: "frame \<Rightarrow> planned" where
  "planned_of f = (f_id f, length (f_data f), f_is_last f)"

lemma take_chunks_length: "take_chunks n chunks out = Some (d, rest) \<Longrightarrow> length d = length out + n"
proof (induction n chunks out rule: take_chunks.induct)
  case (1 n chunks out)
  show ?case
  proof (cases "n = 0 \<or> chunks = []")
    case True
    then show ?thesis
      using 1(2) by (auto simp: take_chunks.simps [of n] split: if_splits)
  next
    case False
    then obtain chunk rest' where chunks: "chunks = chunk # rest'" and "n \<noteq> 0"
      by (cases chunks) auto
    then have "take_chunks (n - min n (length chunk)) (if min n (length chunk) < length chunk
        then drop (min n (length chunk)) chunk # rest' else rest') (out @ take (min n (length chunk)) chunk) = Some (d, rest)"
      using 1(2) by (simp add: take_chunks.simps [of n] Let_def)
    from 1(1) [OF \<open>n \<noteq> 0\<close> chunks refl this] show ?thesis
      by simp
  qed
qed

lemma take_frame_planned: "take_frame n l c = Ok (f, c') \<Longrightarrow> planned_of f = (ch_id c, n, l)"
proof -
  assume tf: "take_frame n l c = Ok (f, c')"
  then obtain data c1 where out: "take_output n c = Some (data, c1)"
    by (cases "take_output n c") (auto simp: take_frame_def Let_def split: if_splits)
  then have "length data = n" "ch_id c1 = ch_id c"
    by (auto simp: take_output_def dest: take_chunks_length)
  then show ?thesis
    using tf out by (auto simp: take_frame_def planned_of_def Let_def split: if_splits)
qed

lemma cut_frame_planned: "cut_frame p chs = Ok (f, chs') \<Longrightarrow> planned_of f = p"
  by (induction p chs arbitrary: chs' rule: cut_frame.induct)
    (auto simp: obind_eq_Ok dest: take_frame_planned split: if_splits outcome.splits)

lemma cut_frames_planned:
  "cut_frames plan fs ids chs = Ok (fs', ids', chs') \<Longrightarrow> \<exists>new. fs' = fs @ new \<and> map planned_of new = plan"
proof (induction plan arbitrary: fs ids chs)
  case (Cons p plan)
  then obtain f chs1 where f: "cut_frame p chs = Ok (f, chs1)" "cut_frames plan (fs @ [f]) (push_new [fst p] ids) chs1 = Ok (fs', ids', chs')"
    by (auto simp: obind_eq_Ok)
  from Cons(1) [OF this(2)] cut_frame_planned [OF f(1)] show ?case
    by auto
qed simp

definition with_artifact :: "da_artifact_payload \<Rightarrow> bytes list \<Rightarrow> da_egress \<Rightarrow> da_egress" where
  "with_artifact pl ids eg = eg\<lparr>eg_artifacts := snd (das_push pl ids (eg_artifacts eg))\<rparr>"

lemma commit_blob_ok:
  assumes "plan_blob chs l1 = Some plan" "distinct (map ch_id chs)" "\<forall>c \<in> set chs. framable c \<and> room plan c"
  shows "\<exists>new chs'. commit_blob plan chs eg = Ok (chs', with_artifact (ArBlob \<lparr>bp_frames = new\<rparr>) (push_new (map f_id new) []) eg)
    \<and> chans_cut new chs chs' \<and> new \<noteq> [] \<and> map planned_of new = plan \<and> sum_list (map encoded_len new) \<le> BLOB_CAPACITY
    \<and> (sorted_wrt fifo chs \<longrightarrow> sorted_wrt fifo chs')"
proof -
  obtain r due where plan: "plan_channels l1 chs BLOB_CAPACITY [] False = (r, plan, due)" "plan \<noteq> []"
    using assms(1) by (auto simp: plan_blob_def Let_def split: prod.splits if_splits)
  obtain new chs' where new: "chans_cut new chs chs'" "map f_id new = map fst plan" "r + sum_list (map encoded_len new) = BLOB_CAPACITY"
      "cut_frames plan [] [] chs = Ok (new, push_new (map fst plan) [], chs')" "sorted_wrt fifo chs \<longrightarrow> sorted_wrt fifo chs'"
    using plan_channels_cuts [OF plan(1), of "[]" "[]" "[]"] assms(2,3) by auto
  have planned: "map planned_of new = plan"
    using cut_frames_planned [OF new(4)] by simp
  have "new \<noteq> []"
    using new(2) plan(2) by auto
  with new planned show ?thesis
    by (intro exI [of _ new] exI [of _ chs']) (simp add: commit_blob_def with_artifact_def)
qed

lemma plan_calldata_at:
  assumes "plan_calldata chs = Some p"
  obtains pre c post n l where "chs = pre @ c # post" "\<forall>x \<in> set pre. framing_complete x" "\<not> framing_complete c"
    "p = (ch_id c, n, l)" "n \<le> ch_available_output c" "n \<le> max_frame_data c" "n = max_frame_data c \<or> l"
    "l \<longrightarrow> n = ch_available_output c \<and> ch_terminal_pending c"
proof -
  have "\<exists>pre c post n l. chs = pre @ c # post \<and> (\<forall>x \<in> set pre. framing_complete x) \<and> \<not> framing_complete c
    \<and> p = (ch_id c, n, l) \<and> n \<le> ch_available_output c \<and> n \<le> max_frame_data c \<and> (n = max_frame_data c \<or> l)
    \<and> (l \<longrightarrow> n = ch_available_output c \<and> ch_terminal_pending c)"
    using assms
  proof (induction chs)
    case (Cons c chs)
    show ?case
    proof (cases "framing_complete c")
      case True
      with Cons obtain pre c' post n l where "chs = pre @ c' # post" "\<forall>x \<in> set pre. framing_complete x" "\<not> framing_complete c'"
          "p = (ch_id c', n, l)" "n \<le> ch_available_output c'" "n \<le> max_frame_data c'" "n = max_frame_data c' \<or> l"
          "l \<longrightarrow> n = ch_available_output c' \<and> ch_terminal_pending c'"
        by auto
      then show ?thesis
        using True by (intro exI [of _ "c # pre"] exI [of _ c'] exI [of _ post] exI [of _ n] exI [of _ l]) simp
    next
      case False
      with Cons(2) show ?thesis
        by (intro exI [of _ "[]"] exI [of _ c] exI [of _ chs]) (auto simp: Let_def split: if_splits)
    qed
  qed simp
  with that show thesis
    by blast
qed

lemma commit_calldata_ok:
  assumes "plan_calldata chs = Some p" "distinct (map ch_id chs)" "\<forall>c \<in> set chs. framable c \<and> room [p] c"
  shows "\<exists>f chs'. commit_calldata p chs eg = Ok (chs', with_artifact (ArCalldata f) [f_id f] eg) \<and> chans_cut [f] chs chs'
    \<and> planned_of f = p \<and> (sorted_wrt fifo chs \<longrightarrow> sorted_wrt fifo chs')"
proof -
  obtain pre c post n l where at: "chs = pre @ c # post" "\<not> framing_complete c" "p = (ch_id c, n, l)"
      "n \<le> ch_available_output c" "n \<le> max_frame_data c" "n = max_frame_data c \<or> l"
      "l \<longrightarrow> n = ch_available_output c \<and> ch_terminal_pending c" "\<forall>x \<in> set pre. framing_complete x"
    using plan_calldata_at [OF assms(1)] by metis
  obtain fs stream where fs: "framed fs stream c" "0 < max_frame_data c"
    using assms(3) at(1) by (auto simp: framable_def)
  have "length fs < MAX_FRAMES"
    using assms(3) at(1,3) fs(1) by (auto simp: room_def framed_def)
  moreover have "l \<Longrightarrow> \<not> ch_is_open c \<and> n = ch_available_output c"
    using at(7) fs(1) by (auto simp: framed_def)
  moreover have "0 < n \<or> l"
    using at(6) fs(2) by auto
  ultimately obtain f c' where f: "take_frame n l c = Ok (f, c')" "cut_to [f] c c'" "length (f_data f) = n"
    using take_frame_cut_to [OF fs(1) at(2) _ at(4,5), of l] by blast
  have id: "f_id f = ch_id c"
    using f(2) by (simp add: cut_to_def)
  have "ch_id c \<notin> ch_id ` set pre" "ch_id c \<notin> ch_id ` set post"
    using assms(2) at(1) by auto
  then have "cut_frame p chs = Ok (f, pre @ c' # post)" "chans_cut [f] chs (pre @ c' # post)"
    using cut_frame_at [of c pre n l post] f(1,2) id chans_cut_other [of "[f]" pre] chans_cut_other [of "[f]" post]
    by (simp_all add: at(1,3) chans_cut_def list_all2_appendI)
  moreover have "sorted_wrt fifo (pre @ c' # post)" if "sorted_wrt fifo chs"
    using that at(2,8) by (auto simp: at(1) sorted_wrt_append fifo_def)
  ultimately show ?thesis
    using take_frame_planned [OF f(1)] at(3) id
    by (intro exI [of _ f] exI [of _ "pre @ c' # post"]) (simp add: commit_calldata_def with_artifact_def)
qed

section \<open>Leases\<close>

lemma find_index_Some:
  "find_index P xs = Some i \<Longrightarrow> i < length xs \<and> P (xs ! i) \<and> (\<forall>j < i. \<not> P (xs ! j))"
proof (induction xs arbitrary: i)
  case (Cons x xs)
  then show ?case
    by (cases i) (auto simp: less_Suc_eq_0_disj split: if_splits)
qed simp

lemma find_index_None: "find_index P xs = None \<longleftrightarrow> \<not> list_ex P xs"
  by (induction xs) auto

lemma lease_fold:
  "set is \<subseteq> {..<length as} \<Longrightarrow>
   fold lease_one is as = map (\<lambda>i. if i \<in> set is then (as ! i)\<lparr>ar_state := Pending\<rparr> else as ! i) [0..<length as]"
proof (induction "is" arbitrary: as)
  case Nil
  then show ?case
    by (simp add: map_nth)
next
  case (Cons i "is")
  then show ?case
    by (auto simp: lease_one_def nth_list_update intro!: map_cong)
qed

text \<open>A lease marks ready artifacts and hands out their frames in order.\<close>

definition leases :: "u64 list \<Rightarrow> da_artifacts \<Rightarrow> da_artifacts \<Rightarrow> bool" where
  "leases ids L L' \<longleftrightarrow>
     L' = L\<lparr>das_artifacts := map (\<lambda>a. if ar_id a \<in> set ids then a\<lparr>ar_state := Pending\<rparr> else a) (das_artifacts L)\<rparr>
     \<and> ids \<noteq> [] \<and> distinct ids \<and> set ids \<subseteq> ar_id ` {a \<in> set (das_artifacts L). ar_state a = Ready}"

definition submission_payloads :: "batch_submission \<Rightarrow> da_artifact_payload list" where
  "submission_payloads s = (case bsub_payload s of PayloadBlobs bs \<Rightarrow> map ArBlob bs | PayloadCalldata f \<Rightarrow> [ArCalldata f])"

lemma lease_indexes:
  assumes "distinct (map ar_id as)" "set is \<subseteq> {..<length as}" "distinct is" "is \<noteq> []" "\<forall>i \<in> set is. ar_state (as ! i) = Ready"
    and "das_artifacts L = as"
  shows "leases (map (\<lambda>i. ar_id (as ! i)) is) L (L\<lparr>das_artifacts := fold lease_one is as\<rparr>)"
proof -
  have inj: "ar_id (as ! i) = ar_id (as ! j) \<longleftrightarrow> i = j" if "i < length as" "j < length as" for i j
    using assms(1) that by (metis distinct_conv_nth length_map nth_map)
  have "fold lease_one is as = map (\<lambda>a. if ar_id a \<in> (\<lambda>i. ar_id (as ! i)) ` set is then a\<lparr>ar_state := Pending\<rparr> else a) as"
    unfolding lease_fold [OF assms(2)] using assms(2) inj by (intro nth_equalityI) (auto simp: subset_iff)
  moreover have "distinct (map (\<lambda>i. ar_id (as ! i)) is)"
    using assms(2,3) inj by (auto simp: distinct_map inj_on_def subset_iff)
  ultimately show ?thesis
    using assms by (auto simp: leases_def)
qed

definition lease_of :: "u64 \<Rightarrow> nat \<Rightarrow> batch_submission \<Rightarrow> u64 list \<Rightarrow> da_artifacts \<Rightarrow> da_artifacts \<Rightarrow> bool" where
  "lease_of sid max_blobs sub ids L L' \<longleftrightarrow>
     leases ids L L' \<and> bsub_id sub = sid \<and> submission_blob_count sub \<le> max_blobs
     \<and> (\<exists>as. map ar_id as = ids \<and> set as \<subseteq> set (das_artifacts L)
          \<and> submission_payloads sub = map ar_payload as)"

lemma lease_blobs_ok:
  assumes "distinct (map ar_id (das_artifacts L))" "0 < max_blobs" "k < length (das_artifacts L)"
    and "ar_state (das_artifacts L ! k) = Ready" "payload_is_blob (ar_payload (das_artifacts L ! k))"
  shows "\<exists>sub ids L'. lease_blobs k max_blobs sid L = Ok ((sub, ids), L') \<and> lease_of sid max_blobs sub ids L L'"
proof -
  let ?as = "das_artifacts L"
  let ?blob = "\<lambda>i. payload_is_blob (ar_payload (?as ! i))"
  define rd where "rd = filter (\<lambda>i. ar_state (?as ! i) = Ready) [k..<length ?as]"
  define idx where "idx = take max_blobs (takeWhile ?blob rd)"
  have "rd \<noteq> []" "hd rd = k"
    using assms(3,4) by (simp_all add: rd_def upt_conv_Cons)
  then have ne: "idx \<noteq> []"
    using assms(2,5) by (cases rd) (auto simp: idx_def)
  have sub: "set idx \<subseteq> set rd" "\<forall>i \<in> set idx. ?blob i"
    using set_take_subset set_takeWhileD unfolding idx_def by fast+
  have "set rd \<subseteq> {..<length ?as}" "\<forall>i \<in> set rd. ar_state (?as ! i) = Ready" "distinct rd"
    by (auto simp: rd_def)
  then have idx: "set idx \<subseteq> {..<length ?as}" "\<forall>i \<in> set idx. ar_state (?as ! i) = Ready" "distinct idx"
    using sub(1) by (auto simp: idx_def distinct_takeWhile)
  let ?sub = "\<lparr>bsub_id = sid, bsub_payload = PayloadBlobs (map (\<lambda>i. case ar_payload (?as ! i) of ArBlob b \<Rightarrow> b) idx)\<rparr>"
  have frames: "submission_payloads ?sub = map ar_payload (map ((!) ?as) idx)"
  proof -
    have "ArBlob (case ar_payload (?as ! i) of ArBlob b \<Rightarrow> b) = ar_payload (?as ! i)" if "i \<in> set idx" for i
      using sub(2) that by (cases "ar_payload (?as ! i)") auto
    then show ?thesis
      by (simp add: submission_payloads_def)
  qed
  have "submission_blob_count ?sub \<le> max_blobs"
    by (simp add: submission_blob_count_def idx_def)
  moreover have "map ar_id (map ((!) ?as) idx) = map (\<lambda>i. ar_id (?as ! i)) idx" "set (map ((!) ?as) idx) \<subseteq> set ?as"
    using idx(1) by auto
  ultimately have "lease_of sid max_blobs ?sub (map (\<lambda>i. ar_id (?as ! i)) idx) L (L\<lparr>das_artifacts := fold lease_one idx ?as\<rparr>)"
    unfolding lease_of_def using lease_indexes [OF assms(1) idx(1,3) ne idx(2) refl] frames
    by (intro conjI exI [of _ "map ((!) ?as) idx"]) simp_all
  then show ?thesis
    using sub(2) by (simp add: lease_blobs_def Let_def list_all_iff flip: rd_def idx_def)
qed

lemma das_lease_ok:
  assumes "distinct (map ar_id (das_artifacts L))" "0 < max_blobs"
  shows "if has_ready L
    then \<exists>sub ids L'. das_lease sid max_blobs L = Ok (Some (sub, ids), L') \<and> lease_of sid max_blobs sub ids L L'
    else das_lease sid max_blobs L = Ok (None, L)"
proof (cases "find_index (\<lambda>a. ar_state a = Ready) (das_artifacts L)")
  case None
  then show ?thesis
    using find_index_None [of "\<lambda>a. ar_state a = Ready" "das_artifacts L"] by (simp add: das_lease_def has_ready_def)
next
  case (Some k)
  note k = find_index_Some [OF Some]
  have "has_ready L"
    using Some find_index_None [of "\<lambda>a. ar_state a = Ready" "das_artifacts L"] by (auto simp: has_ready_def)
  moreover have "\<exists>sub ids L'. das_lease sid max_blobs L = Ok (Some (sub, ids), L') \<and> lease_of sid max_blobs sub ids L L'"
  proof (cases "ar_payload (das_artifacts L ! k)")
    case (ArBlob b)
    with lease_blobs_ok [OF assms, of k sid] k Some show ?thesis
      by (auto simp: das_lease_def)
  next
    case (ArCalldata f)
    have "leases [ar_id (das_artifacts L ! k)] L (L\<lparr>das_artifacts := lease_one k (das_artifacts L)\<rparr>)"
      using lease_indexes [OF assms(1), of "[k]" L] k by simp
    then show ?thesis
      using ArCalldata Some k assms(2)
      by (auto simp: das_lease_def lease_calldata_def lease_of_def submission_payloads_def submission_blob_count_def
          intro!: exI [of _ "[das_artifacts L ! k]"])
  qed
  ultimately show ?thesis
    by simp
qed

section \<open>The ledger and the submissions in flight\<close>

definition leased_ids :: "da_artifacts \<Rightarrow> u64 set" where
  "leased_ids L = ar_id ` set (filter (\<lambda>a. ar_state a = Pending) (das_artifacts L))"

text \<open>Artifact ids are distinct and below the counter, and the leased artifacts are exactly those of the submissions in
  flight, each of one submission.\<close>

definition ids_ok :: "da_artifacts \<Rightarrow> bool" where
  "ids_ok L \<longleftrightarrow> distinct (map ar_id (das_artifacts L)) \<and> (\<forall>i \<in> set (map ar_id (das_artifacts L)). i < das_next_id L)"

definition flight_ok :: "(u64 \<times> u64 list) list \<Rightarrow> u64 set \<Rightarrow> bool" where
  "flight_ok pending leased \<longleftrightarrow>
     distinct (map fst pending) \<and> distinct (concat (map snd pending)) \<and> [] \<notin> snd ` set pending
     \<and> set (concat (map snd pending)) = leased"

definition ledger_ok :: "da_egress \<Rightarrow> bool" where
  "ledger_ok eg \<longleftrightarrow> ids_ok (eg_artifacts eg) \<and> flight_ok (eg_pending eg) (leased_ids (eg_artifacts eg))"

definition mark :: "artifact_state \<Rightarrow> u64 list \<Rightarrow> da_artifacts \<Rightarrow> da_artifacts" where
  "mark st ids L = L\<lparr>das_artifacts := map (\<lambda>a. if ar_id a \<in> set ids then a\<lparr>ar_state := st\<rparr> else a) (das_artifacts L)\<rparr>"

lemma mark_ids [simp]: "map ar_id (das_artifacts (mark st ids L)) = map ar_id (das_artifacts L)"
  "das_next_id (mark st ids L) = das_next_id L"
  by (simp_all add: mark_def)

lemma ids_ok_mark [simp]: "ids_ok (mark st ids L) = ids_ok L"
  unfolding ids_ok_def mark_ids ..

lemma leased_mark:
  "leased_ids (mark st ids L) =
     (if st = Pending then leased_ids L \<union> set ids \<inter> ar_id ` set (das_artifacts L) else leased_ids L - set ids)"
proof -
  have eq: "map ar_id (filter (\<lambda>a. ar_state a = Pending) (map (\<lambda>a. if ar_id a \<in> set ids then a\<lparr>ar_state := st\<rparr> else a) as))
      = map ar_id (filter (\<lambda>a. (if ar_id a \<in> set ids then st else ar_state a) = Pending) as)" for as
    by (induction as) auto
  have arts: "das_artifacts (mark st ids L) = map (\<lambda>a. if ar_id a \<in> set ids then a\<lparr>ar_state := st\<rparr> else a) (das_artifacts L)"
    by (simp add: mark_def)
  have "leased_ids (mark st ids L)
      = ar_id ` set (filter (\<lambda>a. (if ar_id a \<in> set ids then st else ar_state a) = Pending) (das_artifacts L))"
    unfolding leased_ids_def arts list.set_map [symmetric] eq ..
  then show ?thesis
    by (cases "st = Pending") (auto simp: leased_ids_def)
qed

lemma less_next: "x \<noteq> - 1 \<Longrightarrow> x < x + 1" for x :: u64
  by (metis add.commute eq_neg_iff_add_eq_0 lessI unatSuc word_less_nat_alt)

lemma ledger_ok_with_artifact:
  assumes "ledger_ok eg" "das_next_id (eg_artifacts eg) \<noteq> - 1"
  shows "ledger_ok (with_artifact pl ids eg)"
  using assms(1) less_next [OF assms(2)]
  by (auto simp: ledger_ok_def ids_ok_def with_artifact_def das_push_def leased_ids_def intro: order.strict_trans)

lemma update_new: "k \<notin> fst ` set al \<Longrightarrow> AList.update k v al = al @ [(k, v)]"
  by (induction al) auto

lemma ready_not_leased:
  assumes "ids_ok L" "i \<in> ar_id ` {a \<in> set (das_artifacts L). ar_state a = Ready}"
  shows "i \<notin> leased_ids L"
proof
  assume "i \<in> leased_ids L"
  with assms(2) obtain a b where "a \<in> set (das_artifacts L)" "b \<in> set (das_artifacts L)" "ar_id a = ar_id b"
      "ar_state a = Ready" "ar_state b = Pending"
    by (auto simp: leased_ids_def)
  with assms(1) show False
    by (auto simp: ids_ok_def distinct_map inj_on_def)
qed

lemma ledger_ok_lease:
  assumes "ledger_ok eg" "leases ids (eg_artifacts eg) L'" "sid \<notin> fst ` set (eg_pending eg)"
  shows "ledger_ok (eg\<lparr>eg_artifacts := L', eg_pending := AList.update sid ids (eg_pending eg)\<rparr>)"
proof -
  let ?L = "eg_artifacts eg"
  have L': "L' = mark Pending ids ?L" and ids: "ids \<noteq> []" "distinct ids"
      "set ids \<subseteq> ar_id ` {a \<in> set (das_artifacts ?L). ar_state a = Ready}"
    using assms(2) by (simp_all add: leases_def mark_def)
  have ok: "ids_ok ?L" "flight_ok (eg_pending eg) (leased_ids ?L)"
    using assms(1) by (simp_all add: ledger_ok_def)
  have "set ids \<inter> leased_ids ?L = {}"
    using ids(3) ready_not_leased [OF ok(1)] by blast
  moreover have "leased_ids L' = leased_ids ?L \<union> set ids"
    using ids(3) unfolding L' leased_mark by auto
  ultimately have "flight_ok (eg_pending eg @ [(sid, ids)]) (leased_ids L')"
    using ok(2) ids(1,2) assms(3) by (auto simp: flight_ok_def)
  then show ?thesis
    using ok(1) by (simp add: ledger_ok_def update_new [OF assms(3)] L')
qed

text \<open>A submission in flight can always be settled, once.\<close>

lemma flight_split:
  assumes "flight_ok pending leased" "map_of pending sid = Some ids"
  shows "set ids \<subseteq> leased" "flight_ok (AList.delete sid pending) (leased - set ids)"
proof -
  have "(sid, ids) \<in> set pending"
    using assms(2) by (rule map_of_SomeD)
  then obtain p1 p2 where p: "pending = p1 @ (sid, ids) # p2"
    by (metis split_list)
  have ok: "distinct (map fst pending)" "distinct (concat (map snd pending))" "[] \<notin> snd ` set pending"
      "set (concat (map snd pending)) = leased"
    using assms(1) by (simp_all add: flight_ok_def)
  have keys: "sid \<notin> fst ` set p1" "sid \<notin> fst ` set p2"
    using ok(1) by (auto simp: p)
  then have "filter (\<lambda>(k, _). sid \<noteq> k) p1 = p1" "filter (\<lambda>(k, _). sid \<noteq> k) p2 = p2"
    by (force simp: filter_id_conv)+
  then have del: "AList.delete sid pending = p1 @ p2"
    by (simp add: p AList.delete_eq)
  show "set ids \<subseteq> leased"
    using ok(4) by (auto simp: p)
  have "set (concat (map snd (p1 @ p2))) = leased - set ids"
    using ok(2,4) by (auto simp: p)
  then show "flight_ok (AList.delete sid pending) (leased - set ids)"
    using ok(1-3) unfolding del flight_ok_def by (auto simp: p)
qed

lemma eg_settle_ok:
  assumes "ledger_ok eg" "map_of (eg_pending eg) sid = Some ids"
  shows "eg_confirm sid eg = (Some (fst (das_confirm ids (eg_artifacts eg))),
       eg\<lparr>eg_pending := AList.delete sid (eg_pending eg), eg_artifacts := mark Confirmed ids (eg_artifacts eg)\<rparr>)"
    and "eg_requeue sid eg = (Some (fst (das_requeue ids (eg_artifacts eg))),
       eg\<lparr>eg_pending := AList.delete sid (eg_pending eg), eg_artifacts := mark Ready ids (eg_artifacts eg)\<rparr>)"
    and "st \<noteq> Pending \<Longrightarrow> ledger_ok
       (eg\<lparr>eg_pending := AList.delete sid (eg_pending eg), eg_artifacts := mark st ids (eg_artifacts eg)\<rparr>)"
proof -
  have ok: "ids_ok (eg_artifacts eg)" "flight_ok (eg_pending eg) (leased_ids (eg_artifacts eg))"
    using assms(1) by (simp_all add: ledger_ok_def)
  note split = flight_split [OF ok(2) assms(2)]
  have "all_pending ids (eg_artifacts eg)"
    using split(1) by (auto simp: all_pending_def leased_ids_def list_all_iff list_ex_iff)
  then show "eg_confirm sid eg = (Some (fst (das_confirm ids (eg_artifacts eg))),
       eg\<lparr>eg_pending := AList.delete sid (eg_pending eg), eg_artifacts := mark Confirmed ids (eg_artifacts eg)\<rparr>)"
    "eg_requeue sid eg = (Some (fst (das_requeue ids (eg_artifacts eg))),
       eg\<lparr>eg_pending := AList.delete sid (eg_pending eg), eg_artifacts := mark Ready ids (eg_artifacts eg)\<rparr>)"
    using assms(2) by (simp_all add: eg_confirm_def eg_requeue_def das_confirm_def das_requeue_def mark_def Let_def)
  show "st \<noteq> Pending \<Longrightarrow> ledger_ok
       (eg\<lparr>eg_pending := AList.delete sid (eg_pending eg), eg_artifacts := mark st ids (eg_artifacts eg)\<rparr>)"
    using ok(1) split(2) by (simp add: ledger_ok_def leased_mark)
qed

lemma ledger_ok_reset: "ledger_ok (egress_reset eg)" "ledger_ok egress_new"
  by (simp_all add: ledger_ok_def ids_ok_def flight_ok_def egress_reset_def egress_new_def das_new_def das_clear_def leased_ids_def)

section \<open>Dropping artifacts\<close>

definition restrict_flight :: "u64 set \<Rightarrow> (u64 \<times> u64 list) list \<Rightarrow> (u64 \<times> u64 list) list" where
  "restrict_flight K pending = filter (\<lambda>(_, p). p \<noteq> []) (map (\<lambda>(sid, p). (sid, filter (\<lambda>i. i \<in> K) p)) pending)"

lemma concat_restrict: "concat (map snd (restrict_flight K pending)) = filter (\<lambda>i. i \<in> K) (concat (map snd pending))"
  unfolding restrict_flight_def by (induction pending) auto

lemma keys_restrict:
  "distinct (map fst pending) \<Longrightarrow> distinct (map fst (restrict_flight K pending))"
  "fst ` set (restrict_flight K pending) \<subseteq> fst ` set pending"
proof -
  have keys: "map fst (map (\<lambda>(sid, p). (sid, filter (\<lambda>i. i \<in> K) p)) pending) = map fst pending"
    by (simp add: case_prod_unfold comp_def)
  show "distinct (map fst pending) \<Longrightarrow> distinct (map fst (restrict_flight K pending))"
    unfolding restrict_flight_def by (rule distinct_map_filter) (simp only: keys)
  show "fst ` set (restrict_flight K pending) \<subseteq> fst ` set pending"
    by (force simp: restrict_flight_def)
qed

lemma flight_ok_restrict: "flight_ok pending leased \<Longrightarrow> flight_ok (restrict_flight K pending) (leased \<inter> K)"
  unfolding flight_ok_def concat_restrict
  by (auto simp: keys_restrict) (auto simp: restrict_flight_def)

text \<open>Dropping the submissions that touch a set of artifacts is dropping the artifacts from the submissions, when no submission
  is split by the set.\<close>

lemma drop_submissions:
  assumes "[] \<notin> snd ` set pending" "\<forall>p \<in> snd ` set pending. set p \<inter> A = {} \<or> set p \<subseteq> A"
  shows "filter (\<lambda>(_, p). \<not> list_ex (\<lambda>i. i \<in> A) p) pending = restrict_flight (- A) pending"
  using assms
proof (induction pending)
  case (Cons x pending)
  obtain sid p where x: "x = (sid, p)"
    by fastforce
  have "p \<noteq> []"
    using Cons(2) by (auto simp: x)
  moreover have "(if list_ex (\<lambda>i. i \<in> A) p then filter (\<lambda>i. i \<in> - A) p = [] else filter (\<lambda>i. i \<in> - A) p = p)"
    using Cons(3) by (auto simp: x list_ex_iff filter_empty_conv filter_id_conv)
  ultimately show ?case
    using Cons by (auto simp: x restrict_flight_def split: if_splits)
qed (simp add: restrict_flight_def)

definition ledger_frames :: "da_artifacts \<Rightarrow> frame list" where
  "ledger_frames L = concat (map (\<lambda>a. payload_frames (ar_payload a)) (das_artifacts L))"

definition frames_of :: "bytes \<Rightarrow> da_artifacts \<Rightarrow> frame list" where
  "frames_of cid L = filter (\<lambda>f. f_id f = cid) (ledger_frames L)"

fun payload_fits :: "da_artifact_payload \<Rightarrow> bool" where
  "payload_fits (ArBlob b) \<longleftrightarrow> bp_frames b \<noteq> [] \<and> blob_frame_bytes b \<le> BLOB_CAPACITY"
| "payload_fits (ArCalldata f) \<longleftrightarrow> encoded_len f \<le> MAX_BLOB_FRAME_SIZE"

text \<open>An artifact names the live channels its frames belong to, fits, and has well-formed frames.\<close>

definition artifact_ok :: "bytes set \<Rightarrow> da_artifact \<Rightarrow> bool" where
  "artifact_ok X a \<longleftrightarrow>
     set (ar_channel_ids a) = f_id ` set (payload_frames (ar_payload a)) \<inter> X \<and> ar_channel_ids a \<noteq> []
     \<and> payload_fits (ar_payload a) \<and> (\<forall>f \<in> set (payload_frames (ar_payload a)). frame_wf f)"

lemma frames_of_none: "cid \<notin> f_id ` set (payload_frames pl) \<Longrightarrow> filter (\<lambda>f. f_id f = cid) (payload_frames pl) = []"
  by (rule filter_id_none)

lemma frames_of_mark [simp]: "frames_of cid (mark st ids L) = frames_of cid L" "ledger_frames (mark st ids L) = ledger_frames L"
proof -
  show "ledger_frames (mark st ids L) = ledger_frames L"
    by (simp add: ledger_frames_def mark_def comp_def if_distrib [of ar_payload] cong: if_cong)
  then show "frames_of cid (mark st ids L) = frames_of cid L"
    by (simp add: frames_of_def)
qed

lemma artifact_ok_mark:
  "list_all (artifact_ok X) (das_artifacts (mark st ids L)) = list_all (artifact_ok X) (das_artifacts L)"
proof -
  have "artifact_ok X (if b then a\<lparr>ar_state := st\<rparr> else a) = artifact_ok X a" for b a
    by (simp add: artifact_ok_def)
  then show ?thesis
    by (simp add: mark_def list.pred_map comp_def)
qed

lemma frames_with_artifact:
  "ledger_frames (eg_artifacts (with_artifact pl ids eg)) = ledger_frames (eg_artifacts eg) @ payload_frames pl"
  "frames_of cid (eg_artifacts (with_artifact pl ids eg)) = frames_of cid (eg_artifacts eg) @ filter (\<lambda>f. f_id f = cid) (payload_frames pl)"
  by (simp_all add: frames_of_def ledger_frames_def with_artifact_def das_push_def)

text \<open>Frames of a channel survive when artifacts without them are dropped.\<close>

lemma frames_of_filter:
  assumes "\<forall>a \<in> set as. \<not> P a \<longrightarrow> cid \<notin> f_id ` set (payload_frames (ar_payload a))"
    and "\<forall>a. ar_payload (g a) = ar_payload a"
  shows "frames_of cid \<lparr>das_artifacts = map g (filter P as), das_next_id = n\<rparr> = frames_of cid \<lparr>das_artifacts = as, das_next_id = m\<rparr>"
  using assms(1)
proof (induction as)
  case (Cons a as)
  then show ?case
    using assms(2) frames_of_none [of cid "ar_payload a"] by (auto simp: frames_of_def ledger_frames_def)
qed (simp add: frames_of_def ledger_frames_def)

lemma das_contains_iff: "das_contains i L \<longleftrightarrow> i \<in> ar_id ` set (das_artifacts L)"
  by (auto simp: das_contains_def list_ex_iff)

lemma retain_eq:
  "retain_existing_pending_artifacts eg =
     eg\<lparr>eg_pending := restrict_flight (ar_id ` set (das_artifacts (eg_artifacts eg))) (eg_pending eg)\<rparr>"
  by (simp add: retain_existing_pending_artifacts_def restrict_flight_def das_contains_iff)

text \<open>Pruning takes channels off the artifacts and drops the artifacts without a channel.\<close>

definition off_channels :: "bytes list \<Rightarrow> da_artifact \<Rightarrow> da_artifact" where
  "off_channels cids a = a\<lparr>ar_channel_ids := filter (\<lambda>cid. cid \<notin> set cids) (ar_channel_ids a)\<rparr>"

definition still_used :: "bytes list \<Rightarrow> da_artifact \<Rightarrow> bool" where
  "still_used cids a \<longleftrightarrow> ar_channel_ids (off_channels cids a) \<noteq> []"

lemma off_channels_fields [simp]:
  "ar_id (off_channels cids a) = ar_id a" "ar_payload (off_channels cids a) = ar_payload a" "ar_state (off_channels cids a) = ar_state a"
  by (simp_all add: off_channels_def)

lemma prune_channels_eq:
  "das_prune_channels cids L = \<lparr>das_artifacts = map (off_channels cids) (filter (still_used cids) (das_artifacts L)), das_next_id = das_next_id L\<rparr>"
  by (simp add: das_prune_channels_def still_used_def [abs_def] off_channels_def [abs_def] filter_map comp_def)

lemma prune_ids:
  assumes "ids_ok L"
  shows "ids_ok (das_prune_channels cids L)"
    and "leased_ids (das_prune_channels cids L) = leased_ids L \<inter> ar_id ` set (das_artifacts (das_prune_channels cids L))"
proof -
  have "a = b" if "a \<in> set (das_artifacts L)" "b \<in> set (das_artifacts L)" "ar_id a = ar_id b" for a b
    using assms that by (auto simp: ids_ok_def distinct_map inj_on_def)
  moreover have "leased_ids (das_prune_channels cids L) = ar_id ` {a \<in> set (das_artifacts L). still_used cids a \<and> ar_state a = Pending}"
    by (simp add: leased_ids_def prune_channels_eq filter_map comp_def image_image conj_commute conj_left_commute)
  moreover have "ar_id ` set (das_artifacts (das_prune_channels cids L)) = ar_id ` {a \<in> set (das_artifacts L). still_used cids a}"
    by (simp add: prune_channels_eq image_image)
  ultimately show "leased_ids (das_prune_channels cids L) = leased_ids L \<inter> ar_id ` set (das_artifacts (das_prune_channels cids L))"
    unfolding leased_ids_def by (auto; blast)
  have "distinct (map ar_id (filter (still_used cids) (das_artifacts L)))"
    using assms by (intro distinct_map_filter) (simp add: ids_ok_def)
  then show "ids_ok (das_prune_channels cids L)"
    using assms by (auto simp: ids_ok_def prune_channels_eq comp_def)
qed

lemma prune_frames:
  assumes "list_all (artifact_ok X) (das_artifacts L)" "cid \<in> X - set cids"
  shows "frames_of cid (das_prune_channels cids L) = frames_of cid L"
proof -
  have "cid \<notin> f_id ` set (payload_frames (ar_payload a))" if "a \<in> set (das_artifacts L)" "\<not> still_used cids a" for a
  proof -
    have "set (ar_channel_ids a) = f_id ` set (payload_frames (ar_payload a)) \<inter> X"
      using assms(1) that(1) by (auto simp: list_all_iff artifact_ok_def)
    moreover have "set (ar_channel_ids a) \<subseteq> set cids"
      using that(2) by (auto simp: still_used_def off_channels_def filter_empty_conv)
    ultimately show ?thesis
      using assms(2) by blast
  qed
  then have "frames_of cid (das_prune_channels cids L) = frames_of cid \<lparr>das_artifacts = das_artifacts L, das_next_id = das_next_id L\<rparr>"
    unfolding prune_channels_eq by (intro frames_of_filter) auto
  then show ?thesis
    by (simp add: frames_of_def ledger_frames_def)
qed

lemma egress_prune_ok:
  assumes "ledger_ok eg" "list_all (artifact_ok X) (das_artifacts (eg_artifacts eg))" "set cids \<subseteq> X"
  shows "ledger_ok (eg_prune_channels cids eg)"
    and "list_all (artifact_ok (X - set cids)) (das_artifacts (eg_artifacts (eg_prune_channels cids eg)))"
    and "cid \<in> X - set cids \<Longrightarrow> frames_of cid (eg_artifacts (eg_prune_channels cids eg)) = frames_of cid (eg_artifacts eg)"
    and "set (ledger_frames (eg_artifacts (eg_prune_channels cids eg))) \<subseteq> set (ledger_frames (eg_artifacts eg))"
    and "das_next_id (eg_artifacts (eg_prune_channels cids eg)) = das_next_id (eg_artifacts eg)"
    and "fst ` set (eg_pending (eg_prune_channels cids eg)) \<subseteq> fst ` set (eg_pending eg)"
proof -
  let ?L = "eg_artifacts eg"
  have arts: "eg_artifacts (eg_prune_channels cids eg) = das_prune_channels cids ?L"
    by (simp add: eg_prune_channels_def retain_eq)
  have pend: "eg_pending (eg_prune_channels cids eg) = restrict_flight (ar_id ` set (das_artifacts (das_prune_channels cids ?L))) (eg_pending eg)"
    by (simp add: eg_prune_channels_def retain_eq)
  have ok: "ids_ok ?L" "flight_ok (eg_pending eg) (leased_ids ?L)"
    using assms(1) by (simp_all add: ledger_ok_def)
  show "ledger_ok (eg_prune_channels cids eg)"
    using flight_ok_restrict [OF ok(2)] prune_ids [OF ok(1)] by (simp add: ledger_ok_def arts pend)
  show "list_all (artifact_ok (X - set cids)) (das_artifacts (eg_artifacts (eg_prune_channels cids eg)))"
    using assms(2) by (auto simp: arts prune_channels_eq still_used_def off_channels_def artifact_ok_def list_all_iff)
  show "cid \<in> X - set cids \<Longrightarrow> frames_of cid (eg_artifacts (eg_prune_channels cids eg)) = frames_of cid ?L"
    using prune_frames [OF assms(2)] by (simp add: arts)
  show "set (ledger_frames (eg_artifacts (eg_prune_channels cids eg))) \<subseteq> set (ledger_frames ?L)"
    by (auto simp: arts prune_channels_eq ledger_frames_def)
  show "das_next_id (eg_artifacts (eg_prune_channels cids eg)) = das_next_id ?L"
    by (simp add: arts prune_channels_eq)
  show "fst ` set (eg_pending (eg_prune_channels cids eg)) \<subseteq> fst ` set (eg_pending eg)"
    unfolding pend by (rule keys_restrict(2))
qed

lemma invalidate_ok:
  assumes "ledger_ok eg" "list_all (artifact_ok X) (das_artifacts (eg_artifacts eg))"
    and "\<forall>p \<in> snd ` set (eg_pending eg). set p \<inter> set aff = {} \<or> set p \<subseteq> set aff"
    and touch: "\<forall>a \<in> set (das_artifacts (eg_artifacts eg)). set (ar_channel_ids a) \<inter> D \<noteq> {} \<longleftrightarrow> ar_id a \<in> set aff"
    and dead: "\<forall>a \<in> set (das_artifacts (eg_artifacts eg)). ar_id a \<in> set aff \<longrightarrow> set (ar_channel_ids a) \<subseteq> D"
  shows "ledger_ok (invalidate_artifacts aff eg)"
    and "list_all (artifact_ok (X - D)) (das_artifacts (eg_artifacts (invalidate_artifacts aff eg)))"
    and "cid \<in> X - D \<Longrightarrow> frames_of cid (eg_artifacts (invalidate_artifacts aff eg)) = frames_of cid (eg_artifacts eg)"
    and "set (ledger_frames (eg_artifacts (invalidate_artifacts aff eg))) \<subseteq> set (ledger_frames (eg_artifacts eg))"
    and "das_next_id (eg_artifacts (invalidate_artifacts aff eg)) = das_next_id (eg_artifacts eg)"
    and "fst ` set (eg_pending (invalidate_artifacts aff eg)) \<subseteq> fst ` set (eg_pending eg)"
proof -
  let ?L = "eg_artifacts eg" and ?eg = "invalidate_artifacts aff eg"
  let ?as = "filter (\<lambda>a. ar_id a \<notin> set aff) (das_artifacts ?L)"
  have arts: "eg_artifacts ?eg = \<lparr>das_artifacts = ?as, das_next_id = das_next_id ?L\<rparr>"
    by (simp add: invalidate_artifacts_def das_invalidate_def)
  have ok: "ids_ok ?L" "flight_ok (eg_pending eg) (leased_ids ?L)"
    using assms(1) by (simp_all add: ledger_ok_def)
  have pend: "eg_pending ?eg = restrict_flight (- set aff) (eg_pending eg)"
    using drop_submissions [of "eg_pending eg" "set aff"] ok(2) assms(3)
    by (simp add: invalidate_artifacts_def flight_ok_def)
  show "das_next_id (eg_artifacts ?eg) = das_next_id ?L"
    by (simp add: arts)
  show "fst ` set (eg_pending ?eg) \<subseteq> fst ` set (eg_pending eg)"
    unfolding pend by (rule keys_restrict(2))
  have "leased_ids \<lparr>das_artifacts = ?as, das_next_id = das_next_id ?L\<rparr> = leased_ids ?L \<inter> - set aff"
    by (auto simp: leased_ids_def)
  moreover have "ids_ok \<lparr>das_artifacts = ?as, das_next_id = das_next_id ?L\<rparr>"
    using ok(1) by (auto simp: ids_ok_def distinct_map_filter)
  ultimately show "ledger_ok ?eg"
    using flight_ok_restrict [OF ok(2)] by (simp add: ledger_ok_def arts pend)
  show "list_all (artifact_ok (X - D)) (das_artifacts (eg_artifacts ?eg))"
    using assms(2) touch by (fastforce simp: arts list_all_iff artifact_ok_def)
  show "cid \<in> X - D \<Longrightarrow> frames_of cid (eg_artifacts ?eg) = frames_of cid ?L"
  proof -
    assume cid: "cid \<in> X - D"
    have "cid \<notin> f_id ` set (payload_frames (ar_payload a))" if "a \<in> set (das_artifacts ?L)" "\<not> ar_id a \<notin> set aff" for a
      using assms(2) dead that cid by (fastforce simp: list_all_iff artifact_ok_def)
    then show ?thesis
      using frames_of_filter [of "das_artifacts ?L" "\<lambda>a. ar_id a \<notin> set aff" cid "\<lambda>a. a" "das_next_id ?L" "das_next_id ?L"]
      by (simp add: arts frames_of_def ledger_frames_def)
  qed
  show "set (ledger_frames (eg_artifacts ?eg)) \<subseteq> set (ledger_frames ?L)"
    by (auto simp: arts ledger_frames_def)
qed

section \<open>The pace of framing\<close>

definition plan_data :: "planned list \<Rightarrow> nat" where
  "plan_data plan = sum_list (map (\<lambda>p. fst (snd p)) plan)"

lemma plan_data_frames: "map planned_of new = plan \<Longrightarrow> plan_data plan = length (channel_data new)"
  by (auto simp: plan_data_def planned_of_def channel_data_def length_concat comp_def)

text \<open>All frames of a plan but one are full.\<close>

lemma plan_loop_pace:
  assumes "0 < m"
  shows "plan_loop cid m a t r [] = (a', t', r', plan) \<Longrightarrow>
    plan_data plan + a' = a \<and> length plan * m \<le> plan_data plan + m \<and> (plan \<noteq> [] \<and> a' = 0 \<longrightarrow> \<not> t')"
proof (induction r arbitrary: a plan rule: less_induct)
  case (less r)
  show ?case
  proof (cases "0 < a \<and> FRAME_ENCODED_OVERHEAD < r")
    case False
    then show ?thesis
      using less(2) by (auto simp: plan_loop_stop plan_data_def)
  next
    case go: True
    define n where "n = min a (min (r - FRAME_ENCODED_OVERHEAD) m)"
    note step = plan_loop_step [OF conjunct1 [OF go] conjunct2 [OF go] n_def, of cid t]
    have n: "n \<le> a" "n \<le> m" "n = a \<or> n = m \<or> n = r - FRAME_ENCODED_OVERHEAD"
      by (auto simp: n_def min_def)
    show ?thesis
    proof (cases "n = a \<and> t")
      case True
      then show ?thesis
        using less(2) step by (auto simp: plan_data_def)
    next
      case False
      let ?r = "r - (FRAME_ENCODED_OVERHEAD + n)"
      have "(n = a \<and> t) = False"
        using False by blast
      then obtain ps where ps: "plan_loop cid m (a - n) t ?r [] = (a', t', r', ps)" "plan = (cid, n, False) # ps"
        using less(2) step by (auto simp: Let_def split: prod.splits)
      note IH = less(1) [OF remaining_less [OF conjunct2 [OF go]] ps(1)]
      show ?thesis
      proof (cases "0 < a - n \<and> FRAME_ENCODED_OVERHEAD < ?r")
        case True
        then have "n = m"
          using n(3) by auto
        then show ?thesis
          using IH ps True n by (auto simp: plan_data_def)
      next
        case stop: False
        then have "ps = []" "a' = a - n" "t' = t"
          using ps(1) by (auto simp: plan_loop_stop)
        then show ?thesis
          using ps(2) n False by (auto simp: plan_data_def)
      qed
    qed
  qed
qed

lemma plan_channel_pace:
  assumes "plan_channel_frames c r [] = (cmp, r1, ps)" "0 < max_frame_data c"
  shows "plan_data ps \<le> ch_available_output c" "length ps * max_frame_data c \<le> plan_data ps + max_frame_data c"
    "\<not> cmp \<Longrightarrow> \<not> ch_is_open c \<Longrightarrow> r1 \<le> FRAME_ENCODED_OVERHEAD"
proof -
  obtain a1 t1 r2 plan1 where loop: "plan_loop (ch_id c) (max_frame_data c) (ch_available_output c) (ch_terminal_pending c) r []
      = (a1, t1, r2, plan1)"
    by (metis prod_cases4)
  let ?extra = "a1 = 0 \<and> t1 \<and> FRAME_ENCODED_OVERHEAD \<le> r2"
  have eq: "ps = (if ?extra then plan1 @ [(ch_id c, 0, True)] else plan1)"
      "r1 = (if ?extra then r2 - FRAME_ENCODED_OVERHEAD else r2)"
      "cmp \<longleftrightarrow> \<not> ch_is_open c \<and> a1 = 0 \<and> (t1 \<longrightarrow> ?extra)"
    using assms(1) loop by (auto simp: plan_channel_frames_def split: if_splits)
  note pace = plan_loop_pace [OF assms(2) loop] and shape = plan_loop_shape [OF loop]
  show "plan_data ps \<le> ch_available_output c" "length ps * max_frame_data c \<le> plan_data ps + max_frame_data c"
    using eq(1) pace by (auto simp: plan_data_def)
  show "\<not> cmp \<Longrightarrow> \<not> ch_is_open c \<Longrightarrow> r1 \<le> FRAME_ENCODED_OVERHEAD"
    using eq(2,3) shape by auto
qed

text \<open>The first unfinished channel of a plan is finished by it, or fills the blob.\<close>

lemma plan_first_unfinished:
  assumes "plan_blob (pre @ c # post) l1 = Some plan" "\<forall>x \<in> set pre. framing_complete x" "\<not> framing_complete c"
    and "0 < max_frame_data c"
  shows "\<exists>cmp r1 ps qs. plan_channel_frames c BLOB_CAPACITY [] = (cmp, r1, ps) \<and> plan = ps @ qs
    \<and> fst ` set qs \<subseteq> ch_id ` set post \<and> (\<not> cmp \<longrightarrow> qs = [] \<and> r1 \<le> FRAME_ENCODED_OVERHEAD)"
proof -
  have skip: "plan_channels l1 (pre @ c # post) r [] due = plan_channels l1 (c # post) r [] due" for r due
    using assms(2) by (induction pre) auto
  obtain cmp r1 ps where p: "plan_channel_frames c BLOB_CAPACITY [] = (cmp, r1, ps)"
    by (metis prod_cases3)
  obtain r due where plan: "plan_channels l1 (c # post) BLOB_CAPACITY [] False = (r, plan, due)"
      "r < FRAME_ENCODED_OVERHEAD + 1 \<or> due"
    using assms(1) by (auto simp: plan_blob_def skip Let_def split: prod.splits if_splits)
  show ?thesis
  proof (cases cmp)
    case True
    then obtain qs due1 where "plan_channels l1 post r1 [] due1 = (r, qs, due)" "plan = ps @ qs"
      using plan(1) assms(3) unfolding plan_channels_Cons p by (auto simp: Let_def split: prod.splits)
    then show ?thesis
      using p True plan_channels_ids [of l1 post r1 due1 r qs due]
      by (intro exI [of _ cmp] exI [of _ r1] exI [of _ ps] exI [of _ qs]) simp
  next
    case False
    then have "(r, plan, due) = (r1, ps, False \<or> ps \<noteq> [] \<and> \<not> ch_is_open c \<and> deadline_due l1 c)"
      using plan(1) assms(3) unfolding plan_channels_Cons p by (auto simp: Let_def)
    then have "plan = ps" "r = r1" "due \<Longrightarrow> \<not> ch_is_open c"
      by simp_all
    moreover have "r1 \<le> FRAME_ENCODED_OVERHEAD"
      using plan(2) calculation(2,3) plan_channel_pace(3) [OF p assms(4) False] by (cases due) auto
    ultimately show ?thesis
      using p False by auto
  qed
qed

text \<open>The space a plan takes, and the terminal frame in it.\<close>

lemma plan_loop_space:
  "plan_loop cid m a t r [] = (a', t', r', plan) \<Longrightarrow>
     r' + length plan * FRAME_ENCODED_OVERHEAD + plan_data plan = r \<and> (t \<and> \<not> t' \<longrightarrow> (\<exists>p \<in> set plan. snd (snd p)))"
proof (induction r arbitrary: a plan rule: less_induct)
  case (less r)
  show ?case
  proof (cases "0 < a \<and> FRAME_ENCODED_OVERHEAD < r")
    case False
    then show ?thesis
      using less(2) by (auto simp: plan_loop_stop plan_data_def)
  next
    case go: True
    define n where "n = min a (min (r - FRAME_ENCODED_OVERHEAD) m)"
    note step = plan_loop_step [OF conjunct1 [OF go] conjunct2 [OF go] n_def, of cid t]
    have n: "FRAME_ENCODED_OVERHEAD + n \<le> r"
      using go by (auto simp: n_def min_def)
    show ?thesis
    proof (cases "n = a \<and> t")
      case True
      then show ?thesis
        using less(2) step n by (auto simp: plan_data_def)
    next
      case False
      then have "(n = a \<and> t) = False"
        by blast
      then obtain ps where ps: "plan_loop cid m (a - n) t (r - (FRAME_ENCODED_OVERHEAD + n)) [] = (a', t', r', ps)" "plan = (cid, n, False) # ps"
        using less(2) step by (auto simp: Let_def split: prod.splits)
      show ?thesis
        using less(1) [OF remaining_less [OF conjunct2 [OF go]] ps(1)] ps(2) n by (auto simp: plan_data_def)
    qed
  qed
qed

lemma plan_channel_space:
  assumes "plan_channel_frames c r [] = (cmp, r1, ps)"
  shows "r1 + length ps * FRAME_ENCODED_OVERHEAD + plan_data ps = r"
    "cmp \<Longrightarrow> \<not> framing_complete c \<Longrightarrow> \<exists>p \<in> set ps. snd (snd p)"
proof -
  obtain a1 t1 r2 plan1 where loop: "plan_loop (ch_id c) (max_frame_data c) (ch_available_output c) (ch_terminal_pending c) r []
      = (a1, t1, r2, plan1)"
    by (metis prod_cases4)
  let ?extra = "a1 = 0 \<and> t1 \<and> FRAME_ENCODED_OVERHEAD \<le> r2"
  have eq: "ps = (if ?extra then plan1 @ [(ch_id c, 0, True)] else plan1)"
      "r1 = (if ?extra then r2 - FRAME_ENCODED_OVERHEAD else r2)"
      "cmp \<longleftrightarrow> \<not> ch_is_open c \<and> a1 = 0 \<and> (t1 \<longrightarrow> ?extra)"
    using assms(1) loop by (auto simp: plan_channel_frames_def split: if_splits)
  note space = plan_loop_space [OF loop]
  show "r1 + length ps * FRAME_ENCODED_OVERHEAD + plan_data ps = r"
    using eq(1,2) space by (auto simp: plan_data_def)
  show "cmp \<Longrightarrow> \<not> framing_complete c \<Longrightarrow> \<exists>p \<in> set ps. snd (snd p)"
    using eq(1,3) space by (auto simp: framing_complete_iff)
qed

lemma plan_channels_part:
  assumes "plan_channels l1 chs r [] due = (r', plan, due')" "distinct (map ch_id chs)" "c \<in> set chs"
  shows "filter (\<lambda>p. fst p = ch_id c) plan = []
    \<or> \<not> framing_complete c \<and> (\<exists>r cmp r1. plan_channel_frames c r [] = (cmp, r1, filter (\<lambda>p. fst p = ch_id c) plan))"
  using assms
proof (induction chs arbitrary: r plan due)
  case (Cons d chs)
  obtain cmp r1 ps where p: "plan_channel_frames d r [] = (cmp, r1, ps)"
    by (metis prod_cases3)
  note ids = plan_channel_ids [OF p]
  show ?case
  proof (cases "framing_complete d")
    case True
    then have rec: "plan_channels l1 chs r [] due = (r', plan, due')"
      using Cons(2) by simp
    show ?thesis
    proof (cases "c = d")
      case True
      then show ?thesis
        using filter_fst_other [OF plan_channels_ids [OF rec]] Cons(3) by auto
    next
      case False
      then show ?thesis
        using Cons(1) [OF rec] Cons(3,4) by auto
    qed
  next
    case False
    obtain qs where qs: "plan = ps @ qs" "fst ` set qs \<subseteq> ch_id ` set chs"
        "if cmp then \<exists>due1. plan_channels l1 chs r1 [] due1 = (r', qs, due') else r' = r1 \<and> qs = []"
      using plan_channels_head [OF Cons(2) False p] .
    show ?thesis
    proof (cases "c = d")
      case True
      then have "filter (\<lambda>p. fst p = ch_id c) plan = ps"
        using filter_fst_same [OF ids] filter_fst_other [OF qs(2)] Cons(3) qs(1) by simp
      then show ?thesis
        using True False p by blast
    next
      case other: False
      then have "c \<in> set chs"
        using Cons(4) by simp
      moreover have "ch_id d \<notin> ch_id ` set chs"
        using Cons(3) by simp
      ultimately have "ch_id c \<noteq> ch_id d" "c \<in> set chs"
        by (metis imageI)+
      then have "filter (\<lambda>p. fst p = ch_id c) plan = filter (\<lambda>p. fst p = ch_id c) qs"
        using filter_fst_other [OF ids] qs(1) by simp
      then show ?thesis
        using qs(3) Cons(1) [OF _ _ \<open>c \<in> set chs\<close>] Cons(3) by (cases cmp) fastforce+
    qed
  qed
qed simp

text \<open>With frames of at least two kilobytes a frame stands for 1900 bytes of the stream, but for one frame where the channel
  began in the blob of another and one where it ends.\<close>

definition budget :: "frame list \<Rightarrow> 'z enc_channel \<Rightarrow> bool" where
  "budget fs c \<longleftrightarrow> length fs * 1900 \<le> length (channel_data fs) + (if framing_complete c then 3800 else 1900)"

lemma pace_arith: "j * m \<le> d + m \<Longrightarrow> 2000 \<le> m \<Longrightarrow> j * 1900 \<le> d + 1900" for j m d :: nat
proof (cases j)
  case (Suc i)
  assume "j * m \<le> d + m" "2000 \<le> m"
  then have "i * m \<le> d"
    using Suc by simp
  with mult_le_mono2 [OF \<open>2000 \<le> m\<close>, of i] have "i * 2000 \<le> d"
    by (rule order_trans)
  then show ?thesis
    using Suc by simp
qed simp

lemma pace_arith_full: "j * m \<le> d + m \<Longrightarrow> 2000 \<le> m \<Longrightarrow> 130020 \<le> j * 23 + d \<Longrightarrow> j * 1900 \<le> d" for j m d :: nat
proof (cases j)
  case (Suc i)
  assume a: "j * m \<le> d + m" "2000 \<le> m" "130020 \<le> j * 23 + d"
  then have "i * m \<le> d"
    using Suc by simp
  with mult_le_mono2 [OF a(2), of i] have "i * 2000 \<le> d"
    by (rule order_trans)
  then show ?thesis
    using Suc a(3) by simp
qed simp

lemma planned_parts:
  assumes "map planned_of new = plan"
  shows "map planned_of (filter (\<lambda>f. f_id f = cid) new) = filter (\<lambda>p. fst p = cid) plan"
  using assms by (auto simp: filter_map comp_def planned_of_def)

text \<open>A blob plan fits the frame numbers that are left, and keeps the budget.\<close>

lemma framed_last:
  assumes "framed fs stream c" "fs \<noteq> []"
  shows "f_is_last (last fs) = framing_complete c"
proof -
  obtain i where "length fs = Suc i"
    using assms(2) by (cases fs) auto
  moreover from this have "f_is_last (fs ! i) = (Suc i = length fs \<and> framing_complete c)"
    using assms(1) unfolding framed_def by simp
  ultimately show ?thesis
    using assms(2) by (simp add: last_conv_nth)
qed

lemma budget_cong:
  assumes "framed fs stream c" "framed fs stream' c'"
  shows "budget fs c = budget fs c'"
proof (cases "fs = []")
  case False
  then show ?thesis
    using framed_last [OF assms(1)] framed_last [OF assms(2)] by (simp add: budget_def)
qed (simp add: budget_def)

text \<open>A channel that began in an earlier blob and goes on in a later one fills the blob.\<close>

lemma unfinished_blob_pace:
  assumes "plan_blob chs l1 = Some plan" "sorted_wrt fifo chs" "distinct (map ch_id chs)" "c \<in> set chs"
    and "2000 \<le> max_frame_data c" "framed fs stream c" "\<not> framing_complete c"
    and "fs \<noteq> []" "\<not> framing_complete c'" "framed (fs @ new) stream c'" "map planned_of new = filter (\<lambda>p. fst p = ch_id c) plan"
  shows "length (filter (\<lambda>p. fst p = ch_id c) plan) * 1900 \<le> plan_data (filter (\<lambda>p. fst p = ch_id c) plan)"
proof -
  have m: "0 < max_frame_data c"
    using assms(5) by simp
  obtain pre post where chs: "chs = pre @ c # post"
    using assms(4) by (meson split_list)
  have "\<forall>x \<in> set pre. framing_complete x"
    using assms(2,6,8) by (auto simp: chs sorted_wrt_append fifo_def framed_def)
  from plan_first_unfinished [OF assms(1) [unfolded chs] this assms(7) m] obtain cmp r1 ps qs where
      first: "plan_channel_frames c BLOB_CAPACITY [] = (cmp, r1, ps)" "plan = ps @ qs" "fst ` set qs \<subseteq> ch_id ` set post"
        "\<not> cmp \<longrightarrow> r1 \<le> FRAME_ENCODED_OVERHEAD"
    by blast
  have pc: "filter (\<lambda>p. fst p = ch_id c) plan = ps"
    using filter_fst_same [OF plan_channel_ids [OF first(1)]] filter_fst_other [OF first(3)] assms(3)
    by (simp add: first(2) chs)
  have "\<not> cmp"
  proof
    assume cmp
    with plan_channel_space(2) [OF first(1)] assms(7) obtain f where "f \<in> set new" "f_is_last f"
      using assms(11) unfolding pc by (auto simp: planned_of_def)
    then obtain i where "i < length (fs @ new)" "f_is_last ((fs @ new) ! i)"
      by (metis Un_iff in_set_conv_nth set_append)
    then show False
      using assms(9,10) unfolding framed_def by blast
  qed
  then have "130020 \<le> length ps * 23 + plan_data ps"
    using plan_channel_space(1) [OF first(1)] first(4)
    by (simp add: FRAME_ENCODED_OVERHEAD_def BLOB_CAPACITY_def BLOB_MAX_DATA_SIZE_def BLOB_DERIVATION_PREFIX_SIZE_def)
  then show ?thesis
    using pace_arith_full [OF plan_channel_pace(2) [OF first(1) m] assms(5)] unfolding pc by simp
qed

lemma blob_pace:
  assumes "plan_blob chs l1 = Some plan" "sorted_wrt fifo chs" "distinct (map ch_id chs)" "c \<in> set chs"
    and "2000 \<le> max_frame_data c" "framed fs stream c" "budget fs c"
    and pc: "pc = filter (\<lambda>p. fst p = ch_id c) plan"
  shows "(length fs + length pc) * 1900 \<le> length stream + 3800"
    and "map planned_of new = pc \<Longrightarrow> framed (fs @ new) stream c' \<Longrightarrow> budget (fs @ new) c'"
proof -
  have m: "0 < max_frame_data c"
    using assms(5) by simp
  obtain r due where plan: "plan_channels l1 chs BLOB_CAPACITY [] False = (r, plan, due)"
    using assms(1) by (auto simp: plan_blob_def Let_def split: prod.splits if_splits)
  have avail: "length (channel_data fs) + ch_available_output c = length stream"
    using assms(6) by (auto simp: framed_def)
  consider "pc = []" | r cmp r1 where "\<not> framing_complete c" "plan_channel_frames c r [] = (cmp, r1, pc)"
    using plan_channels_part [OF plan assms(3,4)] pc by blast
  note part = this
  have pace: "length pc * 1900 \<le> plan_data pc + 1900 \<and> plan_data pc \<le> ch_available_output c"
  proof (rule part)
    fix r cmp r1
    assume "plan_channel_frames c r [] = (cmp, r1, pc)"
    from plan_channel_pace(1,2) [OF this m] show ?thesis
      using pace_arith assms(5) by blast
  qed (simp add: plan_data_def)
  show "(length fs + length pc) * 1900 \<le> length stream + 3800"
  proof (rule part)
    assume "pc = []"
    then show ?thesis
      using assms(7) avail by (auto simp: budget_def split: if_splits)
  next
    assume "\<not> framing_complete c"
    then show ?thesis
      using assms(7) avail pace by (simp add: budget_def algebra_simps)
  qed
  assume new: "map planned_of new = pc" "framed (fs @ new) stream c'"
  have len: "length new = length pc" "plan_data pc = length (channel_data new)"
    using new(1) plan_data_frames [OF new(1)] by auto
  have data: "channel_data (fs @ new) = channel_data fs @ channel_data new"
    by (simp add: channel_data_def)
  show "budget (fs @ new) c'"
  proof (rule part)
    assume "pc = []"
    then have "framed fs stream c'" "new = []"
      using new by auto
    then show ?thesis
      using assms(7) budget_cong [OF assms(6)] by auto
  next
    fix r0 cmp0 r2
    assume part: "\<not> framing_complete c" "plan_channel_frames c r0 [] = (cmp0, r2, pc)"
    show ?thesis
    proof (cases "framing_complete c' \<or> fs = []")
      case True
      then show ?thesis
        using part(1) assms(7) pace len data by (auto simp: budget_def algebra_simps)
    next
      case False
      then have "length pc * 1900 \<le> plan_data pc"
        using unfinished_blob_pace [OF assms(1-6) part(1)] new unfolding pc by blast
      then show ?thesis
        using assms(7) part(1) False len data by (simp add: budget_def algebra_simps)
    qed
  qed
qed

lemma calldata_pace:
  assumes "plan_calldata chs = Some p" "c \<in> set chs" "distinct (map ch_id chs)"
    and "2000 \<le> max_frame_data c" "framed fs stream c" "budget fs c"
    and pc: "pc = filter (\<lambda>p. fst p = ch_id c) [p]"
  shows "(length fs + length pc) * 1900 \<le> length stream + 3800"
    and "map planned_of new = pc \<Longrightarrow> framed (fs @ new) stream c' \<Longrightarrow> budget (fs @ new) c'"
proof -
  obtain pre d post n l where at: "chs = pre @ d # post" "\<not> framing_complete d" "p = (ch_id d, n, l)"
      "n \<le> ch_available_output d" "n = max_frame_data d \<or> l"
    using plan_calldata_at [OF assms(1)] by metis
  have same: "d = c" if "ch_id d = ch_id c"
    using assms(2,3) that by (auto simp: at(1))
  have avail: "length (channel_data fs) + ch_available_output c = length stream"
    using assms(5) by (auto simp: framed_def)
  show "(length fs + length pc) * 1900 \<le> length stream + 3800"
    using assms(6) avail same at(2) by (auto simp: pc at(3) budget_def split: if_splits)
  assume new: "map planned_of new = pc" "framed (fs @ new) stream c'"
  show "budget (fs @ new) c'"
  proof (cases "ch_id d = ch_id c")
    case True
    then obtain f where f: "new = [f]" "planned_of f = (ch_id c, n, l)"
      using new(1) by (auto simp: pc at(3))
    have last: "f_is_last f = framing_complete c'"
      using framed_last [OF new(2)] f(1) by simp
    have "channel_data (fs @ new) = channel_data fs @ f_data f" "length (f_data f) = n" "f_is_last f = l"
      using f by (simp_all add: channel_data_def planned_of_def)
    moreover have "2000 \<le> n" if "\<not> l"
      using at(5) that assms(4) same [OF True] by simp
    ultimately show ?thesis
      using assms(6) at(2) last same [OF True] by (auto simp: f(1) budget_def)
  next
    case False
    then show ?thesis
      using new assms(6) budget_cong [OF assms(5)] by (auto simp: pc at(3))
  qed
qed

end
