(* ===== verification/Encoder_Laws.thy ===== *)
theory Encoder_Laws
  imports Batch_Encoder Egress_Laws
begin

text \<open>
  The invariant of the batcher's encoder.  The channels tile the blocks before the cursor, each channel's
  compressed stream is what the compressor made of the batches of its blocks, the frames cut from it are in the
  ledger in order, and the ledger agrees with the submissions in flight.
\<close>

section \<open>What the encoder relies on\<close>

text \<open>Besides the writer: the generator fills the 16 bytes of a channel id.\<close>

locale batcher_world = vec_writer "bt_writer V" for V :: "('z, 'r) batcher_env" +
  assumes id_len: "length (fst (bt_fill_id V r)) = 16"

section \<open>The invariant\<close>

definition block_fits :: "('z, 'r) batcher_env \<Rightarrow> l2_block_data \<Rightarrow> bool" where
  "block_fits V b \<longleftrightarrow> (\<forall>batch. block_to_single_batch b = Ok batch \<longrightarrow> length (batch_wire V batch) < 2 ^ 64)"

text \<open>Frames of at least two kilobytes keep the number of frames of a channel below the limit, however they are spread
  over blobs.\<close>

definition config_ok :: "encoder_config \<Rightarrow> bool" where
  "config_ok config \<longleftrightarrow> config_validate config = Ok () \<and> 2023 \<le> ec_max_frame_size config"

text \<open>A channel holds the batches of its blocks, behind those of blocks that were pruned.\<close>

definition holds :: "('z, 'r) batcher_env \<Rightarrow> encoder_config \<Rightarrow> frame list \<Rightarrow> single_batch list \<Rightarrow> bytes \<Rightarrow> 'z enc_channel \<Rightarrow> bool" where
  "holds V config fs batches stream c \<longleftrightarrow>
     framed fs stream c \<and> budget fs c
     \<and> streamed (bt_writer V) (ec_brotli_level config) (map (batch_wire V) batches) stream c
     \<and> admitted (bt_writer V) (map (batch_wire V) batches) c"

definition channel_blocks :: "l2_block_data list \<Rightarrow> 'z enc_channel \<Rightarrow> l2_block_data list" where
  "channel_blocks blocks c = take (ch_blocks_added c) (drop (ch_block_start c) blocks)"

definition chan_holds :: "('z, 'r) batcher_env \<Rightarrow> encoder_config \<Rightarrow> l2_block_data list \<Rightarrow> da_artifacts \<Rightarrow> 'z enc_channel \<Rightarrow> bool" where
  "chan_holds V config blocks L c \<longleftrightarrow>
     ch_max_frame_size c = ec_max_frame_size config \<and> length (ch_id c) = 16
     \<and> (\<exists>old batches stream. map block_to_single_batch (channel_blocks blocks c) = map Ok batches
          \<and> length batches = ch_blocks_added c \<and> holds V config (frames_of (ch_id c) L) (old @ batches) stream c)"

definition chan_ok :: "('z, 'r) batcher_env \<Rightarrow> encoder_config \<Rightarrow> l2_block_data list \<Rightarrow> da_artifacts \<Rightarrow> 'z enc_channel \<Rightarrow> bool" where
  "chan_ok V config blocks L c \<longleftrightarrow> chan_holds V config blocks L c \<and> 0 < ch_blocks_added c"

fun tiled :: "nat \<Rightarrow> 'z enc_channel list \<Rightarrow> nat \<Rightarrow> bool" where
  "tiled i [] j \<longleftrightarrow> i = j"
| "tiled i (c # cs) j \<longleftrightarrow> ch_block_start c = i \<and> tiled (block_range_end c) cs j"

definition queue_ok ::
    "('z, 'r) batcher_env \<Rightarrow> encoder_config \<Rightarrow> l2_block_data list \<Rightarrow> nat \<Rightarrow> da_artifacts \<Rightarrow> 'z enc_channel list \<Rightarrow> bool" where
  "queue_ok V config blocks cursor L chs \<longleftrightarrow>
     tiled 0 chs cursor \<and> cursor \<le> length blocks \<and> (\<forall>c \<in> set (butlast chs). \<not> ch_is_open c)
     \<and> sorted_wrt fifo chs \<and> distinct (map ch_id chs) \<and> (\<forall>c \<in> set chs. chan_ok V config blocks L c)"

definition egress_ok ::
    "('z, 'r) batcher_env \<Rightarrow> encoder_config \<Rightarrow> l2_block_data list \<Rightarrow> nat \<Rightarrow> 'z enc_channel list \<Rightarrow> da_egress \<Rightarrow> bool" where
  "egress_ok V config blocks cursor chs eg \<longleftrightarrow>
     queue_ok V config blocks cursor (eg_artifacts eg) chs
     \<and> list_all (artifact_ok (ch_id ` set chs)) (das_artifacts (eg_artifacts eg)) \<and> ledger_ok eg"

definition enc_inv :: "('z, 'r) batcher_env \<Rightarrow> ('z, 'r) batch_encoder \<Rightarrow> bool" where
  "enc_inv V s \<longleftrightarrow>
     config_ok (en_config s) \<and> (\<forall>b \<in> set (en_blocks s). block_fits V b)
     \<and> egress_ok V (en_config s) (en_blocks s) (en_block_cursor s) (en_channels s) (en_egress s)
     \<and> (\<forall>k \<in> fst ` set (eg_pending (en_egress s)). k < en_next_id s)"

section \<open>Cutting frames\<close>

lemma holds_cut:
  assumes "cut_to new c c'" "holds V config fs batches stream c"
    and "framed (fs @ new) stream c' \<Longrightarrow> budget (fs @ new) c'"
  shows "holds V config (fs @ new) batches stream c'"
proof -
  have "framed (fs @ new) stream c'"
    using assms(1,2) by (auto simp: cut_to_def holds_def)
  moreover have "ch_input_bytes c' = ch_input_bytes c" "ch_compressor c' = ch_compressor c" "max_frame_data c' = max_frame_data c"
    using assms(1) by (auto simp: cut_to_def max_frame_data_def)
  ultimately show ?thesis
    using assms(2,3) by (simp add: holds_def streamed_def admitted_def)
qed

lemma tiled_append: "tiled i (xs @ ys) j \<longleftrightarrow> (\<exists>k. tiled i xs k \<and> tiled k ys j)"
  by (induction xs arbitrary: i) auto

lemma tiled_cong:
  "list_all2 (\<lambda>c c'. ch_block_start c' = ch_block_start c \<and> ch_blocks_added c' = ch_blocks_added c) chs chs' \<Longrightarrow>
     tiled i chs' j = tiled i chs j"
  by (induction arbitrary: i rule: list_all2_induct) (auto simp: block_range_end_def)

lemma butlast_rel: "list_all2 R xs ys \<Longrightarrow> list_all2 R (butlast xs) (butlast ys)"
  by (auto simp: butlast_conv_take list_all2_lengthD intro!: list_all2_takeI)

lemma related_to: "list_all2 R xs ys \<Longrightarrow> y \<in> set ys \<Longrightarrow> \<exists>x \<in> set xs. R x y"
  by (induction rule: list_all2_induct) auto

lemma chan_frame_wf:
  assumes "chan_ok V config blocks L c" "config_ok config" "f \<in> set (frames_of (ch_id c) L)"
  shows "frame_wf f"
proof -
  obtain stream where "framed (frames_of (ch_id c) L) stream c"
    using assms(1) by (auto simp: chan_ok_def chan_holds_def holds_def)
  then have "f_id f = ch_id c" "length (f_data f) \<le> max_frame_data c"
    using assms(3) by (auto simp: framed_def in_set_conv_nth)
  moreover have "max_frame_data c \<le> FRAME_MAX_LEN" "length (ch_id c) = 16"
    using assms(1,2) by (auto simp: chan_ok_def chan_holds_def config_ok_def config_validate_Ok max_frame_data_def
        MAX_BLOB_FRAME_SIZE_def BLOB_MAX_DATA_SIZE_def FRAME_MAX_LEN_def)
  ultimately show ?thesis
    by (simp add: frame_wf_def)
qed

lemma commit_queue_ok:
  assumes "egress_ok V config blocks cursor chs eg" "chans_cut new chs chs'" "sorted_wrt fifo chs'"
    and "payload_frames pl = new" "set ids = f_id ` set new" "new \<noteq> []" "payload_fits pl" "f_id ` set new \<subseteq> ch_id ` set chs"
    and budget: "\<And>c c' fs stream. c \<in> set chs \<Longrightarrow> c' \<in> set chs' \<Longrightarrow> framed fs stream c \<Longrightarrow> budget fs c \<Longrightarrow>
      framed (fs @ filter (\<lambda>f. f_id f = ch_id c) new) stream c' \<Longrightarrow> budget (fs @ filter (\<lambda>f. f_id f = ch_id c) new) c'"
    and "das_next_id (eg_artifacts eg) \<noteq> - 1" "config_ok config"
  shows "egress_ok V config blocks cursor chs' (with_artifact pl ids eg)"
proof -
  let ?eg = "with_artifact pl ids eg"
  have q: "queue_ok V config blocks cursor (eg_artifacts eg) chs"
    using assms(1) by (simp add: egress_ok_def)
  have fields: "list_all2 (\<lambda>c c'. ch_id c' = ch_id c \<and> ch_is_open c' = ch_is_open c \<and> ch_block_start c' = ch_block_start c
      \<and> ch_blocks_added c' = ch_blocks_added c) chs chs'"
    using assms(2) unfolding chans_cut_def by (rule list_all2_mono) (simp add: cut_to_fields)
  have "tiled 0 chs' cursor"
    using q list_all2_mono [OF fields] tiled_cong [of chs chs'] by (simp add: queue_ok_def)
  moreover have "\<not> ch_is_open c'" if "c' \<in> set (butlast chs')" for c'
    using related_to [OF butlast_rel [OF fields] that] q by (auto simp: queue_ok_def)
  moreover have ids: "map ch_id chs' = map ch_id chs"
    using chans_cut_ids [OF assms(2)] .
  moreover have "chan_ok V config blocks (eg_artifacts ?eg) c'" if c': "c' \<in> set chs'" for c'
  proof -
    obtain c where c: "c \<in> set chs" "cut_to (filter (\<lambda>f. f_id f = ch_id c) new) c c'"
      using related_to [OF assms(2) [unfolded chans_cut_def] c'] by blast
    note fl = cut_to_fields [OF c(2)]
    obtain old batches stream where h: "map block_to_single_batch (channel_blocks blocks c) = map Ok batches"
        "length batches = ch_blocks_added c" "holds V config (frames_of (ch_id c) (eg_artifacts eg)) (old @ batches) stream c"
      using q c(1) unfolding queue_ok_def chan_ok_def chan_holds_def by blast
    have fb: "framed (frames_of (ch_id c) (eg_artifacts eg)) stream c" "budget (frames_of (ch_id c) (eg_artifacts eg)) c"
      using h(3) by (simp_all add: holds_def)
    have "holds V config (frames_of (ch_id c) (eg_artifacts ?eg)) (old @ batches) stream c'"
      unfolding frames_with_artifact assms(4) by (rule holds_cut [OF c(2) h(3)], rule budget [OF c(1) c' fb])
    then show ?thesis
      using h(1,2) q c(1) unfolding queue_ok_def chan_ok_def chan_holds_def by (simp only: fl channel_blocks_def) blast
  qed
  ultimately have q': "queue_ok V config blocks cursor (eg_artifacts ?eg) chs'"
    using q assms(3) by (simp add: queue_ok_def)
  have wf: "frame_wf f" if f: "f \<in> set new" for f
  proof -
    obtain c' where c': "c' \<in> set chs'" "f_id f = ch_id c'"
      using assms(8) f arg_cong [OF ids, of set] unfolding set_map by (metis image_iff subsetD)
    have "f \<in> set (frames_of (ch_id c') (eg_artifacts ?eg))"
      unfolding frames_with_artifact assms(4) using f c'(2) by simp
    moreover have "chan_ok V config blocks (eg_artifacts ?eg) c'"
      using q' c'(1) by (simp add: queue_ok_def)
    ultimately show ?thesis
      using chan_frame_wf [OF _ assms(11)] by blast
  qed
  have "list_all (artifact_ok (ch_id ` set chs')) (das_artifacts (eg_artifacts ?eg))"
  proof -
    have "ch_id ` set chs' = ch_id ` set chs"
      using arg_cong [OF ids, of set] by simp
    then show ?thesis
      using assms(1,5-8) wf by (auto simp: egress_ok_def with_artifact_def das_push_def artifact_ok_def assms(4))
  qed
  with q' show ?thesis
    using ledger_ok_with_artifact [OF _ assms(10)] assms(1) by (simp add: egress_ok_def)
qed

context batcher_world
begin

lemma holds_stream: "holds V config fs batches stream c \<Longrightarrow> batches \<noteq> [] \<Longrightarrow> length stream \<le> 100000000"
  using stream_small [OF vec_writer_axioms] by (auto simp: holds_def)

lemma chan_frames:
  assumes "config_ok config" "chan_ok V config blocks L c"
  obtains stream where "framed (frames_of (ch_id c) L) stream c" "budget (frames_of (ch_id c) L) c"
    "length stream \<le> 100000000" "2000 \<le> max_frame_data c"
proof -
  obtain old batches stream where h: "length batches = ch_blocks_added c" "holds V config (frames_of (ch_id c) L) (old @ batches) stream c"
    using assms(2) by (auto simp: chan_ok_def chan_holds_def)
  have "old @ batches \<noteq> []"
    using h(1) assms(2) by (auto simp: chan_ok_def)
  with h(2) holds_stream [OF h(2)] assms that show thesis
    by (auto simp: holds_def config_ok_def chan_ok_def chan_holds_def max_frame_data_def FRAME_ENCODED_OVERHEAD_def)
qed

lemma pace_room: "(a + b) * 1900 \<le> n + 3800 \<Longrightarrow> n \<le> 100000000 \<Longrightarrow> a + b \<le> MAX_FRAMES" for a b n :: nat
  by (simp add: MAX_FRAMES_def)

text \<open>The plans of the egress can be carried out, and keep the invariant.\<close>

lemma commit_blob_keeps:
  assumes "config_ok config" "egress_ok V config blocks cursor chs eg" "plan_blob chs l1 = Some plan"
    and "das_next_id (eg_artifacts eg) \<noteq> - 1"
  shows "\<exists>new chs' ids. commit_blob plan chs eg = Ok (chs', with_artifact (ArBlob \<lparr>bp_frames = new\<rparr>) ids eg)
    \<and> egress_ok V config blocks cursor chs' (with_artifact (ArBlob \<lparr>bp_frames = new\<rparr>) ids eg)
    \<and> chans_cut new chs chs' \<and> new \<noteq> [] \<and> f_id ` set new \<subseteq> ch_id ` set chs"
proof -
  have q: "\<forall>c \<in> set chs. chan_ok V config blocks (eg_artifacts eg) c" "distinct (map ch_id chs)" "sorted_wrt fifo chs"
    using assms(2) by (auto simp: egress_ok_def queue_ok_def)
  have ready: "framable c \<and> room plan c" if c: "c \<in> set chs" for c
  proof -
    obtain stream where st: "framed (frames_of (ch_id c) (eg_artifacts eg)) stream c" "budget (frames_of (ch_id c) (eg_artifacts eg)) c"
        "length stream \<le> 100000000" "2000 \<le> max_frame_data c"
      using chan_frames [OF assms(1)] q(1) c by blast
    from pace_room [OF blob_pace(1) [OF assms(3) q(3,2) c st(4,1,2) refl] st(3)] st show ?thesis
      by (auto simp: framable_def room_def framed_def)
  qed
  obtain new chs' where new: "commit_blob plan chs eg = Ok (chs', with_artifact (ArBlob \<lparr>bp_frames = new\<rparr>) (push_new (map f_id new) []) eg)"
      "chans_cut new chs chs'" "new \<noteq> []" "map planned_of new = plan" "sum_list (map encoded_len new) \<le> BLOB_CAPACITY" "sorted_wrt fifo chs'"
    using commit_blob_ok [OF assms(3) q(2)] ready q(3) by blast
  have ids: "f_id ` set new \<subseteq> ch_id ` set chs"
  proof -
    have "fst ` set plan \<subseteq> ch_id ` set chs"
      using assms(3) plan_channels_ids [of l1 chs BLOB_CAPACITY False]
      by (auto simp: plan_blob_def Let_def simp del: image_subset_iff split: prod.splits if_splits)
    moreover have "fst ` set plan = f_id ` set new"
      unfolding new(4) [symmetric] by (simp add: image_image planned_of_def)
    ultimately show ?thesis
      by simp
  qed
  have "egress_ok V config blocks cursor chs' (with_artifact (ArBlob \<lparr>bp_frames = new\<rparr>) (push_new (map f_id new) []) eg)"
  proof (rule commit_queue_ok [OF assms(2) new(2,6) _ _ new(3) _ ids _ assms(4,1)])
    fix c c' fs stream
    assume c: "c \<in> set chs" "framed fs stream c" "budget fs c" "framed (fs @ filter (\<lambda>f. f_id f = ch_id c) new) stream c'"
    have "2000 \<le> max_frame_data c"
      using chan_frames [OF assms(1)] q(1) c(1) by blast
    from blob_pace(2) [OF assms(3) q(3,2) c(1) this c(2,3) refl planned_parts [OF new(4)] c(4)]
    show "budget (fs @ filter (\<lambda>f. f_id f = ch_id c) new) c'" .
  qed (use new(3,5) in \<open>simp_all add: blob_frame_bytes_def\<close>)
  then show ?thesis
    using new(1-3) ids by blast
qed

lemma commit_calldata_keeps:
  assumes "config_ok config" "egress_ok V config blocks cursor chs eg" "plan_calldata chs = Some p"
    and "das_next_id (eg_artifacts eg) \<noteq> - 1"
  shows "\<exists>f chs'. commit_calldata p chs eg = Ok (chs', with_artifact (ArCalldata f) [f_id f] eg)
    \<and> egress_ok V config blocks cursor chs' (with_artifact (ArCalldata f) [f_id f] eg)
    \<and> chans_cut [f] chs chs' \<and> f_id f \<in> ch_id ` set chs"
proof -
  have q: "\<forall>c \<in> set chs. chan_ok V config blocks (eg_artifacts eg) c" "distinct (map ch_id chs)" "sorted_wrt fifo chs"
    using assms(2) by (auto simp: egress_ok_def queue_ok_def)
  have ready: "framable c \<and> room [p] c" if c: "c \<in> set chs" for c
  proof -
    obtain stream where st: "framed (frames_of (ch_id c) (eg_artifacts eg)) stream c" "budget (frames_of (ch_id c) (eg_artifacts eg)) c"
        "length stream \<le> 100000000" "2000 \<le> max_frame_data c"
      using chan_frames [OF assms(1)] q(1) c by blast
    from pace_room [OF calldata_pace(1) [OF assms(3) c q(2) st(4,1,2) refl] st(3)] st show ?thesis
      unfolding framable_def room_def framed_def by auto
  qed
  obtain f chs' where f: "commit_calldata p chs eg = Ok (chs', with_artifact (ArCalldata f) [f_id f] eg)"
      "chans_cut [f] chs chs'" "planned_of f = p" "sorted_wrt fifo chs'"
    using commit_calldata_ok [OF assms(3) q(2)] ready q(3) by blast
  obtain pre c post n l where at: "chs = pre @ c # post" "p = (ch_id c, n, l)" "n \<le> max_frame_data c"
    using plan_calldata_at [OF assms(3)] by metis
  then have id: "f_id f = ch_id c" "length (f_data f) \<le> max_frame_data c"
    using f(3) by (simp_all add: planned_of_def)
  have "ch_max_frame_size c = ec_max_frame_size config"
    using q(1) at(1) by (simp add: chan_ok_def chan_holds_def)
  then have fits: "payload_fits (ArCalldata f)"
    using id(2) assms(1) by (auto simp: config_ok_def config_validate_Ok encoded_len_def max_frame_data_def)
  have "egress_ok V config blocks cursor chs' (with_artifact (ArCalldata f) [f_id f] eg)"
  proof (rule commit_queue_ok [OF assms(2) f(2,4) _ _ _ fits _ _ assms(4,1)])
    fix c c' fs stream
    assume c: "c \<in> set chs" "framed fs stream c" "budget fs c" "framed (fs @ filter (\<lambda>g. f_id g = ch_id c) [f]) stream c'"
    have "2000 \<le> max_frame_data c"
      using chan_frames [OF assms(1)] q(1) c(1) by blast
    from calldata_pace(2) [OF assms(3) c(1) q(2) this c(2,3) refl planned_parts c(4)] f(3)
    show "budget (fs @ filter (\<lambda>g. f_id g = ch_id c) [f]) c'"
      by simp
  qed (use id at(1) in auto)
  moreover have "f_id f \<in> ch_id ` set chs"
    using id(1) at(1) by simp
  ultimately show ?thesis
    using f(1,2) by blast
qed

end

section \<open>What is left to submit\<close>

definition load :: "'z enc_channel list \<Rightarrow> nat" where
  "load chs = sum_list (map weight chs)"

lemma cut_to_weight: "cut_to new c c' \<Longrightarrow> weight c' + length new \<le> weight c"
  by (simp add: cut_to_def)

lemma chans_cut_load:
  assumes "chans_cut new chs chs'"
  shows "load chs' \<le> load chs" "f_id ` set new \<inter> ch_id ` set chs \<noteq> {} \<Longrightarrow> load chs' < load chs"
proof -
  have "load chs' \<le> load chs \<and> (f_id ` set new \<inter> ch_id ` set chs \<noteq> {} \<longrightarrow> load chs' < load chs)"
    using assms unfolding chans_cut_def
  proof (induction rule: list_all2_induct)
    case (Cons c chs c' chs')
    define n where "n = length (filter (\<lambda>f. f_id f = ch_id c) new)"
    have "ch_id c \<notin> f_id ` set new \<or> 0 < n"
      by (auto simp: n_def filter_empty_conv)
    moreover have "weight c' + n \<le> weight c"
      using cut_to_weight [OF Cons(1)] by (simp add: n_def)
    ultimately show ?case
      using Cons(3) by (auto simp: load_def)
  qed (simp add: load_def)
  then show "load chs' \<le> load chs" "f_id ` set new \<inter> ch_id ` set chs \<noteq> {} \<Longrightarrow> load chs' < load chs"
    by auto
qed

lemma chans_cut_refl: "chans_cut [] chs chs"
  by (simp add: chans_cut_other)

lemma chans_cut_trans:
  assumes "chans_cut new chs chs'" "chans_cut new' chs' chs''"
  shows "chans_cut (new @ new') chs chs''"
  using assms unfolding chans_cut_def
proof (induction arbitrary: chs'' rule: list_all2_induct)
  case (Cons c chs c' chs')
  then obtain d ds where chs'': "chs'' = d # ds" "cut_to (filter (\<lambda>f. f_id f = ch_id c') new') c' d"
      "list_all2 (\<lambda>c. cut_to (filter (\<lambda>f. f_id f = ch_id c) new') c) chs' ds"
    by (cases chs'') auto
  then show ?case
    using Cons(1) Cons(3) cut_to_trans [OF Cons(1), of "filter (\<lambda>f. f_id f = ch_id c) new'" d] cut_to_fields(1) [OF Cons(1)] by simp
qed simp

lemma queue_ok_frames:
  assumes "\<forall>c \<in> set chs. frames_of (ch_id c) L' = frames_of (ch_id c) L"
  shows "queue_ok V config blocks cursor L' chs = queue_ok V config blocks cursor L chs"
  using assms by (auto simp: queue_ok_def chan_ok_def chan_holds_def)

lemma with_artifact_simps [simp]:
  "has_ready (eg_artifacts (with_artifact pl ids eg))" "eg_pending (with_artifact pl ids eg) = eg_pending eg"
  "das_next_id (eg_artifacts (with_artifact pl ids eg)) = das_next_id (eg_artifacts eg) + 1"
  "length (ready (eg_artifacts (with_artifact pl ids eg))) = length (ready (eg_artifacts eg)) + 1"
  by (simp_all add: with_artifact_def das_push_def has_ready_def ready_def)

text \<open>The lease of ready artifacts.\<close>

lemma leases_mark: "leases ids L L' \<Longrightarrow> L' = mark Pending ids L"
  by (simp add: leases_def mark_def)

lemma leases_ready:
  assumes "leases ids L L'"
  shows "length (ready L') < length (ready L)"
proof -
  have as: "das_artifacts L' = map (\<lambda>a. if ar_id a \<in> set ids then a\<lparr>ar_state := Pending\<rparr> else a) (das_artifacts L)"
    and "ids \<noteq> []" "set ids \<subseteq> ar_id ` {a \<in> set (das_artifacts L). ar_state a = Ready}"
    using assms by (auto simp: leases_def)
  then obtain a where a: "a \<in> set (das_artifacts L)" "ar_state a = Ready" "ar_id a \<in> set ids"
    by (cases ids) auto
  have "length (filter (\<lambda>a. ar_state a = Ready) (map (\<lambda>a. if ar_id a \<in> set ids then a\<lparr>ar_state := Pending\<rparr> else a) as))
      = length (filter (\<lambda>a. ar_id a \<notin> set ids) (filter (\<lambda>a. ar_state a = Ready) as))" for as
    by (induction as) auto
  from this [of "das_artifacts L"] have "length (ready L') = length (filter (\<lambda>a. ar_id a \<notin> set ids) (ready L))"
    unfolding ready_def as .
  moreover have "length (filter (\<lambda>a. ar_id a \<notin> set ids) (ready L)) < length (ready L)"
    using a by (intro length_filter_less [of a]) (auto simp: ready_def)
  ultimately show ?thesis
    by simp
qed

lemma lease_keeps:
  assumes "egress_ok V config blocks cursor chs eg" "leases ids (eg_artifacts eg) L'" "sid \<notin> fst ` set (eg_pending eg)"
  shows "egress_ok V config blocks cursor chs (eg\<lparr>eg_artifacts := L', eg_pending := AList.update sid ids (eg_pending eg)\<rparr>)"
  using assms ledger_ok_lease [OF _ assms(2,3)] queue_ok_frames [of chs L' "eg_artifacts eg" V config blocks cursor]
    artifact_ok_mark [of "ch_id ` set chs" Pending ids "eg_artifacts eg"]
  by (simp add: egress_ok_def leases_mark [OF assms(2)])

context batcher_world
begin

lemma next_nonmax: "unat x + Suc n < 2 ^ 64 \<Longrightarrow> x \<noteq> - 1 \<and> unat (x + 1) = unat x + 1" for x :: u64
proof -
  assume "unat x + Suc n < 2 ^ 64"
  moreover have "unat (- 1 :: u64) = 2 ^ 64 - 1"
    by (simp add: unsigned_minus_1_eq_mask mask_eq_exp_minus_1)
  ultimately show ?thesis
    by (auto simp: unat_word_ariths)
qed

lemma build_blobs_keeps:
  assumes "config_ok config" "egress_ok V config blocks cursor chs eg"
    and "unat (das_next_id (eg_artifacts eg)) + (m - ready_blob_count (eg_artifacts eg)) < 2 ^ 64"
  shows "\<exists>new chs' eg'. build_blobs l1 m chs eg = Ok (chs', eg') \<and> egress_ok V config blocks cursor chs' eg'
    \<and> eg_pending eg' = eg_pending eg \<and> chans_cut new chs chs'
    \<and> load chs' + length (ready (eg_artifacts eg')) \<le> load chs + length (ready (eg_artifacts eg))
    \<and> unat (das_next_id (eg_artifacts eg')) + load chs' \<le> unat (das_next_id (eg_artifacts eg)) + load chs
    \<and> (if ready_blob_count (eg_artifacts eg) < m \<and> plan_blob chs l1 \<noteq> None then has_ready (eg_artifacts eg') else chs' = chs \<and> eg' = eg)"
  using assms
proof (induction l1 m chs eg rule: build_blobs.induct)
  case (1 l1 m chs eg)
  show ?case
  proof (cases "ready_blob_count (eg_artifacts eg) < m \<and> plan_blob chs l1 \<noteq> None")
    case False
    then have "build_blobs l1 m chs eg = Ok (chs, eg)"
      by (auto simp: build_blobs.simps [of l1 m])
    then show ?thesis
      using False 1(3) chans_cut_refl by fastforce
  next
    case True
    then obtain plan where plan: "ready_blob_count (eg_artifacts eg) < m" "plan_blob chs l1 = Some plan"
      by auto
    have nm: "das_next_id (eg_artifacts eg) \<noteq> - 1" "unat (das_next_id (eg_artifacts eg) + 1) = unat (das_next_id (eg_artifacts eg)) + 1"
      using next_nonmax [of "das_next_id (eg_artifacts eg)" "m - ready_blob_count (eg_artifacts eg) - 1"] 1(4) plan(1) by auto
    obtain new chs1 ids where c: "commit_blob plan chs eg = Ok (chs1, with_artifact (ArBlob \<lparr>bp_frames = new\<rparr>) ids eg)"
        "egress_ok V config blocks cursor chs1 (with_artifact (ArBlob \<lparr>bp_frames = new\<rparr>) ids eg)"
        "chans_cut new chs chs1" "new \<noteq> []" "f_id ` set new \<subseteq> ch_id ` set chs"
      using commit_blob_keeps [OF 1(2,3) plan(2) nm(1)] by blast
    let ?eg = "with_artifact (ArBlob \<lparr>bp_frames = new\<rparr>) ids eg"
    have less: "load chs1 < load chs"
      using chans_cut_load(2) [OF c(3)] c(4,5) by (cases new) auto
    have "unat (das_next_id (eg_artifacts ?eg)) + (m - ready_blob_count (eg_artifacts ?eg)) < 2 ^ 64"
      using 1(4) plan(1) nm(2) ready_blob_count_commit [OF c(1)] by simp
    from 1(1) [OF plan c(1) refl 1(2) c(2) this] obtain new' chs' eg' where
        r: "build_blobs l1 m chs1 ?eg = Ok (chs', eg')" "egress_ok V config blocks cursor chs' eg'" "eg_pending eg' = eg_pending ?eg"
          "chans_cut new' chs1 chs'" "load chs' + length (ready (eg_artifacts eg')) \<le> load chs1 + length (ready (eg_artifacts ?eg))"
          "has_ready (eg_artifacts eg') \<or> eg' = ?eg"
          "unat (das_next_id (eg_artifacts eg')) + load chs' \<le> unat (das_next_id (eg_artifacts ?eg)) + load chs1"
      by (auto split: if_splits)
    have "build_blobs l1 m chs eg = Ok (chs', eg')"
      using plan c(1) r(1) by (simp add: build_blobs.simps [of l1 m chs])
    then show ?thesis
      using r less nm(2) True chans_cut_trans [OF c(3) r(4)] by (intro exI [of _ "new @ new'"] exI [of _ chs'] exI [of _ eg']) auto
  qed
qed

lemma build_ready_keeps:
  assumes "config_ok config" "egress_ok V config blocks cursor chs eg" "\<not> has_ready (eg_artifacts eg)"
    and "0 < m" "unat (das_next_id (eg_artifacts eg)) + m < 2 ^ 64"
  shows "\<exists>new chs' eg'. build_ready_artifacts da l1 m chs eg = Ok (chs', eg') \<and> egress_ok V config blocks cursor chs' eg'
    \<and> eg_pending eg' = eg_pending eg \<and> chans_cut new chs chs'
    \<and> load chs' + length (ready (eg_artifacts eg')) \<le> load chs + length (ready (eg_artifacts eg))
    \<and> unat (das_next_id (eg_artifacts eg')) + load chs' \<le> unat (das_next_id (eg_artifacts eg)) + load chs
    \<and> (if eg_has_ready_submission chs da l1 eg then has_ready (eg_artifacts eg') else chs' = chs \<and> eg' = eg)"
proof (cases da)
  case DaBlob
  have "ready_blob_count (eg_artifacts eg) = 0"
    using assms(3) by (auto simp: ready_blob_count_def ready_def has_ready_def list_ex_iff filter_empty_conv)
  with build_blobs_keeps [OF assms(1,2), of m l1] assms(3-5) show ?thesis
    by (simp add: DaBlob build_ready_artifacts_def eg_has_ready_submission_def)
next
  case DaCalldata
  show ?thesis
  proof (cases "plan_calldata chs")
    case None
    then show ?thesis
      using assms(2,3) chans_cut_refl [of chs] by (auto simp: DaCalldata build_ready_artifacts_def eg_has_ready_submission_def)
  next
    case (Some p)
    have nm: "das_next_id (eg_artifacts eg) \<noteq> - 1" "unat (das_next_id (eg_artifacts eg) + 1) = unat (das_next_id (eg_artifacts eg)) + 1"
      using next_nonmax [of "das_next_id (eg_artifacts eg)" "m - 1"] assms(4,5) by auto
    from commit_calldata_keeps [OF assms(1,2) Some nm(1)] obtain f chs' where
        c: "commit_calldata p chs eg = Ok (chs', with_artifact (ArCalldata f) [f_id f] eg)"
          "egress_ok V config blocks cursor chs' (with_artifact (ArCalldata f) [f_id f] eg)"
          "chans_cut [f] chs chs'" "f_id f \<in> ch_id ` set chs"
      by blast
    moreover have "load chs' < load chs"
      using chans_cut_load(2) [OF c(3)] c(4) by simp
    ultimately show ?thesis
      using Some nm(2) by (auto simp: DaCalldata build_ready_artifacts_def eg_has_ready_submission_def intro!: exI [of _ "[f]"])
  qed
qed

text \<open>The next submission: never a panic, a submission exactly when one was announced, and less is left to submit.\<close>

lemma eg_next_keeps:
  assumes "config_ok config" "egress_ok V config blocks cursor chs eg" "sid \<notin> fst ` set (eg_pending eg)"
    and "0 < m" "unat (das_next_id (eg_artifacts eg)) + m < 2 ^ 64"
  shows "\<exists>sub new chs' eg'. eg_next_submission da l1 m sid chs eg = Ok (sub, chs', eg') \<and> egress_ok V config blocks cursor chs' eg'
    \<and> chans_cut new chs chs'
    \<and> (case sub of
         None \<Rightarrow> \<not> eg_has_ready_submission chs da l1 eg \<and> chs' = chs \<and> eg' = eg
       | Some sub \<Rightarrow> eg_has_ready_submission chs da l1 eg
           \<and> load chs' + length (ready (eg_artifacts eg')) < load chs + length (ready (eg_artifacts eg))
           \<and> unat (das_next_id (eg_artifacts eg')) + load chs' \<le> unat (das_next_id (eg_artifacts eg)) + load chs
           \<and> fst ` set (eg_pending eg') = insert sid (fst ` set (eg_pending eg))
           \<and> (\<exists>ids eg1. egress_ok V config blocks cursor chs' eg1 \<and> lease_of sid m sub ids (eg_artifacts eg1) (eg_artifacts eg')))"
proof -
  obtain new chs1 eg1 where b: "(if has_ready (eg_artifacts eg) then Ok (chs, eg) else build_ready_artifacts da l1 m chs eg) = Ok (chs1, eg1)"
      "egress_ok V config blocks cursor chs1 eg1" "eg_pending eg1 = eg_pending eg" "chans_cut new chs chs1"
      "load chs1 + length (ready (eg_artifacts eg1)) \<le> load chs + length (ready (eg_artifacts eg))"
      "if eg_has_ready_submission chs da l1 eg then has_ready (eg_artifacts eg1) else chs1 = chs \<and> eg1 = eg"
      "unat (das_next_id (eg_artifacts eg1)) + load chs1 \<le> unat (das_next_id (eg_artifacts eg)) + load chs"
  proof (cases "has_ready (eg_artifacts eg)")
    case True
    then show thesis
      using that [of chs eg "[]"] assms(2) chans_cut_refl [of chs] by (simp add: eg_has_ready_submission_def)
  next
    case False
    then show thesis
      using that build_ready_keeps [OF assms(1,2) False assms(4,5)] by fastforce
  qed
  have ids: "distinct (map ar_id (das_artifacts (eg_artifacts eg1)))"
    using b(2) by (simp add: egress_ok_def ledger_ok_def ids_ok_def)
  note lease = das_lease_ok [OF ids assms(4), of sid]
  show ?thesis
  proof (cases "has_ready (eg_artifacts eg1)")
    case False
    then have same: "\<not> eg_has_ready_submission chs da l1 eg" "chs1 = chs" "eg1 = eg"
      using b(6) by (auto split: if_splits)
    then have "eg_next_submission da l1 m sid chs eg = Ok (None, chs, eg)"
      using b(1) lease False by (simp add: eg_next_submission_def)
    then show ?thesis
      using same assms(2) chans_cut_refl [of chs] by (intro exI [of _ None] exI [of _ "[]"] exI [of _ chs] exI [of _ eg]) simp
  next
    case True
    then obtain sub ids L' where l: "das_lease sid m (eg_artifacts eg1) = Ok (Some (sub, ids), L')" "lease_of sid m sub ids (eg_artifacts eg1) L'"
      using lease by auto
    have ls: "leases ids (eg_artifacts eg1) L'"
      using l(2) by (simp add: lease_of_def)
    let ?eg = "eg1\<lparr>eg_artifacts := L', eg_pending := AList.update sid ids (eg_pending eg1)\<rparr>"
    have eq: "eg_next_submission da l1 m sid chs eg = Ok (Some sub, chs1, ?eg)"
      using b(1) l(1) by (simp add: eg_next_submission_def)
    have some: "eg_has_ready_submission chs da l1 eg"
      using b(6) True by (metis eg_has_ready_submission_def)
    have keys: "fst ` set (eg_pending ?eg) = insert sid (fst ` set (eg_pending eg))"
      using update_new [of sid "eg_pending eg1" ids] assms(3) b(3) by simp
    have ok: "egress_ok V config blocks cursor chs1 ?eg"
      using lease_keeps [OF b(2) ls] assms(3) b(3) by simp
    show ?thesis
      using eq some keys ok b(2,4,5,7) l(2) leases_ready [OF ls] leases_mark [OF ls]
      by (intro exI [of _ "Some sub"] exI [of _ new] exI [of _ chs1] exI [of _ ?eg]) auto
  qed
qed

end

section \<open>Blocks and channels\<close>

lemma tiled_range: "tiled i chs j \<Longrightarrow> i \<le> j \<and> (\<forall>c \<in> set chs. i \<le> ch_block_start c \<and> block_range_end c \<le> j)"
proof (induction chs arbitrary: i)
  case (Cons c chs)
  then have "ch_block_start c = i" "block_range_end c \<le> j" "\<forall>d \<in> set chs. block_range_end c \<le> ch_block_start d \<and> block_range_end d \<le> j"
    by auto
  then show ?case
    by (auto simp: block_range_end_def)
qed simp

lemma queue_ok_snoc:
  "queue_ok V config blocks cursor L (chs @ [c]) \<longleftrightarrow>
     queue_ok V config blocks (ch_block_start c) L chs \<and> block_range_end c = cursor \<and> cursor \<le> length blocks
     \<and> (\<forall>x \<in> set chs. \<not> ch_is_open x \<and> fifo x c) \<and> ch_id c \<notin> ch_id ` set chs \<and> chan_ok V config blocks L c"
  by (auto simp: queue_ok_def tiled_append sorted_wrt_append block_range_end_def dest: in_set_butlastD)

text \<open>A block at the end of the queue, and a block at the end of a channel.\<close>

lemma queue_ok_block:
  assumes "queue_ok V config blocks cursor L chs"
  shows "queue_ok V config (blocks @ [b]) cursor L chs"
proof -
  have "channel_blocks (blocks @ [b]) c = channel_blocks blocks c" if "c \<in> set chs" for c
  proof -
    have "block_range_end c \<le> length blocks"
      using assms tiled_range [of 0 chs cursor] that by (fastforce simp: queue_ok_def)
    then show ?thesis
      by (simp add: channel_blocks_def block_range_end_def)
  qed
  then show ?thesis
    using assms by (auto simp: queue_ok_def chan_ok_def chan_holds_def)
qed

lemma holds_cong:
  "framed fs stream c = framed fs stream c' \<Longrightarrow> framing_complete c = framing_complete c' \<Longrightarrow> ch_compressor c = ch_compressor c' \<Longrightarrow>
   ch_input_bytes c = ch_input_bytes c' \<Longrightarrow> max_frame_data c = max_frame_data c' \<Longrightarrow>
   holds V config fs batches stream c = holds V config fs batches stream c'"
  by (simp add: holds_def streamed_def admitted_def budget_def)

text \<open>The deadlines, the confirmations and the scratch buffer of a channel are no part of the invariant.\<close>

definition core :: "'z enc_channel \<Rightarrow> 'z enc_channel" where
  "core c = c\<lparr>ch_deadline_l1_block := 0, ch_first_confirmed_l1_block := None, ch_last_confirmed_l1_block := None,
     ch_candidate_scratch := []\<rparr>"

lemma core_simps [simp]:
  "ch_id (core c) = ch_id c" "ch_is_open (core c) = ch_is_open c" "ch_block_start (core c) = ch_block_start c"
  "ch_blocks_added (core c) = ch_blocks_added c" "framing_complete (core c) = framing_complete c"
  "ch_next_frame_number (core c) = ch_next_frame_number c" "max_frame_data (core c) = max_frame_data c"
  "ch_max_frame_size (core c) = ch_max_frame_size c" "fifo (core c) (core d) = fifo c d" "weight (core c) = weight c"
  "channel_blocks blocks (core c) = channel_blocks blocks c" "block_range_end (core c) = block_range_end c"
  by (simp_all add: core_def ch_is_open_def framing_complete_def max_frame_data_def fifo_def weight_def channel_blocks_def block_range_end_def)

lemma core_change [simp]: "core (release_at l1 c) = core c" "core (record_confirmation l1 c) = core c"
  "core (c\<lparr>ch_candidate_scratch := w\<rparr>) = core c"
  by (simp_all add: core_def release_at_def record_confirmation_def)

lemma holds_core [simp]: "holds V config fs batches stream (core c) = holds V config fs batches stream c"
  by (rule holds_cong, rule framed_cong) (simp_all add: core_def framing_complete_def max_frame_data_def ch_is_open_def)

lemma chan_ok_core: "chan_ok V config blocks L (core c) = chan_ok V config blocks L c"
  by (simp add: chan_ok_def chan_holds_def)

lemma tiled_core: "tiled i (map core chs) j = tiled i chs j"
  by (induction chs arbitrary: i) auto

lemma queue_ok_core: "queue_ok V config blocks cursor L (map core chs) = queue_ok V config blocks cursor L chs"
  by (auto simp: queue_ok_def tiled_core sorted_wrt_map chan_ok_def chan_holds_def comp_def simp flip: map_butlast)

lemma same_core_map: "map core chs' = map core chs \<Longrightarrow> (\<And>c. f (core c) = f c) \<Longrightarrow> map f chs' = map f chs"
proof -
  assume eq: "map core chs' = map core chs" and f: "\<And>c. f (core c) = f c"
  have step: "map f chs = map f (map core chs)" for chs
    by (simp add: f)
  show "map f chs' = map f chs"
    by (simp only: step [of chs'] step [of chs] eq)
qed

lemma same_core:
  assumes "map core chs' = map core chs"
  shows "queue_ok V config blocks cursor L chs' = queue_ok V config blocks cursor L chs" "map ch_id chs' = map ch_id chs"
    "ch_id ` set chs' = ch_id ` set chs" "load chs' = load chs" "map ch_is_open chs' = map ch_is_open chs"
    "map framing_complete chs' = map framing_complete chs"
proof -
  show "queue_ok V config blocks cursor L chs' = queue_ok V config blocks cursor L chs"
    by (metis assms queue_ok_core)
  show "map ch_id chs' = map ch_id chs" "map ch_is_open chs' = map ch_is_open chs" "map framing_complete chs' = map framing_complete chs"
    by (rule same_core_map [OF assms], simp)+
  then show "ch_id ` set chs' = ch_id ` set chs"
    by (metis set_map)
  show "load chs' = load chs"
    unfolding load_def by (rule arg_cong [of _ _ sum_list]) (rule same_core_map [OF assms], simp)
qed

section \<open>Closing a channel and adding a batch\<close>

lemma close_holds:
  assumes "holds V config fs batches stream c" "ch_is_open c" "ch_close (bt_writer V) c = (r, c')"
  shows "\<exists>stream'. r = Ok () \<and> holds V config fs batches stream' c' \<and> \<not> ch_is_open c' \<and> ch_terminal_pending c'
    \<and> ch_id c' = ch_id c \<and> ch_max_frame_size c' = ch_max_frame_size c \<and> ch_block_start c' = ch_block_start c
    \<and> ch_blocks_added c' = ch_blocks_added c \<and> ch_next_frame_number c' = ch_next_frame_number c"
proof -
  obtain cs where cs: "ch_compressor c = Some cs"
    using assms(2) by (auto simp: ch_is_open_def)
  obtain tail where cl: "r = Ok ()" "framed fs (stream @ tail) c'" "\<not> ch_is_open c'" "ch_terminal_pending c'" "cs_finish (bt_writer V) cs = Ok tail"
    using framed_close [OF _ assms(2,3)] assms(1) cs by (auto simp: holds_def)
  have c': "c' = push_output tail (c\<lparr>ch_compressor := None, ch_terminal_pending := True, ch_candidate_scratch := []\<rparr>)"
    using assms(3) cs cl(5) by (simp add: ch_close_def Let_def)
  have "streamed (bt_writer V) (ec_brotli_level config) (map (batch_wire V) batches) (stream @ tail) c'"
    using assms(1) cs cl(5) by (auto simp: holds_def streamed_def compressed_stream_def c')
  moreover have "admitted (bt_writer V) (map (batch_wire V) batches) c'"
    using assms(1) by (simp add: holds_def admitted_def c' max_frame_data_def)
  moreover have "budget fs c'"
    using assms(1) cs by (simp add: holds_def budget_def framing_complete_def c')
  ultimately show ?thesis
    using cl by (intro exI [of _ "stream @ tail"]) (simp add: holds_def c')
qed

lemma chan_ok_close:
  assumes "chan_ok V config blocks L c" "ch_is_open c" "ch_close (bt_writer V) c = (r, c')"
  shows "r = Ok () \<and> chan_ok V config blocks L c' \<and> \<not> ch_is_open c' \<and> \<not> framing_complete c' \<and> ch_id c' = ch_id c
    \<and> ch_block_start c' = ch_block_start c \<and> ch_blocks_added c' = ch_blocks_added c \<and> ch_next_frame_number c' = ch_next_frame_number c"
proof -
  obtain old batches stream where h: "map block_to_single_batch (channel_blocks blocks c) = map Ok batches"
      "length batches = ch_blocks_added c" "holds V config (frames_of (ch_id c) L) (old @ batches) stream c"
    using assms(1) unfolding chan_ok_def chan_holds_def by blast
  obtain stream' where st: "r = Ok ()" "holds V config (frames_of (ch_id c) L) (old @ batches) stream' c'" "\<not> ch_is_open c'"
      "ch_terminal_pending c'" and fl: "ch_id c' = ch_id c" "ch_max_frame_size c' = ch_max_frame_size c" "ch_block_start c' = ch_block_start c"
      "ch_blocks_added c' = ch_blocks_added c" "ch_next_frame_number c' = ch_next_frame_number c"
    using close_holds [OF h(3) assms(2,3)] by blast
  have "chan_holds V config blocks L c'"
    using h(1,2) st(2) assms(1) unfolding chan_ok_def chan_holds_def fl channel_blocks_def by blast
  then show ?thesis
    using st(1,3,4) fl assms(1) by (simp add: chan_ok_def framing_complete_def)
qed

definition last_open :: "('z, 'r) batch_encoder \<Rightarrow> bool" where
  "last_open s \<longleftrightarrow> en_channels s \<noteq> [] \<and> ch_is_open (last (en_channels s))"

lemma egress_ok_channels:
  assumes "egress_ok V config blocks cursor chs eg" "queue_ok V config' blocks' cursor' (eg_artifacts eg) chs'" "ch_id ` set chs' = ch_id ` set chs"
  shows "egress_ok V config' blocks' cursor' chs' eg"
  using assms by (simp add: egress_ok_def)

lemma close_current_keeps:
  assumes "enc_inv V s"
  shows "\<exists>chs. close_current_channel V s = (Ok (), s\<lparr>en_channels := chs\<rparr>) \<and> enc_inv V (s\<lparr>en_channels := chs\<rparr>)
    \<and> \<not> last_open (s\<lparr>en_channels := chs\<rparr>) \<and> map ch_id chs = map ch_id (en_channels s) \<and> (\<not> last_open s \<longrightarrow> chs = en_channels s)"
proof (cases "last_open s")
  case True
  obtain pre c where chs: "en_channels s = pre @ [c]"
    using True by (metis append_butlast_last_id last_open_def)
  have q: "queue_ok V (en_config s) (en_blocks s) (en_block_cursor s) (eg_artifacts (en_egress s)) (pre @ [c])"
    using assms by (simp add: enc_inv_def egress_ok_def chs)
  then have ok: "chan_ok V (en_config s) (en_blocks s) (eg_artifacts (en_egress s)) c" "ch_is_open c"
    using True by (simp_all add: queue_ok_snoc last_open_def chs)
  obtain r c' where cl: "ch_close (bt_writer V) c = (r, c')"
    by fastforce
  note c' = chan_ok_close [OF ok cl]
  have "close_current_channel V s = (Ok (), s\<lparr>en_channels := pre @ [c']\<rparr>)"
    using ok cl c' by (simp add: close_current_channel_def chs ch_is_empty_def chan_ok_def)
  moreover have "queue_ok V (en_config s) (en_blocks s) (en_block_cursor s) (eg_artifacts (en_egress s)) (pre @ [c'])"
    using q c' by (auto simp: queue_ok_snoc block_range_end_def fifo_def)
  then have "enc_inv V (s\<lparr>en_channels := pre @ [c']\<rparr>)"
    using assms c' egress_ok_channels [of V "en_config s" "en_blocks s" "en_block_cursor s" "en_channels s" "en_egress s"]
    by (simp add: enc_inv_def chs)
  ultimately show ?thesis
    using c' True by (intro exI [of _ "pre @ [c']"]) (simp add: last_open_def chs)
next
  case False
  then have "close_current_channel V s = (Ok (), s)"
    by (auto simp: close_current_channel_def last_open_def)
  then show ?thesis
    using assms False by (intro exI [of _ "en_channels s"]) simp
qed

lemma channel_blocks_Suc:
  assumes "block_range_end c < length blocks" "ch_block_start c' = ch_block_start c" "ch_blocks_added c' = Suc (ch_blocks_added c)"
  shows "channel_blocks blocks c' = channel_blocks blocks c @ [blocks ! block_range_end c]"
  using assms by (simp add: channel_blocks_def block_range_end_def take_Suc_conv_app_nth)

context batcher_world
begin

text \<open>An open channel takes the batch of the next block, or rejects it and stays as it is.\<close>

lemma add_batch_keeps:
  assumes "config_ok config" "chan_holds V config blocks L c" "ch_is_open c" "block_range_end c < length blocks"
    and "block_to_single_batch (blocks ! block_range_end c) = Ok b" "length (batch_wire V b) < 2 ^ 64"
  obtains limit where "ch_add_batch V b n c = (Ok (Rejected limit), c\<lparr>ch_candidate_scratch := batch_wire V b\<rparr>)"
  | r c' where "ch_add_batch V b n c = (Ok r, c')" "r = Accepted \<or> r = TargetReached" "chan_ok V config blocks L c'" "ch_is_open c'"
      "ch_id c' = ch_id c" "ch_block_start c' = ch_block_start c" "ch_blocks_added c' = Suc (ch_blocks_added c)"
      "ch_next_frame_number c' = ch_next_frame_number c"
proof -
  let ?fs = "frames_of (ch_id c) L"
  obtain old batches stream where h: "map block_to_single_batch (channel_blocks blocks c) = map Ok batches"
      "length batches = ch_blocks_added c" "holds V config ?fs (old @ batches) stream c"
    using assms(2) unfolding chan_holds_def by blast
  have m: "0 < max_frame_data c"
    using assms(1,2) by (simp add: config_ok_def chan_holds_def max_frame_data_def FRAME_ENCODED_OVERHEAD_def)
  have st: "streamed (bt_writer V) (ec_brotli_level config) (map (batch_wire V) (old @ batches)) stream c"
      "admitted (bt_writer V) (map (batch_wire V) (old @ batches)) c"
    using h(3) by (simp_all add: holds_def)
  show thesis
  proof (rule add_batch_cases [OF vec_writer_axioms assms(3) m assms(6) st, of n])
    fix limit
    assume "ch_add_batch V b n c = (Ok (Rejected limit), c\<lparr>ch_candidate_scratch := batch_wire V b\<rparr>)"
    then show thesis
      by (rule that(1))
  next
    fix out cs' nxt r c'
    assume add: "ch_add_batch V b n c = (Ok r, c')" "r = Accepted \<or> r = TargetReached"
      and c': "c' = (push_output out c)\<lparr>ch_candidate_scratch := batch_wire V b, ch_compressor := Some cs', ch_input_bytes := nxt,
         ch_blocks_added := ch_blocks_added c + 1, ch_da_backlog_bytes := ch_da_backlog_bytes c + n\<rparr>"
      and st': "streamed (bt_writer V) (ec_brotli_level config) (map (batch_wire V) (old @ batches) @ [batch_wire V b]) (stream @ out) c'"
        "admitted (bt_writer V) (map (batch_wire V) (old @ batches) @ [batch_wire V b]) c'"
    have nc: "\<not> framing_complete c" "\<not> framing_complete c'"
      using assms(3) by (auto simp: framing_complete_def ch_is_open_def c')
    have fl: "ch_id c' = ch_id c" "ch_block_start c' = ch_block_start c" "ch_blocks_added c' = Suc (ch_blocks_added c)"
        "ch_next_frame_number c' = ch_next_frame_number c" "ch_max_frame_size c' = ch_max_frame_size c" "ch_is_open c'"
      by (simp_all add: c' ch_is_open_def)
    have "framed ?fs (stream @ out) (push_output out c)"
      using framed_push [OF _ nc(1)] h(3) by (simp add: holds_def)
    moreover have "ch_is_open (push_output out c)"
      using assms(3) by simp
    ultimately have "framed ?fs (stream @ out) c'"
      by (subst framed_cong [of _ "push_output out c"]) (simp_all add: c' ch_is_open_def)
    moreover have "budget ?fs c'"
      using h(3) nc by (simp add: holds_def budget_def)
    ultimately have "holds V config ?fs (old @ batches @ [b]) (stream @ out) c'"
      using st' by (simp add: holds_def)
    moreover have "map block_to_single_batch (channel_blocks blocks c') = map Ok (batches @ [b])"
      using channel_blocks_Suc [OF assms(4) fl(2,3)] h(1) assms(5) by simp
    moreover have "length (batches @ [b]) = ch_blocks_added c'"
      using h(2) fl(3) by simp
    ultimately have "chan_holds V config blocks L c'"
      using assms(2) fl(1,5) unfolding chan_holds_def by metis
    then show thesis
      using that(2) [OF add] fl by (simp add: chan_ok_def)
  qed
qed

end

section \<open>Steps of the encoder\<close>

text \<open>The encoder with an open last channel that may still be empty.\<close>

definition open_ok :: "('z, 'r) batcher_env \<Rightarrow> ('z, 'r) batch_encoder \<Rightarrow> 'z enc_channel list \<Rightarrow> 'z enc_channel \<Rightarrow> bool" where
  "open_ok V s pre c \<longleftrightarrow>
     queue_ok V (en_config s) (en_blocks s) (ch_block_start c) (eg_artifacts (en_egress s)) pre
     \<and> (\<forall>x \<in> set pre. \<not> ch_is_open x \<and> fifo x c) \<and> ch_id c \<notin> ch_id ` set pre
     \<and> chan_holds V (en_config s) (en_blocks s) (eg_artifacts (en_egress s)) c \<and> ch_is_open c
     \<and> block_range_end c = en_block_cursor s \<and> en_block_cursor s < length (en_blocks s)
     \<and> list_all (artifact_ok (ch_id ` set (pre @ [c]))) (das_artifacts (eg_artifacts (en_egress s)))
     \<and> ledger_ok (en_egress s) \<and> config_ok (en_config s) \<and> (\<forall>b \<in> set (en_blocks s). block_fits V b)
     \<and> (\<forall>k \<in> fst ` set (eg_pending (en_egress s)). k < en_next_id s)"

lemma open_ok_inv:
  assumes "open_ok V s pre c" "chan_ok V (en_config s) (en_blocks s) (eg_artifacts (en_egress s)) c'" "ch_id c' = ch_id c"
    and "ch_block_start c' = ch_block_start c" "ch_next_frame_number c' = ch_next_frame_number c"
    and "block_range_end c' = k" "k \<le> length (en_blocks s)"
  shows "enc_inv V (s\<lparr>en_block_cursor := k, en_channels := pre @ [c']\<rparr>)"
proof -
  have "queue_ok V (en_config s) (en_blocks s) k (eg_artifacts (en_egress s)) (pre @ [c'])"
    using assms unfolding open_ok_def queue_ok_snoc by (auto simp: fifo_def)
  moreover have "ch_id ` set (pre @ [c']) = ch_id ` set (pre @ [c])"
    using assms(3) by simp
  ultimately show ?thesis
    using assms(1) unfolding enc_inv_def egress_ok_def open_ok_def by simp
qed

lemma update_order: "s\<lparr>en_channels := chs, en_block_cursor := k\<rparr> = s\<lparr>en_block_cursor := k, en_channels := chs\<rparr>" for s :: "('z, 'r) batch_encoder"
  by simp

text \<open>What a step does to the encoder: the batch goes in and the cursor moves on, or the channel before it is closed, or the
  block fits no channel.\<close>

definition encoded ::
    "('z, 'r) batch_encoder \<Rightarrow> 'z enc_channel list \<Rightarrow> 'z enc_channel \<Rightarrow> (step_error, enc_step_result) outcome \<Rightarrow> ('z, 'r) batch_encoder \<Rightarrow> bool" where
  "encoded s pre c r s' \<longleftrightarrow>
     (\<exists>chs k. s' = s\<lparr>en_block_cursor := k, en_channels := chs\<rparr>
        \<and> (r = Ok BlockEncoded \<and> k = Suc (en_block_cursor s) \<and> map ch_id chs = map ch_id (pre @ [c])
           \<or> r = Ok ChannelClosed \<and> k = Suc (en_block_cursor s) \<and> map ch_id chs = map ch_id (pre @ [c]) \<and> \<not> last_open s'
           \<or> r = Ok ChannelClosed \<and> k = en_block_cursor s \<and> map ch_id chs = map ch_id (pre @ [c]) \<and> 0 < ch_blocks_added c \<and> \<not> last_open s'
           \<or> (\<exists>limit. r = Err (BlockExceedsChannelLimit k limit)) \<and> k = en_block_cursor s \<and> chs = pre \<and> ch_blocks_added c = 0))"

text \<open>A new channel: its id must be new to the channels and to the frames in the ledger.\<close>

definition fresh_id :: "('z, 'r) batch_encoder \<Rightarrow> bytes \<Rightarrow> bool" where
  "fresh_id s cid \<longleftrightarrow> cid \<notin> ch_id ` set (en_channels s) \<and> cid \<notin> f_id ` set (ledger_frames (eg_artifacts (en_egress s)))"

context batcher_world
begin

lemma encode_batch_keeps:
  assumes "open_ok V s pre c" "en_channels s = pre @ [c]" "0 < ch_blocks_added c \<or> enc_inv V (s\<lparr>en_channels := pre\<rparr>)"
    and "block_to_single_batch (en_blocks s ! en_block_cursor s) = Ok b" "encode_batch V b n s = (r, s')"
  shows "enc_inv V s' \<and> encoded s pre c r s'"
proof -
  have oc: "block_range_end c = en_block_cursor s" "en_block_cursor s < length (en_blocks s)"
      "chan_holds V (en_config s) (en_blocks s) (eg_artifacts (en_egress s)) c" "ch_is_open c" "config_ok (en_config s)"
    using assms(1) by (simp_all add: open_ok_def)
  have fits: "length (batch_wire V b) < 2 ^ 64"
    using assms(1,4) oc(2) by (auto simp: open_ok_def block_fits_def)
  show ?thesis
  proof (rule add_batch_keeps [OF oc(5,3,4), of b n])
    show "block_range_end c < length (en_blocks s)" "block_to_single_batch (en_blocks s ! block_range_end c) = Ok b"
      using oc(1,2) assms(4) by simp_all
    show "length (batch_wire V b) < 2 ^ 64"
      by (rule fits)
  next
    fix limit
    let ?c = "c\<lparr>ch_candidate_scratch := batch_wire V b\<rparr>"
    assume add: "ch_add_batch V b n c = (Ok (Rejected limit), ?c)"
    show ?thesis
    proof (cases "ch_blocks_added c = 0")
      case True
      then have "r = Err (BlockExceedsChannelLimit (en_block_cursor s) limit)" "s' = s\<lparr>en_channels := pre\<rparr>"
        using assms(5) add by (auto simp: encode_batch_def assms(2) ch_is_empty_def)
      then show ?thesis
        using assms(3) True unfolding encoded_def
        by (intro conjI exI [of _ pre] exI [of _ "en_block_cursor s"]) auto
    next
      case False
      have "chan_ok V (en_config s) (en_blocks s) (eg_artifacts (en_egress s)) ?c"
        using oc(3) False chan_ok_core [of V "en_config s" "en_blocks s" "eg_artifacts (en_egress s)"]
        by (metis chan_ok_def core_change(3) neq0_conv)
      then have inv: "enc_inv V (s\<lparr>en_channels := pre @ [?c]\<rparr>)"
        using open_ok_inv [OF assms(1), of ?c "en_block_cursor s"] oc(1,2) by (simp add: block_range_end_def)
      obtain chs where cl: "close_current_channel V (s\<lparr>en_channels := pre @ [?c]\<rparr>) = (Ok (), s\<lparr>en_channels := chs\<rparr>)"
          "enc_inv V (s\<lparr>en_channels := chs\<rparr>)" "\<not> last_open (s\<lparr>en_channels := chs\<rparr>)" "map ch_id chs = map ch_id (pre @ [c])"
        using close_current_keeps [OF inv] by auto
      then have "r = Ok ChannelClosed" "s' = s\<lparr>en_channels := chs\<rparr>"
        using assms(5) add False by (auto simp: encode_batch_def assms(2) ch_is_empty_def)
      then show ?thesis
        using cl(2-4) False unfolding encoded_def by (intro conjI exI [of _ chs] exI [of _ "en_block_cursor s"]) auto
    qed
  next
    fix res c'
    assume add: "ch_add_batch V b n c = (Ok res, c')" "res = Accepted \<or> res = TargetReached"
      and c': "chan_ok V (en_config s) (en_blocks s) (eg_artifacts (en_egress s)) c'" "ch_is_open c'" "ch_id c' = ch_id c"
        "ch_block_start c' = ch_block_start c" "ch_blocks_added c' = Suc (ch_blocks_added c)" "ch_next_frame_number c' = ch_next_frame_number c"
    have inv: "enc_inv V (s\<lparr>en_block_cursor := Suc (en_block_cursor s), en_channels := pre @ [c']\<rparr>)"
      using c' oc(1,2) by (intro open_ok_inv [OF assms(1)]) (simp_all add: block_range_end_def)
    obtain chs where cl: "close_current_channel V (s\<lparr>en_block_cursor := Suc (en_block_cursor s), en_channels := pre @ [c']\<rparr>)
          = (Ok (), s\<lparr>en_block_cursor := Suc (en_block_cursor s), en_channels := chs\<rparr>)"
        "enc_inv V (s\<lparr>en_block_cursor := Suc (en_block_cursor s), en_channels := chs\<rparr>)"
        "\<not> last_open (s\<lparr>en_block_cursor := Suc (en_block_cursor s), en_channels := chs\<rparr>)" "map ch_id chs = map ch_id (pre @ [c])"
      using close_current_keeps [OF inv] c'(3) by auto
    have "(r, s') = (if res = Accepted then (Ok BlockEncoded, s\<lparr>en_block_cursor := Suc (en_block_cursor s), en_channels := pre @ [c']\<rparr>)
        else (Ok ChannelClosed, s\<lparr>en_block_cursor := Suc (en_block_cursor s), en_channels := chs\<rparr>))"
      using assms(5) add cl(1) by (auto simp: encode_batch_def assms(2) update_order)
    then show ?thesis
      using inv cl(2-4) c'(3) unfolding encoded_def by (cases "res = Accepted") auto
  qed
qed

lemma fresh_frames: "fresh_id s cid \<Longrightarrow> frames_of cid (eg_artifacts (en_egress s)) = []"
  by (auto simp: fresh_id_def frames_of_def filter_empty_conv)

lemma fresh_artifact_ok:
  assumes "artifact_ok X a" "cid \<notin> f_id ` set (payload_frames (ar_payload a))"
  shows "artifact_ok (insert cid X) a"
  using assms by (auto simp: artifact_ok_def)

lemma open_new_keeps:
  assumes "enc_inv V s" "\<not> last_open s" "fresh_id s (fst (bt_fill_id V (en_rng s)))" "en_block_cursor s < length (en_blocks s)"
  shows "\<exists>c. open_new_channel V (en_block_cursor s) s
       = Some (s\<lparr>en_rng := snd (bt_fill_id V (en_rng s)), en_channels := en_channels s @ [c]\<rparr>)
    \<and> open_ok V s (en_channels s) c \<and> ch_blocks_added c = 0 \<and> ch_id c = fst (bt_fill_id V (en_rng s))"
proof -
  let ?cid = "fst (bt_fill_id V (en_rng s))" and ?L = "eg_artifacts (en_egress s)"
  have inv: "config_ok (en_config s)" "queue_ok V (en_config s) (en_blocks s) (en_block_cursor s) ?L (en_channels s)"
      "list_all (artifact_ok (ch_id ` set (en_channels s))) (das_artifacts ?L)"
    using assms(1) by (simp_all add: enc_inv_def egress_ok_def)
  obtain c where new: "enc_channel_new (bt_writer V) ?cid (en_rollup_config s) (en_config s) (en_block_cursor s) (en_l1_head s) = Ok c"
    using inv(1) by (simp add: enc_channel_new_def config_ok_def Let_def)
  then have fl: "ch_id c = ?cid" "ch_block_start c = en_block_cursor s" "ch_blocks_added c = 0" "ch_next_frame_number c = 0"
      "ch_compressor c = Some (cs_new (bt_writer V) (ec_brotli_level (en_config s)))" "ch_max_frame_size c = ec_max_frame_size (en_config s)"
      "ch_input_bytes c = 0"
    by (auto simp: enc_channel_new_def obind_eq_Ok Let_def)
  have "holds V (en_config s) [] [] [] c"
    using framed_new [OF new] by (simp add: holds_def budget_def streamed_def admitted_def fl)
  then have "chan_holds V (en_config s) (en_blocks s) ?L c"
    unfolding chan_holds_def using fl id_len fresh_frames [OF assms(3)]
    by (auto simp: channel_blocks_def intro!: exI [of _ "[]"] exI [of _ "[]"])
  moreover have "\<not> ch_is_open x" if "x \<in> set (en_channels s)" for x
  proof (cases "x = last (en_channels s)")
    case False
    then have "x \<in> set (butlast (en_channels s))"
      using that by (metis append_butlast_last_id empty_iff list.set(1) rotate1.simps(2) set_ConsD set_rotate1)
    then show ?thesis
      using inv(2) by (simp add: queue_ok_def)
  qed (use assms(2) that in \<open>auto simp: last_open_def\<close>)
  moreover have "artifact_ok (insert ?cid (ch_id ` set (en_channels s))) a" if "a \<in> set (das_artifacts ?L)" for a
    using inv(3) assms(3) that by (intro fresh_artifact_ok) (auto simp: list_all_iff fresh_id_def ledger_frames_def)
  then have "list_all (artifact_ok (ch_id ` set (en_channels s @ [c]))) (das_artifacts ?L)"
    by (simp add: list_all_iff fl)
  ultimately have "open_ok V s (en_channels s) c"
    using assms inv by (auto simp: open_ok_def fl fifo_def fresh_id_def ch_is_open_def block_range_end_def enc_inv_def egress_ok_def)
  then show ?thesis
    using new fl by (auto simp: open_new_channel_def Let_def case_prod_unfold)
qed

end

section \<open>The step function\<close>

text \<open>What is left to encode.\<close>

definition work :: "('z, 'r) batch_encoder \<Rightarrow> nat" where
  "work s = 2 * (length (en_blocks s) - en_block_cursor s) + of_bool (last_open s)"

definition kept :: "('z, 'r) batch_encoder \<Rightarrow> ('z, 'r) batch_encoder \<Rightarrow> bool" where
  "kept s s' \<longleftrightarrow>
     en_rollup_config s' = en_rollup_config s \<and> en_config s' = en_config s \<and> en_l1_head s' = en_l1_head s
     \<and> en_blocks s' = en_blocks s \<and> en_tip s' = en_tip s \<and> en_egress s' = en_egress s \<and> en_next_id s' = en_next_id s
     \<and> en_blob_override s' = en_blob_override s"

text \<open>A step draws at most one channel id, only together with the encoding of a block; an error leaves the channels and the
  cursor as they were; an idle step changes nothing.\<close>

definition stepped ::
    "('z, 'r) batcher_env \<Rightarrow> ('z, 'r) batch_encoder \<Rightarrow> (step_error, enc_step_result) outcome \<Rightarrow> ('z, 'r) batch_encoder \<Rightarrow> bool" where
  "stepped V s r s' \<longleftrightarrow>
     kept s s'
     \<and> (case r of
          Ok Idle \<Rightarrow> s' = s \<and> en_block_cursor s = length (en_blocks s) \<and> en_deferred_step_error s = None
        | Ok _ \<Rightarrow> en_deferred_step_error s' = None \<and> work s' < work s
            \<and> (en_rng s' = en_rng s \<and> map ch_id (en_channels s') = map ch_id (en_channels s)
               \<or> en_block_cursor s' = Suc (en_block_cursor s) \<and> en_rng s' = snd (bt_fill_id V (en_rng s))
                 \<and> map ch_id (en_channels s') = map ch_id (en_channels s) @ [fst (bt_fill_id V (en_rng s))])
        | Err e \<Rightarrow> en_block_cursor s' = en_block_cursor s \<and> en_channels s' = en_channels s
            \<and> (en_deferred_step_error s = Some e
               \<or> en_block_cursor s < length (en_blocks s)
                 \<and> ((\<exists>ce. e = CompositionFailed (en_block_cursor s) ce
                         \<and> block_to_single_batch (en_blocks s ! en_block_cursor s) = Err ce)
                    \<or> (\<exists>limit. e = BlockExceedsChannelLimit (en_block_cursor s) limit)))
        | Panic \<Rightarrow> False)"

lemma check_timeout_keeps:
  assumes "enc_inv V s"
  shows "check_channel_timeout V s = (Ok False, s)
    \<or> (\<exists>chs. check_channel_timeout V s = (Ok True, s\<lparr>en_channels := chs\<rparr>) \<and> enc_inv V (s\<lparr>en_channels := chs\<rparr>)
         \<and> last_open s \<and> \<not> last_open (s\<lparr>en_channels := chs\<rparr>) \<and> map ch_id chs = map ch_id (en_channels s))"
proof (cases "last_open s \<and> deadline_due (en_l1_head s) (last (en_channels s))")
  case True
  then have "check_channel_timeout V s = (case close_current_channel V s of (r, s) \<Rightarrow> (obind r (\<lambda>_. Ok True), s))"
    by (simp add: check_channel_timeout_def last_open_def)
  with close_current_keeps [OF assms] True show ?thesis
    by auto
next
  case False
  then show ?thesis
    by (auto simp: check_channel_timeout_def last_open_def)
qed

lemma block_to_single_batch_total: "block_to_single_batch b \<noteq> Panic"
  by (auto simp: block_to_single_batch_def obind_def map_err_def Let_def decode_calldata_safe
      split: list.splits base_tx_envelope.splits outcome.splits)

context batcher_world
begin

lemma step_encodes:
  assumes "enc_inv V s" "fresh_id s (fst (bt_fill_id V (en_rng s)))" "en_deferred_step_error s = None"
    and "en_block_cursor s < length (en_blocks s)" "block_to_single_batch (en_blocks s ! en_block_cursor s) = Ok b"
    and "(case (if en_channels s = [] \<or> \<not> ch_is_open (last (en_channels s)) then open_new_channel V (en_block_cursor s) s else Some s) of
        None \<Rightarrow> (Panic, s) | Some s \<Rightarrow> encode_batch V b n s) = (r, s')"
  shows "enc_inv V s' \<and> stepped V s r s'"
proof (cases "last_open s")
  case True
  then obtain pre c where chs: "en_channels s = pre @ [c]" "ch_is_open c"
    by (metis append_butlast_last_id last_open_def last_snoc)
  have "open_ok V s pre c" "0 < ch_blocks_added c"
    using assms(1,4) chs unfolding open_ok_def enc_inv_def egress_ok_def chs(1) queue_ok_snoc chan_ok_def by auto
  moreover have "encode_batch V b n s = (r, s')"
    using assms(6) chs by simp
  ultimately have e: "enc_inv V s'" "encoded s pre c r s'"
    using encode_batch_keeps [OF _ chs(1) _ assms(5)] by blast+
  then show ?thesis
    using assms(3,4) True \<open>0 < ch_blocks_added c\<close>
    by (auto simp: encoded_def stepped_def kept_def chs(1) work_def)
next
  case False
  from open_new_keeps [OF assms(1) this assms(2,4)] obtain c where
      c: "open_new_channel V (en_block_cursor s) s = Some (s\<lparr>en_rng := snd (bt_fill_id V (en_rng s)), en_channels := en_channels s @ [c]\<rparr>)"
        "open_ok V s (en_channels s) c" "ch_blocks_added c = 0" "ch_id c = fst (bt_fill_id V (en_rng s))"
    by blast
  let ?s = "s\<lparr>en_rng := snd (bt_fill_id V (en_rng s)), en_channels := en_channels s @ [c]\<rparr>"
  have "open_ok V ?s (en_channels s) c" "enc_inv V (?s\<lparr>en_channels := en_channels s\<rparr>)"
    using c(2) assms(1) by (simp_all add: open_ok_def enc_inv_def)
  moreover have "encode_batch V b n ?s = (r, s')"
    using assms(6) c(1) False by (auto simp: last_open_def)
  ultimately have e: "enc_inv V s'" "encoded ?s (en_channels s) c r s'"
    using encode_batch_keeps [of ?s "en_channels s" c b n r s'] assms(5) by auto
  then show ?thesis
    using assms(3,4) c(3,4) False
    by (auto simp: encoded_def stepped_def kept_def work_def)
qed

lemma step_keeps:
  assumes "enc_inv V s" "en_block_cursor s < length (en_blocks s) \<Longrightarrow> fresh_id s (fst (bt_fill_id V (en_rng s)))" "step V s = (r, s')"
  shows "enc_inv V s' \<and> stepped V s r s'"
proof (cases "en_deferred_step_error s")
  case (Some e)
  then have "r = Err e" "s' = s\<lparr>en_deferred_step_error := None\<rparr>"
    using assms(3) by (auto simp: step_def)
  then show ?thesis
    using assms(1) Some by (auto simp: kept_def stepped_def enc_inv_def)
next
  case None
  from check_timeout_keeps [OF assms(1)] show ?thesis
  proof (elim disjE exE conjE)
    fix chs
    assume "check_channel_timeout V s = (Ok True, s\<lparr>en_channels := chs\<rparr>)" "enc_inv V (s\<lparr>en_channels := chs\<rparr>)" "last_open s"
      "\<not> last_open (s\<lparr>en_channels := chs\<rparr>)" "map ch_id chs = map ch_id (en_channels s)"
    moreover from this(1) have "r = Ok ChannelClosed" "s' = s\<lparr>en_channels := chs\<rparr>"
      using assms(3) None by (auto simp: step_def)
    ultimately show ?thesis
      using None by (auto simp: kept_def stepped_def work_def)
  next
    assume "check_channel_timeout V s = (Ok False, s)"
    note st = assms(3) [unfolded step_def None this option.case prod.case outcome.case bool.case Let_def]
    show ?thesis
    proof (cases "length (en_blocks s) \<le> en_block_cursor s")
      case True
      moreover have "en_block_cursor s \<le> length (en_blocks s)"
        using assms(1) by (simp add: enc_inv_def egress_ok_def queue_ok_def)
      ultimately show ?thesis
        using st assms(1) None by (auto simp: kept_def stepped_def)
    next
      case False
      show ?thesis
      proof (cases "block_to_single_batch (en_blocks s ! en_block_cursor s)")
        case (Ok b)
        then show ?thesis
          using step_encodes [OF assms(1) assms(2) None _ Ok] st False by simp
      next
        case (Err e)
        then have "r = Err (CompositionFailed (en_block_cursor s) e)" "s' = s"
          using st False by auto
        then show ?thesis
          using assms(1) Err False by (auto simp: kept_def stepped_def)
      qed (simp add: block_to_single_batch_total)
    qed
  qed
qed

end

end
