(* ===== verification/Encoder_Runs.thy ===== *)
theory Encoder_Runs
  imports Encoder_Laws
begin

text \<open>
  The remaining operations of the batcher's encoder keep its invariant: new blocks, flushing, submissions and their
  confirmation or retry, the replay of channels that expired on L1, and the pruning of blocks that became safe.
\<close>

section \<open>Blocks, flushes and submissions\<close>

lemma new_inv: "batch_encoder_new cfg config rng = Ok s \<Longrightarrow> 2023 \<le> ec_max_frame_size config \<Longrightarrow> enc_inv V s"
  by (auto simp: batch_encoder_new_def obind_eq_Ok enc_inv_def config_ok_def egress_ok_def queue_ok_def ledger_ok_reset(2))
    (simp_all add: egress_new_def das_new_def)

lemma enc_inv_change:
  assumes "enc_inv V s" "en_config s' = en_config s" "set (en_blocks s') \<subseteq> set (en_blocks s)" "en_next_id s' = en_next_id s"
    and "egress_ok V (en_config s') (en_blocks s') (en_block_cursor s') (en_channels s') (en_egress s')"
    and "fst ` set (eg_pending (en_egress s')) \<subseteq> fst ` set (eg_pending (en_egress s))"
  shows "enc_inv V s'"
proof -
  have "\<forall>k \<in> fst ` set (eg_pending (en_egress s)). k < en_next_id s" "\<forall>b \<in> set (en_blocks s). block_fits V b" "config_ok (en_config s)"
    using assms(1) by (simp_all add: enc_inv_def)
  then have "\<forall>k \<in> fst ` set (eg_pending (en_egress s')). k < en_next_id s'" "\<forall>b \<in> set (en_blocks s'). block_fits V b"
    unfolding assms(4) using subsetD [OF assms(6)] subsetD [OF assms(3)] by blast+
  then show ?thesis
    using \<open>config_ok (en_config s)\<close> assms(2,5) by (simp add: enc_inv_def)
qed

lemma add_block_keeps:
  assumes "enc_inv V s" "block_fits V b" "add_block V b s = (r, s')"
  shows "enc_inv V s'"
proof -
  have "s' = s \<or> (\<exists>tip. s' = s\<lparr>en_tip := tip, en_blocks := en_blocks s @ [b]\<rparr>)"
    using assms(3) by (auto simp: add_block_def split: option.splits if_splits)
  then show ?thesis
    using assms(1,2) queue_ok_block [of V "en_config s" "en_blocks s" "en_block_cursor s" "eg_artifacts (en_egress s)" "en_channels s" b]
    by (elim disjE exE) (simp_all add: enc_inv_def egress_ok_def)
qed

lemma same_core_inv:
  assumes "enc_inv V s" "map core chs = map core (en_channels s)"
  shows "enc_inv V (s\<lparr>en_channels := chs\<rparr>)"
  using assms(1) same_core(3) [OF assms(2)] unfolding enc_inv_def egress_ok_def by (simp add: same_core(1) [OF assms(2)])

lemma flush_keeps:
  assumes "enc_inv V s"
  shows "\<exists>chs. flush_channels V s = (Ok (), s\<lparr>en_channels := chs\<rparr>) \<and> enc_inv V (s\<lparr>en_channels := chs\<rparr>)
    \<and> \<not> last_open (s\<lparr>en_channels := chs\<rparr>) \<and> (\<forall>c \<in> set chs. ch_deadline_l1_block c \<le> en_l1_head s)
    \<and> map ch_id chs = map ch_id (en_channels s)"
proof -
  obtain chs where cl: "close_current_channel V s = (Ok (), s\<lparr>en_channels := chs\<rparr>)" "enc_inv V (s\<lparr>en_channels := chs\<rparr>)"
      "\<not> last_open (s\<lparr>en_channels := chs\<rparr>)" "map ch_id chs = map ch_id (en_channels s)"
    using close_current_keeps [OF assms] by blast
  let ?chs = "map (release_at (en_l1_head s)) chs"
  have core: "map core ?chs = map core chs"
    by simp
  have "enc_inv V (s\<lparr>en_channels := ?chs\<rparr>)"
    using same_core_inv [OF cl(2), of ?chs] core by simp
  moreover have "\<not> last_open (s\<lparr>en_channels := ?chs\<rparr>)"
    using cl(3) by (cases "chs = []") (simp_all add: last_open_def last_map release_at_def ch_is_open_def)
  moreover have "\<forall>c \<in> set ?chs. ch_deadline_l1_block c \<le> en_l1_head s"
    by (auto simp: release_at_def)
  moreover have "map ch_id ?chs = map ch_id (en_channels s)"
    using same_core(2) [OF core] cl(4) by simp
  ultimately show ?thesis
    using cl(1) by (intro exI [of _ ?chs]) (simp add: flush_channels_def)
qed

lemma update_first_core:
  "(\<And>c. core (f c) = core c) \<Longrightarrow> map core (update_first P f chs) = map core chs"
  by (induction chs) auto

lemma record_core:
  "map core (foldl (\<lambda>chs cid. update_first (\<lambda>c. ch_id c = cid) (record_confirmation l1) chs) chs cids) = map core chs"
  by (induction cids arbitrary: chs) (simp_all add: update_first_core)

text \<open>The submissions in flight, after one of them is settled.\<close>

lemma settle_inv:
  assumes "enc_inv V s" "map_of (eg_pending (en_egress s)) sid = Some ids" "st \<noteq> Pending"
  shows "enc_inv V (s\<lparr>en_egress := (en_egress s)\<lparr>eg_pending := AList.delete sid (eg_pending (en_egress s)),
    eg_artifacts := mark st ids (eg_artifacts (en_egress s))\<rparr>\<rparr>)"
proof -
  let ?eg = "(en_egress s)\<lparr>eg_pending := AList.delete sid (eg_pending (en_egress s)), eg_artifacts := mark st ids (eg_artifacts (en_egress s))\<rparr>"
  have "ledger_ok (en_egress s)"
    using assms(1) by (simp add: enc_inv_def egress_ok_def)
  from eg_settle_ok(3) [OF this assms(2,3)] have "ledger_ok ?eg" .
  moreover have "queue_ok V (en_config s) (en_blocks s) (en_block_cursor s) (eg_artifacts ?eg) (en_channels s)"
    using assms(1) by (subst queue_ok_frames [where L = "eg_artifacts (en_egress s)"]) (simp_all add: enc_inv_def egress_ok_def)
  moreover have "list_all (artifact_ok (ch_id ` set (en_channels s))) (das_artifacts (eg_artifacts ?eg))"
    using assms(1) by (simp add: artifact_ok_mark enc_inv_def egress_ok_def)
  moreover have "fst ` set (eg_pending ?eg) \<subseteq> fst ` set (eg_pending (en_egress s))"
    by (auto simp: AList.delete_eq)
  ultimately show ?thesis
    by (intro enc_inv_change [OF assms(1)]) (simp_all add: egress_ok_def)
qed

lemma settle_unknown: "map_of (eg_pending eg) sid = None \<Longrightarrow> eg_confirm sid eg = (None, eg) \<and> eg_requeue sid eg = (None, eg)"
  by (simp add: eg_confirm_def eg_requeue_def)

lemma confirm_keeps: "enc_inv V s \<Longrightarrow> enc_inv V (enc_confirm sid l1 s)"
proof (cases "map_of (eg_pending (en_egress s)) sid")
  case (Some ids)
  assume inv: "enc_inv V s"
  then have "ledger_ok (en_egress s)"
    by (simp add: enc_inv_def egress_ok_def)
  from same_core_inv [OF settle_inv [OF inv Some, of Confirmed] ] show ?thesis
    by (simp add: enc_confirm_def eg_settle_ok(1) [OF \<open>ledger_ok (en_egress s)\<close> Some] record_core)
qed (simp add: enc_confirm_def settle_unknown)

lemma requeue_keeps: "enc_inv V s \<Longrightarrow> enc_inv V (enc_requeue sid s)"
proof (cases "map_of (eg_pending (en_egress s)) sid")
  case (Some ids)
  assume inv: "enc_inv V s"
  then have "ledger_ok (en_egress s)"
    by (simp add: enc_inv_def egress_ok_def)
  from settle_inv [OF inv Some, of Ready] show ?thesis
    by (simp add: enc_requeue_def eg_settle_ok(2) [OF \<open>ledger_ok (en_egress s)\<close> Some])
qed (simp add: enc_requeue_def settle_unknown)

lemma reset_keeps: "enc_inv V s \<Longrightarrow> enc_inv V (enc_reset rng s)"
  by (simp add: enc_inv_def enc_reset_def egress_ok_def queue_ok_def ledger_ok_reset(1)) (simp add: egress_reset_def das_clear_def)

text \<open>A lease hands out payloads of the ledger.\<close>

definition deliverable :: "da_artifact_payload \<Rightarrow> bool" where
  "deliverable p \<longleftrightarrow> payload_fits p \<and> (\<forall>f \<in> set (payload_frames p). frame_wf f)"

lemma lease_deliverable:
  assumes "lease_of sid m sub ids L L'" "list_all (artifact_ok X) (das_artifacts L)"
  shows "list_all deliverable (submission_payloads sub)"
proof -
  obtain as where as: "set as \<subseteq> set (das_artifacts L)" "submission_payloads sub = map ar_payload as"
    using assms(1) by (auto simp: lease_of_def)
  have "deliverable (ar_payload a)" if "a \<in> set (das_artifacts L)" for a
    using assms(2) that by (auto simp: list_all_iff artifact_ok_def deliverable_def)
  then show ?thesis
    using as by (auto simp: list_all_iff)
qed

text \<open>The ids of artifacts and submissions do not run out.\<close>

definition ids_left :: "('z, 'r) batch_encoder \<Rightarrow> bool" where
  "ids_left s \<longleftrightarrow> unat (das_next_id (eg_artifacts (en_egress s))) + MAX_BLOBS_PER_TX < 2 ^ 64 \<and> en_next_id s \<noteq> - 1"

context batcher_world
begin

lemma next_submission_keeps:
  assumes "enc_inv V s" "ids_left s"
  shows "\<exists>sub new s'. next_submission s = (Ok sub, s') \<and> enc_inv V s' \<and> chans_cut new (en_channels s) (en_channels s')
    \<and> (case sub of
         None \<Rightarrow> \<not> has_ready_submission s \<and> s' = s
       | Some sub \<Rightarrow> has_ready_submission s \<and> bsub_id sub = en_next_id s \<and> en_next_id s \<in> fst ` set (eg_pending (en_egress s'))
           \<and> load (en_channels s') + length (ready (eg_artifacts (en_egress s'))) < load (en_channels s) + length (ready (eg_artifacts (en_egress s)))
           \<and> unat (das_next_id (eg_artifacts (en_egress s'))) + load (en_channels s')
               \<le> unat (das_next_id (eg_artifacts (en_egress s))) + load (en_channels s)
           \<and> submission_blob_count sub \<le> ec_max_blobs_per_tx (en_config s)
           \<and> list_all deliverable (submission_payloads sub)
           \<and> s' = s\<lparr>en_channels := en_channels s', en_egress := en_egress s', en_next_id := en_next_id s + 1\<rparr>)"
proof -
  let ?m = "ec_max_blobs_per_tx (en_config s)"
  have inv: "config_ok (en_config s)" "egress_ok V (en_config s) (en_blocks s) (en_block_cursor s) (en_channels s) (en_egress s)"
      "\<forall>k \<in> fst ` set (eg_pending (en_egress s)). k < en_next_id s"
    using assms(1) by (simp_all add: enc_inv_def)
  then have m: "0 < ?m" "unat (das_next_id (eg_artifacts (en_egress s))) + ?m < 2 ^ 64" "en_next_id s \<notin> fst ` set (eg_pending (en_egress s))"
    using assms(2) by (auto simp: config_ok_def config_validate_Ok ids_left_def)
  obtain sub new chs eg where n: "eg_next_submission (effective_da_type s) (en_l1_head s) ?m (en_next_id s) (en_channels s) (en_egress s) = Ok (sub, chs, eg)"
      "egress_ok V (en_config s) (en_blocks s) (en_block_cursor s) chs eg" "chans_cut new (en_channels s) chs"
      and sub: "case sub of
         None \<Rightarrow> \<not> has_ready_submission s \<and> chs = en_channels s \<and> eg = en_egress s
       | Some sub \<Rightarrow> has_ready_submission s
           \<and> load chs + length (ready (eg_artifacts eg)) < load (en_channels s) + length (ready (eg_artifacts (en_egress s)))
           \<and> unat (das_next_id (eg_artifacts eg)) + load chs \<le> unat (das_next_id (eg_artifacts (en_egress s))) + load (en_channels s)
           \<and> fst ` set (eg_pending eg) = insert (en_next_id s) (fst ` set (eg_pending (en_egress s)))
           \<and> (\<exists>ids eg1. egress_ok V (en_config s) (en_blocks s) (en_block_cursor s) chs eg1
                \<and> lease_of (en_next_id s) ?m sub ids (eg_artifacts eg1) (eg_artifacts eg))"
    using eg_next_keeps [OF inv(1,2) m(3,1,2), of "effective_da_type s" "en_l1_head s"] unfolding has_ready_submission_def by blast
  show ?thesis
  proof (cases sub)
    case None
    then show ?thesis
      using n sub assms(1) by (intro exI [of _ None] exI [of _ new] exI [of _ s]) (simp add: next_submission_def)
  next
    case (Some b)
    let ?s = "s\<lparr>en_channels := chs, en_egress := eg, en_next_id := en_next_id s + 1\<rparr>"
    have lt: "k < en_next_id s + 1" if "k \<in> fst ` set (eg_pending eg)" for k
      using that sub inv(3) less_next [of "en_next_id s"] assms(2) by (auto simp: Some ids_left_def intro: less_trans)
    have "enc_inv V ?s"
      using n(2) assms(1) lt by (auto simp: enc_inv_def)
    moreover obtain ids eg1 where le: "egress_ok V (en_config s) (en_blocks s) (en_block_cursor s) chs eg1"
        "lease_of (en_next_id s) ?m b ids (eg_artifacts eg1) (eg_artifacts eg)"
      using sub by (auto simp: Some)
    then have "list_all deliverable (submission_payloads b)"
      using lease_deliverable by (auto simp: egress_ok_def)
    moreover have "bsub_id b = en_next_id s" "submission_blob_count b \<le> ?m"
      using le(2) by (simp_all add: lease_of_def)
    ultimately show ?thesis
      using n sub by (intro exI [of _ "Some b"] exI [of _ new] exI [of _ ?s]) (simp add: next_submission_def Some)
  qed
qed

end

section \<open>Replay\<close>

text \<open>The closure is closed.\<close>

lemma grows_same: "grows U xs ys \<Longrightarrow> length ys = length xs \<Longrightarrow> ys = xs"
  by (auto simp: grows_def)

lemma grows_between: "grows U xs ys \<Longrightarrow> grows U ys xs \<Longrightarrow> ys = xs"
  by (auto simp: grows_def)

lemma grows_set: "grows U xs ys \<Longrightarrow> set xs \<subseteq> set ys"
  by (auto simp: grows_def)

lemma closure_fixed:
  "affected_round s (affected_closure s acc) = affected_closure s acc \<and> set (fst acc) \<subseteq> set (fst (affected_closure s acc))"
proof (induction s acc rule: affected_closure.induct)
  case (1 s acc)
  note g = affected_round_grows [of s acc]
  show ?case
  proof (cases "length (fst (affected_round s acc)) = length (fst acc) \<and> length (snd (affected_round s acc)) = length (snd acc)")
    case True
    then have "affected_round s acc = acc"
      using g grows_same by (metis prod.collapse)
    then show ?thesis
      using True by (simp add: affected_closure.simps)
  next
    case False
    then have "affected_closure s acc = affected_closure s (affected_round s acc)"
      by (subst affected_closure.simps) (simp only: Let_def if_False)
    then show ?thesis
      using 1 [OF refl False] grows_set [OF conjunct1 [OF g]] by auto
  qed
qed

lemma artifacts_closed:
  assumes "affected_by_artifacts as acc = acc" "a \<in> set as"
    and "set (ar_channel_ids a) \<inter> set (fst acc) \<noteq> {} \<or> ar_id a \<in> set (snd acc)"
  shows "set (ar_channel_ids a) \<subseteq> set (fst acc) \<and> ar_id a \<in> set (snd acc)"
  using assms
proof (induction as)
  case (Cons x as)
  obtain cs is' where acc: "acc = (cs, is')"
    by fastforce
  let ?touched = "list_ex (\<lambda>cid. cid \<in> set cs) (ar_channel_ids x) \<or> ar_id x \<in> set is'"
  let ?acc = "if ?touched then (push_new (ar_channel_ids x) cs, push_new [ar_id x] is') else (cs, is')"
  have eq: "affected_by_artifacts as ?acc = acc"
    using Cons(2) by (simp add: affected_by_artifacts_def acc)
  have g: "grows UNIV (fst acc) (fst ?acc)" "grows UNIV (snd acc) (snd ?acc)"
    by (simp_all add: acc grows_push_new)
  have "grows UNIV (fst ?acc) (fst acc)" "grows UNIV (snd ?acc) (snd acc)"
    using affected_by_artifacts_grows [of as UNIV UNIV ?acc] unfolding eq by simp_all
  then have same: "?acc = acc"
    by (intro prod_eqI grows_between [OF g(1)] grows_between [OF g(2)])
  show ?case
  proof (cases "a = x")
    case True
    then have ?touched
      using Cons(4) by (auto simp: acc list_ex_iff)
    then have "push_new (ar_channel_ids x) cs = cs" "push_new [ar_id x] is' = is'"
      using same by (simp_all add: acc)
    then have "set cs \<union> set (ar_channel_ids x) = set cs" "set is' \<union> {ar_id x} = set is'"
      by (metis set_push_new list.simps(15) empty_set)+
    then show ?thesis
      using True by (auto simp: acc)
  next
    case False
    then show ?thesis
      using Cons(1) eq Cons(3,4) unfolding same by simp
  qed
qed simp

lemma submissions_closed:
  assumes "extend_with_submission_artifacts eg aff = aff" "p \<in> snd ` set (eg_pending eg)"
  shows "set p \<inter> set aff = {} \<or> set p \<subseteq> set aff"
proof -
  let ?ext = "foldl (\<lambda>affected p. if list_ex (\<lambda>i. i \<in> set affected) p then push_new p affected else affected)"
  have grow: "grows UNIV acc (?ext acc ps)" for acc ps
  proof (induction ps arbitrary: acc)
    case (Cons q ps)
    have "grows UNIV acc (if list_ex (\<lambda>i. i \<in> set acc) q then push_new q acc else acc)"
      by (auto intro: grows_push_new)
    from grows_trans [OF this Cons] show ?case
      by simp
  qed simp
  have "set p \<inter> set aff = {} \<or> set p \<subseteq> set aff" if "?ext aff ps = aff" "p \<in> set ps" for ps
    using that
  proof (induction ps)
    case (Cons q ps)
    let ?aff = "if list_ex (\<lambda>i. i \<in> set aff) q then push_new q aff else aff"
    have "grows UNIV aff ?aff" "grows UNIV ?aff aff"
      using grow [of ?aff ps] Cons(2) by (auto intro: grows_push_new)
    then have same: "?aff = aff"
      by (rule grows_between)
    show ?case
    proof (cases "p = q")
      case True
      have "list_ex (\<lambda>i. i \<in> set aff) q \<Longrightarrow> set aff \<union> set q = set aff"
        using same set_push_new [of q aff] by simp
      then show ?thesis
        unfolding True list_ex_iff by blast
    next
      case False
      then show ?thesis
        using Cons same by simp
    qed
  qed simp
  from this [of "map snd (eg_pending eg)"] assms show ?thesis
    by (simp add: extend_with_submission_artifacts_def)
qed

lemma order_closed:
  assumes "affected_by_order chs aff = aff" "find_index (\<lambda>c. ch_id c \<in> set aff) chs = Some i" "c \<in> set (drop i chs)"
  shows "ch_id c \<in> set aff"
proof -
  have "push_new (map ch_id (drop i chs)) aff = aff"
    using assms(1,2) by (simp add: affected_by_order_def)
  then have "set aff \<union> ch_id ` set (drop i chs) = set aff"
    by (metis set_push_new set_map)
  then show ?thesis
    using assms(3) by auto
qed

lemma round_fixed:
  assumes "affected_round s (D, aff) = (D, aff)"
  shows "affected_by_artifacts (das_artifacts (eg_artifacts (en_egress s))) (D, aff) = (D, aff)"
    "extend_with_submission_artifacts (en_egress s) aff = aff" "affected_by_order (en_channels s) D = D"
proof -
  let ?mid = "affected_by_artifacts (das_artifacts (eg_artifacts (en_egress s))) (D, aff)"
  have up: "grows UNIV D (fst ?mid)" "grows UNIV aff (snd ?mid)"
    using affected_by_artifacts_grows [of "das_artifacts (eg_artifacts (en_egress s))" UNIV UNIV "(D, aff)"] by simp_all
  have order: "grows UNIV xs (affected_by_order (en_channels s) xs)" for xs
    by (auto simp: affected_by_order_def intro: grows_push_new split: option.split)
  have eq: "affected_by_order (en_channels s) (fst ?mid) = D" "extend_with_submission_artifacts (en_egress s) (snd ?mid) = aff"
    using assms by (simp_all add: affected_round_def case_prod_unfold Let_def)
  have "grows UNIV (fst ?mid) D"
    using order [of "fst ?mid"] unfolding eq(1) .
  moreover have "grows UNIV (snd ?mid) aff"
    using extend_grows [of "en_egress s" UNIV "snd ?mid"] eq(2) by simp
  ultimately have mid: "fst ?mid = D" "snd ?mid = aff"
    using up grows_between by blast+
  then show "?mid = (D, aff)"
    by (metis prod.collapse)
  show "extend_with_submission_artifacts (en_egress s) aff = aff" "affected_by_order (en_channels s) D = D"
    using eq mid by simp_all
qed

lemma tiled_take:
  assumes "tiled k chs j" "i < length chs"
  shows "tiled k (take i chs) (ch_block_start (chs ! i))" "ch_block_start (chs ! i) \<le> j"
proof -
  have split: "chs = take i chs @ chs ! i # drop (Suc i) chs"
    using assms(2) by (rule id_take_nth_drop)
  have "tiled k (take i chs @ chs ! i # drop (Suc i) chs) j"
    using assms(1) split by simp
  then show "tiled k (take i chs) (ch_block_start (chs ! i))"
    unfolding tiled_append by auto
  show "ch_block_start (chs ! i) \<le> j"
    using tiled_range [OF assms(1)] assms(2) by (auto simp: block_range_end_def dest: bspec [OF _ nth_mem])
qed

lemma take_butlast_subset: "i < length xs \<Longrightarrow> set (take i xs) \<subseteq> set (butlast xs)"
  by (metis butlast_conv_take less_Suc_eq_le less_imp_Suc_add add_diff_cancel_left' diff_Suc_1 plus_1_eq_Suc set_take_subset_set_take Suc_pred zero_less_Suc)

lemma queue_ok_take:
  assumes "queue_ok V config blocks cursor L chs" "i < length chs"
  shows "queue_ok V config blocks (ch_block_start (chs ! i)) L (take i chs)"
proof -
  have "tiled 0 (take i chs) (ch_block_start (chs ! i))" "ch_block_start (chs ! i) \<le> cursor"
    using tiled_take [OF _ assms(2), of 0 cursor] assms(1) by (simp_all add: queue_ok_def)
  moreover have "\<not> ch_is_open c" if "c \<in> set (butlast (take i chs))" for c
    using in_set_butlastD [OF that] take_butlast_subset [OF assms(2)] assms(1) by (auto simp: queue_ok_def)
  moreover have "sorted_wrt fifo (take i chs)" "distinct (map ch_id (take i chs))"
    using assms(1) by (simp_all add: queue_ok_def sorted_wrt_take flip: take_map)
  ultimately show ?thesis
    using assms(1) by (auto simp: queue_ok_def dest: in_set_takeD)
qed

text \<open>Replaying a channel drops it with all channels behind it, the artifacts they share, and the submissions of those; the
  channels before it keep their frames, and the cursor returns to the first block of the first dropped channel.\<close>

lemma invalidate_keeps:
  assumes "enc_inv V s" "j < length (en_channels s)"
  shows "\<exists>i. i \<le> j \<and> enc_inv V (invalidate_channel j s)
    \<and> en_channels (invalidate_channel j s) = take i (en_channels s)
    \<and> en_block_cursor (invalidate_channel j s) = ch_block_start (en_channels s ! i)
    \<and> (\<forall>c \<in> set (take i (en_channels s)).
         frames_of (ch_id c) (eg_artifacts (en_egress (invalidate_channel j s))) = frames_of (ch_id c) (eg_artifacts (en_egress s)))
    \<and> en_blocks (invalidate_channel j s) = en_blocks s
    \<and> set (ledger_frames (eg_artifacts (en_egress (invalidate_channel j s)))) \<subseteq> set (ledger_frames (eg_artifacts (en_egress s)))"
proof -
  let ?chs = "en_channels s" and ?eg = "en_egress s" and ?X = "ch_id ` set (en_channels s)"
  have q: "queue_ok V (en_config s) (en_blocks s) (en_block_cursor s) (eg_artifacts ?eg) ?chs"
      "list_all (artifact_ok ?X) (das_artifacts (eg_artifacts ?eg))" "ledger_ok ?eg"
    using assms(1) by (simp_all add: enc_inv_def egress_ok_def)
  obtain D aff where cl: "affected_closure s ([ch_id (?chs ! j)], []) = (D, aff)"
    by fastforce
  have fixed: "affected_round s (D, aff) = (D, aff)" "ch_id (?chs ! j) \<in> set D"
    using closure_fixed [of s "([ch_id (?chs ! j)], [])"] unfolding cl by simp_all
  note rf = round_fixed [OF fixed(1)]
  have "list_ex (\<lambda>c. ch_id c \<in> set D) ?chs"
    using fixed(2) assms(2) by (auto simp: list_ex_iff)
  then obtain i where i: "find_index (\<lambda>c. ch_id c \<in> set D) ?chs = Some i"
    using find_index_None [of "\<lambda>c. ch_id c \<in> set D" ?chs] by (cases "find_index (\<lambda>c. ch_id c \<in> set D) ?chs") auto
  note fi = find_index_Some [OF i]
  have le: "i \<le> j"
    using fi fixed(2) by (metis not_less)
  have live: "ch_id ` set (take i ?chs) = ?X - set D"
  proof -
    have "ch_id c \<notin> set D" if "c \<in> set (take i ?chs)" for c
      using that fi by (auto simp: in_set_conv_nth)
    moreover have "ch_id c \<in> set D" if "c \<in> set (drop i ?chs)" for c
      using order_closed [OF rf(3) i that] .
    moreover have "set ?chs = set (take i ?chs) \<union> set (drop i ?chs)"
      by (metis append_take_drop_id set_append)
    ultimately show ?thesis
      by auto
  qed
  have start: "ch_block_start (?chs ! i) \<le> en_block_cursor s"
    using tiled_take(2) [of 0 ?chs "en_block_cursor s" i] q(1) fi by (simp add: queue_ok_def)
  have eq: "invalidate_channel j s = s\<lparr>en_egress := invalidate_artifacts aff ?eg, en_channels := take i ?chs,
      en_block_cursor := ch_block_start (?chs ! i)\<rparr>"
    using assms(2) start by (simp add: invalidate_channel_def cl i Let_def min_def)
  have closed: "set (ar_channel_ids a) \<inter> set D \<noteq> {} \<or> ar_id a \<in> set aff \<Longrightarrow> set (ar_channel_ids a) \<subseteq> set D \<and> ar_id a \<in> set aff"
      "set (ar_channel_ids a) \<noteq> {}" if "a \<in> set (das_artifacts (eg_artifacts ?eg))" for a
    using artifacts_closed [OF rf(1) that] q(2) that unfolding list_all_iff artifact_ok_def set_empty fst_conv snd_conv by blast+
  have touch: "\<forall>a \<in> set (das_artifacts (eg_artifacts ?eg)). set (ar_channel_ids a) \<inter> set D \<noteq> {} \<longleftrightarrow> ar_id a \<in> set aff"
    and dead: "\<forall>a \<in> set (das_artifacts (eg_artifacts ?eg)). ar_id a \<in> set aff \<longrightarrow> set (ar_channel_ids a) \<subseteq> set D"
    using closed by (metis inf.absorb1)+
  have subs: "\<forall>p \<in> snd ` set (eg_pending ?eg). set p \<inter> set aff = {} \<or> set p \<subseteq> set aff"
    using submissions_closed [OF rf(2)] by blast
  note led = invalidate_ok [OF q(3,2) subs touch dead]
  have same: "frames_of (ch_id c) (eg_artifacts (invalidate_artifacts aff ?eg)) = frames_of (ch_id c) (eg_artifacts ?eg)"
    if "c \<in> set (take i ?chs)" for c
    using led(3) live that by blast
  have "queue_ok V (en_config s) (en_blocks s) (ch_block_start (?chs ! i)) (eg_artifacts ?eg) (take i ?chs)"
    using queue_ok_take [OF q(1)] fi by blast
  then have "queue_ok V (en_config s) (en_blocks s) (ch_block_start (?chs ! i)) (eg_artifacts (invalidate_artifacts aff ?eg)) (take i ?chs)"
    using queue_ok_frames [of "take i ?chs"] same by metis
  then have "enc_inv V (invalidate_channel j s)"
    unfolding eq using led(1,2,6) live by (intro enc_inv_change [OF assms(1)]) (simp_all add: egress_ok_def)
  then show ?thesis
    using le same led(4) unfolding eq by (intro exI [of _ i]) simp
qed

lemma defer_inv: "enc_inv V (defer_step_error e s) = enc_inv V s" "enc_inv V (s\<lparr>en_l1_head := l1\<rparr>) = enc_inv V s"
  "enc_inv V (s\<lparr>en_tip := tip\<rparr>) = enc_inv V s" "enc_inv V (s\<lparr>en_blob_override := ovr\<rparr>) = enc_inv V s"
  by (simp_all add: defer_step_error_def enc_inv_def)

lemma invalidate_expired_keeps: "enc_inv V s \<Longrightarrow> enc_inv V (invalidate_expired_channels s)"
  using invalidate_keeps by (fastforce simp: invalidate_expired_channels_def Let_def dest: find_index_Some split: option.splits)

lemma advance_keeps:
  assumes "enc_inv V s"
  shows "enc_inv V (advance_l1_head V l1 s)"
proof -
  let ?s = "if en_l1_head s < l1 then s\<lparr>en_l1_head := l1\<rparr> else s"
  have inv: "enc_inv V ?s"
    using assms by (simp add: defer_inv)
  let ?s2 = "if en_l1_head s < l1 then case check_channel_timeout V ?s of (Err e, s) \<Rightarrow> defer_step_error e s | (_, s) \<Rightarrow> s else ?s"
  have "enc_inv V ?s2"
    using check_timeout_keeps [OF inv] inv by auto
  from invalidate_expired_keeps [OF this] inv show ?thesis
    unfolding advance_l1_head_def Let_def by (cases "en_l1_head s < l1") simp_all
qed

section \<open>Pruning\<close>

lemma rebase_fields [simp]:
  "ch_id (rebase_after_prune k c) = ch_id c" "ch_is_open (rebase_after_prune k c) = ch_is_open c"
  "framing_complete (rebase_after_prune k c) = framing_complete c" "fifo (rebase_after_prune k c) (rebase_after_prune k d) = fifo c d"
  "ch_max_frame_size (rebase_after_prune k c) = ch_max_frame_size c" "weight (rebase_after_prune k c) = weight c"
  "ch_block_start (rebase_after_prune k c) = ch_block_start c - k" "block_range_end (rebase_after_prune k c) = block_range_end c - k"
  "ch_blocks_added (rebase_after_prune k c) = ch_blocks_added c - (k - ch_block_start c)"
  by (auto simp: rebase_after_prune_def ch_is_open_def framing_complete_def fifo_def weight_def block_range_end_def)

lemma holds_rebase [simp]: "holds V config fs batches stream (rebase_after_prune k c) = holds V config fs batches stream c"
  by (rule holds_cong, rule framed_cong) (simp_all add: rebase_after_prune_def framing_complete_def max_frame_data_def ch_is_open_def)

lemma tiled_rebase: "tiled i chs j \<Longrightarrow> tiled (i - k) (map (rebase_after_prune k) chs) (j - k)"
  by (induction chs arbitrary: i) auto

lemma channel_blocks_rebase: "channel_blocks (drop k blocks) (rebase_after_prune k c) = drop (k - ch_block_start c) (channel_blocks blocks c)"
  by (cases "ch_block_start c \<le> k") (simp_all add: channel_blocks_def drop_take)

lemma chan_ok_rebase:
  assumes "chan_ok V config blocks L c" "k < block_range_end c"
  shows "chan_ok V config (drop k blocks) L (rebase_after_prune k c)"
proof -
  obtain old batches stream where h: "map block_to_single_batch (channel_blocks blocks c) = map Ok batches"
      "length batches = ch_blocks_added c" "holds V config (frames_of (ch_id c) L) (old @ batches) stream c"
    using assms(1) unfolding chan_ok_def chan_holds_def by blast
  let ?d = "k - ch_block_start c"
  have "map block_to_single_batch (channel_blocks (drop k blocks) (rebase_after_prune k c)) = map Ok (drop ?d batches)"
    using h(1) by (simp add: channel_blocks_rebase flip: drop_map)
  moreover have "holds V config (frames_of (ch_id c) L) ((old @ take ?d batches) @ drop ?d batches) stream c"
    using h(3) by simp
  moreover have "0 < ch_blocks_added c - ?d"
    using assms by (auto simp: block_range_end_def chan_ok_def)
  moreover have "length (drop ?d batches) = ch_blocks_added (rebase_after_prune k c)"
    using h(2) by simp
  ultimately have "\<exists>old batches stream. map block_to_single_batch (channel_blocks (drop k blocks) (rebase_after_prune k c)) = map Ok batches
      \<and> length batches = ch_blocks_added (rebase_after_prune k c) \<and> holds V config (frames_of (ch_id c) L) (old @ batches) stream c"
    by blast
  with \<open>0 < ch_blocks_added c - ?d\<close> show ?thesis
    using assms(1) unfolding chan_ok_def chan_holds_def by simp
qed

lemma tiled_pruned: "tiled i chs j \<Longrightarrow> \<forall>c \<in> set chs. block_range_end c \<le> k \<Longrightarrow> i \<le> k \<Longrightarrow> j \<le> k"
  by (induction chs arbitrary: i) auto

lemma dropWhile_range:
  assumes "tiled i chs j" "c \<in> set (dropWhile (\<lambda>c. block_range_end c \<le> k) chs)"
  shows "k < block_range_end c"
  using assms
proof (induction chs arbitrary: i)
  case (Cons d chs)
  show ?case
  proof (cases "block_range_end d \<le> k")
    case False
    have "block_range_end d \<le> ch_block_start x" if "x \<in> set chs" for x
      using tiled_range [of "block_range_end d" chs j] Cons(2) that by simp
    then show ?thesis
      using False Cons(3) by (fastforce simp: block_range_end_def)
  qed (use Cons in auto)
qed simp

lemma sorted_wrt_dropWhile: "sorted_wrt R xs \<Longrightarrow> sorted_wrt R (dropWhile P xs)"
  by (induction xs) auto

lemma queue_ok_prune:
  assumes "queue_ok V config blocks cursor L chs" "k \<le> length blocks"
    and "\<forall>c \<in> set (dropWhile (\<lambda>c. block_range_end c \<le> k) chs). frames_of (ch_id c) L' = frames_of (ch_id c) L"
  shows "queue_ok V config (drop k blocks) (cursor - k) L'
    (map (rebase_after_prune k) (dropWhile (\<lambda>c. block_range_end c \<le> k) chs))"
proof -
  let ?gone = "takeWhile (\<lambda>c. block_range_end c \<le> k) chs" and ?left = "dropWhile (\<lambda>c. block_range_end c \<le> k) chs"
  have t: "tiled 0 chs cursor"
    using assms(1) by (simp add: queue_ok_def)
  then obtain m where m: "tiled 0 ?gone m" "tiled m ?left cursor"
    using tiled_append [of 0 ?gone ?left cursor] by auto
  have "m \<le> k"
    using tiled_pruned [OF m(1), of k] by (auto dest: set_takeWhileD)
  then have "tiled 0 (map (rebase_after_prune k) ?left) (cursor - k)"
    using tiled_rebase [OF m(2), of k] by simp
  moreover have "set (butlast ?left) \<subseteq> set (butlast chs)"
  proof (cases "?left = []")
    case False
    then show ?thesis
      by (metis butlast_append takeWhile_dropWhile_id set_append Un_upper2)
  next
    case True
    show ?thesis
      unfolding True by simp
  qed
  then have "\<forall>c \<in> set (butlast (map (rebase_after_prune k) ?left)). \<not> ch_is_open c"
    using assms(1) by (auto simp: queue_ok_def simp flip: map_butlast)
  moreover have "chan_ok V config (drop k blocks) L' (rebase_after_prune k c)" if "c \<in> set ?left" for c
  proof -
    have "chan_ok V config blocks L' c"
      using assms(1,3) that set_dropWhileD [OF that] by (auto simp: queue_ok_def chan_ok_def chan_holds_def)
    then show ?thesis
      using dropWhile_range [OF t that] by (rule chan_ok_rebase)
  qed
  moreover have "distinct (map ch_id (map (rebase_after_prune k) ?left))"
  proof -
    have "map ch_id chs = map ch_id ?gone @ map ch_id ?left"
      by (metis map_append takeWhile_dropWhile_id)
    then have "distinct (map ch_id ?gone @ map ch_id ?left)"
      using assms(1) by (simp add: queue_ok_def)
    then show ?thesis
      by (simp add: comp_def)
  qed
  moreover have "sorted_wrt fifo (map (rebase_after_prune k) ?left)"
    using assms(1) by (simp add: queue_ok_def sorted_wrt_map sorted_wrt_dropWhile)
  ultimately show ?thesis
    using assms(1,2) by (auto simp: queue_ok_def)
qed

lemma gone_ids:
  assumes "distinct (map ch_id chs)"
  shows "ch_id ` set (dropWhile P chs) = ch_id ` set chs - set (map ch_id (takeWhile P chs))"
proof -
  have "map ch_id chs = map ch_id (takeWhile P chs) @ map ch_id (dropWhile P chs)"
    by (metis map_append takeWhile_dropWhile_id)
  then have "set (map ch_id chs) = set (map ch_id (takeWhile P chs)) \<union> set (map ch_id (dropWhile P chs))"
      "set (map ch_id (takeWhile P chs)) \<inter> set (map ch_id (dropWhile P chs)) = {}"
    using assms by (metis set_append, metis distinct_append)
  then show ?thesis
    by auto
qed

lemma drop_pruned: "drop (length (takeWhile P xs)) xs = dropWhile P xs"
  by (simp add: dropWhile_eq_drop)

lemma prune_blocks_keeps:
  fixes s :: "('z, 'r) batch_encoder" and k :: nat
  defines "gone \<equiv> takeWhile (\<lambda>c. block_range_end c \<le> k) (en_channels s)"
    and "left \<equiv> dropWhile (\<lambda>c. block_range_end c \<le> k) (en_channels s)"
  assumes "enc_inv V s" "k \<le> length (en_blocks s)"
    and eg: "eg = (if gone = [] then en_egress s else eg_prune_channels (map ch_id gone) (en_egress s))"
  shows "enc_inv V (s\<lparr>en_egress := eg, en_blocks := drop k (en_blocks s), en_block_cursor := en_block_cursor s - k,
    en_channels := map (rebase_after_prune k) left\<rparr>)"
proof -
  let ?X = "ch_id ` set (en_channels s)" and ?s = "s\<lparr>en_egress := eg, en_blocks := drop k (en_blocks s),
    en_block_cursor := en_block_cursor s - k, en_channels := map (rebase_after_prune k) left\<rparr>"
  have q: "queue_ok V (en_config s) (en_blocks s) (en_block_cursor s) (eg_artifacts (en_egress s)) (en_channels s)"
      "list_all (artifact_ok ?X) (das_artifacts (eg_artifacts (en_egress s)))" "ledger_ok (en_egress s)"
    using assms(3) by (simp_all add: enc_inv_def egress_ok_def)
  have sub: "set (map ch_id gone) \<subseteq> ?X"
    by (auto simp: gone_def dest: set_takeWhileD)
  have ids: "ch_id ` set left = ?X - set (map ch_id gone)"
    using q(1) unfolding gone_def left_def by (intro gone_ids) (simp add: queue_ok_def)
  note pr = egress_prune_ok [OF q(3,2) sub]
  have led: "ledger_ok eg" "list_all (artifact_ok (?X - set (map ch_id gone))) (das_artifacts (eg_artifacts eg))"
      "fst ` set (eg_pending eg) \<subseteq> fst ` set (eg_pending (en_egress s))"
    using pr(1,2,6) q(2,3) by (simp_all add: eg)
  have "frames_of cid (eg_artifacts eg) = frames_of cid (eg_artifacts (en_egress s))" if "cid \<in> ?X - set (map ch_id gone)" for cid
    using pr(3) [OF that] by (simp add: eg)
  then have "\<forall>c \<in> set left. frames_of (ch_id c) (eg_artifacts eg) = frames_of (ch_id c) (eg_artifacts (en_egress s))"
    using ids by blast
  from queue_ok_prune [OF q(1) assms(4) this [unfolded left_def]] have
      "egress_ok V (en_config s) (drop k (en_blocks s)) (en_block_cursor s - k) (map (rebase_after_prune k) left) eg"
    using led(1,2) ids by (simp add: egress_ok_def left_def image_image)
  then show ?thesis
    using led(3) set_drop_subset [of k "en_blocks s"] by (intro enc_inv_change [OF assms(3)]) simp_all
qed

text \<open>A safe head that is not one of the queued blocks, or their parent, changes nothing; otherwise the blocks up to it are
  dropped and the rest keeps its place.\<close>

lemma prune_safe_keeps:
  assumes "enc_inv V s" "prune_safe V safe_l2 s = (ok, s')"
  shows "enc_inv V s' \<and> (\<not> ok \<longrightarrow> s' = s)"
proof (cases "en_blocks s")
  case Nil
  then show ?thesis
    using assms by (auto simp: prune_safe_def defer_inv)
next
  case (Cons oldest rest)
  define k where "k = unat (bi_number safe_l2 + 1 - hd_number (blk_header oldest))"
  define gone where "gone = takeWhile (\<lambda>c. block_range_end c \<le> k) (en_channels s)"
  define eg where "eg = (if gone = [] then en_egress s else eg_prune_channels (map ch_id gone) (en_egress s))"
  let ?s = "s\<lparr>en_egress := eg, en_blocks := drop k (en_blocks s), en_block_cursor := en_block_cursor s - k,
    en_channels := map (rebase_after_prune k) (dropWhile (\<lambda>c. block_range_end c \<le> k) (en_channels s))\<rparr>"
  have drop: "drop (length gone) (en_channels s) = dropWhile (\<lambda>c. block_range_end c \<le> k) (en_channels s)"
    unfolding gone_def by (rule drop_pruned)
  then have whole: "gone = [] \<Longrightarrow> dropWhile (\<lambda>c. block_range_end c \<le> k) (en_channels s) = en_channels s"
    by simp
  have "s' = s \<or> length (en_blocks s) \<ge> k \<and> ok \<and> (s' = ?s \<or> s' = ?s\<lparr>en_tip := Some (bi_hash safe_l2)\<rparr>)"
    using assms(2) drop whole
    by (auto simp: prune_safe_def Cons Let_def rebase_after_block_prune_def eg_def k_def [symmetric] gone_def [symmetric] not_less
        split: if_splits)
  moreover have "k \<le> length (en_blocks s) \<Longrightarrow> enc_inv V ?s"
    using prune_blocks_keeps [OF assms(1), of k eg] by (simp add: eg_def gone_def)
  ultimately show ?thesis
    using assms(1) by (auto simp: defer_inv)
qed

lemma reconcile_keeps:
  assumes "enc_inv V s" "reconcile_derivation V safe_l2 l1 s = (r, s')"
  shows "enc_inv V s' \<and> (r = SafeHeadMismatch \<longrightarrow> s' = s)"
proof -
  obtain ok s1 where p: "prune_safe V safe_l2 s = (ok, s1)"
    by fastforce
  from prune_safe_keeps [OF assms(1) this] assms(2) p show ?thesis
    by (cases ok) (auto simp: reconcile_derivation_def split: if_splits)
qed

end
