(* ===== verification/Encoder_Drain.thy ===== *)
theory Encoder_Drain
  imports Encoder_Runs
begin

text \<open>
  Runs of the batcher's encoder: the states its operations reach, and the two loops of \<open>encode_and_drain\<close>, which
  return and leave nothing to encode, to frame or to submit.
\<close>

section \<open>Reachable states\<close>

text \<open>The operations of the pipeline in any order.  A channel id that is drawn is new, the ids of artifacts and submissions
  do not run out, and the wire form of a block has a length of 64 bits.\<close>

inductive encoder_run :: "('z, 'r) batcher_env \<Rightarrow> ('z, 'r) batch_encoder \<Rightarrow> bool" for V where
  run_new: "batch_encoder_new cfg config rng = Ok s \<Longrightarrow> 2023 \<le> ec_max_frame_size config \<Longrightarrow> encoder_run V s"
| run_add_block: "encoder_run V s \<Longrightarrow> block_fits V b \<Longrightarrow> add_block V b s = (r, s') \<Longrightarrow> encoder_run V s'"
| run_step: "encoder_run V s \<Longrightarrow> (en_block_cursor s < length (en_blocks s) \<Longrightarrow> fresh_id s (fst (bt_fill_id V (en_rng s)))) \<Longrightarrow>
    step V s = (r1, s') \<Longrightarrow> encoder_run V s'"
| run_flush: "encoder_run V s \<Longrightarrow> flush_channels V s = (r2, s') \<Longrightarrow> encoder_run V s'"
| run_submit: "encoder_run V s \<Longrightarrow> ids_left s \<Longrightarrow> next_submission s = (r3, s') \<Longrightarrow> encoder_run V s'"
| run_confirm: "encoder_run V s \<Longrightarrow> encoder_run V (enc_confirm sid l1 s)"
| run_requeue: "encoder_run V s \<Longrightarrow> encoder_run V (enc_requeue sid s)"
| run_advance: "encoder_run V s \<Longrightarrow> encoder_run V (advance_l1_head V l1 s)"
| run_reconcile: "encoder_run V s \<Longrightarrow> reconcile_derivation V safe_l2 current_l1 s = (r4, s') \<Longrightarrow> encoder_run V s'"
| run_override: "encoder_run V s \<Longrightarrow> encoder_run V (set_blob_override active s)"
| run_reset: "encoder_run V s \<Longrightarrow> encoder_run V (enc_reset rng s)"

context batcher_world
begin

lemma run_inv: "encoder_run V s \<Longrightarrow> enc_inv V s"
proof (induction rule: encoder_run.induct)
  case (run_step s r1 s')
  then show ?case
    using step_keeps by blast
next
  case (run_flush s r2 s')
  then show ?case
    using flush_keeps by fastforce
next
  case (run_submit s r3 s')
  then show ?case
    using next_submission_keeps by fastforce
next
  case (run_reconcile s safe_l2 current_l1 r4 s')
  then show ?case
    using reconcile_keeps by blast
qed (simp_all add: new_inv add_block_keeps confirm_keeps requeue_keeps advance_keeps reset_keeps set_blob_override_def defer_inv)

end

section \<open>The tiling of the blocks\<close>

lemma tiled_concat:
  "tiled i chs j \<Longrightarrow> j \<le> length blocks \<Longrightarrow> concat (map (channel_blocks blocks) chs) = take (j - i) (drop i blocks)"
proof (induction chs arbitrary: i)
  case (Cons c chs)
  then have start: "ch_block_start c = i" and rest: "tiled (i + ch_blocks_added c) chs j"
    by (auto simp: block_range_end_def)
  have "concat (map (channel_blocks blocks) chs) = take (j - (i + ch_blocks_added c)) (drop (i + ch_blocks_added c) blocks)"
    using Cons(1) [OF rest Cons(3)] .
  moreover have "j - i = ch_blocks_added c + (j - (i + ch_blocks_added c))"
    using tiled_range [OF rest] by simp
  ultimately show ?case
    by (metis (no_types, lifting) add.commute channel_blocks_def concat.simps(2) drop_drop list.simps(9) start take_add)
qed simp

section \<open>Stepping until idle\<close>

text \<open>The ids the generator will draw next are distinct, and none is in use.\<close>

fun fresh_ids :: "('z, 'r) batcher_env \<Rightarrow> nat \<Rightarrow> bytes set \<Rightarrow> 'r \<Rightarrow> bool" where
  "fresh_ids V 0 X rng \<longleftrightarrow> True"
| "fresh_ids V (Suc n) X rng \<longleftrightarrow>
     fst (bt_fill_id V rng) \<notin> X \<and> fresh_ids V n (insert (fst (bt_fill_id V rng)) X) (snd (bt_fill_id V rng))"

lemma fresh_ids_less: "fresh_ids V n X rng \<Longrightarrow> m \<le> n \<Longrightarrow> fresh_ids V m X rng"
proof (induction n arbitrary: m X rng)
  case (Suc n)
  then show ?case
    by (cases m) auto
qed simp

definition used_ids :: "('z, 'r) batch_encoder \<Rightarrow> bytes set" where
  "used_ids s = set (map ch_id (en_channels s)) \<union> f_id ` set (ledger_frames (eg_artifacts (en_egress s)))"

definition blocks_left :: "('z, 'r) batch_encoder \<Rightarrow> nat" where
  "blocks_left s = length (en_blocks s) - en_block_cursor s"

definition ids_ahead :: "('z, 'r) batcher_env \<Rightarrow> ('z, 'r) batch_encoder \<Rightarrow> bool" where
  "ids_ahead V s \<longleftrightarrow> fresh_ids V (blocks_left s) (used_ids s) (en_rng s)"

lemma ids_ahead_fresh: "ids_ahead V s \<Longrightarrow> en_block_cursor s < length (en_blocks s) \<Longrightarrow> fresh_id s (fst (bt_fill_id V (en_rng s)))"
  by (cases "blocks_left s") (auto simp: ids_ahead_def blocks_left_def used_ids_def fresh_id_def)

lemma kept_trans: "kept s s' \<Longrightarrow> kept s' s'' \<Longrightarrow> kept s s''"
  by (simp add: kept_def)

lemma stepped_ids:
  assumes "stepped V s (Ok r) s'" "r \<noteq> Idle" "ids_ahead V s"
  shows "ids_ahead V s'"
proof -
  have k: "kept s s'" "work s' < work s"
    and "en_rng s' = en_rng s \<and> map ch_id (en_channels s') = map ch_id (en_channels s)
       \<or> en_block_cursor s' = Suc (en_block_cursor s) \<and> en_rng s' = snd (bt_fill_id V (en_rng s))
         \<and> map ch_id (en_channels s') = map ch_id (en_channels s) @ [fst (bt_fill_id V (en_rng s))]"
    using assms(1,2) by (cases r; simp add: stepped_def)+
  then show ?thesis
  proof (elim disjE conjE)
    assume same: "en_rng s' = en_rng s" "map ch_id (en_channels s') = map ch_id (en_channels s)"
    have "blocks_left s' \<le> blocks_left s"
      using k by (auto simp: work_def blocks_left_def kept_def of_bool_def split: if_splits)
    then show ?thesis
      using assms(3) same k(1) by (auto simp: ids_ahead_def used_ids_def kept_def simp del: set_map intro: fresh_ids_less)
  next
    assume new: "en_block_cursor s' = Suc (en_block_cursor s)" "en_rng s' = snd (bt_fill_id V (en_rng s))"
      "map ch_id (en_channels s') = map ch_id (en_channels s) @ [fst (bt_fill_id V (en_rng s))]"
    have used: "used_ids s' = insert (fst (bt_fill_id V (en_rng s))) (used_ids s)"
      using k(1) by (simp add: used_ids_def new(3) kept_def del: set_map)
    show ?thesis
    proof (cases "blocks_left s")
      case 0
      then show ?thesis
        using k(1) new(1) by (simp add: ids_ahead_def blocks_left_def kept_def)
    next
      case (Suc n)
      then have "blocks_left s' = n"
        using k(1) new(1) by (simp add: blocks_left_def kept_def)
      then show ?thesis
        using assms(3) Suc by (simp add: ids_ahead_def used new(2))
    qed
  qed
qed

text \<open>The reasons for which encoding stops: an error deferred from an earlier call, a block without batch, or a block that
  fits no channel.\<close>

definition stopped :: "('z, 'r) batch_encoder \<Rightarrow> step_error \<Rightarrow> ('z, 'r) batch_encoder \<Rightarrow> bool" where
  "stopped s e s' \<longleftrightarrow>
     en_deferred_step_error s = Some e
     \<or> en_block_cursor s' < length (en_blocks s)
       \<and> ((\<exists>ce. e = CompositionFailed (en_block_cursor s') ce \<and> block_to_single_batch (en_blocks s ! en_block_cursor s') = Err ce)
          \<or> (\<exists>limit. e = BlockExceedsChannelLimit (en_block_cursor s') limit))"

context batcher_world
begin

lemma step_until_idle_returns:
  assumes "enc_inv V s" "ids_ahead V s"
  shows "\<exists>r s'. step_until_idle V s = Some (r, s') \<and> enc_inv V s' \<and> kept s s'
    \<and> (encoder_run V s \<longrightarrow> encoder_run V s')
    \<and> (case r of Ok _ \<Rightarrow> en_block_cursor s' = length (en_blocks s) | Err e \<Rightarrow> stopped s e s' | Panic \<Rightarrow> False)"
  using assms
proof (induction "work s" arbitrary: s rule: less_induct)
  case less
  obtain r s1 where st: "step V s = (r, s1)"
    by fastforce
  have k: "enc_inv V s1" "stepped V s r s1"
    using step_keeps [OF less(2) ids_ahead_fresh [OF less(3)] st] by blast+
  have run: "encoder_run V s \<longrightarrow> encoder_run V s1"
    using run_step [OF _ ids_ahead_fresh [OF less(3)] st] by blast
  show ?case
  proof (cases r)
    case (Ok x)
    show ?thesis
    proof (cases "x = Idle")
      case True
      then show ?thesis
        using st k Ok run by (subst step_until_idle.simps) (auto simp: stepped_def)
    next
      case False
      then have "work s1 < work s" "kept s s1" "en_deferred_step_error s1 = None"
        using k(2) Ok by (cases x; simp add: stepped_def)+
      with less(1) [OF _ k(1) stepped_ids [OF k(2) [unfolded Ok] False less(3)]] obtain r' s' where
          r: "step_until_idle V s1 = Some (r', s')" "enc_inv V s'" "kept s1 s'" "encoder_run V s1 \<longrightarrow> encoder_run V s'"
            "case r' of Ok _ \<Rightarrow> en_block_cursor s' = length (en_blocks s1) | Err e \<Rightarrow> stopped s1 e s' | Panic \<Rightarrow> False"
        by blast
      have "step_until_idle V s = Some (r', s')"
        using st Ok False r(1) by (subst step_until_idle.simps) (cases x; simp)
      then show ?thesis
        using r(2,4,5) run kept_trans [OF \<open>kept s s1\<close> r(3)] \<open>kept s s1\<close> \<open>en_deferred_step_error s1 = None\<close>
        by (cases r') (auto simp: stopped_def kept_def)
    qed
  next
    case (Err e)
    then have "step_until_idle V s = Some (Err e, s1)"
      using st by (subst step_until_idle.simps) simp
    then show ?thesis
      using k Err run by (auto simp: stepped_def stopped_def)
  next
    case Panic
    then show ?thesis
      using k(2) by (simp add: stepped_def)
  qed
qed

end

section \<open>Draining the submissions\<close>

text \<open>With all channels closed and due, an unfinished channel always gives a plan.\<close>

lemma plan_due_mono: "plan_channels l1 chs r acc due = (r', plan, due') \<Longrightarrow> due \<Longrightarrow> due'"
  by (induction chs arbitrary: r acc due) (auto simp: Let_def split: if_splits prod.splits)

lemma plan_skip: "\<forall>x \<in> set pre. framing_complete x \<Longrightarrow> plan_channels l1 (pre @ chs) r acc due = plan_channels l1 chs r acc due"
  "\<forall>x \<in> set pre. framing_complete x \<Longrightarrow> plan_calldata (pre @ chs) = plan_calldata chs"
  by (induction pre) auto

lemma plan_loop_some:
  assumes "0 < a" "FRAME_ENCODED_OVERHEAD < r"
  shows "\<exists>a' t' r' p ps. plan_loop cid m a t r [] = (a', t', r', p # ps)"
  using plan_loop_step [OF assms refl, of cid m t] by (auto simp: Let_def split: prod.splits if_splits)

lemma plan_channel_some:
  assumes "ch_terminal_pending c" "FRAME_ENCODED_OVERHEAD < r"
  shows "\<exists>cmp r1 p ps. plan_channel_frames c r [] = (cmp, r1, p # ps)"
proof (cases "ch_available_output c = 0")
  case True
  then show ?thesis
    using assms by (auto simp: plan_channel_frames_def plan_loop_stop)
next
  case False
  then obtain a' t' r' p ps where
      "plan_loop (ch_id c) (max_frame_data c) (ch_available_output c) (ch_terminal_pending c) r [] = (a', t', r', p # ps)"
    using plan_loop_some [OF _ assms(2)] by blast
  then show ?thesis
    by (cases p) (auto simp: plan_channel_frames_def)
qed

lemma unfinished_gives_plan:
  assumes "c \<in> set chs" "\<not> framing_complete c" "\<forall>c \<in> set chs. \<not> ch_is_open c \<and> ch_deadline_l1_block c \<le> l1"
  shows "plan_blob chs l1 \<noteq> None \<and> plan_calldata chs \<noteq> None"
proof -
  obtain pre d post where chs: "chs = pre @ d # post" "\<not> framing_complete d" "\<forall>x \<in> set pre. framing_complete x"
    using split_list_first_prop [of chs "\<lambda>c. \<not> framing_complete c"] assms(1,2) by blast
  have d: "ch_terminal_pending d" "\<not> ch_is_open d" "deadline_due l1 d"
    using assms(3) chs(1,2) by (auto simp: framing_complete_iff deadline_due_def)
  obtain cmp r1 p ps where pl: "plan_channel_frames d BLOB_CAPACITY [] = (cmp, r1, p # ps)"
    using plan_channel_some [OF d(1), of BLOB_CAPACITY]
    by (auto simp: BLOB_CAPACITY_def BLOB_MAX_DATA_SIZE_def BLOB_DERIVATION_PREFIX_SIZE_def FRAME_ENCODED_OVERHEAD_def)
  obtain r2 qs due where post: "plan_channels l1 post r1 [] True = (r2, qs, due)"
    by (metis prod_cases3)
  have "plan_channels l1 chs BLOB_CAPACITY [] False = (if cmp then (r2, p # ps @ qs, due) else (r1, p # ps, True))"
    unfolding chs(1) plan_skip(1) [OF chs(3)] plan_channels_Cons using pl post chs(2) d by simp
  moreover have due
    using plan_due_mono [OF post] by simp
  ultimately have "plan_blob chs l1 \<noteq> None"
    by (simp add: plan_blob_def split: if_splits)
  moreover have "plan_calldata chs \<noteq> None"
    unfolding chs(1) plan_skip(2) [OF chs(3)] using chs(2) d(1) by (auto simp: Let_def)
  ultimately show ?thesis
    by blast
qed

lemma nothing_ready_complete:
  assumes "\<not> has_ready_submission s" "\<forall>c \<in> set (en_channels s). \<not> ch_is_open c \<and> ch_deadline_l1_block c \<le> en_l1_head s"
  shows "\<forall>c \<in> set (en_channels s). framing_complete c"
  using unfinished_gives_plan [OF _ _ assms(2)] assms(1)
  by (auto simp: has_ready_submission_def eg_has_ready_submission_def split: da_type.splits)

lemma all_closed:
  assumes "enc_inv V s" "\<not> last_open s" "c \<in> set (en_channels s)"
  shows "\<not> ch_is_open c"
proof (cases "c = last (en_channels s)")
  case False
  then have "c \<in> set (butlast (en_channels s))"
    using assms(3) by (metis append_butlast_last_id empty_iff list.set(1) rotate1.simps(2) set_ConsD set_rotate1)
  then show ?thesis
    using assms(1) by (simp add: enc_inv_def egress_ok_def queue_ok_def)
qed (use assms in \<open>auto simp: last_open_def\<close>)

text \<open>What is left to submit is bounded by the blocks.\<close>

lemma tiled_length: "tiled i chs j \<Longrightarrow> \<forall>c \<in> set chs. 0 < ch_blocks_added c \<Longrightarrow> length chs \<le> j - i"
proof (induction chs arbitrary: i)
  case (Cons c chs)
  then have "length chs \<le> j - block_range_end c" "ch_block_start c = i" "0 < ch_blocks_added c" "block_range_end c \<le> j"
    using tiled_range [of i "c # chs" j] by auto
  then show ?case
    by (auto simp: block_range_end_def)
qed simp

lemma sum_list_bound: "\<forall>x \<in> set xs. f x \<le> n \<Longrightarrow> sum_list (map f xs) \<le> length xs * (n :: nat)"
  by (induction xs) auto

definition ids_suffice :: "('z, 'r) batch_encoder \<Rightarrow> bool" where
  "ids_suffice s \<longleftrightarrow>
     unat (das_next_id (eg_artifacts (en_egress s))) + 100000001 * length (en_blocks s) + MAX_BLOBS_PER_TX < 2 ^ 64
     \<and> unat (en_next_id s) + 100000001 * length (en_blocks s) + length (ready (eg_artifacts (en_egress s))) + 1 < 2 ^ 64"

definition ids_last :: "('z, 'r) batch_encoder \<Rightarrow> bool" where
  "ids_last s \<longleftrightarrow>
     unat (das_next_id (eg_artifacts (en_egress s))) + load (en_channels s) + MAX_BLOBS_PER_TX < 2 ^ 64
     \<and> unat (en_next_id s) + (load (en_channels s) + length (ready (eg_artifacts (en_egress s)))) + 1 < 2 ^ 64"

lemma ids_last_left: "ids_last s \<Longrightarrow> ids_left s"
  by (auto simp: ids_last_def ids_left_def unsigned_minus_1_eq_mask mask_eq_exp_minus_1)

context batcher_world
begin

lemma load_bound: "enc_inv V s \<Longrightarrow> load (en_channels s) \<le> 100000001 * length (en_blocks s)"
proof -
  assume inv: "enc_inv V s"
  then have q: "queue_ok V (en_config s) (en_blocks s) (en_block_cursor s) (eg_artifacts (en_egress s)) (en_channels s)" "config_ok (en_config s)"
    by (simp_all add: enc_inv_def egress_ok_def)
  have "weight c \<le> 100000001" if c: "c \<in> set (en_channels s)" for c
  proof -
    have "chan_ok V (en_config s) (en_blocks s) (eg_artifacts (en_egress s)) c"
      using q(1) c by (simp add: queue_ok_def)
    from chan_frames [OF q(2) this] obtain stream where
        "framed (frames_of (ch_id c) (eg_artifacts (en_egress s))) stream c" "length stream \<le> 100000000"
      by blast
    then show ?thesis
      by (auto simp: weight_def framed_def)
  qed
  then have "load (en_channels s) \<le> length (en_channels s) * 100000001"
    unfolding load_def by (intro sum_list_bound) blast
  moreover have "length (en_channels s) \<le> length (en_blocks s)"
    using tiled_length [of 0 "en_channels s" "en_block_cursor s"] q(1) by (auto simp: queue_ok_def chan_ok_def)
  ultimately show ?thesis
    by linarith
qed

lemma ids_suffice_last: "enc_inv V s \<Longrightarrow> ids_suffice s \<Longrightarrow> ids_last s"
  using load_bound [of s] by (auto simp: ids_suffice_def ids_last_def)

lemma chans_cut_due:
  assumes "chans_cut new chs chs'" "\<forall>c \<in> set chs. \<not> ch_is_open c \<and> ch_deadline_l1_block c \<le> l1"
  shows "\<forall>c \<in> set chs'. \<not> ch_is_open c \<and> ch_deadline_l1_block c \<le> l1"
proof
  fix c'
  assume "c' \<in> set chs'"
  from related_to [OF assms(1) [unfolded chans_cut_def] this] obtain c where "c \<in> set chs" "cut_to (filter (\<lambda>f. f_id f = ch_id c) new) c c'"
    by blast
  then show "\<not> ch_is_open c' \<and> ch_deadline_l1_block c' \<le> l1"
    using assms(2) by (simp add: cut_to_fields)
qed

lemma drain_returns:
  assumes "enc_inv V s" "ids_last s" "\<forall>c \<in> set (en_channels s). \<not> ch_is_open c \<and> ch_deadline_l1_block c \<le> en_l1_head s"
  shows "\<exists>new s'. drain_submissions subs s = Some (Ok (subs @ new), s') \<and> enc_inv V s' \<and> \<not> has_ready_submission s'
    \<and> (\<forall>c \<in> set (en_channels s'). framing_complete c) \<and> en_blocks s' = en_blocks s \<and> en_block_cursor s' = en_block_cursor s
    \<and> (encoder_run V s \<longrightarrow> encoder_run V s')
    \<and> list_all (\<lambda>sub. list_all deliverable (submission_payloads sub)) new"
  using assms
proof (induction "load (en_channels s) + length (ready (eg_artifacts (en_egress s)))" arbitrary: s subs rule: less_induct)
  case less
  obtain sub cut s1 where n: "next_submission s = (Ok sub, s1)" "enc_inv V s1" "chans_cut cut (en_channels s) (en_channels s1)"
      and sub: "case sub of
         None \<Rightarrow> \<not> has_ready_submission s \<and> s1 = s
       | Some sub \<Rightarrow> has_ready_submission s \<and> bsub_id sub = en_next_id s \<and> en_next_id s \<in> fst ` set (eg_pending (en_egress s1))
           \<and> load (en_channels s1) + length (ready (eg_artifacts (en_egress s1))) < load (en_channels s) + length (ready (eg_artifacts (en_egress s)))
           \<and> unat (das_next_id (eg_artifacts (en_egress s1))) + load (en_channels s1)
               \<le> unat (das_next_id (eg_artifacts (en_egress s))) + load (en_channels s)
           \<and> submission_blob_count sub \<le> ec_max_blobs_per_tx (en_config s)
           \<and> list_all deliverable (submission_payloads sub)
           \<and> s1 = s\<lparr>en_channels := en_channels s1, en_egress := en_egress s1, en_next_id := en_next_id s + 1\<rparr>"
    using next_submission_keeps [OF less(2) ids_last_left [OF less(3)]] by blast
  show ?case
  proof (cases sub)
    case None
    then have "drain_submissions subs s = Some (Ok subs, s)"
      using n(1) sub by (subst drain_submissions.simps) simp
    then show ?thesis
      using less(2) sub nothing_ready_complete [OF _ less(4)] None by (intro exI [of _ "[]"] exI [of _ s]) simp
  next
    case (Some b)
    note b = sub [unfolded Some option.case]
    have fields: "en_next_id s1 = en_next_id s + 1" "en_l1_head s1 = en_l1_head s" "en_blocks s1 = en_blocks s"
        "en_block_cursor s1 = en_block_cursor s"
    proof -
      have eq: "s1 = s\<lparr>en_channels := en_channels s1, en_egress := en_egress s1, en_next_id := en_next_id s + 1\<rparr>"
        using b by blast
      show "en_next_id s1 = en_next_id s + 1" "en_l1_head s1 = en_l1_head s" "en_blocks s1 = en_blocks s"
          "en_block_cursor s1 = en_block_cursor s"
        using arg_cong [OF eq, of en_next_id] arg_cong [OF eq, of en_l1_head] arg_cong [OF eq, of en_blocks]
          arg_cong [OF eq, of en_block_cursor] by simp_all
    qed
    have "unat (en_next_id s + 1) = unat (en_next_id s) + 1"
      using next_nonmax [of "en_next_id s" "load (en_channels s) + length (ready (eg_artifacts (en_egress s)))"] less(3) by (simp add: ids_last_def)
    then have "ids_last s1"
      using less(3) b fields(1) by (simp add: ids_last_def)
    from less(1) [OF _ n(2) this, of "subs @ [b]"] b chans_cut_due [OF n(3) less(4)] obtain new s' where
        r: "drain_submissions (subs @ [b]) s1 = Some (Ok ((subs @ [b]) @ new), s')" "enc_inv V s'" "\<not> has_ready_submission s'"
          "\<forall>c \<in> set (en_channels s'). framing_complete c" "en_blocks s' = en_blocks s1" "en_block_cursor s' = en_block_cursor s1"
          "list_all (\<lambda>sub. list_all deliverable (submission_payloads sub)) new" "encoder_run V s1 \<longrightarrow> encoder_run V s'"
      unfolding fields by blast
    have "encoder_run V s \<longrightarrow> encoder_run V s1"
      using run_submit [OF _ ids_last_left [OF less(3)] n(1)] by blast
    moreover have "drain_submissions subs s = drain_submissions (subs @ [b]) s1"
      using n(1) Some by (subst drain_submissions.simps) simp
    ultimately show ?thesis
      using r b fields by (intro exI [of _ "b # new"] exI [of _ s']) simp
  qed
qed

lemma encode_and_drain_returns:
  assumes "enc_inv V s" "ids_ahead V s" "ids_suffice s"
  shows "\<exists>r s'. encode_and_drain V s = Some (r, s') \<and> enc_inv V s' \<and> en_blocks s' = en_blocks s
    \<and> (encoder_run V s \<longrightarrow> encoder_run V s')
    \<and> (case r of
         Ok subs \<Rightarrow> en_block_cursor s' = length (en_blocks s) \<and> \<not> has_ready_submission s'
           \<and> (\<forall>c \<in> set (en_channels s'). framing_complete c) \<and> list_all (\<lambda>sub. list_all deliverable (submission_payloads sub)) subs
       | Err e \<Rightarrow> stopped s e s' \<and> step_until_idle V s = Some (Err e, s')
       | Panic \<Rightarrow> False)"
proof -
  obtain r s1 where st: "step_until_idle V s = Some (r, s1)" "enc_inv V s1" "kept s s1" "encoder_run V s \<longrightarrow> encoder_run V s1"
      "case r of Ok _ \<Rightarrow> en_block_cursor s1 = length (en_blocks s) | Err e \<Rightarrow> stopped s e s1 | Panic \<Rightarrow> False"
    using step_until_idle_returns [OF assms(1,2)] by blast
  show ?thesis
  proof (cases r)
    case (Ok u)
    obtain chs where fl: "flush_channels V s1 = (Ok (), s1\<lparr>en_channels := chs\<rparr>)" "enc_inv V (s1\<lparr>en_channels := chs\<rparr>)"
        "\<not> last_open (s1\<lparr>en_channels := chs\<rparr>)" "\<forall>c \<in> set chs. ch_deadline_l1_block c \<le> en_l1_head s1"
      using flush_keeps [OF st(2)] by blast
    let ?s = "s1\<lparr>en_channels := chs\<rparr>"
    have "ids_last ?s"
      using ids_suffice_last [OF fl(2)] assms(3) st(3) by (simp add: ids_suffice_def kept_def)
    moreover have "\<forall>c \<in> set (en_channels ?s). \<not> ch_is_open c \<and> ch_deadline_l1_block c \<le> en_l1_head ?s"
      using all_closed [OF fl(2,3)] fl(4) by simp
    ultimately obtain new s' where "drain_submissions [] ?s = Some (Ok ([] @ new), s')" "enc_inv V s'" "\<not> has_ready_submission s'"
        "\<forall>c \<in> set (en_channels s'). framing_complete c" "en_blocks s' = en_blocks ?s" "en_block_cursor s' = en_block_cursor ?s"
        "list_all (\<lambda>sub. list_all deliverable (submission_payloads sub)) new" "encoder_run V ?s \<longrightarrow> encoder_run V s'"
      using drain_returns [OF fl(2)] by blast
    moreover have "encoder_run V s1 \<longrightarrow> encoder_run V ?s"
      using run_flush [OF _ fl(1)] by blast
    ultimately show ?thesis
      using st Ok fl(1) by (intro exI [of _ "Ok new"] exI [of _ s']) (simp add: encode_and_drain_def kept_def)
  next
    case (Err e)
    then show ?thesis
      using st by (intro exI [of _ "Err e"] exI [of _ s1]) (simp add: encode_and_drain_def kept_def)
  qed (use st in simp)
qed

end

end
