(* ===== verification/Deposits.thy ===== *)
theory Deposits
  imports Deposit_Tx
begin

text \<open>
  User deposits: crates/consensus/protocol/src/deposits.rs turns a log of the deposit contract into an
  encoded deposit transaction, and \<open>derive_deposits\<close> of crates/consensus/derive/src/attributes/stateful.rs
  collects those of an L1 block.  The emitted log is also described from the side of the contract, so
  that decoding is stated as reading back what the contract wrote.
\<close>

section \<open>Decoding a log\<close>

definition EVENT_ABI_HASH :: b256 where
  "EVENT_ABI_HASH = 0xb3813568d9991fc951961fcb4c784893574240a28925604d09fc577c55bb7c32"

text \<open>The fallible slice access \<open>get(a..b)\<close>.\<close>

definition get_range :: "'a list \<Rightarrow> nat \<Rightarrow> nat \<Rightarrow> 'a list option" where
  "get_range xs a b = (if a \<le> b \<and> b \<le> length xs then Some (take (b - a) (drop a xs)) else None)"

definition topic_address :: "(b256 \<Rightarrow> 'e) \<Rightarrow> b256 \<Rightarrow> ('e, address) outcome" where
  "topic_address err topic =
     (let bs = be_bytes 32 topic in
      obind (slice bs 12 32) (\<lambda>addr.
        if \<exists>b \<in> set (take 12 bs). b \<noteq> 0 then Err (err topic) else Ok (from_be addr)))"

definition unmarshal_v0 :: "tx_deposit \<Rightarrow> address \<Rightarrow> bytes \<Rightarrow> (deposit_decode_error, tx_deposit) outcome" where
  "unmarshal_v0 tx to_addr data =
     (if length data < 32 + 32 + 8 + 1 then Err (UnexpectedOpaqueDataLen (length data))
      else obind (slice data 16 32) (\<lambda>raw_mint.
           obind (slice data 32 64) (\<lambda>val.
           obind (slice data 64 72) (\<lambda>raw_gas.
           obind (index data 72) (\<lambda>is_creation.
           obind (slice data 73 (73 + (length data - 73))) (\<lambda>input.
             Ok (tx\<lparr>dep_mint := from_be raw_mint, dep_value := from_be val, dep_gas_limit := from_be raw_gas,
                    dep_to := (if is_creation = 0 then TxCall to_addr else TxCreate), dep_input := input\<rparr>)))))))"

definition padding_check :: "bytes \<Rightarrow> u64 \<Rightarrow> u64 \<Rightarrow> (deposit_decode_error, unit) outcome" where
  "padding_check data opaque_content_len padding_end =
     (if opaque_content_len mod 32 = 0
         \<or> (case get_range data (unat (64 + opaque_content_len)) (unat padding_end) of
              Some padding \<Rightarrow> \<forall>b \<in> set padding. b = 0 | None \<Rightarrow> False)
      then Ok ()
      else obind (slice data (unat (64 + opaque_content_len)) (length data)) (\<lambda>rest.
             Err (InvalidOpaqueDataPadding rest)))"

definition opaque_data_of :: "bytes \<Rightarrow> (deposit_decode_error, bytes) outcome" where
  "opaque_data_of data =
     obind (slice data 0 32) (\<lambda>offset_bytes.
       if from_be offset_bytes \<noteq> (32 :: u256) then Err (InvalidOpaqueDataOffset offset_bytes)
       else obind (slice data 32 64) (\<lambda>len_bytes.
         let content_len = (from_be len_bytes :: u256) in
         if 2 ^ 64 \<le> unat content_len then Err (OpaqueContentOverflow len_bytes)
         else
           let opaque_content_len = (ucast content_len :: u64);
               opaque_data_ceil_32 = saturating_mul (saturating_add opaque_content_len 31 div 32) 32
           in obind (ok_or OpaqueDataPaddingOverflow (checked_add 64 opaque_data_ceil_32)) (\<lambda>padding_end.
              obind (ok_or (InvalidOpaqueDataLength (unat opaque_content_len) (length data - 64))
                       (get_range data 64 (unat (64 + opaque_content_len)))) (\<lambda>opaque_data.
              obind (padding_check data opaque_content_len padding_end) (\<lambda>_. Ok opaque_data)))))"

definition deposit_decode ::
    "rlp_codec \<Rightarrow> keccak \<Rightarrow> b256 \<Rightarrow> nat \<Rightarrow> evm_log \<Rightarrow> (deposit_decode_error, bytes) outcome" where
  "deposit_decode R kk block_hash log_index ev =
     (let topics = log_topics ev; data = log_data ev in
      if length topics \<noteq> 4 then Err (UnexpectedTopicsLen (length topics))
      else obind (index topics 0) (\<lambda>selector.
        if selector \<noteq> EVENT_ABI_HASH then Err (InvalidEventSelector EVENT_ABI_HASH selector)
        else if length data < 64 then Err (IncompleteOpaqueData (length data))
        else if length data mod 32 \<noteq> 0 then Err (UnalignedData (length data))
        else obind (obind (index topics 1) (topic_address FromDecode)) (\<lambda>from_addr.
             obind (obind (index topics 2) (topic_address ToDecode)) (\<lambda>to_addr.
             obind (index topics 3) (\<lambda>version.
             obind (opaque_data_of data) (\<lambda>opaque_data.
               let deposit_tx = tx_deposit_default\<lparr>dep_from := from_addr, dep_is_system_transaction := False,
                     dep_source_hash := source_hash kk (UserSource block_hash (word_of_nat log_index))\<rparr>
               in if version \<noteq> 0 then Err (InvalidDepositVersion version)
                  else obind (unmarshal_v0 deposit_tx to_addr opaque_data) (\<lambda>deposit_tx.
                    Ok (encode_2718 R deposit_tx))))))))"

section \<open>The deposits of a block\<close>

definition is_deposit_event :: "address \<Rightarrow> evm_log \<Rightarrow> bool" where
  "is_deposit_event deposit_contract l \<longleftrightarrow>
     (case log_topics l of [] \<Rightarrow> False | topic # _ \<Rightarrow> topic = EVENT_ABI_HASH) \<and> log_address l = deposit_contract"

fun derive_from_logs ::
    "rlp_codec \<Rightarrow> keccak \<Rightarrow> b256 \<Rightarrow> address \<Rightarrow> nat \<Rightarrow> evm_log list \<Rightarrow> (pipeline_encoding_error, bytes list) outcome" where
  "derive_from_logs R kk block_hash deposit_contract global_index [] = Ok []"
| "derive_from_logs R kk block_hash deposit_contract global_index (l # logs) =
     (if \<not> is_deposit_event deposit_contract l
      then derive_from_logs R kk block_hash deposit_contract (global_index + 1) logs
      else obind (map_err DepositDecodeErr (deposit_decode R kk block_hash global_index l)) (\<lambda>decoded.
           obind (derive_from_logs R kk block_hash deposit_contract (global_index + 1) logs) (\<lambda>res.
             Ok (decoded # res))))"

definition derive_deposits ::
    "rlp_codec \<Rightarrow> keccak \<Rightarrow> b256 \<Rightarrow> receipt list \<Rightarrow> address \<Rightarrow> (pipeline_encoding_error, bytes list) outcome" where
  "derive_deposits R kk block_hash receipts deposit_contract =
     derive_from_logs R kk block_hash deposit_contract 0
       (concat (map rc_logs (filter (\<lambda>r. rc_status r \<noteq> Eip658 False) receipts)))"

section \<open>What the contract emits\<close>

record deposit_event =
  de_from :: address
  de_to :: address
  de_mint :: u256
  de_value :: u256
  de_gas :: u64
  de_is_creation :: bool
  de_data :: bytes

definition opaque_bytes :: "deposit_event \<Rightarrow> bytes" where
  "opaque_bytes e = be_bytes 32 (de_mint e) @ be_bytes 32 (de_value e) @ be_bytes 8 (de_gas e)
     @ [if de_is_creation e then 1 else 0] @ de_data e"

text \<open>A byte string in the ABI: its position, its length, its bytes and zeros up to a whole word.\<close>

definition abi_padding :: "nat \<Rightarrow> nat" where
  "abi_padding n = (n + 31) div 32 * 32 - n"

definition abi_bytes :: "bytes \<Rightarrow> bytes" where
  "abi_bytes d = be_bytes 32 (32 :: u256) @ be_bytes 32 (word_of_nat (length d) :: u256) @ d
     @ replicate (abi_padding (length d)) 0"

definition event_log :: "address \<Rightarrow> deposit_event \<Rightarrow> evm_log" where
  "event_log contract e =
     \<lparr>log_address = contract, log_topics = [EVENT_ABI_HASH, ucast (de_from e), ucast (de_to e), 0],
      log_data = abi_bytes (opaque_bytes e)\<rparr>"

definition user_deposit :: "keccak \<Rightarrow> b256 \<Rightarrow> nat \<Rightarrow> deposit_event \<Rightarrow> tx_deposit" where
  "user_deposit kk block_hash i e =
     \<lparr>dep_source_hash = source_hash kk (UserSource block_hash (word_of_nat i)), dep_from = de_from e,
      dep_to = (if de_is_creation e then TxCreate else TxCall (de_to e)), dep_mint = ucast (de_mint e),
      dep_value = de_value e, dep_gas_limit = de_gas e, dep_is_system_transaction = False,
      dep_input = de_data e\<rparr>"

section \<open>Reading the log back\<close>

lemma topic_address_back: "topic_address err (ucast (a :: address)) = Ok a"
proof -
  have small: "unat a < 256 ^ 20"
    using unat_less_pow [of a] by simp
  have nat: "unat (ucast a :: b256) = unat a"
    using small by (simp add: unsigned_ucast_eq take_bit_eq_mod)
  have "take 12 (be_bytes 32 (ucast a :: b256)) = replicate 12 0"
    using take_nat_to_be [OF small, of 12 32] by (simp add: be_bytes_def nat)
  moreover have "be_bytes 20 (ucast a :: b256) = be_bytes 20 a"
    by (simp add: be_bytes_def nat)
  ultimately show ?thesis
    by (simp add: topic_address_def Let_def)
qed

lemma low_bytes: "be_bytes 16 (w :: u256) = be_bytes 16 (ucast w :: u128)"
proof -
  have "unat (ucast w :: u128) = unat w mod 256 ^ 16"
    by (simp add: unsigned_ucast_eq take_bit_eq_mod)
  then show ?thesis
    using nat_to_be_mod [of 16 "unat w"] by (simp add: be_bytes_def)
qed

lemma unmarshal_back:
  "unmarshal_v0 tx to_addr (opaque_bytes e) = Ok (tx\<lparr>dep_mint := ucast (de_mint e), dep_value := de_value e,
     dep_gas_limit := de_gas e, dep_to := (if de_is_creation e then TxCreate else TxCall to_addr),
     dep_input := de_data e\<rparr>)"
  by (simp add: unmarshal_v0_def opaque_bytes_def low_bytes nth_append)

lemma unmarshal_no_panic [simp]: "unmarshal_v0 tx to_addr data \<noteq> Panic"
  by (simp add: unmarshal_v0_def)

lemma length_word:
  assumes "n + 96 < 2 ^ 64"
  defines "w \<equiv> (word_of_nat n :: u64)"
  shows "unat (64 + w) = 64 + n" "w mod 32 = 0 \<longleftrightarrow> n mod 32 = 0"
    "checked_add 64 (saturating_mul (saturating_add w 31 div 32) 32) = Some (word_of_nat (64 + n + abi_padding n))"
proof -
  have w: "unat w = n"
    using assms by (simp add: w_def unat_of_nat_small)
  then show add: "unat (64 + w) = 64 + n"
    using assms(1) by (subst unat_add_lem [THEN iffD1]) simp_all
  have "unat (w mod 32) = n mod 32"
    by (simp add: unat_mod w)
  then show "w mod 32 = 0 \<longleftrightarrow> n mod 32 = 0"
    by (metis unat_0 unat_eq_zero)
  have ceil: "unat (saturating_mul (saturating_add w 31 div 32) 32) = (n + 31) div 32 * 32"
    using assms(1) by (simp add: unat_saturating_mul unat_saturating_add unat_div w)
  have "(n + 31) div 32 * 32 = n + abi_padding n" "(n + 31) div 32 * 32 \<le> n + 31"
    by (simp_all add: abi_padding_def)
  then show "checked_add 64 (saturating_mul (saturating_add w 31 div 32) 32) = Some (word_of_nat (64 + n + abi_padding n))"
    using assms(1) ceil by (simp add: checked_add_def word_unat_eq_iff unat_of_nat_small unat_add_lem [THEN iffD1])
qed

lemma padding_check_back:
  assumes "length d + 96 < 2 ^ 64"
  shows "padding_check (abi_bytes d) (word_of_nat (length d)) (word_of_nat (64 + length d + abi_padding (length d))) = Ok ()"
proof -
  have "abi_padding (length d) < 32"
    by (simp add: abi_padding_def)
  then have "unat (word_of_nat (64 + length d + abi_padding (length d)) :: u64) = 64 + length d + abi_padding (length d)"
    using assms by (intro unat_of_nat_small) simp
  then show ?thesis
    using length_word(1,2) [OF assms]
    by (simp add: padding_check_def get_range_def abi_bytes_def)
qed

lemma abi_bytes_parts:
  "slice (abi_bytes d) 0 32 = Ok (be_bytes 32 (32 :: u256))"
  "slice (abi_bytes d) 32 64 = Ok (be_bytes 32 (word_of_nat (length d) :: u256))"
  "get_range (abi_bytes d) 64 (64 + length d) = Some d"
  by (simp_all add: abi_bytes_def get_range_def)

lemma opaque_data_back:
  assumes "length d + 96 < 2 ^ 64"
  shows "opaque_data_of (abi_bytes d) = Ok d"
proof -
  have len: "unat (word_of_nat (length d) :: u256) = length d"
    using assms by (simp add: unat_of_nat_small)
  have cast: "(ucast (word_of_nat (length d) :: u256) :: u64) = word_of_nat (length d)"
    using assms by (simp add: word_unat_eq_iff unsigned_ucast_eq take_bit_eq_mod len unat_of_nat_small)
  show ?thesis
    using assms length_word(1,3) [OF assms] padding_check_back [OF assms]
    by (simp add: opaque_data_of_def abi_bytes_parts Let_def len cast)
qed

lemma deposit_decode_back:
  assumes "length (opaque_bytes e) + 96 < 2 ^ 64"
  shows "deposit_decode R kk block_hash i (event_log contract e) = Ok (encode_2718 R (user_deposit kk block_hash i e))"
proof -
  have "length (abi_bytes (opaque_bytes e)) = 64 + (length (opaque_bytes e) + 31) div 32 * 32"
    by (simp add: abi_bytes_def abi_padding_def)
  then have "64 \<le> length (abi_bytes (opaque_bytes e))" "length (abi_bytes (opaque_bytes e)) mod 32 = 0"
    by simp_all
  then show ?thesis
    by (simp add: deposit_decode_def event_log_def opaque_data_back [OF assms] topic_address_back unmarshal_back
        user_deposit_def tx_deposit_default_def Let_def)
qed

text \<open>No log makes the decoder index out of range.\<close>

lemma topic_address_no_panic [simp]: "topic_address err t \<noteq> Panic"
  by (simp add: topic_address_def Let_def)

lemma opaque_data_no_panic: "64 \<le> length data \<Longrightarrow> opaque_data_of data \<noteq> Panic"
  by (auto simp: opaque_data_of_def Let_def obind_eq_Panic padding_check_def get_range_def ok_or_def split: if_splits option.splits)

lemma deposit_decode_no_panic: "deposit_decode R kk block_hash i ev \<noteq> Panic"
  using opaque_data_no_panic [of "log_data ev"]
  by (auto simp: deposit_decode_def Let_def obind_eq_Panic)

lemma derive_from_logs_no_panic: "derive_from_logs R kk block_hash contract n logs \<noteq> Panic"
  by (induction logs arbitrary: n) (auto simp: obind_eq_Panic map_err_eq_Panic deposit_decode_no_panic)

section \<open>The deposits of a block are the events of the contract\<close>

text \<open>The deposit events among the logs of the successful transactions, each with its position.\<close>

definition deposit_logs :: "address \<Rightarrow> nat \<Rightarrow> evm_log list \<Rightarrow> (nat \<times> evm_log) list" where
  "deposit_logs contract n logs = filter (\<lambda>(_, l). is_deposit_event contract l) (enumerate n logs)"

definition executed_logs :: "receipt list \<Rightarrow> evm_log list" where
  "executed_logs receipts = concat (map rc_logs (filter (\<lambda>r. rc_status r \<noteq> Eip658 False) receipts))"

lemma deposit_logs_simps [simp]:
  "deposit_logs contract n [] = []"
  "deposit_logs contract n (l # logs) =
     (if is_deposit_event contract l then [(n, l)] else []) @ deposit_logs contract (Suc n) logs"
  by (simp_all add: deposit_logs_def)

lemma event_log_is_deposit [simp]: "is_deposit_event contract (event_log contract e)"
  by (simp add: is_deposit_event_def event_log_def)

lemma derive_from_logs_back:
  assumes "map snd (deposit_logs contract n logs) = map (event_log contract) events"
    and "\<forall>e \<in> set events. length (opaque_bytes e) + 96 < 2 ^ 64"
  shows "derive_from_logs R kk h contract n logs
    = Ok (map2 (\<lambda>(i, _) e. encode_2718 R (user_deposit kk h i e)) (deposit_logs contract n logs) events)"
  using assms
proof (induction logs arbitrary: n events)
  case (Cons l logs)
  show ?case
  proof (cases "is_deposit_event contract l")
    case True
    with Cons.prems obtain e rest where "events = e # rest" "l = event_log contract e"
        "map snd (deposit_logs contract (Suc n) logs) = map (event_log contract) rest"
      by (cases events) auto
    with Cons.IH [of "Suc n" rest] Cons.prems(2) show ?thesis
      by (simp add: deposit_decode_back)
  next
    case False
    with Cons.IH [of "Suc n" events] Cons.prems show ?thesis
      by simp
  qed
qed simp

text \<open>C14. Deposits are neither lost nor invented: when the logs that carry the deposit event of the contract,
  among the logs of the successful transactions of an L1 block, are those emitted for a list of events,
  the derived transactions are exactly the deposits of these events, in order, each with the source hash
  of its position among all logs.  The minted amount is read as its low 128 bits.\<close>

theorem user_deposits_derived:
  assumes "map snd (deposit_logs contract 0 (executed_logs receipts)) = map (event_log contract) events"
    and "\<forall>e \<in> set events. length (opaque_bytes e) + 96 < 2 ^ 64"
  shows "derive_deposits R kk h receipts contract
    = Ok (map2 (\<lambda>(i, _) e. encode_2718 R (user_deposit kk h i e)) (deposit_logs contract 0 (executed_logs receipts)) events)"
  using derive_from_logs_back [OF assms] by (simp add: derive_deposits_def executed_logs_def)

definition sample_event :: deposit_event where
  "sample_event = \<lparr>de_from = 3, de_to = 4, de_mint = 5, de_value = 6, de_gas = 21000, de_is_creation = False,
     de_data = [1, 2, 3]\<rparr>"

definition sample_receipts :: "receipt list" where
  "sample_receipts = [\<lparr>rc_status = Eip658 False, rc_logs = [event_log 9 sample_event]\<rparr>,
     \<lparr>rc_status = Eip658 True, rc_logs = [event_log 8 sample_event, event_log 9 sample_event]\<rparr>]"

theorem user_deposits_derived_witness:
  "derive_deposits rlp_ref (\<lambda>bs. word_of_nat (length bs)) 7 sample_receipts 9
     = Ok [encode_2718 rlp_ref (user_deposit (\<lambda>bs. word_of_nat (length bs)) 7 1 sample_event)]"
proof -
  have logs: "deposit_logs 9 0 (executed_logs sample_receipts) = [(1, event_log 9 sample_event)]"
    by (simp add: executed_logs_def sample_receipts_def is_deposit_event_def event_log_def)
  show ?thesis
    using user_deposits_derived [of 9 sample_receipts "[sample_event]" rlp_ref "\<lambda>bs. word_of_nat (length bs)" 7]
    by (simp add: logs opaque_bytes_def sample_event_def)
qed

end
