(* ===== verification/Base_Time.thy ===== *)
theory Base_Time
  imports Block_Info
begin

text \<open>
  The metadata deposit that carries the sub-second part of a block's time from Cobalt on, of
  crates/consensus/protocol/src/base_time.rs: its calldata, its validation, and the check of a block's
  time against the schedule of the rollup configuration.
\<close>

section \<open>Updates\<close>

record base_time_update_tx =
  btu_timestamp_millis_part :: u16

datatype base_time_decode_error =
    BaseTimeMissingSelector
  | BaseTimeInvalidSelector
  | BaseTimeInvalidLength nat nat
  | NonZeroPadding
  | InvalidMillisPart base_time_update_error

datatype base_time_metadata_error =
    BaseTimeMissing
  | NotDeposit
  | InvalidSourceHash
  | InvalidSender
  | InvalidRecipient
  | NonZeroMint
  | NonZeroValue
  | InvalidGasLimit
  | SystemTransaction
  | InvalidCalldata base_time_decode_error

datatype base_time_schedule_error =
    InvalidBlockTimestamp u64 u64
  | InvalidMetadata base_time_metadata_error
  | MillisPartMismatch u16 u16

definition BLOCK_INTERVAL_MILLIS :: u16 where
  "BLOCK_INTERVAL_MILLIS = ucast NATIVE_SUBSECOND_BLOCK_INTERVAL_MILLIS"

definition BASE_TIME_SELECTOR :: bytes where
  "BASE_TIME_SELECTOR = [0x86, 0xbd, 0xf3, 0x94]"

definition CALLDATA_LEN :: nat where
  "CALLDATA_LEN = 4 + 32"

definition is_valid_timestamp_millis_part :: "u16 \<Rightarrow> bool" where
  "is_valid_timestamp_millis_part ms \<longleftrightarrow> ms < 1000 \<and> ms mod BLOCK_INTERVAL_MILLIS = 0"

definition base_time_new :: "u16 \<Rightarrow> (base_time_update_error, base_time_update_tx) outcome" where
  "base_time_new ms =
     (if \<not> is_valid_timestamp_millis_part ms then Err (InvalidTimestampMillisPart ms)
      else Ok \<lparr>btu_timestamp_millis_part = ms\<rparr>)"

definition base_time_encode :: "base_time_update_tx \<Rightarrow> bytes" where
  "base_time_encode b = BASE_TIME_SELECTOR @ replicate 30 0 @ u16_to_be_bytes (btu_timestamp_millis_part b)"

definition base_time_decode :: "bytes \<Rightarrow> (base_time_decode_error, base_time_update_tx) outcome" where
  "base_time_decode calldata =
     (if length calldata < 4 then Err BaseTimeMissingSelector
      else obind (slice calldata 0 4) (\<lambda>selector.
        if selector \<noteq> BASE_TIME_SELECTOR then Err BaseTimeInvalidSelector
        else if length calldata \<noteq> CALLDATA_LEN then Err (BaseTimeInvalidLength CALLDATA_LEN (length calldata))
        else obind (slice calldata 4 34) (\<lambda>padding.
          if \<exists>b \<in> set padding. b \<noteq> 0 then Err NonZeroPadding
          else obind (index calldata 34) (\<lambda>hi.
               obind (index calldata 35) (\<lambda>lo.
                 map_err InvalidMillisPart (base_time_new (u16_from_be_bytes [hi, lo])))))))"

definition base_time_into_deposit_tx :: "keccak \<Rightarrow> u64 \<Rightarrow> base_time_update_tx \<Rightarrow> tx_deposit" where
  "base_time_into_deposit_tx kk l2_block_number b =
     \<lparr>dep_source_hash = source_hash kk (BaseTimeSource l2_block_number), dep_from = DEPOSITOR_ACCOUNT,
      dep_to = TxCall BASE_TIME, dep_mint = 0, dep_value = 0, dep_gas_limit = REGOLITH_SYSTEM_TX_GAS,
      dep_is_system_transaction = False, dep_input = base_time_encode b\<rparr>"

section \<open>Validation\<close>

definition validate_deposit ::
    "keccak \<Rightarrow> tx_deposit \<Rightarrow> u64 \<Rightarrow> (base_time_metadata_error, base_time_update_tx) outcome" where
  "validate_deposit kk deposit block_number =
     (if dep_source_hash deposit \<noteq> source_hash kk (BaseTimeSource block_number) then Err InvalidSourceHash
      else if dep_from deposit \<noteq> DEPOSITOR_ACCOUNT then Err InvalidSender
      else if dep_to deposit \<noteq> TxCall BASE_TIME then Err InvalidRecipient
      else if dep_mint deposit \<noteq> 0 then Err NonZeroMint
      else if dep_value deposit \<noteq> 0 then Err NonZeroValue
      else if dep_gas_limit deposit \<noteq> REGOLITH_SYSTEM_TX_GAS then Err InvalidGasLimit
      else if dep_is_system_transaction deposit then Err SystemTransaction
      else map_err InvalidCalldata (base_time_decode (dep_input deposit)))"

fun as_deposit :: "base_tx_envelope \<Rightarrow> tx_deposit option" where
  "as_deposit (EnvDeposit tx) = Some tx"
| "as_deposit (EnvOther _ _) = None"

definition extract_from_transactions ::
    "keccak \<Rightarrow> base_tx_envelope list \<Rightarrow> u64 \<Rightarrow> (base_time_metadata_error, base_time_update_tx) outcome" where
  "extract_from_transactions kk transactions block_number =
     obind (if 1 < length transactions then Ok (transactions ! 1) else Err BaseTimeMissing) (\<lambda>transaction.
     obind (ok_or NotDeposit (as_deposit transaction)) (\<lambda>deposit.
       validate_deposit kk deposit block_number))"

definition extract_timestamp_ms ::
    "keccak \<Rightarrow> base_tx_envelope list \<Rightarrow> u64 \<Rightarrow> u64 \<Rightarrow> (base_time_metadata_error, u64) outcome" where
  "extract_timestamp_ms kk transactions block_number timestamp =
     obind (extract_from_transactions kk transactions block_number) (\<lambda>base_time.
       Ok (timestamp * 1000 + ucast (btu_timestamp_millis_part base_time)))"

definition validate_block_timestamp ::
    "keccak \<Rightarrow> rollup_config \<Rightarrow> base_tx_envelope list \<Rightarrow> u64 \<Rightarrow> u64 \<Rightarrow> (base_time_schedule_error, unit) outcome" where
  "validate_block_timestamp kk cfg transactions block_number timestamp =
     obind (or_panic (cobalt_activation_block_number cfg)) (\<lambda>cobalt_activation.
       case cobalt_activation of
         None \<Rightarrow> Ok ()
       | Some cobalt_activation_block \<Rightarrow>
           if saturating_sub block_number (nh_number (g_l2 (rc_genesis cfg))) < cobalt_activation_block then Ok ()
           else obind (or_panic (l2_block_timestamp_parts cfg block_number)) (\<lambda>(expected_timestamp, expected_millis_part).
             if timestamp \<noteq> expected_timestamp then Err (InvalidBlockTimestamp expected_timestamp timestamp)
             else obind (map_err InvalidMetadata (extract_from_transactions kk transactions block_number)) (\<lambda>base_time.
               if btu_timestamp_millis_part base_time \<noteq> expected_millis_part
               then Err (MillisPartMismatch expected_millis_part (btu_timestamp_millis_part base_time))
               else Ok ())))"

section \<open>Calldata is canonical\<close>

lemma base_time_decode_exact:
  "base_time_decode r = Ok b \<longleftrightarrow> r = base_time_encode b \<and> is_valid_timestamp_millis_part (btu_timestamp_millis_part b)"
proof
  assume dec: "base_time_decode r = Ok b"
  then have parts: "take 4 r = BASE_TIME_SELECTOR" "length r = 36" "\<forall>x \<in> set (take 30 (drop 4 r)). x = 0"
      "b = \<lparr>btu_timestamp_millis_part = u16_from_be_bytes [r ! 34, r ! 35]\<rparr>"
      "is_valid_timestamp_millis_part (btu_timestamp_millis_part b)"
    by (auto simp: base_time_decode_def base_time_new_def CALLDATA_LEN_def obind_eq_Ok map_err_eq_Ok split: if_splits)
  have "take 30 (drop 4 r) = replicate 30 0"
    using parts(2,3) by (intro replicate_eqI) auto
  moreover have "drop 34 r = [r ! 34, r ! 35]"
    using parts(2) by (simp add: Cons_nth_drop_Suc [symmetric])
  moreover have "r = take 4 r @ take 30 (drop 4 r) @ drop 34 r"
    using append_take_drop_id [of 4 r] append_take_drop_id [of 30 "drop 4 r"] by simp
  ultimately have "r = base_time_encode b"
    using parts(1,4) by (simp add: base_time_encode_def u16_to_from_be)
  with parts(5) show "r = base_time_encode b \<and> is_valid_timestamp_millis_part (btu_timestamp_millis_part b)"
    by simp
next
  assume enc: "r = base_time_encode b \<and> is_valid_timestamp_millis_part (btu_timestamp_millis_part b)"
  have two: "[u16_to_be_bytes w ! 0, u16_to_be_bytes w ! 1] = u16_to_be_bytes w" for w
    by (rule nth_equalityI) (auto simp: less_Suc_eq)
  show "base_time_decode r = Ok b"
    using enc two [of "btu_timestamp_millis_part b"]
    by (simp add: base_time_decode_def base_time_encode_def base_time_new_def CALLDATA_LEN_def BASE_TIME_SELECTOR_def nth_append)
qed

lemma validate_deposit_exact:
  "validate_deposit kk d n = Ok b \<longleftrightarrow>
     d = base_time_into_deposit_tx kk n b \<and> is_valid_timestamp_millis_part (btu_timestamp_millis_part b)"
  by (cases d) (auto simp: validate_deposit_def base_time_into_deposit_tx_def map_err_eq_Ok base_time_decode_exact)

lemma extract_exact:
  "extract_from_transactions kk txs n = Ok b \<longleftrightarrow> 1 < length txs \<and> txs ! 1 = EnvDeposit (base_time_into_deposit_tx kk n b)
     \<and> is_valid_timestamp_millis_part (btu_timestamp_millis_part b)"
  by (cases "txs ! 1") (auto simp: extract_from_transactions_def obind_eq_Ok validate_deposit_exact)

text \<open>No calldata makes the decoder index out of range.\<close>

lemma base_time_decode_no_panic: "base_time_decode r \<noteq> Panic"
  by (auto simp: base_time_decode_def CALLDATA_LEN_def base_time_new_def)

section \<open>The schedule\<close>

lemma parts_spec:
  assumes "schedule_ok cfg" "l2_block_timestamp_parts cfg n = Some (t, ms)"
  shows "l2_block_timestamp cfg n = Some t" "unat ms = spec_millis cfg n mod 1000"
proof -
  obtain full where full: "l2_block_timestamp_millis cfg n = Some full" "unat full = spec_millis cfg n"
    using timestamp_millis_ok [OF assms(1), of n] by blast
  with assms(2) show "l2_block_timestamp cfg n = Some t"
    by (simp add: l2_block_timestamp_parts_def l2_block_timestamp_def)
  have "ms = ucast (full mod 1000)"
    using assms(2) full(1) by (simp add: l2_block_timestamp_parts_def)
  moreover have "unat (full mod 1000) = unat full mod 1000"
    by (simp add: unat_mod)
  ultimately show "unat ms = spec_millis cfg n mod 1000"
    using full(2) by (simp add: unsigned_ucast_eq take_bit_eq_mod)
qed

text \<open>From Cobalt on the sub-second part of a scheduled time falls on a slot.\<close>

lemma scheduled_millis_valid:
  assumes "rc_block_time cfg \<noteq> 0" "schedule_switch cfg = Some a" "a \<le> blocks_since_genesis cfg n"
    and "spec_millis cfg n < 2 ^ 64 - 1" "l2_block_timestamp_parts cfg n = Some (t, ms)"
  shows "is_valid_timestamp_millis_part ms"
proof -
  let ?k = "blocks_since_genesis cfg n - a"
  have "spec_millis cfg n = (unat (g_l2_time (rc_genesis cfg)) + a * unat (rc_block_time cfg)) * 1000 + ?k * 200"
    using assms(2-4) by (simp add: spec_millis_def schedule_millis_def)
  then have "spec_millis cfg n mod 1000 = ?k * 200 mod 1000"
    by (simp only: mod_mult_self3)
  then have "unat ms = ?k * 200 mod 1000"
    using parts_spec(2) [OF _ assms(5)] assms(1) by (simp add: schedule_ok_def)
  then have "unat ms < 1000" "unat ms mod 200 = 0"
    by (simp_all add: mod_mod_cancel)
  then have "ms < 1000" "unat (ms mod 200) = 0"
    by (simp_all add: word_less_nat_alt unat_mod)
  then show ?thesis
    by (simp add: is_valid_timestamp_millis_part_def BLOCK_INTERVAL_MILLIS_def NATIVE_SUBSECOND_BLOCK_INTERVAL_MILLIS_def
        unat_eq_0)
qed

lemma validate_block_exact:
  assumes "rc_block_time cfg \<noteq> 0" "upgrade_activation_timestamp cfg Cobalt = Some ct" "unat ct * 1000 < 2 ^ 64"
    and "spec_millis cfg n < 2 ^ 64 - 1" "l2_block_timestamp_parts cfg n = Some (t, ms)"
  shows "validate_block_timestamp kk cfg txs n ts = Ok () \<longleftrightarrow>
      (is_cobalt_active cfg t \<longrightarrow> ts = t \<and> 1 < length txs
        \<and> txs ! 1 = EnvDeposit (base_time_into_deposit_tx kk n \<lparr>btu_timestamp_millis_part = ms\<rparr>))"
    "is_cobalt_active cfg t \<Longrightarrow> is_valid_timestamp_millis_part ms"
proof -
  have ok: "schedule_ok cfg"
    using assms(1) by (simp add: schedule_ok_def)
  obtain a where a: "cobalt_activation_block_number cfg = Some (Some a)" "schedule_switch cfg = Some (unat a)"
      "is_cobalt_active cfg t \<longleftrightarrow> unat a \<le> blocks_since_genesis cfg n"
    using cobalt_gates_agree [OF assms(1-3), of n] cobalt_block [OF ok] parts_spec(1) [OF ok assms(5)] by auto
  have before: "saturating_sub n (nh_number (g_l2 (rc_genesis cfg))) < a \<longleftrightarrow> \<not> is_cobalt_active cfg t"
    by (auto simp: a(3) word_less_nat_alt unat_saturating_sub blocks_since_genesis_def)
  show valid: "is_cobalt_active cfg t \<Longrightarrow> is_valid_timestamp_millis_part ms"
    using scheduled_millis_valid [OF assms(1) a(2) _ assms(4,5)] a(3) by blast
  show "validate_block_timestamp kk cfg txs n ts = Ok () \<longleftrightarrow>
      (is_cobalt_active cfg t \<longrightarrow> ts = t \<and> 1 < length txs
        \<and> txs ! 1 = EnvDeposit (base_time_into_deposit_tx kk n \<lparr>btu_timestamp_millis_part = ms\<rparr>))"
  proof (cases "is_cobalt_active cfg t")
    case True
    have "extract_from_transactions kk txs n = Ok b \<and> btu_timestamp_millis_part b = ms \<longleftrightarrow>
        1 < length txs \<and> txs ! 1 = EnvDeposit (base_time_into_deposit_tx kk n \<lparr>btu_timestamp_millis_part = ms\<rparr>)
        \<and> b = \<lparr>btu_timestamp_millis_part = ms\<rparr>" for b
      using valid [OF True] by (cases b) (auto simp: extract_exact)
    then show ?thesis
      using True before
      by (auto simp: validate_block_timestamp_def a(1) assms(5) obind_eq_Ok map_err_eq_Ok split: if_splits)
  qed (simp add: validate_block_timestamp_def a(1) before)
qed

section \<open>Properties\<close>



end
