(* ===== verification/Attributes_Builder.thy ===== *)
theory Attributes_Builder
  imports Deposits Base_Time Derivation_Pipeline
begin

text \<open>
  The stateful attributes builder (crates/consensus/derive/src/attributes/stateful.rs): it fetches the
  system configuration of the parent block, unless the caller has seeded it, and the L1 header of the
  epoch, and puts the L1 info transaction, the time update, the user deposits and the upgrade
  transactions in front of what the attributes queue appends.  The RLP package, the hash functions, the
  contract bytecode and the ABI decoder are the fields of a \<open>builder_env\<close>; the blob schedule of the L1
  configuration is part of its \<open>l1_env\<close>.
\<close>

section \<open>State\<close>

record 'bp builder_env =
  be_rlp :: rlp_codec
  be_l1 :: "'bp l1_env"
  be_upgrades :: upgrade_env
  be_abi :: abi_codec

record ('c, 'sig) l1_chain_provider = "('c, 'sig) chain_provider" +
  cp_header_by_hash :: "b256 \<Rightarrow> ('c, header) call"

record ('c, 'l) stateful_attributes_builder =
  sa_rollup_cfg :: rollup_config
  sa_config_fetcher :: 'l
  sa_receipts_fetcher :: 'c
  sa_parent_system_config :: "(l2_block_info \<times> system_config) option"

definition stateful_attributes_builder_new :: "rollup_config \<Rightarrow> 'l \<Rightarrow> 'c \<Rightarrow> ('c, 'l) stateful_attributes_builder" where
  "stateful_attributes_builder_new rcfg sys_cfg_fetcher receipts =
     \<lparr>sa_rollup_cfg = rcfg, sa_config_fetcher = sys_cfg_fetcher, sa_receipts_fetcher = receipts,
      sa_parent_system_config = None\<rparr>"

definition seed_parent_system_config ::
    "l2_block_info \<Rightarrow> system_config \<Rightarrow> ('c, 'l) stateful_attributes_builder \<Rightarrow> ('c, 'l) stateful_attributes_builder" where
  "seed_parent_system_config parent config s = s\<lparr>sa_parent_system_config := Some (parent, config)\<rparr>"

section \<open>The parts of the attributes\<close>

definition COBALT_GAS_PARAMETER_SCALING_FACTOR :: u32 where
  "COBALT_GAS_PARAMETER_SCALING_FACTOR = 10"

definition requires_system_config_refresh :: "rollup_config \<Rightarrow> u64 \<Rightarrow> u64 \<Rightarrow> bool" where
  "requires_system_config_refresh cfg two_blocks_back_l2_time target_l2_time \<longleftrightarrow>
     (\<exists>u \<in> set CONTRACT_VARIANTS. case upgrade_activation_timestamp cfg u of
        None \<Rightarrow> False | Some t \<Rightarrow> two_blocks_back_l2_time < t \<and> t \<le> target_l2_time)"

definition parent_config ::
    "'l l2_chain_provider \<Rightarrow> l2_block_info \<Rightarrow> bool \<Rightarrow> (('c, 'l) stateful_attributes_builder, system_config) action" where
  "parent_config L l2_parent stale s =
     (case sa_parent_system_config s of
        Some (parent, config) \<Rightarrow>
          if parent = l2_parent \<and> \<not> stale then (Ok config, s)
          else on_prev sa_config_fetcher sa_config_fetcher_update
                 (await (lc_system_config_by_number L (bi_number (l2_block l2_parent)) (sa_rollup_cfg s))) s
      | None \<Rightarrow> on_prev sa_config_fetcher sa_config_fetcher_update
                 (await (lc_system_config_by_number L (bi_number (l2_block l2_parent)) (sa_rollup_cfg s))) s)"

definition on_receipts :: "('c, 'a) call \<Rightarrow> (('c, 'l) stateful_attributes_builder, 'a) action" where
  "on_receipts f = on_prev sa_receipts_fetcher sa_receipts_fetcher_update (await f)"

definition first_of_epoch ::
    "'bp builder_env \<Rightarrow> block_num_hash \<Rightarrow> header \<Rightarrow> system_config \<Rightarrow> receipt list
       \<Rightarrow> (('c, 'l) stateful_attributes_builder, header \<times> bytes list \<times> system_config \<times> u64) action" where
  "first_of_epoch V epoch hdr sys_config receipts s =
     (case derive_deposits (be_rlp V) (ev_keccak (be_l1 V)) (nh_hash epoch) receipts
             (rc_deposit_contract_address (sa_rollup_cfg s)) of
        Err e \<Rightarrow> (Err (crit (BadEncoding e)), s)
      | Panic \<Rightarrow> (Panic, s)
      | Ok deposits \<Rightarrow>
         (case update_with_receipts (be_abi V) receipts (rc_l1_system_config_address (sa_rollup_cfg s))
                 (is_ecotone_active (sa_rollup_cfg s) (hd_timestamp hdr)) sys_config of
            Ok (_, sys_config) \<Rightarrow> (Ok (hdr, deposits, sys_config, 0), s)
          | _ \<Rightarrow> (Panic, s)))"

definition epoch_inputs ::
    "'bp builder_env \<Rightarrow> ('c, 'sig) l1_chain_provider \<Rightarrow> l2_block_info \<Rightarrow> block_num_hash \<Rightarrow> system_config
       \<Rightarrow> (('c, 'l) stateful_attributes_builder, header \<times> bytes list \<times> system_config \<times> u64) action" where
  "epoch_inputs V C l2_parent epoch sys_config =
     (if nh_number (l2_l1_origin l2_parent) \<noteq> nh_number epoch
      then abind (on_receipts (cp_header_by_hash C (nh_hash epoch))) (\<lambda>hdr.
           if nh_hash (l2_l1_origin l2_parent) \<noteq> hd_parent_hash hdr
           then areturn (Err (Reset (ResetAttributesBuilder
                  (BlockMismatchEpochReset epoch (l2_l1_origin l2_parent) (hd_parent_hash hdr)))))
           else abind (on_receipts (cp_receipts_by_hash C (nh_hash epoch))) (first_of_epoch V epoch hdr sys_config))
      else if nh_hash (l2_l1_origin l2_parent) \<noteq> nh_hash epoch
      then areturn (Err (Reset (ResetAttributesBuilder (BlockMismatch epoch (l2_l1_origin l2_parent)))))
      else abind (on_receipts (cp_header_by_hash C (nh_hash epoch))) (\<lambda>hdr.
           areturn (Ok (hdr, [], sys_config, l2_seq_num l2_parent + 1))))"

definition cobalt_gas_parameters :: "rollup_config \<Rightarrow> u64 \<Rightarrow> u64 \<Rightarrow> system_config \<Rightarrow> system_config" where
  "cobalt_gas_parameters cfg target_l2_time parent_time sc =
     (if is_first_block is_cobalt_active cfg target_l2_time parent_time
      then sc\<lparr>sc_gas_limit := sc_gas_limit sc div ucast COBALT_GAS_PARAMETER_SCALING_FACTOR,
              sc_eip1559_denominator := map_option
                (\<lambda>d. saturating_mul d COBALT_GAS_PARAMETER_SCALING_FACTOR) (sc_eip1559_denominator sc)\<rparr>
      else sc)"

definition upgrade_transactions :: "'bp builder_env \<Rightarrow> rollup_config \<Rightarrow> u64 \<Rightarrow> u64 \<Rightarrow> bytes list" where
  "upgrade_transactions V cfg target_l2_time parent_time =
     (let U = be_upgrades V; txs = upgrade_txs (be_rlp V) in
      (if is_ecotone_active cfg target_l2_time \<and> \<not> is_ecotone_active cfg parent_time then txs (ecotone_deposits U) else [])
      @ (if is_fjord_active cfg target_l2_time \<and> \<not> is_fjord_active cfg parent_time then txs (fjord_deposits U) else [])
      @ (if is_isthmus_active cfg target_l2_time \<and> \<not> is_isthmus_active cfg parent_time then txs (isthmus_deposits U) else [])
      @ (if is_jovian_active cfg target_l2_time \<and> \<not> is_jovian_active cfg parent_time then txs (jovian_deposits U) else []))"

text \<open>The message of an error, which the builder wraps.\<close>

fun block_info_error_string :: "block_info_error \<Rightarrow> string" where
  "block_info_error_string BadL1BlobBaseFeeScalar = ''Failed to parse the L1 blob base fee scalar''"
| "block_info_error_string BadBaseFeeScalar = ''Failed to parse the base fee scalar''"
| "block_info_error_string BadEip1559Denominator = ''Failed to parse the EIP-1559 denominator''"
| "block_info_error_string BadEip1559Elasticity = ''Failed to parse the EIP-1559 elasticity parameter''"
| "block_info_error_string BadOperatorFeeScalar = ''Failed to parse the Operator fee scalar parameter''"
| "block_info_error_string BadOperatorFeeConstant = ''Failed to parse the Operator fee constant parameter''"

definition base_time_txs ::
    "'bp builder_env \<Rightarrow> rollup_config \<Rightarrow> u64 \<Rightarrow> u64 \<Rightarrow> u16 \<Rightarrow> bytes list presult" where
  "base_time_txs V cfg target_l2_number target_l2_time target_l2_millis =
     (if is_cobalt_active cfg target_l2_time
      then obind (map_err (\<lambda>e. crit (AttributesBuilder (BaseTimeUpdate e))) (base_time_new target_l2_millis)) (\<lambda>base_time.
           Ok [encode_2718 (be_rlp V) (base_time_into_deposit_tx (ev_keccak (be_l1 V)) target_l2_number base_time)])
      else Ok [])"

definition payload_attributes_of ::
    "rollup_config \<Rightarrow> u64 \<Rightarrow> u64 \<Rightarrow> header \<Rightarrow> system_config \<Rightarrow> bytes list \<Rightarrow> payload_attributes" where
  "payload_attributes_of cfg target_l2_time parent_time l1_header sc txs =
     \<lparr>pa_timestamp = target_l2_time, pa_prev_randao = hd_mix_hash l1_header,
      pa_suggested_fee_recipient = SEQUENCER_FEE_VAULT,
      pa_withdrawals = (if is_canyon_active cfg target_l2_time then Some [] else None),
      pa_parent_beacon_block_root =
        (if is_ecotone_active cfg target_l2_time then Some (unwrap_or 0 (hd_parent_beacon_block_root l1_header)) else None),
      pa_slot_number = None, pa_target_gas_limit = None, pa_transactions = Some txs, pa_no_tx_pool = Some True,
      pa_gas_limit = Some (sc_gas_limit sc), pa_eip_1559_params = eip_1559_params sc cfg parent_time target_l2_time,
      pa_min_base_fee = (if is_jovian_active cfg target_l2_time then Some (unwrap_or 0 (sc_min_base_fee sc)) else None)\<rparr>"

definition assemble_attributes ::
    "'bp builder_env \<Rightarrow> rollup_config \<Rightarrow> l2_block_info \<Rightarrow> u64 \<Rightarrow> u16
       \<Rightarrow> header \<times> bytes list \<times> system_config \<times> u64 \<Rightarrow> payload_attributes presult" where
  "assemble_attributes V cfg l2_parent target_l2_time target_l2_millis = (\<lambda>(l1_header, deposits, sys_config, sequence_number).
     let parent_time = bi_timestamp (l2_block l2_parent) in
     if target_l2_time < hd_timestamp l1_header
     then Err (Reset (ResetAttributesBuilder (BrokenTimeInvariant (l2_l1_origin l2_parent) target_l2_time
            \<lparr>nh_number = hd_number l1_header, nh_hash = ev_hash_slow (be_l1 V) l1_header\<rparr> (hd_timestamp l1_header))))
     else
       let sc = cobalt_gas_parameters cfg target_l2_time parent_time sys_config in
       obind (map_err (\<lambda>e. crit (AttributesBuilder (Custom (block_info_error_string e))))
                (try_new_with_deposit_tx cfg (be_l1 V) sc sequence_number l1_header parent_time target_l2_time))
         (\<lambda>(_, l1_info_tx).
       obind (base_time_txs V cfg (bi_number (l2_block l2_parent) + 1) target_l2_time target_l2_millis) (\<lambda>base_time.
         Ok (payload_attributes_of cfg target_l2_time parent_time l1_header sc
               ([encode_2718 (be_rlp V) l1_info_tx] @ base_time @ deposits
                @ upgrade_transactions V cfg target_l2_time parent_time)))))"

definition prepare_payload_attributes ::
    "'bp builder_env \<Rightarrow> 'l l2_chain_provider \<Rightarrow> ('c, 'sig) l1_chain_provider \<Rightarrow> l2_block_info \<Rightarrow> block_num_hash
       \<Rightarrow> (('c, 'l) stateful_attributes_builder, payload_attributes) action" where
  "prepare_payload_attributes V L C l2_parent epoch s =
     (let cfg = sa_rollup_cfg s; target_l2_number = bi_number (l2_block l2_parent) + 1 in
      case (l2_block_timestamp_parts cfg target_l2_number, l2_block_timestamp cfg (saturating_sub target_l2_number 2)) of
        (Some (target_l2_time, target_l2_millis), Some two_blocks_back_l2_time) \<Rightarrow>
          abind (parent_config L l2_parent (requires_system_config_refresh cfg two_blocks_back_l2_time target_l2_time)) (\<lambda>sys_config.
          abind (epoch_inputs V C l2_parent epoch sys_config) (\<lambda>inputs.
            areturn (assemble_attributes V cfg l2_parent target_l2_time target_l2_millis inputs))) s
      | _ \<Rightarrow> (Panic, s))"

definition stateful_builder ::
    "'bp builder_env \<Rightarrow> 'l l2_chain_provider \<Rightarrow> ('c, 'sig) l1_chain_provider
       \<Rightarrow> ('c, 'l) stateful_attributes_builder attributes_builder" where
  "stateful_builder V L C = \<lparr>ab_prepare = prepare_payload_attributes V L C\<rparr>"

section \<open>The builder never panics\<close>

lemma parent_config_safe: "safe_action (\<lambda>s. P (sa_rollup_cfg s)) (parent_config L l2_parent stale)"
  by (auto simp: safe_action_def parent_config_def split: option.split)

lemma on_receipts_safe: "safe_action (\<lambda>s. P (sa_rollup_cfg s)) (on_receipts f)"
  by (simp add: safe_action_def on_receipts_def)

lemma first_of_epoch_safe: "safe_action (\<lambda>s. P (sa_rollup_cfg s)) (first_of_epoch V epoch hdr sc receipts)"
  using derive_from_logs_no_panic
  by (auto simp: safe_action_def first_of_epoch_def derive_deposits_def update_with_receipts_def process_logs_exact
      split: outcome.split)

lemma epoch_inputs_safe: "safe_action (\<lambda>s. P (sa_rollup_cfg s)) (epoch_inputs V C l2_parent epoch sc)"
  unfolding epoch_inputs_def
  by (auto intro!: safe_abind on_receipts_safe first_of_epoch_safe safe_areturn)

lemma l1_info_no_panic [simp]: "try_new_with_deposit_tx cfg E sc n h parent_time t \<noteq> Panic"
  using try_new_ok [of cfg E sc n h parent_time t] by (auto simp: try_new_with_deposit_tx_def)

lemma assemble_no_panic: "assemble_attributes V cfg l2_parent t ms inputs \<noteq> Panic"
  by (cases inputs) (auto simp: assemble_attributes_def Let_def obind_eq_Panic map_err_eq_Panic
      base_time_txs_def base_time_new_def split: if_splits)

lemma prepare_ok:
  assumes "rc_block_time (sa_rollup_cfg s) \<noteq> 0"
  shows "\<exists>t ms stale. l2_block_timestamp_parts (sa_rollup_cfg s) (bi_number (l2_block l2_parent) + 1) = Some (t, ms)
    \<and> prepare_payload_attributes V L C l2_parent epoch s =
        abind (parent_config L l2_parent stale) (\<lambda>sys_config.
        abind (epoch_inputs V C l2_parent epoch sys_config) (\<lambda>inputs.
          areturn (assemble_attributes V (sa_rollup_cfg s) l2_parent t ms inputs))) s"
proof -
  obtain t ms where parts: "l2_block_timestamp_parts (sa_rollup_cfg s) (bi_number (l2_block l2_parent) + 1) = Some (t, ms)"
    using timestamp_millis_ok [of "sa_rollup_cfg s" "bi_number (l2_block l2_parent) + 1"] assms
    by (auto simp: schedule_ok_def l2_block_timestamp_parts_def)
  obtain tb where "l2_block_timestamp (sa_rollup_cfg s) (saturating_sub (bi_number (l2_block l2_parent) + 1) 2) = Some tb"
    using l2_block_timestamp_total [OF assms] by blast
  with parts show ?thesis
    unfolding prepare_payload_attributes_def by (auto simp: Let_def)
qed

lemma prepare_safe:
  "safe_action (\<lambda>s. rc_block_time (sa_rollup_cfg s) \<noteq> 0) (prepare_payload_attributes V L C l2_parent epoch)"
proof -
  have safe: "safe_action (\<lambda>s. rc_block_time (sa_rollup_cfg s) \<noteq> 0)
      (abind (parent_config L l2_parent stale) (\<lambda>sys_config.
        abind (epoch_inputs V C l2_parent epoch sys_config) (\<lambda>inputs.
          areturn (assemble_attributes V cfg l2_parent t ms inputs))))" for stale cfg t ms
    by (intro safe_abind parent_config_safe epoch_inputs_safe safe_areturn assemble_no_panic)
  show ?thesis
    unfolding safe_action_def
    using prepare_ok [of _ l2_parent V L C epoch] safe [unfolded safe_action_def] by metis
qed

interpretation stateful: safe_builder "stateful_builder V L C" "\<lambda>s. rc_block_time (sa_rollup_cfg s) \<noteq> 0"
  for V :: "'bp builder_env" and L :: "'l l2_chain_provider" and C :: "('c, 'sig) l1_chain_provider"
  by unfold_locales (simp add: stateful_builder_def prepare_safe)

section \<open>What prepared attributes contain\<close>

lemma derive_from_logs_deposits:
  "derive_from_logs R kk h contract n logs = Ok res \<Longrightarrow> \<forall>b \<in> set res. \<exists>tx. b = encode_2718 R tx"
proof (induction logs arbitrary: n res)
  case (Cons l logs)
  show ?case
  proof (cases "is_deposit_event contract l")
    case True
    then obtain b rest where parts: "deposit_decode R kk h n l = Ok b"
        "derive_from_logs R kk h contract (n + 1) logs = Ok rest" "res = b # rest"
      using Cons.prems by (auto simp: obind_eq_Ok map_err_eq_Ok)
    from parts(1) have "\<exists>tx. b = encode_2718 R tx"
      by (auto simp: deposit_decode_def Let_def obind_eq_Ok split: if_splits)
    with Cons.IH [OF parts(2)] parts(3) show ?thesis
      by simp
  next
    case False
    with Cons show ?thesis
      by simp
  qed
qed simp

lemma epoch_inputs_OkD:
  assumes "epoch_inputs V C l2_parent epoch sc s = (Ok (hdr, deposits, sc', seq), s')"
  shows "\<exists>c c'. cp_header_by_hash C (nh_hash epoch) c = (Inr hdr, c')"
    "seq = (if nh_number (l2_l1_origin l2_parent) \<noteq> nh_number epoch then 0 else l2_seq_num l2_parent + 1)"
    "\<forall>b \<in> set deposits. \<exists>tx. b = encode_2718 (be_rlp V) tx"
proof -
  show "\<exists>c c'. cp_header_by_hash C (nh_hash epoch) c = (Inr hdr, c')"
    using assms
    by (auto simp: epoch_inputs_def abind_def areturn_def on_receipts_def on_prev_def await_def first_of_epoch_def
        split: if_splits outcome.splits prod.splits sum.splits)
  show "seq = (if nh_number (l2_l1_origin l2_parent) \<noteq> nh_number epoch then 0 else l2_seq_num l2_parent + 1)"
    using assms
    by (auto simp: epoch_inputs_def abind_def areturn_def first_of_epoch_def split: if_splits outcome.splits prod.splits)
  show "\<forall>b \<in> set deposits. \<exists>tx. b = encode_2718 (be_rlp V) tx"
    using assms derive_from_logs_deposits [of "be_rlp V"]
    by (fastforce simp: epoch_inputs_def abind_def areturn_def first_of_epoch_def derive_deposits_def
        split: if_splits outcome.splits prod.splits)
qed

lemma prepare_OkD:
  assumes "prepare_payload_attributes V L C l2_parent epoch s = (Ok a, s')" "rc_block_time (sa_rollup_cfg s) \<noteq> 0"
  obtains t ms hdr deposits sc seq c c' where
    "l2_block_timestamp_parts (sa_rollup_cfg s) (bi_number (l2_block l2_parent) + 1) = Some (t, ms)"
    "cp_header_by_hash C (nh_hash epoch) c = (Inr hdr, c')"
    "seq = (if nh_number (l2_l1_origin l2_parent) \<noteq> nh_number epoch then 0 else l2_seq_num l2_parent + 1)"
    "\<forall>b \<in> set deposits. \<exists>tx. b = encode_2718 (be_rlp V) tx"
    "assemble_attributes V (sa_rollup_cfg s) l2_parent t ms (hdr, deposits, sc, seq) = Ok a"
proof -
  obtain t ms stale where parts: "l2_block_timestamp_parts (sa_rollup_cfg s) (bi_number (l2_block l2_parent) + 1) = Some (t, ms)"
    and run: "prepare_payload_attributes V L C l2_parent epoch s =
        abind (parent_config L l2_parent stale) (\<lambda>sys_config.
        abind (epoch_inputs V C l2_parent epoch sys_config) (\<lambda>inputs.
          areturn (assemble_attributes V (sa_rollup_cfg s) l2_parent t ms inputs))) s"
    using prepare_ok [OF assms(2)] by blast
  from assms(1) run obtain sc0 s0 hdr deposits sc seq s1 where "parent_config L l2_parent stale s = (Ok sc0, s0)" and
      inputs: "epoch_inputs V C l2_parent epoch sc0 s0 = (Ok (hdr, deposits, sc, seq), s1)"
      "assemble_attributes V (sa_rollup_cfg s) l2_parent t ms (hdr, deposits, sc, seq) = Ok a"
    by (auto simp: abind_def areturn_def split: outcome.splits prod.splits)
  note epoch = epoch_inputs_OkD [OF inputs(1)]
  from epoch(1) obtain c c' where "cp_header_by_hash C (nh_hash epoch) c = (Inr hdr, c')"
    by blast
  from that [OF parts this epoch(2,3) inputs(2)] show thesis .
qed

lemma assemble_OkD:
  assumes "assemble_attributes V cfg l2_parent t ms (hdr, deposits, sc, seq) = Ok a"
  obtains info tx sc' base_time where
    "try_new_with_deposit_tx cfg (be_l1 V) sc' seq hdr (bi_timestamp (l2_block l2_parent)) t = Ok (info, tx)"
    "base_time_txs V cfg (bi_number (l2_block l2_parent) + 1) t ms = Ok base_time"
    "pa_transactions a = Some (encode_2718 (be_rlp V) tx # base_time @ deposits
       @ upgrade_transactions V cfg t (bi_timestamp (l2_block l2_parent)))"
    "pa_timestamp a = t" "hd_timestamp hdr \<le> t"
  using assms
  by (auto simp: assemble_attributes_def Let_def obind_eq_Ok map_err_eq_Ok payload_attributes_of_def split: if_splits)

section \<open>Blocks built from attributes\<close>

text \<open>What the execution layer makes of the bytes of a transaction, and of attributes.\<close>

fun carries :: "rlp_codec \<Rightarrow> bytes \<Rightarrow> base_tx_envelope \<Rightarrow> bool" where
  "carries R b (EnvDeposit tx) \<longleftrightarrow> deposit_decode_2718 R b = Inr (tx, [])"
| "carries R b (EnvOther ty encoded) \<longleftrightarrow> b = encoded \<and> b \<noteq> [] \<and> hd b \<noteq> DEPOSIT_TX_TYPE"

definition realises :: "rlp_codec \<Rightarrow> payload_attributes \<Rightarrow> l2_block_data \<Rightarrow> bool" where
  "realises R a block \<longleftrightarrow> hd_timestamp (blk_header block) = pa_timestamp a
     \<and> (\<forall>txs. pa_transactions a = Some txs \<longrightarrow> list_all2 (carries R) txs (blk_transactions block))"

context rlp_bounded
begin

lemma carries_deposit:
  assumes "length (dep_input tx) < 2 ^ 63"
  shows "carries R (encode_2718 R tx) e \<longleftrightarrow> e = EnvDeposit tx"
  using decode_small [OF assms, of "[]"] by (cases e) (auto simp: encode_2718_def)

end

lemma length_encode_calldata: "length (encode_calldata i) \<le> 260"
  by (cases i) (simp_all add: bedrock_encode_calldata_def ecotone_encode_calldata_def isthmus_encode_calldata_def
      jovian_encode_calldata_def selector_defs length_bodies)

lemma info_deposit:
  assumes "try_new_with_deposit_tx cfg E sc seq hdr parent_time t = Ok (info, tx)"
  shows "decode_calldata (dep_input tx) = Ok info" "length (dep_input tx) \<le> 260"
    "info_base info = info_base_new E hdr seq sc"
proof -
  have new: "try_new cfg E sc seq hdr parent_time t = Ok info" "dep_input tx = encode_calldata info"
    using assms by (auto simp: try_new_with_deposit_tx_def obind_eq_Ok into_deposit_tx_def Let_def)
  from try_new_ok [of cfg E sc seq hdr parent_time t] new(1)
  show "info_base info = info_base_new E hdr seq sc" and "decode_calldata (dep_input tx) = Ok info"
    by (auto simp: new(2) decode_encode_calldata)
  show "length (dep_input tx) \<le> 260"
    by (simp add: new(2) length_encode_calldata)
qed

text \<open>The first transactions of a block built from prepared attributes and appended ones.\<close>

lemma realised_info:
  assumes "rlp_bounded (be_rlp V)" "assemble_attributes V cfg l2_parent t ms (hdr, deposits, sc, seq) = Ok a"
    and "realises (be_rlp V) (append_txs txs a) block"
  shows "\<exists>tx rest info. blk_transactions block = EnvDeposit tx # rest \<and> decode_calldata (dep_input tx) = Ok info
      \<and> info_id info = \<lparr>nh_number = hd_number hdr, nh_hash = ev_hash_slow (be_l1 V) hdr\<rparr> \<and> info_sequence_number info = seq"
    "hd_timestamp (blk_header block) = t"
    "is_cobalt_active cfg t \<Longrightarrow> is_valid_timestamp_millis_part ms \<and> 1 < length (blk_transactions block)
      \<and> blk_transactions block ! 1 = EnvDeposit (base_time_into_deposit_tx (ev_keccak (be_l1 V))
           (bi_number (l2_block l2_parent) + 1) \<lparr>btu_timestamp_millis_part = ms\<rparr>)"
proof -
  obtain info tx sc' base_time where parts:
    "try_new_with_deposit_tx cfg (be_l1 V) sc' seq hdr (bi_timestamp (l2_block l2_parent)) t = Ok (info, tx)"
    "base_time_txs V cfg (bi_number (l2_block l2_parent) + 1) t ms = Ok base_time"
    "pa_transactions a = Some (encode_2718 (be_rlp V) tx # base_time @ deposits
       @ upgrade_transactions V cfg t (bi_timestamp (l2_block l2_parent)))"
    "pa_timestamp a = t"
    using assemble_OkD [OF assms(2)] by metis
  note carries = rlp_bounded.carries_deposit [OF assms(1)]
  note info = info_deposit [OF parts(1)]
  have all: "list_all2 (carries (be_rlp V)) (encode_2718 (be_rlp V) tx # base_time @ deposits
       @ upgrade_transactions V cfg t (bi_timestamp (l2_block l2_parent)) @ txs) (blk_transactions block)"
    using assms(3) parts(3) by (simp add: realises_def append_txs_def)
  show "hd_timestamp (blk_header block) = t"
    using assms(3) parts(3,4) by (simp add: realises_def append_txs_def)
  from all obtain e rest where block: "blk_transactions block = e # rest" "carries (be_rlp V) (encode_2718 (be_rlp V) tx) e"
      "list_all2 (carries (be_rlp V)) (base_time @ deposits
       @ upgrade_transactions V cfg t (bi_timestamp (l2_block l2_parent)) @ txs) rest"
    by (auto simp: list_all2_Cons1)
  have e: "e = EnvDeposit tx"
    using block(2) carries [of tx] info(2) by simp
  then show "\<exists>tx rest info. blk_transactions block = EnvDeposit tx # rest \<and> decode_calldata (dep_input tx) = Ok info
      \<and> info_id info = \<lparr>nh_number = hd_number hdr, nh_hash = ev_hash_slow (be_l1 V) hdr\<rparr> \<and> info_sequence_number info = seq"
    using block(1) info by (simp add: info_id_def info_sequence_number_def info_base_new_def)
  assume "is_cobalt_active cfg t"
  then have ms: "is_valid_timestamp_millis_part ms" "base_time = [encode_2718 (be_rlp V)
      (base_time_into_deposit_tx (ev_keccak (be_l1 V)) (bi_number (l2_block l2_parent) + 1) \<lparr>btu_timestamp_millis_part = ms\<rparr>)]"
    using parts(2) by (auto simp: base_time_txs_def base_time_new_def obind_eq_Ok map_err_eq_Ok split: if_splits)
  have len: "length (dep_input (base_time_into_deposit_tx kk n b)) = 36" for kk n b
    by (simp add: base_time_into_deposit_tx_def base_time_encode_def BASE_TIME_SELECTOR_def)
  show "is_valid_timestamp_millis_part ms \<and> 1 < length (blk_transactions block)
      \<and> blk_transactions block ! 1 = EnvDeposit (base_time_into_deposit_tx (ev_keccak (be_l1 V))
           (bi_number (l2_block l2_parent) + 1) \<lparr>btu_timestamp_millis_part = ms\<rparr>)"
    using block(1,3) ms carries [OF len [THEN ord_eq_less_trans]] by (auto simp: list_all2_Cons1)
qed

section \<open>The next head\<close>

text \<open>On the schedule, before Cobalt, a block is one block time after its parent.\<close>

lemma unat_next: "n \<noteq> - 1 \<Longrightarrow> unat (n + 1) = Suc (unat n)" for n :: u64
  by (simp add: unatSuc add.commute [of n] eq_neg_iff_add_eq_0)

lemma legacy_step:
  assumes "rc_block_time cfg \<noteq> 0" "\<forall>ct. upgrade_activation_timestamp cfg Cobalt = Some ct \<longrightarrow> unat ct * 1000 < 2 ^ 64"
    and "spec_millis cfg (n + 1) < 2 ^ 64 - 1" "nh_number (g_l2 (rc_genesis cfg)) \<le> n" "n \<noteq> - 1"
    and "l2_block_timestamp cfg n = Some s" "l2_block_timestamp cfg (n + 1) = Some t" "\<not> is_cobalt_active cfg t"
  shows "unat t = unat s + unat (rc_block_time cfg)"
proof -
  have ok: "schedule_ok cfg"
    using assms(1) by (simp add: schedule_ok_def)
  have suc: "unat (n + 1) = Suc (unat n)"
    using assms(5) by (rule unat_next)
  let ?k = "blocks_since_genesis cfg n"
  have k: "blocks_since_genesis cfg (n + 1) = Suc ?k"
    using assms(4) suc by (simp add: blocks_since_genesis_def word_le_nat_alt)
  have early: "Suc ?k < a" if "schedule_switch cfg = Some a" for a
  proof -
    from that obtain ct where "upgrade_activation_timestamp cfg Cobalt = Some ct"
      by (auto simp: schedule_switch_def)
    with cobalt_gates_agree [OF assms(1) this, of "n + 1"] assms(2,7,8) cobalt_block [OF ok] that k show ?thesis
      by auto
  qed
  have "n \<le> n + 1"
    using suc by (simp add: word_le_nat_alt)
  then have "spec_millis cfg n < 2 ^ 64 - 1"
    using spec_millis_mono [of n "n + 1" cfg] assms(3) by simp
  then have "spec_millis cfg n = (unat (g_l2_time (rc_genesis cfg)) + ?k * unat (rc_block_time cfg)) * 1000"
    "spec_millis cfg (n + 1) = (unat (g_l2_time (rc_genesis cfg)) + Suc ?k * unat (rc_block_time cfg)) * 1000"
    using assms(3) early by (auto simp: spec_millis_def schedule_millis_def k split: option.splits)
  then have "spec_millis cfg n div 1000 = unat (g_l2_time (rc_genesis cfg)) + ?k * unat (rc_block_time cfg)"
    "spec_millis cfg (n + 1) div 1000 = unat (g_l2_time (rc_genesis cfg)) + Suc ?k * unat (rc_block_time cfg)"
    by (simp_all only: nonzero_mult_div_cancel_right)
  then show ?thesis
    using timestamp_ok [OF ok, of n] timestamp_ok [OF ok, of "n + 1"] assms(6,7) by auto
qed

section \<open>The seeded configuration\<close>

text \<open>Without an upgrade in between, the fork predicates do not change from the grandparent on.\<close>

lemma stable_forks:
  assumes "\<not> requires_system_config_refresh cfg tb t" "pt \<le> t" "u \<in> set CONTRACT_VARIANTS"
    and "active_at (upgrade_activation_timestamp cfg u) pt"
  shows "active_at (upgrade_activation_timestamp cfg u) tb"
  using assms
  by (fastforce simp: requires_system_config_refresh_def active_at_def split: option.splits)

lemma settled_without_refresh:
  assumes "\<not> requires_system_config_refresh cfg tb t" "pt \<le> t"
  shows "settled cfg tb pt"
proof -
  have fork: "active_at (upgrade_activation_timestamp cfg u) pt \<Longrightarrow> active_at (upgrade_activation_timestamp cfg u) tb"
    if "u \<in> {Ecotone, Fjord, Granite, Holocene, Isthmus, Jovian}" for u
    using stable_forks [OF assms] that by (auto simp: CONTRACT_VARIANTS_def)
  show ?thesis
    using fork
    by (auto simp: settled_def is_first_block_def is_ecotone_active_def is_fjord_active_def is_granite_active_def
        is_holocene_active_def is_isthmus_active_def is_jovian_active_def)
qed

section \<open>Properties\<close>

text \<open>C15. From attributes to the next safe head: a block that the execution layer builds from prepared
  attributes, with any transactions of a batch appended, reads back as a head whose L1 origin is the epoch
  the attributes were prepared for and whose sequence number restarts exactly when the epoch changes; the
  head lies on the block schedule, so that derivation can go on from it, and the block passes the check of
  its time.\<close>

theorem prepared_block_is_next_head:
  assumes "rlp_bounded (be_rlp V)" "rc_block_time cfg \<noteq> 0" "sa_rollup_cfg s = cfg"
    and header: "\<forall>c hdr c'. cp_header_by_hash C (nh_hash epoch) c = (Inr hdr, c') \<longrightarrow>
      ev_hash_slow (be_l1 V) hdr = nh_hash epoch \<and> hd_number hdr = nh_number epoch"
    and "prepare_payload_attributes V L C parent epoch s = (Ok a, s')"
    and "realises (be_rlp V) (append_txs txs a) block"
    and number: "hd_number (blk_header block) = bi_number (l2_block parent) + 1"
      "nh_number (g_l2 (rc_genesis cfg)) \<le> bi_number (l2_block parent)"
      "bi_number (l2_block parent) < hd_number (blk_header block)" "hd_number (blk_header block) \<noteq> - 1"
    and cobalt: "\<forall>ct. upgrade_activation_timestamp cfg Cobalt = Some ct \<longrightarrow> unat ct * 1000 < 2 ^ 64"
      "spec_millis cfg (hd_number (blk_header block) + 1) < 2 ^ 64 - 1"
  shows "\<exists>head. from_block_and_genesis hash_slow block (rc_genesis cfg) = Ok head \<and> head_ok cfg head
    \<and> l2_block head = block_info_of hash_slow block \<and> l2_l1_origin head = epoch
    \<and> l2_seq_num head = (if nh_number (l2_l1_origin parent) \<noteq> nh_number epoch then 0 else l2_seq_num parent + 1)
    \<and> validate_block_timestamp (ev_keccak (be_l1 V)) cfg (blk_transactions block) (hd_number (blk_header block))
        (hd_timestamp (blk_header block)) = Ok ()"
proof -
  let ?n = "hd_number (blk_header block)"
  obtain t ms hdr deposits sc seq c c' where prep:
      "l2_block_timestamp_parts cfg ?n = Some (t, ms)" "cp_header_by_hash C (nh_hash epoch) c = (Inr hdr, c')"
      "seq = (if nh_number (l2_l1_origin parent) \<noteq> nh_number epoch then 0 else l2_seq_num parent + 1)"
      "assemble_attributes V cfg parent t ms (hdr, deposits, sc, seq) = Ok a"
    using prepare_OkD [OF assms(5)] assms(2,3) number(1) by metis
  note built = realised_info [OF assms(1) prep(4) assms(6)]
  have ok: "schedule_ok cfg"
    using assms(2) by (simp add: schedule_ok_def)
  note time = parts_spec(1) [OF ok prep(1)]
  obtain tx rest info where first: "blk_transactions block = EnvDeposit tx # rest" "decode_calldata (dep_input tx) = Ok info"
      "info_id info = epoch" "info_sequence_number info = seq"
    using built(1) header prep(2) by auto
  let ?head = "\<lparr>l2_block = block_info_of hash_slow block, l2_l1_origin = epoch, l2_seq_num = seq\<rparr>"
  have "from_block_and_genesis hash_slow block (rc_genesis cfg) = Ok ?head"
    using first number by (auto simp: from_block_and_genesis_def block_info_of_def Let_def)
  moreover have "head_ok cfg ?head"
    using legacy_step [OF assms(2) cobalt(1,2) _ number(4) time] number built(2)
    by (auto simp: head_ok_def block_info_of_def)
  moreover have "validate_block_timestamp (ev_keccak (be_l1 V)) cfg (blk_transactions block) ?n (hd_timestamp (blk_header block)) = Ok ()"
  proof (cases "upgrade_activation_timestamp cfg Cobalt")
    case None
    then show ?thesis
      by (simp add: validate_block_timestamp_def cobalt_activation_block_number_def activation_block_number_def)
  next
    case (Some ct)
    have "?n \<le> ?n + 1"
      using unat_next [OF number(4)] by (simp add: word_le_nat_alt)
    then have "spec_millis cfg ?n < 2 ^ 64 - 1"
      using spec_millis_mono [of ?n "?n + 1" cfg] cobalt(2) by simp
    then show ?thesis
      using validate_block_exact(1) [OF assms(2) Some _ _ prep(1)] cobalt(1) Some built(2,3) number(1) by auto
  qed
  ultimately show ?thesis
    using prep(3) by auto
qed

text \<open>C17. The configuration cache is sound: when the sequencer seeds the builder with the configuration read
  back from the block it has just built, and no upgrade activates between the grandparent and the next
  block, the builder takes the configuration the block was built from, without a fetch.  So the refresh
  test covers every block whose read-back could be incomplete.\<close>

theorem seeded_config_is_current:
  assumes "schedule_ok cfg" "bi_number (l2_block parent) < bi_number (l2_block parent) + 1"
    and "l2_block_timestamp cfg (bi_number (l2_block parent)) = Some pt"
      "l2_block_timestamp cfg (bi_number (l2_block parent) + 1) = Some t"
    and "\<not> requires_system_config_refresh cfg tb t"
    and "config_format cfg pt sc"
    and "unat (bf_max_change_denominator defaults) < 2 ^ 32" "unat (bf_elasticity_multiplier defaults) < 2 ^ 32"
    and "try_new_with_deposit_tx cfg E sc n h tb pt = Ok (info, tx)" "block_extra cfg sc defaults tb pt = Ok extra"
    and "system_config_from_transaction (EnvDeposit tx) pt (sc_gas_limit sc) extra cfg = Ok read_back"
  shows "parent_config L parent (requires_system_config_refresh cfg tb t) (seed_parent_system_config parent read_back s)
    = (Ok sc, seed_parent_system_config parent read_back s)"
proof -
  have "pt \<le> t"
    using l2_block_timestamp_monotone [OF assms(1), of "bi_number (l2_block parent)" "bi_number (l2_block parent) + 1"]
      assms(2-4) by auto
  from config_read_back [OF assms(6) settled_without_refresh [OF assms(5) this] assms(7-10)] assms(11)
  have "read_back = sc"
    by simp
  with assms(5) show ?thesis
    by (simp add: parent_config_def seed_parent_system_config_def)
qed

section \<open>A sample run\<close>

definition sample_builder_env :: "unit builder_env" where
  "sample_builder_env = \<lparr>be_rlp = rlp_ref, be_l1 = sample_env,
     be_upgrades = \<lparr>ue_keccak = ev_keccak sample_env, ue_create = (\<lambda>a _. a), ue_bytecode = (\<lambda>_. [])\<rparr>, be_abi = abi_ref\<rparr>"

definition sample_l1 :: "(unit, unit) l1_chain_provider" where
  "sample_l1 = \<lparr>cp_block_info_by_number = cp_block_info_by_number one_block, cp_receipts_by_hash = (\<lambda>_ c. (Inr [], c)),
     cp_block_info_and_transactions_by_hash = cp_block_info_and_transactions_by_hash one_block,
     cp_header_by_hash = (\<lambda>_ c. (Inr sample_header, c))\<rparr>"

definition sample_parent :: l2_block_info where
  "sample_parent = \<lparr>l2_block = \<lparr>bi_hash = 9, bi_number = 5, bi_parent_hash = 8, bi_timestamp = 10\<rparr>,
     l2_l1_origin = \<lparr>nh_number = 0, nh_hash = 1\<rparr>, l2_seq_num = 4\<rparr>"

definition sample_state :: "(unit, unit) stateful_attributes_builder" where
  "sample_state = stateful_attributes_builder_new jovian_config () ()"

lemma jovian_fields: "rc_genesis jovian_config = chain_genesis_default" "rc_block_time jovian_config = 2"
  "rc_registry jovian_config = Map.empty"
  by (simp_all add: jovian_config_def rollup_config_default_def)

lemma jovian_activation: "upgrade_activation_timestamp jovian_config u = (if u = Jovian then Some 0 else None)"
  by (cases u) (simp_all add: jovian_config_def upgrade_activation_timestamp_eq rollup_config_default_def
      upgrade_config_default_def base_upgrade_config_default_def registry_activation_def)

lemma jovian_times: "l2_block_timestamp_millis jovian_config n = Some (saturating_mul (saturating_mul n 2) 1000)"
  using unat_less_pow [of "saturating_mul n 2"]
  by (simp add: l2_block_timestamp_millis_def cobalt_activation_block_number_def activation_block_number_def Let_def
      jovian_activation jovian_fields chain_genesis_default_def saturating_sub_def saturating_add_def)

lemma sample_inputs:
  "parent_config no_chain sample_parent stale sample_state = (Ok system_config_default, sample_state)"
  "epoch_inputs sample_builder_env sample_l1 sample_parent \<lparr>nh_number = 1, nh_hash = 2\<rparr> sc sample_state
     = (Ok (sample_header, [], sc, 0), sample_state)"
  by (simp_all add: parent_config_def sample_state_def stateful_attributes_builder_new_def no_chain_def on_prev_def await_def
      epoch_inputs_def abind_def on_receipts_def sample_l1_def sample_parent_def sample_header_def first_of_epoch_def
      derive_deposits_def update_with_receipts_def config_update_logs_def)

lemma sample_prepared:
  "\<exists>a tx. prepare_payload_attributes sample_builder_env no_chain sample_l1 sample_parent
      \<lparr>nh_number = 1, nh_hash = 2\<rparr> sample_state = (Ok a, sample_state)
    \<and> pa_transactions a = Some [encode_2718 rlp_ref tx] \<and> pa_timestamp a = 12 \<and> length (dep_input tx) \<le> 260"
proof -
  have cfg: "sa_rollup_cfg sample_state = jovian_config"
    by (simp add: sample_state_def stateful_attributes_builder_new_def)
  have parent: "bi_number (l2_block sample_parent) = 5" "bi_timestamp (l2_block sample_parent) = 10"
    by (simp_all add: sample_parent_def)
  obtain info where "try_new jovian_config sample_env system_config_default 0 sample_header 10 12 = Ok info"
    using try_new_ok by blast
  then obtain tx where tx: "try_new_with_deposit_tx jovian_config sample_env system_config_default 0 sample_header 10 12 = Ok (info, tx)"
    by (simp add: try_new_with_deposit_tx_def)
  have forks: "\<not> is_cobalt_active jovian_config t" "is_jovian_active jovian_config t" for t
    by (simp_all add: is_cobalt_active_def is_jovian_active_def jovian_activation active_at_def)
  have "upgrade_transactions sample_builder_env jovian_config 12 10 = []"
    using forks(2) by (simp add: upgrade_transactions_def is_ecotone_active_def is_fjord_active_def is_granite_active_def
        is_holocene_active_def is_isthmus_active_def Let_def)
  then have "\<exists>a. assemble_attributes sample_builder_env jovian_config sample_parent 12 0 (sample_header, [], system_config_default, 0) = Ok a
      \<and> pa_transactions a = Some [encode_2718 rlp_ref tx] \<and> pa_timestamp a = 12"
    by (simp add: assemble_attributes_def parent Let_def cobalt_gas_parameters_def is_first_block_def forks base_time_txs_def
        payload_attributes_of_def sample_builder_env_def tx) (simp add: sample_header_def)
  then show ?thesis
    using info_deposit(2) [OF tx]
    by (auto simp: prepare_payload_attributes_def Let_def cfg parent l2_block_timestamp_parts_def l2_block_timestamp_def
        jovian_times saturating_mul_def saturating_sub_def abind_def sample_inputs areturn_def)
qed

theorem prepared_block_is_next_head_witness:
  "\<exists>a block head. prepare_payload_attributes sample_builder_env no_chain sample_l1 sample_parent
      \<lparr>nh_number = 1, nh_hash = 2\<rparr> sample_state = (Ok a, sample_state) \<and> realises rlp_ref (append_txs [[2, 7]] a) block
    \<and> from_block_and_genesis (\<lambda>h. 77) block chain_genesis_default = Ok head \<and> head_ok jovian_config head
    \<and> l2_l1_origin head = \<lparr>nh_number = 1, nh_hash = 2\<rparr> \<and> l2_seq_num head = 0"
proof -
  obtain a tx where a: "prepare_payload_attributes sample_builder_env no_chain sample_l1 sample_parent
      \<lparr>nh_number = 1, nh_hash = 2\<rparr> sample_state = (Ok a, sample_state)"
      "pa_transactions a = Some [encode_2718 rlp_ref tx]" "pa_timestamp a = 12" "length (dep_input tx) \<le> 260"
    using sample_prepared by blast
  let ?block = "\<lparr>blk_header = sample_header\<lparr>hd_number := 6\<rparr>, blk_transactions = [EnvDeposit tx, EnvOther TyEip1559 [2, 7]]\<rparr>"
  have V: "be_rlp sample_builder_env = rlp_ref" "be_l1 sample_builder_env = sample_env"
    by (simp_all add: sample_builder_env_def)
  have block: "realises rlp_ref (append_txs [[2, 7]] a) ?block"
    using a ref.carries_deposit [of tx "EnvDeposit tx"]
    by (simp add: realises_def append_txs_def sample_header_def DEPOSIT_TX_TYPE_def)
  have "spec_millis jovian_config 7 = 14000"
    by (simp add: spec_millis_def schedule_millis_def schedule_switch_def jovian_activation blocks_since_genesis_def
        jovian_fields chain_genesis_default_def)
  then have "\<exists>head. from_block_and_genesis (\<lambda>h. 77) ?block (rc_genesis jovian_config) = Ok head \<and> head_ok jovian_config head
    \<and> l2_block head = block_info_of (\<lambda>h. 77) ?block \<and> l2_l1_origin head = \<lparr>nh_number = 1, nh_hash = 2\<rparr>
    \<and> l2_seq_num head = (if nh_number (l2_l1_origin sample_parent) \<noteq> nh_number \<lparr>nh_number = 1, nh_hash = 2\<rparr> then 0 else l2_seq_num sample_parent + 1)
    \<and> validate_block_timestamp (ev_keccak (be_l1 sample_builder_env)) jovian_config (blk_transactions ?block) (hd_number (blk_header ?block))
        (hd_timestamp (blk_header ?block)) = Ok ()"
    using block
    by (intro prepared_block_is_next_head [OF _ _ _ _ a(1), where block = ?block and txs = "[[2, 7]]"])
      (simp_all add: V ref.rlp_bounded_axioms sample_state_def stateful_attributes_builder_new_def jovian_fields
        chain_genesis_default_def jovian_activation sample_parent_def sample_l1_def sample_header_def sample_env_def)
  with a(1) block show ?thesis
    by (auto simp: jovian_fields sample_parent_def)
qed

theorem seeded_config_is_current_witness:
  "\<exists>tx extra read_back. system_config_from_transaction (EnvDeposit tx) 12 30000000 extra jovian_config = Ok read_back
    \<and> parent_config no_chain (sample_parent\<lparr>l2_block := (l2_block sample_parent)\<lparr>bi_number := 6\<rparr>\<rparr>)
        (requires_system_config_refresh jovian_config 10 14)
        (seed_parent_system_config (sample_parent\<lparr>l2_block := (l2_block sample_parent)\<lparr>bi_number := 6\<rparr>\<rparr>) read_back sample_state)
      = (Ok jovian_system_config,
         seed_parent_system_config (sample_parent\<lparr>l2_block := (l2_block sample_parent)\<lparr>bi_number := 6\<rparr>\<rparr>) read_back sample_state)"
proof -
  obtain info tx extra where built:
      "try_new_with_deposit_tx jovian_config sample_env jovian_system_config 3 sample_header 10 12 = Ok (info, tx)"
      "block_extra jovian_config jovian_system_config \<lparr>bf_max_change_denominator = 50, bf_elasticity_multiplier = 6\<rparr> 10 12 = Ok extra"
      "system_config_from_transaction (EnvDeposit tx) 12 30000000 extra jovian_config = Ok jovian_system_config"
    using jovian_sample by blast
  have gas: "sc_gas_limit jovian_system_config = 30000000"
    by (simp add: jovian_system_config_def)
  let ?parent = "sample_parent\<lparr>l2_block := (l2_block sample_parent)\<lparr>bi_number := 6\<rparr>\<rparr>"
  have same: "\<not> requires_system_config_refresh jovian_config 10 14"
    by (simp add: requires_system_config_refresh_def jovian_activation)
  have "parent_config no_chain ?parent (requires_system_config_refresh jovian_config 10 14)
      (seed_parent_system_config ?parent jovian_system_config sample_state)
    = (Ok jovian_system_config, seed_parent_system_config ?parent jovian_system_config sample_state)"
    by (intro seeded_config_is_current [OF _ _ _ _ same jovian_format(1) _ _ built(1,2) built(3) [folded gas]])
      (simp_all add: schedule_ok_def jovian_fields sample_parent_def l2_block_timestamp_def jovian_times saturating_mul_def)
  with built(3) show ?thesis
    by blast
qed

end
