(* ===== verification/Batcher_Properties.thy ===== *)
theory Batcher_Properties
  imports Encoder_Drain Attributes_Builder
begin

text \<open>
  The batcher against derivation: what the encoder submits is what the derivation pipeline decodes, reassembles and reads
  back, and nothing is lost between the queue of blocks and the submissions.
\<close>

section \<open>Reading a channel back\<close>

text \<open>What the batcher and derivation rely on of each other's third-party code: the Brotli decoder streams what the writer
  compressed behind the version byte, an RLP string is read back with what follows it, and so is a singular batch.\<close>

locale channel_world = batcher_world V for V :: "('z, 'r) batcher_env" +
  fixes K :: "'b channel_codec" and pos :: "'b \<Rightarrow> nat" and W :: "'td wire"
  assumes brotli_back: "compressed_stream (bt_writer V) level chunks out \<Longrightarrow>
      \<exists>body. out = CHANNEL_VERSION_BROTLI # body \<and> streams pos K body (concat chunks)"
    and string_back: "length p < 2 ^ 64 \<Longrightarrow> rlp_bytes K (bt_rlp_header V False (length p) @ p @ rest) = Inr (p, rest)"
    and single_back: "rlp_single W (bt_rlp_single V b) = Inr (b, [])"
begin

lemma wire_back:
  assumes "length (batch_wire V b) < 2 ^ 64"
  shows "\<exists>p. rlp_bytes K (batch_wire V b @ rest) = Inr (p, rest) \<and> batch_decode W cfg p = Ok (Single b)"
proof -
  let ?p = "0 # bt_rlp_single V b"
  have "length ?p < 2 ^ 64"
    using assms by (simp add: batch_wire_def)
  from string_back [OF this, of rest] have "rlp_bytes K (batch_wire V b @ rest) = Inr (?p, rest)"
    by (simp add: batch_wire_def)
  moreover have "batch_decode W cfg ?p = Ok (Single b)"
    by (simp add: batch_decode_def batch_type_of_def single_back)
  ultimately show ?thesis
    by blast
qed

lemma next_batch_back:
  assumes "br_decompressed rd = done @ batch_wire V b @ rest" "br_cursor rd = length done" "length (batch_wire V b) < 2 ^ 64"
  shows "next_batch_strict K W cfg rd = (Ok (Some (Single b)), rd\<lparr>br_cursor := length (done @ batch_wire V b)\<rparr>)"
proof -
  obtain p where p: "rlp_bytes K (batch_wire V b @ rest) = Inr (p, rest)" "batch_decode W cfg p = Ok (Single b)"
    using wire_back [OF assms(3)] by blast
  have ne: "br_decompressed rd \<noteq> []" "\<not> length (br_decompressed rd) \<le> br_cursor rd"
    by (simp_all add: assms(1,2) batch_wire_def)
  then have "reader_decompress K rd = (Inr (), rd)"
    by (simp add: reader_decompress_def)
  moreover have "rlp_bytes K (drop (br_cursor rd) (br_decompressed rd)) = Inr (p, rest)"
    using p(1) by (simp add: assms(1,2))
  moreover have "length (br_decompressed rd) - length rest = length (done @ batch_wire V b)"
    by (simp add: assms(1))
  ultimately show ?thesis
    using ne(2) p(2) by (simp add: next_batch_strict_def)
qed

lemma reader_reads:
  assumes "cr_next_batch s = Some rd" "br_decompressed rd = concat (map (batch_wire V) (before @ batches))" "before @ batches \<noteq> []"
    and "br_cursor rd = length (concat (map (batch_wire V) before))" "\<forall>b \<in> set batches. length (batch_wire V b) < 2 ^ 64"
  shows "\<exists>s1. run_calls (length batches) (cr_next K W P) s = (map (\<lambda>b. Ok (Single b)) batches, s1)
    \<and> cr_next K W P s1 = (Err (Temporary NotEnoughData), next_channel s1)"
  using assms
proof (induction batches arbitrary: s rd before)
  case Nil
  have ne: "br_decompressed rd \<noteq> []"
    using Nil(2,3) by (cases before) (auto simp: batch_wire_def)
  then have "next_batch_strict K W (cr_cfg s) rd = (Ok None, rd)" "reader_decompress K rd = (Inr (), rd)"
    using Nil(2,4) by (simp_all add: next_batch_strict_def reader_decompress_def)
  then show ?case
    using Nil(1) by (simp add: cr_next_def set_batch_reader_def cr_read_def reader_next_batch_def)
next
  case (Cons b batches)
  let ?rd = "rd\<lparr>br_cursor := length (concat (map (batch_wire V) (before @ [b])))\<rparr>"
  let ?s = "s\<lparr>cr_next_batch := Some ?rd\<rparr>"
  have dec: "br_decompressed rd = concat (map (batch_wire V) before) @ batch_wire V b @ concat (map (batch_wire V) batches)"
    using Cons(3) by simp
  have "next_batch_strict K W (cr_cfg s) rd = (Ok (Some (Single b)), ?rd)"
    using next_batch_back [OF dec Cons(5)] Cons(6) by simp
  moreover have "reader_decompress K rd = (Inr (), rd)"
    using dec by (simp add: reader_decompress_def batch_wire_def)
  ultimately have nxt: "cr_next K W P s = (Ok (Single b), ?s)"
    using Cons(2) by (simp add: cr_next_def set_batch_reader_def cr_read_def reader_next_batch_def)
  have "\<exists>s1. run_calls (length batches) (cr_next K W P) ?s = (map (\<lambda>b. Ok (Single b)) batches, s1)
    \<and> cr_next K W P s1 = (Err (Temporary NotEnoughData), next_channel s1)"
    using Cons(3,6) by (intro Cons(1) [where before = "before @ [b]" and rd = ?rd]) simp_all
  then show ?case
    using nxt by auto
qed

text \<open>From a reader that was just set on the compressed stream.\<close>

lemma fresh_reader_reads:
  assumes "compressed_stream (bt_writer V) level (map (batch_wire V) batches) stream" "batches \<noteq> []"
    and "length (concat (map (batch_wire V) batches)) \<le> mx" "\<forall>b \<in> set batches. length (batch_wire V b) < 2 ^ 64"
  shows "\<exists>s1. run_calls (length batches) (cr_next K W P) (s\<lparr>cr_next_batch := Some (batch_reader_new stream mx True)\<rparr>)
      = (map (\<lambda>b. Ok (Single b)) batches, s1)
    \<and> cr_next K W P s1 = (Err (Temporary NotEnoughData), next_channel s1)"
proof -
  let ?full = "concat (map (batch_wire V) batches)" and ?rd = "batch_reader_new stream mx True"
  obtain body where body: "stream = CHANNEL_VERSION_BROTLI # body" "streams pos K body ?full"
    using brotli_back [OF assms(1)] by blast
  have full: "?full \<noteq> []"
    using assms(2) by (cases batches) (auto simp: batch_wire_def)
  have "brotli_decompress K body mx = Inr ?full"
    using brotli_loop_streams [OF body(2), of "min (length body) mx" mx "[]" "brotli_state K"] body(2) full assms(3)
    by (simp add: brotli_decompress_def streams_def)
  then have dec: "reader_decompress K ?rd = (Inr (), ?rd\<lparr>br_data := None, br_brotli_used := True, br_decompressed := ?full\<rparr>)"
    by (simp add: reader_decompress_def batch_reader_new_def body(1) decompress_brotli_def CHANNEL_VERSION_BROTLI_def
        ZLIB_DEFLATE_COMPRESSION_METHOD_def ZLIB_RESERVED_COMPRESSION_METHOD_def)
  let ?rd1 = "?rd\<lparr>br_data := None, br_brotli_used := True, br_decompressed := ?full\<rparr>"
  have dec1: "reader_decompress K ?rd1 = (Inr (), ?rd1)"
    using full by (simp add: reader_decompress_def)
  have "cr_next K W P (s\<lparr>cr_next_batch := Some ?rd\<rparr>) = cr_next K W P (s\<lparr>cr_next_batch := Some ?rd1\<rparr>)"
    by (simp add: cr_next_def set_batch_reader_def cr_read_def dec dec1 next_channel_def split: prod.split outcome.split option.split)
  moreover obtain b bs where bs: "batches = b # bs"
    using assms(2) by (cases batches) auto
  moreover have "\<exists>s1. run_calls (length batches) (cr_next K W P) (s\<lparr>cr_next_batch := Some ?rd1\<rparr>) = (map (\<lambda>b. Ok (Single b)) batches, s1)
      \<and> cr_next K W P s1 = (Err (Temporary NotEnoughData), next_channel s1)"
    using assms(2,4) by (intro reader_reads [where before = "[]" and rd = ?rd1]) (simp_all add: batch_reader_new_def)
  ultimately show ?thesis
    by simp
qed

end

section \<open>A concrete batcher\<close>

text \<open>A writer that stores its input, strings with an eight-byte length, and a flat form of singular batches.\<close>

definition stored_writer :: "bytes brotli_writer" where
  "stored_writer =
     \<lparr>bw_new = (\<lambda>out _ _ _. out), bw_write_all = (\<lambda>input z. (Inr (), z @ input)), bw_take = (\<lambda>z. (z, [])),
      bw_into_inner = (\<lambda>z. z), bw_max_compressed_size = (\<lambda>n. n)\<rparr>"

fun put_txs :: "bytes list \<Rightarrow> bytes" where
  "put_txs [] = []"
| "put_txs (t # ts) = concat (map (\<lambda>x. [1, x]) t) @ 2 # put_txs ts"

fun get_txs :: "bytes \<Rightarrow> bytes \<Rightarrow> bytes list" where
  "get_txs acc [] = []"
| "get_txs acc [tag] = [acc]"
| "get_txs acc (tag # x # r) = (if tag = 2 then acc # get_txs [] (x # r) else get_txs (acc @ [x]) r)"

lemma get_put_tx: "get_txs acc (concat (map (\<lambda>x. [1, x]) t) @ 2 # r) = (acc @ t) # get_txs [] r"
proof (induction t arbitrary: acc)
  case Nil
  show ?case
    by (cases r) simp_all
qed simp

lemma get_put_txs: "get_txs [] (put_txs ts) = ts"
  by (induction ts) (simp_all add: get_put_tx)

definition put_single :: "single_batch \<Rightarrow> bytes" where
  "put_single b = be_bytes 32 (sb_parent_hash b) @ be_bytes 8 (sb_epoch_num b) @ be_bytes 32 (sb_epoch_hash b)
     @ be_bytes 8 (sb_timestamp b) @ put_txs (sb_transactions b)"

definition get_single :: "bytes \<Rightarrow> single_batch" where
  "get_single r =
     \<lparr>sb_parent_hash = from_be (take 32 r), sb_epoch_num = from_be (take 8 (drop 32 r)),
      sb_epoch_hash = from_be (take 32 (drop 40 r)), sb_timestamp = from_be (take 8 (drop 72 r)),
      sb_transactions = get_txs [] (drop 80 r)\<rparr>"

lemma get_put_single: "get_single (put_single b) = b"
  by (cases b) (simp add: get_single_def put_single_def get_put_txs)

definition sample_batcher :: "(bytes, nat) batcher_env" where
  "sample_batcher =
     \<lparr>bt_writer = stored_writer, bt_rlp_header = (\<lambda>_ n. be_bytes 8 (word_of_nat n :: u64)), bt_rlp_single = put_single,
      bt_hash_slow = (\<lambda>h. ucast (hd_number h)), bt_fill_id = (\<lambda>n. (replicate 15 0 @ [word_of_nat n], n + 1))\<rparr>"

definition sized_codec :: "nat channel_codec" where
  "sized_codec = stored_codec\<lparr>rlp_bytes := (\<lambda>r. let n = unat (from_be (take 8 r) :: u64)
     in if length r < 8 + n then Inl [] else Inr (take n (drop 8 r), drop n (drop 8 r)))\<rparr>"

definition single_wire :: "unit wire" where
  "single_wire = leb_wire\<lparr>rlp_single := (\<lambda>r. Inr (get_single r, []))\<rparr>"

lemma stored_run:
  "cs_run stored_writer cs chunks = Ok (emitted, cs') \<Longrightarrow> emitted @ cs_compressor cs' = cs_compressor cs @ concat chunks"
proof (induction chunks arbitrary: cs emitted)
  case (Cons chunk chunks)
  then obtain rest where rest: "cs_run stored_writer \<lparr>cs_compressor = [], cs_output_size = cs_output_size cs + length (cs_compressor cs @ chunk)\<rparr> chunks
      = Ok (rest, cs')" "emitted = (cs_compressor cs @ chunk) @ rest"
    by (auto simp: cs_append_def stored_writer_def obind_eq_Ok)
  from Cons(1) [OF this(1)] show ?case
    by (simp add: rest(2))
qed simp

lemma stored_stream: "compressed_stream stored_writer level chunks out \<longleftrightarrow> out = 1 # concat chunks"
proof -
  have "\<exists>emitted cs. cs_run stored_writer c chunks = Ok (emitted, cs)" for c
  proof (induction chunks arbitrary: c)
    case (Cons chunk chunks)
    obtain out c1 where "cs_append stored_writer chunk c = (Ok out, c1)"
      by (simp add: cs_append_def stored_writer_def)
    then show ?case
      using Cons [of c1] by auto
  qed simp
  then obtain emitted cs where run: "cs_run stored_writer (cs_new stored_writer level) chunks = Ok (emitted, cs)"
    by blast
  from stored_run [OF run] have "emitted @ cs_compressor cs = 1 # concat chunks"
    by (simp add: cs_new_def stored_writer_def BROTLI_CHANNEL_VERSION_def)
  then show ?thesis
    using run by (auto simp: compressed_stream_def cs_finish_def stored_writer_def)
qed

interpretation sample: channel_world sample_batcher sized_codec "\<lambda>st. st" single_wire
proof unfold_locales
  fix input z level chunks out r p rest b
  show "\<exists>z'. bw_write_all (bt_writer sample_batcher) input z = (Inr (), z')"
    by (simp add: sample_batcher_def stored_writer_def)
  show "length out \<le> cs_max_output_size (bt_writer sample_batcher) (length (concat chunks))"
    if "compressed_stream (bt_writer sample_batcher) level chunks out" "length (concat chunks) < 2 ^ 32"
  proof -
    have "bw_max_compressed_size stored_writer n = n" for n
      by (simp add: stored_writer_def)
    then show ?thesis
      using that by (simp add: sample_batcher_def stored_stream cs_max_output_size_def usize_saturating_add_def USIZE_MAX_def)
  qed
  show "length (fst (bt_fill_id sample_batcher r)) = 16"
    by (simp add: sample_batcher_def)
  show "\<exists>body. out = CHANNEL_VERSION_BROTLI # body \<and> streams (\<lambda>st. st) sized_codec body (concat chunks)"
    if "compressed_stream (bt_writer sample_batcher) level chunks out"
    using that stored_codec_ok(3) [of "concat chunks"]
    by (simp add: sample_batcher_def stored_stream CHANNEL_VERSION_BROTLI_def streams_def sized_codec_def)
  show "rlp_bytes sized_codec (bt_rlp_header sample_batcher False (length p) @ p @ rest) = Inr (p, rest)" if "length p < 2 ^ 64"
    using that by (simp add: sized_codec_def sample_batcher_def unat_of_nat_small)
  show "rlp_single single_wire (bt_rlp_single sample_batcher b) = Inr (b, [])"
    by (simp add: single_wire_def sample_batcher_def get_put_single)
qed

text \<open>A block of the batcher: the L1 info deposit and one user transaction.\<close>

definition sample_info :: l1_block_info_tx where
  "sample_info = InfoBedrock \<lparr>lb_base = \<lparr>bb_number = 5, bb_time = 60, bb_base_fee = 7, bb_block_hash = 9, bb_sequence_number = 0,
     bb_batcher_address = 11\<rparr>, lb_l1_fee_overhead = 0, lb_l1_fee_scalar = 0\<rparr>"

definition sample_block :: l2_block_data where
  "sample_block = \<lparr>blk_header = sample_header,
     blk_transactions = [EnvDeposit (tx_deposit_default\<lparr>dep_input := encode_calldata sample_info\<rparr>), EnvOther TyEip1559 [2, 3]]\<rparr>"

definition sample_batch :: single_batch where
  "sample_batch = \<lparr>sb_parent_hash = 1, sb_epoch_num = 5, sb_epoch_hash = 9, sb_timestamp = 12, sb_transactions = [[2, 3]]\<rparr>"

lemma sample_composes: "block_to_single_batch sample_block = Ok sample_batch"
  by (simp add: block_to_single_batch_def sample_block_def decode_encode_calldata map_filter_def)
    (simp add: sample_info_def info_id_def sample_header_def sample_batch_def)

definition sample_encoder :: "(bytes, nat) batch_encoder" where
  "sample_encoder =
     \<lparr>en_rollup_config = rollup_config_default, en_config = encoder_config_default, en_l1_head = 0, en_blocks = [], en_block_cursor = 0,
      en_tip = None, en_channels = [], en_egress = egress_new, en_next_id = 0, en_rng = 0, en_blob_override = False,
      en_deferred_step_error = None\<rparr>"

definition sample_queued :: "(bytes, nat) batch_encoder" where
  "sample_queued = snd (add_block sample_batcher sample_block sample_encoder)"

lemma sample_queued_eq: "sample_queued = sample_encoder\<lparr>en_tip := Some 1, en_blocks := [sample_block]\<rparr>"
  by (simp add: sample_queued_def add_block_def sample_encoder_def sample_batcher_def sample_block_def sample_header_def)

lemma sample_wire_length: "length (batch_wire sample_batcher sample_batch) = 94"
  by (simp add: batch_wire_def sample_batcher_def put_single_def sample_batch_def)

lemma sample_fits: "block_fits sample_batcher sample_block"
  by (simp add: block_fits_def sample_composes sample_wire_length)

lemma batcher_run: "encoder_run sample_batcher sample_encoder" "encoder_run sample_batcher sample_queued"
proof -
  have "batch_encoder_new rollup_config_default encoder_config_default 0 = Ok sample_encoder"
    by (simp add: batch_encoder_new_def default_config_valid sample_encoder_def)
  moreover have "2023 \<le> ec_max_frame_size encoder_config_default"
    by (simp add: encoder_config_default_def MAX_BLOB_FRAME_SIZE_def BLOB_MAX_DATA_SIZE_def)
  ultimately show start: "encoder_run sample_batcher sample_encoder"
    by (rule run_new)
  obtain r where "add_block sample_batcher sample_block sample_encoder = (r, sample_queued)"
    by (metis prod.collapse sample_queued_def)
  from run_add_block [OF start sample_fits this] show "encoder_run sample_batcher sample_queued" .
qed

lemma sample_ids: "ids_ahead sample_batcher sample_queued" "ids_suffice sample_queued"
  by (simp_all add: ids_ahead_def blocks_left_def used_ids_def sample_queued_eq sample_encoder_def egress_new_def das_new_def
      ledger_frames_def ids_suffice_def MAX_BLOBS_PER_TX_def ready_def)

text \<open>The block is encoded into a new channel, and the encoder is idle.\<close>

definition sample_new_channel :: "bytes enc_channel" where
  "sample_new_channel =
     \<lparr>ch_id = replicate 16 0, ch_rollup_config = rollup_config_default, ch_compressor = Some (cs_new stored_writer BROTLI_LEVEL_DEFAULT),
      ch_output = [], ch_available_output = 0, ch_compressed_bytes = 0, ch_max_frame_size = MAX_BLOB_FRAME_SIZE,
      ch_compressed_size_target = None, ch_input_bytes = 0, ch_candidate_scratch = [], ch_block_start = 0, ch_blocks_added = 0,
      ch_da_backlog_bytes = 0, ch_opened_l1_block = 0, ch_deadline_l1_block = 2, ch_next_frame_number = 0, ch_terminal_pending = False,
      ch_first_confirmed_l1_block = None, ch_last_confirmed_l1_block = None\<rparr>"

lemma sample_opens:
  "open_new_channel sample_batcher 0 sample_queued = Some (sample_queued\<lparr>en_rng := 1, en_channels := [sample_new_channel]\<rparr>)"
proof -
  have "enc_channel_new stored_writer (replicate 16 0) rollup_config_default encoder_config_default 0 0 = Ok sample_new_channel"
    by (simp add: enc_channel_new_def default_config_valid)
      (simp add: encoder_config_default_def sample_new_channel_def saturating_sub_def saturating_add_def)
  moreover have "replicate 15 0 @ [word_of_nat 0] = replicate 16 (0 :: u8)"
    by (simp add: numeral_nat)
  ultimately show ?thesis
    by (simp add: open_new_channel_def sample_queued_eq sample_encoder_def sample_batcher_def)
qed

lemma sample_channel_fields:
  "ch_compressor sample_new_channel = Some (cs_new stored_writer BROTLI_LEVEL_DEFAULT)" "ch_input_bytes sample_new_channel = 0"
  "max_frame_data sample_new_channel = 130020" "ch_compressed_size_target sample_new_channel = None"
  "ch_deadline_l1_block sample_new_channel = 2" "ch_is_open sample_new_channel" "ch_is_empty sample_new_channel"
  by (simp_all add: sample_new_channel_def max_frame_data_def MAX_BLOB_FRAME_SIZE_def BLOB_MAX_DATA_SIZE_def FRAME_ENCODED_OVERHEAD_def
      ch_is_open_def ch_is_empty_def)

lemma sample_writer: "bt_writer sample_batcher = stored_writer" "cs_max_output_size stored_writer 94 = 95"
  by (simp_all add: sample_batcher_def cs_max_output_size_def stored_writer_def usize_saturating_add_def USIZE_MAX_def)

lemma sample_append:
  "cs_append (bt_writer sample_batcher) (batch_wire sample_batcher sample_batch) (cs_new stored_writer BROTLI_LEVEL_DEFAULT)
     = (Ok (1 # batch_wire sample_batcher sample_batch), \<lparr>cs_compressor = [], cs_output_size = 95\<rparr>)"
proof -
  have "cs_append stored_writer w (cs_new stored_writer BROTLI_LEVEL_DEFAULT) = (Ok (1 # w), \<lparr>cs_compressor = [], cs_output_size = Suc (length w)\<rparr>)" for w
    by (simp add: cs_append_def cs_new_def stored_writer_def BROTLI_CHANNEL_VERSION_def)
  then show ?thesis
    by (simp add: sample_wire_length sample_writer(1))
qed

lemma batcher_limits:
  "max_total_frames 95 130020 = 3" "(10000000 :: u64) \<le> max_rlp_bytes_per_channel cfg t"
  "usize_saturating_add 95 (usize_saturating_mul 3 FRAME_OVERHEAD) = 695"
  by (simp_all add: max_total_frames_def usize_div_ceil_def BLOB_MAX_DATA_SIZE_def BLOB_DERIVATION_PREFIX_SIZE_def FRAME_ENCODED_OVERHEAD_def
      usize_saturating_add_def usize_saturating_mul_def USIZE_MAX_def FRAME_OVERHEAD_def max_rlp_bytes_per_channel_def
      MAX_RLP_BYTES_PER_CHANNEL_FJORD_def MAX_RLP_BYTES_PER_CHANNEL_BEDROCK_def)

lemma sample_accepts:
  "\<exists>c. ch_add_batch sample_batcher sample_batch n sample_new_channel = (Ok Accepted, c) \<and> ch_is_open c \<and> ch_deadline_l1_block c = 2"
proof -
  define mx where "mx = max_rlp_bytes_per_channel (ch_rollup_config sample_new_channel) (sb_timestamp sample_batch)"
  have le: "10000000 \<le> mx"
    unfolding mx_def by (rule batcher_limits(2))
  have "\<not> mx < 94" "\<not> mx < 695"
    using order_trans [OF _ le, of 94] order_trans [OF _ le, of 695] by (simp_all add: not_less)
  moreover have "saturating_add (0 :: u64) 94 = 94"
    by (simp add: saturating_add_def)
  ultimately show ?thesis
    using add_batch_open [OF sample_channel_fields(1) sample_append, of n]
    by (simp add: sample_channel_fields sample_writer sample_wire_length batcher_limits MAX_FRAMES_def Let_def ch_is_open_def flip: mx_def)
qed

lemma sample_idle: "\<exists>s. step_until_idle sample_batcher sample_queued = Some (Ok (), s)"
proof -
  obtain c where c: "ch_add_batch sample_batcher sample_batch (block_da_backlog_bytes sample_block) sample_new_channel = (Ok Accepted, c)"
      "ch_is_open c" "ch_deadline_l1_block c = 2"
    using sample_accepts by blast
  let ?s = "sample_queued\<lparr>en_rng := 1, en_channels := [c], en_block_cursor := 1\<rparr>"
  have fields: "en_channels sample_queued = []" "en_deferred_step_error sample_queued = None" "en_block_cursor sample_queued = 0"
      "en_blocks sample_queued = [sample_block]" "en_l1_head sample_queued = 0"
    by (simp_all add: sample_queued_eq sample_encoder_def)
  have "step sample_batcher sample_queued = (Ok BlockEncoded, ?s)"
    by (simp add: step_def check_channel_timeout_def fields sample_composes sample_opens encode_batch_def c(1))
  moreover have "step sample_batcher ?s = (Ok Idle, ?s)"
    using c(2,3) by (simp add: step_def check_channel_timeout_def fields deadline_due_def)
  ultimately have "step_until_idle sample_batcher sample_queued = Some (Ok (), ?s)"
    by (subst step_until_idle.simps, simp) (subst step_until_idle.simps, simp)
  then show ?thesis
    by blast
qed

text \<open>So the encoder drains: a reachable state with one completely framed channel.\<close>

lemma sample_drained:
  obtains subs s c where "encode_and_drain sample_batcher sample_queued = Some (Ok subs, s)" "encoder_run sample_batcher s"
    "en_channels s = [c]" "framing_complete c" "en_blocks s = [sample_block]" "ch_block_start c = 0" "ch_blocks_added c = 1"
proof -
  have inv: "enc_inv sample_batcher sample_queued"
    using sample.run_inv [OF batcher_run(2)] .
  obtain r s where d: "encode_and_drain sample_batcher sample_queued = Some (r, s)" "enc_inv sample_batcher s" "en_blocks s = en_blocks sample_queued"
      "encoder_run sample_batcher sample_queued \<longrightarrow> encoder_run sample_batcher s"
      and r: "case r of
         Ok subs \<Rightarrow> en_block_cursor s = length (en_blocks sample_queued) \<and> \<not> has_ready_submission s
           \<and> (\<forall>c \<in> set (en_channels s). framing_complete c) \<and> list_all (\<lambda>sub. list_all deliverable (submission_payloads sub)) subs
       | Err e \<Rightarrow> stopped sample_queued e s \<and> step_until_idle sample_batcher sample_queued = Some (Err e, s)
       | Panic \<Rightarrow> False"
    using sample.encode_and_drain_returns [OF inv sample_ids] by blast
  have "\<exists>subs. r = Ok subs"
    using sample_idle r by (cases r) auto
  then obtain subs where ok: "r = Ok subs"
    by blast
  have blocks: "en_blocks s = [sample_block]" "en_block_cursor s = 1"
    using d(3) r by (simp_all add: ok sample_queued_eq)
  have q: "tiled 0 (en_channels s) 1" "\<forall>c \<in> set (en_channels s). 0 < ch_blocks_added c"
    using d(2) blocks by (auto simp: enc_inv_def egress_ok_def queue_ok_def chan_ok_def)
  have "length (en_channels s) \<le> 1" "en_channels s \<noteq> []"
    using tiled_length [OF q] q(1) by auto
  then obtain c where c: "en_channels s = [c]"
    by (cases "en_channels s") auto
  then have "ch_block_start c = 0" "ch_blocks_added c = 1"
    using q(1) by (auto simp: block_range_end_def)
  then show thesis
    using that d(1,4) batcher_run(2) c r ok blocks(1) by simp
qed

text \<open>And before it drains, its first submission is in flight.\<close>

lemma sample_submitted:
  obtains s ids where "encoder_run sample_batcher s" "map_of (eg_pending (en_egress s)) 0 = Some ids"
proof -
  have inv: "enc_inv sample_batcher sample_queued"
    using sample.run_inv [OF batcher_run(2)] .
  obtain s1 where st: "enc_inv sample_batcher s1" "kept sample_queued s1" "encoder_run sample_batcher s1" "en_block_cursor s1 = 1"
    using sample_idle sample.step_until_idle_returns [OF inv sample_ids(1)] batcher_run(2) by (fastforce simp: sample_queued_eq)
  obtain chs where fl: "flush_channels sample_batcher s1 = (Ok (), s1\<lparr>en_channels := chs\<rparr>)" "enc_inv sample_batcher (s1\<lparr>en_channels := chs\<rparr>)"
      "\<not> last_open (s1\<lparr>en_channels := chs\<rparr>)" "\<forall>c \<in> set chs. ch_deadline_l1_block c \<le> en_l1_head s1"
    using flush_keeps [OF st(1)] by blast
  let ?s = "s1\<lparr>en_channels := chs\<rparr>"
  have new: "das_artifacts (eg_artifacts (en_egress ?s)) = []" "en_next_id ?s = 0"
    using st(2) by (simp_all add: kept_def sample_queued_eq sample_encoder_def egress_new_def das_new_def)
  have left: "ids_left ?s"
    using sample_ids(2) st(2) by (intro ids_last_left sample.ids_suffice_last [OF fl(2)]) (simp add: ids_suffice_def kept_def)
  have q: "tiled 0 chs 1" "\<forall>c \<in> set chs. chan_ok sample_batcher (en_config ?s) (en_blocks ?s) (eg_artifacts (en_egress ?s)) c"
    using fl(2) st(4) by (auto simp: enc_inv_def egress_ok_def queue_ok_def)
  obtain c where c: "c \<in> set chs"
    using q(1) by (cases chs) auto
  have "\<not> framing_complete c"
  proof
    assume "framing_complete c"
    moreover obtain stream where "framed (frames_of (ch_id c) (eg_artifacts (en_egress ?s))) stream c"
      using q(2) c by (auto simp: chan_ok_def chan_holds_def holds_def)
    ultimately have "frames_of (ch_id c) (eg_artifacts (en_egress ?s)) \<noteq> []"
      using framed_whole(1) whole_channel_def by blast
    then show False
      using new(1) by (simp add: frames_of_def ledger_frames_def)
  qed
  then have ready: "has_ready_submission ?s"
    using nothing_ready_complete [of ?s] all_closed [OF fl(2,3)] fl(4) c by auto
  obtain sub s2 where n: "next_submission ?s = (Ok sub, s2)" "case sub of None \<Rightarrow> \<not> has_ready_submission ?s
       | Some x \<Rightarrow> en_next_id ?s \<in> fst ` set (eg_pending (en_egress s2))"
    using sample.next_submission_keeps [OF fl(2) left] by (fastforce split: option.splits)
  then obtain ids where "map_of (eg_pending (en_egress s2)) 0 = Some ids"
    using ready new(2) by (cases "map_of (eg_pending (en_egress s2)) 0") (auto simp: map_of_eq_None_iff split: option.splits)
  then show thesis
    using that run_submit [OF run_flush [OF st(3) fl(1)] left n(1)] by blast
qed

lemma frames_payload_length: "\<forall>f \<in> set fs. frame_wf f \<Longrightarrow> length (frames_payload fs) = Suc (sum_list (map encoded_len fs))"
  by (induction fs) (auto simp: frames_payload_def length_encode frame_wf_def)

section \<open>The transactions of a derived block\<close>

text \<open>The bytes of a deposit are carried by a deposit only, other bytes by a transaction of the batch only.\<close>

lemma carries_deposits: "list_all2 (carries R) bs txs \<Longrightarrow> \<forall>b \<in> set bs. \<exists>tx. b = encode_2718 R tx \<Longrightarrow> List.map_filter user_tx txs = []"
proof (induction bs txs rule: list_all2_induct)
  case (Cons b bs e txs)
  then show ?case
    by (cases e) (auto simp: map_filter_simps encode_2718_def)
qed (simp add: map_filter_simps)

lemma carries_others:
  "list_all2 (carries R) bs txs \<Longrightarrow> \<forall>b \<in> set bs. b \<noteq> [] \<and> hd b \<noteq> DEPOSIT_TX_TYPE \<Longrightarrow> List.map_filter user_tx txs = bs"
proof (induction bs txs rule: list_all2_induct)
  case (Cons b bs e txs)
  then show ?case
    by (cases e) (auto simp: map_filter_simps deposit_decode_2718_def typed_decode_def tx_type_of_def DEPOSIT_TX_TYPE_def
        split: list.splits if_splits)
qed (simp add: map_filter_simps)

lemma map_filter_append: "List.map_filter f (xs @ ys) = List.map_filter f xs @ List.map_filter f ys"
  by (simp add: List.map_filter_def)

lemma realised_user_txs:
  assumes "pa_transactions a = Some ts" "\<forall>b \<in> set ts. \<exists>tx. b = encode_2718 R tx" "realises R (append_txs txs a) block"
    and "\<forall>t \<in> set txs. t \<noteq> [] \<and> hd t \<noteq> DEPOSIT_TX_TYPE"
  shows "List.map_filter user_tx (blk_transactions block) = txs"
proof -
  have "list_all2 (carries R) (ts @ txs) (blk_transactions block)"
    using assms(1,3) by (simp add: realises_def append_txs_def)
  then obtain xs ys where "blk_transactions block = xs @ ys" "list_all2 (carries R) ts xs" "list_all2 (carries R) txs ys"
    by (auto simp: list_all2_append1)
  then show ?thesis
    using carries_deposits [OF _ assms(2)] carries_others [OF _ assms(4)] by (simp add: map_filter_append)
qed

lemma assembled_deposits:
  assumes "assemble_attributes V cfg parent t ms (hdr, deposits, sc, seq) = Ok a" "\<forall>b \<in> set deposits. \<exists>tx. b = encode_2718 (be_rlp V) tx"
  obtains ts where "pa_transactions a = Some ts" "\<forall>b \<in> set ts. \<exists>tx. b = encode_2718 (be_rlp V) tx" "pa_timestamp a = t"
proof -
  obtain info tx sc' base_time where parts:
    "base_time_txs V cfg (bi_number (l2_block parent) + 1) t ms = Ok base_time"
    "pa_transactions a = Some (encode_2718 (be_rlp V) tx # base_time @ deposits
       @ upgrade_transactions V cfg t (bi_timestamp (l2_block parent)))"
    "pa_timestamp a = t"
    using assemble_OkD [OF assms(1)] by metis
  have "\<forall>b \<in> set base_time. \<exists>tx. b = encode_2718 (be_rlp V) tx"
    using parts(1) by (auto simp: base_time_txs_def obind_eq_Ok split: if_splits)
  moreover have "\<forall>b \<in> set (upgrade_transactions V cfg t (bi_timestamp (l2_block parent))). \<exists>tx. b = encode_2718 (be_rlp V) tx"
    by (auto simp: upgrade_transactions_def upgrade_txs_def Let_def)
  ultimately show thesis
    using that [OF parts(2) _ parts(3)] assms(2) by auto
qed

section \<open>Properties\<close>

text \<open>C4. No block is lost or encoded twice: in every state the encoder reaches, through any sequence of its operations, the
  blocks of the channels, one channel after the other, are exactly the queued blocks before the cursor, and no channel
  is empty; only the last channel can be open, and the artifacts that are leased are those of the submissions in flight,
  each of one submission.\<close>

theorem encoder_covers_blocks:
  assumes "batcher_world V" "encoder_run V s"
  shows "concat (map (channel_blocks (en_blocks s)) (en_channels s)) = take (en_block_cursor s) (en_blocks s)
    \<and> en_block_cursor s \<le> length (en_blocks s) \<and> (\<forall>c \<in> set (en_channels s). channel_blocks (en_blocks s) c \<noteq> [])
    \<and> (\<forall>c \<in> set (butlast (en_channels s)). \<not> ch_is_open c) \<and> distinct (map ch_id (en_channels s))
    \<and> distinct (concat (map snd (eg_pending (en_egress s))))
    \<and> set (concat (map snd (eg_pending (en_egress s)))) = leased_ids (eg_artifacts (en_egress s))"
proof -
  have inv: "enc_inv V s"
    using batcher_world.run_inv [OF assms] .
  then have q: "queue_ok V (en_config s) (en_blocks s) (en_block_cursor s) (eg_artifacts (en_egress s)) (en_channels s)"
      "flight_ok (eg_pending (en_egress s)) (leased_ids (eg_artifacts (en_egress s)))"
    by (simp_all add: enc_inv_def egress_ok_def ledger_ok_def)
  have "channel_blocks (en_blocks s) c \<noteq> []" if "c \<in> set (en_channels s)" for c
    using q(1) that by (auto simp: queue_ok_def chan_ok_def chan_holds_def)
  then show ?thesis
    using q tiled_concat [of 0 "en_channels s" "en_block_cursor s" "en_blocks s"] by (simp add: queue_ok_def flight_ok_def)
qed

theorem encoder_covers_blocks_witness:
  "\<exists>subs s. encode_and_drain sample_batcher sample_queued = Some (Ok subs, s) \<and> en_channels s \<noteq> []
    \<and> concat (map (channel_blocks (en_blocks s)) (en_channels s)) = take (en_block_cursor s) (en_blocks s)"
proof -
  obtain subs s c where "encode_and_drain sample_batcher sample_queued = Some (Ok subs, s)" "encoder_run sample_batcher s" "en_channels s = [c]"
    using sample_drained by metis
  moreover from this(2) have "concat (map (channel_blocks (en_blocks s)) (en_channels s)) = take (en_block_cursor s) (en_blocks s)"
    using encoder_covers_blocks [OF sample.batcher_world_axioms, of s] by blast
  ultimately have "encode_and_drain sample_batcher sample_queued = Some (Ok subs, s) \<and> en_channels s \<noteq> []
      \<and> concat (map (channel_blocks (en_blocks s)) (en_channels s)) = take (en_block_cursor s) (en_blocks s)"
    by simp
  then show ?thesis
    by blast
qed

text \<open>C10. The encoder hands out exactly what it announces, and derivation can parse it: asking for a submission never
  panics, returns one exactly when \<open>has_ready_submission\<close> holds, with at most the configured number of blobs, and the
  frames of every blob, packed by the batcher's blob encoder, are what the pipeline decodes and parses out of it; the same
  for a frame sent as calldata.\<close>

theorem submission_parses_back:
  assumes "batcher_world V" "encoder_run V s" "ids_left s"
  shows "\<exists>sub s'. next_submission s = (Ok sub, s') \<and> (sub \<noteq> None \<longleftrightarrow> has_ready_submission s)
    \<and> (\<forall>x. sub = Some x \<longrightarrow> submission_blob_count x \<le> ec_max_blobs_per_tx (en_config s)
        \<and> (case bsub_payload x of
             PayloadBlobs bs \<Rightarrow> \<forall>b \<in> set bs. \<exists>blob payload. encode_packed (bp_frames b) = Ok blob
               \<and> bd_decode \<lparr>bd_data = Some blob, bd_calldata = None\<rparr> = Ok payload \<and> parse_frames payload = Ok (bp_frames b)
           | PayloadCalldata f \<Rightarrow> parse_frames (to_calldata f) = Ok [f]))"
proof -
  obtain sub s' where n: "next_submission s = (Ok sub, s')"
      and sub: "case sub of None \<Rightarrow> \<not> has_ready_submission s
       | Some x \<Rightarrow> has_ready_submission s \<and> submission_blob_count x \<le> ec_max_blobs_per_tx (en_config s)
           \<and> list_all deliverable (submission_payloads x)"
    using batcher_world.next_submission_keeps [OF assms(1) batcher_world.run_inv [OF assms(1,2)] assms(3)]
    by (fastforce split: option.splits)
  have blob: "\<exists>blob payload. encode_packed (bp_frames b) = Ok blob \<and> bd_decode \<lparr>bd_data = Some blob, bd_calldata = None\<rparr> = Ok payload
      \<and> parse_frames payload = Ok (bp_frames b)" if "deliverable (ArBlob b)" for b
    using that by (intro frames_through_blob) (auto simp: deliverable_def frames_payload_length blob_frame_bytes_def BLOB_CAPACITY_def
        BLOB_DERIVATION_PREFIX_SIZE_def BLOB_MAX_DATA_SIZE_def)
  have calldata: "parse_frames (to_calldata f) = Ok [f]" if "deliverable (ArCalldata f)" for f
    using that parse_payload [of "[f]"] by (simp add: deliverable_def to_calldata_def frames_payload_def)
  have "case bsub_payload x of
             PayloadBlobs bs \<Rightarrow> \<forall>b \<in> set bs. \<exists>blob payload. encode_packed (bp_frames b) = Ok blob
               \<and> bd_decode \<lparr>bd_data = Some blob, bd_calldata = None\<rparr> = Ok payload \<and> parse_frames payload = Ok (bp_frames b)
           | PayloadCalldata f \<Rightarrow> parse_frames (to_calldata f) = Ok [f]" if "list_all deliverable (submission_payloads x)" for x
    using that blob calldata by (auto simp: submission_payloads_def list_all_iff split: submission_payload.splits)
  then show ?thesis
    using n sub by (intro exI [of _ sub] exI [of _ s']) (auto split: option.splits)
qed

theorem submission_parses_back_witness:
  "\<exists>sub s'. next_submission sample_queued = (Ok sub, s') \<and> (sub \<noteq> None \<longleftrightarrow> has_ready_submission sample_queued)"
proof -
  have "ids_left sample_queued"
    by (simp add: ids_left_def sample_queued_eq sample_encoder_def egress_new_def das_new_def MAX_BLOBS_PER_TX_def)
  from submission_parses_back [OF sample.batcher_world_axioms batcher_run(2) this] show ?thesis
    by blast
qed





text \<open>C19. A submission is settled once: confirming or requeueing a submission in flight marks exactly its artifacts, and
  after that neither call has any effect for the same id.\<close>

theorem submission_settled_once:
  assumes "batcher_world V" "encoder_run V s" "map_of (eg_pending (en_egress s)) sid = Some ids"
  shows "eg_artifacts (en_egress (enc_confirm sid l1 s)) = mark Confirmed ids (eg_artifacts (en_egress s))
    \<and> eg_artifacts (en_egress (enc_requeue sid s)) = mark Ready ids (eg_artifacts (en_egress s))
    \<and> enc_confirm sid l2 (enc_confirm sid l1 s) = enc_confirm sid l1 s \<and> enc_requeue sid (enc_confirm sid l1 s) = enc_confirm sid l1 s
    \<and> enc_confirm sid l1 (enc_requeue sid s) = enc_requeue sid s \<and> enc_requeue sid (enc_requeue sid s) = enc_requeue sid s"
proof -
  have ok: "ledger_ok (en_egress s)"
    using batcher_world.run_inv [OF assms(1,2)] by (simp add: enc_inv_def egress_ok_def)
  have none: "map_of (AList.delete sid (eg_pending (en_egress s))) sid = None"
    by (simp add: delete_conv)
  have unknown: "enc_confirm sid l s' = s'" "enc_requeue sid s' = s'" if "map_of (eg_pending (en_egress s')) sid = None" for l s'
    using that by (simp_all add: enc_confirm_def enc_requeue_def settle_unknown)
  have "map_of (eg_pending (en_egress (enc_confirm sid l1 s))) sid = None" "map_of (eg_pending (en_egress (enc_requeue sid s))) sid = None"
    using none by (simp_all add: enc_confirm_def enc_requeue_def eg_settle_ok(1,2) [OF ok assms(3)])
  then show ?thesis
    by (simp add: unknown) (simp add: enc_confirm_def enc_requeue_def eg_settle_ok(1,2) [OF ok assms(3)])
qed

theorem submission_settled_once_witness:
  "\<exists>s ids. encoder_run sample_batcher s \<and> map_of (eg_pending (en_egress s)) 0 = Some ids
    \<and> eg_artifacts (en_egress (enc_requeue 0 s)) = mark Ready ids (eg_artifacts (en_egress s))
    \<and> enc_confirm 0 7 (enc_requeue 0 s) = enc_requeue 0 s"
proof -
  obtain s ids where "encoder_run sample_batcher s" "map_of (eg_pending (en_egress s)) 0 = Some ids"
    using sample_submitted .
  then show ?thesis
    using submission_settled_once [OF sample.batcher_world_axioms, of s 0 ids] by blast
qed

text \<open>C18. Replaying a channel that expired on L1 keeps the work before it: some channel at or before it and all behind that are
  dropped, the cursor returns to the first block of the first dropped channel, so its blocks are encoded again; the
  channels before keep their frames, no artifact that is left belongs to a dropped channel, and the state satisfies
  the invariant of the encoder.\<close>

theorem replay_keeps_earlier_channels:
  assumes "batcher_world V" "encoder_run V s" "j < length (en_channels s)"
  shows "\<exists>i. i \<le> j \<and> enc_inv V (invalidate_channel j s) \<and> en_blocks (invalidate_channel j s) = en_blocks s
    \<and> en_channels (invalidate_channel j s) = take i (en_channels s)
    \<and> en_block_cursor (invalidate_channel j s) = ch_block_start (en_channels s ! i)
    \<and> (\<forall>c \<in> set (take i (en_channels s)).
         frames_of (ch_id c) (eg_artifacts (en_egress (invalidate_channel j s))) = frames_of (ch_id c) (eg_artifacts (en_egress s)))
    \<and> (\<forall>a \<in> set (das_artifacts (eg_artifacts (en_egress (invalidate_channel j s)))).
         set (ar_channel_ids a) \<subseteq> ch_id ` set (take i (en_channels s)))"
proof -
  obtain i where i: "i \<le> j" "enc_inv V (invalidate_channel j s)" "en_channels (invalidate_channel j s) = take i (en_channels s)"
      "en_block_cursor (invalidate_channel j s) = ch_block_start (en_channels s ! i)" "en_blocks (invalidate_channel j s) = en_blocks s"
      "\<forall>c \<in> set (take i (en_channels s)).
         frames_of (ch_id c) (eg_artifacts (en_egress (invalidate_channel j s))) = frames_of (ch_id c) (eg_artifacts (en_egress s))"
    using invalidate_keeps [OF batcher_world.run_inv [OF assms(1,2)] assms(3)] by blast
  then have "list_all (artifact_ok (ch_id ` set (take i (en_channels s)))) (das_artifacts (eg_artifacts (en_egress (invalidate_channel j s))))"
    by (simp add: enc_inv_def egress_ok_def)
  then have "\<forall>a \<in> set (das_artifacts (eg_artifacts (en_egress (invalidate_channel j s)))).
      set (ar_channel_ids a) \<subseteq> ch_id ` set (take i (en_channels s))"
    by (auto simp: list_all_iff artifact_ok_def)
  with i show ?thesis
    by blast
qed

theorem replay_keeps_earlier_channels_witness:
  "\<exists>subs s. encode_and_drain sample_batcher sample_queued = Some (Ok subs, s)
    \<and> en_channels (invalidate_channel 0 s) = [] \<and> en_block_cursor (invalidate_channel 0 s) = 0"
proof -
  obtain subs s c where d: "encode_and_drain sample_batcher sample_queued = Some (Ok subs, s)" "encoder_run sample_batcher s"
      "en_channels s = [c]" "ch_block_start c = 0"
    using sample_drained by metis
  then have "en_channels (invalidate_channel 0 s) = [] \<and> en_block_cursor (invalidate_channel 0 s) = 0"
    using replay_keeps_earlier_channels [OF sample.batcher_world_axioms d(2), of 0] by auto
  then show ?thesis
    using d(1) by blast
qed

text \<open>C16. What derivation builds is what the batcher sends: a block that the execution layer builds from the attributes the
  attributes queue makes of a batch, on the parent of the batch and at its time, gives back exactly that batch when the
  batcher composes it, so a chain that was derived can be submitted again unchanged.\<close>

theorem derived_block_gives_batch:
  assumes "rlp_bounded (be_rlp V)" "rc_block_time (sa_rollup_cfg (aq_builder q)) \<noteq> 0"
    and header: "\<forall>c hdr c'. cp_header_by_hash C (sb_epoch_hash b) c = (Inr hdr, c') \<longrightarrow>
      ev_hash_slow (be_l1 V) hdr = sb_epoch_hash b \<and> hd_number hdr = sb_epoch_num b"
    and created: "create_next_attributes (stateful_builder V L C) b parent q = (Ok a, q')"
    and built: "realises (be_rlp V) a block" "hd_parent_hash (blk_header block) = bi_hash (l2_block parent)"
    and "pa_timestamp a = sb_timestamp b" "\<forall>t \<in> set (sb_transactions b). t \<noteq> [] \<and> hd t \<noteq> DEPOSIT_TX_TYPE"
  shows "block_to_single_batch block = Ok b"
proof -
  obtain p s' where p: "prepare_payload_attributes V L C parent (sb_epoch b) (aq_builder q) = (Ok p, s')"
      "sb_parent_hash b = bi_hash (l2_block parent)" "a = append_txs (sb_transactions b) (p\<lparr>pa_no_tx_pool := Some True\<rparr>)"
    using created
    by (auto simp: create_next_attributes_def stateful_builder_def abind_def on_prev_def areturn_def split: if_splits prod.splits outcome.splits)
  obtain t ms hdr deposits sc seq c c' where prep:
      "cp_header_by_hash C (nh_hash (sb_epoch b)) c = (Inr hdr, c')" "\<forall>b \<in> set deposits. \<exists>tx. b = encode_2718 (be_rlp V) tx"
      "assemble_attributes V (sa_rollup_cfg (aq_builder q)) parent t ms (hdr, deposits, sc, seq) = Ok p"
    using prepare_OkD [OF p(1) assms(2)] by metis
  obtain ts where ts: "pa_transactions p = Some ts" "\<forall>b \<in> set ts. \<exists>tx. b = encode_2718 (be_rlp V) tx" "pa_timestamp p = t"
    using assembled_deposits [OF prep(3,2)] .
  have real: "realises (be_rlp V) (append_txs (sb_transactions b) p) block"
    using built(1) ts(1) by (simp add: p(3) realises_def append_txs_def)
  note info = realised_info [OF assms(1) prep(3) real]
  obtain tx rest inf where first: "blk_transactions block = EnvDeposit tx # rest" "decode_calldata (dep_input tx) = Ok inf"
      "info_id inf = sb_epoch b"
  proof -
    have "\<lparr>nh_number = hd_number hdr, nh_hash = ev_hash_slow (be_l1 V) hdr\<rparr> = sb_epoch b"
      using header [rule_format, of c hdr c'] prep(1) by (simp add: sb_epoch_def)
    then show thesis
      using info(1) that by auto
  qed
  have "hd_timestamp (blk_header block) = sb_timestamp b"
    using info(2) assms(7) ts by (simp add: p(3) append_txs_def)
  then show ?thesis
    using first realised_user_txs [OF ts(1,2) real assms(8)] p(2) built(2) by (simp add: block_to_single_batch_def sb_epoch_def)
qed

theorem derived_block_gives_batch_witness:
  "\<exists>block. block_to_single_batch block
    = Ok \<lparr>sb_parent_hash = bi_hash (l2_block sample_parent), sb_epoch_num = 1, sb_epoch_hash = 2, sb_timestamp = 12, sb_transactions = [[2, 7]]\<rparr>"
proof -
  let ?b = "\<lparr>sb_parent_hash = bi_hash (l2_block sample_parent), sb_epoch_num = 1, sb_epoch_hash = 2, sb_timestamp = 12, sb_transactions = [[2, 7]]\<rparr>"
  let ?q = "attributes_queue_new jovian_config () sample_state"
  obtain a tx where a: "prepare_payload_attributes sample_builder_env no_chain sample_l1 sample_parent
      \<lparr>nh_number = 1, nh_hash = 2\<rparr> sample_state = (Ok a, sample_state)"
      "pa_transactions a = Some [encode_2718 rlp_ref tx]" "pa_timestamp a = 12" "length (dep_input tx) \<le> 260"
    using sample_prepared by blast
  let ?a = "append_txs [[2, 7]] (a\<lparr>pa_no_tx_pool := Some True\<rparr>)"
  let ?block = "\<lparr>blk_header = sample_header\<lparr>hd_parent_hash := bi_hash (l2_block sample_parent)\<rparr>,
      blk_transactions = [EnvDeposit tx, EnvOther TyEip1559 [2, 7]]\<rparr>"
  have V: "be_rlp sample_builder_env = rlp_ref" "be_l1 sample_builder_env = sample_env"
    by (simp_all add: sample_builder_env_def)
  have block: "realises rlp_ref ?a ?block"
    using a ref.carries_deposit [of tx "EnvDeposit tx"]
    by (simp add: realises_def append_txs_def sample_header_def DEPOSIT_TX_TYPE_def)
  have created: "create_next_attributes (stateful_builder sample_builder_env no_chain sample_l1) ?b sample_parent ?q = (Ok ?a, ?q)"
    using a(1) by (simp add: create_next_attributes_def stateful_builder_def abind_def on_prev_def areturn_def sb_epoch_def
        attributes_queue_new_def)
  have "block_to_single_batch ?block = Ok ?b"
    by (rule derived_block_gives_batch [OF _ _ _ created])
      (use block a in \<open>simp_all add: V ref.rlp_bounded_axioms attributes_queue_new_def sample_state_def stateful_attributes_builder_new_def
        jovian_fields sample_l1_def sample_header_def sample_env_def append_txs_def DEPOSIT_TX_TYPE_def\<close>)
  then show ?thesis
    by blast
qed

end
