(* ===== verification/Spec2Isabelle.thy ===== *)
theory Spec2Isabelle
  imports Pipeline_Run Batcher_Properties
begin

text \<open>
  \<^bold>\<open>The batch encoder and the derivation pipeline of a Base node.\<close>

  The program is the Rust workspace of a Base (OP Stack) node.  This development covers the part that
  moves L2 blocks through L1: how the batcher turns blocks into frames, blobs and calldata, how the consensus
  node reads them back, and how it prepares the attributes from which the execution layer builds a block.
  Paths below are relative to src/crates.

  \<^bold>\<open>Conventions.\<close>  Theory Prelude holds what all components share.  Machine integers are words of
  their width, so that \<open>+\<close> and \<open>-\<close> wrap as in a release build; the checked, saturating and wrapping
  variants of the sources are the functions \<open>checked_add\<close>, \<open>saturating_add\<close> and so on.  A fallible
  function returns an \<open>outcome\<close>: a value, an error of the enum of the source, or a panic.  Slicing and
  indexing go through \<open>slice\<close> and \<open>index\<close>, which panic out of range; that a function does not panic is
  therefore always a theorem.  Structs are records whose fields carry a short prefix, enums are
  datatypes, a \<open>HashMap\<close> is an association list with distinct keys, a \<open>VecDeque\<close> is a list.  A method
  with a mutable receiver takes the state and returns it with its result (\<open>action\<close> in Pipeline, composed
  by \<open>abind\<close> in the order of the source).  Word_Bytes has the big-endian encodings of words of any
  width.  Third-party code appears as the fields of a record argument (the RLP, zlib and Brotli codecs,
  the hash function, signature recovery, the L1, L2 and blob providers); the laws that are assumed of it
  are named hypotheses or locale assumptions, and every one of them is shown to hold of a concrete
  instance (\<open>rlp_ref\<close>, \<open>abi_ref\<close>, \<open>leb_wire\<close>, \<open>stored_codec\<close>, \<open>sample_batcher\<close> and others).

  \<^bold>\<open>Configuration\<close> (common/genesis/src).  Upgrades models the upgrade enum, the activation slots and the
  runtime override registry of chain/upgrade.rs.  System_Config models the system configuration and its
  updates from L1 logs (system/, updates/); System_Config_Laws shows that processing receipts applies
  exactly the well-formed updates in order and what Ecotone excludes.  Rollup_Config models rollup.rs
  with the fork predicates and the timestamp schedule; Config_Laws shows that schedule refreshes
  converge whatever their order, that activations agree however they are read, and that the saturating
  timestamp arithmetic refines the schedule on unbounded numbers.

  \<^bold>\<open>Data formats\<close> (consensus/protocol/src, batcher/blobs/src).  Frames is frame.rs with the round trip and
  an exact description of what parses.  Blob_Codec is the encoder of the batcher and the two decoders,
  with the round trip and their agreement.  Blocks and Channels are block.rs and channel.rs; Reassembly
  shows that frames in any order give back the channel, that a ready channel is whole, and that a
  channel of 65536 frames never becomes ready.  Batches models the singular and span batches and their
  validity rules (batch/), Span_Laws and Safe_Head the facts about accepted batches that the stages
  need.  Batch_Codec is the wire format of span batches with its round trip and the safety of decoding.

  \<^bold>\<open>Stages\<close> (consensus/derive/src/stages, sources, pipeline).  Pipeline and Query_Stages give the error
  classes and the stage traits as records of operations; a stage is a function of the operations of its
  predecessor, so that stages compose as the generic structs of the source do.  L1_Traversal,
  L1_Sources, Frame_Queue, Channel_Bank, Channel_Assembler, Channel_Provider, Channel_Reader,
  Batch_Stream, Batch_Queue, Batch_Validator, Batch_Provider and Attributes_Queue model one stage each,
  with every operation.  The contracts between neighbours are the locales \<open>block_source\<close>, \<open>da_source\<close>,
  \<open>data_source\<close>, \<open>frame_source\<close>, \<open>channel_source\<close>, \<open>batch_supply\<close>, \<open>batch_feed\<close>, \<open>attributes_source\<close> and
  \<open>attributes_feed\<close>; each stage is a sublocale from the contract below it to the contract it provides.
  Derivation_Pipeline models pipeline/core.rs, the signals and the composition of pipeline/builder.rs,
  with the states reached by steps, signals and drains as an inductive predicate; it shows that no
  reachable state panics and that the walk back of a reset returns.  Pipeline_Run evaluates the composed
  pipeline on a concrete chain and shows that derived batches extend the safe head.

  \<^bold>\<open>Attributes\<close> (consensus/protocol/src, consensus/upgrades/src, common/consensus/src).  Deposit_Tx models
  deposit transactions, their encoding and their source hashes.  Deposits decodes the logs of the deposit
  contract and shows that the derived deposits are exactly the emitted ones.  Upgrade_Txs lists the
  deposits of the network upgrades.  L1_Info models the L1 info transaction in its four formats, and
  Block_Info reads the block reference and the system configuration back from a block, with the round
  trip between the two.
  Base_Time models the time update transaction of sub-second blocks (base_time.rs) and shows that the
  validation of a block time is exact.  Attributes_Builder models attributes/stateful.rs: the cache of the
  parent's configuration, the inputs of the epoch and the assembled attributes.  It instantiates the
  builder contract of the pipeline (locale \<open>safe_builder\<close>) and closes the circle: a block built from
  prepared attributes reads back as the next safe head, and the configuration a sequencer seeds from its
  own block is the one the block was built from.


  \<^bold>\<open>The batcher\<close> (batcher/encoder/src, batcher/comp/src).  Encoder_Config holds the submissions, the configuration with
  its validation and the compression stream, over a Brotli writer that is a parameter (locale \<open>vec_writer\<close>:
  a writer into memory does not fail).  Encoder_Channel is composer.rs and channel.rs: a block becomes a
  singular batch, batches become compressed output, output becomes frames.  Da_Egress is artifact.rs and
  egress.rs: the plans of blobs and calldata, the ledger of artifacts and the submissions in flight.
  Batch_Encoder is encoder.rs, with one function per method of the pipeline trait.  Egress_Laws shows that
  plans are cut as planned, that frame numbers stay in range and that the ledger is consistent;
  Encoder_Laws states the invariant of the encoder (locale \<open>batcher_world\<close>) and proves it for encoding and
  submission; Encoder_Runs proves it for the other operations, replay and pruning included; Encoder_Drain
  defines the reachable states (\<open>encoder_run\<close>) and shows that the two loops of \<open>encode_and_drain\<close> return.
  Batcher_Properties states the properties and connects the batcher with derivation: what the encoder
  frames, derivation reads back (locale \<open>channel_world\<close>), and what derivation builds, the encoder composes
  into the same batch.  Hypotheses of the batcher: the frame size is at least 2023 bytes (the default is
  130043; below it the projection of the frame count in \<open>add_batch\<close> need not cover the frames of the plan),
  a block fits a buffer, drawn channel ids are not in use, and the 64-bit counters of artifacts and
  submissions do not run out.
  \<^bold>\<open>Bounds and fuel.\<close>  No function uses fuel.  Loops are structural or carry a termination proof, except for the
  walk back of a reset, which is a partial function because a provider may answer with the wrong block, and
  the two loops of \<open>encode_and_drain\<close>, which are partial functions because they need the invariant of the
  encoder; that the walk back returns is proved under the hypothesis that the provider answers with the
  block asked for, and that the loops return is proved for every reachable encoder.
  Limits such as the frame size, the channel size, the span batch size and the 64-bit address space of
  a buffer are those of the source or of the machine.

  \<^bold>\<open>Not modelled.\<close>  Logging and metrics, error messages, serde and RPC encodings; conversions from
  execution payloads, which decode the same transactions from bytes; the drivers around sockets, timers
  and databases (batcher service, consensus service, engine, gossip, providers); the execution side
  (block building, transaction pool, precompiles, tries), which is written against the traits of
  third-party clients and virtual machines and would need a model of those; proof programs and
  infrastructure tools.
\<close>

end
